(* ===== verification/Prelude.thy ===== *)
theory Prelude
  imports Main "HOL-Library.AList" "HOL-Library.Char_ord" "HOL-Library.List_Lexorder"
    "HOL-Library.Multiset" "HOL-Library.Sublist"
begin

section \<open>Shared model of the JavaScript runtime the sources use\<close>

text \<open>
  What every component shares: JavaScript comparators and the stable
  \<^verbatim>\<open>Array.prototype.sort\<close>, the string order of \<^verbatim>\<open><\<close>, insertion-ordered
  \<^verbatim>\<open>Map\<close>s and \<^verbatim>\<open>Set\<close>s, \<^verbatim>\<open>JSON.stringify\<close> of string arrays, dynamically typed
  values, and the parts of the runtime whose answers come from tables outside the
  repository (Unicode case mapping, collation, date parsing), which are the fields
  of one environment record.

  A JavaScript string is a \<^typ>\<open>string\<close>: one \<^typ>\<open>char\<close> per UTF-16 code unit, the
  code units below 256. Its order \<^verbatim>\<open><\<close> is the lexicographic order of code units.
\<close>

named_theorems comparator_intros \<open>comparators built from lawful comparators\<close>
named_theorems sort_simps \<open>what sorting keeps of a list\<close>

subsection \<open>Comparators\<close>

text \<open>
  A comparator returns a negative number, zero or a positive number, as the
  callback of \<^verbatim>\<open>Array.prototype.sort\<close> does. The standard fixes the result of a
  sort only for a consistent comparator; these are its laws.
\<close>

locale js_comparator =
  fixes cmp :: "'a \<Rightarrow> 'a \<Rightarrow> int"
  assumes flip: "sgn (cmp y x) = - sgn (cmp x y)"
    and le_trans: "cmp x y \<le> 0 \<Longrightarrow> cmp y z \<le> 0 \<Longrightarrow> cmp x z \<le> 0"
begin

lemma refl_zero [simp]: "cmp x x = 0"
  using flip [of x x] by (simp add: sgn_if split: if_splits)

lemma flip_less: "cmp x y < 0 \<longleftrightarrow> 0 < cmp y x"
  using flip [of y x] by (auto simp: sgn_if split: if_splits)

lemma flip_le: "cmp x y \<le> 0 \<longleftrightarrow> 0 \<le> cmp y x"
  using flip_less [of y x] by linarith

lemma flip_zero: "cmp x y = 0 \<longleftrightarrow> cmp y x = 0"
  using flip_le [of x y] flip_le [of y x] by linarith

lemma le_linear: "cmp x y \<le> 0 \<or> cmp y x \<le> 0"
  using flip_less [of y x] by linarith

lemma zero_trans: "cmp x y = 0 \<Longrightarrow> cmp y z = 0 \<Longrightarrow> cmp x z = 0"
  using le_trans [of x y z] le_trans [of z y x] flip_le flip_zero
  by (metis order.antisym order.refl)

lemma zero_cong: "cmp x y = 0 \<Longrightarrow> sgn (cmp x z) = sgn (cmp y z)"
  by (smt (verit) flip_le flip_zero le_trans sgn_if)

end

definition or_else :: "int \<Rightarrow> int \<Rightarrow> int" where
  \<comment> \<open>JavaScript's \<open>a || b\<close> on numbers\<close>
  "or_else a b = (if a \<noteq> 0 then a else b)"

lemma or_else_simps [simp]: "or_else 0 b = b" "a \<noteq> 0 \<Longrightarrow> or_else a b = a"
  by (simp_all add: or_else_def)

lemma or_else_zero_iff: "or_else a b = 0 \<longleftrightarrow> a = 0 \<and> b = 0"
  by (simp add: or_else_def)

lemma js_comparator_pullback [comparator_intros]:
  "js_comparator c \<Longrightarrow> js_comparator (\<lambda>x y. c (f x) (f y))"
  by unfold_locales (erule js_comparator.flip, erule js_comparator.le_trans)

lemma js_comparator_or_else [comparator_intros]:
  assumes "js_comparator c" and "js_comparator d"
  shows "js_comparator (\<lambda>x y. or_else (c x y) (d x y))"
proof
  fix x y
  show "sgn (or_else (c y x) (d y x)) = - sgn (or_else (c x y) (d x y))"
    using js_comparator.flip [OF assms(1), of y x] js_comparator.flip [OF assms(2), of y x]
    by (cases "c x y = 0") (auto simp: sgn_if or_else_def split: if_splits)
next
  fix x y z
  assume xy: "or_else (c x y) (d x y) \<le> 0" and yz: "or_else (c y z) (d y z) \<le> 0"
  then have cxy: "c x y \<le> 0" and cyz: "c y z \<le> 0"
    by (auto simp: or_else_def split: if_splits)
  have cxz: "c x z \<le> 0" by (rule js_comparator.le_trans [OF assms(1) cxy cyz])
  show "or_else (c x z) (d x z) \<le> 0"
  proof (cases "c x z = 0")
    case True
    then have "c z x \<le> 0" using js_comparator.flip_zero [OF assms(1), of x z] by simp
    then have "c y x \<le> 0" "c z y \<le> 0"
      using js_comparator.le_trans [OF assms(1)] cxy cyz by blast+
    then have "c x y = 0" "c y z = 0"
      using cxy cyz js_comparator.flip_le [OF assms(1)] by (metis order.antisym)+
    with xy yz have "d x z \<le> 0"
      using js_comparator.le_trans [OF assms(2), of x y z] by simp
    with True show ?thesis by simp
  next
    case False
    with cxz show ?thesis by simp
  qed
qed

lemma js_comparator_flipped [comparator_intros]:
  "js_comparator c \<Longrightarrow> js_comparator (\<lambda>x y. c y x)"
  by unfold_locales (erule js_comparator.flip, erule js_comparator.le_trans)

definition order_cmp :: "'a::linorder \<Rightarrow> 'a \<Rightarrow> int" where
  \<comment> \<open>the ternary \<open>a < b ? -1 : a > b ? 1 : 0\<close>\<close>
  "order_cmp a b = (if a < b then - 1 else if b < a then 1 else 0)"

lemma order_cmp_simps [simp]:
  "order_cmp a b = 0 \<longleftrightarrow> a = b" "order_cmp a b < 0 \<longleftrightarrow> a < b"
  "0 < order_cmp a b \<longleftrightarrow> b < a" "order_cmp a b \<le> 0 \<longleftrightarrow> a \<le> b"
  by (auto simp: order_cmp_def not_less)

lemma js_comparator_order_cmp [comparator_intros]: "js_comparator order_cmp"
proof
  fix x y :: 'a
  show "sgn (order_cmp y x) = - sgn (order_cmp x y)"
    by (auto simp: order_cmp_def)
next
  fix x y z :: 'a
  assume "order_cmp x y \<le> 0" "order_cmp y z \<le> 0"
  then show "order_cmp x z \<le> 0" by simp
qed

lemma js_comparator_minus [comparator_intros]: "js_comparator (\<lambda>x y :: int. x - y)"
  by unfold_locales (auto simp: sgn_if)

definition optional_cmp :: "('a \<Rightarrow> 'a \<Rightarrow> int) \<Rightarrow> 'a option \<Rightarrow> 'a option \<Rightarrow> int" where
  \<comment> \<open>\<open>null\<close> sorts first, two values by the given comparator\<close>
  "optional_cmp c a b =
     (case (a, b) of
        (None, None) \<Rightarrow> 0 | (None, Some _) \<Rightarrow> - 1 | (Some _, None) \<Rightarrow> 1
      | (Some x, Some y) \<Rightarrow> c x y)"

lemma js_comparator_optional [comparator_intros]:
  assumes "js_comparator c"
  shows "js_comparator (optional_cmp c)"
proof
  fix x y
  show "sgn (optional_cmp c y x) = - sgn (optional_cmp c x y)"
    by (cases x; cases y) (auto simp: optional_cmp_def intro: js_comparator.flip [OF assms])
next
  fix x y z
  assume "optional_cmp c x y \<le> 0" "optional_cmp c y z \<le> 0"
  then show "optional_cmp c x z \<le> 0"
    using js_comparator.le_trans [OF assms]
    by (auto simp: optional_cmp_def split: option.splits)
qed

subsection \<open>Stable sorting\<close>

text \<open>
  \<^verbatim>\<open>Array.prototype.sort\<close> is stable. For a lawful comparator the stable sorted
  arrangement of an array is unique, so which algorithm computes it is not
  observable; the model inserts from the right.
\<close>

fun insert_by :: "('a \<Rightarrow> 'a \<Rightarrow> int) \<Rightarrow> 'a \<Rightarrow> 'a list \<Rightarrow> 'a list" where
  "insert_by cmp x [] = [x]"
| "insert_by cmp x (y # ys) = (if cmp x y \<le> 0 then x # y # ys else y # insert_by cmp x ys)"

definition sort_by :: "('a \<Rightarrow> 'a \<Rightarrow> int) \<Rightarrow> 'a list \<Rightarrow> 'a list" where
  "sort_by cmp xs = foldr (insert_by cmp) xs []"

lemma sort_by_simps [simp]:
  "sort_by cmp [] = []" "sort_by cmp (x # xs) = insert_by cmp x (sort_by cmp xs)"
  by (simp_all add: sort_by_def)

lemma mset_insert_by [sort_simps]: "mset (insert_by cmp x xs) = add_mset x (mset xs)"
  by (induction xs) auto

lemma mset_sort_by [sort_simps]: "mset (sort_by cmp xs) = mset xs"
  by (induction xs) (auto simp: mset_insert_by)

lemma set_sort_by [sort_simps, simp]: "set (sort_by cmp xs) = set xs"
  using mset_sort_by by (metis set_mset_mset)

lemma length_sort_by [sort_simps, simp]: "length (sort_by cmp xs) = length xs"
  using mset_sort_by by (metis size_mset)

lemma distinct_sort_by [sort_simps, simp]: "distinct (sort_by cmp xs) = distinct xs"
  using mset_sort_by by (metis mset_eq_imp_distinct_iff)

lemma distinct_map_sort_by [sort_simps]:
  "distinct (map f (sort_by cmp xs)) = distinct (map f xs)"
  using mset_sort_by by (metis mset_eq_imp_distinct_iff mset_map)

lemma insert_by_cong:
  assumes "\<And>y. y \<in> set ys \<Longrightarrow> c x y \<le> 0 \<longleftrightarrow> d x y \<le> 0"
  shows "insert_by c x ys = insert_by d x ys"
  using assms by (induction ys) auto

lemma sort_by_cong:
  assumes "distinct xs"
    and "\<And>x y. x \<in> set xs \<Longrightarrow> y \<in> set xs \<Longrightarrow> x \<noteq> y \<Longrightarrow> c x y \<le> 0 \<longleftrightarrow> d x y \<le> 0"
  shows "sort_by c xs = sort_by d xs"
  using assms
proof (induction xs)
  case (Cons x xs)
  then have "sort_by c xs = sort_by d xs" by auto
  moreover have "insert_by c x (sort_by d xs) = insert_by d x (sort_by d xs)"
    by (rule insert_by_cong) (use Cons.prems in auto)
  ultimately show ?case by simp
qed simp

lemma sort_by_eq_Nil [simp]: "sort_by cmp xs = [] \<longleftrightarrow> xs = []"
  using length_sort_by [of cmp xs] by (metis length_0_conv)

context js_comparator
begin

lemma sorted_insert_by:
  "sorted_wrt (\<lambda>x y. cmp x y \<le> 0) xs \<Longrightarrow> sorted_wrt (\<lambda>x y. cmp x y \<le> 0) (insert_by cmp x xs)"
proof (induction xs)
  case Nil
  then show ?case by simp
next
  case (Cons y ys)
  have set_ins: "set (insert_by cmp x ys) = insert x (set ys)"
    using mset_insert_by [of cmp x ys] by (metis set_mset_add_mset_insert set_mset_mset)
  show ?case
  proof (cases "cmp x y \<le> 0")
    case True
    with Cons.prems show ?thesis by (auto intro: le_trans)
  next
    case False
    with Cons le_linear [of x y] show ?thesis by (auto simp: set_ins)
  qed
qed

lemma sorted_sort_by: "sorted_wrt (\<lambda>x y. cmp x y \<le> 0) (sort_by cmp xs)"
  by (induction xs) (simp_all add: sorted_insert_by)

text \<open>Sorting a list whose distinct elements never compare equal forgets the input's order.\<close>

lemma sorted_unique:
  assumes "sorted_wrt (\<lambda>x y. cmp x y \<le> 0) xs" and "sorted_wrt (\<lambda>x y. cmp x y \<le> 0) ys"
    and "mset xs = mset ys" and "\<And>x y. x \<in> set xs \<Longrightarrow> y \<in> set xs \<Longrightarrow> cmp x y = 0 \<Longrightarrow> x = y"
  shows "xs = ys"
  using assms
proof (induction xs arbitrary: ys)
  case Nil
  then show ?case by simp
next
  case (Cons x xs)
  from Cons.prems(3) obtain y ys' where ys: "ys = y # ys'"
    by (cases ys) auto
  from Cons.prems(3) have sets: "set (x # xs) = set ys"
    by (metis set_mset_mset)
  have "x = y"
  proof (rule ccontr)
    assume "x \<noteq> y"
    with sets ys have "y \<in> set xs" "x \<in> set ys'" by auto
    with Cons.prems(1,2) ys have "cmp x y \<le> 0" "cmp y x \<le> 0" by auto
    then have "cmp x y = 0" using flip_le [of y x] by linarith
    with Cons.prems(4) sets ys \<open>x \<noteq> y\<close> show False by (metis list.set_intros(1))
  qed
  with Cons.prems ys have "xs = ys'"
    by (intro Cons.IH) (auto intro: Cons.prems(4))
  with \<open>x = y\<close> ys show ?case by simp
qed

lemma sort_by_mset_cong:
  assumes "mset xs = mset ys" and "\<And>x y. x \<in> set xs \<Longrightarrow> y \<in> set xs \<Longrightarrow> cmp x y = 0 \<Longrightarrow> x = y"
  shows "sort_by cmp xs = sort_by cmp ys"
  by (rule sorted_unique) (use assms in \<open>auto simp: sort_simps sorted_sort_by\<close>)

lemma hd_sort_by_least:
  assumes "xs \<noteq> []" and "x \<in> set xs"
  shows "cmp (hd (sort_by cmp xs)) x \<le> 0"
proof -
  from assms(1) have "sort_by cmp xs \<noteq> []" by simp
  then obtain y ys where ys: "sort_by cmp xs = y # ys" by (meson neq_Nil_conv)
  have "x \<in> set (y # ys)" using assms(2) set_sort_by [of cmp xs] ys by simp
  moreover have "sorted_wrt (\<lambda>x y. cmp x y \<le> 0) (y # ys)"
    using sorted_sort_by [of xs] ys by simp
  ultimately show ?thesis by (auto simp: ys)
qed

end

subsection \<open>Insertion-ordered maps and sets\<close>

text \<open>
  A \<^verbatim>\<open>Map\<close> iterates in insertion order, and setting a key it holds keeps the key's
  place: an association list under \<^const>\<open>AList.update\<close>, which does exactly that. A
  \<^verbatim>\<open>Set\<close> whose iteration order matters is a list without repetitions.
\<close>

type_synonym ('k, 'v) jsmap = "('k \<times> 'v) list"

abbreviation map_get :: "('k, 'v) jsmap \<Rightarrow> 'k \<Rightarrow> 'v option" where
  "map_get m k \<equiv> map_of m k"

abbreviation map_set :: "'k \<Rightarrow> 'v \<Rightarrow> ('k, 'v) jsmap \<Rightarrow> ('k, 'v) jsmap" where
  "map_set k v m \<equiv> AList.update k v m"

abbreviation map_has :: "('k, 'v) jsmap \<Rightarrow> 'k \<Rightarrow> bool" where
  "map_has m k \<equiv> k \<in> set (map fst m)"

definition map_from :: "('k \<times> 'v) list \<Rightarrow> ('k, 'v) jsmap" where
  \<comment> \<open>\<open>new Map(entries)\<close>: a later entry replaces the value of an earlier one in its place\<close>
  "map_from entries = foldl (\<lambda>m (k, v). map_set k v m) [] entries"

lemma map_of_foldl_set:
  "map_of (foldl (\<lambda>m (k, v). map_set k v m) m entries) = map_of m ++ map_of (rev entries)"
proof (induction entries arbitrary: m)
  case (Cons e entries)
  then show ?case by (cases e) (simp add: update_conv' map_add_def fun_eq_iff split: option.split)
qed simp

lemma map_of_map_from: "map_of (map_from entries) = map_of (rev entries)"
  by (simp add: map_from_def map_of_foldl_set)

lemma map_from_entry: "map_of (map_from entries) k = Some v \<Longrightarrow> (k, v) \<in> set entries"
  by (auto simp: map_of_map_from dest: map_of_SomeD)

lemma distinct_keys_map_from [simp]: "distinct (map fst (map_from entries))"
proof -
  have "distinct (map fst m) \<Longrightarrow> distinct (map fst (foldl (\<lambda>m (k, v). map_set k v m) m entries))" for m
    by (induction entries arbitrary: m) (auto simp: distinct_update)
  then show ?thesis by (simp add: map_from_def)
qed

lemma sorted_wrt_subseq: "subseq xs ys \<Longrightarrow> sorted_wrt R ys \<Longrightarrow> sorted_wrt R xs"
  by (induction rule: list_emb.induct) (auto dest: list_emb_set)

lemma set_map_filter_eq: "y \<in> set (List.map_filter f xs) \<longleftrightarrow> (\<exists>x \<in> set xs. f x = Some y)"
  by (force simp: map_filter_def)

definition set_add :: "'a \<Rightarrow> 'a list \<Rightarrow> 'a list" where
  "set_add x s = (if x \<in> set s then s else s @ [x])"

lemma set_set_add [simp]: "set (set_add x s) = insert x (set s)"
  by (auto simp: set_add_def)

lemma distinct_set_add [simp]: "distinct (set_add x s) = distinct s"
  by (auto simp: set_add_def)

text \<open>\<open>appendToBucket\<close>: push a value onto the list stored under a key.\<close>

definition bucket_push :: "'k \<Rightarrow> 'v \<Rightarrow> ('k, 'v list) jsmap \<Rightarrow> ('k, 'v list) jsmap" where
  "bucket_push k v m = map_set k ((case map_get m k of None \<Rightarrow> [] | Some b \<Rightarrow> b) @ [v]) m"

fun group_by :: "('a \<Rightarrow> 'k) \<Rightarrow> 'a list \<Rightarrow> ('k, 'a list) jsmap \<Rightarrow> ('k, 'a list) jsmap" where
  "group_by key [] m = m"
| "group_by key (x # xs) m = group_by key xs (bucket_push (key x) x m)"

lemma distinct_keys_bucket_push [simp]:
  "distinct (map fst m) \<Longrightarrow> distinct (map fst (bucket_push k v m))"
  by (simp add: bucket_push_def distinct_update)

lemma map_of_bucket_push:
  "map_of (bucket_push k v m) =
     (map_of m)(k \<mapsto> (case map_of m k of None \<Rightarrow> [] | Some b \<Rightarrow> b) @ [v])"
  by (simp add: bucket_push_def update_conv')

lemma distinct_keys_group_by [simp]:
  "distinct (map fst m) \<Longrightarrow> distinct (map fst (group_by key xs m))"
  by (induction xs arbitrary: m) auto

text \<open>A bucket holds exactly the grouped elements with its key, in order.\<close>

lemma map_of_group_by:
  "map_of (group_by key xs m) k =
     (case (map_of m k, filter (\<lambda>x. key x = k) xs) of
        (None, []) \<Rightarrow> None
      | (None, ys) \<Rightarrow> Some ys
      | (Some b, ys) \<Rightarrow> Some (b @ ys))"
proof (induction xs arbitrary: m)
  case Nil
  then show ?case by (simp split: option.splits)
next
  case (Cons x xs)
  show ?case
    by (auto simp: Cons.IH map_of_bucket_push split: option.splits list.splits)
qed

lemma group_by_bucket:
  assumes "(k, b) \<in> set (group_by key xs [])"
  shows "b = filter (\<lambda>x. key x = k) xs" "b \<noteq> []"
proof -
  from assms have "map_of (group_by key xs []) k = Some b"
    by (intro map_of_is_SomeI) auto
  then show "b = filter (\<lambda>x. key x = k) xs" "b \<noteq> []"
    by (auto simp: map_of_group_by split: list.splits)
qed

lemma mset_bucket_push:
  "distinct (map fst m) \<Longrightarrow> mset (concat (map snd (bucket_push k v m))) = add_mset v (mset (concat (map snd m)))"
proof -
  have "mset (concat (map snd (AList.update k b m))) + mset (case map_of m k of None \<Rightarrow> [] | Some old \<Rightarrow> old) =
      mset (concat (map snd m)) + mset b" for b
    by (induction m) (auto simp: ac_simps split: option.splits)
  from this [of "(case map_of m k of None \<Rightarrow> [] | Some b \<Rightarrow> b) @ [v]"] show ?thesis
    by (simp add: bucket_push_def)
qed

lemma mset_group_by:
  "distinct (map fst m) \<Longrightarrow> mset (concat (map snd (group_by key xs m))) = mset xs + mset (concat (map snd m))"
  by (induction key xs m rule: group_by.induct) (simp_all add: mset_bucket_push)

lemma mset_concat_perm: "mset xs = mset ys \<Longrightarrow> mset (concat (map f xs)) = mset (concat (map f ys))"
  by (metis mset_concat mset_map map_map sum_mset_sum_list)

subsection \<open>Keeping the first of each identity\<close>

text \<open>
  Filtering a list against a growing set of seen identities, as the sources do in
  several places: an element is kept when no earlier one had its identity.
\<close>

fun keep_first :: "('a \<Rightarrow> 'k) \<Rightarrow> 'a list \<Rightarrow> 'k list \<Rightarrow> 'a list" where
  "keep_first ident [] seen = []"
| "keep_first ident (x # xs) seen =
     (if ident x \<in> set seen then keep_first ident xs seen
      else x # keep_first ident xs (seen @ [ident x]))"

lemma set_keep_first_subset: "set (keep_first ident xs seen) \<subseteq> set xs"
  by (induction xs arbitrary: seen) auto

lemma ident_keep_first:
  "ident ` set (keep_first ident xs seen) = ident ` set xs - set seen"
  by (induction xs arbitrary: seen) auto

lemma distinct_keep_first: "distinct (map ident (keep_first ident xs seen))"
proof (induction xs arbitrary: seen)
  case Nil
  then show ?case by simp
next
  case (Cons x xs)
  then show ?case
    using ident_keep_first [of ident xs "seen @ [ident x]"] by auto
qed

lemma keep_first_id:
  "distinct (map ident xs) \<Longrightarrow> ident ` set xs \<inter> set seen = {} \<Longrightarrow> keep_first ident xs seen = xs"
  by (induction xs arbitrary: seen) auto

text \<open>The survivor of an identity is its first element in the input.\<close>

lemma keep_first_find:
  "k \<notin> set seen \<Longrightarrow>
     find (\<lambda>x. ident x = k) (keep_first ident xs seen) = find (\<lambda>x. ident x = k) xs"
  by (induction xs arbitrary: seen) auto

lemma keep_first_subseq: "subseq (keep_first ident xs seen) xs"
  by (induction xs arbitrary: seen) (auto intro: subseq_Cons')

end
