(* ===== verification/JsRuntime.thy ===== *)
theory JsRuntime
  imports Complex_Main Prelude
begin

section \<open>Strings, numbers and dynamically typed values\<close>

text \<open>
  \<^verbatim>\<open>JSON.stringify\<close> of an array of strings with its injectivity, the dynamically
  typed values the sources validate at run time, and the record of runtime
  services that come from tables outside the repository.
\<close>

subsection \<open>JSON text of a string array\<close>

definition hex_digit :: "nat \<Rightarrow> char" where
  "hex_digit n = (if n < 10 then char_of (48 + n) else char_of (87 + n))"

abbreviation backslash :: char where "backslash \<equiv> CHR 0x5C"
abbreviation dquote :: char where "dquote \<equiv> CHR 0x22"

definition json_escape :: "char \<Rightarrow> string" where
  "json_escape c =
     (if c = dquote then [backslash, dquote]
      else if c = backslash then [backslash, backslash]
      else if c = CHR 0x08 then [backslash, CHR ''b'']
      else if c = CHR 0x0C then [backslash, CHR ''f'']
      else if c = CHR 0x0A then [backslash, CHR ''n'']
      else if c = CHR 0x0D then [backslash, CHR ''r'']
      else if c = CHR 0x09 then [backslash, CHR ''t'']
      else if of_char c < (32 :: nat)
        then [backslash, CHR ''u'', CHR ''0'', CHR ''0'',
              hex_digit (of_char c div 16), hex_digit (of_char c mod 16)]
      else [c])"

definition json_body :: "string \<Rightarrow> string" where
  "json_body s = concat (map json_escape s)"

definition json_string :: "string \<Rightarrow> string" where
  "json_string s = dquote # json_body s @ [dquote]"

fun join :: "string \<Rightarrow> string list \<Rightarrow> string" where
  \<comment> \<open>\<open>Array.prototype.join\<close>\<close>
  "join sep [] = []"
| "join sep [x] = x"
| "join sep (x # y # ys) = x @ sep @ join sep (y # ys)"

definition json_string_array :: "string list \<Rightarrow> string" where
  \<comment> \<open>\<open>JSON.stringify\<close> of an array of strings\<close>
  "json_string_array xs = ''['' @ join '','' (map json_string xs) @ '']''"

text \<open>
  The escape of a character determines the character and where the escape ends, so
  the text of a string literal determines the string. Two arrays of the same length
  with equal text are equal.
\<close>

lemma hex_digit_inject:
  assumes "m < 16" and "n < 16" and "hex_digit m = hex_digit n"
  shows "m = n"
proof -
  have "of_char (hex_digit m) = (of_char (hex_digit n) :: nat)" using assms(3) by simp
  with assms(1,2) show ?thesis
    by (auto simp: hex_digit_def take_bit_eq_mod split: if_splits)
qed

lemma json_escape_Cons:
  "\<exists>a as. json_escape c = a # as \<and> a \<noteq> dquote \<and> (a = backslash \<longleftrightarrow> as \<noteq> [])"
  by (simp add: json_escape_def)

lemma json_escape_prefix_free:
  assumes "json_escape c @ r = json_escape d @ r'"
  shows "c = d \<and> r = r'"
proof -
  have ctrl: "c = d" if "of_char c < (32 :: nat)" "of_char d < (32 :: nat)"
    "hex_digit (of_char c div 16) = hex_digit (of_char d div 16)"
    "hex_digit (of_char c mod 16) = hex_digit (of_char d mod 16)"
  proof -
    have "of_char c div 16 = (of_char d div 16 :: nat)"
      using that by (intro hex_digit_inject) auto
    moreover have "of_char c mod 16 = (of_char d mod 16 :: nat)"
      using that by (intro hex_digit_inject) auto
    ultimately have "of_char c = (of_char d :: nat)" by (metis div_mod_decomp)
    then show ?thesis by simp
  qed
  show ?thesis
    using assms ctrl by (auto simp: json_escape_def split: if_splits)
qed

lemma json_body_inject:
  "json_body s @ dquote # r = json_body s' @ dquote # r' \<Longrightarrow> s = s' \<and> r = r'"
proof (induction s arbitrary: s')
  case Nil
  show ?case
  proof (cases s')
    case Nil
    with Nil.prems show ?thesis by (simp add: json_body_def)
  next
    case (Cons d s2)
    with Nil.prems show ?thesis
      using json_escape_Cons [of d] by (auto simp: json_body_def)
  qed
next
  case (Cons c s)
  show ?case
  proof (cases s')
    case Nil
    with Cons.prems show ?thesis
      using json_escape_Cons [of c] by (auto simp: json_body_def)
  next
    case (Cons d s2)
    with Cons.prems have "json_escape c @ (json_body s @ dquote # r)
        = json_escape d @ (json_body s2 @ dquote # r')"
      by (simp add: json_body_def)
    then have "c = d" "json_body s @ dquote # r = json_body s2 @ dquote # r'"
      by (auto dest: json_escape_prefix_free)
    with Cons.IH Cons show ?thesis by auto
  qed
qed

lemma json_string_inject:
  "json_string s @ r = json_string s' @ r' \<Longrightarrow> s = s' \<and> r = r'"
  using json_body_inject [of s r s' r'] by (simp add: json_string_def)

lemma json_string_eq_iff [simp]: "json_string s = json_string s' \<longleftrightarrow> s = s'"
  using json_string_inject [of s "[]" s' "[]"] by auto

lemma json_string_array_triple_inject [simp]:
  "json_string_array [a, b, c] = json_string_array [a', b', c'] \<longleftrightarrow> a = a' \<and> b = b' \<and> c = c'"
  by (auto simp: json_string_array_def dest!: json_string_inject)

lemma json_string_array_pair_inject [simp]:
  "json_string_array [a, b] = json_string_array [a', b'] \<longleftrightarrow> a = a' \<and> b = b'"
  by (auto simp: json_string_array_def dest!: json_string_inject)

subsection \<open>Dynamically typed values\<close>

text \<open>
  The sources check provider payloads at run time with \<^verbatim>\<open>typeof\<close>, \<^verbatim>\<open>in\<close> and
  \<^verbatim>\<open>Array.isArray\<close>. A payload is a value of the type below; numbers are the finite
  ones (rationals) and the three that are not.
\<close>

datatype jsnum = Finite rat | NaN | PosInfinity | NegInfinity

datatype jsval =
    JUndefined
  | JNull
  | JBool bool
  | JNumber jsnum
  | JString string
  | JArray "jsval list"
  | JObject "(string \<times> jsval) list"
  | JMap "(jsval \<times> jsval) list"

fun is_finite :: "jsnum \<Rightarrow> bool" where
  "is_finite (Finite _) = True"
| "is_finite _ = False"

text \<open>\<open>"f" in value\<close> and \<open>value.f\<close>: an absent property reads as \<open>undefined\<close>.\<close>

fun has_prop :: "string \<Rightarrow> jsval \<Rightarrow> bool" where
  "has_prop f (JObject ps) = (f \<in> set (map fst ps))"
| "has_prop f _ = False"

fun get_prop :: "string \<Rightarrow> jsval \<Rightarrow> jsval" where
  "get_prop f (JObject ps) = (case map_of ps f of None \<Rightarrow> JUndefined | Some v \<Rightarrow> v)"
| "get_prop f _ = JUndefined"

fun is_string :: "jsval \<Rightarrow> bool" where
  "is_string (JString _) = True"
| "is_string _ = False"

fun is_number :: "jsval \<Rightarrow> bool" where
  "is_number (JNumber _) = True"
| "is_number _ = False"

fun is_boolean :: "jsval \<Rightarrow> bool" where
  "is_boolean (JBool _) = True"
| "is_boolean _ = False"

fun is_object :: "jsval \<Rightarrow> bool" where
  \<comment> \<open>\<open>typeof v === "object" && v !== null\<close>\<close>
  "is_object (JObject _) = True"
| "is_object (JArray _) = True"
| "is_object (JMap _) = True"
| "is_object _ = False"

fun as_string :: "jsval \<Rightarrow> string" where
  "as_string (JString s) = s"
| "as_string _ = []"

fun as_string_option :: "jsval \<Rightarrow> string option" where
  "as_string_option (JString s) = Some s"
| "as_string_option _ = None"

fun as_number :: "jsval \<Rightarrow> jsnum" where
  "as_number (JNumber n) = n"
| "as_number _ = NaN"

fun truthy :: "jsval \<Rightarrow> bool" where
  "truthy JUndefined = False"
| "truthy JNull = False"
| "truthy (JBool b) = b"
| "truthy (JNumber n) = (n \<noteq> Finite 0 \<and> n \<noteq> NaN)"
| "truthy (JString s) = (s \<noteq> [])"
| "truthy _ = True"

definition nullish_else :: "jsval \<Rightarrow> jsval \<Rightarrow> jsval" where
  \<comment> \<open>\<open>a ?? b\<close>\<close>
  "nullish_else a b = (if a = JUndefined \<or> a = JNull then b else a)"

subsection \<open>Services of the runtime\<close>

text \<open>
  \<^verbatim>\<open>toLocaleLowerCase("en-US")\<close>, \<^verbatim>\<open>localeCompare\<close>, \<^verbatim>\<open>normalize\<close> and the Unicode
  classes read tables of the runtime, \<^verbatim>\<open>Date.parse\<close> accepts formats the standard
  leaves open and \<^verbatim>\<open>new URL\<close> is the WHATWG parser. They are parameters of the
  model: the fields of this record. \<^verbatim>\<open>Date.parse\<close> returns milliseconds, or
  \<^term>\<open>None\<close> for \<^verbatim>\<open>NaN\<close>; \<open>newUrl\<close> and \<open>decodeUri\<close> return \<^term>\<open>None\<close> where the
  runtime throws.
\<close>

record url =
  url_protocol :: string
  url_username :: string
  url_password :: string
  url_hostname :: string
  url_pathname :: string
  url_search :: string
  url_hash :: string

record js_env =
  toLower :: "string \<Rightarrow> string"
  toUpper :: "string \<Rightarrow> string"
  localeCompare :: "string \<Rightarrow> string \<Rightarrow> int"
  stripMarks :: "string \<Rightarrow> string" \<comment> \<open>\<open>normalize("NFD").replace(/\p{M}/gu, "")\<close>\<close>
  nfkd :: "string \<Rightarrow> string" \<comment> \<open>\<open>normalize("NFKD")\<close>\<close>
  isSpace :: "char \<Rightarrow> bool" \<comment> \<open>\<open>\s\<close>\<close>
  isLetterOrMark :: "char \<Rightarrow> bool" \<comment> \<open>\<open>[\p{L}\p{M}]\<close>\<close>
  isLetterOrNumber :: "char \<Rightarrow> bool" \<comment> \<open>\<open>[\p{L}\p{N}]\<close>\<close>
  dateParse :: "string \<Rightarrow> int option"
  newUrl :: "string \<Rightarrow> url option"
  decodeUri :: "string \<Rightarrow> string option"

text \<open>
  What the sources rely on: case mapping is idempotent, case mapping and mark
  stripping leave the characters of a slug alone, a slash is not a letter, and
  collation is consistent.
\<close>

definition slug_char :: "char \<Rightarrow> bool" where
  \<comment> \<open>\<open>[a-z0-9-]\<close>\<close>
  "slug_char c \<longleftrightarrow> CHR ''a'' \<le> c \<and> c \<le> CHR ''z'' \<or> CHR ''0'' \<le> c \<and> c \<le> CHR ''9'' \<or> c = CHR ''-''"

locale js_runtime =
  fixes E :: js_env
  assumes lower_idem [simp]: "toLower E (toLower E s) = toLower E s"
    and lower_slug: "list_all slug_char s \<Longrightarrow> toLower E s = s"
    and strip_slug: "list_all slug_char s \<Longrightarrow> stripMarks E s = s"
    and slash_no_letter: "\<not> isLetterOrMark E (CHR ''/'')"
    and collation: "js_comparator (localeCompare E)"

sublocale js_runtime \<subseteq> loc: js_comparator "localeCompare E"
  by (rule collation)

text \<open>
  A concrete runtime for ASCII text, on which witnesses evaluate: ASCII case
  mapping, code-unit collation, the ISO-8601 form the sources store, and URLs of
  the form \<open>https://host/path\<close>.
\<close>

definition ascii_lower_char :: "char \<Rightarrow> char" where
  "ascii_lower_char c = (if CHR ''A'' \<le> c \<and> c \<le> CHR ''Z'' then char_of (of_char c + 32 :: nat) else c)"

definition ascii_upper_char :: "char \<Rightarrow> char" where
  "ascii_upper_char c = (if CHR ''a'' \<le> c \<and> c \<le> CHR ''z'' then char_of (of_char c - 32 :: nat) else c)"

definition ascii_letter :: "char \<Rightarrow> bool" where
  "ascii_letter c \<longleftrightarrow> CHR ''A'' \<le> c \<and> c \<le> CHR ''Z'' \<or> CHR ''a'' \<le> c \<and> c \<le> CHR ''z''"

definition ascii_digit :: "char \<Rightarrow> bool" where
  "ascii_digit c \<longleftrightarrow> CHR ''0'' \<le> c \<and> c \<le> CHR ''9''"

definition digits_value :: "string \<Rightarrow> nat" where
  "digits_value s = foldl (\<lambda>n c. 10 * n + (of_char c - 48)) 0 s"

definition civil_days :: "int \<Rightarrow> int \<Rightarrow> int \<Rightarrow> int" where
  \<comment> \<open>days from 1970-01-01 of a proleptic Gregorian date\<close>
  "civil_days year month day =
     (let y = (if month \<le> 2 then year - 1 else year);
          m = (if month > 2 then month - 3 else month + 9);
          era = y div 400; yoe = y - era * 400;
          doy = (153 * m + 2) div 5 + day - 1;
          doe = yoe * 365 + yoe div 4 - yoe div 100 + doy
      in era * 146097 + doe - 719468)"

definition iso_ms :: "string \<Rightarrow> int option" where
  \<comment> \<open>\<open>YYYY-MM-DDTHH:MM:SS.mmmZ\<close>\<close>
  "iso_ms s =
     (let num = (\<lambda>i n. int (digits_value (take n (drop i s)))) in
      if length s = 24 \<and> list_all ascii_digit (map (\<lambda>i. s ! i)
           [0, 1, 2, 3, 5, 6, 8, 9, 11, 12, 14, 15, 17, 18, 20, 21, 22])
         \<and> map (\<lambda>i. s ! i) [4, 7, 10, 13, 16, 19, 23] = ''--T::.Z''
      then Some ((civil_days (num 0 4) (num 5 2) (num 8 2) * 86400 +
                  num 11 2 * 3600 + num 14 2 * 60 + num 17 2) * 1000 + num 20 3)
      else None)"

text \<open>
  \<^verbatim>\<open>Date.prototype.toISOString\<close> is fixed by the standard: the proleptic Gregorian date of
  the day, six signed digits for a year outside 0 to 9999.
\<close>

fun pad_digits :: "nat \<Rightarrow> nat \<Rightarrow> string" where
  "pad_digits 0 n = []"
| "pad_digits (Suc width) n = pad_digits width (n div 10) @ [char_of (48 + n mod 10)]"

definition civil_date :: "int \<Rightarrow> int \<times> int \<times> int" where
  \<comment> \<open>year, month and day of a day counted from 1970-01-01\<close>
  "civil_date days =
     (let z = days + 719468; era = z div 146097; doe = z - era * 146097;
          yoe = (doe - doe div 1460 + doe div 36524 - doe div 146096) div 365;
          doy = doe - (365 * yoe + yoe div 4 - yoe div 100);
          mp = (5 * doy + 2) div 153;
          m = (if mp < 10 then mp + 3 else mp - 9)
      in (yoe + era * 400 + (if m \<le> 2 then 1 else 0), m, doy - (153 * mp + 2) div 5 + 1))"

definition iso_year :: "int \<Rightarrow> string" where
  "iso_year y =
     (if 0 \<le> y \<and> y \<le> 9999 then pad_digits 4 (nat y)
      else (if y < 0 then CHR ''-'' else CHR ''+'') # pad_digits 6 (nat \<bar>y\<bar>))"

definition toISOString :: "int \<Rightarrow> string" where
  "toISOString ms =
     (case civil_date (ms div 86400000) of
        (y, m, d) \<Rightarrow>
          (let t = nat (ms mod 86400000)
           in iso_year y @ ''-'' @ pad_digits 2 (nat m) @ ''-'' @ pad_digits 2 (nat d) @ ''T'' @
              pad_digits 2 (t div 3600000) @ '':'' @ pad_digits 2 (t div 60000 mod 60) @ '':'' @
              pad_digits 2 (t div 1000 mod 60) @ ''.'' @ pad_digits 3 (t mod 1000) @ ''Z''))"

text \<open>\<open>String(n)\<close> of a count, and \<open>trim()\<close>.\<close>

fun decimal :: "nat \<Rightarrow> string" where
  "decimal n = (if n < 10 then [] else decimal (n div 10)) @ [char_of (48 + n mod 10)]"

declare decimal.simps [simp del]

lemma digits_value_decimal: "digits_value (decimal n) = n"
proof (induction n rule: decimal.induct)
  case (1 n)
  have digit: "(of_char (char_of (48 + n mod 10) :: char) :: nat) = 48 + n mod 10"
    by (simp add: of_char_of)
  show ?case
  proof (cases "n < 10")
    case True
    then show ?thesis using digit by (simp add: decimal.simps [of n] digits_value_def)
  next
    case False
    then have "digits_value (decimal (n div 10)) = n div 10" by (rule 1)
    then show ?thesis using False digit by (simp add: decimal.simps [of n] digits_value_def)
  qed
qed

lemma decimal_inject [simp]: "decimal m = decimal n \<longleftrightarrow> m = n"
  using digits_value_decimal by metis

definition js_trim :: "js_env \<Rightarrow> string \<Rightarrow> string" where
  "js_trim E s = rev (dropWhile (isSpace E) (rev (dropWhile (isSpace E) s)))"

definition https_url :: "string \<Rightarrow> url option" where
  "https_url s =
     (if take 8 s = ''https://'' then
        Some \<lparr>url_protocol = ''https:'', url_username = [], url_password = [],
              url_hostname = takeWhile (\<lambda>c. c \<noteq> CHR ''/'') (drop 8 s),
              url_pathname = dropWhile (\<lambda>c. c \<noteq> CHR ''/'') (drop 8 s),
              url_search = [], url_hash = []\<rparr>
      else None)"

definition ascii_env :: js_env where
  "ascii_env =
     \<lparr>toLower = map ascii_lower_char, toUpper = map ascii_upper_char,
      localeCompare = order_cmp, stripMarks = (\<lambda>s. s), nfkd = (\<lambda>s. s),
      isSpace = (\<lambda>c. c = CHR '' '' \<or> of_char c \<in> {9 .. 13 :: nat}),
      isLetterOrMark = ascii_letter,
      isLetterOrNumber = (\<lambda>c. ascii_letter c \<or> ascii_digit c), dateParse = iso_ms, newUrl = https_url,
      decodeUri = (\<lambda>s. if CHR ''%'' \<in> set s then None else Some s)\<rparr>"

lemma ascii_lower_idem: "ascii_lower_char (ascii_lower_char c) = ascii_lower_char c"
  by (auto simp: ascii_lower_char_def less_eq_char_def take_bit_eq_mod)

lemma ascii_lower_slug: "slug_char c \<Longrightarrow> ascii_lower_char c = c"
  by (auto simp: slug_char_def ascii_lower_char_def less_eq_char_def)

interpretation ascii: js_runtime ascii_env
proof (rule js_runtime.intro)
  fix s
  show "toLower ascii_env (toLower ascii_env s) = toLower ascii_env s"
    by (simp add: ascii_env_def ascii_lower_idem)
next
  fix s
  assume "list_all slug_char s"
  then show "toLower ascii_env s = s"
    by (simp add: ascii_env_def list_all_iff map_idI ascii_lower_slug)
next
  show "js_comparator (localeCompare ascii_env)"
    by (simp add: ascii_env_def js_comparator_order_cmp)
qed (simp_all add: ascii_env_def ascii_letter_def less_eq_char_def)

text \<open>
  What the URL round trip relies on: the URL parser keeps the path of an
  \<^verbatim>\<open>https\<close> URL, percent-encoding it character by character and never its slashes,
  and \<^verbatim>\<open>decodeURIComponent\<close> undoes the encoding of a segment.
\<close>

definition path_char :: "js_env \<Rightarrow> char \<Rightarrow> bool" where
  "path_char E c \<longleftrightarrow> slug_char c \<or> isLetterOrMark E c \<or> c = CHR 0x27 \<or> c = CHR ''-''"

locale js_urls = js_runtime +
  fixes encode :: "char \<Rightarrow> string"
  assumes parse_raider_io:
      "list_all (\<lambda>c. c = CHR ''/'' \<or> path_char E c) p \<Longrightarrow>
       newUrl E (''https://raider.io/'' @ p) =
         Some \<lparr>url_protocol = ''https:'', url_username = [], url_password = [],
               url_hostname = ''raider.io'', url_pathname = ''/'' @ concat (map encode p),
               url_search = [], url_hash = []\<rparr>"
    and encode_slash: "encode (CHR ''/'') = ''/''"
    and encode_segment: "path_char E c \<Longrightarrow> encode c \<noteq> [] \<and> CHR ''/'' \<notin> set (encode c)"
    and decode_segment:
      "list_all (path_char E) s \<Longrightarrow> decodeUri E (concat (map encode s)) = Some s"

lemma concat_singletons: "concat (map (\<lambda>c. [c]) s) = s"
  by (induction s) auto

interpretation ascii: js_urls ascii_env "\<lambda>c. [c]"
proof (unfold_locales, goal_cases)
  case (1 p)
  then show ?case by (simp add: ascii_env_def https_url_def concat_singletons)
next
  case 2
  then show ?case by simp
next
  case (3 c)
  then show ?case
    by (auto simp: path_char_def slug_char_def ascii_env_def ascii_letter_def less_eq_char_def)
next
  case (4 s)
  then show ?case
    by (auto simp: list_all_iff path_char_def slug_char_def ascii_env_def ascii_letter_def
        less_eq_char_def concat_singletons)
qed

lemmas ascii_env_simps = ascii_env_def js_env.simps

end
