(* ===== verification/CharacterKey.thy ===== *)
theory CharacterKey
  imports JsRuntime
begin

section \<open>Canonical character identity\<close>

text \<open>
  \<open>packages/domain/src/character-key.ts\<close>, \<open>deduplicate.ts\<close> and
  \<open>display-name.ts\<close>: the key a character is looked up by, the Raider.IO and Warcraft
  Logs URLs it is read from and printed to, the canonical id that identifies a
  character across every component, and de-duplication by that id.
\<close>

subsection \<open>Keys and their validation\<close>

definition supportedRegions :: "string list" where
  "supportedRegions = [''us'', ''eu'', ''kr'', ''tw'']"

record characterKey =
  region :: string
  realm :: string
  cname :: string

record characterGuild =
  g_name :: string
  g_region :: string
  g_realm :: string

definition realmSlugPattern :: "string \<Rightarrow> bool" where
  "realmSlugPattern s \<longleftrightarrow> s \<noteq> [] \<and> list_all slug_char s"

definition characterNamePattern :: "js_env \<Rightarrow> string \<Rightarrow> bool" where
  "characterNamePattern E s \<longleftrightarrow>
     s \<noteq> [] \<and> list_all (\<lambda>c. isLetterOrMark E c \<or> c = CHR 0x27 \<or> c = CHR ''-'') s"

definition isValidCharacterKey :: "js_env \<Rightarrow> characterKey \<Rightarrow> bool" where
  "isValidCharacterKey E key \<longleftrightarrow>
     region key \<in> set supportedRegions \<and>
     realmSlugPattern (realm key) \<and>
     characterNamePattern E (cname key) \<and>
     realm key = toLower E (realm key) \<and>
     cname key = toLower E (cname key)"

subsection \<open>Reading a key from a URL\<close>

datatype url_error = Invalid_character_url

definition parseAbsoluteHttpsUrl :: "js_env \<Rightarrow> string \<Rightarrow> url_error + url" where
  "parseAbsoluteHttpsUrl E input =
     (case newUrl E input of
        None \<Rightarrow> Inl Invalid_character_url
      | Some url \<Rightarrow>
          if url_protocol url \<noteq> ''https:'' \<or> url_username url \<noteq> [] \<or> url_password url \<noteq> []
             \<or> url_search url \<noteq> [] \<or> url_hash url \<noteq> []
          then Inl Invalid_character_url else Inr url)"

fun split_on :: "char \<Rightarrow> string \<Rightarrow> string list" where
  \<comment> \<open>\<open>String.prototype.split\<close> with a one-character separator\<close>
  "split_on sep [] = [[]]"
| "split_on sep (c # cs) =
     (if c = sep then [] # split_on sep cs
      else (case split_on sep cs of [] \<Rightarrow> [[c]] | p # ps \<Rightarrow> (c # p) # ps))"

definition path_parts :: "string \<Rightarrow> string list" where
  "path_parts p = filter (\<lambda>s. s \<noteq> []) (split_on (CHR ''/'') p)"

fun decode_all :: "js_env \<Rightarrow> string list \<Rightarrow> string list option" where
  "decode_all E [] = Some []"
| "decode_all E (s # ss) =
     (case decodeUri E s of None \<Rightarrow> None
      | Some t \<Rightarrow> (case decode_all E ss of None \<Rightarrow> None | Some ts \<Rightarrow> Some (t # ts)))"

definition parseCharacterPath :: "js_env \<Rightarrow> url \<Rightarrow> string \<Rightarrow> url_error + characterKey" where
  "parseCharacterPath E url expectedPrefix =
     (case decode_all E (path_parts (url_pathname url)) of
        None \<Rightarrow> Inl Invalid_character_url
      | Some parts \<Rightarrow>
          (case parts of
             [pfx, r, accented, n] \<Rightarrow>
               if toLower E pfx \<noteq> expectedPrefix then Inl Invalid_character_url
               else
                 (let rgn = toLower E r; accentedRealm = toLower E accented; nm = toLower E n;
                      rlm = stripMarks E accentedRealm
                  in if rgn \<notin> set supportedRegions \<or> \<not> realmSlugPattern rlm
                        \<or> \<not> characterNamePattern E nm
                     then Inl Invalid_character_url
                     else Inr \<lparr>region = rgn, realm = rlm, cname = nm\<rparr>)
           | _ \<Rightarrow> Inl Invalid_character_url))"

definition parseRaiderIoCharacterUrl :: "js_env \<Rightarrow> string \<Rightarrow> url_error + characterKey" where
  "parseRaiderIoCharacterUrl E input =
     (case parseAbsoluteHttpsUrl E input of
        Inl e \<Rightarrow> Inl e
      | Inr url \<Rightarrow>
          if url_hostname url \<noteq> ''raider.io'' then Inl Invalid_character_url
          else parseCharacterPath E url ''characters'')"

definition parseWarcraftLogsCharacterUrl :: "js_env \<Rightarrow> url \<Rightarrow> url_error + characterKey" where
  "parseWarcraftLogsCharacterUrl E url = parseCharacterPath E url ''character''"

definition parseApplicantCharacterUrl :: "js_env \<Rightarrow> string \<Rightarrow> url_error + characterKey" where
  "parseApplicantCharacterUrl E input =
     (case parseAbsoluteHttpsUrl E input of
        Inl e \<Rightarrow> Inl e
      | Inr url \<Rightarrow>
          if url_hostname url = ''raider.io'' then parseRaiderIoCharacterUrl E input
          else if url_hostname url = ''www.warcraftlogs.com''
            then parseWarcraftLogsCharacterUrl E url
          else Inl Invalid_character_url)"

definition max_safe_integer :: nat where "max_safe_integer = 2 ^ 53 - 1"

definition idTextPattern :: "string \<Rightarrow> bool" where
  \<comment> \<open>\<open>/^[1-9][0-9]*$/\<close>\<close>
  "idTextPattern s \<longleftrightarrow> s \<noteq> [] \<and> list_all ascii_digit s \<and> hd s \<noteq> CHR ''0''"

definition parseWarcraftLogsCharacterIdUrl :: "js_env \<Rightarrow> string \<Rightarrow> nat option" where
  "parseWarcraftLogsCharacterIdUrl E input =
     (case parseAbsoluteHttpsUrl E input of
        Inl _ \<Rightarrow> None
      | Inr url \<Rightarrow>
          if url_hostname url \<noteq> ''www.warcraftlogs.com'' then None
          else
            (case path_parts (url_pathname url) of
               [kind, idSegment, idText] \<Rightarrow>
                 if toLower E kind \<noteq> ''character'' \<or> toLower E idSegment \<noteq> ''id''
                    \<or> \<not> idTextPattern idText then None
                 else (let n = digits_value idText
                       in if n \<le> max_safe_integer then Some n else None)
             | _ \<Rightarrow> None))"

definition toCharacterPath :: "characterKey \<Rightarrow> string" where
  "toCharacterPath key =
     ''/characters/'' @ region key @ ''/'' @ realm key @ ''/'' @ cname key"

definition toRaiderIoUrl :: "characterKey \<Rightarrow> string" where
  "toRaiderIoUrl key = ''https://raider.io'' @ toCharacterPath key"

definition formatCharacterDisplayName :: "js_env \<Rightarrow> string \<Rightarrow> string option" where
  \<comment> \<open>\<^term>\<open>None\<close>: the initial of an empty name is undefined and its method call throws\<close>
  "formatCharacterDisplayName E value =
     (case value of [] \<Rightarrow> None
      | initial # remaining \<Rightarrow> Some (toUpper E [initial] @ toLower E remaining))"

subsection \<open>Canonical ids and de-duplication\<close>

datatype discoverySource = Input | Claimed | Declared_main | Profile_guess | Fingerprint_source

text \<open>
  The guild of a discovered character is carried as the value the provider sent: the
  run-time checks do not look inside it and the sources only test it for \<open>null\<close>.
\<close>

record discoveredCharacter =
  dc_key :: characterKey
  dc_displayName :: string
  dc_className :: string
  dc_level :: jsnum
  dc_guild :: jsval
  dc_raiderIoUrl :: string
  dc_source :: discoverySource

definition canonicalCharacterId :: "js_env \<Rightarrow> characterKey \<Rightarrow> string" where
  "canonicalCharacterId E key =
     json_string_array [toLower E (region key), toLower E (realm key), toLower E (cname key)]"

definition deduplicateCharacters ::
    "js_env \<Rightarrow> discoveredCharacter list \<Rightarrow> discoveredCharacter list" where
  "deduplicateCharacters E characters =
     keep_first (\<lambda>c. canonicalCharacterId E (dc_key c)) characters []"

subsection \<open>Identity lemmas\<close>

lemma canonicalCharacterId_eq:
  "canonicalCharacterId E k = canonicalCharacterId E k' \<longleftrightarrow>
     toLower E (region k) = toLower E (region k') \<and>
     toLower E (realm k) = toLower E (realm k') \<and>
     toLower E (cname k) = toLower E (cname k')"
  by (simp add: canonicalCharacterId_def)

context js_runtime
begin

lemma supported_region_lower: "r \<in> set supportedRegions \<Longrightarrow> toLower E r = r"
  by (rule lower_slug) (auto simp: supportedRegions_def slug_char_def less_eq_char_def)

lemma valid_key_lower:
  assumes "isValidCharacterKey E k"
  shows "toLower E (region k) = region k" "toLower E (realm k) = realm k"
    "toLower E (cname k) = cname k"
  using assms by (simp_all add: isValidCharacterKey_def supported_region_lower)

text \<open>On canonical keys the canonical id is injective: no two of them share an id.\<close>

lemma canonicalCharacterId_inject:
  assumes "isValidCharacterKey E k" and "isValidCharacterKey E k'"
  shows "canonicalCharacterId E k = canonicalCharacterId E k' \<longleftrightarrow> k = k'"
  using assms by (auto simp: canonicalCharacterId_eq valid_key_lower)

lemma parseCharacterPath_valid:
  assumes "parseCharacterPath E url pfx = Inr k"
  shows "isValidCharacterKey E k"
  using assms
  by (auto simp: parseCharacterPath_def isValidCharacterKey_def realmSlugPattern_def lower_slug
        Let_def split: option.splits list.splits if_splits)

lemma parseApplicantCharacterUrl_valid:
  assumes "parseApplicantCharacterUrl E input = Inr k"
  shows "isValidCharacterKey E k"
  using assms
  by (auto simp: parseApplicantCharacterUrl_def parseRaiderIoCharacterUrl_def
        parseWarcraftLogsCharacterUrl_def split: sum.splits if_splits
        dest!: parseCharacterPath_valid)

end

subsection \<open>Splitting a path\<close>

lemma split_on_nonempty: "split_on sep s \<noteq> []"
  by (induction s) (auto split: list.splits)

lemma split_on_append:
  "sep \<notin> set s \<Longrightarrow> split_on sep (s @ sep # t) = s # split_on sep t"
  by (induction s) auto

lemma split_on_clean: "sep \<notin> set s \<Longrightarrow> split_on sep s = [s]"
  by (induction s) auto

lemma slug_no_slash: "list_all slug_char s \<Longrightarrow> CHR ''/'' \<notin> set s"
  by (auto simp: list_all_iff slug_char_def less_eq_char_def)

lemma split_on_concat_encode:
  assumes "\<And>c. c \<in> set s \<Longrightarrow> sep \<notin> set (enc c)"
  shows "split_on sep (concat (map enc s) @ sep # t) = concat (map enc s) # split_on sep t"
    and "split_on sep (concat (map enc s)) = [concat (map enc s)]"
  using assms by (auto intro!: split_on_append split_on_clean)

lemma slug_path_char: "list_all slug_char s \<Longrightarrow> list_all (path_char E) s"
  by (auto simp: list_all_iff path_char_def)

lemma name_path_char: "characterNamePattern E s \<Longrightarrow> list_all (path_char E) s"
  by (auto simp: characterNamePattern_def list_all_iff path_char_def)

lemma supported_region_slug: "r \<in> set supportedRegions \<Longrightarrow> r \<noteq> [] \<and> list_all slug_char r"
  by (auto simp: supportedRegions_def slug_char_def less_eq_char_def)

lemma characters_slug: "list_all slug_char ''characters''"
  by (simp add: slug_char_def less_eq_char_def)

context js_urls
begin

lemma encoded_nonempty:
  "s \<noteq> [] \<Longrightarrow> list_all (path_char E) s \<Longrightarrow> concat (map encode s) \<noteq> []"
  using encode_segment by (cases s) auto

lemma encoded_no_slash:
  "list_all (path_char E) s \<Longrightarrow> c \<in> set s \<Longrightarrow> CHR ''/'' \<notin> set (encode c)"
  using encode_segment by (auto simp: list_all_iff)

lemma path_parts_encoded:
  assumes "list_all (path_char E) a" "list_all (path_char E) b" "list_all (path_char E) c"
    "list_all (path_char E) d" and "a \<noteq> []" "b \<noteq> []" "c \<noteq> []" "d \<noteq> []"
  shows "path_parts (''/'' @ concat (map encode (a @ ''/'' @ b @ ''/'' @ c @ ''/'' @ d)))
    = map (\<lambda>s. concat (map encode s)) [a, b, c, d]"
proof -
  note sp = split_on_concat_encode [OF encoded_no_slash]
  have "split_on (CHR ''/'') (concat (map encode (a @ ''/'' @ b @ ''/'' @ c @ ''/'' @ d)))
      = map (\<lambda>s. concat (map encode s)) [a, b, c, d]"
    using assms(1-4) by (simp add: encode_slash sp)
  then show ?thesis using assms by (simp add: path_parts_def encoded_nonempty del: concat_eq_Nil_conv)
qed

lemma decode_all_encoded:
  "list_all (list_all (path_char E)) ss \<Longrightarrow> decode_all E (map (\<lambda>s. concat (map encode s)) ss) = Some ss"
  by (induction ss) (simp_all add: decode_segment)

lemma toRaiderIoUrl_parts:
  "toRaiderIoUrl k =
     ''https://raider.io/'' @ (''characters'' @ ''/'' @ region k @ ''/'' @ realm k @ ''/'' @ cname k)"
  by (simp add: toRaiderIoUrl_def toCharacterPath_def)

lemma raider_io_round_trip:
  assumes "isValidCharacterKey E k"
  shows "parseRaiderIoCharacterUrl E (toRaiderIoUrl k) = Inr k"
proof -
  have chars: "list_all (path_char E) ''characters''"
    by (rule slug_path_char [OF characters_slug])
  have segs: "list_all (path_char E) (region k)" "list_all (path_char E) (realm k)" "list_all (path_char E) (cname k)"
    and ne: "region k \<noteq> []" "realm k \<noteq> []" "cname k \<noteq> []"
    and slug: "list_all slug_char (realm k)"
    using assms
    by (auto simp: isValidCharacterKey_def realmSlugPattern_def characterNamePattern_def
        intro: slug_path_char name_path_char [unfolded characterNamePattern_def]
        supported_region_slug [THEN conjunct2] dest: supported_region_slug)
  define p where "p = ''characters'' @ ''/'' @ region k @ ''/'' @ realm k @ ''/'' @ cname k"
  have "list_all (\<lambda>c. c = CHR ''/'' \<or> path_char E c) p"
    using chars segs by (auto simp: p_def list_all_iff)
  from parse_raider_io [OF this] have url: "newUrl E (toRaiderIoUrl k) =
         Some \<lparr>url_protocol = ''https:'', url_username = [], url_password = [],
               url_hostname = ''raider.io'', url_pathname = ''/'' @ concat (map encode p),
               url_search = [], url_hash = []\<rparr>"
    by (simp only: toRaiderIoUrl_parts p_def)
  have "path_parts (''/'' @ concat (map encode p)) =
      map (\<lambda>s. concat (map encode s)) [''characters'', region k, realm k, cname k]"
    unfolding p_def by (rule path_parts_encoded [OF chars segs _ ne]) simp
  then have "decode_all E (path_parts (''/'' @ concat (map encode p))) =
      Some [''characters'', region k, realm k, cname k]"
    using decode_all_encoded [of "[''characters'', region k, realm k, cname k]"] chars segs by simp
  then show ?thesis
    using assms url slug
    by (simp add: parseRaiderIoCharacterUrl_def parseAbsoluteHttpsUrl_def parseCharacterPath_def
        isValidCharacterKey_def supported_region_lower strip_slug lower_slug [OF characters_slug]
        Let_def)
qed

end

subsection \<open>Properties\<close>

definition ryii :: characterKey where
  "ryii = \<lparr>region = ''eu'', realm = ''silvermoon'', cname = ''ryii''\<rparr>"

lemma ryii_valid: "isValidCharacterKey ascii_env ryii"
  by (simp add: isValidCharacterKey_def ryii_def supportedRegions_def realmSlugPattern_def
      characterNamePattern_def slug_char_def ascii_env_def ascii_letter_def ascii_lower_char_def
      less_eq_char_def)

text \<open>
  Two canonical keys have the same canonical id exactly when they are the same
  key: the JSON text of the lower-cased triple never makes two characters one.
\<close>

theorem canonical_id_identifies:
  assumes "js_runtime E" and "isValidCharacterKey E k" and "isValidCharacterKey E k'"
  shows "canonicalCharacterId E k = canonicalCharacterId E k' \<longleftrightarrow> k = k'"
  by (rule js_runtime.canonicalCharacterId_inject [OF assms])

theorem canonical_id_identifies_witness:
  "canonicalCharacterId ascii_env ryii = canonicalCharacterId ascii_env ryii \<longleftrightarrow> ryii = ryii"
  by (rule canonical_id_identifies [OF ascii.js_runtime_axioms ryii_valid ryii_valid])

text \<open>
  C4. Every key read from an applicant URL, of either site, is in the canonical form
  the provider clients demand: a supported region, and a lower-case slug and name.
\<close>

theorem applicant_url_key_valid:
  assumes "js_runtime E" and "parseApplicantCharacterUrl E input = Inr k"
  shows "isValidCharacterKey E k"
  by (rule js_runtime.parseApplicantCharacterUrl_valid [OF assms])

theorem applicant_url_key_valid_witness:
  "isValidCharacterKey ascii_env ryii"
proof (rule applicant_url_key_valid [OF ascii.js_runtime_axioms])
  show "parseApplicantCharacterUrl ascii_env ''https://raider.io/characters/eu/silvermoon/Ryii'' = Inr ryii"
    by code_simp
qed

text \<open>
  C5. Printing a canonical key as its Raider.IO URL and reading that URL back gives
  the key again, with the URL parser and \<^verbatim>\<open>decodeURIComponent\<close> obeying the laws of
  \<^const>\<open>js_urls\<close>.
\<close>

theorem raider_io_url_round_trip:
  assumes "js_urls E encode" and "isValidCharacterKey E k"
  shows "parseRaiderIoCharacterUrl E (toRaiderIoUrl k) = Inr k"
  by (rule js_urls.raider_io_round_trip [OF assms])

theorem raider_io_url_round_trip_witness:
  "parseRaiderIoCharacterUrl ascii_env (toRaiderIoUrl ryii) = Inr ryii"
  by (rule raider_io_url_round_trip [OF ascii.js_urls_axioms ryii_valid])

text \<open>
  De-duplication keeps, of the characters sharing a canonical id, the first one,
  in the order of the input: ids become distinct, no id is lost, and looking an id up
  finds the same character before and after.
\<close>

theorem deduplicate_keeps_first:
  "distinct (map (\<lambda>c. canonicalCharacterId E (dc_key c)) (deduplicateCharacters E cs)) \<and>
   subseq (deduplicateCharacters E cs) cs \<and>
   find (\<lambda>c. canonicalCharacterId E (dc_key c) = i) (deduplicateCharacters E cs)
     = find (\<lambda>c. canonicalCharacterId E (dc_key c) = i) cs"
  by (simp_all add: deduplicateCharacters_def distinct_keep_first keep_first_subseq keep_first_find)

end
