(* ===== verification/Discovery.thy ===== *)
theory Discovery
  imports CharacterKey
begin

section \<open>Raider.IO discovery\<close>

text \<open>
  \<open>packages/domain/src/discovery.ts\<close> and the failure shape of
  \<open>packages/upstream-http/src/failure.ts\<close>: from a root character, a bounded sweep
  over declared mains, claimed characters and profile guesses, followed by a pool
  of concurrent guild reads, ending in a complete or partial snapshot or a failure.

  The gateway, the suppression check and the abort signal are parameters, the fields
  of one world record. Each takes the number of calls awaited before it, so an
  answer may change from one call to the next. The list of gateway calls a run
  sends is recorded beside its state; the code keeps no such list.
\<close>

subsection \<open>Failures\<close>

datatype upstreamFailure =
    Not_found
  | Forbidden
  | Transient "jsnum option" "jsnum option" \<comment> \<open>\<open>status\<close>, \<open>retryAfterMs\<close>\<close>
  | Schema_drift

datatype thrown = Upstream upstreamFailure | Cap_reached | Other_error

fun isUpstreamFailure :: "thrown \<Rightarrow> upstreamFailure option" where
  "isUpstreamFailure (Upstream f) = Some f"
| "isUpstreamFailure Cap_reached = None"
| "isUpstreamFailure Other_error = None"

subsection \<open>Payloads and their run-time checks\<close>

definition isCharacterKey :: "jsval \<Rightarrow> bool" where
  "isCharacterKey v \<longleftrightarrow>
     is_object v \<and>
     has_prop ''region'' v \<and> is_string (get_prop ''region'' v) \<and>
     has_prop ''realm'' v \<and> is_string (get_prop ''realm'' v) \<and>
     has_prop ''name'' v \<and> is_string (get_prop ''name'' v)"

definition read_key :: "jsval \<Rightarrow> characterKey" where
  "read_key v = \<lparr>region = as_string (get_prop ''region'' v), realm = as_string (get_prop ''realm'' v),
     cname = as_string (get_prop ''name'' v)\<rparr>"

record raiderIoCharacter =
  rc_key :: characterKey
  rc_displayName :: string
  rc_className :: string
  rc_level :: jsnum
  rc_guild :: jsval
  rc_ownerId :: "string option"
  rc_profileGuess :: "string option"
  rc_declaredMain :: "characterKey option"
  rc_isTournamentProfile :: bool
  rc_omittedMembers :: bool

definition isRaiderIoCharacter :: "jsval \<Rightarrow> bool" where
  "isRaiderIoCharacter v \<longleftrightarrow>
     is_object v \<and>
     has_prop ''key'' v \<and> isCharacterKey (get_prop ''key'' v) \<and>
     has_prop ''displayName'' v \<and> is_string (get_prop ''displayName'' v) \<and>
     has_prop ''className'' v \<and> is_string (get_prop ''className'' v) \<and>
     has_prop ''level'' v \<and> is_number (get_prop ''level'' v) \<and>
     (\<not> has_prop ''isTournamentProfile'' v \<or> get_prop ''isTournamentProfile'' v = JUndefined
        \<or> is_boolean (get_prop ''isTournamentProfile'' v)) \<and>
     has_prop ''ownerId'' v \<and>
     (is_string (get_prop ''ownerId'' v) \<or> get_prop ''ownerId'' v = JNull) \<and>
     has_prop ''profileGuess'' v \<and>
     (is_string (get_prop ''profileGuess'' v) \<or> get_prop ''profileGuess'' v = JNull) \<and>
     has_prop ''declaredMain'' v \<and>
     (isCharacterKey (get_prop ''declaredMain'' v) \<or> get_prop ''declaredMain'' v = JNull)"

definition read_character :: "jsval \<Rightarrow> raiderIoCharacter" where
  "read_character v =
     \<lparr>rc_key = read_key (get_prop ''key'' v),
      rc_displayName = as_string (get_prop ''displayName'' v),
      rc_className = as_string (get_prop ''className'' v),
      rc_level = as_number (get_prop ''level'' v),
      rc_guild = get_prop ''guild'' v,
      rc_ownerId = as_string_option (get_prop ''ownerId'' v),
      rc_profileGuess = as_string_option (get_prop ''profileGuess'' v),
      rc_declaredMain =
        (if get_prop ''declaredMain'' v = JNull then None
         else Some (read_key (get_prop ''declaredMain'' v))),
      rc_isTournamentProfile = (get_prop ''isTournamentProfile'' v = JBool True),
      rc_omittedMembers = truthy (get_prop ''omittedMembers'' v)\<rparr>"

fun isCharacterList :: "jsval \<Rightarrow> bool" where
  "isCharacterList (JArray vs) = list_all isRaiderIoCharacter vs"
| "isCharacterList _ = False"

fun read_characters :: "jsval \<Rightarrow> raiderIoCharacter list" where
  "read_characters (JArray vs) = map read_character vs"
| "read_characters _ = []"

definition isRaiderIoProfile :: "jsval \<Rightarrow> bool" where
  "isRaiderIoProfile v \<longleftrightarrow>
     is_object v \<and> has_prop ''characters'' v \<and> isCharacterList (get_prop ''characters'' v)"

record raiderIoProfile =
  rp_characters :: "raiderIoCharacter list"
  rp_omittedMembers :: bool

definition read_profile :: "jsval \<Rightarrow> raiderIoProfile" where
  "read_profile v = \<lparr>rp_characters = read_characters (get_prop ''characters'' v),
     rp_omittedMembers = truthy (get_prop ''omittedMembers'' v)\<rparr>"

subsection \<open>Outcomes and options\<close>

datatype limitationCode = Privacy_hidden | Request_cap | Unsupported_member

datatype failureCode = Character_not_found | Upstream_unavailable | Upstream_schema_changed

text \<open>An empty list of excluded ids stands for the absent optional field.\<close>

datatype discoveryOutcome =
    Complete_snapshot "discoveredCharacter list" nat
  | Partial_snapshot limitationCode bool "string list" "discoveredCharacter list" nat
  | Failure failureCode bool "jsnum option"

record discoverCharacterOptions =
  requestCap :: jsnum
  knownReverseDeclaredCharacters :: "discoveredCharacter list"
  rootCharacter :: "jsval option"

record discoveryWorld =
  w_getCharacter :: "nat \<Rightarrow> characterKey \<Rightarrow> thrown + jsval"
  w_getClaimedCharacters :: "nat \<Rightarrow> string \<Rightarrow> thrown + jsval"
  w_resolveProfileGuess :: "nat \<Rightarrow> string \<Rightarrow> thrown + jsval"
  w_isSuppressed :: "nat \<Rightarrow> characterKey \<Rightarrow> thrown + bool"
  w_aborted :: "nat \<Rightarrow> bool"

datatype gatewayCall =
  Get_character characterKey | Get_claimed_characters string | Resolve_profile_guess string

datatype pendingSource = From_input | From_declared_main

record pendingCharacter =
  p_key :: characterKey
  p_source :: pendingSource

subsection \<open>Small helpers\<close>

definition compareCharacterKeys :: "js_env \<Rightarrow> discoveredCharacter \<Rightarrow> discoveredCharacter \<Rightarrow> int" where
  "compareCharacterKeys E left right =
     or_else (localeCompare E (region (dc_key left)) (region (dc_key right)))
       (or_else (localeCompare E (realm (dc_key left)) (realm (dc_key right)))
          (localeCompare E (cname (dc_key left)) (cname (dc_key right))))"

definition discoveredCharacter_of :: "raiderIoCharacter \<Rightarrow> discoverySource \<Rightarrow> discoveredCharacter" where
  "discoveredCharacter_of character source =
     \<lparr>dc_key = rc_key character, dc_displayName = rc_displayName character,
      dc_className = rc_className character, dc_level = rc_level character,
      dc_guild = rc_guild character, dc_raiderIoUrl = toRaiderIoUrl (rc_key character),
      dc_source = source\<rparr>"

fun isServerError :: "jsnum \<Rightarrow> bool" where
  \<comment> \<open>\<open>status >= 500 && status < 600\<close>\<close>
  "isServerError (Finite s) = (500 \<le> s \<and> s < 600)"
| "isServerError _ = False"

fun isRetryableGuildReadFailure :: "thrown \<Rightarrow> bool" where
  "isRetryableGuildReadFailure (Upstream (Transient status retryAfterMs)) =
     (if retryAfterMs \<noteq> None then False
      else (case status of None \<Rightarrow> True | Some s \<Rightarrow> isServerError s))"
| "isRetryableGuildReadFailure _ = False"

fun usableDelay :: "jsnum option \<Rightarrow> jsnum option" where
  \<comment> \<open>a delay that is defined, finite and not negative\<close>
  "usableDelay (Some (Finite d)) = (if 0 \<le> d then Some (Finite d) else None)"
| "usableDelay _ = None"

definition failureOutcome :: "thrown \<Rightarrow> discoveryOutcome" where
  "failureOutcome e =
     (case isUpstreamFailure e of
        Some Not_found \<Rightarrow> Failure Character_not_found False None
      | Some Schema_drift \<Rightarrow> Failure Upstream_schema_changed False None
      | Some (Transient _ retryAfterMs) \<Rightarrow> Failure Upstream_unavailable True (usableDelay retryAfterMs)
      | _ \<Rightarrow> Failure Upstream_unavailable True None)"

fun requestBudget :: "jsnum \<Rightarrow> nat" where
  \<comment> \<open>\<open>Number.isFinite(cap) ? Math.max(0, Math.floor(cap)) : 0\<close>\<close>
  "requestBudget (Finite cap) = nat \<lfloor>cap\<rfloor>"
| "requestBudget _ = 0"

subsection \<open>The state of a sweep\<close>

record sweep =
  budget :: nat
  capped :: bool
  privacyHidden :: bool
  omittedMembers :: bool
  visitedCharacters :: "string list"
  tournamentCharacters :: "string list"
  visitedOwners :: "string list"
  pendingCharacters :: "pendingCharacter list"
  inspectedCharacters :: "raiderIoCharacter list"
  guildKnownCharacterIds :: "string list"
  observations :: "discoveredCharacter list"
  clock :: nat \<comment> \<open>calls awaited so far\<close>
  sent :: "gatewayCall list" \<comment> \<open>gateway calls made so far\<close>

definition initial_sweep :: "characterKey \<Rightarrow> discoverCharacterOptions \<Rightarrow> sweep" where
  "initial_sweep rootKey options =
     \<lparr>budget = requestBudget (requestCap options), capped = False, privacyHidden = False,
      omittedMembers = False, visitedCharacters = [], tournamentCharacters = [],
      visitedOwners = [],
      pendingCharacters = [\<lparr>p_key = rootKey, p_source = From_input\<rparr>],
      inspectedCharacters = [], guildKnownCharacterIds = [], observations = [],
      clock = 0, sent = []\<rparr>"

text \<open>
  A stage goes on with a new state, throws (the handler reads from the state's clock
  whether the signal was aborted by then), or returns an outcome.
\<close>

datatype 's stage = Next 's | Throw thrown 's | Return discoveryOutcome 's

datatype reply = Exhausted | Raised thrown | Answer jsval

definition tick :: "sweep \<Rightarrow> sweep" where
  "tick s = s\<lparr>clock := Suc (clock s)\<rparr>"

definition request :: "gatewayCall option \<Rightarrow> (nat \<Rightarrow> thrown + jsval) \<Rightarrow> sweep \<Rightarrow> sweep \<times> reply" where
  \<comment> \<open>no call is sent when the answer is already held\<close>
  "request call operation s =
     (if budget s = 0 then (s\<lparr>capped := True\<rparr>, Exhausted)
      else
        (tick (s\<lparr>budget := budget s - 1,
                 sent := sent s @ (case call of None \<Rightarrow> [] | Some c \<Rightarrow> [c])\<rparr>),
         case operation (clock s) of Inl e \<Rightarrow> Raised e | Inr v \<Rightarrow> Answer v))"

subsection \<open>Related characters\<close>

fun recordMembers ::
    "js_env \<Rightarrow> discoveryWorld \<Rightarrow> raiderIoCharacter list \<Rightarrow> discoverySource \<Rightarrow> sweep \<Rightarrow> sweep stage" where
  "recordMembers E W [] source s = Next s"
| "recordMembers E W (character # rest) source s =
     (if w_aborted W (clock s) then Throw Other_error s
      else
        (let s1 = s\<lparr>omittedMembers := omittedMembers s \<or> rc_omittedMembers character\<rparr>
         in if rc_isTournamentProfile character then
              recordMembers E W rest source
                (s1\<lparr>tournamentCharacters :=
                     set_add (canonicalCharacterId E (rc_key character)) (tournamentCharacters s1),
                   omittedMembers := True\<rparr>)
            else
              (case w_isSuppressed W (clock s1) (rc_key character) of
                 Inl e \<Rightarrow> Throw e (tick s1)
               | Inr suppressed \<Rightarrow>
                   (let s2 = tick s1
                    in if suppressed then recordMembers E W rest source s2
                       else if w_aborted W (clock s2) then Throw Other_error s2
                       else recordMembers E W rest source
                              (s2\<lparr>observations :=
                                   observations s2 @ [discoveredCharacter_of character source]\<rparr>)))))"

definition recordRelated ::
    "js_env \<Rightarrow> discoveryWorld \<Rightarrow> raiderIoProfile \<Rightarrow> discoverySource \<Rightarrow> sweep \<Rightarrow> sweep stage" where
  "recordRelated E W profile source s =
     recordMembers E W (rp_characters profile) source
       (s\<lparr>omittedMembers := omittedMembers s \<or> rp_omittedMembers profile\<rparr>)"

subsection \<open>The declared-main traversal\<close>

text \<open>
  One iteration of the \<^verbatim>\<open>while (pendingCharacters.length > 0)\<close> loop: go round
  again, or leave the loop with a stage.
\<close>

datatype 's iteration = Again 's | Leave "'s stage"

definition admitInspected ::
    "js_env \<Rightarrow> pendingCharacter \<Rightarrow> raiderIoCharacter \<Rightarrow> sweep \<Rightarrow> sweep iteration" where
  "admitInspected E pending character s =
     (let s1 = s\<lparr>omittedMembers := omittedMembers s \<or> rc_omittedMembers character\<rparr>;
          i = canonicalCharacterId E (rc_key character)
      in if rc_isTournamentProfile character then
           if p_source pending = From_input
           then Leave (Return (Failure Character_not_found False None) s1)
           else Again (s1\<lparr>tournamentCharacters := set_add i (tournamentCharacters s1),
                          omittedMembers := True\<rparr>)
         else
           Again (s1\<lparr>observations := observations s1 @
                       [discoveredCharacter_of character
                          (case p_source pending of From_input \<Rightarrow> Input
                           | From_declared_main \<Rightarrow> Declared_main)],
                     inspectedCharacters := inspectedCharacters s1 @ [character],
                     guildKnownCharacterIds := set_add i (guildKnownCharacterIds s1),
                     pendingCharacters := pendingCharacters s1 @
                       (case rc_declaredMain character of None \<Rightarrow> []
                        | Some main \<Rightarrow> [\<lparr>p_key = main, p_source = From_declared_main\<rparr>])\<rparr>))"

definition requestCharacter ::
    "discoveryWorld \<Rightarrow> discoverCharacterOptions \<Rightarrow> pendingCharacter \<Rightarrow> sweep \<Rightarrow> sweep \<times> reply" where
  "requestCharacter W options pending s =
     (case (p_source pending, rootCharacter options) of
        (From_input, Some held) \<Rightarrow> request None (\<lambda>_. Inr held) s
      | _ \<Rightarrow> request (Some (Get_character (p_key pending)))
               (\<lambda>t. w_getCharacter W t (p_key pending)) s)"

definition inspectNext ::
    "js_env \<Rightarrow> discoveryWorld \<Rightarrow> discoverCharacterOptions \<Rightarrow> sweep \<Rightarrow> sweep iteration" where
  "inspectNext E W options s =
     (case pendingCharacters s of
        [] \<Rightarrow> Leave (Next s)
      | pending # rest \<Rightarrow>
          if w_aborted W (clock s) then Leave (Throw Other_error s)
          else
            (let s1 = s\<lparr>pendingCharacters := rest\<rparr>;
                 i = canonicalCharacterId E (p_key pending)
             in if i \<in> set (visitedCharacters s1) then Again s1
                else
                  (case w_isSuppressed W (clock s1) (p_key pending) of
                     Inl e \<Rightarrow> Leave (Throw e (tick s1))
                   | Inr True \<Rightarrow> Again (tick s1)
                   | Inr False \<Rightarrow>
                       (let s2 = (tick s1)\<lparr>visitedCharacters := visitedCharacters s1 @ [i]\<rparr>
                        in case requestCharacter W options pending s2 of
                             (s3, Raised e) \<Rightarrow> Leave (Throw e s3)
                           | (s3, Exhausted) \<Rightarrow>
                               if w_aborted W (clock s3) then Leave (Throw Other_error s3)
                               else Leave (Next s3)
                           | (s3, Answer v) \<Rightarrow>
                               if w_aborted W (clock s3) then Leave (Throw Other_error s3)
                               else if \<not> isRaiderIoCharacter v
                                 then Leave (Throw (Upstream Schema_drift) s3)
                               else admitInspected E pending (read_character v) s3))))"

text \<open>
  The loop ends: an iteration either uses up a pending entry, or spends one request
  and adds at most one entry.
\<close>

definition loop_measure :: "sweep \<Rightarrow> nat" where
  "loop_measure s = 2 * budget s + length (pendingCharacters s)"

lemma request_cases:
  "request call operation s = (s', r) \<Longrightarrow>
     (r = Exhausted \<and> budget s = 0 \<and> s' = s\<lparr>capped := True\<rparr>) \<or>
     (r \<noteq> Exhausted \<and> 0 < budget s \<and>
      s' = tick (s\<lparr>budget := budget s - 1,
                  sent := sent s @ (case call of None \<Rightarrow> [] | Some c \<Rightarrow> [c])\<rparr>))"
  by (auto simp: request_def split: if_splits sum.splits)

lemma inspectNext_decreases:
  "inspectNext E W options s = Again s' \<Longrightarrow> loop_measure s' < loop_measure s"
  by (auto simp: inspectNext_def requestCharacter_def admitInspected_def Let_def loop_measure_def
      tick_def split: list.splits if_splits sum.splits bool.splits prod.splits reply.splits
      option.splits pendingSource.splits dest!: request_cases)

function inspectAll ::
    "js_env \<Rightarrow> discoveryWorld \<Rightarrow> discoverCharacterOptions \<Rightarrow> sweep \<Rightarrow> sweep stage" where
  "inspectAll E W options s =
     (case inspectNext E W options s of
        Again s' \<Rightarrow> inspectAll E W options s'
      | Leave r \<Rightarrow> r)"
  by pat_completeness auto
termination
  by (relation "measure (\<lambda>(E, W, options, s). loop_measure s)")
     (auto dest: inspectNext_decreases)

declare inspectAll.simps [simp del]

subsection \<open>Owners and profile guesses\<close>

fun tryGuesses :: "js_env \<Rightarrow> discoveryWorld \<Rightarrow> string list \<Rightarrow> sweep \<Rightarrow> sweep stage" where
  "tryGuesses E W [] s = Next s"
| "tryGuesses E W (guess # guesses) s =
     (case request (Some (Resolve_profile_guess guess))
             (\<lambda>t. w_resolveProfileGuess W t guess) s of
        (s1, Raised e) \<Rightarrow> Throw e s1
      | (s1, Exhausted) \<Rightarrow>
          if w_aborted W (clock s1) then Throw Other_error s1 else Next s1
      | (s1, Answer v) \<Rightarrow>
          if w_aborted W (clock s1) then Throw Other_error s1
          else if v = JNull then tryGuesses E W guesses s1
          else if \<not> isRaiderIoProfile v then Throw (Upstream Schema_drift) s1
          else (case recordRelated E W (read_profile v) Profile_guess s1 of
                  Next s2 \<Rightarrow> tryGuesses E W guesses s2
                | r \<Rightarrow> r))"

definition guessesFor :: "raiderIoCharacter \<Rightarrow> string list" where
  "guessesFor character =
     (case rc_profileGuess character of
        None \<Rightarrow> [cname (rc_key character)]
      | Some guess \<Rightarrow> set_add (cname (rc_key character)) [guess])"

definition ownerOf :: "raiderIoCharacter \<Rightarrow> string option" where
  \<comment> \<open>an empty owner id is falsy\<close>
  "ownerOf character = (case rc_ownerId character of Some [] \<Rightarrow> None | ow \<Rightarrow> ow)"

fun relateInspected ::
    "js_env \<Rightarrow> discoveryWorld \<Rightarrow> raiderIoCharacter list \<Rightarrow> sweep \<Rightarrow> sweep stage" where
  "relateInspected E W [] s = Next s"
| "relateInspected E W (character # rest) s =
     (case ownerOf character of
        Some ownerId \<Rightarrow>
          if ownerId \<in> set (visitedOwners s) then relateInspected E W rest s
          else
            (case request (Some (Get_claimed_characters ownerId))
                    (\<lambda>t. w_getClaimedCharacters W t ownerId)
                    (s\<lparr>visitedOwners := visitedOwners s @ [ownerId]\<rparr>) of
               (s1, Raised e) \<Rightarrow> Throw e s1
             | (s1, Exhausted) \<Rightarrow>
                 if w_aborted W (clock s1) then Throw Other_error s1 else Next s1
             | (s1, Answer v) \<Rightarrow>
                 if w_aborted W (clock s1) then Throw Other_error s1
                 else if \<not> isRaiderIoProfile v then Throw (Upstream Schema_drift) s1
                 else (case recordRelated E W (read_profile v) Claimed s1 of
                         Next s2 \<Rightarrow> relateInspected E W rest s2
                       | r \<Rightarrow> r))
      | None \<Rightarrow>
          (case tryGuesses E W (guessesFor character) (s\<lparr>privacyHidden := True\<rparr>) of
             Next s1 \<Rightarrow> if capped s1 then Next s1 else relateInspected E W rest s1
           | r \<Rightarrow> r))"

fun admitReverseDeclared ::
    "js_env \<Rightarrow> discoveryWorld \<Rightarrow> discoveredCharacter list \<Rightarrow> sweep \<Rightarrow> sweep stage" where
  "admitReverseDeclared E W [] s = Next s"
| "admitReverseDeclared E W (character # rest) s =
     (if w_aborted W (clock s) then Throw Other_error s
      else
        (case w_isSuppressed W (clock s) (dc_key character) of
           Inl e \<Rightarrow> Throw e (tick s)
         | Inr True \<Rightarrow> admitReverseDeclared E W rest (tick s)
         | Inr False \<Rightarrow>
             admitReverseDeclared E W rest
               ((tick s)\<lparr>observations := observations s @ [character\<lparr>dc_source := Declared_main\<rparr>],
                         guildKnownCharacterIds :=
                           set_add (canonicalCharacterId E (dc_key character))
                             (guildKnownCharacterIds s)\<rparr>)))"

definition relationshipSweep ::
    "js_env \<Rightarrow> discoveryWorld \<Rightarrow> characterKey \<Rightarrow> discoverCharacterOptions \<Rightarrow> sweep stage" where
  \<comment> \<open>the body of the \<open>try\<close> block\<close>
  "relationshipSweep E W rootKey options =
     (let s0 = initial_sweep rootKey options
      in case w_isSuppressed W (clock s0) rootKey of
           Inl e \<Rightarrow> Throw e (tick s0)
         | Inr True \<Rightarrow> Return (Failure Character_not_found False None) (tick s0)
         | Inr False \<Rightarrow>
             (case inspectAll E W options (tick s0) of
                Next s1 \<Rightarrow>
                  (case relateInspected E W (inspectedCharacters s1) s1 of
                     Next s2 \<Rightarrow> admitReverseDeclared E W (knownReverseDeclaredCharacters options) s2
                   | r \<Rightarrow> r)
              | r \<Rightarrow> r))"

subsection \<open>Guild reads\<close>

text \<open>
  A character found through an owner's claims has no guild yet; up to four reads at a
  time fetch them from what is left of the budget. The pool holds the indexes not yet
  taken and the reads in flight with their attempt. Which read settles next is the
  event loop's choice, the parameter \<open>pick\<close>: a statement for every \<open>pick\<close> holds for
  every interleaving. A worker that finds the budget spent takes its index and leaves
  the character as it is; the budget never grows, so the order of those does not
  matter. \<^term>\<open>Inl\<close> is a run stopped by the abort signal.
\<close>

definition GUILD_READ_CONCURRENCY :: nat where "GUILD_READ_CONCURRENCY = 4"

record guildPool =
  gp_budget :: nat
  gp_queue :: "nat list"
  gp_active :: "(nat \<times> nat) list"
  gp_withGuilds :: "discoveredCharacter list"
  gp_dropped :: nat
  gp_clock :: nat
  gp_sent :: "gatewayCall list"

definition sendRead :: "discoveredCharacter list \<Rightarrow> nat \<Rightarrow> guildPool \<Rightarrow> guildPool" where
  "sendRead cs i p =
     p\<lparr>gp_budget := gp_budget p - 1, gp_sent := gp_sent p @ [Get_character (dc_key (cs ! i))]\<rparr>"

fun fillWorkers ::
    "discoveryWorld \<Rightarrow> discoveredCharacter list \<Rightarrow> nat list \<Rightarrow> guildPool \<Rightarrow> guildPool + guildPool" where
  "fillWorkers W cs [] p = Inr (p\<lparr>gp_queue := []\<rparr>)"
| "fillWorkers W cs (i # queue) p =
     (if GUILD_READ_CONCURRENCY \<le> length (gp_active p) then Inr (p\<lparr>gp_queue := i # queue\<rparr>)
      else if w_aborted W (gp_clock p) then Inl p
      else if gp_budget p = 0 then fillWorkers W cs queue p
      else fillWorkers W cs queue
             ((sendRead cs i p)\<lparr>gp_active := gp_active p @ [(i, 1)]\<rparr>))"

definition finishRead :: "nat \<Rightarrow> guildPool \<Rightarrow> guildPool" where
  "finishRead j p = p\<lparr>gp_active := take j (gp_active p) @ drop (Suc j) (gp_active p)\<rparr>"

definition dropRead :: "nat \<Rightarrow> guildPool \<Rightarrow> guildPool" where
  "dropRead j p = finishRead j (p\<lparr>gp_dropped := Suc (gp_dropped p)\<rparr>)"

definition readGuild ::
    "discoveryWorld \<Rightarrow> discoveredCharacter list \<Rightarrow> nat \<Rightarrow> guildPool \<Rightarrow> guildPool + guildPool" where
  "readGuild W cs j p =
     (let (i, attempt) = gp_active p ! j;
          observed = cs ! i;
          p1 = p\<lparr>gp_clock := Suc (gp_clock p)\<rparr>
      in if w_aborted W (gp_clock p1) then Inl p1
         else
           (case w_getCharacter W (gp_clock p) (dc_key observed) of
              Inr v \<Rightarrow>
                if isRaiderIoCharacter v
                then Inr (finishRead j
                       (p1\<lparr>gp_withGuilds :=
                            (gp_withGuilds p1)[i := observed\<lparr>dc_guild := rc_guild (read_character v)\<rparr>]\<rparr>))
                else Inr (dropRead j p1)
            | Inl e \<Rightarrow>
                if attempt = 1 \<and> isRetryableGuildReadFailure e then
                  if gp_budget p1 = 0 then Inr (dropRead j p1)
                  else Inr ((sendRead cs i p1)\<lparr>gp_active := (gp_active p1)[j := (i, 2)]\<rparr>)
                else Inr (dropRead j p1)))"

text \<open>
  The pool drains: a settled read leaves it or becomes a second attempt, and there is
  no third.
\<close>

definition read_weight :: "nat \<times> nat \<Rightarrow> nat" where
  "read_weight r = (if snd r = 1 then 2 else 1)"

definition pool_measure :: "guildPool \<Rightarrow> nat" where
  "pool_measure p = 3 * length (gp_queue p) + sum_list (map read_weight (gp_active p))"

lemma fillWorkers_measure:
  "fillWorkers W cs queue p = Inr p' \<Longrightarrow>
     pool_measure p' \<le> 3 * length queue + sum_list (map read_weight (gp_active p))"
  by (induction W cs queue p arbitrary: p' rule: fillWorkers.induct)
     (force simp: pool_measure_def read_weight_def split: if_splits)+

lemma weight_finish:
  assumes "j < length xs"
  shows "sum_list (map read_weight (take j xs @ drop (Suc j) xs)) < sum_list (map read_weight xs)"
proof -
  have "sum_list (map read_weight xs)
      = sum_list (map read_weight (take j xs @ xs ! j # drop (Suc j) xs))"
    using id_take_nth_drop [OF assms] by simp
  moreover have "0 < read_weight (xs ! j)" by (simp add: read_weight_def)
  ultimately show ?thesis by simp
qed

lemma weight_retry:
  assumes "j < length xs" and "xs ! j = (i, 1)"
  shows "sum_list (map read_weight (xs[j := (i, 2)])) < sum_list (map read_weight xs)"
proof -
  have "sum_list (map read_weight xs)
      = sum_list (map read_weight (take j xs @ xs ! j # drop (Suc j) xs))"
    using id_take_nth_drop [OF assms(1)] by simp
  with assms show ?thesis by (simp add: upd_conv_take_nth_drop read_weight_def)
qed

lemma readGuild_measure:
  assumes "j < length (gp_active p)" and "readGuild W cs j p = Inr p'"
  shows "3 * length (gp_queue p') + sum_list (map read_weight (gp_active p')) < pool_measure p"
  using assms(2) weight_finish [OF assms(1)] weight_retry [OF assms(1)]
  by (auto simp: readGuild_def Let_def finishRead_def dropRead_def sendRead_def pool_measure_def
      simp del: map_append sum_list_append
      split: prod.splits if_splits sum.splits)

function readGuilds ::
    "discoveryWorld \<Rightarrow> discoveredCharacter list \<Rightarrow> (guildPool \<Rightarrow> nat) \<Rightarrow> guildPool \<Rightarrow>
     guildPool + guildPool" where
  "readGuilds W cs pick p =
     (if gp_active p = [] then Inr p
      else
        (case readGuild W cs (pick p mod length (gp_active p)) p of
           Inl p1 \<Rightarrow> Inl p1
         | Inr p1 \<Rightarrow>
             (case fillWorkers W cs (gp_queue p1) p1 of
                Inl p2 \<Rightarrow> Inl p2
              | Inr p2 \<Rightarrow> readGuilds W cs pick p2)))"
  by pat_completeness auto
termination
proof (relation "measure (\<lambda>(W, cs, pick, p). pool_measure p)", goal_cases)
  case 1
  show ?case by simp
next
  case (2 W cs pick p p1 p2)
  then have "pick p mod length (gp_active p) < length (gp_active p)" by simp
  from readGuild_measure [OF this 2(2)] fillWorkers_measure [OF 2(3)]
  show ?case by simp
qed

declare readGuilds.simps [simp del]

subsection \<open>The whole run\<close>

definition publishable :: "js_env \<Rightarrow> sweep \<Rightarrow> discoveredCharacter list" where
  \<comment> \<open>primary observations first, then related ones sorted, de-duplicated, tournament ones out\<close>
  "publishable E s =
     (let primary = filter (\<lambda>c. dc_source c = Input \<or> dc_source c = Declared_main) (observations s);
          related = sort_by (compareCharacterKeys E)
            (filter (\<lambda>c. dc_source c = Claimed \<or> dc_source c = Profile_guess) (observations s))
      in filter (\<lambda>c. canonicalCharacterId E (dc_key c) \<notin> set (tournamentCharacters s))
           (deduplicateCharacters E (primary @ related)))"

definition guildReads :: "js_env \<Rightarrow> sweep \<Rightarrow> discoveredCharacter list \<Rightarrow> nat list" where
  "guildReads E s cs =
     filter (\<lambda>i. dc_guild (cs ! i) = JNull \<and>
               canonicalCharacterId E (dc_key (cs ! i)) \<notin> set (guildKnownCharacterIds s))
       [0 ..< length cs]"

definition withGuilds ::
    "js_env \<Rightarrow> discoveryWorld \<Rightarrow> (guildPool \<Rightarrow> nat) \<Rightarrow> sweep \<Rightarrow> discoveredCharacter list \<Rightarrow>
     guildPool + guildPool" where
  "withGuilds E W pick s cs =
     (let reads = guildReads E s cs;
          p = \<lparr>gp_budget = budget s, gp_queue = reads, gp_active = [], gp_withGuilds = cs,
               gp_dropped = 0, gp_clock = clock s, gp_sent = sent s\<rparr>
      in case fillWorkers W cs reads p of
           Inl p1 \<Rightarrow> Inl p1
         | Inr p1 \<Rightarrow> readGuilds W cs pick p1)"

definition snapshotOutcome ::
    "js_env \<Rightarrow> characterKey \<Rightarrow> sweep \<Rightarrow> discoveredCharacter list \<Rightarrow> guildPool \<Rightarrow> discoveryOutcome" where
  "snapshotOutcome E rootKey s cs p =
     (let rootId = canonicalCharacterId E rootKey in
      if \<not> list_ex (\<lambda>c. canonicalCharacterId E (dc_key c) = rootId) cs then
        if capped s then Failure Upstream_unavailable True None
        else Failure Character_not_found False None
      else if capped s then
        Partial_snapshot Request_cap (privacyHidden s) (tournamentCharacters s)
          (gp_withGuilds p) (gp_dropped p)
      else if privacyHidden s then
        Partial_snapshot Privacy_hidden False (tournamentCharacters s) (gp_withGuilds p) (gp_dropped p)
      else if omittedMembers s then
        Partial_snapshot Unsupported_member False (tournamentCharacters s) (gp_withGuilds p) (gp_dropped p)
      else Complete_snapshot (gp_withGuilds p) (gp_dropped p))"

datatype discoveryResult = Aborted_run | Settled discoveryOutcome

definition discoverCharacter ::
    "js_env \<Rightarrow> discoveryWorld \<Rightarrow> (guildPool \<Rightarrow> nat) \<Rightarrow> characterKey \<Rightarrow> discoverCharacterOptions \<Rightarrow>
     discoveryResult \<times> gatewayCall list" where
  \<comment> \<open>the result, and the gateway calls the run made\<close>
  "discoverCharacter E W pick rootKey options =
     (case relationshipSweep E W rootKey options of
        Return outcome s \<Rightarrow> (Settled outcome, sent s)
      | Throw e s \<Rightarrow>
          (if w_aborted W (clock s) then Aborted_run else Settled (failureOutcome e), sent s)
      | Next s \<Rightarrow>
          (let cs = publishable E s
           in case withGuilds E W pick s cs of
                Inl p \<Rightarrow> (Aborted_run, gp_sent p)
              | Inr p \<Rightarrow> (Settled (snapshotOutcome E rootKey s cs p), gp_sent p)))"

end
