(* ===== verification/DiscoveryCorrect.thy ===== *)
theory DiscoveryCorrect
  imports Discovery
begin

section \<open>Correctness of discovery\<close>

text \<open>
  An invariant rule for the whole relationship sweep, proved once in the locale
  \<open>sweep_invariant\<close> and interpreted for the request budget and for suppression; the
  invariant of the guild-read pool under every interleaving; and the properties of
  \<open>discoverCharacter\<close> that follow.
\<close>

subsection \<open>Invariants of the sweep\<close>

primrec stage_state :: "'s stage \<Rightarrow> 's" where
  "stage_state (Next s) = s"
| "stage_state (Throw e s) = s"
| "stage_state (Return r s) = s"

lemma tick_simps [simp]:
  "budget (tick s) = budget s" "sent (tick s) = sent s" "capped (tick s) = capped s"
  "observations (tick s) = observations s" "clock (tick s) = Suc (clock s)"
  "tournamentCharacters (tick s) = tournamentCharacters s"
  "guildKnownCharacterIds (tick s) = guildKnownCharacterIds s"
  by (simp_all add: tick_def)

locale sweep_invariant =
  fixes E :: js_env and W :: discoveryWorld and options :: discoverCharacterOptions
    and I :: "sweep \<Rightarrow> bool" and allowed :: "discoveredCharacter \<Rightarrow> bool"
  assumes frame: "I s \<Longrightarrow> observations s' = observations s \<Longrightarrow> budget s' = budget s \<Longrightarrow>
      sent s' = sent s \<Longrightarrow> capped s' = capped s \<Longrightarrow> I s'"
    and request_call: "I s \<Longrightarrow> request (Some call) operation s = (s', r) \<Longrightarrow> I s'"
    and request_root: "I s \<Longrightarrow> requestCharacter W options p s = (s', r) \<Longrightarrow> I s'"
    and observe: "I s \<Longrightarrow> allowed c \<Longrightarrow> I (s\<lparr>observations := observations s @ [c]\<rparr>)"
    and allowed_member: "w_isSuppressed W t (rc_key m) = Inr False \<Longrightarrow>
      allowed (discoveredCharacter_of m source)"
    and allowed_root: "w_isSuppressed W t (p_key p) = Inr False \<Longrightarrow>
      requestCharacter W options p s = (s', Answer v) \<Longrightarrow> isRaiderIoCharacter v \<Longrightarrow>
      allowed (discoveredCharacter_of (read_character v) source)"
    and allowed_reverse: "w_isSuppressed W t (dc_key c) = Inr False \<Longrightarrow>
      allowed (c\<lparr>dc_source := Declared_main\<rparr>)"
begin

lemma observe_frame:
  assumes "I s" and "allowed c" and "observations s' = observations s @ [c]"
    and "budget s' = budget s" and "sent s' = sent s" and "capped s' = capped s"
  shows "I s'"
  by (rule frame [OF observe [OF assms(1,2)]]) (use assms in auto)

lemma recordMembers_inv: "I s \<Longrightarrow> I (stage_state (recordMembers E W cs source s))"
proof (induction cs arbitrary: s)
  case Nil
  then show ?case by simp
next
  case (Cons c cs)
  let ?s1 = "s\<lparr>omittedMembers := omittedMembers s \<or> rc_omittedMembers c\<rparr>"
  have f: "I ?s1" "I (tick ?s1)" "I (?s1\<lparr>tournamentCharacters := t, omittedMembers := True\<rparr>)" for t
    by (rule frame [OF Cons.prems]; simp add: tick_def)+
  have obs: "I ((tick ?s1)\<lparr>observations := observations s @ [discoveredCharacter_of c source]\<rparr>)"
    if "w_isSuppressed W (clock s) (rc_key c) = Inr False"
    by (rule observe_frame [OF Cons.prems allowed_member [OF that]]) (simp_all add: tick_def)
  show ?case
    using Cons.prems f obs by (auto simp: Let_def split: sum.split intro!: Cons.IH)
qed

lemma recordRelated_inv: "I s \<Longrightarrow> I (stage_state (recordRelated E W p source s))"
  unfolding recordRelated_def by (rule recordMembers_inv) (erule frame; simp)

lemma tryGuesses_inv: "I s \<Longrightarrow> I (stage_state (tryGuesses E W gs s))"
proof (induction gs arbitrary: s)
  case Nil
  then show ?case by simp
next
  case (Cons g gs)
  obtain s1 r where req:
    "request (Some (Resolve_profile_guess g)) (\<lambda>t. w_resolveProfileGuess W t g) s = (s1, r)"
    by (meson surj_pair)
  have s1: "I s1" by (rule request_call [OF Cons.prems req])
  have "I (stage_state (case recordRelated E W p Profile_guess s1 of
      Next s2 \<Rightarrow> tryGuesses E W gs s2 | r \<Rightarrow> r))" for p
    using recordRelated_inv [OF s1, of p Profile_guess] Cons.IH
    by (auto split: stage.split)
  with s1 Cons.IH [OF s1] show ?case
    by (auto simp: req split: reply.split)
qed

lemma relateInspected_inv: "I s \<Longrightarrow> I (stage_state (relateInspected E W cs s))"
proof (induction cs arbitrary: s)
  case Nil
  then show ?case by simp
next
  case (Cons c cs)
  show ?case
  proof (cases "ownerOf c")
    case None
    have "I (stage_state (tryGuesses E W (guessesFor c) (s\<lparr>privacyHidden := True\<rparr>)))"
      by (rule tryGuesses_inv) (rule frame [OF Cons.prems]; simp)
    with None Cons.IH show ?thesis by (auto split: stage.split)
  next
    case (Some ow)
    let ?s0 = "s\<lparr>visitedOwners := visitedOwners s @ [ow]\<rparr>"
    obtain s1 r where req: "request (Some (Get_claimed_characters ow))
        (\<lambda>t. w_getClaimedCharacters W t ow) ?s0 = (s1, r)"
      by (meson surj_pair)
    have "I ?s0" by (rule frame [OF Cons.prems]) simp_all
    then have s1: "I s1" using req by (rule request_call)
    have "I (stage_state (case recordRelated E W p Claimed s1 of
        Next s2 \<Rightarrow> relateInspected E W cs s2 | r \<Rightarrow> r))" for p
      using recordRelated_inv [OF s1, of p Claimed] Cons.IH by (auto split: stage.split)
    with s1 Some Cons.IH [OF Cons.prems] show ?thesis
      by (auto simp: req split: reply.split)
  qed
qed

lemma admitReverseDeclared_inv: "I s \<Longrightarrow> I (stage_state (admitReverseDeclared E W cs s))"
proof (induction cs arbitrary: s)
  case Nil
  then show ?case by simp
next
  case (Cons c cs)
  have obs: "I ((tick s)\<lparr>observations := observations s @ [c\<lparr>dc_source := Declared_main\<rparr>],
      guildKnownCharacterIds := g\<rparr>)" if "w_isSuppressed W (clock s) (dc_key c) = Inr False" for g
    by (rule observe_frame [OF Cons.prems allowed_reverse [OF that]]) (simp_all add: tick_def)
  have t: "I (tick s)" by (rule frame [OF Cons.prems]) (simp_all add: tick_def)
  show ?case
    using Cons.prems t by (auto split: sum.split bool.split intro!: Cons.IH obs)
qed

primrec iteration_inv :: "sweep iteration \<Rightarrow> bool" where
  "iteration_inv (Again s) = I s"
| "iteration_inv (Leave r) = I (stage_state r)"

lemma admitInspected_inv:
  assumes "I s" and "\<And>source. allowed (discoveredCharacter_of c source)"
  shows "iteration_inv (admitInspected E p c s)"
  using assms(1)
  by (auto simp: admitInspected_def Let_def intro: frame observe_frame [OF assms])

lemma inspectNext_inv:
  assumes "I s"
  shows "iteration_inv (inspectNext E W options s)"
proof (cases "pendingCharacters s")
  case Nil
  with assms show ?thesis by (simp add: inspectNext_def)
next
  case (Cons p rest)
  let ?s1 = "s\<lparr>pendingCharacters := rest\<rparr>"
  let ?s2 = "(tick ?s1)\<lparr>visitedCharacters := visitedCharacters s @ [canonicalCharacterId E (p_key p)]\<rparr>"
  have s1: "I ?s1" "I (tick ?s1)" and s2: "I ?s2"
    by (auto intro!: frame [OF assms] simp: tick_def)
  obtain s3 r where req: "requestCharacter W options p ?s2 = (s3, r)"
    by (meson surj_pair)
  have s3: "I s3" by (rule request_root [OF s2 req])
  have adm: "iteration_inv (admitInspected E p (read_character v) s3)"
    if "w_isSuppressed W (clock s) (p_key p) = Inr False" "r = Answer v" "isRaiderIoCharacter v" for v
    using s3 allowed_root [OF that(1) _ that(3)] req that(2) by (intro admitInspected_inv) auto
  show ?thesis
    using assms s1 s3 adm Cons req
    by (auto simp: inspectNext_def Let_def split: sum.split bool.split reply.split)
qed

lemma inspectAll_inv: "I s \<Longrightarrow> I (stage_state (inspectAll E W options s))"
proof (induction s rule: measure_induct_rule [where f = loop_measure])
  case (less s)
  show ?case
    using inspectNext_inv [OF less.prems] less.IH inspectNext_decreases [of E W options s]
    by (subst inspectAll.simps) (auto split: iteration.split)
qed

lemma relationshipSweep_inv:
  assumes "I (initial_sweep rootKey options)"
  shows "I (stage_state (relationshipSweep E W rootKey options))"
proof -
  let ?s0 = "initial_sweep rootKey options"
  have t: "I (tick ?s0)" by (rule frame [OF assms]) (simp_all add: tick_def)
  have rev: "I (stage_state (case relateInspected E W cs s1 of
      Next s2 \<Rightarrow> admitReverseDeclared E W ds s2 | r \<Rightarrow> r))" if "I s1" for cs s1 ds
    using relateInspected_inv [OF that, of cs] admitReverseDeclared_inv by (auto split: stage.split)
  have all: "I (stage_state (case inspectAll E W options (tick ?s0) of
      Next s1 \<Rightarrow> (case relateInspected E W (inspectedCharacters s1) s1 of
         Next s2 \<Rightarrow> admitReverseDeclared E W (knownReverseDeclaredCharacters options) s2 | r \<Rightarrow> r)
    | r \<Rightarrow> r))"
    using inspectAll_inv [OF t] by (cases "inspectAll E W options (tick ?s0)") (simp_all add: rev)
  then show ?thesis
    using t by (auto simp: relationshipSweep_def Let_def split: sum.split bool.split)
qed

end

subsection \<open>The budget\<close>

text \<open>
  Every state of a run keeps what it has left and what it has sent within the cap; a
  run whose root was not handed to it keeps them at exactly the cap.
\<close>

definition within_cap :: "nat \<Rightarrow> sweep \<Rightarrow> bool" where
  "within_cap B s \<longleftrightarrow> budget s + length (sent s) \<le> B \<and> (capped s \<longrightarrow> budget s = 0)"

interpretation spend: sweep_invariant E W options "within_cap B" "\<lambda>_. True" for E W options B
  by unfold_locales
    (auto simp: within_cap_def requestCharacter_def split: pendingSource.splits option.splits
      dest!: request_cases)

definition accounts_for :: "nat \<Rightarrow> sweep \<Rightarrow> bool" where
  "accounts_for B s \<longleftrightarrow> budget s + length (sent s) = B"

lemma sweep_invariant_accounts_for:
  "rootCharacter options = None \<Longrightarrow> sweep_invariant W options (accounts_for B) (\<lambda>_. True)"
  by unfold_locales
    (auto simp: accounts_for_def requestCharacter_def split: pendingSource.splits
      dest!: request_cases)

subsection \<open>Suppression\<close>

text \<open>
  What the run relies on to publish nothing about a suppressed character: suppression
  is decided by the key, and a character lookup answers for the key it was asked
  about, as the Raider.IO client documents and does.
\<close>

locale suppression_contract =
  fixes W :: discoveryWorld and options :: discoverCharacterOptions
    and rootKey :: characterKey and suppressed :: "characterKey \<Rightarrow> bool"
  assumes decided: "w_isSuppressed W t k = Inr b \<Longrightarrow> b = suppressed k"
    and authoritative: "w_getCharacter W t k = Inr v \<Longrightarrow> isRaiderIoCharacter v \<Longrightarrow>
      rc_key (read_character v) = k"
    and held_root: "rootCharacter options = Some v \<Longrightarrow> isRaiderIoCharacter v \<Longrightarrow>
      rc_key (read_character v) = rootKey"
begin

definition none_suppressed :: "sweep \<Rightarrow> bool" where
  "none_suppressed s \<longleftrightarrow> (\<forall>c \<in> set (observations s). \<not> suppressed (dc_key c))"

lemma sweep_invariant_none_suppressed:
  assumes "\<not> suppressed rootKey"
  shows "sweep_invariant W options none_suppressed (\<lambda>c. \<not> suppressed (dc_key c))"
proof (unfold_locales, goal_cases)
  case (6 t p s s' v source)
  from 6(1) have "\<not> suppressed (p_key p)" using decided by blast
  with 6(2,3) assms show ?case
    by (auto simp: requestCharacter_def request_def discoveredCharacter_of_def authoritative
        held_root split: pendingSource.splits option.splits if_splits sum.splits)
qed (auto simp: none_suppressed_def requestCharacter_def request_def discoveredCharacter_of_def
      split: pendingSource.splits option.splits if_splits dest!: decided)

lemma relationshipSweep_none_suppressed:
  "none_suppressed (stage_state (relationshipSweep E W rootKey options))"
proof (cases "suppressed rootKey")
  case True
  then show ?thesis
    by (auto simp: relationshipSweep_def none_suppressed_def initial_sweep_def Let_def
        split: sum.split bool.split dest: decided)
next
  case False
  show ?thesis
    by (rule sweep_invariant.relationshipSweep_inv [OF sweep_invariant_none_suppressed [OF False]])
       (simp add: none_suppressed_def initial_sweep_def)
qed

end

subsection \<open>Guild reads\<close>

definition same_but_guild :: "discoveredCharacter list \<Rightarrow> discoveredCharacter list \<Rightarrow> bool" where
  "same_but_guild cs ds \<longleftrightarrow>
     map (\<lambda>c. c\<lparr>dc_guild := JNull\<rparr>) cs = map (\<lambda>c. c\<lparr>dc_guild := JNull\<rparr>) ds"

definition pool_inv :: "nat \<Rightarrow> discoveredCharacter list \<Rightarrow> guildPool \<Rightarrow> bool" where
  "pool_inv B cs p \<longleftrightarrow>
     gp_budget p + length (gp_sent p) = B \<and> same_but_guild (gp_withGuilds p) cs \<and>
     gp_dropped p + length (gp_active p) + length (gp_queue p) \<le> length cs"

lemma same_but_guild_update:
  assumes "same_but_guild ds cs"
  shows "same_but_guild (ds[i := (cs ! i)\<lparr>dc_guild := g\<rparr>]) cs"
proof (cases "i < length ds")
  case True
  have len: "length ds = length cs" using assms by (metis length_map same_but_guild_def)
  with assms True show ?thesis
    by (simp add: same_but_guild_def map_update) (metis list_update_id nth_map)
next
  case False
  with assms show ?thesis by (simp add: list_update_beyond)
qed

lemma sendRead_inv:
  "0 < gp_budget p \<Longrightarrow> gp_budget (sendRead cs i p) + length (gp_sent (sendRead cs i p))
     = gp_budget p + length (gp_sent p)"
  by (simp add: sendRead_def)

lemma fillWorkers_inv:
  assumes "gp_budget p + length (gp_sent p) = B" and "same_but_guild (gp_withGuilds p) cs"
    and "gp_dropped p + length (gp_active p) + length queue \<le> n"
  shows "case fillWorkers W cs queue p of Inl p' \<Rightarrow> length (gp_sent p') \<le> B
    | Inr p' \<Rightarrow> gp_budget p' + length (gp_sent p') = B \<and> same_but_guild (gp_withGuilds p') cs \<and>
        gp_dropped p' + length (gp_active p') + length (gp_queue p') \<le> n"
  using assms
proof (induction W cs queue p rule: fillWorkers.induct)
  case (1 W cs p)
  then show ?case by simp
next
  case (2 W cs i queue p)
  then show ?case by (auto simp: sendRead_def split: sum.splits)
qed

lemma readGuild_inv:
  assumes "pool_inv B cs p" and "j < length (gp_active p)"
  shows "case readGuild W cs j p of Inl p' \<Rightarrow> length (gp_sent p') \<le> B | Inr p' \<Rightarrow> pool_inv B cs p'"
  using assms
  by (auto simp: readGuild_def Let_def pool_inv_def finishRead_def dropRead_def sendRead_def
      same_but_guild_update split: prod.split sum.split)

lemma readGuilds_inv:
  "pool_inv B cs p \<Longrightarrow>
     (case readGuilds W cs pick p of Inl p' \<Rightarrow> length (gp_sent p') \<le> B | Inr p' \<Rightarrow> pool_inv B cs p')"
proof (induction W cs pick p rule: readGuilds.induct)
  case (1 W cs pick p)
  show ?case
  proof (cases "gp_active p = []")
    case True
    with 1(2) show ?thesis by (simp add: readGuilds.simps)
  next
    case False
    let ?j = "pick p mod length (gp_active p)"
    have j: "?j < length (gp_active p)" using False by simp
    show ?thesis
    proof (cases "readGuild W cs ?j p")
      case (Inl p1)
      with readGuild_inv [OF 1(2) j, of W] False show ?thesis by (simp add: readGuilds.simps)
    next
      case (Inr p1)
      with readGuild_inv [OF 1(2) j, of W] have "pool_inv B cs p1" by simp
      then have fill: "case fillWorkers W cs (gp_queue p1) p1 of Inl p' \<Rightarrow> length (gp_sent p') \<le> B
          | Inr p' \<Rightarrow> pool_inv B cs p'"
        using fillWorkers_inv [of p1 B cs "gp_queue p1" "length cs" W]
        by (auto simp: pool_inv_def split: sum.splits)
      show ?thesis
      proof (cases "fillWorkers W cs (gp_queue p1) p1")
        case (Inl p2)
        with fill Inr False show ?thesis by (simp add: readGuilds.simps)
      next
        case inr2: (Inr p2)
        with fill have "pool_inv B cs p2" by simp
        from 1(1) [OF False Inr inr2 this] show ?thesis
          using False Inr inr2 by (simp add: readGuilds.simps [of W cs pick p])
      qed
    qed
  qed
qed

lemma withGuilds_inv:
  "case withGuilds E W pick s cs of Inl p \<Rightarrow> length (gp_sent p) \<le> budget s + length (sent s)
   | Inr p \<Rightarrow> pool_inv (budget s + length (sent s)) cs p"
proof -
  let ?reads = "guildReads E s cs"
  let ?p = "\<lparr>gp_budget = budget s, gp_queue = ?reads, gp_active = [], gp_withGuilds = cs,
    gp_dropped = 0, gp_clock = clock s, gp_sent = sent s\<rparr>"
  have "length ?reads \<le> length cs"
    unfolding guildReads_def by (metis diff_zero length_filter_le length_upt)
  then have "case fillWorkers W cs ?reads ?p of
      Inl p \<Rightarrow> length (gp_sent p) \<le> budget s + length (sent s)
    | Inr p \<Rightarrow> pool_inv (budget s + length (sent s)) cs p"
    using fillWorkers_inv [of ?p "budget s + length (sent s)" cs ?reads "length cs" W]
    by (auto simp: pool_inv_def same_but_guild_def split: sum.splits)
  then show ?thesis
    using readGuilds_inv [of "budget s + length (sent s)" cs _ W pick]
    by (cases "fillWorkers W cs ?reads ?p") (simp_all add: withGuilds_def Let_def)
qed

text \<open>With nothing left to spend the pool sends nothing and loses nothing.\<close>

lemma fillWorkers_no_budget:
  "gp_budget p = 0 \<Longrightarrow> gp_active p = [] \<Longrightarrow> fillWorkers W cs queue p = Inr p' \<Longrightarrow>
     p' = p\<lparr>gp_queue := []\<rparr>"
  by (induction W cs queue p rule: fillWorkers.induct)
     (auto simp: GUILD_READ_CONCURRENCY_def split: if_splits)

lemma withGuilds_no_budget:
  assumes "budget s = 0" and "withGuilds E W pick s cs = Inr p"
  shows "gp_sent p = sent s" "gp_dropped p = 0"
  using assms fillWorkers_no_budget
  by (auto simp: withGuilds_def Let_def readGuilds.simps split: sum.splits
      dest!: fillWorkers_no_budget [rotated 2])

subsection \<open>Snapshots\<close>

fun snapshotCharacters :: "discoveryResult \<Rightarrow> discoveredCharacter list option" where
  "snapshotCharacters (Settled (Complete_snapshot cs d)) = Some cs"
| "snapshotCharacters (Settled (Partial_snapshot l h ex cs d)) = Some cs"
| "snapshotCharacters _ = None"

fun excludedIds :: "discoveryResult \<Rightarrow> string list" where
  "excludedIds (Settled (Partial_snapshot l h ex cs d)) = ex"
| "excludedIds _ = []"

fun droppedReads :: "discoveryResult \<Rightarrow> nat" where
  "droppedReads (Settled (Complete_snapshot cs d)) = d"
| "droppedReads (Settled (Partial_snapshot l h ex cs d)) = d"
| "droppedReads _ = 0"

lemma same_but_guild_keys:
  assumes "same_but_guild cs ds"
  shows "map dc_key cs = map dc_key ds"
proof -
  have "map dc_key (map (\<lambda>c. c\<lparr>dc_guild := JNull\<rparr>) cs) = map dc_key (map (\<lambda>c. c\<lparr>dc_guild := JNull\<rparr>) ds)"
    using assms by (simp only: same_but_guild_def)
  then show ?thesis by (simp add: comp_def)
qed

lemma publishable_distinct: "distinct (map (\<lambda>c. canonicalCharacterId E (dc_key c)) (publishable E s))"
  by (auto simp: publishable_def deduplicateCharacters_def Let_def intro!: distinct_map_filter
      distinct_keep_first)

lemma publishable_observed:
  "c \<in> set (publishable E s) \<Longrightarrow>
     c \<in> set (observations s) \<and> canonicalCharacterId E (dc_key c) \<notin> set (tournamentCharacters s)"
  using set_keep_first_subset by (fastforce simp: publishable_def deduplicateCharacters_def Let_def)

text \<open>The sweep returns early only to report that the root was not found.\<close>

lemma recordMembers_no_return: "recordMembers E W cs source s \<noteq> Return r s'"
  by (induction E W cs source s rule: recordMembers.induct) (auto simp: Let_def split: sum.split)

lemma recordRelated_no_return: "recordRelated E W p source s \<noteq> Return r s'"
  by (simp add: recordRelated_def recordMembers_no_return)

lemma tryGuesses_no_return: "tryGuesses E W gs s \<noteq> Return r s'"
  by (induction gs arbitrary: s)
     (auto simp: recordRelated_no_return split: prod.split reply.split stage.split)

lemma relateInspected_no_return: "relateInspected E W cs s \<noteq> Return r s'"
  by (induction cs arbitrary: s)
     (auto simp: recordRelated_no_return tryGuesses_no_return
       split: prod.split reply.split stage.split option.split)

lemma admitReverseDeclared_no_return: "admitReverseDeclared E W cs s \<noteq> Return r s'"
  by (induction cs arbitrary: s) (auto split: sum.split bool.split)

lemma inspectNext_return:
  "inspectNext E W options s = Leave (Return r s') \<Longrightarrow> r = Failure Character_not_found False None"
  by (auto simp: inspectNext_def admitInspected_def Let_def split: list.splits if_splits sum.splits
      bool.splits prod.splits reply.splits)

lemma inspectAll_return:
  "inspectAll E W options s = Return r s' \<Longrightarrow> r = Failure Character_not_found False None"
proof (induction E W options s rule: inspectAll.induct)
  case (1 E W options s)
  then show ?case
    by (subst (asm) (2) inspectAll.simps) (auto split: iteration.splits dest: inspectNext_return)
qed

lemma relationshipSweep_return:
  "relationshipSweep E W rootKey options = Return r s \<Longrightarrow> r = Failure Character_not_found False None"
  by (auto simp: relationshipSweep_def Let_def relateInspected_no_return
      admitReverseDeclared_no_return split: sum.splits bool.splits stage.splits
      dest: inspectAll_return)

text \<open>A published snapshot comes from a sweep that ended normally and a drained pool.\<close>

lemma snapshot_cases:
  assumes "discoverCharacter E W pick rootKey options = (result, calls)"
    and "snapshotCharacters result = Some cs"
  obtains s p where "relationshipSweep E W rootKey options = Next s"
    and "withGuilds E W pick s (publishable E s) = Inr p"
    and "result = Settled (snapshotOutcome E rootKey s (publishable E s) p)"
    and "cs = gp_withGuilds p" and "calls = gp_sent p"
    and "canonicalCharacterId E rootKey \<in> (\<lambda>c. canonicalCharacterId E (dc_key c)) ` set (publishable E s)"
proof (cases "relationshipSweep E W rootKey options")
  case (Next s)
  show ?thesis
  proof (cases "withGuilds E W pick s (publishable E s)")
    case (Inl p)
    with Next assms show ?thesis by (auto simp: discoverCharacter_def Let_def)
  next
    case (Inr p)
    have eq: "result = Settled (snapshotOutcome E rootKey s (publishable E s) p)" "calls = gp_sent p"
      using Next Inr assms(1) by (simp_all add: discoverCharacter_def)
    with assms(2) have "cs = gp_withGuilds p"
      and ex: "list_ex (\<lambda>c. canonicalCharacterId E (dc_key c) = canonicalCharacterId E rootKey) (publishable E s)"
      by (auto simp: snapshotOutcome_def Let_def split: if_splits)
    moreover from ex have "canonicalCharacterId E rootKey
        \<in> (\<lambda>c. canonicalCharacterId E (dc_key c)) ` set (publishable E s)"
      by (auto simp: list_ex_iff intro: rev_image_eqI)
    ultimately show ?thesis using that [OF Next Inr eq(1) _ eq(2)] by blast
  qed
next
  case (Throw e s)
  with assms show ?thesis
    by (auto simp: discoverCharacter_def failureOutcome_def split: if_splits option.splits
        upstreamFailure.splits)
next
  case (Return r s)
  with assms relationshipSweep_return [OF Return] show ?thesis
    by (auto simp: discoverCharacter_def)
qed

subsection \<open>An example\<close>

text \<open>
  An example world for the witnesses: the root is owned by a user whose claims list the root, a third character and a suppressed one.
\<close>

definition payload :: "characterKey \<Rightarrow> jsval \<Rightarrow> jsval \<Rightarrow> jsval" where
  "payload k ow main =
     JObject [(''key'', JObject [(''region'', JString (region k)), (''realm'', JString (realm k)),
                                 (''name'', JString (cname k))]),
              (''displayName'', JString (cname k)), (''className'', JString ''Mage''),
              (''level'', JNumber (Finite 80)), (''guild'', JNull), (''ownerId'', ow),
              (''profileGuess'', JNull), (''declaredMain'', main)]"

definition exampleWorld :: discoveryWorld where
  "exampleWorld =
     \<lparr>w_getCharacter = (\<lambda>t k. Inr (payload k (JString ''owner'') JNull)),
      w_getClaimedCharacters = (\<lambda>t ow. Inr (JObject [(''characters'',
        JArray [payload (ryii\<lparr>cname := ''ryun''\<rparr>) JNull JNull, payload ryii JNull JNull,
                payload (ryii\<lparr>cname := ''hidden''\<rparr>) JNull JNull])])),
      w_resolveProfileGuess = (\<lambda>t g. Inr JNull),
      w_isSuppressed = (\<lambda>t k. Inr (cname k = ''hidden'')), w_aborted = (\<lambda>t. False)\<rparr>"

definition exampleOptions :: discoverCharacterOptions where
  "exampleOptions = \<lparr>requestCap = Finite 5, knownReverseDeclaredCharacters = [], rootCharacter = None\<rparr>"

abbreviation exampleRun :: "discoveryResult \<times> gatewayCall list" where
  "exampleRun \<equiv> discoverCharacter ascii_env exampleWorld (\<lambda>_. 0) ryii exampleOptions"

lemma exampleRun_snapshot: "snapshotCharacters (fst exampleRun) = Some (the (snapshotCharacters (fst exampleRun)))"
proof -
  have "snapshotCharacters (fst exampleRun) \<noteq> None" by code_simp
  then show ?thesis by simp
qed

lemma read_payload [simp]: "rc_key (read_character (payload k ow main)) = k"
  by (simp add: payload_def read_character_def read_key_def)

lemma exampleWorld_contract:
  "suppression_contract exampleWorld exampleOptions ryii (\<lambda>k. cname k = ''hidden'')"
  by unfold_locales (auto simp: exampleWorld_def exampleOptions_def)

subsection \<open>Properties\<close>

text \<open>
  C1. However the world answers and however the concurrent guild reads interleave,
  a run never sends more gateway requests than its cap, aborted and failed runs
  included.
\<close>

theorem discovery_within_budget:
  "length (snd (discoverCharacter E W pick rootKey options)) \<le> requestBudget (requestCap options)"
proof -
  let ?B = "requestBudget (requestCap options)"
  have inv: "within_cap ?B (stage_state (relationshipSweep E W rootKey options))"
    by (rule spend.relationshipSweep_inv) (simp add: within_cap_def initial_sweep_def)
  show ?thesis
  proof (cases "relationshipSweep E W rootKey options")
    case (Next s)
    with inv have "budget s + length (sent s) \<le> ?B" by (simp add: within_cap_def)
    with withGuilds_inv [where E = E and W = W and pick = pick and s = s and cs = "publishable E s"] Next show ?thesis
      by (auto simp: discoverCharacter_def Let_def pool_inv_def split: sum.splits)
  qed (use inv in \<open>auto simp: discoverCharacter_def within_cap_def\<close>)
qed

text \<open>
  A published snapshot is anchored to its root, lists no character twice, lists
  no tournament character it reports as excluded, and loses at most one guild read
  per character.
\<close>

theorem discovery_snapshot_sound:
  assumes "discoverCharacter E W pick rootKey options = (result, calls)"
    and "snapshotCharacters result = Some cs"
  shows "distinct (map (\<lambda>c. canonicalCharacterId E (dc_key c)) cs) \<and>
    canonicalCharacterId E rootKey \<in> set (map (\<lambda>c. canonicalCharacterId E (dc_key c)) cs) \<and>
    set (excludedIds result) \<inter> set (map (\<lambda>c. canonicalCharacterId E (dc_key c)) cs) = {} \<and>
    droppedReads result \<le> length cs"
proof -
  obtain s p where sp: "withGuilds E W pick s (publishable E s) = Inr p"
    "result = Settled (snapshotOutcome E rootKey s (publishable E s) p)" "cs = gp_withGuilds p"
    and anchored: "canonicalCharacterId E rootKey
      \<in> (\<lambda>c. canonicalCharacterId E (dc_key c)) ` set (publishable E s)"
    by (rule snapshot_cases [OF assms])
  then have same: "same_but_guild cs (publishable E s)" and drop: "gp_dropped p \<le> length (publishable E s)"
    using withGuilds_inv [where E = E and W = W and pick = pick and s = s and cs = "publishable E s"]
    by (auto simp: pool_inv_def)
  have len: "length cs = length (publishable E s)"
    using same by (metis length_map same_but_guild_def)
  have ids: "map (\<lambda>c. canonicalCharacterId E (dc_key c)) cs
      = map (\<lambda>c. canonicalCharacterId E (dc_key c)) (publishable E s)"
    using arg_cong [OF same_but_guild_keys [OF same], of "map (canonicalCharacterId E)"]
    by (simp add: comp_def)
  have "excludedIds result = [] \<or> excludedIds result = tournamentCharacters s"
    and "droppedReads result \<le> gp_dropped p"
    using sp(2) by (auto simp: snapshotOutcome_def Let_def)
  then show ?thesis
    using publishable_distinct [of E s] publishable_observed [of _ E s] anchored drop len
    by (auto simp: ids)
qed

theorem discovery_snapshot_sound_witness:
  "distinct (map (\<lambda>c. canonicalCharacterId ascii_env (dc_key c)) (the (snapshotCharacters (fst exampleRun))))"
  using discovery_snapshot_sound [OF prod.collapse [symmetric] exampleRun_snapshot] by blast

text \<open>
  C2. With suppression decided by the key and character lookups answering for the key
  they were asked about, no suppressed character is published, through whichever
  relationship it was found.
\<close>

theorem discovery_publishes_no_suppressed:
  assumes "suppression_contract W options rootKey suppressed"
    and "discoverCharacter E W pick rootKey options = (result, calls)"
    and "snapshotCharacters result = Some cs"
  shows "\<forall>c \<in> set cs. \<not> suppressed (dc_key c)"
proof -
  obtain s p where sweep: "relationshipSweep E W rootKey options = Next s"
    and sp: "withGuilds E W pick s (publishable E s) = Inr p" "cs = gp_withGuilds p"
    by (rule snapshot_cases [OF assms(2,3)])
  then have "map dc_key cs = map dc_key (publishable E s)"
    using withGuilds_inv [where E = E and W = W and pick = pick and s = s and cs = "publishable E s"]
    by (auto simp: pool_inv_def intro: same_but_guild_keys)
  then have "dc_key ` set cs = dc_key ` set (publishable E s)" by (metis list.set_map)
  moreover have "\<not> suppressed (dc_key c)" if "c \<in> set (publishable E s)" for c
    using suppression_contract.relationshipSweep_none_suppressed [OF assms(1), where E = E] sweep
      publishable_observed [OF that]
    by (simp add: suppression_contract.none_suppressed_def [OF assms(1)])
  ultimately show ?thesis by (metis imageE imageI)
qed

theorem discovery_publishes_no_suppressed_witness:
  "list_all (\<lambda>c. cname (dc_key c) \<noteq> ''hidden'') (the (snapshotCharacters (fst exampleRun)))"
  unfolding list_all_iff
  by (rule discovery_publishes_no_suppressed
      [OF exampleWorld_contract prod.collapse [symmetric] exampleRun_snapshot])

text \<open>
  A snapshot blames the request cap only when the run really spent all of it: a
  run that read its own root and reports \<open>request_cap\<close> sent exactly the capped number
  of requests, and none of them for a guild.
\<close>

theorem discovery_request_cap_honest:
  assumes "rootCharacter options = None"
    and "discoverCharacter E W pick rootKey options =
      (Settled (Partial_snapshot Request_cap hidden excluded cs dropped), calls)"
  shows "length calls = requestBudget (requestCap options) \<and> dropped = 0"
proof -
  let ?B = "requestBudget (requestCap options)"
  have snap: "snapshotCharacters (Settled (Partial_snapshot Request_cap hidden excluded cs dropped)) = Some cs"
    by simp
  obtain s p where sweep: "relationshipSweep E W rootKey options = Next s"
    and sp: "withGuilds E W pick s (publishable E s) = Inr p" "calls = gp_sent p"
    and out: "Settled (Partial_snapshot Request_cap hidden excluded cs dropped)
      = Settled (snapshotOutcome E rootKey s (publishable E s) p)"
    by (rule snapshot_cases [OF assms(2) snap])
  have cap: "capped s" and d: "dropped = gp_dropped p"
    using out by (auto simp: snapshotOutcome_def Let_def split: if_splits)
  have "within_cap ?B (stage_state (relationshipSweep E W rootKey options))"
    by (rule spend.relationshipSweep_inv) (simp add: within_cap_def initial_sweep_def)
  with sweep cap have zero: "budget s = 0" by (simp add: within_cap_def)
  have "accounts_for ?B (stage_state (relationshipSweep E W rootKey options))"
    by (rule sweep_invariant.relationshipSweep_inv [OF sweep_invariant_accounts_for [OF assms(1)]])
       (simp add: accounts_for_def initial_sweep_def)
  with sweep zero have "length (sent s) = ?B" by (simp add: accounts_for_def)
  moreover have "gp_sent p = sent s" "gp_dropped p = 0"
    using sp(1) withGuilds_no_budget [OF zero] by auto
  ultimately show ?thesis using sp(2) d by simp
qed

definition cappedOptions :: discoverCharacterOptions where
  "cappedOptions = exampleOptions\<lparr>requestCap := Finite 1\<rparr>"

theorem discovery_request_cap_honest_witness:
  "\<exists>cs calls. discoverCharacter ascii_env exampleWorld (\<lambda>_. 0) ryii cappedOptions =
     (Settled (Partial_snapshot Request_cap False [] cs 0), calls) \<and> length calls = 1"
proof -
  let ?run = "discoverCharacter ascii_env exampleWorld (\<lambda>_. 0) ryii cappedOptions"
  have none: "rootCharacter cappedOptions = None" by (simp add: cappedOptions_def exampleOptions_def)
  have run: "?run = (Settled (Partial_snapshot Request_cap False []
      (the (snapshotCharacters (fst ?run))) 0), snd ?run)"
    by code_simp
  from discovery_request_cap_honest [OF none run] have "length (snd ?run) = 1"
    by (simp add: cappedOptions_def)
  with run show ?thesis by blast
qed

text \<open>
  C3. A failed run is retryable exactly when the upstream was unavailable, and a retry
  delay it passes on is a finite, non-negative number.
\<close>

theorem discovery_failure_retry:
  assumes "discoverCharacter E W pick rootKey options = (Settled (Failure code retryable delay), calls)"
  shows "(retryable \<longleftrightarrow> code = Upstream_unavailable) \<and>
    (delay = None \<or> (\<exists>d \<ge> 0. delay = Some (Finite d)))"
proof (cases "relationshipSweep E W rootKey options")
  case (Next s)
  with assms show ?thesis
    by (auto simp: discoverCharacter_def snapshotOutcome_def Let_def split: sum.splits if_splits)
next
  case (Throw e s)
  have "usableDelay x = None \<or> (\<exists>d \<ge> 0. usableDelay x = Some (Finite d))" for x
    by (cases x rule: usableDelay.cases) auto
  with Throw assms show ?thesis
    by (auto simp: discoverCharacter_def failureOutcome_def split: if_splits option.splits
        upstreamFailure.splits)
next
  case (Return r s)
  with assms relationshipSweep_return [OF Return] show ?thesis
    by (auto simp: discoverCharacter_def)
qed

definition unavailableWorld :: discoveryWorld where
  "unavailableWorld = exampleWorld\<lparr>w_getCharacter :=
     (\<lambda>t k. Inl (Upstream (Transient (Some (Finite 503)) (Some (Finite 2000)))))\<rparr>"

theorem discovery_failure_retry_witness:
  "\<exists>calls. discoverCharacter ascii_env unavailableWorld (\<lambda>_. 0) ryii exampleOptions =
     (Settled (Failure Upstream_unavailable True (Some (Finite 2000))), calls) \<and>
     (True \<longleftrightarrow> Upstream_unavailable = Upstream_unavailable)"
proof -
  let ?run = "discoverCharacter ascii_env unavailableWorld (\<lambda>_. 0) ryii exampleOptions"
  have run: "?run = (Settled (Failure Upstream_unavailable True (Some (Finite 2000))), snd ?run)"
    by code_simp
  from discovery_failure_retry [OF run] run show ?thesis by blast
qed

text \<open>
  A root that is suppressed by the time the run starts is reported as not found,
  without a single gateway request.
\<close>

theorem discovery_suppressed_root:
  assumes "w_isSuppressed W 0 rootKey = Inr True"
  shows "discoverCharacter E W pick rootKey options =
    (Settled (Failure Character_not_found False None), [])"
  using assms by (simp add: discoverCharacter_def relationshipSweep_def initial_sweep_def tick_def Let_def)

theorem discovery_suppressed_root_witness:
  "discoverCharacter ascii_env exampleWorld (\<lambda>_. 0) (ryii\<lparr>cname := ''hidden''\<rparr>) exampleOptions =
     (Settled (Failure Character_not_found False None), [])"
  by (rule discovery_suppressed_root) (simp add: exampleWorld_def)

end
