(* ===== verification/Doubles.thy ===== *)
theory Doubles
  imports Complex_Main "HOL-Library.Log_Nat"
begin

section \<open>Floating-point rounding\<close>

text \<open>
  Arithmetic on JavaScript \<^verbatim>\<open>number\<close>s rounds to the nearest double, ties to the even
  significand. The sources divide and multiply small non-negative numbers only, so
  the model covers the normal range: 53 significant bits and no bound on the
  exponent. The lemmas bound the relative error and settle when a rounded percentage
  of two counts can reach a threshold.
\<close>

definition round_half_even :: "rat \<Rightarrow> int" where
  "round_half_even x =
     (let f = \<lfloor>x\<rfloor>; r = x - of_int f
      in if r < 1 / 2 then f else if r > 1 / 2 then f + 1
         else if even f then f else f + 1)"

definition double_scale :: "rat \<Rightarrow> int" where
  \<comment> \<open>the power of two that brings \<open>x\<close> to 53 bits before the point\<close>
  "double_scale x =
     (let (n, d) = quotient_of x; k = 53 - (bitlen n - bitlen d)
      in if x * 2 powi k < 2 ^ 53 then k else k - 1)"

definition roundDouble :: "rat \<Rightarrow> rat" where
  "roundDouble x =
     (if x \<le> 0 then x
      else (let k = double_scale x in of_int (round_half_even (x * 2 powi k)) * 2 powi (- k)))"

lemma round_half_even_error: "\<bar>of_int (round_half_even x) - x\<bar> \<le> 1 / 2"
  using floor_correct [of x]
  by (auto simp: round_half_even_def Let_def abs_le_iff field_simps)

lemma bitlen_powi:
  assumes "0 < n"
  shows "2 powi (bitlen n - 1) \<le> (of_int n :: rat)" "(of_int n :: rat) < 2 powi (bitlen n)"
proof -
  have b: "0 < bitlen n" using assms bitlen_eq_zero_iff [of n] bitlen_nonneg [of n] by linarith
  have "2 ^ nat (bitlen n - 1) \<le> n" "n < 2 ^ nat (bitlen n)"
    using bitlen_bounds [OF assms] by auto
  then have "(2 :: rat) ^ nat (bitlen n - 1) \<le> of_int n" "of_int n < (2 :: rat) ^ nat (bitlen n)"
    by (metis of_int_le_iff of_int_numeral of_int_power,
        metis of_int_less_iff of_int_numeral of_int_power)
  with b show "2 powi (bitlen n - 1) \<le> (of_int n :: rat)" "(of_int n :: rat) < 2 powi (bitlen n)"
    by (simp_all add: power_int_def)
qed

text \<open>The scaled value has at least 52 bits before the point.\<close>

lemma double_scale_large:
  assumes "0 < x"
  shows "2 ^ 52 \<le> x * 2 powi (double_scale x)"
proof -
  obtain n d where q: "quotient_of x = (n, d)" by fastforce
  then have d: "0 < d" and x: "x = of_int n / of_int d"
    using quotient_of_denom_pos quotient_of_div by blast+
  with assms have n: "0 < n" by (simp add: zero_less_divide_iff)
  define k where "k = 53 - (bitlen n - bitlen d)"
  have "2 powi (bitlen n - 1) / 2 powi (bitlen d) \<le> x"
    unfolding x using bitlen_powi [OF n] bitlen_powi [OF d] d
    by (intro frac_le) (use n in auto)
  then have "2 powi (bitlen n - 1) / 2 powi (bitlen d) * 2 powi k \<le> x * 2 powi k"
    by (rule mult_right_mono) simp
  moreover have "2 powi (bitlen n - 1) / 2 powi (bitlen d) * 2 powi k = (2 :: rat) powi 52"
    by (simp add: k_def power_int_diff power_int_add)
  ultimately have large: "(2 :: rat) ^ 52 \<le> x * 2 powi k"
    by simp
  have half: "x * 2 powi (k - 1) = x * 2 powi k / 2"
    by (simp add: power_int_diff)
  have "2 ^ 52 \<le> x * 2 powi (k - 1)" if "\<not> x * 2 powi k < 2 ^ 53"
    unfolding half using that by (simp add: not_less)
  with large show ?thesis
    by (auto simp: double_scale_def q k_def [symmetric] Let_def simp del: power_numeral)
qed

lemma roundDouble_error:
  assumes "0 \<le> x"
  shows "\<bar>roundDouble x - x\<bar> \<le> x / 2 ^ 53"
proof (cases "x = 0")
  case True
  then show ?thesis by (simp add: roundDouble_def)
next
  case False
  with assms have x: "0 < x" by simp
  define k where "k = double_scale x"
  define m where "m = x * 2 powi k"
  have m: "2 ^ 52 \<le> m" using double_scale_large [OF x] by (simp add: m_def k_def)
  have unscale: "m * 2 powi (- k) = x" by (simp add: m_def power_int_minus field_simps)
  have "roundDouble x = of_int (round_half_even m) * 2 powi (- k)"
    using x by (simp add: roundDouble_def Let_def k_def m_def)
  then have "roundDouble x - x = (of_int (round_half_even m) - m) * 2 powi (- k)"
    by (simp only: left_diff_distrib unscale)
  then have "\<bar>roundDouble x - x\<bar> \<le> 1 / 2 * 2 powi (- k)"
    using round_half_even_error [of m] by (simp add: abs_mult)
  also have "\<dots> \<le> m / 2 ^ 53 * 2 powi (- k)"
    by (rule mult_right_mono) (use m in simp_all)
  also have "\<dots> = x / 2 ^ 53" using unscale by simp
  finally show ?thesis .
qed

definition js_percent :: "nat \<Rightarrow> nat \<Rightarrow> rat" where
  \<comment> \<open>\<open>(part / whole) * 100\<close>\<close>
  "js_percent part whole = roundDouble (roundDouble (of_nat part / of_nat whole) * 100)"

text \<open>
  Rounding never lifts a share below one fifth to twenty percent: the counts would
  have to be of the size of a double's precision.
\<close>

lemma js_percent_at_least_20:
  assumes "20 \<le> js_percent part whole" and "0 < whole" and "whole < 2 ^ 40"
  shows "whole \<le> 5 * part"
proof (rule ccontr)
  assume "\<not> whole \<le> 5 * part"
  then have less: "5 * part + 1 \<le> whole" by simp
  define q :: rat where "q = of_nat part / of_nat whole"
  define r where "r = roundDouble q"
  have w: "0 < (of_nat whole :: rat)" using assms(2) by simp
  have q0: "0 \<le> q" by (simp add: q_def)
  have "(5 :: rat) * of_nat part + 1 \<le> of_nat whole"
    using less of_nat_mono [OF less, where 'a = rat] by simp
  then have "5 * q + 1 / of_nat whole \<le> 1"
    using w by (simp add: q_def field_simps)
  moreover have "1 / 2 ^ 40 \<le> 1 / (of_nat whole :: rat)"
  proof (rule divide_left_mono)
    show "(of_nat whole :: rat) \<le> 2 ^ 40"
      using of_nat_mono [OF less_imp_le [OF assms(3)], where 'a = rat] by simp
  qed (use w in simp_all)
  ultimately have q: "5 * q \<le> 1 - 1 / 2 ^ 40" by linarith
  have r_err: "\<bar>r - q\<bar> \<le> q / 2 ^ 53" unfolding r_def by (rule roundDouble_error [OF q0])
  have "q / 2 ^ 53 \<le> q" using q0 by (simp add: field_simps)
  from order.trans [OF r_err this] have r0: "0 \<le> r" unfolding abs_le_iff by linarith
  have p_err: "\<bar>js_percent part whole - r * 100\<bar> \<le> r * 100 / 2 ^ 53"
    using roundDouble_error [of "r * 100"] r0 by (simp add: js_percent_def r_def q_def)
  have "js_percent part whole \<le> r * 100 * (1 + 1 / 2 ^ 53)"
    using abs_le_D1 [OF p_err] by (simp add: field_simps)
  also have "\<dots> \<le> q * (1 + 1 / 2 ^ 53) * 100 * (1 + 1 / 2 ^ 53)"
    using abs_le_D1 [OF r_err] by (intro mult_right_mono) (simp_all add: field_simps)
  also have "\<dots> \<le> (1 - 1 / 2 ^ 40) / 5 * (1 + 1 / 2 ^ 53) * 100 * (1 + 1 / 2 ^ 53)"
    using q by (intro mult_right_mono) simp_all
  also have "\<dots> < 20" by simp
  finally show False using assms(1) by simp
qed

end
