(* ===== verification/Fingerprint.thy ===== *)
theory Fingerprint
  imports Discovery Doubles
begin

section \<open>Fingerprint discovery\<close>

text \<open>
  \<open>packages/domain/src/fingerprint-discovery.ts\<close>: a sweep over the root's guild roster
  and the rosters of its historical guilds, comparing every candidate's achievement
  timestamps with the root's. Candidates are read several at a time; their results are
  folded into the outcome in candidate order, and a run that ends early leaves a cursor
  the next one resumes after.

  The gateway, the suppression check and the abort signal are parameters. Each answer
  may depend on the number of answers received before it. The event loop's choice of
  what settles next is the parameter \<open>pick\<close>.
\<close>

subsection \<open>Candidates and outcomes\<close>

definition mandatoryMinimumCommon :: jsnum where "mandatoryMinimumCommon = Finite 200"
definition mandatoryMinimumIdenticalPercent :: jsnum where
  "mandatoryMinimumIdenticalPercent = Finite 20"

record fingerprintCandidate =
  fc_key :: characterKey
  fc_displayName :: string
  fc_className :: string
  fc_level :: jsnum
  fc_guild :: jsval

record fingerprintWorld =
  fw_getGuildRoster :: "nat \<Rightarrow> characterKey \<Rightarrow> thrown + jsval"
  fw_getGuildRosterByIdentity :: "nat \<Rightarrow> characterGuild \<Rightarrow> thrown + jsval"
  fw_getAchievementFingerprint :: "nat \<Rightarrow> characterKey \<Rightarrow> thrown + jsval"
  fw_isSuppressed :: "nat \<Rightarrow> characterKey \<Rightarrow> thrown + bool"
  fw_aborted :: "nat \<Rightarrow> bool"

datatype fingerprintCall =
  Guild_roster characterKey | Guild_roster_by_identity characterGuild | Achievement_fingerprint characterKey

text \<open>The last field of the first two outcomes is the count of skipped historical guilds.\<close>

datatype fingerprintSweepOutcome =
    Matched "discoveredCharacter list" int bool nat \<comment> \<open>\<open>characters\<close>, \<open>requestsUsed\<close>, \<open>unreadRoot\<close>\<close>
  | Capped_sweep "discoveredCharacter list" int "string option" nat \<comment> \<open>\<open>resumeAfter\<close>\<close>
  | Sweep_failure failureCode bool "jsnum option"

record discoverFingerprintMatchesOptions =
  fo_requestCap :: jsnum
  fo_minimumCommon :: jsnum
  fo_minimumIdenticalPercent :: jsnum
  fo_resumeAfter :: "string option"
  fo_historicalGuilds :: "characterGuild list"
  fo_readConcurrency :: "jsnum option"

datatype candidateResult =
    Skipped
  | Swept string "discoveredCharacter option"
  | Unread string

fun readConcurrency :: "jsnum option \<Rightarrow> nat" where
  "readConcurrency (Some (Finite q)) = (if q = of_int \<lfloor>q\<rfloor> \<and> 1 \<le> q then nat \<lfloor>q\<rfloor> else 1)"
| "readConcurrency _ = 1"

definition isNotFound :: "thrown \<Rightarrow> bool" where
  "isNotFound e \<longleftrightarrow> isUpstreamFailure e = Some Not_found"

definition isCapReached :: "thrown \<Rightarrow> bool" where
  "isCapReached e \<longleftrightarrow> e = Cap_reached"

definition isCandidate :: "jsval \<Rightarrow> bool" where
  "isCandidate v \<longleftrightarrow>
     is_object v \<and>
     has_prop ''key'' v \<and> isCharacterKey (get_prop ''key'' v) \<and>
     has_prop ''displayName'' v \<and> is_string (get_prop ''displayName'' v) \<and>
     has_prop ''className'' v \<and> is_string (get_prop ''className'' v) \<and>
     has_prop ''level'' v \<and> is_number (get_prop ''level'' v)"

definition read_candidate :: "jsval \<Rightarrow> fingerprintCandidate" where
  "read_candidate v =
     \<lparr>fc_key = read_key (get_prop ''key'' v),
      fc_displayName = as_string (get_prop ''displayName'' v),
      fc_className = as_string (get_prop ''className'' v),
      fc_level = as_number (get_prop ''level'' v),
      fc_guild = get_prop ''guild'' v\<rparr>"

fun isCandidateList :: "jsval \<Rightarrow> bool" where
  "isCandidateList (JArray vs) = list_all isCandidate vs"
| "isCandidateList _ = False"

fun read_candidates :: "jsval \<Rightarrow> fingerprintCandidate list" where
  "read_candidates (JArray vs) = map read_candidate vs"
| "read_candidates _ = []"

fun finite_number :: "jsval \<Rightarrow> bool" where
  "finite_number (JNumber n) = is_finite n"
| "finite_number _ = False"

fun isFingerprint :: "jsval \<Rightarrow> bool" where
  "isFingerprint (JMap es) = list_all (\<lambda>(k, v). finite_number k \<and> finite_number v) es"
| "isFingerprint _ = False"

fun read_fingerprint :: "jsval \<Rightarrow> (jsval, jsval) jsmap" where
  "read_fingerprint (JMap es) = es"
| "read_fingerprint _ = []"

definition compareCandidates :: "js_env \<Rightarrow> fingerprintCandidate \<Rightarrow> fingerprintCandidate \<Rightarrow> int" where
  "compareCandidates E left right =
     localeCompare E (canonicalCharacterId E (fc_key left)) (canonicalCharacterId E (fc_key right))"

definition canonicalGuildId :: "characterGuild \<Rightarrow> string" where
  "canonicalGuildId guild = g_region guild @ ''/'' @ g_realm guild @ ''/'' @ g_name guild"

definition compareGuilds :: "js_env \<Rightarrow> characterGuild \<Rightarrow> characterGuild \<Rightarrow> int" where
  "compareGuilds E left right = localeCompare E (canonicalGuildId left) (canonicalGuildId right)"

subsection \<open>Matching two fingerprints\<close>

fun num_max :: "jsnum \<Rightarrow> jsnum \<Rightarrow> jsnum" where
  \<comment> \<open>\<open>Math.max\<close>\<close>
  "num_max NaN b = NaN"
| "num_max a NaN = NaN"
| "num_max PosInfinity b = PosInfinity"
| "num_max a PosInfinity = PosInfinity"
| "num_max NegInfinity b = b"
| "num_max a NegInfinity = a"
| "num_max (Finite x) (Finite y) = Finite (max x y)"

fun num_at_least :: "rat \<Rightarrow> jsnum \<Rightarrow> bool" where
  \<comment> \<open>\<open>x >= b\<close> for a finite \<open>x\<close>\<close>
  "num_at_least x (Finite y) = (y \<le> x)"
| "num_at_least x NegInfinity = True"
| "num_at_least x _ = False"

fun commonTimestamps ::
    "(jsval, jsval) jsmap \<Rightarrow> (jsval, jsval) jsmap \<Rightarrow> nat \<Rightarrow> nat \<Rightarrow> nat \<times> nat" where
  \<comment> \<open>the loop over the root's entries: common and identical\<close>
  "commonTimestamps [] candidate common identical = (common, identical)"
| "commonTimestamps ((achievementId, timestamp) # rest) candidate common identical =
     (case map_get candidate achievementId of
        None \<Rightarrow> commonTimestamps rest candidate common identical
      | Some candidateTimestamp \<Rightarrow>
          commonTimestamps rest candidate (Suc common)
            (if candidateTimestamp = timestamp then Suc identical else identical))"

definition fingerprintMatches ::
    "(jsval, jsval) jsmap \<Rightarrow> (jsval, jsval) jsmap \<Rightarrow> discoverFingerprintMatchesOptions \<Rightarrow> bool" where
  "fingerprintMatches rootFp candidate options =
     (let (common, identical) = commonTimestamps rootFp candidate 0 0;
          identicalPercent = (if common = 0 then 0 else js_percent identical common)
      in num_at_least (of_nat common) (num_max mandatoryMinimumCommon (fo_minimumCommon options)) \<and>
         num_at_least identicalPercent
           (num_max mandatoryMinimumIdenticalPercent (fo_minimumIdenticalPercent options)))"

definition fingerprintCharacter :: "fingerprintCandidate \<Rightarrow> discoveredCharacter" where
  "fingerprintCharacter candidate =
     \<lparr>dc_key = fc_key candidate, dc_displayName = fc_displayName candidate,
      dc_className = fc_className candidate, dc_level = fc_level candidate,
      dc_guild = nullish_else (fc_guild candidate) JNull,
      dc_raiderIoUrl = toRaiderIoUrl (fc_key candidate), dc_source = Fingerprint_source\<rparr>"

definition sweepFailure :: "thrown \<Rightarrow> fingerprintSweepOutcome" where
  "sweepFailure e =
     (case isUpstreamFailure e of
        Some Schema_drift \<Rightarrow> Sweep_failure Upstream_schema_changed False None
      | Some (Transient _ retryAfterMs) \<Rightarrow>
          Sweep_failure Upstream_unavailable True (usableDelay retryAfterMs)
      | _ \<Rightarrow> Sweep_failure Upstream_unavailable True None)"

subsection \<open>The state of a sweep\<close>

text \<open>
  One record for the variables of \<open>discoverFingerprintMatches\<close>. \<open>settled\<close> is the sparse
  array, with \<^term>\<open>None\<close> for a hole; \<open>inFlight\<close> lists the outstanding reads by
  candidate index, each refused by the budget, waiting for its fingerprint, or
  waiting for the suppression check before admission; \<open>dispatch\<close> is where the
  dispatching loop stands.
\<close>

datatype readPhase = Refused | Reading | Admitting

datatype dispatcher = At_head nat | Awaiting nat | Finished "thrown option"

record fingerprintSweep =
  remainingRequests :: nat
  requestsUsed :: int
  fp_capped :: bool
  skippedHistoricalGuilds :: nat
  settled :: "candidateResult option list"
  inFlight :: "(nat \<times> readPhase) list"
  suppressionChecks :: "(nat, thrown + bool) jsmap"
  dispatch :: dispatcher
  stopped :: bool
  sweepError :: "(nat \<times> thrown) option" \<comment> \<open>\<open>failure\<close>\<close>
  fp_clock :: nat
  fp_sent :: "fingerprintCall list"

definition initialFingerprintSweep :: "discoverFingerprintMatchesOptions \<Rightarrow> fingerprintSweep" where
  "initialFingerprintSweep options =
     \<lparr>remainingRequests = requestBudget (fo_requestCap options), requestsUsed = 0,
      fp_capped = False, skippedHistoricalGuilds = 0, settled = [], inFlight = [],
      suppressionChecks = [], dispatch = At_head 0, stopped = False, sweepError = None,
      fp_clock = 0, fp_sent = []\<rparr>"

definition fp_tick :: "fingerprintSweep \<Rightarrow> fingerprintSweep" where
  "fp_tick s = s\<lparr>fp_clock := Suc (fp_clock s)\<rparr>"

definition reserve :: "fingerprintCall \<Rightarrow> fingerprintSweep \<Rightarrow> fingerprintSweep" where
  "reserve call s =
     s\<lparr>remainingRequests := remainingRequests s - 1, requestsUsed := requestsUsed s + 1,
       fp_sent := fp_sent s @ [call]\<rparr>"

definition fingerprintRequest ::
    "fingerprintWorld \<Rightarrow> fingerprintCall \<Rightarrow> (nat \<Rightarrow> thrown + jsval) \<Rightarrow> fingerprintSweep \<Rightarrow>
     fingerprintSweep \<times> reply" where
  "fingerprintRequest W call operation s =
     (if fw_aborted W (fp_clock s) then (s, Raised Other_error)
      else if remainingRequests s = 0 then (s\<lparr>fp_capped := True\<rparr>, Exhausted)
      else
        (let s1 = fp_tick (reserve call s)
         in (s1,
             case operation (fp_clock s) of
               Inl e \<Rightarrow> Raised e
             | Inr v \<Rightarrow> if fw_aborted W (fp_clock s1) then Raised Other_error else Answer v)))"

subsection \<open>Historical guilds\<close>

definition guild_value :: "characterGuild \<Rightarrow> jsval" where
  "guild_value guild =
     JObject [(''name'', JString (g_name guild)), (''region'', JString (g_region guild)),
              (''realm'', JString (g_realm guild))]"

fun readHistorical ::
    "fingerprintWorld \<Rightarrow> characterGuild list \<Rightarrow> string list \<Rightarrow> fingerprintCandidate list \<Rightarrow>
     fingerprintSweep \<Rightarrow> fingerprintSweep \<times> (thrown + fingerprintCandidate list)" where
  "readHistorical W [] seenGuilds rosters s = (s, Inr rosters)"
| "readHistorical W (guild # rest) seenGuilds rosters s =
     (if fw_aborted W (fp_clock s) then (s, Inl Other_error)
      else if canonicalGuildId guild \<in> set seenGuilds
        then readHistorical W rest seenGuilds rosters s
      else
        (let seen' = seenGuilds @ [canonicalGuildId guild]
         in case fingerprintRequest W (Guild_roster_by_identity guild)
                   (\<lambda>t. fw_getGuildRosterByIdentity W t guild) s of
              (s1, Exhausted) \<Rightarrow> (s1, Inr rosters)
            | (s1, Raised e) \<Rightarrow>
                if isNotFound e
                then readHistorical W rest seen' rosters
                       (s1\<lparr>skippedHistoricalGuilds := Suc (skippedHistoricalGuilds s1)\<rparr>)
                else (s1, Inl e)
            | (s1, Answer v) \<Rightarrow>
                if \<not> isCandidateList v then (s1, Inl (Upstream Schema_drift))
                else readHistorical W rest seen'
                       (rosters @ map (\<lambda>c. c\<lparr>fc_guild := nullish_else (fc_guild c) (guild_value guild)\<rparr>)
                          (read_candidates v)) s1))"

definition eligibleCandidates ::
    "js_env \<Rightarrow> characterKey \<Rightarrow> discoverFingerprintMatchesOptions \<Rightarrow> fingerprintCandidate list \<Rightarrow>
     fingerprintCandidate list" where
  \<comment> \<open>the first of each id, sorted, after the cursor, in the root's region and not the root\<close>
  "eligibleCandidates E rootKey options rosters =
     (let candidateId = (\<lambda>c. canonicalCharacterId E (fc_key c));
          sorted = sort_by (compareCandidates E) (keep_first candidateId rosters []);
          candidates = (case fo_resumeAfter options of
              None \<Rightarrow> sorted
            | Some cursor \<Rightarrow>
                if cursor = [] then sorted
                else filter (\<lambda>c. 0 < localeCompare E (candidateId c) cursor) sorted)
      in keep_first candidateId
           (filter (\<lambda>c. candidateId c \<noteq> canonicalCharacterId E rootKey
                      \<and> region (fc_key c) = region rootKey) candidates) [])"

subsection \<open>The pool of candidate reads\<close>

record fingerprintPlan =
  fp_eligible :: "fingerprintCandidate list"
  fp_rootFingerprint :: "(jsval, jsval) jsmap"
  fp_concurrency :: nat

definition eligibleKey :: "fingerprintPlan \<Rightarrow> nat \<Rightarrow> characterKey" where
  "eligibleKey P index = fc_key (fp_eligible P ! index)"

definition eligibleId :: "js_env \<Rightarrow> fingerprintPlan \<Rightarrow> nat \<Rightarrow> string" where
  "eligibleId E P index = canonicalCharacterId E (eligibleKey P index)"

definition suppressedAt :: "fingerprintWorld \<Rightarrow> fingerprintPlan \<Rightarrow> nat \<Rightarrow> fingerprintSweep \<Rightarrow> fingerprintSweep" where
  \<comment> \<open>asks for the checks of the window that have not been asked for\<close>
  "suppressedAt W P index s =
     s\<lparr>suppressionChecks :=
         suppressionChecks s @
           map (\<lambda>ahead. (ahead, fw_isSuppressed W (fp_clock s) (eligibleKey P ahead)))
             (filter (\<lambda>ahead. \<not> map_has (suppressionChecks s) ahead)
                [index ..< min (length (fp_eligible P)) (index + fp_concurrency P)])\<rparr>"

definition blocked :: "fingerprintPlan \<Rightarrow> fingerprintSweep \<Rightarrow> bool" where
  "blocked P s \<longleftrightarrow> fp_concurrency P \<le> length (inFlight s) \<and> \<not> stopped s"

definition enterLoop :: "fingerprintWorld \<Rightarrow> fingerprintPlan \<Rightarrow> nat \<Rightarrow> fingerprintSweep \<Rightarrow> fingerprintSweep" where
  \<comment> \<open>the loop's head for an index, up to its next \<open>await\<close>\<close>
  "enterLoop W P index s =
     (if length (fp_eligible P) \<le> index then s\<lparr>dispatch := Finished None\<rparr>
      else if blocked P s then s\<lparr>dispatch := At_head index\<rparr>
      else if stopped s then s\<lparr>dispatch := Finished None\<rparr>
      else if fw_aborted W (fp_clock s) then s\<lparr>dispatch := Finished (Some Other_error)\<rparr>
      else (suppressedAt W P index s)\<lparr>dispatch := Awaiting index\<rparr>)"

definition startRead :: "fingerprintPlan \<Rightarrow> nat \<Rightarrow> fingerprintSweep \<Rightarrow> fingerprintSweep" where
  "startRead P index s =
     (if remainingRequests s = 0
      then s\<lparr>fp_capped := True, inFlight := inFlight s @ [(index, Refused)]\<rparr>
      else (reserve (Achievement_fingerprint (eligibleKey P index)) s)
             \<lparr>inFlight := inFlight s @ [(index, Reading)]\<rparr>)"

definition dispatchNext :: "fingerprintWorld \<Rightarrow> fingerprintPlan \<Rightarrow> fingerprintSweep \<Rightarrow> fingerprintSweep" where
  "dispatchNext W P s =
     (case dispatch s of
        Finished _ \<Rightarrow> s
      | At_head index \<Rightarrow> enterLoop W P index s
      | Awaiting index \<Rightarrow>
          (let s1 = fp_tick (s\<lparr>suppressionChecks := AList.delete index (suppressionChecks s)\<rparr>)
           in case map_get (suppressionChecks s) index of
                None \<Rightarrow> s1\<lparr>dispatch := Finished (Some Other_error)\<rparr> \<comment> \<open>cannot happen\<close>
              | Some (Inl e) \<Rightarrow> s1\<lparr>dispatch := Finished (Some e)\<rparr>
              | Some (Inr isSuppressed) \<Rightarrow>
                  if fw_aborted W (fp_clock s1) then s1\<lparr>dispatch := Finished (Some Other_error)\<rparr>
                  else if stopped s1 then s1\<lparr>dispatch := Finished None\<rparr>
                  else if isSuppressed
                    then enterLoop W P (Suc index) (s1\<lparr>settled := (settled s1)[index := Some Skipped]\<rparr>)
                  else enterLoop W P (Suc index) (startRead P index s1)))"

definition leaveFlight :: "nat \<Rightarrow> fingerprintSweep \<Rightarrow> fingerprintSweep" where
  "leaveFlight j s = s\<lparr>inFlight := take j (inFlight s) @ drop (Suc j) (inFlight s)\<rparr>"

definition settleAs :: "nat \<Rightarrow> nat \<Rightarrow> candidateResult \<Rightarrow> fingerprintSweep \<Rightarrow> fingerprintSweep" where
  "settleAs j index result s = leaveFlight j (s\<lparr>settled := (settled s)[index := Some result]\<rparr>)"

definition failRead :: "nat \<Rightarrow> nat \<Rightarrow> thrown \<Rightarrow> fingerprintSweep \<Rightarrow> fingerprintSweep" where
  \<comment> \<open>the earliest candidate's failure wins\<close>
  "failRead j index e s =
     leaveFlight j (s\<lparr>stopped := True,
        sweepError := (case sweepError s of
            None \<Rightarrow> Some (index, e)
          | Some (i, e') \<Rightarrow> if index < i then Some (index, e) else Some (i, e'))\<rparr>)"

definition readCandidate ::
    "js_env \<Rightarrow> fingerprintWorld \<Rightarrow> discoverFingerprintMatchesOptions \<Rightarrow> fingerprintPlan \<Rightarrow> nat \<Rightarrow>
     fingerprintSweep \<Rightarrow> fingerprintSweep" where
  \<comment> \<open>what happens when the promise the \<open>j\<close>-th outstanding read waits for settles\<close>
  "readCandidate E W options P j s =
     (let (index, phase) = inFlight s ! j; i = eligibleId E P index; s1 = fp_tick s
      in case phase of
           Refused \<Rightarrow> (settleAs j index (Unread i) s1)\<lparr>stopped := True\<rparr>
         | Reading \<Rightarrow>
             (case fw_getAchievementFingerprint W (fp_clock s) (eligibleKey P index) of
                Inr v \<Rightarrow>
                  if fw_aborted W (fp_clock s1) then failRead j index Other_error s1
                  else if \<not> isFingerprint v then failRead j index (Upstream Schema_drift) s1
                  else if \<not> fingerprintMatches (fp_rootFingerprint P) (read_fingerprint v) options
                    then settleAs j index (Swept i None) s1
                  else s1\<lparr>inFlight := (inFlight s1)[j := (index, Admitting)]\<rparr>
              | Inl e \<Rightarrow>
                  if isNotFound e then settleAs j index (Swept i None) s1
                  else if isCapReached e then
                    (settleAs j index (Unread i) s1)
                      \<lparr>requestsUsed := requestsUsed s1 - 1, fp_capped := True, stopped := True\<rparr>
                  else failRead j index e s1)
         | Admitting \<Rightarrow>
             (case fw_isSuppressed W (fp_clock s) (eligibleKey P index) of
                Inl e \<Rightarrow> failRead j index e s1
              | Inr isSuppressedBeforeAdmission \<Rightarrow>
                  if fw_aborted W (fp_clock s1) then failRead j index Other_error s1
                  else settleAs j index
                    (Swept i (if isSuppressedBeforeAdmission then None
                              else Some (fingerprintCharacter (fp_eligible P ! index)))) s1))"

text \<open>
  What can happen next: the dispatching loop goes on, unless it waits for a slot or is
  over, or one of the outstanding reads settles. The pool is done when nothing can.
\<close>

datatype move = Dispatch | Settle nat

definition moves :: "fingerprintPlan \<Rightarrow> fingerprintSweep \<Rightarrow> move list" where
  "moves P s =
     (case dispatch s of
        Finished _ \<Rightarrow> []
      | At_head index \<Rightarrow>
          if index < length (fp_eligible P) \<and> blocked P s then [] else [Dispatch]
      | Awaiting _ \<Rightarrow> [Dispatch]) @ map Settle [0 ..< length (inFlight s)]"

fun makeMove ::
    "js_env \<Rightarrow> fingerprintWorld \<Rightarrow> discoverFingerprintMatchesOptions \<Rightarrow> fingerprintPlan \<Rightarrow> move \<Rightarrow>
     fingerprintSweep \<Rightarrow> fingerprintSweep" where
  "makeMove E W options P Dispatch s = dispatchNext W P s"
| "makeMove E W options P (Settle j) s = readCandidate E W options P j s"

subsection \<open>The pool drains\<close>

text \<open>
  Every move lowers this measure: the dispatching loop only advances, a read it starts
  settles in at most two moves, and an advance outweighs the read it may start.
\<close>

primrec phase_weight :: "readPhase \<Rightarrow> nat" where
  "phase_weight Refused = 1"
| "phase_weight Reading = 2"
| "phase_weight Admitting = 1"

primrec dispatch_weight :: "nat \<Rightarrow> dispatcher \<Rightarrow> nat" where
  "dispatch_weight n (At_head i) = 5 * (n - i) + 5"
| "dispatch_weight n (Awaiting i) = 5 * (n - i) + 4"
| "dispatch_weight n (Finished r) = 0"

definition flight_weight :: "(nat \<times> readPhase) list \<Rightarrow> nat" where
  "flight_weight rs = sum_list (map (phase_weight \<circ> snd) rs)"

definition sweep_weight :: "fingerprintPlan \<Rightarrow> fingerprintSweep \<Rightarrow> nat" where
  "sweep_weight P s =
     dispatch_weight (length (fp_eligible P)) (dispatch s) + flight_weight (inFlight s)"

lemma flight_weight_simps [simp]:
  "flight_weight [] = 0" "flight_weight (r # rs) = phase_weight (snd r) + flight_weight rs"
  "flight_weight (rs @ ts) = flight_weight rs + flight_weight ts"
  by (simp_all add: flight_weight_def)

lemma flight_weight_nth:
  assumes "j < length rs"
  shows "flight_weight rs = flight_weight (take j rs) + phase_weight (snd (rs ! j)) + flight_weight (drop (Suc j) rs)"
proof -
  have "flight_weight rs = flight_weight (take j rs @ rs ! j # drop (Suc j) rs)"
    using id_take_nth_drop [OF assms] by simp
  then show ?thesis by simp
qed

lemma phase_weight_pos: "0 < phase_weight p"
  by (cases p) simp_all

lemma enterLoop_weight:
  assumes "\<not> (index < length (fp_eligible P) \<and> blocked P s)"
  shows "sweep_weight P (enterLoop W P index s)
    \<le> 5 * (length (fp_eligible P) - index) + 4 + flight_weight (inFlight s)"
  using assms by (auto simp: enterLoop_def sweep_weight_def suppressedAt_def)

lemma enterLoop_weight_any:
  "sweep_weight P (enterLoop W P index s)
     \<le> (if index < length (fp_eligible P) then 5 * (length (fp_eligible P) - index) + 5 else 0)
       + flight_weight (inFlight s)"
  by (auto simp: enterLoop_def sweep_weight_def suppressedAt_def)

lemma startRead_weight: "flight_weight (inFlight (startRead P index s)) \<le> flight_weight (inFlight s) + 2"
  by (simp add: startRead_def reserve_def)

lemma dispatchNext_weight:
  assumes "Dispatch \<in> set (moves P s)"
  shows "sweep_weight P (dispatchNext W P s) < sweep_weight P s"
proof (cases "dispatch s")
  case (At_head i)
  with assms have "\<not> (i < length (fp_eligible P) \<and> blocked P s)"
    by (auto simp: moves_def)
  from enterLoop_weight [OF this, of W] At_head show ?thesis
    by (simp add: dispatchNext_def sweep_weight_def)
next
  case (Awaiting i)
  have step: "sweep_weight P (enterLoop W P (Suc i) s') < sweep_weight P s"
    if "flight_weight (inFlight s') \<le> flight_weight (inFlight s) + 2" for s'
    using that enterLoop_weight_any [of P W "Suc i" s'] Awaiting
    by (auto simp: sweep_weight_def split: if_splits)
  have skip: "sweep_weight P (enterLoop W P (Suc i) s') < sweep_weight P s"
    if "inFlight s' = inFlight s" for s'
    by (rule step) (simp add: that)
  have start: "sweep_weight P (enterLoop W P (Suc i) (startRead P i s')) < sweep_weight P s"
    if "inFlight s' = inFlight s" for s'
    using startRead_weight [of P i s'] that by (intro step) simp
  have stop: "sweep_weight P (s'\<lparr>dispatch := Finished r\<rparr>) < sweep_weight P s"
    if "inFlight s' = inFlight s" for s' r
    using that Awaiting by (simp add: sweep_weight_def)
  show ?thesis
    using Awaiting
    by (auto simp: dispatchNext_def Let_def fp_tick_def intro!: skip start stop
        split: option.split sum.split)
next
  case (Finished r)
  with assms show ?thesis by (auto simp: moves_def)
qed

lemma leaveFlight_weight:
  assumes "j < length (inFlight s)"
  shows "flight_weight (take j (inFlight s) @ drop (Suc j) (inFlight s)) < flight_weight (inFlight s)"
  using flight_weight_nth [OF assms] phase_weight_pos [of "snd (inFlight s ! j)"] by simp

lemma admitting_weight:
  assumes "j < length (inFlight s)" and "inFlight s ! j = (index, Reading)"
  shows "flight_weight ((inFlight s)[j := (index, Admitting)]) < flight_weight (inFlight s)"
  using flight_weight_nth [OF assms(1)] assms(2) by (simp add: upd_conv_take_nth_drop assms(1))

lemma readCandidate_weight:
  assumes "j < length (inFlight s)"
  shows "sweep_weight P (readCandidate E W options P j s) < sweep_weight P s"
  using leaveFlight_weight [OF assms] admitting_weight [OF assms]
  by (auto simp: readCandidate_def settleAs_def failRead_def leaveFlight_def fp_tick_def Let_def
      sweep_weight_def simp del: flight_weight_simps
      split: prod.split readPhase.split sum.split)

lemma makeMove_weight:
  assumes "m \<in> set (moves P s)"
  shows "sweep_weight P (makeMove E W options P m s) < sweep_weight P s"
proof (cases m)
  case Dispatch
  with assms dispatchNext_weight show ?thesis by simp
next
  case (Settle j)
  with assms have "j < length (inFlight s)"
    by (auto simp: moves_def split: dispatcher.splits if_splits)
  with Settle readCandidate_weight show ?thesis by simp
qed

function sweepPool ::
    "js_env \<Rightarrow> fingerprintWorld \<Rightarrow> discoverFingerprintMatchesOptions \<Rightarrow> fingerprintPlan \<Rightarrow>
     (fingerprintSweep \<Rightarrow> nat) \<Rightarrow> fingerprintSweep \<Rightarrow> fingerprintSweep" where
  "sweepPool E W options P pick s =
     (if moves P s = [] then s
      else sweepPool E W options P pick
             (makeMove E W options P (moves P s ! (pick s mod length (moves P s))) s))"
  by pat_completeness auto
termination
  by (relation "measure (\<lambda>(E, W, options, P, pick, s). sweep_weight P s)")
     (auto intro!: makeMove_weight nth_mem)

declare sweepPool.simps [simp del]

subsection \<open>The whole run\<close>

fun foldSettled ::
    "candidateResult option list \<Rightarrow> string option \<Rightarrow> discoveredCharacter list \<Rightarrow>
     string option \<times> discoveredCharacter list" where
  "foldSettled (Some Skipped # rest) lastSweptId matches = foldSettled rest lastSweptId matches"
| "foldSettled (Some (Swept i m) # rest) lastSweptId matches =
     foldSettled rest (Some i) (matches @ (case m of None \<Rightarrow> [] | Some c \<Rightarrow> [c]))"
| "foldSettled _ lastSweptId matches = (lastSweptId, matches)"

definition sweepCandidates ::
    "js_env \<Rightarrow> fingerprintWorld \<Rightarrow> discoverFingerprintMatchesOptions \<Rightarrow> fingerprintPlan \<Rightarrow>
     (fingerprintSweep \<Rightarrow> nat) \<Rightarrow> fingerprintSweep \<Rightarrow>
     fingerprintSweep \<times> (thrown + string option \<times> discoveredCharacter list)" where
  "sweepCandidates E W options P pick s =
     (let s1 = sweepPool E W options P pick
            (enterLoop W P 0 (s\<lparr>settled := replicate (length (fp_eligible P)) None\<rparr>))
      in (s1,
          case dispatch s1 of
            Finished (Some e) \<Rightarrow> Inl e
          | _ \<Rightarrow> (case sweepError s1 of
                    Some (i, e) \<Rightarrow> Inl e
                  | None \<Rightarrow> Inr (foldSettled (settled s1) None []))))"

definition planFor ::
    "js_env \<Rightarrow> characterKey \<Rightarrow> discoverFingerprintMatchesOptions \<Rightarrow> jsval \<Rightarrow> jsval \<Rightarrow>
     fingerprintCandidate list \<Rightarrow> fingerprintPlan" where
  "planFor E rootKey options roster rootFp historical =
     \<lparr>fp_eligible = eligibleCandidates E rootKey options (read_candidates roster @ historical),
      fp_rootFingerprint = read_fingerprint rootFp,
      fp_concurrency = readConcurrency (fo_readConcurrency options)\<rparr>"

datatype sweepReturn =
    Returned fingerprintSweepOutcome
  | Raising thrown
  | Folded "string option" "discoveredCharacter list"

definition unreadRootOutcome :: "fingerprintSweep \<Rightarrow> fingerprintSweepOutcome" where
  "unreadRootOutcome s = Matched [] (requestsUsed s) True 0"

text \<open>
  The body of the outer \<open>try\<close> block, from its last step to its first: after the pool,
  after the historical rosters, after the root's fingerprint, after the root's roster.
\<close>

fun afterPool ::
    "fingerprintSweep \<times> (thrown + string option \<times> discoveredCharacter list) \<Rightarrow>
     fingerprintSweep \<times> sweepReturn" where
  "afterPool (s, Inl e) = (s, Raising e)"
| "afterPool (s, Inr (lastSweptId, matches)) = (s, Folded lastSweptId matches)"

fun afterHistorical ::
    "js_env \<Rightarrow> fingerprintWorld \<Rightarrow> (fingerprintSweep \<Rightarrow> nat) \<Rightarrow> characterKey \<Rightarrow>
     discoverFingerprintMatchesOptions \<Rightarrow> jsval \<Rightarrow> jsval \<Rightarrow>
     fingerprintSweep \<times> (thrown + fingerprintCandidate list) \<Rightarrow> fingerprintSweep \<times> sweepReturn" where
  "afterHistorical E W pick rootKey options roster rootFp (s, Inl e) = (s, Raising e)"
| "afterHistorical E W pick rootKey options roster rootFp (s, Inr historicalRosters) =
     afterPool (sweepCandidates E W options
       (planFor E rootKey options roster rootFp historicalRosters) pick s)"

fun afterRootFingerprint ::
    "js_env \<Rightarrow> fingerprintWorld \<Rightarrow> (fingerprintSweep \<Rightarrow> nat) \<Rightarrow> characterKey \<Rightarrow>
     discoverFingerprintMatchesOptions \<Rightarrow> jsval \<Rightarrow> fingerprintSweep \<times> reply \<Rightarrow>
     fingerprintSweep \<times> sweepReturn" where
  "afterRootFingerprint E W pick rootKey options roster (s, Raised e) =
     (s, if isNotFound e then Returned (unreadRootOutcome s) else Raising e)"
| "afterRootFingerprint E W pick rootKey options roster (s, Exhausted) =
     (s, Returned (Capped_sweep [] (requestsUsed s) None 0))"
| "afterRootFingerprint E W pick rootKey options roster (s, Answer rootFp) =
     (if \<not> isFingerprint rootFp then (s, Raising (Upstream Schema_drift))
      else afterHistorical E W pick rootKey options roster rootFp
             (readHistorical W (sort_by (compareGuilds E) (fo_historicalGuilds options)) [] [] s))"

fun afterRoster ::
    "js_env \<Rightarrow> fingerprintWorld \<Rightarrow> (fingerprintSweep \<Rightarrow> nat) \<Rightarrow> characterKey \<Rightarrow>
     discoverFingerprintMatchesOptions \<Rightarrow> fingerprintSweep \<times> reply \<Rightarrow>
     fingerprintSweep \<times> sweepReturn" where
  "afterRoster E W pick rootKey options (s, Raised e) =
     (s, if isNotFound e then Returned (unreadRootOutcome s) else Raising e)"
| "afterRoster E W pick rootKey options (s, Exhausted) =
     (s, Returned (Capped_sweep [] (requestsUsed s) None 0))"
| "afterRoster E W pick rootKey options (s, Answer roster) =
     (if \<not> isCandidateList roster then (s, Raising (Upstream Schema_drift))
      else afterRootFingerprint E W pick rootKey options roster
             (fingerprintRequest W (Achievement_fingerprint rootKey)
                (\<lambda>t. fw_getAchievementFingerprint W t rootKey) s))"

definition sweepBody ::
    "js_env \<Rightarrow> fingerprintWorld \<Rightarrow> (fingerprintSweep \<Rightarrow> nat) \<Rightarrow> characterKey \<Rightarrow>
     discoverFingerprintMatchesOptions \<Rightarrow> fingerprintSweep \<times> sweepReturn" where
  "sweepBody E W pick rootKey options =
     afterRoster E W pick rootKey options
       (fingerprintRequest W (Guild_roster rootKey) (\<lambda>t. fw_getGuildRoster W t rootKey)
          (initialFingerprintSweep options))"

datatype sweepResult = Sweep_aborted | Sweep_settled fingerprintSweepOutcome

definition discoverFingerprintMatches ::
    "js_env \<Rightarrow> fingerprintWorld \<Rightarrow> (fingerprintSweep \<Rightarrow> nat) \<Rightarrow> characterKey \<Rightarrow>
     discoverFingerprintMatchesOptions \<Rightarrow> sweepResult \<times> fingerprintCall list" where
  \<comment> \<open>the result, and the gateway calls the run made\<close>
  "discoverFingerprintMatches E W pick rootKey options =
     (case sweepBody E W pick rootKey options of
        (s, Returned outcome) \<Rightarrow> (Sweep_settled outcome, fp_sent s)
      | (s, Raising e) \<Rightarrow>
          (if fw_aborted W (fp_clock s) then Sweep_aborted
           else if isCapReached e then
             Sweep_settled (Capped_sweep [] (requestsUsed s) None (skippedHistoricalGuilds s))
           else Sweep_settled (sweepFailure e), fp_sent s)
      | (s, Folded lastSweptId matches) \<Rightarrow>
          (Sweep_settled
             (if fp_capped s
              then Capped_sweep matches (requestsUsed s) lastSweptId (skippedHistoricalGuilds s)
              else Matched matches (requestsUsed s) False (skippedHistoricalGuilds s)), fp_sent s))"

end
