(* ===== verification/FingerprintCorrect.thy ===== *)
theory FingerprintCorrect
  imports Fingerprint
begin

section \<open>Correctness of fingerprint discovery\<close>

text \<open>
  The invariant of the pool of candidate reads, kept by every move and so by every
  interleaving, and the properties of a whole run: its budget, what its characters
  have in common, the evidence behind each, and that the cursor never passes a
  candidate that was neither read nor suppressed.
\<close>

subsection \<open>The invariant of the pool\<close>

definition admissible ::
    "fingerprintWorld \<Rightarrow> discoverFingerprintMatchesOptions \<Rightarrow> (jsval, jsval) jsmap \<Rightarrow> characterKey \<Rightarrow> bool" where
  \<comment> \<open>the key's fingerprint was read and matched\<close>
  "admissible W options rootFp k \<longleftrightarrow>
     (\<exists>t v. fw_getAchievementFingerprint W t k = Inr v \<and> isFingerprint v \<and>
        fingerprintMatches rootFp (read_fingerprint v) options)"

definition checked :: "fingerprintWorld \<Rightarrow> characterKey \<Rightarrow> bool \<Rightarrow> bool" where
  \<comment> \<open>a suppression check of the key answered \<open>b\<close>\<close>
  "checked W k b \<longleftrightarrow> (\<exists>t. fw_isSuppressed W t k = Inr b)"

fun result_ok ::
    "js_env \<Rightarrow> fingerprintWorld \<Rightarrow> discoverFingerprintMatchesOptions \<Rightarrow> fingerprintPlan \<Rightarrow>
     fingerprintCall list \<Rightarrow> bool \<Rightarrow> nat \<Rightarrow> candidateResult \<Rightarrow> bool" where
  \<comment> \<open>in a sweep that sent \<open>calls\<close> and is capped or not\<close>
  "result_ok E W options P calls cap i Skipped = checked W (eligibleKey P i) True"
| "result_ok E W options P calls cap i (Unread x) = cap"
| "result_ok E W options P calls cap i (Swept x m) =
     (x = eligibleId E P i \<and> Achievement_fingerprint (eligibleKey P i) \<in> set calls \<and>
      (case m of None \<Rightarrow> True
       | Some c \<Rightarrow> c = fingerprintCharacter (fp_eligible P ! i) \<and>
           admissible W options (fp_rootFingerprint P) (eligibleKey P i) \<and>
           checked W (eligibleKey P i) False))"

fun flight_ok ::
    "fingerprintWorld \<Rightarrow> discoverFingerprintMatchesOptions \<Rightarrow> fingerprintPlan \<Rightarrow>
     fingerprintCall list \<Rightarrow> bool \<Rightarrow> nat \<Rightarrow> readPhase \<Rightarrow> bool" where
  "flight_ok W options P calls cap i Refused = cap"
| "flight_ok W options P calls cap i Reading =
     (Achievement_fingerprint (eligibleKey P i) \<in> set calls)"
| "flight_ok W options P calls cap i Admitting =
     (Achievement_fingerprint (eligibleKey P i) \<in> set calls \<and>
      admissible W options (fp_rootFingerprint P) (eligibleKey P i))"

definition accounted :: "fingerprintSweep \<Rightarrow> nat \<Rightarrow> bool" where
  "accounted s i \<longleftrightarrow>
     settled s ! i \<noteq> None \<or> i \<in> fst ` set (inFlight s) \<or> sweepError s \<noteq> None"

primrec dispatched :: "fingerprintPlan \<Rightarrow> fingerprintSweep \<Rightarrow> dispatcher \<Rightarrow> bool" where
  "dispatched P s (At_head i) = (\<forall>j<min i (length (fp_eligible P)). accounted s j)"
| "dispatched P s (Awaiting i) = (i < length (fp_eligible P) \<and> (\<forall>j<i. accounted s j))"
| "dispatched P s (Finished r) =
     (r = None \<longrightarrow> stopped s \<or> (\<forall>j<length (fp_eligible P). accounted s j))"

definition reading :: "(nat \<times> readPhase) list \<Rightarrow> nat" where
  "reading rs = length (filter (\<lambda>r. snd r = Reading) rs)"

definition sweep_budget :: "nat \<Rightarrow> fingerprintSweep \<Rightarrow> bool" where
  "sweep_budget B s \<longleftrightarrow>
     remainingRequests s + length (fp_sent s) = B \<and>
     int (reading (inFlight s)) \<le> requestsUsed s \<and> requestsUsed s \<le> int (length (fp_sent s))"

definition sweep_ok ::
    "js_env \<Rightarrow> fingerprintWorld \<Rightarrow> discoverFingerprintMatchesOptions \<Rightarrow> fingerprintPlan \<Rightarrow>
     fingerprintSweep \<Rightarrow> bool" where
  "sweep_ok E W options P s \<longleftrightarrow>
     length (settled s) = length (fp_eligible P) \<and>
     (\<forall>i r. i < length (settled s) \<longrightarrow> settled s ! i = Some r \<longrightarrow>
        result_ok E W options P (fp_sent s) (fp_capped s) i r) \<and>
     (\<forall>i p. (i, p) \<in> set (inFlight s) \<longrightarrow> i < length (fp_eligible P) \<and>
        flight_ok W options P (fp_sent s) (fp_capped s) i p) \<and>
     (\<forall>i b. (i, Inr b) \<in> set (suppressionChecks s) \<longrightarrow> checked W (eligibleKey P i) b) \<and>
     (stopped s \<longrightarrow> fp_capped s \<or> sweepError s \<noteq> None) \<and>
     dispatched P s (dispatch s)"

lemma reading_simps [simp]:
  "reading [] = 0" "reading (r # rs) = (if snd r = Reading then Suc (reading rs) else reading rs)"
  "reading (rs @ ts) = reading rs + reading ts"
  by (simp_all add: reading_def)

lemma reading_nth:
  assumes "j < length rs"
  shows "reading rs = reading (take j rs) + (if snd (rs ! j) = Reading then 1 else 0)
    + reading (drop (Suc j) rs)"
proof -
  have "reading rs = reading (take j rs @ rs ! j # drop (Suc j) rs)"
    using id_take_nth_drop [OF assms] by simp
  then show ?thesis by simp
qed

subsection \<open>The budget is kept\<close>

lemma reserve_budget:
  "sweep_budget B s \<Longrightarrow> 0 < remainingRequests s \<Longrightarrow> sweep_budget B (reserve call s)"
  by (auto simp: sweep_budget_def reserve_def)

lemma enterLoop_budget [simp]: "sweep_budget B (enterLoop W P i s) = sweep_budget B s"
  by (auto simp: enterLoop_def suppressedAt_def sweep_budget_def)

lemma startRead_budget: "sweep_budget B s \<Longrightarrow> sweep_budget B (startRead P i s)"
  by (auto simp: startRead_def reserve_def sweep_budget_def)

lemma dispatchNext_budget: "sweep_budget B s \<Longrightarrow> sweep_budget B (dispatchNext W P s)"
proof -
  assume b: "sweep_budget B s"
  have "sweep_budget B (startRead P i (fp_tick (s\<lparr>suppressionChecks := c\<rparr>)))" for i c
    by (rule startRead_budget) (use b in \<open>simp add: sweep_budget_def fp_tick_def\<close>)
  with b show ?thesis
    by (auto simp: dispatchNext_def Let_def split: dispatcher.split option.split sum.split)
       (simp_all add: sweep_budget_def fp_tick_def)
qed

lemma readCandidate_budget:
  assumes "j < length (inFlight s)" and "sweep_budget B s"
  shows "sweep_budget B (readCandidate E W options P j s)"
proof -
  obtain index phase where r: "inFlight s ! j = (index, phase)" by fastforce
  have drop: "reading (take j (inFlight s) @ drop (Suc j) (inFlight s)) \<le> reading (inFlight s)"
    "phase = Reading \<Longrightarrow>
       Suc (reading (take j (inFlight s) @ drop (Suc j) (inFlight s))) = reading (inFlight s)"
    "int (reading ((inFlight s)[j := (index, Admitting)])) \<le> int (reading (inFlight s))"
    using reading_nth [OF assms(1)] r by (simp_all add: upd_conv_take_nth_drop assms(1))
  show ?thesis
    using assms(2) drop r
    by (cases phase)
       (auto simp: readCandidate_def settleAs_def failRead_def leaveFlight_def fp_tick_def Let_def
          sweep_budget_def simp del: reading_simps of_nat_le_iff split: sum.split)
qed

subsection \<open>Every move keeps the invariant\<close>

lemma result_ok_call: "result_ok E W options P calls cap i r \<Longrightarrow> result_ok E W options P (calls @ [c]) cap i r"
  by (cases r) (auto split: option.splits)

lemma result_ok_cap: "result_ok E W options P calls cap i r \<Longrightarrow> result_ok E W options P calls True i r"
  by (cases r) auto

lemma flight_ok_call: "flight_ok W options P calls cap i p \<Longrightarrow> flight_ok W options P (calls @ [c]) cap i p"
  by (cases p) auto

lemma flight_ok_cap: "flight_ok W options P calls cap i p \<Longrightarrow> flight_ok W options P calls True i p"
  by (cases p) auto

lemma nth_update_Some: "xs[i := Some x] ! j = Some r \<Longrightarrow> j = i \<and> r = x \<or> xs ! j = Some r"
  by (cases "i < length xs") (auto simp: nth_list_update list_update_beyond split: if_splits)

text \<open>Entering the loop keeps everything once the indexes before it are accounted for.\<close>

definition pool_ok ::
    "js_env \<Rightarrow> fingerprintWorld \<Rightarrow> discoverFingerprintMatchesOptions \<Rightarrow> fingerprintPlan \<Rightarrow>
     fingerprintSweep \<Rightarrow> bool" where
  \<comment> \<open>the part of the invariant that does not read \<open>dispatch\<close>\<close>
  "pool_ok E W options P s \<longleftrightarrow> sweep_ok E W options P (s\<lparr>dispatch := Finished (Some Other_error)\<rparr>)"

lemma pool_okI: "sweep_ok E W options P s \<Longrightarrow> pool_ok E W options P s"
  by (simp add: pool_ok_def sweep_ok_def)

lemma accounted_dispatch [simp]: "accounted (s\<lparr>dispatch := d\<rparr>) i = accounted s i"
  by (simp add: accounted_def)

lemma dispatched_dispatch [simp]: "dispatched P (s\<lparr>dispatch := d\<rparr>) d' = dispatched P s d'"
  by (cases d') simp_all

lemma sweep_ok_dispatch:
  "sweep_ok E W options P (s\<lparr>dispatch := d\<rparr>) \<longleftrightarrow> pool_ok E W options P s \<and> dispatched P s d"
  by (auto simp: pool_ok_def sweep_ok_def)

lemma pool_ok_checks:
  assumes "pool_ok E W options P s"
  shows "pool_ok E W options P (suppressedAt W P i s)"
  using assms
  by (auto simp: pool_ok_def sweep_ok_def suppressedAt_def checked_def)

lemma enterLoop_ok:
  assumes "pool_ok E W options P s" and "\<forall>j < min i (length (fp_eligible P)). accounted s j"
  shows "sweep_ok E W options P (enterLoop W P i s)"
  using assms pool_ok_checks [OF assms(1), of i]
  by (auto simp: enterLoop_def sweep_ok_dispatch suppressedAt_def accounted_def)

lemma capped_ok: "pool_ok E W options P s \<Longrightarrow> pool_ok E W options P (s\<lparr>fp_capped := True\<rparr>)"
  by (simp add: pool_ok_def sweep_ok_def) (metis result_ok_cap flight_ok_cap)

lemma called_ok: "pool_ok E W options P s \<Longrightarrow> pool_ok E W options P (reserve call s)"
  by (auto simp: pool_ok_def sweep_ok_def reserve_def intro: result_ok_call flight_ok_call)

lemma flight_added_ok:
  assumes "pool_ok E W options P s" and "i < length (fp_eligible P)"
    and "flight_ok W options P (fp_sent s) (fp_capped s) i p"
  shows "pool_ok E W options P (s\<lparr>inFlight := inFlight s @ [(i, p)]\<rparr>)"
  using assms by (auto simp: pool_ok_def sweep_ok_def)

lemma startRead_ok:
  assumes "pool_ok E W options P s" and "i < length (fp_eligible P)"
  shows "pool_ok E W options P (startRead P i s)"
  using flight_added_ok [OF capped_ok [OF assms(1)] assms(2), of Refused]
    flight_added_ok [OF called_ok [OF assms(1)] assms(2), of "Achievement_fingerprint (eligibleKey P i)" Reading]
  by (simp add: startRead_def reserve_def)

lemma startRead_accounted:
  "accounted s j \<or> j = i \<Longrightarrow> accounted (startRead P i s) j"
  by (auto simp: accounted_def startRead_def reserve_def)

lemma skip_ok:
  assumes "pool_ok E W options P s" and "checked W (eligibleKey P i) True"
  shows "pool_ok E W options P (s\<lparr>settled := (settled s)[i := Some Skipped]\<rparr>)"
  using assms by (auto simp: pool_ok_def sweep_ok_def dest!: nth_update_Some)

lemma tick_ok:
  assumes "pool_ok E W options P s"
  shows "pool_ok E W options P (fp_tick (s\<lparr>suppressionChecks := AList.delete i (suppressionChecks s)\<rparr>))"
  using assms by (auto simp: pool_ok_def sweep_ok_def fp_tick_def AList.delete_eq)

lemma dispatchNext_ok:
  assumes "sweep_ok E W options P s"
  shows "sweep_ok E W options P (dispatchNext W P s)"
proof (cases "dispatch s")
  case (At_head i)
  with assms have "\<forall>j < min i (length (fp_eligible P)). accounted s j"
    by (simp add: sweep_ok_def)
  with At_head enterLoop_ok [OF pool_okI [OF assms]] show ?thesis
    by (simp add: dispatchNext_def)
next
  case (Awaiting i)
  define s1 where "s1 = fp_tick (s\<lparr>suppressionChecks := AList.delete i (suppressionChecks s)\<rparr>)"
  have ok: "pool_ok E W options P s1" unfolding s1_def by (rule tick_ok [OF pool_okI [OF assms]])
  from assms Awaiting have i: "i < length (fp_eligible P)" and before: "\<forall>j<i. accounted s1 j"
    and len: "length (settled s1) = length (fp_eligible P)"
    by (auto simp: sweep_ok_def s1_def fp_tick_def accounted_def)
  have check: "checked W (eligibleKey P i) b" if "map_get (suppressionChecks s) i = Some (Inr b)" for b
    using that assms by (auto simp: sweep_ok_def dest: map_of_SomeD)
  have "sweep_ok E W options P (enterLoop W P (Suc i) (startRead P i s1))"
    using before by (intro enterLoop_ok startRead_ok ok i) (auto simp: less_Suc_eq intro: startRead_accounted)
  moreover have "sweep_ok E W options P (enterLoop W P (Suc i) (s1\<lparr>settled := (settled s1)[i := Some Skipped]\<rparr>))"
    if "checked W (eligibleKey P i) True"
    using before i len
    by (intro enterLoop_ok skip_ok ok that) (auto simp: less_Suc_eq accounted_def nth_list_update)
  ultimately show ?thesis
    using Awaiting ok check
    by (auto simp: dispatchNext_def Let_def s1_def [symmetric] sweep_ok_dispatch
        split: option.split sum.split)
next
  case (Finished r)
  with assms show ?thesis by (simp add: dispatchNext_def)
qed

text \<open>A settling read leaves the pool with a result or a failure, or moves to its last check.\<close>

lemma sweep_ok_def2: "sweep_ok E W options P s \<longleftrightarrow> pool_ok E W options P s \<and> dispatched P s (dispatch s)"
  using sweep_ok_dispatch [where s = s and d = "dispatch s"] by simp

lemma dispatched_mono:
  assumes "dispatched P s d" and "\<And>j. j < length (fp_eligible P) \<Longrightarrow> accounted s j \<Longrightarrow> accounted s' j"
    and "stopped s \<Longrightarrow> stopped s'"
  shows "dispatched P s' d"
  using assms by (cases d) auto

lemma set_take_drop: "set (take j xs @ drop k xs) \<subseteq> set xs"
  by (auto dest: in_set_takeD in_set_dropD)

lemma in_set_remove_nth:
  assumes "j < length xs" and "x \<in> set xs"
  shows "x = xs ! j \<or> x \<in> set (take j xs @ drop (Suc j) xs)"
proof -
  have "set xs = set (take j xs @ xs ! j # drop (Suc j) xs)"
    using id_take_nth_drop [OF assms(1)] by simp
  with assms(2) show ?thesis by auto
qed

lemma flight_index:
  assumes "sweep_ok E W options P s" and "j < length (inFlight s)"
  shows "fst (inFlight s ! j) < length (fp_eligible P)"
    "flight_ok W options P (fp_sent s) (fp_capped s) (fst (inFlight s ! j)) (snd (inFlight s ! j))"
proof -
  obtain i p where "inFlight s ! j = (i, p)" by fastforce
  moreover from this have "(i, p) \<in> set (inFlight s)" using nth_mem [OF assms(2)] by simp
  ultimately show "fst (inFlight s ! j) < length (fp_eligible P)"
    "flight_ok W options P (fp_sent s) (fp_capped s) (fst (inFlight s ! j)) (snd (inFlight s ! j))"
    using assms(1) by (auto simp: sweep_ok_def)
qed

lemma settleAs_ok:
  assumes "sweep_ok E W options P s" and "j < length (inFlight s)" and "fst (inFlight s ! j) = i"
    and "result_ok E W options P (fp_sent s) (fp_capped s) i r"
  shows "sweep_ok E W options P (settleAs j i r s)"
proof -
  have i: "i < length (fp_eligible P)" "length (settled s) = length (fp_eligible P)"
    using assms(1-3) flight_index [OF assms(1,2)] by (auto simp: sweep_ok_def)
  have "accounted (settleAs j i r s) k" if "k < length (fp_eligible P)" "accounted s k" for k
  proof (cases "k = i")
    case True
    with i show ?thesis by (simp add: accounted_def settleAs_def leaveFlight_def)
  next
    case False
    with that in_set_remove_nth [OF assms(2)] assms(3) show ?thesis
      by (fastforce simp: accounted_def settleAs_def leaveFlight_def image_iff)
  qed
  then have "dispatched P (settleAs j i r s) (dispatch s)"
    using assms(1) by (auto simp: sweep_ok_def2 settleAs_def leaveFlight_def elim!: dispatched_mono)
  moreover have "pool_ok E W options P (settleAs j i r s)"
    using pool_okI [OF assms(1)] assms(4) set_take_drop [of j "inFlight s" "Suc j"]
    by (auto simp: pool_ok_def sweep_ok_def settleAs_def leaveFlight_def dest!: nth_update_Some
        in_set_takeD in_set_dropD)
  ultimately show ?thesis
    by (simp add: sweep_ok_def2) (simp add: settleAs_def leaveFlight_def)
qed

lemma failRead_ok:
  assumes "sweep_ok E W options P s" and "j < length (inFlight s)"
  shows "sweep_ok E W options P (failRead j i e s)"
proof -
  have "dispatched P (failRead j i e s) (dispatch s)"
    using assms(1)
    by (auto simp: sweep_ok_def2 failRead_def leaveFlight_def accounted_def elim!: dispatched_mono
        split: option.splits)
  then show ?thesis
    using assms(1)
    by (auto simp: sweep_ok_def failRead_def leaveFlight_def dest!: in_set_takeD in_set_dropD
        split: option.splits)
qed


lemma admitting_ok:
  assumes "sweep_ok E W options P s" and "j < length (inFlight s)"
    and "inFlight s ! j = (i, Reading)"
    and "admissible W options (fp_rootFingerprint P) (eligibleKey P i)"
  shows "sweep_ok E W options P (s\<lparr>inFlight := (inFlight s)[j := (i, Admitting)]\<rparr>)"
proof -
  let ?s = "s\<lparr>inFlight := (inFlight s)[j := (i, Admitting)]\<rparr>"
  have "map fst (inFlight ?s) = map fst (inFlight s)"
    using assms(2,3) by (simp add: map_update) (metis fst_conv length_map list_update_id nth_map)
  then have "fst ` set (inFlight ?s) = fst ` set (inFlight s)"
    by (metis list.set_map)
  then have "dispatched P ?s (dispatch s)"
    using assms(1) by (auto simp: sweep_ok_def2 accounted_def elim!: dispatched_mono)
  moreover have "set (inFlight ?s) \<subseteq> insert (i, Admitting) (set (inFlight s))"
    using set_update_subset_insert by simp
  ultimately show ?thesis
    using assms(1,4) flight_index [OF assms(1,2)] assms(3) by (auto simp: sweep_ok_def)
qed

lemma fp_tick_ok: "sweep_ok E W options P s \<Longrightarrow> sweep_ok E W options P (fp_tick s)"
  unfolding sweep_ok_def2
  by (auto simp: pool_ok_def sweep_ok_def fp_tick_def accounted_def elim!: dispatched_mono)

lemma sweep_ok_cap:
  assumes "sweep_ok E W options P s"
  shows "sweep_ok E W options P (s\<lparr>requestsUsed := n, fp_capped := True, stopped := True\<rparr>)"
proof -
  have "dispatched P (s\<lparr>requestsUsed := n, fp_capped := True, stopped := True\<rparr>) (dispatch s)"
    using assms by (auto simp: sweep_ok_def2 accounted_def elim!: dispatched_mono)
  moreover have "pool_ok E W options P (s\<lparr>fp_capped := True\<rparr>)"
    by (rule capped_ok [OF pool_okI [OF assms]])
  ultimately show ?thesis unfolding sweep_ok_def2 by (simp add: pool_ok_def sweep_ok_def)
qed

lemma sweep_ok_stop:
  assumes "sweep_ok E W options P s" and "fp_capped s"
  shows "sweep_ok E W options P (s\<lparr>stopped := True\<rparr>)"
  using assms unfolding sweep_ok_def by (auto simp: accounted_def elim!: dispatched_mono)

lemma settleAs_cap:
  "(settleAs j i r s)\<lparr>requestsUsed := n, fp_capped := True, stopped := True\<rparr>
     = settleAs j i r (s\<lparr>requestsUsed := n, fp_capped := True, stopped := True\<rparr>)"
  by (cases s) (simp add: settleAs_def leaveFlight_def)

lemma readCandidate_ok:
  assumes "sweep_ok E W options P s" and "j < length (inFlight s)"
  shows "sweep_ok E W options P (readCandidate E W options P j s)"
proof -
  obtain i p where r: "inFlight s ! j = (i, p)" by fastforce
  let ?s1 = "fp_tick s"
  have ok: "sweep_ok E W options P ?s1" and j: "j < length (inFlight ?s1)"
    and r1: "inFlight ?s1 ! j = (i, p)"
    using fp_tick_ok [OF assms(1)] assms(2) r by (simp_all add: fp_tick_def)
  note fl = flight_index [OF ok j, unfolded r1 fst_conv snd_conv]
  note settle = settleAs_ok [OF ok j] and fail = failRead_ok [OF ok j]
  have same: "fp_capped (settleAs j i x ?s1) = fp_capped ?s1" for x
    by (simp add: settleAs_def leaveFlight_def)
  show ?thesis
  proof (cases p)
    case Refused
    with fl have "fp_capped ?s1" by simp
    then have "sweep_ok E W options P ((settleAs j i (Unread (eligibleId E P i)) ?s1)\<lparr>stopped := True\<rparr>)"
      by (intro sweep_ok_stop settle) (simp_all add: r1 same)
    with Refused show ?thesis by (simp add: readCandidate_def r Let_def)
  next
    case Reading
    have adm: "sweep_ok E W options P (?s1\<lparr>inFlight := (inFlight ?s1)[j := (i, Admitting)]\<rparr>)"
      if "fw_getAchievementFingerprint W (fp_clock s) (eligibleKey P i) = Inr v" "isFingerprint v"
        "fingerprintMatches (fp_rootFingerprint P) (read_fingerprint v) options" for v
      by (rule admitting_ok [OF ok j]) (use that r1 Reading in \<open>auto simp: admissible_def\<close>)
    have swept: "sweep_ok E W options P (settleAs j i (Swept (eligibleId E P i) None) ?s1)"
      by (rule settle) (use fl Reading r1 in simp_all)
    have unread: "sweep_ok E W options P ((settleAs j i (Unread x) ?s1)
        \<lparr>requestsUsed := n, fp_capped := True, stopped := True\<rparr>)" for x n
      unfolding settleAs_cap by (rule settleAs_ok [OF sweep_ok_cap [OF ok]]) (use j r1 in simp_all)
    show ?thesis
      using Reading adm swept unread fail
      by (auto simp: readCandidate_def r Let_def split: sum.split)
  next
    case Admitting
    have "sweep_ok E W options P (settleAs j i (Swept (eligibleId E P i)
        (if b then None else Some (fingerprintCharacter (fp_eligible P ! i)))) ?s1)"
      if "fw_isSuppressed W (fp_clock s) (eligibleKey P i) = Inr b" for b
      by (rule settle) (use fl Admitting r1 that in \<open>auto simp: checked_def\<close>)
    with Admitting fail show ?thesis
      by (auto simp: readCandidate_def r Let_def split: sum.split)
  qed
qed

lemma makeMove_keeps:
  assumes "m \<in> set (moves P s)" and "sweep_ok E W options P s" and "sweep_budget B s"
  shows "sweep_ok E W options P (makeMove E W options P m s)"
    "sweep_budget B (makeMove E W options P m s)"
proof -
  have "j < length (inFlight s)" if "m = Settle j" for j
    using assms(1) that by (auto simp: moves_def split: dispatcher.splits if_splits)
  then show "sweep_ok E W options P (makeMove E W options P m s)"
    "sweep_budget B (makeMove E W options P m s)"
    using assms(2,3)
    by (cases m; auto intro: dispatchNext_ok readCandidate_ok dispatchNext_budget readCandidate_budget)+
qed

text \<open>Whatever the interleaving, the pool ends with nothing left to do and the invariant kept.\<close>

lemma sweepPool_keeps:
  assumes "sweep_ok E W options P s" and "sweep_budget B s"
  shows "sweep_ok E W options P (sweepPool E W options P pick s) \<and>
    sweep_budget B (sweepPool E W options P pick s) \<and> moves P (sweepPool E W options P pick s) = []"
  using assms
proof (induction E W options P pick s rule: sweepPool.induct)
  case (1 E W options P pick s)
  show ?case
  proof (cases "moves P s = []")
    case True
    with "1.prems" show ?thesis by (simp add: sweepPool.simps)
  next
    case False
    then have "moves P s ! (pick s mod length (moves P s)) \<in> set (moves P s)" by simp
    from makeMove_keeps [OF this "1.prems"] "1.IH" [OF False] False show ?thesis
      by (subst (1 2 3) sweepPool.simps) simp
  qed
qed

lemma moves_empty:
  assumes "moves P s = []" and "0 < fp_concurrency P"
  shows "inFlight s = []" "\<exists>r. dispatch s = Finished r"
  using assms by (auto simp: moves_def blocked_def split: dispatcher.splits if_splits)


subsection \<open>Folding the results\<close>

fun passed :: "candidateResult option \<Rightarrow> bool" where
  "passed (Some Skipped) = True"
| "passed (Some (Swept i m)) = True"
| "passed _ = False"

fun match_of :: "candidateResult option \<Rightarrow> discoveredCharacter list" where
  "match_of (Some (Swept i (Some c))) = [c]"
| "match_of _ = []"

lemma foldSettled_matches:
  "snd (foldSettled xs l ms) = ms @ concat (map match_of (takeWhile passed xs))"
  by (induction xs l ms rule: foldSettled.induct) (auto split: option.split)

text \<open>The cursor is the last swept candidate before the first one that did not pass.\<close>

lemma foldSettled_cursor:
  assumes "fst (foldSettled xs l ms) = Some c"
  shows "l = Some c \<or> (\<exists>i m. i < length xs \<and> xs ! i = Some (Swept c m) \<and> list_all passed (take (Suc i) xs))"
  using assms
proof (induction xs l ms rule: foldSettled.induct)
  case (1 rest l ms)
  then show ?case by (auto simp: nth_Cons split: nat.split)
next
  case (2 i m rest l ms)
  then have "Some i = Some c \<or> (\<exists>k m. k < length rest \<and> rest ! k = Some (Swept c m) \<and>
      list_all passed (take (Suc k) rest))" by simp
  then show ?case
  proof
    assume "Some i = Some c"
    then show ?thesis by (intro disjI2 exI [of _ 0]) auto
  next
    assume "\<exists>k m. k < length rest \<and> rest ! k = Some (Swept c m) \<and> list_all passed (take (Suc k) rest)"
    then obtain k m' where "k < length rest" "rest ! k = Some (Swept c m')"
      "list_all passed (take (Suc k) rest)" by blast
    then show ?thesis by (intro disjI2 exI [of _ "Suc k"] exI [of _ m']) simp
  qed
qed simp_all

subsection \<open>What the pool returns\<close>

definition fresh :: "nat \<Rightarrow> fingerprintSweep \<Rightarrow> bool" where
  \<comment> \<open>a sweep before its pool starts\<close>
  "fresh B s \<longleftrightarrow> sweep_budget B s \<and> inFlight s = [] \<and> suppressionChecks s = [] \<and>
     sweepError s = None \<and> \<not> stopped s"

lemma sweepCandidates_keeps:
  assumes "fresh B s" and "sweepCandidates E W options P pick s = (s', r)"
  shows "sweep_ok E W options P s'" "sweep_budget B s'" "moves P s' = []"
proof -
  let ?s0 = "s\<lparr>settled := replicate (length (fp_eligible P)) None\<rparr>"
  have "pool_ok E W options P ?s0"
    using assms(1) by (auto simp: pool_ok_def sweep_ok_def fresh_def)
  then have "sweep_ok E W options P (enterLoop W P 0 ?s0)" by (rule enterLoop_ok) simp
  moreover have "sweep_budget B (enterLoop W P 0 ?s0)"
    unfolding enterLoop_budget using assms(1) by (simp add: fresh_def sweep_budget_def)
  ultimately show "sweep_ok E W options P s'" "sweep_budget B s'" "moves P s' = []"
    using sweepPool_keeps assms(2) by (auto simp: sweepCandidates_def Let_def)
qed

definition handled :: "fingerprintWorld \<Rightarrow> fingerprintCall list \<Rightarrow> characterKey \<Rightarrow> bool" where
  \<comment> \<open>a candidate's fingerprint was asked for, or a check said it is suppressed\<close>
  "handled W calls k \<longleftrightarrow> Achievement_fingerprint k \<in> set calls \<or> checked W k True"

lemma passed_handled:
  assumes "sweep_ok E W options P s" and "i < length (fp_eligible P)" and "passed (settled s ! i)"
  shows "handled W (fp_sent s) (eligibleKey P i)"
proof -
  from assms(3) obtain r where "settled s ! i = Some r" "r = Skipped \<or> (\<exists>x m. r = Swept x m)"
    by (cases "settled s ! i" rule: passed.cases) auto
  with assms(1,2) have "result_ok E W options P (fp_sent s) (fp_capped s) i r"
    by (simp add: sweep_ok_def)
  with \<open>r = Skipped \<or> (\<exists>x m. r = Swept x m)\<close> show ?thesis by (auto simp: handled_def)
qed

text \<open>Without a failure and without a cap, every candidate passed.\<close>

lemma uncapped_all_passed:
  assumes "sweep_ok E W options P s" and "moves P s = []" and "0 < fp_concurrency P"
    and "dispatch s = Finished None" and "sweepError s = None" and "\<not> fp_capped s"
    and "i < length (fp_eligible P)"
  shows "passed (settled s ! i)"
proof -
  have "inFlight s = []" by (rule moves_empty [OF assms(2,3)])
  with assms have "settled s ! i \<noteq> None" by (auto simp: sweep_ok_def accounted_def)
  then obtain r where r: "settled s ! i = Some r" by blast
  with assms have "result_ok E W options P (fp_sent s) (fp_capped s) i r" by (simp add: sweep_ok_def)
  with assms(6) r show ?thesis by (cases r) auto
qed

lemma sweepCandidates_Inr:
  assumes "sweepCandidates E W options P pick s = (s', Inr (l, ms))" and "0 < fp_concurrency P"
    and "fresh B s"
  shows "dispatch s' = Finished None" "sweepError s' = None" "(l, ms) = foldSettled (settled s') None []"
proof -
  have "\<exists>r. dispatch s' = Finished r"
    using moves_empty(2) [OF sweepCandidates_keeps(3) [OF assms(3,1)] assms(2)] .
  then show "dispatch s' = Finished None" "sweepError s' = None"
    "(l, ms) = foldSettled (settled s') None []"
    using assms(1)
    by (auto simp: sweepCandidates_def Let_def split: option.splits prod.splits dispatcher.splits)
qed

text \<open>
  The admitted characters are eligible candidates, in their order, each with its
  evidence.
\<close>

definition admitted ::
    "fingerprintWorld \<Rightarrow> discoverFingerprintMatchesOptions \<Rightarrow> fingerprintPlan \<Rightarrow> fingerprintCandidate \<Rightarrow> bool" where
  "admitted W options P c \<longleftrightarrow>
     admissible W options (fp_rootFingerprint P) (fc_key c) \<and> checked W (fc_key c) False"

lemma concat_singletons_subseq:
  assumes "length xs \<le> length ys"
    and "\<And>i. i < length xs \<Longrightarrow> xs ! i = [] \<or> xs ! i = [f (ys ! i)] \<and> Q (ys ! i)"
  shows "\<exists>zs. subseq zs ys \<and> list_all Q zs \<and> concat xs = map f zs"
  using assms
proof (induction xs arbitrary: ys)
  case Nil
  then show ?case by (intro exI [of _ "[]"]) simp
next
  case (Cons x xs)
  then obtain y ys' where ys: "ys = y # ys'" by (cases ys) auto
  with Cons.prems(1) Cons.prems(2) [of "Suc _"] obtain zs where zs: "subseq zs ys'" "list_all Q zs" "concat xs = map f zs"
    using Cons.IH [of ys'] by auto
  from Cons.prems(2) [of 0] ys consider "x = []" | "x = [f y]" "Q y" by auto
  then show ?case
  proof cases
    case 1
    with zs ys show ?thesis by (intro exI [of _ zs]) auto
  next
    case 2
    with zs ys show ?thesis by (intro exI [of _ "y # zs"]) auto
  qed
qed

lemma sweep_matches:
  assumes "sweep_ok E W options P s" and "(l, ms) = foldSettled (settled s) None []"
  shows "\<exists>cs. subseq cs (fp_eligible P) \<and> list_all (admitted W options P) cs \<and>
    ms = map fingerprintCharacter cs"
proof -
  let ?xs = "map match_of (takeWhile passed (settled s))"
  have len: "length ?xs \<le> length (fp_eligible P)"
    using assms(1) length_takeWhile_le [of passed "settled s"] by (simp add: sweep_ok_def)
  have "\<exists>zs. subseq zs (fp_eligible P) \<and> list_all (admitted W options P) zs \<and>
      concat ?xs = map fingerprintCharacter zs"
  proof (rule concat_singletons_subseq [OF len])
    fix i
    assume i: "i < length ?xs"
    then have "?xs ! i = match_of (settled s ! i)" by (simp add: takeWhile_nth)
    moreover have "match_of (settled s ! i) = [] \<or>
        match_of (settled s ! i) = [fingerprintCharacter (fp_eligible P ! i)] \<and>
        admitted W options P (fp_eligible P ! i)"
    proof (cases "settled s ! i" rule: match_of.cases)
      case (1 x c)
      have "i < length (settled s)" using i length_takeWhile_le [of passed "settled s"] by simp
      with 1 assms(1) have "result_ok E W options P (fp_sent s) (fp_capped s) i (Swept x (Some c))"
        unfolding sweep_ok_def by blast
      with 1 show ?thesis by (simp add: admitted_def eligibleKey_def)
    qed simp_all
    ultimately show "?xs ! i = [] \<or> ?xs ! i = [fingerprintCharacter (fp_eligible P ! i)] \<and>
        admitted W options P (fp_eligible P ! i)" by simp
  qed
  moreover have "ms = concat ?xs"
    using foldSettled_matches [of "settled s" None "[]"] assms(2) by (metis append_Nil snd_conv)
  ultimately show ?thesis by simp
qed


subsection \<open>The whole run\<close>

lemma fingerprintRequest_fresh:
  "fresh B s \<Longrightarrow> fingerprintRequest W call operation s = (s', r) \<Longrightarrow> fresh B s'"
  by (auto simp: fingerprintRequest_def fresh_def sweep_budget_def fp_tick_def reserve_def Let_def
      split: if_splits)

lemma fingerprintRequest_Answer:
  "fingerprintRequest W call operation s = (s', Answer v) \<Longrightarrow> operation (fp_clock s) = Inr v"
  by (auto simp: fingerprintRequest_def Let_def split: if_splits sum.splits)

lemma readHistorical_fresh:
  "fresh B s \<Longrightarrow> readHistorical W guilds seen rosters s = (s', r) \<Longrightarrow> fresh B s'"
proof (induction guilds arbitrary: seen rosters s)
  case Nil
  then show ?case by simp
next
  case (Cons g gs)
  obtain s1 a where req: "fingerprintRequest W (Guild_roster_by_identity g)
      (\<lambda>t. fw_getGuildRosterByIdentity W t g) s = (s1, a)" by fastforce
  have s1: "fresh B s1" by (rule fingerprintRequest_fresh [OF Cons.prems(1) req])
  then have "fresh B (s1\<lparr>skippedHistoricalGuilds := n\<rparr>)" for n
    by (simp add: fresh_def sweep_budget_def)
  with s1 Cons.prems Cons.IH show ?case
    by (auto simp: req Let_def split: if_splits reply.splits)
qed

subsection \<open>What a sweep keeps\<close>

text \<open>Nothing the pool does takes back a call, the cap, or the count of skipped guilds.\<close>

definition grown :: "fingerprintSweep \<Rightarrow> fingerprintSweep \<Rightarrow> bool" where
  "grown s s' \<longleftrightarrow> set (fp_sent s) \<subseteq> set (fp_sent s') \<and> (fp_capped s \<longrightarrow> fp_capped s') \<and>
     skippedHistoricalGuilds s' = skippedHistoricalGuilds s"

lemma grown_trans: "grown s s1 \<Longrightarrow> grown s1 s2 \<Longrightarrow> grown s s2"
  by (auto simp: grown_def)

lemma enterLoop_grown: "grown s (enterLoop W P i s)"
  by (simp add: grown_def enterLoop_def suppressedAt_def)

lemma startRead_grown: "grown s (startRead P i s)"
  by (auto simp: grown_def startRead_def reserve_def)

lemma dispatchNext_grown: "grown s (dispatchNext W P s)"
proof (cases "dispatch s")
  case (Awaiting i)
  let ?s1 = "fp_tick (s\<lparr>suppressionChecks := AList.delete i (suppressionChecks s)\<rparr>)"
  have kept: "grown s ?s1" "grown s (?s1\<lparr>dispatch := d\<rparr>)" "grown s (?s1\<lparr>settled := r\<rparr>)" for d r
    by (simp_all add: grown_def fp_tick_def)
  show ?thesis
    using kept grown_trans [OF kept(3) enterLoop_grown] grown_trans [OF grown_trans [OF kept(1) startRead_grown] enterLoop_grown]
    by (simp add: dispatchNext_def Awaiting Let_def split: option.split sum.split)
qed (simp_all add: dispatchNext_def enterLoop_grown, simp add: grown_def)

lemma readCandidate_grown: "grown s (readCandidate E W options P j s)"
  by (simp add: grown_def readCandidate_def settleAs_def failRead_def leaveFlight_def fp_tick_def Let_def
      split: prod.split readPhase.split sum.split)

lemma sweepPool_grown: "grown s (sweepPool E W options P pick s)"
proof (induction E W options P pick s rule: sweepPool.induct)
  case (1 E W options P pick s)
  have "grown s (makeMove E W options P m s)" for m by (cases m) (simp_all add: dispatchNext_grown readCandidate_grown)
  then show ?case using 1 grown_trans by (subst sweepPool.simps) (auto simp: grown_def)
qed

lemma sweepCandidates_grown:
  assumes "sweepCandidates E W options P pick s = (s', r)"
  shows "grown s s'"
proof -
  let ?s0 = "s\<lparr>settled := replicate (length (fp_eligible P)) None\<rparr>"
  have "grown s ?s0" by (simp add: grown_def)
  then have "grown s (sweepPool E W options P pick (enterLoop W P 0 ?s0))"
    using grown_trans enterLoop_grown sweepPool_grown by metis
  then show ?thesis using assms by (simp add: sweepCandidates_def Let_def)
qed

subsection \<open>What the historical guilds answered\<close>

definition sweptGuilds :: "js_env \<Rightarrow> discoverFingerprintMatchesOptions \<Rightarrow> characterGuild list" where
  \<comment> \<open>each guild once, in collation order\<close>
  "sweptGuilds E options = keep_first canonicalGuildId (sort_by (compareGuilds E) (fo_historicalGuilds options)) []"

definition guildAnswer ::
    "fingerprintWorld \<Rightarrow> fingerprintCall list \<Rightarrow> characterGuild \<Rightarrow> fingerprintCandidate list option \<Rightarrow> bool" where
  \<comment> \<open>the guild was asked for its roster, and gave these members or is gone\<close>
  "guildAnswer W calls guild members \<longleftrightarrow> Guild_roster_by_identity guild \<in> set calls \<and>
     (\<exists>t. case members of
        None \<Rightarrow> \<exists>e. fw_getGuildRosterByIdentity W t guild = Inl e \<and> isUpstreamFailure e = Some Not_found
      | Some cs \<Rightarrow> \<exists>v. fw_getGuildRosterByIdentity W t guild = Inr v \<and> isCandidateList v \<and>
          cs = map (\<lambda>c. c\<lparr>fc_guild := nullish_else (fc_guild c) (guild_value guild)\<rparr>) (read_candidates v))"

definition answeredMembers :: "fingerprintCandidate list option list \<Rightarrow> fingerprintCandidate list" where
  "answeredMembers answers = concat (map (\<lambda>members. case members of None \<Rightarrow> [] | Some cs \<Rightarrow> cs) answers)"

definition goneGuilds :: "fingerprintCandidate list option list \<Rightarrow> nat" where
  "goneGuilds answers = length (filter (\<lambda>members. members = None) answers)"

lemma guildAnswer_grown:
  "set calls \<subseteq> set calls' \<Longrightarrow> guildAnswer W calls guild members \<Longrightarrow> guildAnswer W calls' guild members"
  by (auto simp: guildAnswer_def)

lemma answers_simps [simp]:
  "answeredMembers [] = []" "answeredMembers (None # answers) = answeredMembers answers"
  "answeredMembers (Some cs # answers) = cs @ answeredMembers answers"
  "goneGuilds [] = 0" "goneGuilds (None # answers) = Suc (goneGuilds answers)" "goneGuilds (Some cs # answers) = goneGuilds answers"
  by (simp_all add: answeredMembers_def goneGuilds_def)

lemma fingerprintRequest_grown: "fingerprintRequest W call operation s = (s', r) \<Longrightarrow> grown s s'"
  by (auto simp: fingerprintRequest_def grown_def reserve_def fp_tick_def Let_def split: if_splits)

lemma fingerprintRequest_asked:
  "fingerprintRequest W call operation s = (s', Answer v) \<Longrightarrow> call \<in> set (fp_sent s')"
  "fingerprintRequest W call operation s = (s', Raised e) \<Longrightarrow> isNotFound e \<Longrightarrow>
     call \<in> set (fp_sent s') \<and> operation (fp_clock s) = Inl e"
  "fingerprintRequest W call operation s = (s', Exhausted) \<Longrightarrow> fp_capped s'"
  by (auto simp: fingerprintRequest_def reserve_def fp_tick_def Let_def isNotFound_def
      split: if_splits sum.splits)

lemma readHistorical_answers:
  assumes "readHistorical W guilds seen rosters s = (s', Inr historical)" and "\<not> fp_capped s'"
  shows "set (fp_sent s) \<subseteq> set (fp_sent s') \<and>
    (\<exists>answers. list_all2 (guildAnswer W (fp_sent s')) (keep_first canonicalGuildId guilds seen) answers \<and>
       historical = rosters @ answeredMembers answers \<and>
       skippedHistoricalGuilds s' = skippedHistoricalGuilds s + goneGuilds answers)"
  using assms
proof (induction guilds arbitrary: seen rosters s)
  case Nil
  then show ?case by (intro conjI exI [of _ "[]"]) simp_all
next
  case (Cons g gs)
  show ?case
  proof (cases "canonicalGuildId g \<in> set seen")
    case True
    then show ?thesis using Cons.prems Cons.IH [of seen rosters s] by (auto split: if_splits)
  next
    case False
    obtain s1 a where req: "fingerprintRequest W (Guild_roster_by_identity g)
        (\<lambda>t. fw_getGuildRosterByIdentity W t g) s = (s1, a)" by fastforce
    have s1: "set (fp_sent s) \<subseteq> set (fp_sent s1)" "skippedHistoricalGuilds s1 = skippedHistoricalGuilds s"
      using fingerprintRequest_grown [OF req] by (auto simp: grown_def)
    have keep: "keep_first canonicalGuildId (g # gs) seen = g # keep_first canonicalGuildId gs (seen @ [canonicalGuildId g])"
      using False by simp
    note run = Cons.prems(1) [unfolded readHistorical.simps req]
    show ?thesis
    proof (cases a)
      case (Answer v)
      let ?cs = "map (\<lambda>c. c\<lparr>fc_guild := nullish_else (fc_guild c) (guild_value g)\<rparr>) (read_candidates v)"
      have v: "isCandidateList v"
        "readHistorical W gs (seen @ [canonicalGuildId g]) (rosters @ ?cs) s1 = (s', Inr historical)"
        using run False Answer by (auto simp: Let_def split: if_splits)
      from Cons.IH [OF v(2) Cons.prems(2)] obtain answers where IH: "set (fp_sent s1) \<subseteq> set (fp_sent s')"
        "list_all2 (guildAnswer W (fp_sent s')) (keep_first canonicalGuildId gs (seen @ [canonicalGuildId g])) answers"
        "historical = (rosters @ ?cs) @ answeredMembers answers"
        "skippedHistoricalGuilds s' = skippedHistoricalGuilds s1 + goneGuilds answers" by blast
      have "guildAnswer W (fp_sent s1) g (Some ?cs)"
        using fingerprintRequest_asked(1) [OF req [unfolded Answer]] fingerprintRequest_Answer [OF req [unfolded Answer]] v(1)
        by (auto simp: guildAnswer_def)
      then have "list_all2 (guildAnswer W (fp_sent s')) (keep_first canonicalGuildId (g # gs) seen) (Some ?cs # answers)"
        unfolding keep using IH(2) guildAnswer_grown [OF IH(1)] by simp
      then show ?thesis using IH s1 by (intro conjI exI [of _ "Some ?cs # answers"]) auto
    next
      case (Raised e)
      then have e: "isNotFound e"
        "readHistorical W gs (seen @ [canonicalGuildId g]) rosters
           (s1\<lparr>skippedHistoricalGuilds := Suc (skippedHistoricalGuilds s1)\<rparr>) = (s', Inr historical)"
        using run False by (auto simp: Let_def split: if_splits)
      from Cons.IH [OF e(2) Cons.prems(2)] obtain answers where IH: "set (fp_sent s1) \<subseteq> set (fp_sent s')"
        "list_all2 (guildAnswer W (fp_sent s')) (keep_first canonicalGuildId gs (seen @ [canonicalGuildId g])) answers"
        "historical = rosters @ answeredMembers answers"
        "skippedHistoricalGuilds s' = Suc (skippedHistoricalGuilds s1) + goneGuilds answers" by auto
      have "guildAnswer W (fp_sent s1) g None"
        using fingerprintRequest_asked(2) [OF req [unfolded Raised] e(1)] e(1) by (auto simp: guildAnswer_def isNotFound_def)
      then have "list_all2 (guildAnswer W (fp_sent s')) (keep_first canonicalGuildId (g # gs) seen) (None # answers)"
        unfolding keep using IH(2) guildAnswer_grown [OF IH(1)] by simp
      then show ?thesis using IH s1 by (intro conjI exI [of _ "None # answers"]) auto
    next
      case Exhausted
      then have "s' = s1" using run False by (auto simp: Let_def split: if_splits)
      then show ?thesis using fingerprintRequest_asked(3) [OF req [unfolded Exhausted]] Cons.prems(2) by simp
    qed
  qed
qed

lemma initial_fresh: "fresh (requestBudget (fo_requestCap options)) (initialFingerprintSweep options)"
  by (simp add: fresh_def sweep_budget_def initialFingerprintSweep_def)

lemma readConcurrency_pos: "0 < readConcurrency c"
  by (cases c rule: readConcurrency.cases) auto

text \<open>A run ends before its pool, or is what its pool makes of the two reads of the root.\<close>

lemma sweepBody_cases:
  assumes "sweepBody E W pick rootKey options = (s, r)"
  obtains "fresh (requestBudget (fo_requestCap options)) s"
      "(\<exists>e. r = Raising e) \<or> (\<exists>k. r = Returned (Matched [] (requestsUsed s) True k)) \<or>
       (\<exists>k. r = Returned (Capped_sweep [] (requestsUsed s) None k))"
  | roster rootFp historical s2 s3 t t' where
      "fresh (requestBudget (fo_requestCap options)) s3" "skippedHistoricalGuilds s2 = 0"
      "readHistorical W (sort_by (compareGuilds E) (fo_historicalGuilds options)) [] [] s2 = (s3, Inr historical)"
      "fw_getGuildRoster W t rootKey = Inr roster" "isCandidateList roster"
      "fw_getAchievementFingerprint W t' rootKey = Inr rootFp" "isFingerprint rootFp"
      "sweepCandidates E W options (planFor E rootKey options roster rootFp historical) pick s3
         = (s, case r of Folded l ms \<Rightarrow> Inr (l, ms) | Raising e \<Rightarrow> Inl e | Returned u \<Rightarrow> Inl Other_error)"
      "\<forall>u. r \<noteq> Returned u"
proof -
  let ?B = "requestBudget (fo_requestCap options)"
  obtain s1 a1 where req1: "fingerprintRequest W (Guild_roster rootKey)
      (\<lambda>t. fw_getGuildRoster W t rootKey) (initialFingerprintSweep options) = (s1, a1)" by fastforce
  note s1 = fingerprintRequest_fresh [OF initial_fresh req1]
  obtain s2 a2 where req2: "fingerprintRequest W (Achievement_fingerprint rootKey)
      (\<lambda>t. fw_getAchievementFingerprint W t rootKey) s1 = (s2, a2)" by fastforce
  note s2 = fingerprintRequest_fresh [OF s1 req2]
  obtain s3 h where hist: "readHistorical W (sort_by (compareGuilds E) (fo_historicalGuilds options))
      [] [] s2 = (s3, h)" by fastforce
  note s3 = readHistorical_fresh [OF s2 hist]
  note body = assms [unfolded sweepBody_def req1]
  show ?thesis
  proof (cases "\<exists>roster rootFp historical. a1 = Answer roster \<and> isCandidateList roster \<and>
      a2 = Answer rootFp \<and> isFingerprint rootFp \<and> h = Inr historical")
    case True
    then obtain roster rootFp historical where
      a: "a1 = Answer roster" "isCandidateList roster" "a2 = Answer rootFp" "isFingerprint rootFp"
        "h = Inr historical" by blast
    have "sweepCandidates E W options (planFor E rootKey options roster rootFp historical) pick s3
        = (s, case r of Folded l ms \<Rightarrow> Inr (l, ms) | Raising e \<Rightarrow> Inl e | Returned u \<Rightarrow> Inl Other_error)
      \<and> (\<forall>u. r \<noteq> Returned u)"
      using body a req2 hist
      by (cases "sweepCandidates E W options (planFor E rootKey options roster rootFp historical) pick s3"
          rule: afterPool.cases) auto
    moreover have "skippedHistoricalGuilds s2 = 0"
      using fingerprintRequest_grown [OF req1] fingerprintRequest_grown [OF req2]
      by (simp add: grown_def initialFingerprintSweep_def)
    ultimately show ?thesis
      using that(2) [OF s3 _ hist [unfolded a(5)]] a fingerprintRequest_Answer req1 req2 by blast
  next
    case False
    with body req2 hist s1 s2 s3 that(1) show ?thesis
      by (cases a1; cases a2; cases h) (auto simp: unreadRootOutcome_def split: if_splits)
  qed
qed


subsection \<open>Eligible candidates\<close>

lemma distinct_conv_sorted_wrt: "distinct xs \<longleftrightarrow> sorted_wrt (\<noteq>) xs"
  by (induction xs) auto

lemma eligible_props:
  assumes "c \<in> set (eligibleCandidates E rootKey options rosters)"
  shows "canonicalCharacterId E (fc_key c) \<noteq> canonicalCharacterId E rootKey"
    "region (fc_key c) = region rootKey"
    "fo_resumeAfter options = Some cursor \<Longrightarrow> cursor \<noteq> [] \<Longrightarrow>
       0 < localeCompare E (canonicalCharacterId E (fc_key c)) cursor"
  using subsetD [OF set_keep_first_subset assms [unfolded eligibleCandidates_def Let_def]]
  by (auto split: option.splits if_splits)

text \<open>
  Said of one candidate: it is in the root's region and not the root, and lies after the cursor the sweep
  resumes from.
\<close>

definition sweepable :: "js_env \<Rightarrow> characterKey \<Rightarrow> discoverFingerprintMatchesOptions \<Rightarrow> fingerprintCandidate \<Rightarrow> bool" where
  "sweepable E rootKey options c \<longleftrightarrow>
     region (fc_key c) = region rootKey \<and> canonicalCharacterId E (fc_key c) \<noteq> canonicalCharacterId E rootKey \<and>
     (case fo_resumeAfter options of None \<Rightarrow> True
      | Some cursor \<Rightarrow> cursor = [] \<or> 0 < localeCompare E (canonicalCharacterId E (fc_key c)) cursor)"

lemma eligible_complete:
  "set (eligibleCandidates E rootKey options rosters) =
     set (filter (sweepable E rootKey options) (keep_first (\<lambda>c. canonicalCharacterId E (fc_key c)) rosters []))"
proof -
  let ?id = "\<lambda>c. canonicalCharacterId E (fc_key c)"
  let ?sorted = "sort_by (compareCandidates E) (keep_first ?id rosters [])"
  have "distinct (map ?id ?sorted)"
    using distinct_keep_first [of ?id rosters "[]"] by (simp add: distinct_map_sort_by)
  then have once: "distinct (map ?id (filter Q (filter R ?sorted)))" "distinct (map ?id (filter Q ?sorted))" for Q R
    by (simp_all add: distinct_map_filter)
  show ?thesis
    unfolding eligibleCandidates_def Let_def
    by (cases "fo_resumeAfter options") (auto simp: keep_first_id [OF once(1)] keep_first_id [OF once(2)] sweepable_def)
qed

lemma eligible_distinct:
  "distinct (map (\<lambda>c. canonicalCharacterId E (fc_key c)) (eligibleCandidates E rootKey options rosters))"
  by (simp add: eligibleCandidates_def Let_def distinct_keep_first)

context js_runtime
begin

lemma compareCandidates_lawful: "js_comparator (compareCandidates E)"
  unfolding compareCandidates_def by (rule js_comparator_pullback [OF collation])

lemma eligible_sorted:
  "sorted_wrt (\<lambda>a b. compareCandidates E a b \<le> 0) (eligibleCandidates E rootKey options rosters)"
proof -
  have "sorted_wrt (\<lambda>a b. compareCandidates E a b \<le> 0) (sort_by (compareCandidates E) cs)" for cs
    by (rule js_comparator.sorted_sort_by [OF compareCandidates_lawful])
  then show ?thesis
    unfolding eligibleCandidates_def Let_def
    by (intro sorted_wrt_subseq [OF keep_first_subseq] sorted_wrt_filter)
       (auto split: option.split intro: sorted_wrt_filter)
qed

text \<open>Every candidate the cursor has reached was handled.\<close>

lemma cursor_handled:
  assumes "sweep_ok E W options P s" and "foldSettled (settled s) None [] = (Some cursor, ms)"
    and elig: "fp_eligible P = eligibleCandidates E rootKey options rosters"
  shows "\<exists>c \<in> set (fp_eligible P). canonicalCharacterId E (fc_key c) = cursor"
    "c \<in> set (fp_eligible P) \<Longrightarrow> localeCompare E (canonicalCharacterId E (fc_key c)) cursor < 0 \<or>
       canonicalCharacterId E (fc_key c) = cursor \<Longrightarrow> handled W (fp_sent s) (fc_key c)"
proof -
  have len: "length (settled s) = length (fp_eligible P)" using assms(1) by (simp add: sweep_ok_def)
  from foldSettled_cursor [of "settled s" None "[]" cursor] assms(2) obtain i m where
    i: "i < length (settled s)" "settled s ! i = Some (Swept cursor m)"
    and before: "list_all passed (take (Suc i) (settled s))" by auto
  with assms(1) have "result_ok E W options P (fp_sent s) (fp_capped s) i (Swept cursor m)"
    unfolding sweep_ok_def by blast
  then have cur: "canonicalCharacterId E (fc_key (fp_eligible P ! i)) = cursor"
    by (simp add: eligibleId_def eligibleKey_def)
  with i len show "\<exists>c \<in> set (fp_eligible P). canonicalCharacterId E (fc_key c) = cursor"
    by (intro bexI [of _ "fp_eligible P ! i"]) simp_all
  assume "c \<in> set (fp_eligible P)"
    and reached: "localeCompare E (canonicalCharacterId E (fc_key c)) cursor < 0 \<or>
      canonicalCharacterId E (fc_key c) = cursor"
  then obtain k where k: "k < length (fp_eligible P)" "fp_eligible P ! k = c"
    by (auto simp: in_set_conv_nth)
  have "k \<le> i"
  proof (rule ccontr)
    assume "\<not> k \<le> i"
    then have "i < k" by simp
    then have "compareCandidates E (fp_eligible P ! i) c \<le> 0"
      using eligible_sorted [of rootKey options rosters] k by (auto simp: elig sorted_wrt_iff_nth_less)
    then have "0 \<le> localeCompare E (canonicalCharacterId E (fc_key c)) cursor"
      using loc.flip_le by (simp add: compareCandidates_def cur)
    with reached have "canonicalCharacterId E (fc_key c) = cursor" by simp
    moreover have "canonicalCharacterId E (fc_key (fp_eligible P ! i)) \<noteq> canonicalCharacterId E (fc_key (fp_eligible P ! k))"
      using nth_eq_iff_index_eq [OF eligible_distinct [of E rootKey options rosters], of i k] \<open>i < k\<close> k
      by (auto simp: elig)
    ultimately show False using k cur by simp
  qed
  then have "passed (settled s ! k)"
    using before k len by (auto simp: list_all_length)
  from passed_handled [OF assms(1) k(1) this] k(2) show "handled W (fp_sent s) (fc_key c)"
    by (simp add: eligibleKey_def)
qed

end


subsection \<open>Example\<close>

text \<open>
  A root in a guild of three others, one of them suppressed, with empty fingerprints;
  and a fingerprint of a given length.
\<close>

definition exampleFingerprint :: "nat \<Rightarrow> jsval" where
  "exampleFingerprint n =
     JMap (map (\<lambda>i. (JNumber (Finite (of_nat i)), JNumber (Finite 1))) [0 ..< n])"

definition exampleMember :: "string \<Rightarrow> string \<Rightarrow> jsval" where
  "exampleMember r n =
     JObject [(''key'', JObject [(''region'', JString r), (''realm'', JString ''silvermoon''),
                (''name'', JString n)]),
              (''displayName'', JString n), (''className'', JString ''Mage''),
              (''level'', JNumber (Finite 80))]"

definition exampleRoster :: fingerprintWorld where
  "exampleRoster =
     \<lparr>fw_getGuildRoster = (\<lambda>_ _. Inr (JArray [exampleMember ''eu'' ''zoe'',
        exampleMember ''eu'' ''hidden'', exampleMember ''eu'' ''alt''])),
      fw_getGuildRosterByIdentity = (\<lambda>_ _. Inl (Upstream Not_found)),
      fw_getAchievementFingerprint = (\<lambda>_ _. Inr (JMap [])),
      fw_isSuppressed = (\<lambda>_ k. Inr (cname k = ''hidden'')),
      fw_aborted = (\<lambda>_. False)\<rparr>"

definition memberKey :: "string \<Rightarrow> characterKey" where
  "memberKey n = \<lparr>region = ''eu'', realm = ''silvermoon'', cname = n\<rparr>"

definition exampleSweepOptions :: "nat \<Rightarrow> discoverFingerprintMatchesOptions" where
  "exampleSweepOptions cap =
     \<lparr>fo_requestCap = Finite (of_nat cap), fo_minimumCommon = Finite 100,
      fo_minimumIdenticalPercent = Finite 10, fo_resumeAfter = None, fo_historicalGuilds = [],
      fo_readConcurrency = Some (Finite 2)\<rparr>"

lemma commonTimestamps_bounds:
  assumes "commonTimestamps r c n m = (common, identical)" and "m \<le> n"
  shows "common \<le> length r + n \<and> identical \<le> common"
  using assms
proof (induction r c n m rule: commonTimestamps.induct)
  case (2 i t rest c n m)
  then show ?case by (cases "map_of c i") (force split: if_splits)+
qed simp

lemma num_at_least_max: "num_at_least x (num_max (Finite y) b) \<Longrightarrow> y \<le> x"
  by (cases b) auto

lemma commonTimestamps_self:
  "distinct (map fst r) \<Longrightarrow> set r \<subseteq> set c \<Longrightarrow> distinct (map fst c) \<Longrightarrow>
     commonTimestamps r c n m = (n + length r, m + length r)"
proof (induction r arbitrary: n m)
  case (Cons e r)
  then show ?case by (cases e) (auto simp: map_of_is_SomeI)
qed simp

lemma exampleFingerprint_distinct: "distinct (map fst (read_fingerprint (exampleFingerprint n)))"
  by (auto simp: exampleFingerprint_def comp_def distinct_map inj_on_def)

lemma js_percent_200: "js_percent 200 200 = 100"
  by code_simp

lemma exampleFingerprint_matches:
  "fingerprintMatches (read_fingerprint (exampleFingerprint 200)) (read_fingerprint (exampleFingerprint 200))
     (exampleSweepOptions 10)"
proof -
  have "length (read_fingerprint (exampleFingerprint 200)) = 200"
    by (simp add: exampleFingerprint_def)
  then have "commonTimestamps (read_fingerprint (exampleFingerprint 200))
      (read_fingerprint (exampleFingerprint 200)) 0 0 = (200, 200)"
    using commonTimestamps_self [OF exampleFingerprint_distinct subset_refl exampleFingerprint_distinct]
    by simp
  then show ?thesis
    by (simp add: fingerprintMatches_def js_percent_200 mandatoryMinimumCommon_def
        mandatoryMinimumIdenticalPercent_def exampleSweepOptions_def)
qed

subsection \<open>Properties\<close>

fun sweepCharacters :: "sweepResult \<Rightarrow> discoveredCharacter list" where
  "sweepCharacters (Sweep_settled (Matched cs n u k)) = cs"
| "sweepCharacters (Sweep_settled (Capped_sweep cs n r k)) = cs"
| "sweepCharacters _ = []"

fun sweepRequests :: "sweepResult \<Rightarrow> int" where
  "sweepRequests (Sweep_settled (Matched cs n u k)) = n"
| "sweepRequests (Sweep_settled (Capped_sweep cs n r k)) = n"
| "sweepRequests _ = 0"

lemma sweep_budget_run:
  assumes "sweepBody E W pick rootKey options = (s, r)"
  shows "sweep_budget (requestBudget (fo_requestCap options)) s"
  using assms by (cases rule: sweepBody_cases) (auto dest: sweepCandidates_keeps(2) simp: fresh_def [of _ s])

definition finished_pool ::
    "js_env \<Rightarrow> fingerprintWorld \<Rightarrow> discoverFingerprintMatchesOptions \<Rightarrow> fingerprintPlan \<Rightarrow>
     fingerprintSweep \<Rightarrow> bool" where
  "finished_pool E W options P s \<longleftrightarrow>
     sweep_ok E W options P s \<and> moves P s = [] \<and> dispatch s = Finished None \<and> sweepError s = None \<and>
     0 < fp_concurrency P"

lemma run_Folded:
  assumes "sweepBody E W pick rootKey options = (s, Folded l ms)"
  shows "\<exists>roster rootFp historical t t'.
    fw_getGuildRoster W t rootKey = Inr roster \<and> isCandidateList roster \<and>
    fw_getAchievementFingerprint W t' rootKey = Inr rootFp \<and> isFingerprint rootFp \<and>
    finished_pool E W options (planFor E rootKey options roster rootFp historical) s \<and>
    foldSettled (settled s) None [] = (l, ms) \<and>
    (\<not> fp_capped s \<longrightarrow> (\<exists>answers. list_all2 (guildAnswer W (fp_sent s)) (sweptGuilds E options) answers \<and>
       historical = answeredMembers answers \<and> skippedHistoricalGuilds s = goneGuilds answers))"
  using assms
proof (cases rule: sweepBody_cases)
  case 1
  then show ?thesis by simp
next
  case (2 roster rootFp historical s2 s3 t t')
  let ?P = "planFor E rootKey options roster rootFp historical"
  have run: "sweepCandidates E W options ?P pick s3 = (s, Inr (l, ms))" using 2(8) by simp
  have pos: "0 < fp_concurrency ?P" by (simp add: planFor_def readConcurrency_pos)
  have "finished_pool E W options ?P s"
    using sweepCandidates_keeps(1,3) [OF 2(1) run] sweepCandidates_Inr(1,2) [OF run pos 2(1)] pos
    by (simp add: finished_pool_def)
  moreover have "\<exists>answers. list_all2 (guildAnswer W (fp_sent s)) (sweptGuilds E options) answers \<and>
      historical = answeredMembers answers \<and> skippedHistoricalGuilds s = goneGuilds answers" if "\<not> fp_capped s"
  proof -
    have grown: "set (fp_sent s3) \<subseteq> set (fp_sent s)" "\<not> fp_capped s3" "skippedHistoricalGuilds s = skippedHistoricalGuilds s3"
      using sweepCandidates_grown [OF run] that by (auto simp: grown_def)
    from readHistorical_answers [OF 2(3) grown(2)] obtain answers where answers:
      "list_all2 (guildAnswer W (fp_sent s3)) (sweptGuilds E options) answers" "historical = answeredMembers answers"
      "skippedHistoricalGuilds s3 = goneGuilds answers" using 2(2) by (auto simp: sweptGuilds_def)
    from answers(1) have "list_all2 (guildAnswer W (fp_sent s)) (sweptGuilds E options) answers"
      by (rule list_all2_mono) (rule guildAnswer_grown [OF grown(1)])
    with answers grown(3) show ?thesis by auto
  qed
  ultimately show ?thesis using 2(4-7) sweepCandidates_Inr(3) [OF run pos 2(1)] by metis
qed

text \<open>What a result with characters or a cursor comes from.\<close>

lemma discover_Folded:
  assumes "discoverFingerprintMatches E W pick rootKey options = (Sweep_settled u, calls)"
    and "(\<exists>cs n k. u = Matched cs n False k) \<or> (\<exists>cs n cursor k. u = Capped_sweep cs n (Some cursor) k)
      \<or> sweepCharacters (Sweep_settled u) \<noteq> []"
  obtains s l ms where "sweepBody E W pick rootKey options = (s, Folded l ms)" "calls = fp_sent s"
    "u = (if fp_capped s then Capped_sweep ms (requestsUsed s) l (skippedHistoricalGuilds s)
          else Matched ms (requestsUsed s) False (skippedHistoricalGuilds s))"
proof -
  obtain s r where body: "sweepBody E W pick rootKey options = (s, r)" by fastforce
  have no_failure: "sweepFailure e \<noteq> Matched cs n b k" "sweepFailure e \<noteq> Capped_sweep cs n c k"
    "sweepCharacters (Sweep_settled (sweepFailure e)) = []" for e cs n b c k
    by (auto simp: sweepFailure_def split: option.splits upstreamFailure.splits)
  show ?thesis
  proof (cases r)
    case (Folded l ms)
    with body assms(1) that show ?thesis by (auto simp: discoverFingerprintMatches_def)
  next
    case (Raising e)
    with body assms no_failure show ?thesis
      by (auto simp: discoverFingerprintMatches_def split: if_splits)
  next
    case (Returned u')
    from body have "u' = Matched [] (requestsUsed s) True k \<or> u' = Capped_sweep [] (requestsUsed s) None k
        \<Longrightarrow> ?thesis" for k
      using assms Returned by (auto simp: discoverFingerprintMatches_def)
    moreover from body Returned have "\<exists>k. u' = Matched [] (requestsUsed s) True k \<or>
        u' = Capped_sweep [] (requestsUsed s) None k"
      by (cases rule: sweepBody_cases) auto
    ultimately show ?thesis by blast
  qed
qed

lemma finished_matches:
  assumes "finished_pool E W options P s" and "foldSettled (settled s) None [] = (l, ms)"
  shows "\<exists>cs. subseq cs (fp_eligible P) \<and> list_all (admitted W options P) cs \<and>
    ms = map fingerprintCharacter cs"
  using sweep_matches [of E W options P s l ms] assms by (simp add: finished_pool_def)

lemma discover_characters:
  assumes "discoverFingerprintMatches E W pick rootKey options = (r, calls)"
  shows "\<exists>rosters cs P. subseq cs (eligibleCandidates E rootKey options rosters) \<and>
    list_all (admitted W options P) cs \<and> sweepCharacters r = map fingerprintCharacter cs"
proof (cases "sweepCharacters r = []")
  case True
  then show ?thesis by (intro exI [of _ "[]"]) simp
next
  case False
  then obtain u where r: "r = Sweep_settled u" by (cases r) auto
  from False obtain s l ms where fold: "sweepBody E W pick rootKey options = (s, Folded l ms)"
    and u: "u = (if fp_capped s then Capped_sweep ms (requestsUsed s) l (skippedHistoricalGuilds s)
          else Matched ms (requestsUsed s) False (skippedHistoricalGuilds s))"
    using discover_Folded [OF assms [unfolded r]] r by metis
  from run_Folded [OF fold] obtain roster rootFp historical where
    fin: "finished_pool E W options (planFor E rootKey options roster rootFp historical) s"
    and ms: "foldSettled (settled s) None [] = (l, ms)" by blast
  have "sweepCharacters r = ms" using u r by simp
  with finished_matches [OF fin ms] show ?thesis by (auto simp: planFor_def)
qed

text \<open>
  C6. A sweep sends no more gateway requests than its cap, rounded down, and the
  number of requests it reports is never negative and never more than it sent, in
  every interleaving of its concurrent reads.
\<close>

theorem fingerprint_within_budget:
  "case discoverFingerprintMatches E W pick rootKey options of (r, calls) \<Rightarrow>
     length calls \<le> requestBudget (fo_requestCap options) \<and>
     0 \<le> sweepRequests r \<and> sweepRequests r \<le> int (length calls)"
proof -
  obtain s r where body: "sweepBody E W pick rootKey options = (s, r)" by fastforce
  have b: "sweep_budget (requestBudget (fo_requestCap options)) s" by (rule sweep_budget_run [OF body])
  have "sweepRequests (Sweep_settled (sweepFailure e)) = 0" for e
    by (auto simp: sweepFailure_def split: option.splits upstreamFailure.splits)
  moreover have "u = Matched [] (requestsUsed s) True k \<or> u = Capped_sweep [] (requestsUsed s) None k
      \<Longrightarrow> sweepRequests (Sweep_settled u) = requestsUsed s" for u k by auto
  ultimately show ?thesis
    using body b
    by (cases rule: sweepBody_cases [OF body])
       (auto simp: discoverFingerprintMatches_def sweep_budget_def split: sweepReturn.splits)
qed

context js_runtime
begin

lemma characters_sound:
  assumes "subseq cs (eligibleCandidates E rootKey options rosters)"
    and "list_all (admitted W options P) cs"
    and "\<forall>t k b. fw_isSuppressed W t k = Inr b \<longrightarrow> b = suppressed k"
  shows "distinct (map (\<lambda>c. canonicalCharacterId E (dc_key c)) (map fingerprintCharacter cs))"
    "sorted_wrt (\<lambda>a b. localeCompare E (canonicalCharacterId E (dc_key a))
       (canonicalCharacterId E (dc_key b)) \<le> 0) (map fingerprintCharacter cs)"
    "list_all (\<lambda>c. \<not> suppressed (dc_key c)) (map fingerprintCharacter cs)"
proof -
  have "distinct (map (\<lambda>c. canonicalCharacterId E (fc_key c)) cs)"
    using sorted_wrt_subseq [OF subseq_map [OF assms(1)]] eligible_distinct
    unfolding distinct_conv_sorted_wrt by blast
  then show "distinct (map (\<lambda>c. canonicalCharacterId E (dc_key c)) (map fingerprintCharacter cs))"
    by (simp add: fingerprintCharacter_def comp_def)
  show "sorted_wrt (\<lambda>a b. localeCompare E (canonicalCharacterId E (dc_key a))
       (canonicalCharacterId E (dc_key b)) \<le> 0) (map fingerprintCharacter cs)"
    using sorted_wrt_subseq [OF assms(1) eligible_sorted]
    by (simp add: sorted_wrt_map fingerprintCharacter_def compareCandidates_def)
  show "list_all (\<lambda>c. \<not> suppressed (dc_key c)) (map fingerprintCharacter cs)"
    using assms(2,3) by (auto simp: list_all_iff admitted_def checked_def fingerprintCharacter_def)
qed

end

text \<open>
  The characters a sweep returns are in the root's region, are not the root, lie
  strictly after the cursor it resumed from, are pairwise different and in collation
  order, and none of them is suppressed.
\<close>

theorem fingerprint_characters_sound:
  assumes "js_runtime E" and "\<And>t k b. fw_isSuppressed W t k = Inr b \<Longrightarrow> b = suppressed k"
  shows "let cs = sweepCharacters (fst (discoverFingerprintMatches E W pick rootKey options));
             cid = (\<lambda>c. canonicalCharacterId E (dc_key c))
         in distinct (map cid cs) \<and> sorted_wrt (\<lambda>a b. localeCompare E (cid a) (cid b) \<le> 0) cs \<and>
            list_all (\<lambda>c. dc_source c = Fingerprint_source \<and> \<not> suppressed (dc_key c) \<and>
              region (dc_key c) = region rootKey \<and> cid c \<noteq> canonicalCharacterId E rootKey \<and>
              (case fo_resumeAfter options of None \<Rightarrow> True
               | Some cursor \<Rightarrow> cursor = [] \<or> 0 < localeCompare E (cid c) cursor)) cs"
proof -
  obtain r calls where run: "discoverFingerprintMatches E W pick rootKey options = (r, calls)" by fastforce
  from discover_characters [OF run] obtain rosters cs P where
    cs: "subseq cs (eligibleCandidates E rootKey options rosters)" "list_all (admitted W options P) cs"
    and r: "sweepCharacters r = map fingerprintCharacter cs" by blast
  have mem: "c \<in> set (eligibleCandidates E rootKey options rosters)" if "c \<in> set cs" for c
    using that list_emb_set [OF cs(1)] by auto
  have sup: "\<forall>t k b. fw_isSuppressed W t k = Inr b \<longrightarrow> b = suppressed k" using assms(2) by blast
  note sound = js_runtime.characters_sound [OF assms(1) cs sup]
  show ?thesis
    using sound eligible_props(1,2) [OF mem]
    by (auto simp: run r Let_def list_all_iff fingerprintCharacter_def
        dest: eligible_props(3) [OF mem] split: option.split)
qed

theorem fingerprint_characters_sound_witness:
  "let cs = sweepCharacters (fst (discoverFingerprintMatches ascii_env exampleRoster (\<lambda>s. 1) ryii
         (exampleSweepOptions 10)));
       cid = (\<lambda>c. canonicalCharacterId ascii_env (dc_key c))
   in distinct (map cid cs) \<and> sorted_wrt (\<lambda>a b. localeCompare ascii_env (cid a) (cid b) \<le> 0) cs \<and>
      list_all (\<lambda>c. dc_source c = Fingerprint_source \<and> \<not> cname (dc_key c) = ''hidden'' \<and>
        region (dc_key c) = region ryii \<and> cid c \<noteq> canonicalCharacterId ascii_env ryii \<and>
        (case fo_resumeAfter (exampleSweepOptions 10) of None \<Rightarrow> True
         | Some cursor \<Rightarrow> cursor = [] \<or> 0 < localeCompare ascii_env (cid c) cursor)) cs"
  by (rule fingerprint_characters_sound [OF ascii.js_runtime_axioms])
     (simp add: exampleRoster_def)

text \<open>
  C7. A sweep that reports a complete match (no cap, and the root's own profile read) has asked every
  historical guild for its roster, and the guilds it reports as skipped are exactly those that
  are gone. It has asked for the fingerprint of every candidate of the root's roster and of the rosters
  those guilds gave, one per character, that is in the root's region, not the root and after the
  cursor, except those a suppression check excluded.
\<close>

theorem fingerprint_matched_complete:
  assumes "discoverFingerprintMatches E W pick rootKey options =
    (Sweep_settled (Matched cs n False k), calls)"
  shows "\<exists>t roster answers. fw_getGuildRoster W t rootKey = Inr roster \<and> isCandidateList roster \<and>
    canonicalGuildId ` set (sweptGuilds E options) = canonicalGuildId ` set (fo_historicalGuilds options) \<and>
    distinct (map canonicalGuildId (sweptGuilds E options)) \<and>
    list_all2 (guildAnswer W calls) (sweptGuilds E options) answers \<and> k = goneGuilds answers \<and>
    list_all (\<lambda>c. handled W calls (fc_key c))
      (filter (sweepable E rootKey options)
        (keep_first (\<lambda>c. canonicalCharacterId E (fc_key c)) (read_candidates roster @ answeredMembers answers) []))"
proof -
  obtain s l ms where fold: "sweepBody E W pick rootKey options = (s, Folded l ms)"
    and calls: "calls = fp_sent s" and uncapped: "\<not> fp_capped s" and k: "k = skippedHistoricalGuilds s"
    by (rule discover_Folded [OF assms]) (auto split: if_splits)
  from run_Folded [OF fold] uncapped obtain roster rootFp answers t where
    reads: "fw_getGuildRoster W t rootKey = Inr roster" "isCandidateList roster"
    and fin: "finished_pool E W options (planFor E rootKey options roster rootFp (answeredMembers answers)) s"
    (is "finished_pool E W options ?P s")
    and answers: "list_all2 (guildAnswer W (fp_sent s)) (sweptGuilds E options) answers"
      "skippedHistoricalGuilds s = goneGuilds answers" by blast
  have "handled W calls (fc_key (fp_eligible ?P ! i))" if "i < length (fp_eligible ?P)" for i
  proof -
    have "sweep_ok E W options ?P s" and "passed (settled s ! i)"
      using fin uncapped_all_passed [of E W options ?P s i] uncapped that
      by (simp_all add: finished_pool_def)
    then show ?thesis
      using passed_handled [of E W options ?P s i] that by (simp add: calls eligibleKey_def)
  qed
  then have "\<forall>c \<in> set (fp_eligible ?P). handled W calls (fc_key c)" by (auto simp: in_set_conv_nth)
  then have "list_all (\<lambda>c. handled W calls (fc_key c))
      (filter (sweepable E rootKey options)
        (keep_first (\<lambda>c. canonicalCharacterId E (fc_key c)) (read_candidates roster @ answeredMembers answers) []))"
    using eligible_complete [of E rootKey options "read_candidates roster @ answeredMembers answers"]
    by (simp add: planFor_def list_all_iff)
  with reads answers k calls show ?thesis
    using ident_keep_first [of canonicalGuildId] distinct_keep_first [of canonicalGuildId]
    unfolding sweptGuilds_def by (intro exI [of _ t] exI [of _ roster] exI [of _ answers]) simp
qed

definition completeCalls :: "fingerprintCall list" where
  "completeCalls = [Guild_roster ryii, Achievement_fingerprint ryii,
     Achievement_fingerprint (memberKey ''alt''), Achievement_fingerprint (memberKey ''zoe'')]"

text \<open>A root who was in two guilds before: one still lists a member, one is gone.\<close>

definition formerGuild :: "string \<Rightarrow> characterGuild" where
  "formerGuild n = \<lparr>g_name = n, g_region = ''eu'', g_realm = ''silvermoon''\<rparr>"

definition formerOptions :: discoverFingerprintMatchesOptions where
  "formerOptions = (exampleSweepOptions 10)\<lparr>fo_historicalGuilds := [formerGuild ''old'', formerGuild ''gone'', formerGuild ''old'']\<rparr>"

definition formerWorld :: fingerprintWorld where
  "formerWorld = exampleRoster\<lparr>fw_getGuildRosterByIdentity :=
     (\<lambda>_ guild. if g_name guild = ''old'' then Inr (JArray [exampleMember ''eu'' ''friend''])
               else Inl (Upstream Not_found))\<rparr>"

definition formerCalls :: "fingerprintCall list" where
  "formerCalls = [Guild_roster ryii, Achievement_fingerprint ryii,
     Guild_roster_by_identity (formerGuild ''gone''), Guild_roster_by_identity (formerGuild ''old''),
     Achievement_fingerprint (memberKey ''alt''), Achievement_fingerprint (memberKey ''friend''),
     Achievement_fingerprint (memberKey ''zoe'')]"

lemma formerSweep_complete:
  "discoverFingerprintMatches ascii_env formerWorld (\<lambda>s. 1) ryii formerOptions
     = (Sweep_settled (Matched [] 7 False 1), formerCalls)"
  by code_simp

lemma formerGuilds_swept: "sweptGuilds ascii_env formerOptions = [formerGuild ''gone'', formerGuild ''old'']"
  by code_simp

theorem fingerprint_matched_complete_witness:
  "\<exists>t roster members. fw_getGuildRoster formerWorld t ryii = Inr roster \<and> isCandidateList roster \<and>
     guildAnswer formerWorld formerCalls (formerGuild ''gone'') None \<and>
     guildAnswer formerWorld formerCalls (formerGuild ''old'') (Some members) \<and>
     list_all (\<lambda>c. handled formerWorld formerCalls (fc_key c))
       (filter (sweepable ascii_env ryii formerOptions)
         (keep_first (\<lambda>c. canonicalCharacterId ascii_env (fc_key c)) (read_candidates roster @ members) []))"
proof -
  have never: "\<not> guildAnswer formerWorld formerCalls (formerGuild ''old'') None"
    by (simp add: guildAnswer_def formerWorld_def formerGuild_def)
  have gone: "guildAnswer formerWorld formerCalls (formerGuild ''gone'') members \<Longrightarrow> members = None" for members
    by (cases members) (simp_all add: guildAnswer_def formerWorld_def formerGuild_def)
  obtain t roster a b where "fw_getGuildRoster formerWorld t ryii = Inr roster" "isCandidateList roster"
    "guildAnswer formerWorld formerCalls (formerGuild ''gone'') a" "guildAnswer formerWorld formerCalls (formerGuild ''old'') b"
    "list_all (\<lambda>c. handled formerWorld formerCalls (fc_key c))
       (filter (sweepable ascii_env ryii formerOptions)
         (keep_first (\<lambda>c. canonicalCharacterId ascii_env (fc_key c)) (read_candidates roster @ answeredMembers [a, b]) []))"
    using fingerprint_matched_complete [OF formerSweep_complete]
    unfolding formerGuilds_swept by (auto simp: list_all2_Cons1)
  then show ?thesis
    using gone [of a] never by (cases b) auto
qed

text \<open>
  The cursor of a capped sweep never passes a candidate that was not handled:
  every eligible candidate before the cursor, or at it, was read or is suppressed, and
  the cursor lies strictly after the one the sweep resumed from, so no candidate is
  swept twice and none is skipped.
\<close>

theorem fingerprint_cursor_sound:
  assumes "js_runtime E" and "discoverFingerprintMatches E W pick rootKey options =
    (Sweep_settled (Capped_sweep cs n (Some cursor) k), calls)"
  shows "\<exists>t roster historical. fw_getGuildRoster W t rootKey = Inr roster \<and> isCandidateList roster \<and>
    list_all (\<lambda>c. handled W calls (fc_key c))
      (filter (\<lambda>c. localeCompare E (canonicalCharacterId E (fc_key c)) cursor < 0 \<or>
                  canonicalCharacterId E (fc_key c) = cursor)
         (eligibleCandidates E rootKey options (read_candidates roster @ historical))) \<and>
    (case fo_resumeAfter options of None \<Rightarrow> True
     | Some previous \<Rightarrow> previous = [] \<or> 0 < localeCompare E cursor previous)"
proof -
  obtain s ms where fold: "sweepBody E W pick rootKey options = (s, Folded (Some cursor) ms)"
    and calls: "calls = fp_sent s"
    by (rule discover_Folded [OF assms(2)]) (auto split: if_splits)
  from run_Folded [OF fold] obtain roster rootFp historical t where
    reads: "fw_getGuildRoster W t rootKey = Inr roster" "isCandidateList roster"
    and fin: "finished_pool E W options (planFor E rootKey options roster rootFp historical) s"
    (is "finished_pool E W options ?P s")
    and ms: "foldSettled (settled s) None [] = (Some cursor, ms)" by blast
  have ok: "sweep_ok E W options ?P s" using fin by (simp add: finished_pool_def)
  have elig: "fp_eligible ?P = eligibleCandidates E rootKey options (read_candidates roster @ historical)"
    by (simp add: planFor_def)
  note cur = js_runtime.cursor_handled [OF assms(1) ok ms elig]
  from cur(1) have "case fo_resumeAfter options of None \<Rightarrow> True
     | Some previous \<Rightarrow> previous = [] \<or> 0 < localeCompare E cursor previous"
    by (auto simp: elig dest: eligible_props(3) split: option.split)
  with reads cur(2) show ?thesis by (auto simp: elig calls list_all_iff)
qed


lemma exampleSweep_capped:
  "discoverFingerprintMatches ascii_env exampleRoster (\<lambda>s. 1) ryii (exampleSweepOptions 3)
     = (Sweep_settled (Capped_sweep [] 3 (Some (canonicalCharacterId ascii_env (memberKey ''alt''))) 0),
        take 3 completeCalls)"
  by code_simp

theorem fingerprint_cursor_sound_witness:
  "\<exists>t roster historical. fw_getGuildRoster exampleRoster t ryii = Inr roster \<and> isCandidateList roster \<and>
     list_all (\<lambda>c. handled exampleRoster (take 3 completeCalls) (fc_key c))
       (filter (\<lambda>c. localeCompare ascii_env (canonicalCharacterId ascii_env (fc_key c))
                     (canonicalCharacterId ascii_env (memberKey ''alt'')) < 0 \<or>
                   canonicalCharacterId ascii_env (fc_key c)
                     = canonicalCharacterId ascii_env (memberKey ''alt''))
          (eligibleCandidates ascii_env ryii (exampleSweepOptions 3) (read_candidates roster @ historical))) \<and>
     (case fo_resumeAfter (exampleSweepOptions 3) of None \<Rightarrow> True
      | Some previous \<Rightarrow> previous = [] \<or>
          0 < localeCompare ascii_env (canonicalCharacterId ascii_env (memberKey ''alt'')) previous)"
  by (rule fingerprint_cursor_sound [OF ascii.js_runtime_axioms exampleSweep_capped])

text \<open>
  The match thresholds cannot be lowered: whatever minimums the options ask for,
  two fingerprints match only if they share at least 200 achievements and at least a
  fifth of the shared ones carry identical timestamps. The percentage is computed in
  floating point and still never admits a smaller share.
\<close>

theorem fingerprint_thresholds:
  assumes "fingerprintMatches rootFp candidate options" and "length rootFp < 2 ^ 40"
  shows "case commonTimestamps rootFp candidate 0 0 of (common, identical) \<Rightarrow>
    200 \<le> common \<and> common \<le> 5 * identical \<and> identical \<le> common \<and> common \<le> length rootFp"
proof -
  obtain common identical where ci: "commonTimestamps rootFp candidate 0 0 = (common, identical)"
    by fastforce
  have bound: "common \<le> length rootFp" "identical \<le> common"
    using commonTimestamps_bounds [OF ci] by simp_all
  from assms(1) ci have c: "200 \<le> common"
    by (auto simp: fingerprintMatches_def mandatoryMinimumCommon_def dest: num_at_least_max)
  moreover from assms(1) ci c have "20 \<le> js_percent identical common"
    by (auto simp: fingerprintMatches_def mandatoryMinimumIdenticalPercent_def dest: num_at_least_max)
  then have "common \<le> 5 * identical"
    by (rule js_percent_at_least_20) (use c bound assms(2) in auto)
  ultimately show ?thesis using bound by (simp add: ci)
qed

theorem fingerprint_thresholds_witness:
  "case commonTimestamps (read_fingerprint (exampleFingerprint 200)) (read_fingerprint (exampleFingerprint 200)) 0 0 of
     (common, identical) \<Rightarrow> 200 \<le> common \<and> common \<le> 5 * identical \<and> identical \<le> common \<and>
       common \<le> length (read_fingerprint (exampleFingerprint 200))"
  by (rule fingerprint_thresholds [OF exampleFingerprint_matches]) (simp add: exampleFingerprint_def)

end
