(* ===== verification/Connections.thy ===== *)
theory Connections
  imports CharacterKey
begin

section \<open>Character connections\<close>

text \<open>
  \<open>packages/domain/src/character-connections.ts\<close>: which discovery runs may retract
  earlier links, the connected components of the link graph (a union-find with path
  compression over a \<^verbatim>\<open>Map\<close>), and which existing group each recomputed component
  keeps.
\<close>

subsection \<open>Families, error codes and retraction decisions\<close>

datatype connectionFamily = Raiderio_family | Fingerprint_family

definition CHARACTER_CONNECTION_ERROR_CODES :: "string list" where
  "CHARACTER_CONNECTION_ERROR_CODES =
     [''character_connections_run_missing'', ''character_connections_run_root_mismatch'',
      ''character_connections_observer_missing'', ''character_connections_family_mismatch'']"

text \<open>A thrown value: not an \<^verbatim>\<open>Error\<close>, or one with its \<open>code\<close> property and message.\<close>

datatype thrownValue = Not_an_error | Error_value jsval string

definition sqlStatePattern :: "string \<Rightarrow> bool" where
  \<comment> \<open>\<open>/^[0-9A-Z]{5}$/\<close>\<close>
  "sqlStatePattern s \<longleftrightarrow>
     length s = 5 \<and> list_all (\<lambda>c. ascii_digit c \<or> CHR ''A'' \<le> c \<and> c \<le> CHR ''Z'') s"

fun characterGroupsErrorCode :: "thrownValue \<Rightarrow> string option" where
  "characterGroupsErrorCode Not_an_error = None"
| "characterGroupsErrorCode (Error_value code message) =
     (if is_string code \<and> sqlStatePattern (as_string code) then Some (as_string code)
      else if message \<in> set CHARACTER_CONNECTION_ERROR_CODES then Some message
      else None)"

datatype ledgerReason =
    Raiderio_complete | Raiderio_limited | Reason_privacy_hidden | Reason_capped | Reason_matched
  | Reason_unread | Skipped_guild | Live_sweep_completion | Blocked_by_newer | Backfill | Rebuild

datatype familyVerdict = Added_only | Replaced

record familyDecision =
  fd_decision :: familyVerdict
  fd_reason :: ledgerReason

fun familyOf :: "discoverySource \<Rightarrow> connectionFamily" where
  "familyOf Fingerprint_source = Fingerprint_family"
| "familyOf _ = Raiderio_family"

definition raiderIoDecision :: "string option \<Rightarrow> familyDecision" where
  "raiderIoDecision limitationCode =
     (if limitationCode = None then \<lparr>fd_decision = Replaced, fd_reason = Raiderio_complete\<rparr>
      else if limitationCode = Some ''privacy_hidden''
        then \<lparr>fd_decision = Added_only, fd_reason = Reason_privacy_hidden\<rparr>
      else \<lparr>fd_decision = Added_only, fd_reason = Raiderio_limited\<rparr>)"

datatype sweepKind = Matched_kind | Capped_kind

record sweepFacts =
  sf_kind :: sweepKind
  sf_unreadRoot :: bool
  sf_skippedHistoricalGuilds :: nat

definition fingerprintDecision :: "sweepFacts \<Rightarrow> familyDecision" where
  "fingerprintDecision sweep =
     (if sf_skippedHistoricalGuilds sweep > 0
        then \<lparr>fd_decision = Added_only, fd_reason = Skipped_guild\<rparr>
      else if sf_kind sweep = Capped_kind
        then \<lparr>fd_decision = Added_only, fd_reason = Reason_capped\<rparr>
      else if sf_unreadRoot sweep then \<lparr>fd_decision = Added_only, fd_reason = Reason_unread\<rparr>
      else \<lparr>fd_decision = Replaced, fd_reason = Reason_matched\<rparr>)"

subsection \<open>Connected components\<close>

record link =
  link_a :: string
  link_b :: string

type_synonym parents = "(string, string) jsmap"

text \<open>
  The two loops of \<open>find\<close> follow the parent map, which a wrong map would make run
  forever: not returning is \<^term>\<open>None\<close>.
\<close>

partial_function (option) findRoot :: "parents \<Rightarrow> string \<Rightarrow> string option" where
  [code]: "findRoot parent rt =
     (case map_get parent rt of
        None \<Rightarrow> Some rt
      | Some next \<Rightarrow> if next = rt then Some rt else findRoot parent next)"

partial_function (option) compressPath :: "parents \<Rightarrow> string \<Rightarrow> string \<Rightarrow> parents option" where
  [code]: "compressPath parent cursor rt =
     (case map_get parent cursor of
        None \<Rightarrow> Some parent
      | Some next \<Rightarrow>
          if next = rt then Some parent
          else compressPath (map_set cursor rt parent) next rt)"

definition find_id :: "parents \<Rightarrow> string \<Rightarrow> (parents \<times> string) option" where
  "find_id parent i =
     (case findRoot parent i of
        None \<Rightarrow> None
      | Some rt \<Rightarrow> (case compressPath parent i rt of None \<Rightarrow> None | Some p \<Rightarrow> Some (p, rt)))"

definition ensure :: "string \<Rightarrow> parents \<Rightarrow> parents" where
  "ensure i parent = (if map_has parent i then parent else map_set i i parent)"

definition joinLink :: "link \<Rightarrow> parents \<Rightarrow> parents option" where
  "joinLink l parent =
     (case find_id (ensure (link_b l) (ensure (link_a l) parent)) (link_a l) of
        None \<Rightarrow> None
      | Some (p1, left) \<Rightarrow>
          (case find_id p1 (link_b l) of
             None \<Rightarrow> None
           | Some (p2, right) \<Rightarrow>
               Some (if left \<noteq> right
                     then map_set (if left < right then right else left)
                            (if left < right then left else right) p2
                     else p2)))"

fun joinLinks :: "link list \<Rightarrow> parents \<Rightarrow> parents option" where
  "joinLinks [] parent = Some parent"
| "joinLinks (l # ls) parent =
     (case joinLink l parent of None \<Rightarrow> None | Some p \<Rightarrow> joinLinks ls p)"

fun collectRoots ::
    "string list \<Rightarrow> parents \<Rightarrow> (string, string list) jsmap \<Rightarrow> (string, string list) jsmap option" where
  "collectRoots [] parent byRoot = Some byRoot"
| "collectRoots (i # ids) parent byRoot =
     (case find_id parent i of
        None \<Rightarrow> None
      | Some (p, rt) \<Rightarrow> collectRoots ids p (bucket_push rt i byRoot))"

fun compareHeads :: "string list \<Rightarrow> string list \<Rightarrow> int" where
  "compareHeads (l # ls) (r # rs) = (if l < r then - 1 else 1)"
| "compareHeads _ _ = 0"

definition components :: "string list \<Rightarrow> link list \<Rightarrow> string list list option" where
  "components nodes links =
     (case joinLinks links (fold ensure nodes []) of
        None \<Rightarrow> None
      | Some parent \<Rightarrow>
          (case collectRoots (map fst parent) parent [] of
             None \<Rightarrow> None
           | Some byRoot \<Rightarrow>
               Some (sort_by compareHeads (map (\<lambda>(rt, members). sort_by order_cmp members) byRoot))))"

subsection \<open>Keeping group ids\<close>

record existingGroup =
  eg_id :: string
  eg_createdAt :: int

record groupAssignment =
  ga_groupId :: "string option"
  ga_members :: "string list"

definition held :: "(string, string) jsmap \<Rightarrow> string \<Rightarrow> string list \<Rightarrow> string list" where
  "held membership groupId members = filter (\<lambda>i. map_get membership i = Some groupId) members"

text \<open>The best part so far is its index, its count and its lowest member.\<close>

fun heirLoop ::
    "(string, string) jsmap \<Rightarrow> string \<Rightarrow> string list list \<Rightarrow> nat \<Rightarrow> int \<times> int \<times> string \<Rightarrow> int \<times> int \<times> string" where
  "heirLoop membership groupId [] index b = b"
| "heirLoop membership groupId (members # rest) index (best, bestCount, bestLowest) =
     heirLoop membership groupId rest (Suc index)
       (case held membership groupId members of
          [] \<Rightarrow> (best, bestCount, bestLowest)
        | lowest # others \<Rightarrow>
            if int (length (lowest # others)) > bestCount \<or>
               int (length (lowest # others)) = bestCount \<and> lowest < bestLowest
            then (int index, int (length (lowest # others)), lowest)
            else (best, bestCount, bestLowest))"

definition heirFor :: "(string, string) jsmap \<Rightarrow> string list list \<Rightarrow> string \<Rightarrow> int" where
  "heirFor membership parts groupId = fst (heirLoop membership groupId parts 0 (- 1, - 1, []))"

definition groupIdsOf :: "(string, string) jsmap \<Rightarrow> string list list \<Rightarrow> string list" where
  \<comment> \<open>the set of the members' group ids, in order of first occurrence\<close>
  "groupIdsOf membership parts =
     keep_first (\<lambda>g. g) (List.map_filter (map_get membership) (concat parts)) []"

definition compareGroups :: "existingGroup \<Rightarrow> existingGroup \<Rightarrow> int" where
  "compareGroups left right =
     or_else (eg_createdAt left - eg_createdAt right) (if eg_id left < eg_id right then - 1 else 1)"

definition candidateGroups ::
    "(string, existingGroup) jsmap \<Rightarrow> (string \<times> int) list \<Rightarrow> nat \<Rightarrow> existingGroup list" where
  "candidateGroups groups heirOf index =
     sort_by compareGroups
       (List.map_filter (\<lambda>(groupId, heir). map_get groups groupId)
          (filter (\<lambda>(groupId, heir). heir = int index) heirOf))"

definition keptGroup :: "(string, existingGroup) jsmap \<Rightarrow> (string \<times> int) list \<Rightarrow> nat \<Rightarrow> string option" where
  "keptGroup groups heirOf index =
     (case candidateGroups groups heirOf index of [] \<Rightarrow> None | g # gs \<Rightarrow> Some (eg_id g))"

definition assignGroupIds ::
    "string list list \<Rightarrow> (string, string) jsmap \<Rightarrow> (string, existingGroup) jsmap \<Rightarrow>
     groupAssignment list \<times> string list" where
  "assignGroupIds parts membership groups =
     (let sorted = map (sort_by order_cmp) parts;
          heirOf = map (\<lambda>g. (g, heirFor membership sorted g)) (groupIdsOf membership sorted);
          keeps = map (keptGroup groups heirOf) [0 ..< length sorted];
          \<comment> \<open>an empty id is falsy and is not remembered as kept\<close>
          kept = filter (\<lambda>g. g \<noteq> []) (List.map_filter (\<lambda>g. g) keeps)
      in (map2 (\<lambda>g members. \<lparr>ga_groupId = g, ga_members = members\<rparr>) keeps sorted,
          sort_by order_cmp (filter (\<lambda>g. g \<notin> set kept) (map fst heirOf))))"

end
