(* ===== verification/ConnectionsCorrect.thy ===== *)
theory ConnectionsCorrect
  imports Connections
begin

section \<open>Correctness of character connections\<close>

text \<open>
  The union-find of \<open>components\<close> computes exactly the connected components of the link
  graph, and its loops return; the heirs chosen by \<open>assignGroupIds\<close> partition the old
  groups into those kept once and those deleted.
\<close>

subsection \<open>The parent map is a forest\<close>

text \<open>Every parent is a key and is not above its child, so every walk upwards ends.\<close>

definition forest :: "parents \<Rightarrow> bool" where
  "forest p \<longleftrightarrow> distinct (map fst p) \<and>
     (\<forall>k v. map_of p k = Some v \<longrightarrow> v \<le> k \<and> v \<in> dom (map_of p))"

definition below :: "parents \<Rightarrow> string \<Rightarrow> nat" where
  "below p x = card {k \<in> dom (map_of p). k < x}"

lemma below_less:
  assumes "y < x" and "y \<in> dom (map_of p)"
  shows "below p y < below p x"
  unfolding below_def
proof (rule psubset_card_mono)
  show "{k \<in> dom (map_of p). k < y} \<subset> {k \<in> dom (map_of p). k < x}"
    using assms less_trans by blast
  show "finite {k \<in> dom (map_of p). k < x}" by (simp add: finite_dom_map_of)
qed

lemma map_has_iff: "map_has p x \<longleftrightarrow> x \<in> dom (map_of p)"
  by (simp add: dom_map_of_conv_image_fst)

lemma forest_induct [consumes 1, case_names key]:
  assumes "forest p"
    and "\<And>x. (\<And>v. map_of p x = Some v \<Longrightarrow> v \<noteq> x \<Longrightarrow> P v) \<Longrightarrow> P x"
  shows "P x"
proof (induction x rule: measure_induct_rule [where f = "below p"])
  case (less x)
  show ?case
  proof (rule assms(2))
    fix v
    assume v: "map_of p x = Some v" "v \<noteq> x"
    with assms(1) have "v < x" "v \<in> dom (map_of p)" by (auto simp: forest_def order.not_eq_order_implies_strict)
    then show "P v" by (intro less below_less)
  qed
qed

text \<open>The root of an id; an id that is no key is its own root.\<close>

definition rep :: "parents \<Rightarrow> string \<Rightarrow> string" where
  "rep p x = the (findRoot p x)"

lemma findRoot_rep:
  assumes "forest p"
  shows "findRoot p x = Some (rep p x)"
proof -
  have "\<exists>r. findRoot p x = Some r"
    using assms by (induction x rule: forest_induct) (subst findRoot.simps, auto split: option.split)
  then show ?thesis by (auto simp: rep_def)
qed

lemma rep_simps:
  assumes "forest p"
  shows "map_of p x = None \<Longrightarrow> rep p x = x" "map_of p x = Some x \<Longrightarrow> rep p x = x"
    "map_of p x = Some v \<Longrightarrow> rep p x = rep p v"
proof -
  show "map_of p x = None \<Longrightarrow> rep p x = x" "map_of p x = Some x \<Longrightarrow> rep p x = x"
    by (simp_all add: rep_def findRoot.simps [of p x])
  show "map_of p x = Some v \<Longrightarrow> rep p x = rep p v"
    by (cases "v = x") (simp_all add: rep_def findRoot.simps [of p x])
qed

lemma rep_root:
  assumes "forest p" and "x \<in> dom (map_of p)"
  shows "map_of p (rep p x) = Some (rep p x)" "rep p x \<le> x"
proof -
  have "x \<in> dom (map_of p) \<longrightarrow> map_of p (rep p x) = Some (rep p x) \<and> rep p x \<le> x"
    using assms(1)
  proof (induction x rule: forest_induct)
    case (key x)
    show ?case
    proof
      assume x: "x \<in> dom (map_of p)"
      then obtain v where v: "map_of p x = Some v" by auto
      show "map_of p (rep p x) = Some (rep p x) \<and> rep p x \<le> x"
      proof (cases "v = x")
        case True
        with v show ?thesis by (simp add: rep_simps(2) [OF assms(1)])
      next
        case False
        with v assms(1) have "v \<in> dom (map_of p)" "v \<le> x" by (auto simp: forest_def)
        with key [OF v False] v show ?thesis by (auto simp: rep_simps(3) [OF assms(1)])
      qed
    qed
  qed
  with assms(2) show "map_of p (rep p x) = Some (rep p x)" "rep p x \<le> x" by auto
qed

lemma rep_idem: "forest p \<Longrightarrow> x \<in> dom (map_of p) \<Longrightarrow> rep p (rep p x) = rep p x"
  by (simp add: rep_simps(2) rep_root)

lemma rep_key: "forest p \<Longrightarrow> x \<in> dom (map_of p) \<Longrightarrow> rep p x \<in> dom (map_of p)"
  using rep_root(1) by (metis domI)

subsection \<open>Setting a parent\<close>

text \<open>Pointing a key at another that shares or takes over its root.\<close>

lemma forest_set:
  assumes "forest p" and "v \<le> k" and "v \<in> dom (map_of p)"
  shows "forest (map_set k v p)"
  using assms by (auto simp: forest_def distinct_update update_conv' split: if_splits)

lemma rep_compress:
  assumes "forest p" and "k \<in> dom (map_of p)"
  shows "forest (map_set k (rep p k) p)" "rep (map_set k (rep p k) p) x = rep p x"
proof -
  show f: "forest (map_set k (rep p k) p)"
    using assms by (intro forest_set rep_root rep_key)
  let ?p = "map_set k (rep p k) p"
  show "rep ?p x = rep p x"
    using f
  proof (induction x rule: forest_induct)
    case (key x)
    show ?case
    proof (cases "x = k")
      case True
      have "map_of ?p k = Some (rep p k)" by (simp add: update_conv')
      moreover have "rep ?p (rep p k) = rep p k"
      proof (cases "rep p k = k")
        case True
        then show ?thesis using \<open>map_of ?p k = Some (rep p k)\<close> f by (simp add: rep_simps(2))
      next
        case False
        with key [of "rep p k"] True \<open>map_of ?p k = Some (rep p k)\<close> show ?thesis
          using rep_idem [OF assms] by simp
      qed
      ultimately show ?thesis using True f by (simp add: rep_simps(3))
    next
      case False
      then have same: "map_of ?p x = map_of p x" by (simp add: update_conv')
      show ?thesis
      proof (cases "map_of p x")
        case None
        with same f assms(1) show ?thesis by (simp add: rep_simps(1))
      next
        case (Some v)
        with same key [of v] f assms(1) show ?thesis
          by (cases "v = x") (simp_all add: rep_simps(2,3))
      qed
    qed
  qed
qed

lemma rep_union:
  assumes "forest p" and "map_of p lo = Some lo" and "map_of p hi = Some hi" and "lo < hi"
  shows "forest (map_set hi lo p)"
    "rep (map_set hi lo p) x = (if rep p x = hi then lo else rep p x)"
proof -
  have key: "lo \<in> dom (map_of p)" using assms(2) by blast
  show f: "forest (map_set hi lo p)" using assms key by (intro forest_set) simp_all
  let ?p = "map_set hi lo p"
  have lo: "rep ?p lo = lo"
    using assms(2,4) f by (intro rep_simps(2)) (auto simp: update_conv')
  show "rep ?p x = (if rep p x = hi then lo else rep p x)"
    using f
  proof (induction x rule: forest_induct)
    case (key x)
    show ?case
    proof (cases "x = hi")
      case True
      then have "rep p x = hi" using assms by (simp add: rep_simps(2))
      with True lo f show ?thesis by (simp add: rep_simps(3) [OF f, of hi lo] update_conv')
    next
      case False
      then have same: "map_of ?p x = map_of p x" by (simp add: update_conv')
      show ?thesis
      proof (cases "map_of p x")
        case None
        with same f assms(1) False show ?thesis by (simp add: rep_simps(1))
      next
        case (Some v)
        with same key [of v] f assms(1) False show ?thesis
          by (cases "v = x") (simp_all add: rep_simps(2,3))
      qed
    qed
  qed
qed


subsection \<open>The operations of the union-find\<close>

definition same_forest :: "parents \<Rightarrow> parents \<Rightarrow> bool" where
  \<comment> \<open>the same keys in the same order, and the same roots\<close>
  "same_forest p p' \<longleftrightarrow> forest p' \<and> map fst p' = map fst p \<and> (\<forall>x. rep p' x = rep p x)"

lemma same_forest_dom: "same_forest p p' \<Longrightarrow> dom (map_of p') = dom (map_of p)"
  by (metis dom_map_of_conv_image_fst list.set_map same_forest_def)

lemma map_fst_update: "k \<in> dom (map_of p) \<Longrightarrow> map fst (map_set k v p) = map fst p"
  by (simp add: update_keys dom_map_of_conv_image_fst)

lemma below_same: "map fst p' = map fst p \<Longrightarrow> below p' x = below p x"
  unfolding below_def by (metis dom_map_of_conv_image_fst list.set_map)

lemma compressPath_spec:
  assumes "forest p" and "c \<in> dom (map_of p)"
  shows "\<exists>p'. compressPath p c (rep p c) = Some p' \<and> same_forest p p'"
  using assms
proof (induction "below p c" arbitrary: p c rule: less_induct)
  case less
  from less.prems(2) obtain v where v: "map_of p c = Some v" by blast
  have rv: "rep p v = rep p c" using v by (simp add: rep_simps(3) [OF less.prems(1)])
  show ?case
  proof (cases "v = rep p c")
    case True
    with v less.prems(1) show ?thesis
      by (subst compressPath.simps) (auto simp: same_forest_def)
  next
    case False
    let ?p = "map_set c (rep p c) p"
    from v less.prems(1) have vk: "v \<in> dom (map_of p)" "v \<le> c" by (auto simp: forest_def)
    have "v \<noteq> c" using False v less.prems(1) by (auto simp: rep_simps(2))
    with vk(2) have "v < c" by simp
    then have "below p v < below p c" using vk(1) by (rule below_less)
    moreover have keys: "map fst ?p = map fst p" by (rule map_fst_update [OF less.prems(2)])
    ultimately have small: "below ?p v < below p c" using below_same [OF keys] by simp
    have f: "forest ?p" and r: "\<And>x. rep ?p x = rep p x"
      using rep_compress [OF less.prems] by auto
    have "v \<in> dom (map_of ?p)" using vk by (simp add: update_conv')
    from less.hyps [OF small f this] obtain p' where
      next': "compressPath ?p v (rep p c) = Some p'" and same: "same_forest ?p p'"
      unfolding r rv by blast
    have "compressPath p c (rep p c) = Some p'"
      using v False next' by (simp add: compressPath.simps [of p c])
    moreover have "same_forest p p'" using same keys r by (simp add: same_forest_def)
    ultimately show ?thesis by blast
  qed
qed

lemma find_id_spec:
  assumes "forest p" and "i \<in> dom (map_of p)"
  shows "\<exists>p'. find_id p i = Some (p', rep p i) \<and> same_forest p p'"
  using compressPath_spec [OF assms] by (auto simp: find_id_def findRoot_rep [OF assms(1)])

lemma ensure_spec:
  assumes "forest p"
  shows "forest (ensure i p)" "rep (ensure i p) x = rep p x"
    "dom (map_of (ensure i p)) = insert i (dom (map_of p))"
proof -
  show dom: "dom (map_of (ensure i p)) = insert i (dom (map_of p))"
    by (auto simp: ensure_def update_conv' map_has_iff [unfolded set_map] simp del: map_of_eq_None_iff)
  have "forest (map_set i i p)"
    using assms by (auto simp: forest_def distinct_update update_conv' simp del: map_of_eq_Some_iff)
  with assms show f: "forest (ensure i p)" by (simp add: ensure_def)
  have step: "map_of (ensure i p) y = map_of p y \<or>
      map_of p y = None \<and> map_of (ensure i p) y = Some y" for y
    using map_of_eq_None_iff [of p i] by (auto simp: ensure_def update_conv')
  show "rep (ensure i p) x = rep p x"
    using f
  proof (induction x rule: forest_induct)
    case (key x)
    show ?case
    proof (cases "map_of p x")
      case None
      with step [of x] f assms show ?thesis by (auto simp: rep_simps(1,2))
    next
      case (Some v)
      with step [of x] key [of v] f assms show ?thesis
        by (cases "v = x") (simp_all add: rep_simps(2,3))
    qed
  qed
qed

subsection \<open>Links and connection\<close>

definition linkPairs :: "link list \<Rightarrow> (string \<times> string) set" where
  "linkPairs links = {(link_a l, link_b l) | l. l \<in> set links} \<union> {(link_b l, link_a l) | l. l \<in> set links}"

definition connected :: "link list \<Rightarrow> string \<Rightarrow> string \<Rightarrow> bool" where
  "connected links x y \<longleftrightarrow> (x, y) \<in> (linkPairs links)\<^sup>*"

lemma linkPairs_snoc:
  "linkPairs (ls @ [l]) = insert (link_a l, link_b l) (insert (link_b l, link_a l) (linkPairs ls))"
  by (auto simp: linkPairs_def)

lemma connected_snoc:
  "connected (ls @ [l]) x y \<longleftrightarrow> connected ls x y \<or>
     connected ls x (link_a l) \<and> connected ls (link_b l) y \<or>
     connected ls x (link_b l) \<and> connected ls (link_a l) y"
  unfolding connected_def linkPairs_snoc rtrancl_insert
  by (auto intro: rtrancl_trans)

text \<open>What the forest means after some links: two ids share a root when they are connected.\<close>

definition represents :: "parents \<Rightarrow> link list \<Rightarrow> bool" where
  "represents p ls \<longleftrightarrow> forest p \<and> (\<forall>x y. rep p x = rep p y \<longleftrightarrow> connected ls x y)"

lemma joinLink_spec:
  assumes "represents p ls"
  shows "\<exists>p'. joinLink l p = Some p' \<and> represents p' (ls @ [l]) \<and>
    dom (map_of p') = insert (link_a l) (insert (link_b l) (dom (map_of p)))"
proof -
  let ?p = "ensure (link_b l) (ensure (link_a l) p)"
  let ?a = "rep p (link_a l)" and ?b = "rep p (link_b l)"
  from assms have f: "forest p" and con: "\<And>x y. rep p x = rep p y \<longleftrightarrow> connected ls x y"
    by (auto simp: represents_def)
  note e = ensure_spec [OF ensure_spec(1) [OF f]] ensure_spec [OF f]
  obtain p1 where p1: "find_id ?p (link_a l) = Some (p1, ?a)" "same_forest ?p p1"
    using find_id_spec [OF e(1), of "link_a l" "link_b l" "link_a l"] by (auto simp: e)
  then have f1: "forest p1" and r1: "\<And>x. rep p1 x = rep p x" by (simp_all add: same_forest_def e)
  have d1: "dom (map_of p1) = dom (map_of ?p)" by (rule same_forest_dom [OF p1(2)])
  obtain p2 where p2: "find_id p1 (link_b l) = Some (p2, ?b)" "same_forest p1 p2"
    using find_id_spec [OF f1, of "link_b l"] by (auto simp: e r1 d1)
  then have f2: "forest p2" and r2: "\<And>x. rep p2 x = rep p x" by (simp_all add: same_forest_def r1)
  have d2: "dom (map_of p2) = dom (map_of ?p)" using same_forest_dom [OF p2(2)] d1 by simp
  have keys: "link_a l \<in> dom (map_of p2)" "link_b l \<in> dom (map_of p2)" by (simp_all add: d2 e)
  have roots: "map_of p2 ?a = Some ?a" "map_of p2 ?b = Some ?b"
    using rep_root(1) [OF f2 keys(1)] rep_root(1) [OF f2 keys(2)] by (simp_all add: r2)
  show ?thesis
  proof (cases "?a = ?b")
    case True
    with p1 p2 have "joinLink l p = Some p2" by (simp add: joinLink_def)
    moreover have "represents p2 (ls @ [l])"
      using f2 True by (auto simp: represents_def r2 connected_snoc con [symmetric])
    ultimately show ?thesis by (auto simp: d2 e)
  next
    case False
    define lo hi where "lo = (if ?a < ?b then ?a else ?b)" and "hi = (if ?a < ?b then ?b else ?a)"
    have lohi: "lo < hi" "map_of p2 lo = Some lo" "map_of p2 hi = Some hi"
      using False roots by (auto simp: lo_def hi_def)
    note u = rep_union [OF f2 lohi(2,3,1)]
    have "joinLink l p = Some (map_set hi lo p2)"
      using p1 p2 False by (auto simp: joinLink_def lo_def hi_def)
    moreover have "lo = ?a \<and> hi = ?b \<or> lo = ?b \<and> hi = ?a" by (simp add: lo_def hi_def)
    then have "represents (map_set hi lo p2) (ls @ [l])"
      using u(1) lohi(1) by (auto simp: represents_def u(2) r2 connected_snoc con [symmetric])
    moreover have "dom (map_of (map_set hi lo p2)) = dom (map_of p2)"
      using lohi(3) by (auto simp: update_conv')
    ultimately show ?thesis by (auto simp: d2 e)
  qed
qed

definition endpoints :: "link list \<Rightarrow> string set" where
  "endpoints ls = link_a ` set ls \<union> link_b ` set ls"

lemma joinLinks_spec:
  "represents p done' \<Longrightarrow> \<exists>p'. joinLinks ls p = Some p' \<and> represents p' (done' @ ls) \<and>
     dom (map_of p') = dom (map_of p) \<union> endpoints ls"
proof (induction ls arbitrary: p done')
  case Nil
  then show ?case by (simp add: endpoints_def)
next
  case (Cons l ls)
  from joinLink_spec [OF Cons.prems, of l] obtain p1 where
    p1: "joinLink l p = Some p1" "represents p1 (done' @ [l])"
      "dom (map_of p1) = insert (link_a l) (insert (link_b l) (dom (map_of p)))" by blast
  from Cons.IH [OF p1(2)] p1 show ?case by (auto simp: endpoints_def)
qed


subsection \<open>Sorting with comparators that never return zero\<close>

text \<open>
  The sources sort by \<open>left < right ? -1 : 1\<close>, which is inconsistent on equal elements
  only: on a list without repetitions it sorts as the lawful comparator does.
\<close>

lemma sorted_sort_by_order: "sorted (sort_by order_cmp (xs :: 'a :: linorder list))"
  using js_comparator.sorted_sort_by [OF js_comparator_order_cmp, of xs] by simp

lemma compareHeads_sorts:
  assumes "distinct (map hd xs)" and "\<And>x. x \<in> set xs \<Longrightarrow> x \<noteq> []"
  shows "sorted (map hd (sort_by compareHeads xs))"
proof -
  have "sort_by compareHeads xs = sort_by (\<lambda>l r. order_cmp (hd l) (hd r)) xs"
  proof (rule sort_by_cong)
    show "distinct xs" using assms(1) by (rule distinct_map [THEN iffD1, THEN conjunct1])
    fix x y
    assume xy: "x \<in> set xs" "y \<in> set xs" "x \<noteq> y"
    then have "hd x \<noteq> hd y" using assms(1) by (auto simp: distinct_map inj_on_def)
    moreover from assms(2) xy obtain a as b bs where "x = a # as" "y = b # bs"
      by (meson neq_Nil_conv)
    ultimately show "compareHeads x y \<le> 0 \<longleftrightarrow> order_cmp (hd x) (hd y) \<le> 0"
      by auto
  qed
  then show ?thesis
    using js_comparator.sorted_sort_by [OF js_comparator_pullback [OF js_comparator_order_cmp, of hd], of xs]
    by (simp add: sorted_map)
qed

subsection \<open>The components are exactly the connected classes\<close>

lemma collectRoots_spec:
  "forest p \<Longrightarrow> set ids \<subseteq> dom (map_of p) \<Longrightarrow>
     collectRoots ids p byRoot = Some (group_by (rep p) ids byRoot)"
proof (induction ids arbitrary: p byRoot)
  case (Cons i ids)
  from find_id_spec [OF Cons.prems(1), of i] Cons.prems(2) obtain p' where
    p': "find_id p i = Some (p', rep p i)" "same_forest p p'" by auto
  then have "rep p' = rep p" "forest p'" by (auto simp: same_forest_def)
  with p' same_forest_dom [OF p'(2)] Cons show ?case by simp
qed simp

lemma fold_ensure: "represents (fold ensure nodes p) [] \<and> dom (map_of (fold ensure nodes p)) = set nodes \<union> dom (map_of p)"
  if "represents p []" for p
  using that
proof (induction nodes arbitrary: p)
  case (Cons n nodes)
  then have "represents (ensure n p) []" by (simp add: represents_def ensure_spec)
  from Cons.IH [OF this] Cons.prems show ?case by (auto simp: represents_def ensure_spec)
qed simp

lemma represents_empty: "represents [] []"
  by (auto simp: represents_def forest_def connected_def linkPairs_def rep_def findRoot.simps)

lemma group_by_cover: "\<Union> (set ` snd ` set (group_by f xs [])) = set xs"
proof
  show "\<Union> (set ` snd ` set (group_by f xs [])) \<subseteq> set xs"
    using group_by_bucket(1) by fastforce
  show "set xs \<subseteq> \<Union> (set ` snd ` set (group_by f xs []))"
  proof
    fix x
    assume x: "x \<in> set xs"
    then have "map_of (group_by f xs []) (f x) = Some (filter (\<lambda>y. f y = f x) xs)"
      by (auto simp: map_of_group_by filter_empty_conv split: list.split)
    then have "(f x, filter (\<lambda>y. f y = f x) xs) \<in> set (group_by f xs [])" by (rule map_of_SomeD)
    with x show "x \<in> \<Union> (set ` snd ` set (group_by f xs []))" by force
  qed
qed

definition is_partition :: "string list list \<Rightarrow> string set \<Rightarrow> bool" where
  "is_partition parts ids \<longleftrightarrow> distinct (concat parts) \<and> set (concat parts) = ids"

lemma components_parts:
  assumes "represents p links" and "distinct (map fst p)"
  defines "parts \<equiv> map (\<lambda>(rt, members). sort_by order_cmp members) (group_by (rep p) (map fst p) [])"
  shows "is_partition parts (dom (map_of p))" "part \<in> set parts \<Longrightarrow> part \<noteq> [] \<and> sorted part"
    "part \<in> set parts \<Longrightarrow> x \<in> set part \<Longrightarrow> set part = {y \<in> dom (map_of p). connected links x y}"
    "distinct (map hd parts)"
proof -
  let ?g = "group_by (rep p) (map fst p) []"
  have keys: "distinct (map fst ?g)" by simp
  have bucket: "b = filter (\<lambda>x. rep p x = r) (map fst p)" "b \<noteq> []" if "(r, b) \<in> set ?g" for r b
    using group_by_bucket [OF that] by auto
  show ne: "part \<noteq> [] \<and> sorted part" if "part \<in> set parts" for part
    using that bucket(2) by (auto simp: parts_def sorted_sort_by_order)
  show "set part = {y \<in> dom (map_of p). connected links x y}" if part: "part \<in> set parts" "x \<in> set part"
  proof -
    from part(1) obtain r b where b: "(r, b) \<in> set ?g" "part = sort_by order_cmp b"
      by (auto simp: parts_def)
    from b bucket(1) [OF b(1)] have set: "set part = {y \<in> dom (map_of p). rep p y = r}"
      unfolding dom_map_of_conv_image_fst by auto
    with part(2) have "r = rep p x" by simp
    moreover have "rep p y = rep p x \<longleftrightarrow> connected links x y" for y
      using assms(1) unfolding represents_def by metis
    ultimately show ?thesis using set by simp
  qed
  have disj: "set (sort_by order_cmp b) \<inter> set (sort_by order_cmp b') = {}"
    if "(r, b) \<in> set ?g" "(r', b') \<in> set ?g" "r \<noteq> r'" for r b r' b'
    using bucket(1) [OF that(1)] bucket(1) [OF that(2)] that(3) by auto
  have inj: "inj_on (\<lambda>(rt, members). sort_by order_cmp members) (set ?g)"
  proof (rule inj_onI)
    fix u v
    assume u: "u \<in> set ?g" and v: "v \<in> set ?g"
      and eq: "(\<lambda>(rt, members). sort_by order_cmp members) u = (\<lambda>(rt, members). sort_by order_cmp members) v"
    obtain r b r' b' where uv: "u = (r, b)" "v = (r', b')" by fastforce
    from eq uv have "set b = set b'" by (metis (no_types) case_prod_conv set_sort_by)
    moreover have b: "b = filter (\<lambda>x. rep p x = r) (map fst p)" "b \<noteq> []"
      "b' = filter (\<lambda>x. rep p x = r') (map fst p)"
      using bucket [of r b] bucket [of r' b'] u v uv by auto
    have "hd b \<in> set b" using b(2) by (rule hd_in_set)
    moreover have "\<And>z. z \<in> set b \<Longrightarrow> rep p z = r" "\<And>z. z \<in> set b' \<Longrightarrow> rep p z = r'"
      unfolding b(1,3) by auto
    ultimately have "r = r'" by metis
    with b(1,3) uv show "u = v" by simp
  qed
  have dparts: "distinct parts"
    unfolding parts_def using inj keys by (auto simp: distinct_map)
  have "distinct part" if "part \<in> set parts" for part
    using that assms(2) by (auto simp: parts_def) (metis bucket(1) distinct_filter)
  moreover have dj: "set a \<inter> set b = {}" if "a \<in> set parts" "b \<in> set parts" "a \<noteq> b" for a b
  proof -
    from that obtain r c r' d where g: "(r, c) \<in> set ?g" "(r', d) \<in> set ?g"
      "a = sort_by order_cmp c" "b = sort_by order_cmp d" by (auto simp: parts_def)
    with that(3) bucket(1) have "r \<noteq> r'" by metis
    with disj [OF g(1,2)] g(3,4) show ?thesis by simp
  qed
  moreover have "set (concat parts) = \<Union> (set ` snd ` set ?g)"
    by (simp add: parts_def case_prod_beta image_image)
  then have "set (concat parts) = dom (map_of p)"
    unfolding group_by_cover by (simp add: dom_map_of_conv_image_fst)
  ultimately show "is_partition parts (dom (map_of p))"
    unfolding is_partition_def using dparts by (intro conjI distinct_concat) auto
  show "distinct (map hd parts)"
    using dparts dj ne by (auto simp: distinct_map inj_on_def) (metis IntI empty_iff list.set_sel(1))
qed


subsection \<open>Heirs of groups\<close>

definition heldCount :: "(string, string) jsmap \<Rightarrow> string \<Rightarrow> string list \<Rightarrow> nat" where
  "heldCount membership g members = length (held membership g members)"

text \<open>
  The loop ends with the best of its start and the parts that hold a member: most
  members first, and the lowest first member among those with as many.
\<close>

lemma heirLoop_best:
  assumes "heirLoop m g parts k (b, n, lo) = (b', n', lo')"
  shows "n \<le> n' \<and> (n' = n \<longrightarrow> lo' \<le> lo) \<and>
    (\<forall>j < length parts. held m g (parts ! j) \<noteq> [] \<longrightarrow>
       int (heldCount m g (parts ! j)) \<le> n' \<and>
       (int (heldCount m g (parts ! j)) = n' \<longrightarrow> lo' \<le> hd (held m g (parts ! j)))) \<and>
    ((b', n', lo') = (b, n, lo) \<or>
     (\<exists>j < length parts. b' = int (k + j) \<and> held m g (parts ! j) \<noteq> [] \<and>
        n' = int (heldCount m g (parts ! j)) \<and> lo' = hd (held m g (parts ! j))))"
  using assms
proof (induction parts arbitrary: k b n lo)
  case Nil
  then show ?case by simp
next
  case (Cons part parts)
  define st where "st = (case held m g part of [] \<Rightarrow> (b, n, lo)
     | lowest # others \<Rightarrow>
         if int (length (lowest # others)) > n \<or> int (length (lowest # others)) = n \<and> lowest < lo
         then (int k, int (length (lowest # others)), lowest) else (b, n, lo))"
  obtain b1 n1 lo1 where st1: "st = (b1, n1, lo1)" by (metis prod_cases3)
  have run: "heirLoop m g parts (Suc k) (b1, n1, lo1) = (b', n', lo')"
    using Cons.prems st1 unfolding st_def by simp
  have head: "n \<le> n1" "n1 = n \<Longrightarrow> lo1 \<le> lo"
    "held m g part \<noteq> [] \<Longrightarrow> int (heldCount m g part) \<le> n1 \<and>
       (int (heldCount m g part) = n1 \<longrightarrow> lo1 \<le> hd (held m g part))"
    "(b1, n1, lo1) = (b, n, lo) \<or> b1 = int k \<and> held m g part \<noteq> [] \<and>
       n1 = int (heldCount m g part) \<and> lo1 = hd (held m g part)"
    using st1 unfolding st_def heldCount_def
    by (auto split: list.splits if_splits)
  note ih = Cons.IH [OF run]
  have le: "n \<le> n' \<and> (n' = n \<longrightarrow> lo' \<le> lo)" using head(1,2) ih by force
  have all: "int (heldCount m g ((part # parts) ! j)) \<le> n' \<and>
      (int (heldCount m g ((part # parts) ! j)) = n' \<longrightarrow> lo' \<le> hd (held m g ((part # parts) ! j)))"
    if "j < length (part # parts)" "held m g ((part # parts) ! j) \<noteq> []" for j
  proof (cases j)
    case 0
    with that head(3) ih show ?thesis by force
  next
    case (Suc i)
    with that ih show ?thesis by simp
  qed
  have "(b', n', lo') = (b, n, lo) \<or>
     (\<exists>j < length (part # parts). b' = int (k + j) \<and> held m g ((part # parts) ! j) \<noteq> [] \<and>
        n' = int (heldCount m g ((part # parts) ! j)) \<and> lo' = hd (held m g ((part # parts) ! j)))"
  proof (cases "(b', n', lo') = (b1, n1, lo1)")
    case True
    with head(4) show ?thesis by (auto intro!: exI [of _ 0])
  next
    case False
    with ih obtain j where "j < length parts" "b' = int (Suc k + j)" "held m g (parts ! j) \<noteq> []"
      "n' = int (heldCount m g (parts ! j))" "lo' = hd (held m g (parts ! j))" by blast
    then show ?thesis by (intro disjI2 exI [of _ "Suc j"]) simp
  qed
  with le all show ?case by blast
qed

text \<open>The heir of a group with members among the parts.\<close>

definition is_heir :: "(string, string) jsmap \<Rightarrow> string list list \<Rightarrow> string \<Rightarrow> nat \<Rightarrow> bool" where
  "is_heir m parts g i \<longleftrightarrow> i < length parts \<and> held m g (parts ! i) \<noteq> [] \<and>
     (\<forall>j < length parts. heldCount m g (parts ! j) < heldCount m g (parts ! i) \<or>
        heldCount m g (parts ! j) = heldCount m g (parts ! i) \<and>
        hd (held m g (parts ! i)) \<le> hd (held m g (parts ! j)))"

lemma map_filter_ident: "List.map_filter f xs = List.map_filter (\<lambda>g. g) (map f xs)"
  by (induction xs) (simp_all add: map_filter_simps split: option.split)

lemma set_groupIdsOf:
  "g \<in> set (groupIdsOf m parts) \<longleftrightarrow> (\<exists>x \<in> set (concat parts). map_of m x = Some g)"
  using ident_keep_first [of "\<lambda>g. g" "List.map_filter (map_of m) (concat parts)" "[]"]
  by (simp add: groupIdsOf_def set_map_filter_eq del: set_concat)

lemma distinct_groupIdsOf: "distinct (groupIdsOf m parts)"
  using distinct_keep_first [of "\<lambda>g. g"] by (simp add: groupIdsOf_def)

lemma heirFor_is_heir:
  assumes "g \<in> set (groupIdsOf m parts)"
  shows "\<exists>i. heirFor m parts g = int i \<and> is_heir m parts g i"
proof -
  obtain b n lo where run: "heirLoop m g parts 0 (- 1, - 1, []) = (b, n, lo)" by (metis prod_cases3)
  note best = heirLoop_best [OF run]
  from assms have "\<exists>x \<in> set (concat parts). map_of m x = Some g"
    by (simp only: set_groupIdsOf)
  then obtain j where j: "j < length parts" "held m g (parts ! j) \<noteq> []"
    by (auto simp: held_def filter_empty_conv) (metis in_set_conv_nth)
  then have "n \<noteq> - 1" using best by (auto simp: heldCount_def)
  with best obtain i where i: "i < length parts" "b = int i" "held m g (parts ! i) \<noteq> []"
    "n = int (heldCount m g (parts ! i))" "lo = hd (held m g (parts ! i))" by auto
  have "heldCount m g (parts ! j) < heldCount m g (parts ! i) \<or>
      heldCount m g (parts ! j) = heldCount m g (parts ! i) \<and>
      hd (held m g (parts ! i)) \<le> hd (held m g (parts ! j))" if "j < length parts" for j
  proof (cases "held m g (parts ! j) = []")
    case True
    then have "heldCount m g (parts ! j) = 0" by (simp add: heldCount_def)
    moreover have "0 < heldCount m g (parts ! i)" using i by (simp add: heldCount_def)
    ultimately show ?thesis by simp
  next
    case False
    with best that i show ?thesis by fastforce
  qed
  with i run show ?thesis by (auto simp: is_heir_def heirFor_def)
qed


text \<open>What a component keeps: the oldest of the known groups it is heir to.\<close>

definition keyed_groups :: "(string, existingGroup) jsmap \<Rightarrow> bool" where
  \<comment> \<open>the map from ids to groups holds each group under its own id\<close>
  "keyed_groups groups \<longleftrightarrow> (\<forall>g e. map_of groups g = Some e \<longrightarrow> eg_id e = g \<and> g \<noteq> [])"

definition lawful_cmp :: "existingGroup \<Rightarrow> existingGroup \<Rightarrow> int" where
  "lawful_cmp left right = or_else (eg_createdAt left - eg_createdAt right) (order_cmp (eg_id left) (eg_id right))"

lemma lawful_cmp: "js_comparator lawful_cmp"
  unfolding lawful_cmp_def
  by (rule js_comparator_or_else [OF js_comparator_pullback [OF js_comparator_minus]
      js_comparator_pullback [OF js_comparator_order_cmp]])

definition inherited :: "(string, existingGroup) jsmap \<Rightarrow> (string \<times> int) list \<Rightarrow> nat \<Rightarrow> existingGroup list" where
  "inherited groups heirOf i = List.map_filter (\<lambda>(g, heir). map_of groups g) (filter (\<lambda>(g, heir). heir = int i) heirOf)"

lemma in_inherited:
  assumes "keyed_groups groups"
  shows "e \<in> set (inherited groups heirOf i) \<longleftrightarrow> (eg_id e, int i) \<in> set heirOf \<and> map_of groups (eg_id e) = Some e"
  using assms by (auto simp: keyed_groups_def inherited_def set_map_filter_eq)

lemma distinct_inherited:
  assumes "keyed_groups groups" and "distinct (map fst heirOf)"
  shows "distinct (map eg_id (inherited groups heirOf i))"
proof -
  have "distinct (map eg_id (List.map_filter (\<lambda>(g, heir). map_of groups g) xs)) \<and>
      eg_id ` set (List.map_filter (\<lambda>(g, heir). map_of groups g) xs) \<subseteq> fst ` set xs"
    if "distinct (map fst xs)" for xs :: "(string \<times> int) list"
    using that
  proof (induction xs)
    case (Cons x xs)
    obtain g h where x: "x = (g, h)" by fastforce
    with Cons assms(1) show ?case unfolding keyed_groups_def by (cases "map_of groups g") (auto simp: map_filter_simps)
  qed (simp add: map_filter_simps)
  moreover have "distinct (map fst (filter (\<lambda>(g, heir). heir = int i) heirOf))"
    using assms(2) by (rule distinct_map_filter)
  ultimately show ?thesis by (simp add: inherited_def)
qed

lemma candidateGroups_lawful:
  assumes "keyed_groups groups" and "distinct (map fst heirOf)"
  shows "candidateGroups groups heirOf i = sort_by lawful_cmp (inherited groups heirOf i)"
proof -
  have "sort_by compareGroups (inherited groups heirOf i) = sort_by lawful_cmp (inherited groups heirOf i)"
  proof (rule sort_by_cong)
    show "distinct (inherited groups heirOf i)"
      using distinct_inherited [OF assms] by (simp add: distinct_map)
    fix x y
    assume "x \<in> set (inherited groups heirOf i)" "y \<in> set (inherited groups heirOf i)" "x \<noteq> y"
    then have "eg_id x \<noteq> eg_id y"
      using distinct_inherited [OF assms, of i] by (auto simp: distinct_map inj_on_def)
    then show "compareGroups x y \<le> 0 \<longleftrightarrow> lawful_cmp x y \<le> 0"
      by (auto simp: compareGroups_def lawful_cmp_def or_else_def)
  qed
  then show ?thesis by (simp add: candidateGroups_def inherited_def)
qed

lemma keptGroup_spec:
  assumes "keyed_groups groups" and "distinct (map fst heirOf)"
  shows "keptGroup groups heirOf i = Some g \<longleftrightarrow>
    (\<exists>e. map_of groups g = Some e \<and> (g, int i) \<in> set heirOf \<and>
       (\<forall>e' \<in> set (inherited groups heirOf i). lawful_cmp e e' \<le> 0))"
proof
  assume "keptGroup groups heirOf i = Some g"
  then obtain e es where e: "sort_by lawful_cmp (inherited groups heirOf i) = e # es" "g = eg_id e"
    by (auto simp: keptGroup_def candidateGroups_lawful [OF assms] split: list.splits)
  then have "e \<in> set (inherited groups heirOf i)" by (metis list.set_intros(1) set_sort_by)
  moreover have "lawful_cmp e e' \<le> 0" if "e' \<in> set (inherited groups heirOf i)" for e'
    using js_comparator.hd_sort_by_least [OF lawful_cmp, of "inherited groups heirOf i" e'] that e
    by (cases "inherited groups heirOf i") auto
  ultimately show "\<exists>e. map_of groups g = Some e \<and> (g, int i) \<in> set heirOf \<and>
       (\<forall>e' \<in> set (inherited groups heirOf i). lawful_cmp e e' \<le> 0)"
    using e(2) by (auto simp: in_inherited [OF assms(1)] keyed_groups_def)
next
  assume "\<exists>e. map_of groups g = Some e \<and> (g, int i) \<in> set heirOf \<and>
       (\<forall>e' \<in> set (inherited groups heirOf i). lawful_cmp e e' \<le> 0)"
  then obtain e where e: "map_of groups g = Some e" "(g, int i) \<in> set heirOf"
    "\<And>e'. e' \<in> set (inherited groups heirOf i) \<Longrightarrow> lawful_cmp e e' \<le> 0" by blast
  with assms(1) have mem: "e \<in> set (inherited groups heirOf i)" "eg_id e = g" by (auto simp: in_inherited [OF assms(1)] keyed_groups_def)
  then obtain h hs where h: "sort_by lawful_cmp (inherited groups heirOf i) = h # hs"
    by (cases "sort_by lawful_cmp (inherited groups heirOf i)") auto
  have "h \<in> set (inherited groups heirOf i)" using h by (metis list.set_intros(1) set_sort_by)
  then have "lawful_cmp e h \<le> 0" by (rule e(3))
  moreover have "lawful_cmp h e \<le> 0"
    using js_comparator.hd_sort_by_least [OF lawful_cmp, of "inherited groups heirOf i" e] mem(1) h
    by (cases "inherited groups heirOf i") auto
  ultimately have "lawful_cmp e h = 0" using js_comparator.flip_le [OF lawful_cmp] by (metis order.antisym)
  then have "eg_id h = g" using mem by (simp add: lawful_cmp_def or_else_zero_iff)
  with h show "keptGroup groups heirOf i = Some g"
    by (simp add: keptGroup_def candidateGroups_lawful [OF assms])
qed

text \<open>The known groups a part is heir to, and the oldest of them, the lower id where two are as old.\<close>

definition known_heir ::
    "(string, existingGroup) jsmap \<Rightarrow> (string, string) jsmap \<Rightarrow> string list list \<Rightarrow> nat \<Rightarrow> string \<Rightarrow> existingGroup \<Rightarrow> bool" where
  "known_heir groups m parts i g e \<longleftrightarrow>
     g \<in> set (groupIdsOf m parts) \<and> heirFor m parts g = int i \<and> map_of groups g = Some e"

definition oldest_heir ::
    "(string, existingGroup) jsmap \<Rightarrow> (string, string) jsmap \<Rightarrow> string list list \<Rightarrow> nat \<Rightarrow> string \<Rightarrow> bool" where
  "oldest_heir groups m parts i g \<longleftrightarrow>
     (\<exists>e. known_heir groups m parts i g e \<and>
        (\<forall>g' e'. known_heir groups m parts i g' e' \<longrightarrow>
           eg_createdAt e < eg_createdAt e' \<or> eg_createdAt e = eg_createdAt e' \<and> g \<le> g'))"

lemma lawful_cmp_le:
  "lawful_cmp e e' \<le> 0 \<longleftrightarrow> eg_createdAt e < eg_createdAt e' \<or> eg_createdAt e = eg_createdAt e' \<and> eg_id e \<le> eg_id e'"
  by (auto simp: lawful_cmp_def or_else_def order_cmp_def)

lemma known_heir_id: "keyed_groups groups \<Longrightarrow> known_heir groups m parts i g e \<Longrightarrow> eg_id e = g"
  by (simp add: keyed_groups_def known_heir_def)

definition heirs :: "(string, string) jsmap \<Rightarrow> string list list \<Rightarrow> (string \<times> int) list" where
  "heirs m parts = map (\<lambda>g. (g, heirFor m parts g)) (groupIdsOf m parts)"

lemma heirs_keyed: "distinct (map fst (heirs m parts))"
  by (simp add: heirs_def comp_def distinct_groupIdsOf)

lemma in_heirs: "(g, int i) \<in> set (heirs m parts) \<longleftrightarrow> g \<in> set (groupIdsOf m parts) \<and> heirFor m parts g = int i"
  by (auto simp: heirs_def)

lemma inherited_known:
  "keyed_groups groups \<Longrightarrow> set (inherited groups (heirs m parts) i) = {e. known_heir groups m parts i (eg_id e) e}"
  by (auto simp: in_inherited known_heir_def in_heirs)

lemma keptGroup_oldest:
  assumes "keyed_groups groups"
  shows "keptGroup groups (heirs m parts) i = Some g \<longleftrightarrow> oldest_heir groups m parts i g"
proof -
  have "keptGroup groups (heirs m parts) i = Some g \<longleftrightarrow>
      (\<exists>e. known_heir groups m parts i g e \<and> (\<forall>e'. known_heir groups m parts i (eg_id e') e' \<longrightarrow> lawful_cmp e e' \<le> 0))"
    unfolding keptGroup_spec [OF assms heirs_keyed] inherited_known [OF assms] in_heirs known_heir_def [of _ _ _ _ g] by blast
  also have "\<dots> \<longleftrightarrow> oldest_heir groups m parts i g"
    unfolding oldest_heir_def lawful_cmp_le using known_heir_id [OF assms] by metis
  finally show ?thesis .
qed

lemma keptGroup_none:
  assumes "keyed_groups groups"
  shows "keptGroup groups (heirs m parts) i = None \<longleftrightarrow> (\<nexists>g e. known_heir groups m parts i g e)"
proof -
  have first: "(case es of [] \<Rightarrow> None | e # _ \<Rightarrow> Some (eg_id e)) = None \<longleftrightarrow> es = []" for es by (cases es) auto
  have "keptGroup groups (heirs m parts) i = None \<longleftrightarrow> sort_by lawful_cmp (inherited groups (heirs m parts) i) = []"
    unfolding keptGroup_def candidateGroups_lawful [OF assms heirs_keyed] first ..
  also have "\<dots> \<longleftrightarrow> set (inherited groups (heirs m parts) i) = {}" by (metis set_sort_by set_empty)
  also have "\<dots> \<longleftrightarrow> (\<nexists>g e. known_heir groups m parts i g e)"
    unfolding inherited_known [OF assms] using known_heir_id [OF assms] by blast
  finally show ?thesis .
qed

lemma mset_concat_sort_by: "mset (concat (sort_by c xss)) = mset (concat xss)"
  by (simp add: mset_concat mset_sort_by flip: sum_mset_sum_list)

subsection \<open>Properties\<close>

lemma components_spec:
  "\<exists>parts. components nodes links = Some parts \<and>
     is_partition parts (set nodes \<union> endpoints links) \<and> sorted (map hd parts) \<and>
     list_all (\<lambda>part. part \<noteq> [] \<and> sorted part \<and>
       set part = {y \<in> set nodes \<union> endpoints links. connected links (hd part) y}) parts"
proof -
  let ?p0 = "fold ensure nodes []"
  have p0: "represents ?p0 []" "dom (map_of ?p0) = set nodes"
    using fold_ensure [OF represents_empty] by auto
  from joinLinks_spec [OF p0(1), of links] obtain p where
    p: "joinLinks links ?p0 = Some p" "represents p links" "dom (map_of p) = set nodes \<union> endpoints links"
    by (auto simp: p0(2))
  have f: "forest p" and d: "distinct (map fst p)" using p(2) by (auto simp: represents_def forest_def)
  define parts where
    "parts = map (\<lambda>(rt, members). sort_by order_cmp members) (group_by (rep p) (map fst p) [])"
  note spec = components_parts [OF p(2) d, folded parts_def, unfolded p(3)]
  have "collectRoots (map fst p) p [] = Some (group_by (rep p) (map fst p) [])"
    by (rule collectRoots_spec [OF f]) (simp add: dom_map_of_conv_image_fst)
  then have run: "components nodes links = Some (sort_by compareHeads parts)"
    by (simp add: components_def p(1) parts_def)
  have "is_partition (sort_by compareHeads parts) (set nodes \<union> endpoints links)"
    using spec(1) mset_concat_sort_by [of compareHeads parts]
    unfolding is_partition_def by (metis mset_eq_imp_distinct_iff mset_eq_setD)
  moreover have "sorted (map hd (sort_by compareHeads parts))"
    using spec(2,4) by (intro compareHeads_sorts) auto
  ultimately show ?thesis
    using run spec(2) spec(3) [OF _ hd_in_set] by (auto simp: list_all_iff)
qed

text \<open>
  C9. The components of a link graph are computed for every input (no walk up the parent
  map runs forever), they partition the nodes and the ends of the links, each is the
  set of ids connected to its first, each is sorted, and the list is sorted by first id.
\<close>

theorem components_connected:
  "\<exists>parts. components nodes links = Some parts \<and>
     is_partition parts (set nodes \<union> endpoints links) \<and> sorted (map hd parts) \<and>
     list_all (\<lambda>part. part \<noteq> [] \<and> sorted part \<and>
       set part = {y \<in> set nodes \<union> endpoints links. connected links (hd part) y}) parts"
  by (rule components_spec)

lemma distinct_map_filter_kept:
  assumes "keyed_groups groups" and "distinct (map fst heirOf)" and "distinct is"
  shows "distinct (List.map_filter (keptGroup groups heirOf) is)"
  using assms(3)
proof (induction "is")
  case (Cons i "is")
  have "g \<notin> set (List.map_filter (keptGroup groups heirOf) is)" if "keptGroup groups heirOf i = Some g" for g
  proof
    assume "g \<in> set (List.map_filter (keptGroup groups heirOf) is)"
    then obtain j where "j \<in> set is" "keptGroup groups heirOf j = Some g"
      by (auto simp: set_map_filter_eq)
    with that have "(g, int i) \<in> set heirOf" "(g, int j) \<in> set heirOf"
      by (auto simp: keptGroup_spec [OF assms(1,2)])
    with assms(2) have "i = j" by (metis eq_key_imp_eq_value of_nat_eq_iff)
    with \<open>j \<in> set is\<close> Cons.prems show False by simp
  qed
  with Cons show ?case by (auto simp: map_filter_simps split: option.split)
qed (simp add: map_filter_simps)

text \<open>
  C10. Recomputed components take over the old groups of their members: the components
  keep their members, no group is kept twice, the kept and the deleted groups together
  are exactly the groups members had and none is both. Every old group has one heir, the
  component with most of its members (ties to the lowest member), and a component keeps
  exactly the oldest of the known groups it is heir to (ties to the lowest id), and
  is a new group only where it is heir to none.
\<close>

theorem assign_group_ids_sound:
  assumes "keyed_groups groups" and "assignGroupIds parts membership groups = (assignments, deleted)"
  defines "ordered \<equiv> map (sort_by order_cmp) parts"
  shows "map ga_members assignments = ordered \<and>
    distinct (List.map_filter ga_groupId assignments) \<and> sorted deleted \<and>
    set (List.map_filter ga_groupId assignments) \<union> set deleted = set (groupIdsOf membership ordered) \<and>
    set (List.map_filter ga_groupId assignments) \<inter> set deleted = {} \<and>
    (\<forall>g \<in> set (groupIdsOf membership ordered). \<exists>i. heirFor membership ordered g = int i \<and> is_heir membership ordered g i) \<and>
    (\<forall>i < length parts.
       (\<forall>g. ga_groupId (assignments ! i) = Some g \<longleftrightarrow> oldest_heir groups membership ordered i g) \<and>
       (ga_groupId (assignments ! i) = None \<longleftrightarrow> (\<nexists>g e. known_heir groups membership ordered i g e)))"
proof -
  define heirOf where "heirOf = heirs membership ordered"
  define keeps where "keeps = map (keptGroup groups heirOf) [0 ..< length ordered]"
  have dist: "distinct (map fst heirOf)" unfolding heirOf_def by (rule heirs_keyed)
  have len: "length keeps = length ordered" by (simp add: keeps_def)
  have asg: "assignments = map2 (\<lambda>g members. \<lparr>ga_groupId = g, ga_members = members\<rparr>) keeps ordered"
    and del: "deleted = sort_by order_cmp (filter (\<lambda>g. g \<notin> set (filter (\<lambda>g. g \<noteq> [])
        (List.map_filter (\<lambda>g. g) keeps))) (map fst heirOf))"
    using assms(2) by (simp_all add: assignGroupIds_def Let_def ordered_def heirOf_def heirs_def keeps_def)
  have ids: "map ga_groupId assignments = keeps"
    using len by (simp add: asg comp_def case_prod_beta map_fst_zip)
  have mems: "map ga_members assignments = ordered"
    using len by (simp add: asg comp_def case_prod_beta map_snd_zip)
  have kept: "List.map_filter ga_groupId assignments = List.map_filter (keptGroup groups heirOf) [0 ..< length ordered]"
    "List.map_filter (\<lambda>g. g) keeps = List.map_filter (keptGroup groups heirOf) [0 ..< length ordered]"
    using map_filter_ident [of ga_groupId assignments] map_filter_ident [of "keptGroup groups heirOf"]
    by (simp_all add: ids keeps_def)
  note spec = keptGroup_spec [OF assms(1) dist]
  have nonempty: "g \<noteq> []" "g \<in> set (groupIdsOf membership ordered)"
    if "g \<in> set (List.map_filter (keptGroup groups heirOf) [0 ..< length ordered])" for g
  proof -
    from that obtain i where "keptGroup groups heirOf i = Some g" by (auto simp: set_map_filter_eq)
    then obtain e where "map_of groups g = Some e" "(g, int i) \<in> set heirOf" by (auto simp: spec)
    then show "g \<noteq> []" "g \<in> set (groupIdsOf membership ordered)"
      using assms(1) by (auto simp: keyed_groups_def heirOf_def in_heirs)
  qed
  have deleted: "set deleted = set (groupIdsOf membership ordered) -
      set (List.map_filter (keptGroup groups heirOf) [0 ..< length ordered])"
    using nonempty(1) by (auto simp: del kept(2) heirOf_def heirs_def)
  have "(ga_groupId (assignments ! i) = Some g \<longleftrightarrow> oldest_heir groups membership ordered i g) \<and>
      (ga_groupId (assignments ! i) = None \<longleftrightarrow> (\<nexists>g e. known_heir groups membership ordered i g e))"
    if i: "i < length parts" for i g
  proof -
    have la: "length assignments = length parts" using mems by (metis length_map ordered_def)
    have "keeps ! i = ga_groupId (assignments ! i)" using i la unfolding ids [symmetric] by simp
    then have "ga_groupId (assignments ! i) = keptGroup groups heirOf i" using i by (simp add: keeps_def ordered_def)
    then show ?thesis
      using keptGroup_oldest [OF assms(1)] keptGroup_none [OF assms(1)] by (simp add: heirOf_def)
  qed
  moreover have "\<exists>i. heirFor membership ordered g = int i \<and> is_heir membership ordered g i"
    if "g \<in> set (groupIdsOf membership ordered)" for g
    using heirFor_is_heir [OF that] .
  moreover have "distinct (List.map_filter ga_groupId assignments)"
    unfolding kept(1) by (rule distinct_map_filter_kept [OF assms(1) dist]) simp
  ultimately show ?thesis
    using mems deleted nonempty(2) unfolding kept(1)
    by (auto simp: del sorted_sort_by_order)
qed


definition exampleGroups :: "(string, existingGroup) jsmap" where
  "exampleGroups = [(''g1'', \<lparr>eg_id = ''g1'', eg_createdAt = 20\<rparr>),
     (''g2'', \<lparr>eg_id = ''g2'', eg_createdAt = 10\<rparr>), (''g3'', \<lparr>eg_id = ''g3'', eg_createdAt = 5\<rparr>)]"

definition exampleMembership :: "(string, string) jsmap" where
  "exampleMembership = [(''a'', ''g1''), (''b'', ''g2''), (''c'', ''g1''), (''d'', ''g3''), (''e'', ''g3'')]"

lemma exampleGroups_keyed: "keyed_groups exampleGroups"
  by (auto simp: keyed_groups_def exampleGroups_def split: if_splits)

lemma exampleAssignment:
  "assignGroupIds [[''b'', ''a'', ''c''], [''e'', ''d''], [''f'']] exampleMembership exampleGroups =
     ([\<lparr>ga_groupId = Some ''g2'', ga_members = [''a'', ''b'', ''c'']\<rparr>,
       \<lparr>ga_groupId = Some ''g3'', ga_members = [''d'', ''e'']\<rparr>,
       \<lparr>ga_groupId = None, ga_members = [''f'']\<rparr>], [''g1''])"
  by code_simp

theorem assign_group_ids_sound_witness:
  "map ga_members (fst (assignGroupIds [[''b'', ''a'', ''c''], [''e'', ''d''], [''f'']] exampleMembership exampleGroups))
     = [[''a'', ''b'', ''c''], [''d'', ''e''], [''f'']] \<and>
   oldest_heir exampleGroups exampleMembership [[''a'', ''b'', ''c''], [''d'', ''e''], [''f'']] 0 ''g2'' \<and>
   known_heir exampleGroups exampleMembership [[''a'', ''b'', ''c''], [''d'', ''e''], [''f'']] 0 ''g1'' \<lparr>eg_id = ''g1'', eg_createdAt = 20\<rparr> \<and>
   \<not> (\<exists>g e. known_heir exampleGroups exampleMembership [[''a'', ''b'', ''c''], [''d'', ''e''], [''f'']] 2 g e)"
proof -
  let ?parts = "[[''a'', ''b'', ''c''], [''d'', ''e''], [''f'']]"
  have ord: "map (sort_by order_cmp) [[''b'', ''a'', ''c''], [''e'', ''d''], [''f'']] = ?parts" by code_simp
  have "''g1'' \<in> set (groupIdsOf exampleMembership ?parts) \<and> heirFor exampleMembership ?parts ''g1'' = int 0 \<and>
      map_of exampleGroups ''g1'' = Some \<lparr>eg_id = ''g1'', eg_createdAt = 20\<rparr>" by code_simp
  then have "known_heir exampleGroups exampleMembership ?parts 0 ''g1'' \<lparr>eg_id = ''g1'', eg_createdAt = 20\<rparr>"
    unfolding known_heir_def .
  moreover note sound = assign_group_ids_sound [OF exampleGroups_keyed exampleAssignment, unfolded ord]
  have "\<forall>i < 3. (\<forall>g. ga_groupId ([\<lparr>ga_groupId = Some ''g2'', ga_members = [''a'', ''b'', ''c'']\<rparr>,
       \<lparr>ga_groupId = Some ''g3'', ga_members = [''d'', ''e'']\<rparr>,
       \<lparr>ga_groupId = None, ga_members = [''f'']\<rparr>] ! i) = Some g \<longleftrightarrow> oldest_heir exampleGroups exampleMembership ?parts i g) \<and>
     (ga_groupId ([\<lparr>ga_groupId = Some ''g2'', ga_members = [''a'', ''b'', ''c'']\<rparr>,
       \<lparr>ga_groupId = Some ''g3'', ga_members = [''d'', ''e'']\<rparr>,
       \<lparr>ga_groupId = None, ga_members = [''f'']\<rparr>] ! i) = None \<longleftrightarrow> (\<nexists>g e. known_heir exampleGroups exampleMembership ?parts i g e))"
    using sound by simp
  from this [rule_format, of 0] this [rule_format, of 2]
  have "oldest_heir exampleGroups exampleMembership ?parts 0 ''g2''" "\<nexists>g e. known_heir exampleGroups exampleMembership ?parts 2 g e"
    by (simp, metis, simp)
  ultimately show ?thesis unfolding exampleAssignment by simp
qed

text \<open>
  A discovery run replaces the earlier links of a family only when it proves an
  absence: a Raider.IO discovery without any limitation, or a sweep that matched, read
  its root and skipped no guild; otherwise it only adds links.
\<close>

theorem retraction_needs_proof:
  "(fd_decision (raiderIoDecision limitation) = Replaced \<longleftrightarrow> limitation = None) \<and>
   (fd_decision (fingerprintDecision sweep) = Replaced \<longleftrightarrow>
      sf_kind sweep = Matched_kind \<and> \<not> sf_unreadRoot sweep \<and> sf_skippedHistoricalGuilds sweep = 0) \<and>
   (fd_reason (fingerprintDecision sweep) = Skipped_guild \<longleftrightarrow> 0 < sf_skippedHistoricalGuilds sweep)"
  by (cases "sf_kind sweep") (auto simp: raiderIoDecision_def fingerprintDecision_def)

end
