(* ===== verification/RaidCatalogue.thy ===== *)
theory RaidCatalogue
  imports CharacterKey
begin

section \<open>The raid catalogue\<close>

text \<open>
  \<open>packages/domain/src/raid-catalogue.ts\<close>, \<open>dungeon-catalogue.ts\<close> and
  \<open>kill-matching.ts\<close>: when each raid was current content, and which catalogued boss a
  kill, a wipe or a Raider.IO slug names. The two generated data files (the Journal
  catalogue and the Raider.IO schedule) and the dungeon list are parameters, one
  record; the tables curated in the source are transcribed.

  Strings hold code units below 256, so the classes \<^verbatim>\<open>[\u0300-\u036f]\<close> and the
  typographic apostrophe, which the slug rule removes, never occur in them.
\<close>

subsection \<open>Data\<close>

record raidCatalogueEncounter =
  re_raidId :: string
  re_raidName :: string
  re_bossId :: string
  re_bossName :: string
  re_bossOrder :: int
  re_isFinalBoss :: bool
  re_raiderIoBossSlug :: "string option"
  re_imageUrl :: "string option"

datatype raidContentWindowSource = Raiderio_raiding_static_data | Blizzard_release_dates

record raidCurrentContentWindow =
  rw_startsAt :: string
  rw_endsAt :: "string option"
  rw_source :: raidContentWindowSource

record journalEncounter =
  je_journalBossId :: string
  je_bossName :: string
  je_bossOrder :: int
  je_imageUrl :: "string option"

record journalRaid =
  jr_journalRaidId :: string
  jr_raidName :: string
  jr_imageUrl :: "string option"
  jr_encounters :: "journalEncounter list"

text \<open>The generated files: Journal raids, schedule by Raider.IO slug, dungeon names.\<close>

record catalogueData =
  cat_raids :: "journalRaid list"
  cat_windows :: "(string, string \<times> string option) jsmap"
  cat_dungeons :: "string list"

definition raiderIoRaidSlugs :: "(string, string) jsmap" where
  "raiderIoRaidSlugs =
     [(''768'', ''the-emerald-nightmare''), (''786'', ''the-nighthold''),
      (''861'', ''trial-of-valor''), (''875'', ''tomb-of-sargeras''),
      (''946'', ''antorus-the-burning-throne''), (''1031'', ''uldir''),
      (''1176'', ''battle-of-dazaralor''), (''1177'', ''crucible-of-storms''),
      (''1179'', ''the-eternal-palace''), (''1180'', ''nyalotha-the-waking-city''),
      (''1190'', ''castle-nathria''), (''1193'', ''sanctum-of-domination''),
      (''1195'', ''sepulcher-of-the-first-ones''), (''1200'', ''vault-of-the-incarnates''),
      (''1207'', ''amirdrassil-the-dreams-hope''), (''1208'', ''aberrus-the-shadowed-crucible''),
      (''1273'', ''nerubar-palace''), (''1296'', ''liberation-of-undermine''),
      (''1302'', ''manaforge-omega''), (''1305'', ''sporefall''),
      (''1307'', ''tier-mn-1''), (''1308'', ''tier-mn-1''),
      (''1314'', ''tier-mn-1''), (''1317'', ''the-tidebound-grotto''),
      (''1320'', ''the-venomous-abyss'')]"

definition preLegionContentWindows :: "(string, raidCurrentContentWindow) jsmap" where
  "preLegionContentWindows =
     [(''369'', \<lparr>rw_startsAt = ''2013-09-10T00:00:00.000Z'', rw_endsAt = Some ''2014-12-02T00:00:00.000Z'',
        rw_source = Blizzard_release_dates\<rparr>),
      (''477'', \<lparr>rw_startsAt = ''2014-12-02T00:00:00.000Z'', rw_endsAt = Some ''2015-02-03T00:00:00.000Z'',
        rw_source = Blizzard_release_dates\<rparr>),
      (''457'', \<lparr>rw_startsAt = ''2015-02-03T00:00:00.000Z'', rw_endsAt = Some ''2015-06-23T00:00:00.000Z'',
        rw_source = Blizzard_release_dates\<rparr>),
      (''669'', \<lparr>rw_startsAt = ''2015-06-23T00:00:00.000Z'', rw_endsAt = Some ''2016-09-20T07:00:00.000Z'',
        rw_source = Blizzard_release_dates\<rparr>)]"

definition reviewedContentWindows :: "(string, raidCurrentContentWindow) jsmap" where
  "reviewedContentWindows =
     [(''1273'', \<lparr>rw_startsAt = ''2024-09-17T00:00:00.000Z'', rw_endsAt = Some ''2025-03-04T00:00:00.000Z'',
        rw_source = Raiderio_raiding_static_data\<rparr>),
      (''1296'', \<lparr>rw_startsAt = ''2025-03-04T00:00:00.000Z'', rw_endsAt = Some ''2025-08-12T00:00:00.000Z'',
        rw_source = Raiderio_raiding_static_data\<rparr>),
      (''1302'', \<lparr>rw_startsAt = ''2025-08-12T00:00:00.000Z'', rw_endsAt = Some ''2026-03-17T00:00:00.000Z'',
        rw_source = Raiderio_raiding_static_data\<rparr>),
      (''1305'', \<lparr>rw_startsAt = ''2026-05-20T00:00:00.000Z'', rw_endsAt = None,
        rw_source = Raiderio_raiding_static_data\<rparr>),
      (''1307'', \<lparr>rw_startsAt = ''2026-03-24T00:00:00.000Z'', rw_endsAt = None,
        rw_source = Raiderio_raiding_static_data\<rparr>),
      (''1308'', \<lparr>rw_startsAt = ''2026-03-31T00:00:00.000Z'', rw_endsAt = None,
        rw_source = Raiderio_raiding_static_data\<rparr>),
      (''1314'', \<lparr>rw_startsAt = ''2026-03-24T00:00:00.000Z'', rw_endsAt = None,
        rw_source = Raiderio_raiding_static_data\<rparr>),
      (''1317'', \<lparr>rw_startsAt = ''2026-08-19T00:00:00.000Z'', rw_endsAt = None,
        rw_source = Raiderio_raiding_static_data\<rparr>),
      (''1320'', \<lparr>rw_startsAt = ''2026-08-01T00:00:00.000Z'', rw_endsAt = None,
        rw_source = Raiderio_raiding_static_data\<rparr>)]"

definition canonicalTierOrdinals :: "(string, int) jsmap" where
  "canonicalTierOrdinals =
     [(''369'', 0), (''477'', 1), (''457'', 2), (''669'', 3), (''768'', 4), (''786'', 5),
      (''861'', 6), (''875'', 7), (''946'', 8), (''1031'', 9), (''1176'', 10), (''1177'', 11),
      (''1179'', 12), (''1180'', 13), (''1190'', 14), (''1193'', 15), (''1195'', 16), (''1200'', 17),
      (''1208'', 18), (''1207'', 19), (''1273'', 20), (''1296'', 21), (''1302'', 22), (''1305'', 23),
      (''1307'', 24), (''1308'', 25), (''1314'', 26), (''1317'', 27), (''1320'', 28)]"

definition raiderIoBossSlugOverrides :: "(string, string) jsmap" where
  "raiderIoBossSlugOverrides =
     [(''1738'', ''ilgynoth-the-heart-of-corruption''), (''2325'', ''grong''),
      (''2340'', ''grong''), (''2332'', ''uunat-harbinger-of-the-void''),
      (''2349'', ''zaqul''), (''2447'', ''fatescribe-rohkalo''),
      (''2459'', ''dausegne''), (''2461'', ''lihuvim''),
      (''2463'', ''halondrus''), (''2465'', ''skolex''),
      (''2499'', ''raszageth-the-stormeater''), (''2599'', ''sikran''),
      (''2644'', ''onearmed-bandit''), (''2691'', ''dimensius''),
      (''2736'', ''fallenking-salhadaar'')]"

definition warcraftLogsBossAliases :: "(string, string list) jsmap" where
  "warcraftLogsBossAliases =
     [(''2025'', [''The Defense of Eonar'']), (''2334'', [''Mekkatorque'']),
      (''2368'', [''Wrathion'']), (''2369'', [''Prophet Skitra'']),
      (''2644'', [''One-Armed Bandit''])]"

subsection \<open>Dates\<close>

text \<open>Comparisons of \<open>Date.parse\<close> results are false when either is \<open>NaN\<close>.\<close>

definition date_le :: "js_env \<Rightarrow> string \<Rightarrow> string \<Rightarrow> bool" where
  "date_le E a b = (case (dateParse E a, dateParse E b) of (Some x, Some y) \<Rightarrow> x \<le> y | _ \<Rightarrow> False)"

definition date_less :: "js_env \<Rightarrow> string \<Rightarrow> string \<Rightarrow> bool" where
  "date_less E a b = (case (dateParse E a, dateParse E b) of (Some x, Some y) \<Rightarrow> x < y | _ \<Rightarrow> False)"

definition date_difference :: "js_env \<Rightarrow> string \<Rightarrow> string \<Rightarrow> int" where
  \<comment> \<open>\<open>Date.parse(a) - Date.parse(b)\<close> as a sort key: \<open>NaN\<close> is falsy like zero\<close>
  "date_difference E a b = (case (dateParse E a, dateParse E b) of (Some x, Some y) \<Rightarrow> x - y | _ \<Rightarrow> 0)"

subsection \<open>Content windows\<close>

definition generatedContentWindows :: "catalogueData \<Rightarrow> (string, raidCurrentContentWindow) jsmap" where
  "generatedContentWindows K =
     map_from (List.map_filter
       (\<lambda>(journalRaidId, raiderIoRaidSlug).
          case map_get (cat_windows K) raiderIoRaidSlug of
            None \<Rightarrow> None
          | Some (startsAt, endsAt) \<Rightarrow>
              Some (journalRaidId, \<lparr>rw_startsAt = startsAt, rw_endsAt = endsAt,
                                    rw_source = Raiderio_raiding_static_data\<rparr>))
       raiderIoRaidSlugs)"

fun latestEnd :: "js_env \<Rightarrow> string list \<Rightarrow> string option" where
  \<comment> \<open>the \<open>reduce\<close> over the dated ends\<close>
  "latestEnd E [] = None"
| "latestEnd E (e # es) = Some (foldl (\<lambda>latest endsAt. if date_less E latest endsAt then endsAt else latest) e es)"

fun widestContentWindow ::
    "js_env \<Rightarrow> raidCurrentContentWindow option \<Rightarrow> raidCurrentContentWindow option \<Rightarrow>
     raidCurrentContentWindow option" where
  "widestContentWindow E None generated = generated"
| "widestContentWindow E (Some reviewed) None = Some reviewed"
| "widestContentWindow E (Some reviewed) (Some generated) =
     Some \<lparr>rw_startsAt =
            (if date_le E (rw_startsAt reviewed) (rw_startsAt generated)
             then rw_startsAt reviewed else rw_startsAt generated),
           rw_endsAt = latestEnd E (List.map_filter (\<lambda>e. e) [rw_endsAt reviewed, rw_endsAt generated]),
           rw_source = rw_source generated\<rparr>"

definition resolveContentWindow ::
    "js_env \<Rightarrow> catalogueData \<Rightarrow> string \<Rightarrow> raidCurrentContentWindow option" where
  "resolveContentWindow E K journalRaidId =
     (case map_get (generatedContentWindows K) journalRaidId of
        Some generated \<Rightarrow>
          widestContentWindow E (map_get reviewedContentWindows journalRaidId) (Some generated)
      | None \<Rightarrow>
          (case map_get preLegionContentWindows journalRaidId of
             Some window \<Rightarrow> Some window
           | None \<Rightarrow> map_get reviewedContentWindows journalRaidId))"

definition currentContentWindows ::
    "js_env \<Rightarrow> catalogueData \<Rightarrow> (string, raidCurrentContentWindow) jsmap" where
  "currentContentWindows E K =
     map_from (List.map_filter
       (\<lambda>journalRaidId. map_option (\<lambda>window. (journalRaidId, window)) (resolveContentWindow E K journalRaidId))
       (keep_first (\<lambda>i. i)
          (map fst preLegionContentWindows @ map fst reviewedContentWindows @
           map fst (generatedContentWindows K)) []))"

subsection \<open>Memoised functions\<close>

text \<open>
  \<open>boundedMemo\<close> wraps a pure function with a cache of at most 4096 entries, evicting the
  oldest key. The lemma below shows a call to be the call of the function, so the
  memoised functions are modelled as the functions.
\<close>

definition memo_limit :: nat where "memo_limit = 4096"

definition boundedMemo :: "(string \<Rightarrow> 'a) \<Rightarrow> string \<Rightarrow> (string, 'a) jsmap \<Rightarrow> 'a \<times> (string, 'a) jsmap" where
  "boundedMemo compute key cache =
     (case map_get cache key of
        Some value \<Rightarrow> (value, cache)
      | None \<Rightarrow>
          (let value = compute key;
               cache1 = (if memo_limit \<le> length cache then AList.delete (fst (hd cache)) cache else cache)
           in (value, map_set key value cache1)))"

definition normalizedName :: "js_env \<Rightarrow> string \<Rightarrow> string" where
  "normalizedName E value = toLower E (filter (isLetterOrNumber E) (nfkd E value))"

definition combinedMidnightZone :: "js_env \<Rightarrow> string" where
  "combinedMidnightZone E = normalizedName E ''VS / DR / MQD''"

subsection \<open>Encounters\<close>

definition orderedEncounters :: "journalRaid \<Rightarrow> journalEncounter list" where
  "orderedEncounters raid = sort_by (\<lambda>a b. je_bossOrder a - je_bossOrder b) (jr_encounters raid)"

fun raidCopies ::
    "js_env \<Rightarrow> journalEncounter list \<Rightarrow> (string, string) jsmap \<Rightarrow> (string \<times> string) list" where
  "raidCopies E [] firsts = []"
| "raidCopies E (encounter # rest) firsts =
     (let key = normalizedName E (je_bossName encounter)
      in case map_get firsts key of
           None \<Rightarrow> raidCopies E rest (map_set key (je_journalBossId encounter) firsts)
         | Some original \<Rightarrow> (je_journalBossId encounter, original) # raidCopies E rest firsts)"

definition factionCopies :: "js_env \<Rightarrow> catalogueData \<Rightarrow> (string, string) jsmap" where
  "factionCopies E K =
     map_from (concat (map (\<lambda>raid. raidCopies E (orderedEncounters raid) []) (cat_raids K)))"

definition encounterOf :: "journalRaid \<Rightarrow> journalEncounter \<Rightarrow> raidCatalogueEncounter" where
  "encounterOf raid encounter =
     \<lparr>re_raidId = jr_journalRaidId raid, re_raidName = jr_raidName raid,
      re_bossId = je_journalBossId encounter, re_bossName = je_bossName encounter,
      re_bossOrder = je_bossOrder encounter,
      re_isFinalBoss =
        (je_bossOrder encounter = fold max (map je_bossOrder (jr_encounters raid)) (je_bossOrder encounter)),
      re_raiderIoBossSlug = map_get raiderIoBossSlugOverrides (je_journalBossId encounter),
      re_imageUrl = je_imageUrl encounter\<rparr>"

definition encounters :: "js_env \<Rightarrow> catalogueData \<Rightarrow> (string, raidCatalogueEncounter) jsmap" where
  "encounters E K =
     map_from (concat (map (\<lambda>raid.
         map (\<lambda>encounter. (je_journalBossId encounter, encounterOf raid encounter))
           (filter (\<lambda>encounter. \<not> map_has (factionCopies E K) (je_journalBossId encounter))
              (jr_encounters raid)))
       (cat_raids K)))"

definition normalizedZoneName :: "js_env \<Rightarrow> string \<Rightarrow> string" where
  "normalizedZoneName E value = normalizedName E value"

text \<open>An index of names: a key named twice holds \<open>null\<close>, the inner \<^term>\<open>None\<close>.\<close>

definition index_add :: "string \<Rightarrow> 'a \<Rightarrow> (string, 'a option) jsmap \<Rightarrow> (string, 'a option) jsmap" where
  "index_add key value m = map_set key (if map_get m key = None then Some value else None) m"

definition unique_index :: "(string \<times> 'a) list \<Rightarrow> (string, 'a option) jsmap" where
  "unique_index entries = foldl (\<lambda>m (key, value). index_add key value m) [] entries"

definition bossNames :: "raidCatalogueEncounter \<Rightarrow> string list" where
  "bossNames encounter =
     re_bossName encounter #
       (case map_get warcraftLogsBossAliases (re_bossId encounter) of None \<Rightarrow> [] | Some names \<Rightarrow> names)"

definition namedEncounters :: "js_env \<Rightarrow> catalogueData \<Rightarrow> (raidCatalogueEncounter \<times> string) list" where
  "namedEncounters E K =
     concat (map (\<lambda>encounter. map (\<lambda>bossName. (encounter, bossName)) (bossNames encounter))
       (map snd (encounters E K)))"

definition raidBossKey :: "js_env \<Rightarrow> string \<Rightarrow> string \<Rightarrow> string" where
  "raidBossKey E raidName bossName = normalizedName E raidName @ [CHR 0x00] @ normalizedName E bossName"

definition encountersByName ::
    "js_env \<Rightarrow> catalogueData \<Rightarrow> (string, raidCatalogueEncounter option) jsmap" where
  "encountersByName E K =
     unique_index (map (\<lambda>(encounter, bossName).
       (raidBossKey E (re_raidName encounter) bossName, encounter)) (namedEncounters E K))"

definition encountersByBossName ::
    "js_env \<Rightarrow> catalogueData \<Rightarrow> (string, raidCatalogueEncounter option) jsmap" where
  "encountersByBossName E K =
     unique_index (map (\<lambda>(encounter, bossName). (normalizedName E bossName, encounter)) (namedEncounters E K))"

record raidCatalogueRaid =
  rr_raidId :: string
  rr_raidName :: string
  rr_imageUrl :: "string option"
  rr_tierOrdinal :: int
  rr_raiderIoRaidSlug :: "string option"

definition tierOrdinalOf :: "journalRaid \<Rightarrow> nat \<Rightarrow> int" where
  "tierOrdinalOf raid tierOrdinal =
     (case map_get canonicalTierOrdinals (jr_journalRaidId raid) of
        None \<Rightarrow> int tierOrdinal | Some n \<Rightarrow> n)"

definition raidsByName :: "js_env \<Rightarrow> catalogueData \<Rightarrow> (string, raidCatalogueRaid option) jsmap" where
  "raidsByName E K =
     unique_index (map (\<lambda>(tierOrdinal, raid).
         (normalizedName E (jr_raidName raid),
          \<lparr>rr_raidId = jr_journalRaidId raid, rr_raidName = jr_raidName raid,
           rr_imageUrl = jr_imageUrl raid, rr_tierOrdinal = tierOrdinalOf raid tierOrdinal,
           rr_raiderIoRaidSlug = map_get raiderIoRaidSlugs (jr_journalRaidId raid)\<rparr>))
       (List.enumerate 0 (cat_raids K)))"

definition isCataloguedRaidName :: "js_env \<Rightarrow> catalogueData \<Rightarrow> string \<Rightarrow> bool" where
  "isCataloguedRaidName E K raidName = map_has (raidsByName E K) (normalizedName E raidName)"

definition index_get :: "(string, 'a option) jsmap \<Rightarrow> string \<Rightarrow> 'a option" where
  \<comment> \<open>\<open>map.get(key) ?? null\<close>\<close>
  "index_get m key = (case map_get m key of None \<Rightarrow> None | Some v \<Rightarrow> v)"

definition lookupRaidByName :: "js_env \<Rightarrow> catalogueData \<Rightarrow> string \<Rightarrow> raidCatalogueRaid option" where
  "lookupRaidByName E K raidName = index_get (raidsByName E K) (normalizedName E raidName)"

record supportedRaid =
  sr_raid :: raidCatalogueRaid
  sr_encounters :: "raidCatalogueEncounter list"

fun supportedRaids ::
    "js_env \<Rightarrow> catalogueData \<Rightarrow> (nat \<times> journalRaid) list \<Rightarrow> supportedRaid list option" where
  \<comment> \<open>\<^term>\<open>None\<close>: \<open>invalid_raid_catalogue\<close> is thrown\<close>
  "supportedRaids E K [] = Some []"
| "supportedRaids E K ((tierOrdinal, raid) # rest) =
     (case lookupRaidByName E K (jr_raidName raid) of
        None \<Rightarrow> None
      | Some metadata \<Rightarrow>
          map_option (\<lambda>others. \<lparr>sr_raid = metadata\<lparr>rr_tierOrdinal := tierOrdinalOf raid tierOrdinal\<rparr>,
              sr_encounters = sort_by (\<lambda>a b. re_bossOrder a - re_bossOrder b)
                (List.map_filter (\<lambda>encounter. map_get (encounters E K) (je_journalBossId encounter))
                   (jr_encounters raid))\<rparr> # others)
            (supportedRaids E K rest))"

definition supportedRaidCatalogue :: "js_env \<Rightarrow> catalogueData \<Rightarrow> supportedRaid list option" where
  "supportedRaidCatalogue E K =
     map_option (sort_by (\<lambda>a b. rr_tierOrdinal (sr_raid b) - rr_tierOrdinal (sr_raid a)))
       (supportedRaids E K (List.enumerate 0 (cat_raids K)))"

definition lookupJournalEncounter ::
    "js_env \<Rightarrow> catalogueData \<Rightarrow> string \<Rightarrow> raidCatalogueEncounter option" where
  "lookupJournalEncounter E K journalBossId =
     map_get (encounters E K)
       (case map_get (factionCopies E K) journalBossId of None \<Rightarrow> journalBossId | Some i \<Rightarrow> i)"

definition lookupRaidBossByName ::
    "js_env \<Rightarrow> catalogueData \<Rightarrow> string \<Rightarrow> string \<Rightarrow> raidCatalogueEncounter option" where
  "lookupRaidBossByName E K raidName bossName =
     index_get (encountersByName E K) (raidBossKey E raidName bossName)"

definition lookupRaidBossByLegacyName ::
    "js_env \<Rightarrow> catalogueData \<Rightarrow> string \<Rightarrow> string \<Rightarrow> raidCatalogueEncounter option" where
  "lookupRaidBossByLegacyName E K raidId bossName =
     (let key = normalizedName E bossName
      in if key = [] then None
         else
           (case filter (\<lambda>encounter. re_raidId encounter = raidId \<and>
                           prefix key (normalizedName E (re_bossName encounter)))
                   (map snd (encounters E K)) of
              [encounter] \<Rightarrow> Some encounter
            | _ \<Rightarrow> None))"

definition lookupUniqueRaidBossByName ::
    "js_env \<Rightarrow> catalogueData \<Rightarrow> string \<Rightarrow> raidCatalogueEncounter option" where
  "lookupUniqueRaidBossByName E K bossName =
     index_get (encountersByBossName E K) (normalizedName E bossName)"

subsection \<open>Raid tiers\<close>

record raidTier =
  rt_name :: string
  rt_raidNames :: "string list"
  rt_startsOn :: string

definition TIER_BOUNDARY_TOLERANCE_MS :: int where
  "TIER_BOUNDARY_TOLERANCE_MS = 7 * 24 * 60 * 60000"

definition scheduledRaids ::
    "js_env \<Rightarrow> catalogueData \<Rightarrow> (string \<times> raidCurrentContentWindow) list" where
  "scheduledRaids E K =
     sort_by (\<lambda>a b. or_else (date_difference E (rw_startsAt (snd a)) (rw_startsAt (snd b)))
                   (localeCompare E (fst a) (fst b)))
       (List.map_filter (\<lambda>raid.
          map_option (\<lambda>window. (jr_raidName raid, window))
            (case map_get (generatedContentWindows K) (jr_journalRaidId raid) of
               Some window \<Rightarrow> Some window
             | None \<Rightarrow> map_get preLegionContentWindows (jr_journalRaidId raid)))
        (cat_raids K))"

record openTier =
  ot_raidNames :: "string list"
  ot_startsAt :: string
  ot_endsAt :: "string option"

definition joinsTier :: "js_env \<Rightarrow> openTier \<Rightarrow> raidCurrentContentWindow \<Rightarrow> bool" where
  "joinsTier E tier window =
     (case ot_endsAt tier of
        None \<Rightarrow> True
      | Some endsAt \<Rightarrow>
          (case (dateParse E (rw_startsAt window), dateParse E endsAt) of
             (Some s, Some e) \<Rightarrow> s < e - TIER_BOUNDARY_TOLERANCE_MS
           | _ \<Rightarrow> False))"

fun groupTiers ::
    "js_env \<Rightarrow> (string \<times> raidCurrentContentWindow) list \<Rightarrow> openTier list \<Rightarrow> openTier list" where
  "groupTiers E [] tiers = tiers"
| "groupTiers E ((raidName, window) # rest) tiers =
     groupTiers E rest
       (if tiers \<noteq> [] \<and> joinsTier E (last tiers) window
        then butlast tiers @ [(last tiers)\<lparr>ot_raidNames := ot_raidNames (last tiers) @ [raidName]\<rparr>]
        else tiers @ [\<lparr>ot_raidNames = [raidName], ot_startsAt = rw_startsAt window,
                       ot_endsAt = rw_endsAt window\<rparr>])"

definition raidTiers :: "js_env \<Rightarrow> catalogueData \<Rightarrow> raidTier list" where
  "raidTiers E K =
     map (\<lambda>tier. \<lparr>rt_name = join '' / '' (ot_raidNames tier), rt_raidNames = ot_raidNames tier,
                   rt_startsOn = take 10 (ot_startsAt tier)\<rparr>)
       (groupTiers E (scheduledRaids E K) [])"

definition tierIndexByRaidName :: "js_env \<Rightarrow> catalogueData \<Rightarrow> (string, nat) jsmap" where
  "tierIndexByRaidName E K =
     map_from (concat (map (\<lambda>(index, tier). map (\<lambda>name. (normalizedName E name, index)) (rt_raidNames tier))
       (List.enumerate 0 (raidTiers E K))))"

definition lookupSiblingRaidBossByName ::
    "js_env \<Rightarrow> catalogueData \<Rightarrow> string \<Rightarrow> string \<Rightarrow> raidCatalogueEncounter option" where
  "lookupSiblingRaidBossByName E K raidName bossName =
     (case (lookupRaidByName E K raidName, lookupUniqueRaidBossByName E K bossName) of
        (Some raid, Some encounter) \<Rightarrow>
          if re_raidId encounter = rr_raidId raid then None
          else
            (case map_get (tierIndexByRaidName E K) (normalizedName E (rr_raidName raid)) of
               None \<Rightarrow> None
             | Some tier \<Rightarrow>
                 if map_get (tierIndexByRaidName E K) (normalizedName E (re_raidName encounter)) = Some tier
                 then Some encounter else None)
      | _ \<Rightarrow> None)"

subsection \<open>Evidence\<close>

record raidEvidenceIdentity =
  ev_raidName :: string
  ev_bossName :: string
  ev_journalBossId :: "string option"

definition option_else :: "'a option \<Rightarrow> 'a option \<Rightarrow> 'a option" where
  \<comment> \<open>\<open>a ?? b\<close>\<close>
  "option_else a b = (case a of None \<Rightarrow> b | Some x \<Rightarrow> Some x)"

definition lookupRaidEncounterForEvidence ::
    "js_env \<Rightarrow> catalogueData \<Rightarrow> raidEvidenceIdentity \<Rightarrow> raidCatalogueEncounter option" where
  "lookupRaidEncounterForEvidence E K evidence =
     (let journalEncounter =
            (case ev_journalBossId evidence of None \<Rightarrow> None | Some i \<Rightarrow> lookupJournalEncounter E K i)
      in case lookupRaidByName E K (ev_raidName evidence) of
           None \<Rightarrow> option_else journalEncounter (lookupUniqueRaidBossByName E K (ev_bossName evidence))
         | Some raid \<Rightarrow>
             option_else (lookupRaidBossByName E K (ev_raidName evidence) (ev_bossName evidence))
               (option_else
                  (case journalEncounter of
                     None \<Rightarrow> None
                   | Some e \<Rightarrow> if re_raidId e = rr_raidId raid then Some e else None)
                  (option_else (lookupRaidBossByLegacyName E K (rr_raidId raid) (ev_bossName evidence))
                     (lookupSiblingRaidBossByName E K (ev_raidName evidence) (ev_bossName evidence)))))"

definition lookupRaidCurrentContentWindow ::
    "js_env \<Rightarrow> catalogueData \<Rightarrow> string \<Rightarrow> raidCurrentContentWindow option" where
  "lookupRaidCurrentContentWindow E K raidId = map_get (currentContentWindows E K) raidId"

fun latestDated :: "js_env \<Rightarrow> string option list \<Rightarrow> string option \<Rightarrow> string option" where
  \<comment> \<open>an end that is absent, empty or unreadable makes the answer \<open>null\<close>\<close>
  "latestDated E [] latest = latest"
| "latestDated E (None # ends) latest = None"
| "latestDated E (Some endsAt # ends) latest =
     (if endsAt = [] \<or> dateParse E endsAt = None then None
      else latestDated E ends
             (case latest of
                None \<Rightarrow> Some endsAt
              | Some l \<Rightarrow> if date_less E l endsAt then Some endsAt else Some l))"

definition raiderIoRaidContentWindowEnd :: "js_env \<Rightarrow> catalogueData \<Rightarrow> string \<Rightarrow> string option" where
  "raiderIoRaidContentWindowEnd E K raidSlug =
     latestDated E
       (map (\<lambda>(journalRaidId, slug).
           case map_get (currentContentWindows E K) journalRaidId of
             None \<Rightarrow> None | Some window \<Rightarrow> rw_endsAt window)
         (filter (\<lambda>(journalRaidId, slug). slug = raidSlug) raiderIoRaidSlugs)) None"

definition raidContentWindowOpenedBetween ::
    "js_env \<Rightarrow> catalogueData \<Rightarrow> int option \<Rightarrow> int option \<Rightarrow> bool" where
  \<comment> \<open>instants in milliseconds, \<^term>\<open>None\<close> for an invalid date\<close>
  "raidContentWindowOpenedBetween E K since instant =
     list_ex (\<lambda>(journalRaidId, window).
         case (dateParse E (rw_startsAt window), since, instant) of
           (Some startsAt, Some s, Some a) \<Rightarrow> s < startsAt \<and> startsAt \<le> a
         | _ \<Rightarrow> True)
       (currentContentWindows E K)"

definition currentContentEligibilityByRaidId ::
    "js_env \<Rightarrow> catalogueData \<Rightarrow> string \<Rightarrow> string \<Rightarrow> bool option" where
  "currentContentEligibilityByRaidId E K killedAt raidId =
     (case (lookupRaidCurrentContentWindow E K raidId, dateParse E killedAt) of
        (Some window, Some killed) \<Rightarrow>
          Some (date_le E (rw_startsAt window) killedAt \<and>
                (case rw_endsAt window of None \<Rightarrow> True | Some endsAt \<Rightarrow> date_less E killedAt endsAt))
      | _ \<Rightarrow> None)"

definition currentContentEligibility ::
    "js_env \<Rightarrow> catalogueData \<Rightarrow> string \<Rightarrow> string \<Rightarrow> bool option" where
  "currentContentEligibility E K killedAt raidName =
     (case lookupRaidByName E K raidName of
        None \<Rightarrow> None
      | Some raid \<Rightarrow> currentContentEligibilityByRaidId E K killedAt (rr_raidId raid))"

datatype raidTierConclusion = Concluded | Current_tier | Unknown_tier

definition lookupRaidForEvidence ::
    "js_env \<Rightarrow> catalogueData \<Rightarrow> raidEvidenceIdentity \<Rightarrow> raidCatalogueRaid option" where
  "lookupRaidForEvidence E K evidence =
     (case lookupRaidEncounterForEvidence E K evidence of
        None \<Rightarrow> lookupRaidByName E K (ev_raidName evidence)
      | Some encounter \<Rightarrow> lookupRaidByName E K (re_raidName encounter))"

definition raidTierConclusionForRaidId ::
    "js_env \<Rightarrow> catalogueData \<Rightarrow> string \<Rightarrow> int option \<Rightarrow> raidTierConclusion" where
  "raidTierConclusionForRaidId E K raidId instant =
     (case lookupRaidCurrentContentWindow E K raidId of
        None \<Rightarrow> Unknown_tier
      | Some window \<Rightarrow>
          (case rw_endsAt window of
             None \<Rightarrow> Current_tier
           | Some ends \<Rightarrow>
               (case (dateParse E ends, instant) of
                  (Some endsAt, Some t) \<Rightarrow> if endsAt \<le> t then Concluded else Current_tier
                | _ \<Rightarrow> Unknown_tier)))"

definition raidTierConclusionForEvidence ::
    "js_env \<Rightarrow> catalogueData \<Rightarrow> raidEvidenceIdentity \<Rightarrow> int option \<Rightarrow> raidTierConclusion" where
  "raidTierConclusionForEvidence E K evidence instant =
     (case lookupRaidForEvidence E K evidence of
        None \<Rightarrow> Unknown_tier
      | Some raid \<Rightarrow> raidTierConclusionForRaidId E K (rr_raidId raid) instant)"

definition raidTierConclusion_of ::
    "js_env \<Rightarrow> catalogueData \<Rightarrow> string \<Rightarrow> int option \<Rightarrow> raidTierConclusion" where
  "raidTierConclusion_of E K raidName instant =
     (case lookupRaidByName E K raidName of
        None \<Rightarrow> Unknown_tier
      | Some raid \<Rightarrow> raidTierConclusionForRaidId E K (rr_raidId raid) instant)"

definition MYTHIC_DIFFICULTY_INTRODUCED_AT :: "js_env \<Rightarrow> int option" where
  "MYTHIC_DIFFICULTY_INTRODUCED_AT E = dateParse E ''2014-10-14T00:00:00.000Z''"

definition mythicDifficultyExistedDuring :: "js_env \<Rightarrow> raidCurrentContentWindow \<Rightarrow> bool" where
  "mythicDifficultyExistedDuring E window =
     (case rw_endsAt window of
        None \<Rightarrow> True
      | Some ends \<Rightarrow>
          (case (dateParse E ends, MYTHIC_DIFFICULTY_INTRODUCED_AT E) of
             (None, _) \<Rightarrow> True
           | (Some endsAt, Some introduced) \<Rightarrow> introduced < endsAt
           | (Some endsAt, None) \<Rightarrow> False))"

definition raidOffersMythicRankings :: "js_env \<Rightarrow> catalogueData \<Rightarrow> raidEvidenceIdentity \<Rightarrow> bool" where
  "raidOffersMythicRankings E K evidence =
     (case lookupRaidForEvidence E K evidence of
        None \<Rightarrow> False
      | Some raid \<Rightarrow>
          (case lookupRaidCurrentContentWindow E K (rr_raidId raid) of
             None \<Rightarrow> False | Some window \<Rightarrow> mythicDifficultyExistedDuring E window))"

subsection \<open>Raider.IO slugs\<close>

fun hyphenate :: "js_env \<Rightarrow> bool \<Rightarrow> string \<Rightarrow> string" where
  \<comment> \<open>\<open>replace(/[^\p{L}\p{N}]+/gu, "-")\<close>; the flag says whether a run is being replaced\<close>
  "hyphenate E run [] = []"
| "hyphenate E run (c # cs) =
     (if isLetterOrNumber E c then c # hyphenate E False cs
      else if run then hyphenate E True cs
      else CHR ''-'' # hyphenate E True cs)"

definition trimHyphens :: "string \<Rightarrow> string" where
  "trimHyphens s =
     rev (dropWhile (\<lambda>c. c = CHR ''-'') (rev (dropWhile (\<lambda>c. c = CHR ''-'') s)))"

definition raiderIoBossSlug :: "js_env \<Rightarrow> string \<Rightarrow> string" where
  "raiderIoBossSlug E bossName =
     toLower E (trimHyphens (hyphenate E False (filter (\<lambda>c. c \<noteq> CHR 0x27) (nfkd E bossName))))"

record raiderIoBoss =
  rb_raidSlug :: string
  rb_bossSlug :: string

definition directRaiderIoBoss ::
    "js_env \<Rightarrow> catalogueData \<Rightarrow> string \<Rightarrow> string \<Rightarrow> raiderIoBoss option" where
  \<comment> \<open>the part after the combined-zone case\<close>
  "directRaiderIoBoss E K raidName bossName =
     (case lookupRaidByName E K raidName of
        None \<Rightarrow> None
      | Some raid \<Rightarrow>
          (case rr_raiderIoRaidSlug raid of
             None \<Rightarrow> None
           | Some raidSlug \<Rightarrow>
               if raidSlug = [] then None
               else
                 (let encounter = option_else (lookupRaidBossByName E K raidName bossName)
                        (lookupRaidBossByLegacyName E K (rr_raidId raid) bossName);
                      bossSlug =
                        (case encounter of
                           None \<Rightarrow> raiderIoBossSlug E bossName
                         | Some e \<Rightarrow>
                             (case re_raiderIoBossSlug e of
                                Some slug \<Rightarrow> slug
                              | None \<Rightarrow> raiderIoBossSlug E (re_bossName e)))
                  in if bossSlug = [] then None
                     else Some \<lparr>rb_raidSlug = raidSlug, rb_bossSlug = bossSlug\<rparr>)))"

text \<open>
  The combined zone recurses with an encounter's own names. Were a catalogued raid
  itself named like the combined zone the call would repeat for ever; the fuel counts
  the calls, and \<^term>\<open>None\<close> is a call that has not returned.
\<close>

fun raiderIoBossByNames ::
    "nat \<Rightarrow> js_env \<Rightarrow> catalogueData \<Rightarrow> string \<Rightarrow> string \<Rightarrow> raiderIoBoss option option" where
  "raiderIoBossByNames 0 E K raidName bossName = None"
| "raiderIoBossByNames (Suc fuel) E K raidName bossName =
     (if normalizedName E raidName = combinedMidnightZone E then
        (case lookupUniqueRaidBossByName E K bossName of
           None \<Rightarrow> Some None
         | Some encounter \<Rightarrow>
             if map_get raiderIoRaidSlugs (re_raidId encounter) \<noteq> Some ''tier-mn-1'' then Some None
             else raiderIoBossByNames fuel E K (re_raidName encounter) (re_bossName encounter))
      else Some (directRaiderIoBoss E K raidName bossName))"

definition lookupRaiderIoBoss ::
    "js_env \<Rightarrow> catalogueData \<Rightarrow> string \<Rightarrow> string \<Rightarrow> raiderIoBoss option option" where
  "lookupRaiderIoBoss E K raidName bossName = raiderIoBossByNames 2 E K raidName bossName"

definition slugsOf :: "js_env \<Rightarrow> raidCatalogueEncounter \<Rightarrow> (string \<times> string) option" where
  "slugsOf E encounter =
     (case map_get raiderIoRaidSlugs (re_raidId encounter) of
        None \<Rightarrow> None
      | Some raidSlug \<Rightarrow>
          if raidSlug = [] then None
          else Some (raidSlug,
            case re_raiderIoBossSlug encounter of
              Some slug \<Rightarrow> slug | None \<Rightarrow> raiderIoBossSlug E (re_bossName encounter)))"

definition slugBuckets ::
    "js_env \<Rightarrow> catalogueData \<Rightarrow> (string \<times> string, raidCatalogueEncounter list) jsmap" where
  \<comment> \<open>keyed by the pair the source writes as JSON\<close>
  "slugBuckets E K =
     group_by (\<lambda>e. the (slugsOf E e)) (filter (\<lambda>e. slugsOf E e \<noteq> None) (map snd (encounters E K))) []"

definition bucketEncounter ::
    "string \<Rightarrow> raidCatalogueEncounter list \<Rightarrow> raidCatalogueEncounter option" where
  "bucketEncounter bossSlug bucket =
     (case sort_by (\<lambda>a b. re_bossOrder a - re_bossOrder b) bucket of
        [] \<Rightarrow> None
      | first # others \<Rightarrow>
          if others = [] \<or> list_all (\<lambda>e. re_raidId e = re_raidId first \<and>
               re_raiderIoBossSlug e = Some bossSlug) (first # others)
          then Some first else None)"

definition lookupRaidEncounterByRaiderIoSlugs ::
    "js_env \<Rightarrow> catalogueData \<Rightarrow> string \<Rightarrow> string \<Rightarrow> raidCatalogueEncounter option" where
  "lookupRaidEncounterByRaiderIoSlugs E K raidSlug bossSlug =
     (case map_get (slugBuckets E K) (raidSlug, bossSlug) of
        None \<Rightarrow> None | Some bucket \<Rightarrow> bucketEncounter bossSlug bucket)"


subsection \<open>Dungeons\<close>

definition dungeonNames :: "js_env \<Rightarrow> catalogueData \<Rightarrow> string list" where
  "dungeonNames E K =
     map (normalizedZoneName E) (filter (\<lambda>name. \<not> isCataloguedRaidName E K name) (cat_dungeons K))"

definition isKnownDungeonZone :: "js_env \<Rightarrow> catalogueData \<Rightarrow> string \<Rightarrow> bool" where
  "isKnownDungeonZone E K zoneName \<longleftrightarrow> normalizedZoneName E zoneName \<in> set (dungeonNames E K)"

text \<open>
  The regular expression of \<open>isNonRaidWclZoneLabel\<close>, case-insensitive, as the remainders
  each part can leave; a match ends at a word boundary.
\<close>

fun eat :: "string \<Rightarrow> string \<Rightarrow> string list" where
  \<comment> \<open>a literal\<close>
  "eat [] s = [s]"
| "eat (p # ps) [] = []"
| "eat (p # ps) (c # cs) = (if ascii_lower_char c = p then eat ps cs else [])"

fun eat_spaces :: "js_env \<Rightarrow> string \<Rightarrow> string list" where
  \<comment> \<open>\<open>\s+\<close>\<close>
  "eat_spaces E [] = []"
| "eat_spaces E (c # cs) = (if isSpace E c then cs # eat_spaces E cs else [])"

definition word_char :: "char \<Rightarrow> bool" where
  "word_char c \<longleftrightarrow> ascii_letter c \<or> ascii_digit c \<or> c = CHR ''_''"

fun ends_word :: "string \<Rightarrow> bool" where
  \<comment> \<open>\<open>\b\<close> after a letter\<close>
  "ends_word [] = True"
| "ends_word (c # cs) = (\<not> word_char c)"

definition eat_words :: "js_env \<Rightarrow> string \<Rightarrow> string \<Rightarrow> string \<Rightarrow> string list" where
  "eat_words E first second s =
     concat (map (\<lambda>r. concat (map (eat second) (eat_spaces E r))) (eat first s))"

definition isNonRaidWclZoneLabel :: "js_env \<Rightarrow> string \<Rightarrow> bool" where
  "isNonRaidWclZoneLabel E zoneName =
     (let s = js_trim E zoneName
      in list_ex ends_word (concat (map (\<lambda>(first, second). eat_words E first second s)
           [(''mythic+'', ''seasons''), (''mythic+'', ''season''),
            (''challenge'', ''modes''), (''challenge'', ''mode''),
            (''normal'', ''dungeons''), (''heroic'', ''dungeons''), (''mythic'', ''dungeons'')])))"

definition isNonRaidZone :: "js_env \<Rightarrow> catalogueData \<Rightarrow> string \<Rightarrow> bool" where
  "isNonRaidZone E K zoneName \<longleftrightarrow> isNonRaidWclZoneLabel E zoneName \<or> isKnownDungeonZone E K zoneName"

subsection \<open>Matching a Raider.IO kill\<close>

definition STORED_KILL_MATCH_MS :: int where "STORED_KILL_MATCH_MS = 2 * 60 * 60 * 1000"

record raiderIoKill =
  rk_raidSlug :: string
  rk_bossSlug :: string
  rk_killedAt :: string

record warcraftLogsKill =
  wk_raidName :: string
  wk_bossName :: "string option"
  wk_killedAt :: string

definition matchesRaiderIoKill ::
    "js_env \<Rightarrow> catalogueData \<Rightarrow> raiderIoKill \<Rightarrow> warcraftLogsKill \<Rightarrow> bool option" where
  \<comment> \<open>\<^term>\<open>None\<close> only when the boss lookup does not return\<close>
  "matchesRaiderIoKill E K raiderIo warcraftLogs =
     (case wk_bossName warcraftLogs of
        None \<Rightarrow> Some False
      | Some bossName \<Rightarrow>
          map_option (\<lambda>boss.
             case boss of
               None \<Rightarrow> False
             | Some b \<Rightarrow>
                 rb_raidSlug b = rk_raidSlug raiderIo \<and> rb_bossSlug b = rk_bossSlug raiderIo \<and>
                 (case (dateParse E (wk_killedAt warcraftLogs), dateParse E (rk_killedAt raiderIo)) of
                    (Some w, Some r) \<Rightarrow> \<bar>w - r\<bar> \<le> STORED_KILL_MATCH_MS
                  | _ \<Rightarrow> False))
            (lookupRaiderIoBoss E K (wk_raidName warcraftLogs) bossName))"

definition isRosterShown :: "bool option \<Rightarrow> 'a list \<Rightarrow> bool" where
  "isRosterShown raidComps members \<longleftrightarrow> raidComps \<noteq> Some False \<and> members \<noteq> []"

subsection \<open>Cutting Edge achievements\<close>

record cuttingEdgeAchievement =
  ach_achievementId :: string
  ach_achievementName :: string
  ach_description :: string
  ach_iconUrl :: "string option"
  ach_categoryId :: string

datatype 'a cuttingEdgeEntry = Recorded 'a | Not_recorded cuttingEdgeAchievement

definition lookupCuttingEdgeAchievement ::
    "cuttingEdgeAchievement list \<Rightarrow> string \<Rightarrow> cuttingEdgeAchievement option" where
  \<comment> \<open>over the generated catalogue, in its order\<close>
  "lookupCuttingEdgeAchievement orderedAchievements i =
     map_get (map_from (map (\<lambda>a. (ach_achievementId a, a)) orderedAchievements)) i"

definition isAccountWideCuttingEdgeAchievement :: "cuttingEdgeAchievement list \<Rightarrow> string \<Rightarrow> bool" where
  \<comment> \<open>every catalogued achievement is stamped account-wide\<close>
  "isAccountWideCuttingEdgeAchievement orderedAchievements i \<longleftrightarrow>
     lookupCuttingEdgeAchievement orderedAchievements i \<noteq> None"

definition buildCuttingEdgeSequence ::
    "cuttingEdgeAchievement list \<Rightarrow> ('a \<Rightarrow> string) \<Rightarrow> 'a list \<Rightarrow> 'a cuttingEdgeEntry list" where
  "buildCuttingEdgeSequence orderedAchievements achievementId recordedAchievements =
     (let recordedById = group_by achievementId recordedAchievements []
      in if recordedAchievements = [] \<or>
            list_ex (\<lambda>a. lookupCuttingEdgeAchievement orderedAchievements (achievementId a) = None)
              recordedAchievements
         then map Recorded recordedAchievements
         else concat (map (\<lambda>achievement.
                case map_get recordedById (ach_achievementId achievement) of
                  Some recorded \<Rightarrow> map Recorded recorded
                | None \<Rightarrow> [Not_recorded achievement])
              (rev orderedAchievements)))"

end
