(* ===== verification/RaidCatalogueCorrect.thy ===== *)
theory RaidCatalogueCorrect
  imports RaidCatalogue
begin

section \<open>Correctness of the raid catalogue\<close>

text \<open>
  The name indexes answer only for a name that exactly one entry carries; the widened
  content window is the hull of its sources; a concluded tier admits no kill; tiers
  partition the schedule; and evidence is never placed outside the tier it names.
\<close>

subsection \<open>Name indexes\<close>

lemma map_of_index_add:
  "map_of (index_add k v m) k' =
     (if k' = k then Some (if map_of m k = None then Some v else None) else map_of m k')"
  by (simp add: index_add_def update_conv')

lemma map_of_unique_index:
  "map_of (foldl (\<lambda>m (key, value). index_add key value m) m es) k =
     (case filter (\<lambda>e. fst e = k) es of
        [] \<Rightarrow> map_of m k
      | [e] \<Rightarrow> Some (if map_of m k = None then Some (snd e) else None)
      | _ \<Rightarrow> Some None)"
proof (induction es arbitrary: m)
  case (Cons e es)
  obtain k' v where e: "e = (k', v)" by fastforce
  show ?case
    by (auto simp: e Cons.IH map_of_index_add split: list.split)
qed simp

lemma index_get_unique:
  "index_get (unique_index es) k = Some v \<longleftrightarrow> filter (\<lambda>e. fst e = k) es = [(k, v)]"
proof (cases "filter (\<lambda>e. fst e = k) es")
  case (Cons e rest)
  then have "fst e = k" by (metis (mono_tags, lifting) filter_eq_Cons_iff)
  then have "e = (k, snd e)" by (cases e) simp
  with Cons show ?thesis
    by (cases rest) (auto simp: index_get_def unique_index_def map_of_unique_index)
qed (simp add: index_get_def unique_index_def map_of_unique_index)

lemma index_get_mem: "index_get (unique_index es) k = Some v \<Longrightarrow> (k, v) \<in> set es"
  by (auto simp: index_get_unique filter_eq_Cons_iff)

lemma index_has:
  "map_has (unique_index es) k \<longleftrightarrow> k \<in> fst ` set es"
proof -
  have "map_of (unique_index es) k = None \<longleftrightarrow> filter (\<lambda>e. fst e = k) es = []"
    by (simp add: unique_index_def map_of_unique_index split: list.split)
  then show ?thesis
    by (simp add: map_of_eq_None_iff filter_empty_conv) (metis imageE image_eqI)
qed

subsection \<open>Content windows\<close>

lemma resolve_from_sources:
  "resolveContentWindow E K i = Some w \<Longrightarrow>
   i \<in> set (map fst preLegionContentWindows @ map fst reviewedContentWindows @
            map fst (generatedContentWindows K))"
  unfolding resolveContentWindow_def
  by (auto simp: image_iff split: option.splits dest!: map_of_SomeD) force+

lemma map_of_map_filter_keys:
  "map_of (rev (List.map_filter (\<lambda>k. map_option (\<lambda>v. (k, v)) (f k)) ks)) k =
     (if k \<in> set ks then f k else None)"
  by (induction ks) (auto simp: map_filter_simps map_add_def split: option.splits if_splits)

lemma lookup_window_resolves [code]:
  "lookupRaidCurrentContentWindow E K i = resolveContentWindow E K i"
proof -
  have keys: "set (keep_first (\<lambda>i. i) is []) = set is" for "is" :: "string list"
    using ident_keep_first [of "\<lambda>i. i" "is" "[]"] by simp
  show ?thesis
    using resolve_from_sources [of E K i]
    by (cases "resolveContentWindow E K i")
      (simp_all add: lookupRaidCurrentContentWindow_def currentContentWindows_def map_of_map_from
        map_of_map_filter_keys keys del: set_append)
qed

text \<open>The earliest start and the latest dated end, where the dates can be read.\<close>

lemma widest_start:
  assumes "dateParse E (rw_startsAt r) = Some sr" and "dateParse E (rw_startsAt g) = Some sg"
    and "widestContentWindow E (Some r) (Some g) = Some w"
  shows "dateParse E (rw_startsAt w) = Some (min sr sg)"
  using assms by (auto simp: date_le_def min_def)

lemma widest_end:
  assumes "\<And>e. e = rw_endsAt r \<or> e = rw_endsAt g \<Longrightarrow> e = None \<or> (\<exists>t. Option.bind e (dateParse E) = Some t)"
    and "widestContentWindow E (Some r) (Some g) = Some w"
  shows "(case rw_endsAt w of None \<Rightarrow> True | Some e \<Rightarrow> \<exists>t. dateParse E e = Some t \<and> k < t) \<longleftrightarrow>
         rw_endsAt r = None \<and> rw_endsAt g = None \<or>
         (\<exists>t. k < t \<and> (Option.bind (rw_endsAt r) (dateParse E) = Some t \<or>
                         Option.bind (rw_endsAt g) (dateParse E) = Some t))"
  using assms(2) assms(1) [of "rw_endsAt r"] assms(1) [of "rw_endsAt g"]
  by (cases "rw_endsAt r"; cases "rw_endsAt g") (auto simp: map_filter_simps date_less_def split: if_splits)

text \<open>
  For a raid that both the reviewed table and the generated schedule date, a kill is
  current exactly when it falls between the earlier of the two starts and the later of the
  dated ends; with no dated end the window stays open.
\<close>

theorem eligibility_hull:
  assumes "map_get (generatedContentWindows K) i = Some g" and "map_get reviewedContentWindows i = Some r"
    and "dateParse E (rw_startsAt r) = Some sr" and "dateParse E (rw_startsAt g) = Some sg"
    and "\<And>e. e = rw_endsAt r \<or> e = rw_endsAt g \<Longrightarrow> e = None \<or> (\<exists>t. Option.bind e (dateParse E) = Some t)"
    and "dateParse E killedAt = Some k"
  shows "currentContentEligibilityByRaidId E K killedAt i =
           Some (min sr sg \<le> k \<and>
                 (rw_endsAt r = None \<and> rw_endsAt g = None \<or>
                  (\<exists>t. k < t \<and> (Option.bind (rw_endsAt r) (dateParse E) = Some t \<or>
                                  Option.bind (rw_endsAt g) (dateParse E) = Some t))))"
proof -
  obtain w where w: "widestContentWindow E (Some r) (Some g) = Some w" by simp
  then have "lookupRaidCurrentContentWindow E K i = Some w"
    using assms(1,2) by (simp add: lookup_window_resolves resolveContentWindow_def)
  moreover have "(case rw_endsAt w of None \<Rightarrow> True | Some e \<Rightarrow> date_less E killedAt e) \<longleftrightarrow>
      (case rw_endsAt w of None \<Rightarrow> True | Some e \<Rightarrow> \<exists>t. dateParse E e = Some t \<and> k < t)"
    using assms(6) by (auto simp: date_less_def split: option.splits)
  ultimately show ?thesis
    using widest_start [OF assms(3,4) w] widest_end [OF assms(5) w] assms(6)
    by (simp add: currentContentEligibilityByRaidId_def date_le_def)
qed

text \<open>
  A tier that has concluded stays concluded, and no kill from that moment on counts as a
  current-content kill of one of its raids.
\<close>

theorem concluded_admits_no_kill:
  assumes "raidTierConclusionForRaidId E K i (Some t) = Concluded"
    and "dateParse E killedAt = Some k" and "t \<le> k"
  shows "raidTierConclusionForRaidId E K i (Some k) = Concluded \<and>
         currentContentEligibilityByRaidId E K killedAt i = Some False"
  using assms
  by (auto simp: raidTierConclusionForRaidId_def currentContentEligibilityByRaidId_def date_less_def
      split: option.splits if_splits)

subsection \<open>The bounded memo\<close>

definition memo_ok :: "(string \<Rightarrow> 'a) \<Rightarrow> (string, 'a) jsmap \<Rightarrow> bool" where
  "memo_ok compute cache \<longleftrightarrow>
     distinct (map fst cache) \<and> length cache \<le> memo_limit \<and>
     (\<forall>(key, value) \<in> set cache. value = compute key)"

fun memo_calls :: "(string \<Rightarrow> 'a) \<Rightarrow> string list \<Rightarrow> (string, 'a) jsmap \<Rightarrow> 'a list \<times> (string, 'a) jsmap" where
  \<comment> \<open>the answers to a sequence of calls, and the cache they leave\<close>
  "memo_calls compute [] cache = ([], cache)"
| "memo_calls compute (key # keys) cache =
     (let (value, cache1) = boundedMemo compute key cache;
          (values, cache2) = memo_calls compute keys cache1
      in (value # values, cache2))"

lemma length_update_new: "k \<notin> fst ` set m \<Longrightarrow> length (AList.update k v m) = Suc (length m)"
  by (induction m) auto

lemma set_update_bound: "set (AList.update k v m) \<subseteq> insert (k, v) (set m)"
  by (induction m) auto

lemma length_delete_hd: "distinct (map fst m) \<Longrightarrow> length (AList.delete (fst (hd m)) m) = length m - 1"
  by (cases m) (auto simp: AList.delete_eq filter_id_conv image_iff split_beta intro!: arg_cong [of _ _ length])

lemma boundedMemo_ok:
  assumes "memo_ok compute cache"
  shows "fst (boundedMemo compute key cache) = compute key \<and>
         memo_ok compute (snd (boundedMemo compute key cache))"
proof (cases "map_of cache key")
  case None
  define cache1 where
    "cache1 = (if memo_limit \<le> length cache then AList.delete (fst (hd cache)) cache else cache)"
  have sub: "set cache1 \<subseteq> set cache" by (auto simp: cache1_def AList.delete_eq)
  have keys: "distinct (map fst cache1)" "length cache1 < memo_limit"
    using assms
    by (auto simp: cache1_def memo_ok_def memo_limit_def distinct_delete length_delete_hd)
  have new: "key \<notin> fst ` set cache1" using None sub by (auto simp: map_of_eq_None_iff)
  have vals: "\<forall>(k, v) \<in> set (AList.update key (compute key) cache1). v = compute k"
    using assms sub set_update_bound [of key "compute key" cache1] by (fastforce simp: memo_ok_def)
  have "boundedMemo compute key cache = (compute key, AList.update key (compute key) cache1)"
    using None by (simp add: boundedMemo_def cache1_def Let_def)
  with keys new vals show ?thesis
    by (simp add: memo_ok_def distinct_update length_update_new)
next
  case (Some v)
  with assms show ?thesis by (auto simp: boundedMemo_def memo_ok_def dest!: map_of_SomeD)
qed

lemma memo_calls_ok:
  "memo_ok compute cache \<Longrightarrow>
   fst (memo_calls compute keys cache) = map compute keys \<and> memo_ok compute (snd (memo_calls compute keys cache))"
proof (induction keys arbitrary: cache)
  case (Cons key keys)
  with boundedMemo_ok [OF Cons.prems, of key] show ?case
    by (simp add: split_beta Let_def)
qed simp

text \<open>
  C17. The bounded memo refines the function it wraps: from the empty cache, any sequence of
  calls, evictions included, answers what the function answers, and the cache never holds
  more than 4096 entries.
\<close>

theorem boundedMemo_refines:
  "fst (memo_calls compute keys []) = map compute keys \<and> length (snd (memo_calls compute keys [])) \<le> 4096"
  using memo_calls_ok [of compute "[]" keys] by (simp add: memo_ok_def memo_limit_def)

subsection \<open>Tiers\<close>

definition tiers_apart :: "js_env \<Rightarrow> openTier \<Rightarrow> openTier \<Rightarrow> bool" where
  \<comment> \<open>the later tier does not open within the earlier one, the boundary week aside\<close>
  "tiers_apart E a b \<longleftrightarrow>
     (\<exists>e. ot_endsAt a = Some e \<and>
        (\<forall>x y. dateParse E e = Some x \<longrightarrow> dateParse E (ot_startsAt b) = Some y \<longrightarrow>
           x - TIER_BOUNDARY_TOLERANCE_MS \<le> y))"

definition tiers_ok :: "js_env \<Rightarrow> openTier list \<Rightarrow> bool" where
  "tiers_ok E tiers \<longleftrightarrow>
     (\<forall>tier \<in> set tiers. ot_raidNames tier \<noteq> []) \<and> successively (tiers_apart E) tiers"

lemma not_joins_apart: "\<not> joinsTier E tier window \<Longrightarrow> ot_startsAt b = rw_startsAt window \<Longrightarrow> tiers_apart E tier b"
  by (auto simp: joinsTier_def tiers_apart_def split: option.splits)

lemma successively_last_update:
  assumes "successively (tiers_apart E) (ts @ [t])"
  shows "successively (tiers_apart E) (ts @ [t\<lparr>ot_raidNames := ns\<rparr>])"
  using assms by (auto simp: successively_append_iff tiers_apart_def)

lemma groupTiers_ok:
  "tiers_ok E tiers \<Longrightarrow>
   tiers_ok E (groupTiers E rs tiers) \<and>
   concat (map ot_raidNames (groupTiers E rs tiers)) = concat (map ot_raidNames tiers) @ map fst rs"
proof (induction E rs tiers rule: groupTiers.induct)
  case (2 E raidName window rest tiers)
  define new where "new = \<lparr>ot_raidNames = [raidName], ot_startsAt = rw_startsAt window, ot_endsAt = rw_endsAt window\<rparr>"
  define tiers1 where
    "tiers1 = (if tiers \<noteq> [] \<and> joinsTier E (last tiers) window
        then butlast tiers @ [(last tiers)\<lparr>ot_raidNames := ot_raidNames (last tiers) @ [raidName]\<rparr>]
        else tiers @ [new])"
  have "tiers_ok E tiers1 \<and> concat (map ot_raidNames tiers1) = concat (map ot_raidNames tiers) @ [raidName]"
  proof (cases "tiers \<noteq> [] \<and> joinsTier E (last tiers) window")
    case True
    then obtain ts t where tiers: "tiers = ts @ [t]" by (metis append_butlast_last_id)
    with True "2.prems" show ?thesis
      by (auto simp: tiers1_def tiers_ok_def intro: successively_last_update)
  next
    case False
    then have "tiers = [] \<or> tiers_apart E (last tiers) new"
      using not_joins_apart [of E "last tiers" window new] by (auto simp: new_def)
    with False "2.prems" show ?thesis
      by (auto simp: tiers1_def tiers_ok_def successively_append_iff new_def)
  qed
  moreover have "groupTiers E ((raidName, window) # rest) tiers = groupTiers E rest tiers1"
    by (simp add: tiers1_def new_def)
  ultimately show ?case
    using "2.IH" [folded new_def, folded tiers1_def] by simp
qed simp

text \<open>
  The tiers partition the schedule: read in order they list every scheduled raid once,
  none is empty, and a tier opens no earlier than a week before the tier before it ends.
\<close>

theorem raidTiers_partition:
  "concat (map rt_raidNames (raidTiers E K)) = map fst (scheduledRaids E K) \<and>
   list_all (\<lambda>tier. rt_raidNames tier \<noteq> []) (raidTiers E K) \<and>
   successively (tiers_apart E) (groupTiers E (scheduledRaids E K) [])"
  using groupTiers_ok [of E "[]" "scheduledRaids E K"]
  by (auto simp: tiers_ok_def raidTiers_def comp_def list_all_iff)

subsection \<open>Evidence\<close>

text \<open>Normalised names keep letters and numbers only, so the separator of a boss key splits it.\<close>

definition names_without_nul :: "js_env \<Rightarrow> bool" where
  "names_without_nul E \<longleftrightarrow> (\<forall>s. CHR 0x00 \<notin> set (normalizedName E s))"

lemma split_at_separator:
  "a @ z # b = c @ z # d \<Longrightarrow> z \<notin> set a \<Longrightarrow> z \<notin> set c \<Longrightarrow> a = c \<and> b = d"
  by (induction a arbitrary: c) (auto simp: Cons_eq_append_conv append_eq_Cons_conv)

lemma raidBossKey_inject:
  assumes "names_without_nul E" and "raidBossKey E r b = raidBossKey E r' b'"
  shows "normalizedName E r = normalizedName E r' \<and> normalizedName E b = normalizedName E b'"
  using assms split_at_separator [of "normalizedName E r" "CHR 0x00" "normalizedName E b"
      "normalizedName E r'" "normalizedName E b'"]
  by (simp add: raidBossKey_def names_without_nul_def)

lemma lookupRaidBossByName_raid:
  assumes "names_without_nul E" and "lookupRaidBossByName E K r b = Some e"
  shows "normalizedName E (re_raidName e) = normalizedName E r"
proof -
  from assms(2) have "(raidBossKey E r b, e) \<in> set (map (\<lambda>(encounter, bossName).
       (raidBossKey E (re_raidName encounter) bossName, encounter)) (namedEncounters E K))"
    unfolding lookupRaidBossByName_def encountersByName_def by (rule index_get_mem)
  then obtain b' where "raidBossKey E r b = raidBossKey E (re_raidName e) b'" by auto
  then show ?thesis using raidBossKey_inject [OF assms(1)] by metis
qed

text \<open>
  C15. Evidence naming a catalogued raid is attributed inside it: the encounter found is in a
  raid of that name or with that raid's id, or in another raid of the same tier, never in
  another tier.
\<close>

theorem evidence_stays_in_tier:
  assumes "names_without_nul E"
    and "lookupRaidByName E K (ev_raidName ev) = Some raid"
    and "lookupRaidEncounterForEvidence E K ev = Some e"
  shows "normalizedName E (re_raidName e) = normalizedName E (ev_raidName ev) \<or> re_raidId e = rr_raidId raid \<or>
         (\<exists>tier. map_get (tierIndexByRaidName E K) (normalizedName E (rr_raidName raid)) = Some tier \<and>
                 map_get (tierIndexByRaidName E K) (normalizedName E (re_raidName e)) = Some tier)"
proof -
  have legacy: "lookupRaidBossByLegacyName E K i b = Some e \<Longrightarrow> re_raidId e = i" for i b
    by (auto simp: lookupRaidBossByLegacyName_def Let_def filter_eq_Cons_iff split: if_splits list.splits)
  show ?thesis
    using assms(2,3) lookupRaidBossByName_raid [OF assms(1)] legacy
    by (auto simp: lookupRaidEncounterForEvidence_def lookupSiblingRaidBossByName_def option_else_def
        Let_def split: option.splits if_splits)
qed

subsection \<open>Raider.IO slugs\<close>

lemma encounters_of_raids:
  assumes "e \<in> snd ` set (encounters E K)"
  shows "\<exists>raid \<in> set (cat_raids K). re_raidName e = jr_raidName raid \<and> re_raidId e = jr_journalRaidId raid"
proof -
  from assms obtain i where "(i, e) \<in> set (encounters E K)" by force
  then have "map_of (encounters E K) i = Some e" by (simp add: encounters_def)
  from map_from_entry [OF this [unfolded encounters_def]] show ?thesis
    by (auto simp: encounterOf_def)
qed

lemma unique_boss_is_encounter:
  "lookupUniqueRaidBossByName E K b = Some e \<Longrightarrow> e \<in> snd ` set (encounters E K)"
  unfolding lookupUniqueRaidBossByName_def encountersByBossName_def
  by (drule index_get_mem) (auto simp: namedEncounters_def)

definition zone_uncatalogued :: "js_env \<Rightarrow> catalogueData \<Rightarrow> bool" where
  \<comment> \<open>no catalogued raid is named like the combined zone\<close>
  "zone_uncatalogued E K \<longleftrightarrow> list_all (\<lambda>raid. normalizedName E (jr_raidName raid) \<noteq> combinedMidnightZone E) (cat_raids K)"

lemma raiderIoBossByNames_returns:
  assumes "zone_uncatalogued E K" and "2 \<le> fuel"
  shows "(\<exists>answer. lookupRaiderIoBoss E K raidName bossName = Some answer) \<and>
         raiderIoBossByNames fuel E K raidName bossName = lookupRaiderIoBoss E K raidName bossName"
proof -
  have direct: "raiderIoBossByNames (Suc n) E K (re_raidName e) b = Some (directRaiderIoBoss E K (re_raidName e) b)"
    if "lookupUniqueRaidBossByName E K bossName = Some e" for n e b
    using encounters_of_raids [OF unique_boss_is_encounter [OF that]] assms(1)
    by (auto simp: zone_uncatalogued_def list_all_iff)
  obtain n where "fuel = Suc (Suc n)" using assms(2) by (metis Suc_le_D numeral_2_eq_2 Suc_le_mono)
  then show ?thesis
    using direct by (auto simp: lookupRaiderIoBoss_def numeral_2_eq_2 split: option.split simp del: raiderIoBossByNames.simps(2)
        simp add: raiderIoBossByNames.simps(2) [of _ _ _ raidName])
qed

text \<open>
  C16. The boss lookup returns: the combined zone is resolved by at most one further call,
  and allowing more calls changes nothing.
\<close>

theorem raiderIoBoss_terminates:
  assumes "zone_uncatalogued E K" and "2 \<le> fuel"
  shows "(\<exists>answer. lookupRaiderIoBoss E K raidName bossName = Some answer) \<and>
         raiderIoBossByNames fuel E K raidName bossName = lookupRaiderIoBoss E K raidName bossName"
  using assms by (rule raiderIoBossByNames_returns)

lemma bucketEncounter_cases:
  assumes "bucketEncounter bossSlug bucket = Some e"
  shows "e \<in> set bucket \<and> (\<forall>x \<in> set bucket. re_bossOrder e \<le> re_bossOrder x) \<and>
         (\<forall>x \<in> set bucket. re_raidId x = re_raidId e \<and> (x = e \<or> re_raiderIoBossSlug x = Some bossSlug))"
proof -
  let ?cmp = "\<lambda>a b. re_bossOrder a - re_bossOrder b"
  have cmp: "js_comparator ?cmp" by (rule js_comparator_pullback [OF js_comparator_minus])
  obtain others where sorted: "sort_by ?cmp bucket = e # others"
    and all: "others = [] \<or> list_all (\<lambda>x. re_raidId x = re_raidId e \<and> re_raiderIoBossSlug x = Some bossSlug) (e # others)"
    using assms unfolding bucketEncounter_def by (cases "sort_by ?cmp bucket") (simp_all split: if_splits)
  have set: "set bucket = set (e # others)" using sorted by (metis set_sort_by)
  then have "bucket \<noteq> []" by auto
  then have least: "re_bossOrder e \<le> re_bossOrder x" if "x \<in> set bucket" for x
    using js_comparator.hd_sort_by_least [OF cmp _ that] sorted by simp
  from all have "\<forall>x \<in> set (e # others). re_raidId x = re_raidId e \<and> (x = e \<or> re_raiderIoBossSlug x = Some bossSlug)"
    by (auto simp: list_all_iff)
  with least set show ?thesis by (metis list.set_intros(1))
qed

text \<open>
  A Raider.IO slug pair names the encounter it is answered with: that encounter has
  those slugs, and any other encounter sharing them is a later boss of the same raid whose
  slug the overrides table sets, so the slugs are never read as one of two different raids.
\<close>

theorem slugs_unambiguous:
  assumes "lookupRaidEncounterByRaiderIoSlugs E K raidSlug bossSlug = Some e"
  shows "slugsOf E e = Some (raidSlug, bossSlug) \<and> e \<in> snd ` set (encounters E K) \<and>
         (\<forall>x \<in> snd ` set (encounters E K). slugsOf E x = Some (raidSlug, bossSlug) \<longrightarrow>
            re_raidId x = re_raidId e \<and> re_bossOrder e \<le> re_bossOrder x \<and>
            (x = e \<or> re_raiderIoBossSlug x = Some bossSlug))"
proof -
  let ?bucket = "filter (\<lambda>x. the (slugsOf E x) = (raidSlug, bossSlug))
      (filter (\<lambda>e. slugsOf E e \<noteq> None) (map snd (encounters E K)))"
  obtain bucket where bucket: "map_of (slugBuckets E K) (raidSlug, bossSlug) = Some bucket"
    and found: "bucketEncounter bossSlug bucket = Some e"
    using assms by (auto simp: lookupRaidEncounterByRaiderIoSlugs_def simp del: map_of_eq_Some_iff split: option.splits)
  have "bucket = ?bucket"
    using bucket unfolding slugBuckets_def map_of_group_by by (simp split: list.splits)
  then have members: "x \<in> set bucket \<longleftrightarrow>
      x \<in> snd ` set (encounters E K) \<and> slugsOf E x = Some (raidSlug, bossSlug)" for x
    by auto
  show ?thesis using bucketEncounter_cases [OF found] unfolding members Ball_def by blast
qed

subsection \<open>Cutting Edge achievements\<close>

fun recorded_part :: "'a cuttingEdgeEntry \<Rightarrow> 'a list" where
  "recorded_part (Recorded a) = [a]"
| "recorded_part (Not_recorded c) = []"

lemma concat_recorded: "concat (map (recorded_part \<circ> Recorded) xs) = xs"
  by (induction xs) auto

lemma concat_map_concat: "concat (map f (concat (map g xs))) = concat (map (\<lambda>x. concat (map f (g x))) xs)"
  by (induction xs) auto

lemma mset_filter_classes:
  assumes "distinct ks" and "f ` set xs \<subseteq> set ks"
  shows "mset (concat (map (\<lambda>k. filter (\<lambda>x. f x = k) xs) ks)) = mset xs"
  using assms
proof (induction ks arbitrary: xs)
  case (Cons k ks)
  let ?rest = "filter (\<lambda>x. f x \<noteq> k) xs"
  have "map (\<lambda>k. filter (\<lambda>x. f x = k) xs) ks = map (\<lambda>k. filter (\<lambda>x. f x = k) ?rest) ks"
    using Cons.prems(1) by (intro map_cong) (auto intro!: filter_cong)
  moreover have "mset (concat (map (\<lambda>k. filter (\<lambda>x. f x = k) ?rest) ks)) = mset ?rest"
    using Cons.prems by (intro Cons.IH) auto
  ultimately have "mset (concat (map (\<lambda>k. filter (\<lambda>x. f x = k) xs) (k # ks))) =
      filter_mset (\<lambda>x. f x = k) (mset xs) + filter_mset (\<lambda>x. \<not> f x = k) (mset xs)"
    by (simp only: list.map concat.simps mset_append mset_filter)
  also have "\<dots> = mset xs" by (rule multiset_partition [symmetric])
  finally show ?case .
qed simp

lemma cataloguedAchievement_iff:
  "lookupCuttingEdgeAchievement catalogue i \<noteq> None \<longleftrightarrow> i \<in> ach_achievementId ` set catalogue"
  by (force simp: lookupCuttingEdgeAchievement_def map_of_map_from map_of_eq_None_iff
      simp flip: rev_map)

text \<open>
  The Cutting Edge sequence loses and repeats nothing: whatever achievements were
  recorded, catalogued or not, its recorded entries are those achievements, provided the
  generated catalogue lists an id once.
\<close>

theorem cutting_edge_keeps_recorded:
  assumes "distinct (map ach_achievementId catalogue)"
  shows "mset (concat (map recorded_part (buildCuttingEdgeSequence catalogue achievementId recorded))) = mset recorded"
proof (cases "recorded = [] \<or> list_ex (\<lambda>a. lookupCuttingEdgeAchievement catalogue (achievementId a) = None) recorded")
  case False
  let ?bucket = "\<lambda>c. filter (\<lambda>a. achievementId a = ach_achievementId c) recorded"
  have "concat (map recorded_part (case map_of (group_by achievementId recorded []) (ach_achievementId c) of
          Some rs \<Rightarrow> map Recorded rs | None \<Rightarrow> [Not_recorded c])) = ?bucket c" for c
    by (simp add: map_of_group_by concat_recorded split: list.split)
  then have "concat (map recorded_part (buildCuttingEdgeSequence catalogue achievementId recorded)) =
      concat (map ?bucket (rev catalogue))"
    using False by (simp add: buildCuttingEdgeSequence_def concat_map_concat)
  also have "mset \<dots> = mset (concat (map (\<lambda>k. filter (\<lambda>x. achievementId x = k) recorded)
      (map ach_achievementId (rev catalogue))))"
    by (simp add: comp_def)
  also have "\<dots> = mset recorded"
    using assms False cataloguedAchievement_iff [of catalogue]
    by (intro mset_filter_classes) (auto simp: rev_map [symmetric] list_ex_iff)
  finally show ?thesis .
qed (auto simp: buildCuttingEdgeSequence_def Let_def concat_recorded)

subsection \<open>A small catalogue\<close>

text \<open>Two raids of the catalogue with some of their bosses, and their schedule.\<close>

definition sample_catalogue :: catalogueData where
  "sample_catalogue =
     \<lparr>cat_raids =
        [\<lparr>jr_journalRaidId = ''1273'', jr_raidName = ''Nerub-ar Palace'', jr_imageUrl = None,
          jr_encounters =
            [\<lparr>je_journalBossId = ''2599'', je_bossName = ''Sikran, Captain of the Sureki'', je_bossOrder = 3, je_imageUrl = None\<rparr>,
             \<lparr>je_journalBossId = ''2602'', je_bossName = ''Queen Ansurek'', je_bossOrder = 8, je_imageUrl = None\<rparr>]\<rparr>,
         \<lparr>jr_journalRaidId = ''1296'', jr_raidName = ''Liberation of Undermine'', jr_imageUrl = None,
          jr_encounters =
            [\<lparr>je_journalBossId = ''2644'', je_bossName = ''The One-Armed Bandit'', je_bossOrder = 6, je_imageUrl = None\<rparr>]\<rparr>],
      cat_windows =
        [(''nerubar-palace'', ''2024-09-17T15:00:00.000Z'', Some ''2025-02-25T15:00:00.000Z''),
         (''liberation-of-undermine'', ''2025-03-04T15:00:00.000Z'', Some ''2025-08-05T15:00:00.000Z'')],
      cat_dungeons = [''The Stonevault'']\<rparr>"

theorem eligibility_hull_witness:
  "currentContentEligibilityByRaidId ascii_env sample_catalogue ''2025-03-01T20:00:00.000Z'' ''1273'' = Some True"
proof -
  have g: "map_get (generatedContentWindows sample_catalogue) ''1273'' =
      Some \<lparr>rw_startsAt = ''2024-09-17T15:00:00.000Z'', rw_endsAt = Some ''2025-02-25T15:00:00.000Z'',
            rw_source = Raiderio_raiding_static_data\<rparr>"
    by code_simp
  have r: "map_get reviewedContentWindows ''1273'' =
      Some \<lparr>rw_startsAt = ''2024-09-17T00:00:00.000Z'', rw_endsAt = Some ''2025-03-04T00:00:00.000Z'',
            rw_source = Raiderio_raiding_static_data\<rparr>"
    by code_simp
  have dates: "dateParse ascii_env ''2024-09-17T00:00:00.000Z'' = Some 1726531200000"
    "dateParse ascii_env ''2024-09-17T15:00:00.000Z'' = Some 1726585200000"
    "dateParse ascii_env ''2025-03-04T00:00:00.000Z'' = Some 1741046400000"
    "dateParse ascii_env ''2025-02-25T15:00:00.000Z'' = Some 1740495600000"
    "dateParse ascii_env ''2025-03-01T20:00:00.000Z'' = Some 1740859200000"
    by code_simp+
  show ?thesis
    by (subst eligibility_hull [OF g r, of ascii_env 1726531200000 1726585200000 _ 1740859200000])
      (auto simp: dates intro: exI [of _ 1741046400000])
qed

theorem concluded_admits_no_kill_witness:
  "raidTierConclusionForRaidId ascii_env sample_catalogue ''1296'' (Some 1756684800000) = Concluded \<and>
   currentContentEligibilityByRaidId ascii_env sample_catalogue ''2025-09-01T00:00:00.000Z'' ''1296'' = Some False"
proof (rule concluded_admits_no_kill)
  show "raidTierConclusionForRaidId ascii_env sample_catalogue ''1296'' (Some 1755000000000) = Concluded"
    by code_simp
  show "dateParse ascii_env ''2025-09-01T00:00:00.000Z'' = Some 1756684800000"
    by code_simp
qed simp

lemma ascii_names_without_nul: "names_without_nul ascii_env"
proof -
  have "ascii_letter c \<or> ascii_digit c \<Longrightarrow> ascii_lower_char c \<noteq> CHR 0x00" for c
  proof
    assume c: "ascii_letter c \<or> ascii_digit c" "ascii_lower_char c = CHR 0x00"
    have "of_char (ascii_lower_char c) =
        (if CHR ''A'' \<le> c \<and> c \<le> CHR ''Z'' then of_char c + 32 else of_char c :: nat)"
      by (auto simp: ascii_lower_char_def less_eq_char_def take_bit_eq_mod)
    with c show False
      by (auto simp: ascii_letter_def ascii_digit_def less_eq_char_def split: if_splits)
  qed
  then show ?thesis
    by (force simp: names_without_nul_def normalizedName_def ascii_env_def)
qed

definition sample_evidence :: raidEvidenceIdentity where
  "sample_evidence = \<lparr>ev_raidName = ''Nerubar Palace'', ev_bossName = ''sikran'', ev_journalBossId = None\<rparr>"

theorem evidence_stays_in_tier_witness:
  "map_option re_bossId (lookupRaidEncounterForEvidence ascii_env sample_catalogue sample_evidence) = Some ''2599'' \<and>
   map_option re_raidId (lookupRaidEncounterForEvidence ascii_env sample_catalogue sample_evidence) = Some ''1273''"
proof -
  have "map_option rr_raidId (lookupRaidByName ascii_env sample_catalogue (ev_raidName sample_evidence)) = Some ''1273''"
    by code_simp
  then obtain raid where raid: "lookupRaidByName ascii_env sample_catalogue (ev_raidName sample_evidence) = Some raid"
    by auto
  have "map_option (\<lambda>e. (re_bossId e, re_raidId e))
      (lookupRaidEncounterForEvidence ascii_env sample_catalogue sample_evidence) = Some (''2599'', ''1273'')"
    by code_simp
  then obtain e where e: "lookupRaidEncounterForEvidence ascii_env sample_catalogue sample_evidence = Some e"
    "re_bossId e = ''2599''" "re_raidId e = ''1273''"
    by auto
  from evidence_stays_in_tier [OF ascii_names_without_nul raid e(1)] show ?thesis
    using e by simp
qed

theorem raiderIoBoss_terminates_witness:
  "raiderIoBossByNames 5 ascii_env sample_catalogue ''VS / DR / MQD'' ''Queen Ansurek'' = Some None"
proof -
  have "zone_uncatalogued ascii_env sample_catalogue" by code_simp
  from raiderIoBoss_terminates [OF this, of 5 "''VS / DR / MQD''" "''Queen Ansurek''"]
  have "raiderIoBossByNames 5 ascii_env sample_catalogue ''VS / DR / MQD'' ''Queen Ansurek'' =
      lookupRaiderIoBoss ascii_env sample_catalogue ''VS / DR / MQD'' ''Queen Ansurek''"
    by simp
  also have "\<dots> = Some None" by code_simp
  finally show ?thesis .
qed

theorem slugs_unambiguous_witness:
  "map_option (slugsOf ascii_env) (lookupRaidEncounterByRaiderIoSlugs ascii_env sample_catalogue
     ''nerubar-palace'' ''queen-ansurek'') = Some (Some (''nerubar-palace'', ''queen-ansurek''))"
proof -
  have "map_option re_bossId (lookupRaidEncounterByRaiderIoSlugs ascii_env sample_catalogue
     ''nerubar-palace'' ''queen-ansurek'') = Some ''2602''"
    by code_simp
  then obtain e where "lookupRaidEncounterByRaiderIoSlugs ascii_env sample_catalogue
     ''nerubar-palace'' ''queen-ansurek'' = Some e"
    by auto
  with slugs_unambiguous [OF this] show ?thesis by simp
qed

definition sample_achievements :: "cuttingEdgeAchievement list" where
  "sample_achievements =
     map (\<lambda>i. \<lparr>ach_achievementId = i, ach_achievementName = ''Cutting Edge'', ach_description = [],
                ach_iconUrl = None, ach_categoryId = ''15271''\<rparr>) [''40254'', ''41297'']"

theorem cutting_edge_keeps_recorded_witness:
  "mset (concat (map recorded_part (buildCuttingEdgeSequence sample_achievements (\<lambda>a. a) [''40254'']))) = {#''40254''#} \<and>
   length (buildCuttingEdgeSequence sample_achievements (\<lambda>a. a) [''40254'']) = 2"
proof -
  have "distinct (map ach_achievementId sample_achievements)" by code_simp
  from cutting_edge_keeps_recorded [OF this, of "\<lambda>a. a" "[''40254'']"]
  have "mset (concat (map recorded_part (buildCuttingEdgeSequence sample_achievements (\<lambda>a. a) [''40254'']))) = {#''40254''#}"
    by simp
  moreover have "length (buildCuttingEdgeSequence sample_achievements (\<lambda>a. a) [''40254'']) = 2" by code_simp
  ultimately show ?thesis by blast
qed

end
