(* ===== verification/GuildHistory.thy ===== *)
theory GuildHistory
  imports RaidCatalogue
begin

section \<open>Guild history\<close>

text \<open>
  \<open>packages/domain/src/guild-history.ts\<close>: the raid nights a dossier's kills place in each
  guild, and the stretches of them a timeline draws.
\<close>

subsection \<open>Which guild a name refers to\<close>

definition comparable :: "js_env \<Rightarrow> string \<Rightarrow> (char \<Rightarrow> bool) \<Rightarrow> string" where
  "comparable E v ignored = toLower E (filter (\<lambda>c. \<not> ignored c) (nfkd E v))"

definition REALM_IGNORED :: "js_env \<Rightarrow> char \<Rightarrow> bool" where
  "REALM_IGNORED E c \<longleftrightarrow> isSpace E c \<or> c = CHR 0x27 \<or> c = CHR ''-''"

definition NAME_IGNORED :: "js_env \<Rightarrow> char \<Rightarrow> bool" where
  "NAME_IGNORED E c \<longleftrightarrow> isSpace E c"

definition guildIdentity :: "js_env \<Rightarrow> characterGuild \<Rightarrow> string" where
  "guildIdentity E guild =
     json_string_array [g_region guild, comparable E (g_realm guild) (REALM_IGNORED E),
       comparable E (g_name guild) (NAME_IGNORED E)]"

definition byCharacter :: "js_env \<Rightarrow> characterKey \<Rightarrow> characterKey \<Rightarrow> int" where
  "byCharacter E a b = order_cmp (canonicalCharacterId E a) (canonicalCharacterId E b)"

subsection \<open>Raid nights\<close>

record guildRaidNight =
  gn_date :: string
  gn_characters :: "characterKey list"

record guildHistoryEntry =
  gh_guild :: characterGuild
  gh_nights :: "guildRaidNight list"

record guildKill =
  gk_character :: characterKey
  gk_killedAt :: string
  gk_guild :: "characterGuild option"

record guildAccumulator =
  ga_guild :: characterGuild
  ga_seenAt :: string
  ga_nights :: "(string, (string, characterKey) jsmap) jsmap"

definition recordNight ::
    "js_env \<Rightarrow> guildKill \<Rightarrow> (string, (string, characterKey) jsmap) jsmap \<Rightarrow>
     (string, (string, characterKey) jsmap) jsmap" where
  "recordNight E kill nights =
     (let date = take 10 (gk_killedAt kill);
          night = (case map_get nights date of None \<Rightarrow> [] | Some n \<Rightarrow> n)
      in map_set date (map_set (canonicalCharacterId E (gk_character kill)) (gk_character kill) night) nights)"

definition recordGuildKill ::
    "js_env \<Rightarrow> guildKill \<Rightarrow> (string, guildAccumulator) jsmap \<Rightarrow> (string, guildAccumulator) jsmap" where
  "recordGuildKill E kill guilds =
     (case gk_guild kill of
        None \<Rightarrow> guilds
      | Some guild \<Rightarrow>
          (let i = guildIdentity E guild;
               entry = (case map_get guilds i of
                   Some entry \<Rightarrow> entry
                 | None \<Rightarrow> \<lparr>ga_guild = guild, ga_seenAt = gk_killedAt kill, ga_nights = []\<rparr>);
               named = (if ga_seenAt entry < gk_killedAt kill
                        then entry\<lparr>ga_guild := guild, ga_seenAt := gk_killedAt kill\<rparr> else entry)
           in map_set i (named\<lparr>ga_nights := recordNight E kill (ga_nights named)\<rparr>) guilds))"

definition historyEntry :: "js_env \<Rightarrow> guildAccumulator \<Rightarrow> guildHistoryEntry" where
  "historyEntry E entry =
     \<lparr>gh_guild = ga_guild entry,
      gh_nights = map (\<lambda>(date, characters).
          \<lparr>gn_date = date, gn_characters = sort_by (byCharacter E) (map snd characters)\<rparr>)
        (sort_by (\<lambda>a b. order_cmp (fst a) (fst b)) (ga_nights entry))\<rparr>"

definition compareHistory :: "js_env \<Rightarrow> guildHistoryEntry \<Rightarrow> guildHistoryEntry \<Rightarrow> int" where
  \<comment> \<open>every entry has a first night\<close>
  "compareHistory E a b =
     or_else (order_cmp (gn_date (hd (gh_nights a))) (gn_date (hd (gh_nights b))))
       (localeCompare E (g_name (gh_guild a)) (g_name (gh_guild b)))"

definition guildAccumulators :: "js_env \<Rightarrow> guildKill list \<Rightarrow> (string, guildAccumulator) jsmap" where
  "guildAccumulators E kills = foldl (\<lambda>guilds kill. recordGuildKill E kill guilds) [] kills"

definition collectGuildRaidNights :: "js_env \<Rightarrow> guildKill list \<Rightarrow> guildHistoryEntry list" where
  "collectGuildRaidNights E kills =
     sort_by (compareHistory E) (map (\<lambda>e. historyEntry E (snd e)) (guildAccumulators E kills))"

subsection \<open>Timeline spans\<close>

record guildTimelineSpan =
  gs_guild :: characterGuild
  gs_guildId :: string
  gs_firstNight :: string
  gs_lastNight :: string
  gs_nights :: nat
  gs_characters :: "characterKey list"
  gs_tiers :: "string list"

definition MINIMUM_GUILD_NIGHTS :: nat where "MINIMUM_GUILD_NIGHTS = 2"

fun tierIndexFrom :: "int \<Rightarrow> int \<Rightarrow> raidTier list \<Rightarrow> string \<Rightarrow> int" where
  "tierIndexFrom candidate index [] date = index"
| "tierIndexFrom candidate index (tier # tiers) date =
     (if date < rt_startsOn tier then index
      else tierIndexFrom (candidate + 1) candidate tiers date)"

definition tierIndex :: "raidTier list \<Rightarrow> string \<Rightarrow> int" where
  "tierIndex tiers date = tierIndexFrom 0 (- 1) tiers date"

record openSpan =
  os_firstNight :: string
  os_lastNight :: string
  os_nights :: nat
  os_tier :: int
  os_characters :: "(string, characterKey) jsmap"
  os_tiers :: "int list"

definition visibleNights :: "(characterKey \<Rightarrow> bool) \<Rightarrow> guildHistoryEntry \<Rightarrow> guildRaidNight list" where
  "visibleNights visible entry =
     List.map_filter (\<lambda>night.
        case filter visible (gn_characters night) of
          [] \<Rightarrow> None | characters \<Rightarrow> Some (night\<lparr>gn_characters := characters\<rparr>))
      (gh_nights entry)"

definition closeSpan ::
    "js_env \<Rightarrow> raidTier list \<Rightarrow> characterGuild \<Rightarrow> openSpan option \<Rightarrow> guildTimelineSpan list" where
  "closeSpan E tiers guild current =
     (case current of
        None \<Rightarrow> []
      | Some c \<Rightarrow>
          [\<lparr>gs_guild = guild, gs_guildId = guildIdentity E guild,
            gs_firstNight = os_firstNight c, gs_lastNight = os_lastNight c, gs_nights = os_nights c,
            gs_characters = sort_by (byCharacter E) (map snd (os_characters c)),
            gs_tiers = map (\<lambda>index. rt_name (tiers ! nat index))
              (sort_by (\<lambda>a b. a - b) (filter (\<lambda>index. 0 \<le> index) (os_tiers c)))\<rparr>])"

definition opensSpan :: "openSpan option \<Rightarrow> int \<Rightarrow> bool" where
  "opensSpan current tier = (case current of None \<Rightarrow> True | Some c \<Rightarrow> os_tier c + 1 < tier)"

definition newSpan :: "guildRaidNight \<Rightarrow> int \<Rightarrow> openSpan" where
  "newSpan night tier =
     \<lparr>os_firstNight = gn_date night, os_lastNight = gn_date night, os_nights = 0, os_tier = tier,
      os_characters = [], os_tiers = []\<rparr>"

definition extendSpan :: "js_env \<Rightarrow> guildRaidNight \<Rightarrow> int \<Rightarrow> openSpan \<Rightarrow> openSpan" where
  "extendSpan E night tier c =
     c\<lparr>os_lastNight := gn_date night, os_nights := os_nights c + 1, os_tier := tier,
       os_tiers := set_add tier (os_tiers c),
       os_characters := foldl (\<lambda>m character. map_set (canonicalCharacterId E character) character m)
         (os_characters c) (gn_characters night)\<rparr>"

fun spanLoop ::
    "js_env \<Rightarrow> raidTier list \<Rightarrow> characterGuild \<Rightarrow> guildRaidNight list \<Rightarrow> openSpan option \<Rightarrow>
     guildTimelineSpan list" where
  "spanLoop E tiers guild [] current = closeSpan E tiers guild current"
| "spanLoop E tiers guild (night # nights) current =
     (let tier = tierIndex tiers (gn_date night)
      in if opensSpan current tier
         then closeSpan E tiers guild current @
              spanLoop E tiers guild nights (Some (extendSpan E night tier (newSpan night tier)))
         else spanLoop E tiers guild nights (map_option (extendSpan E night tier) current))"

definition guildSpans ::
    "js_env \<Rightarrow> raidTier list \<Rightarrow> (characterKey \<Rightarrow> bool) \<Rightarrow> guildHistoryEntry \<Rightarrow> guildTimelineSpan list" where
  "guildSpans E tiers visible entry =
     (let nights = visibleNights visible entry
      in if length nights < MINIMUM_GUILD_NIGHTS then []
         else spanLoop E tiers (gh_guild entry) nights None)"

definition compareSpans :: "js_env \<Rightarrow> guildTimelineSpan \<Rightarrow> guildTimelineSpan \<Rightarrow> int" where
  "compareSpans E a b =
     or_else (order_cmp (gs_firstNight a) (gs_firstNight b))
       (localeCompare E (g_name (gs_guild a)) (g_name (gs_guild b)))"

definition guildTimelineSpans ::
    "js_env \<Rightarrow> raidTier list \<Rightarrow> (characterKey \<Rightarrow> bool) option \<Rightarrow> guildHistoryEntry list \<Rightarrow>
     guildTimelineSpan list" where
  "guildTimelineSpans E tiers isCharacterVisible history =
     (let visible = (case isCharacterVisible of None \<Rightarrow> (\<lambda>_. True) | Some f \<Rightarrow> f)
      in sort_by (compareSpans E) (concat (map (guildSpans E tiers visible) history)))"

end
