(* ===== verification/GuildHistoryCorrect.thy ===== *)
theory GuildHistoryCorrect
  imports GuildHistory
begin

section \<open>Correctness of the guild history\<close>

text \<open>
  The nested maps of the collection refine a set of (guild, night, character) triples; the
  timeline draws every visible night once.
\<close>

subsection \<open>The collection\<close>

definition nights_ok :: "js_env \<Rightarrow> (string, (string, characterKey) jsmap) jsmap \<Rightarrow> bool" where
  "nights_ok E nights \<longleftrightarrow>
     distinct (map fst nights) \<and>
     (\<forall>(date, night) \<in> set nights. distinct (map fst night) \<and> night \<noteq> [] \<and>
        (\<forall>(i, c) \<in> set night. i = canonicalCharacterId E c))"

definition guilds_ok :: "js_env \<Rightarrow> (string, guildAccumulator) jsmap \<Rightarrow> bool" where
  "guilds_ok E guilds \<longleftrightarrow>
     distinct (map fst guilds) \<and>
     (\<forall>(i, acc) \<in> set guilds. i = guildIdentity E (ga_guild acc) \<and> ga_nights acc \<noteq> [] \<and> nights_ok E (ga_nights acc))"

definition night_pairs :: "(string, (string, characterKey) jsmap) jsmap \<Rightarrow> (string \<times> string) set" where
  "night_pairs nights = {(date, i). \<exists>night. map_of nights date = Some night \<and> i \<in> dom (map_of night)}"

definition guild_triples :: "(string, guildAccumulator) jsmap \<Rightarrow> (string \<times> string \<times> string) set" where
  "guild_triples guilds =
     {(g, date, i). \<exists>acc. map_of guilds g = Some acc \<and> (date, i) \<in> night_pairs (ga_nights acc)}"

lemma nights_ok_Nil: "nights_ok E []"
  by (simp add: nights_ok_def)

lemma update_not_Nil [simp]: "AList.update k v m \<noteq> []"
  by (cases m) auto

lemma set_update_cases: "x \<in> set (AList.update k v m) \<Longrightarrow> x = (k, v) \<or> x \<in> set m"
  by (induction m) (auto split: if_splits)

lemma recordNight_ok:
  assumes "nights_ok E nights"
  shows "nights_ok E (recordNight E kill nights)"
proof -
  let ?date = "take 10 (gk_killedAt kill)" and ?i = "canonicalCharacterId E (gk_character kill)"
  define night where "night = (case map_of nights ?date of None \<Rightarrow> [] | Some n \<Rightarrow> n)"
  have night: "distinct (map fst night)" "\<forall>(i, c) \<in> set night. i = canonicalCharacterId E c"
    using assms by (auto simp: night_def nights_ok_def split: option.split dest!: map_of_SomeD)
  then have "distinct (map fst (AList.update ?i (gk_character kill) night))"
    "\<forall>(i, c) \<in> set (AList.update ?i (gk_character kill) night). i = canonicalCharacterId E c"
    by (auto simp: distinct_update dest!: set_update_cases)
  with assms show ?thesis
    by (auto simp: recordNight_def night_def [symmetric] nights_ok_def distinct_update Let_def
        dest!: set_update_cases)
qed

lemma recordNight_pairs:
  "night_pairs (recordNight E kill nights) =
     insert (take 10 (gk_killedAt kill), canonicalCharacterId E (gk_character kill)) (night_pairs nights)"
  by (auto simp: recordNight_def night_pairs_def Let_def update_conv' split: option.splits if_splits)

lemma recordGuildKill_ok:
  assumes "guilds_ok E guilds"
  shows "guilds_ok E (recordGuildKill E kill guilds)"
proof (cases "gk_guild kill")
  case (Some guild)
  let ?i = "guildIdentity E guild"
  define entry where "entry = (case map_of guilds ?i of Some entry \<Rightarrow> entry
      | None \<Rightarrow> \<lparr>ga_guild = guild, ga_seenAt = gk_killedAt kill, ga_nights = []\<rparr>)"
  define named where "named = (if ga_seenAt entry < gk_killedAt kill
      then entry\<lparr>ga_guild := guild, ga_seenAt := gk_killedAt kill\<rparr> else entry)"
  have "guildIdentity E (ga_guild entry) = ?i" "nights_ok E (ga_nights entry)"
    using assms nights_ok_Nil
    by (auto simp: entry_def guilds_ok_def split: option.split dest!: map_of_SomeD)
  then have "guildIdentity E (ga_guild named) = ?i" "nights_ok E (recordNight E kill (ga_nights named))"
    by (auto simp: named_def intro: recordNight_ok)
  moreover have "recordNight E kill (ga_nights named) \<noteq> []"
    by (simp add: recordNight_def Let_def)
  moreover have "recordGuildKill E kill guilds =
      AList.update ?i (named\<lparr>ga_nights := recordNight E kill (ga_nights named)\<rparr>) guilds"
    by (simp add: recordGuildKill_def Some entry_def named_def Let_def)
  ultimately show ?thesis
    using assms by (auto simp: guilds_ok_def distinct_update dest!: set_update_cases)
qed (simp add: recordGuildKill_def assms)

lemma recordGuildKill_triples:
  "guild_triples (recordGuildKill E kill guilds) =
     guild_triples guilds \<union>
     (case gk_guild kill of None \<Rightarrow> {} | Some g \<Rightarrow>
        {(guildIdentity E g, take 10 (gk_killedAt kill), canonicalCharacterId E (gk_character kill))})"
proof (cases "gk_guild kill")
  case (Some g)
  have empty: "night_pairs [] = {}" by (simp add: night_pairs_def)
  show ?thesis
    by (auto simp: recordGuildKill_def Some guild_triples_def Let_def update_conv' recordNight_pairs empty
        split: option.splits if_splits)
qed (simp add: recordGuildKill_def)

definition kill_triples :: "js_env \<Rightarrow> guildKill list \<Rightarrow> (string \<times> string \<times> string) set" where
  \<comment> \<open>the guild, the UTC day and the character of every kill whose report names a guild\<close>
  "kill_triples E kills =
     {(guildIdentity E g, take 10 (gk_killedAt k), canonicalCharacterId E (gk_character k)) | k g.
        k \<in> set kills \<and> gk_guild k = Some g}"

lemma foldl_guild_kills:
  "guilds_ok E m \<Longrightarrow>
   guilds_ok E (foldl (\<lambda>guilds kill. recordGuildKill E kill guilds) m kills) \<and>
   guild_triples (foldl (\<lambda>guilds kill. recordGuildKill E kill guilds) m kills) =
     guild_triples m \<union> kill_triples E kills"
proof (induction kills arbitrary: m)
  case (Cons kill kills)
  have "kill_triples E (kill # kills) =
      (case gk_guild kill of None \<Rightarrow> {} | Some g \<Rightarrow>
        {(guildIdentity E g, take 10 (gk_killedAt kill), canonicalCharacterId E (gk_character kill))})
      \<union> kill_triples E kills"
    by (auto simp: kill_triples_def split: option.split)
  with Cons.IH [OF recordGuildKill_ok [OF Cons.prems], of kill] show ?case
    by (simp add: recordGuildKill_triples Un_assoc)
qed (simp add: kill_triples_def)

lemma guildAccumulators_ok: "guilds_ok E (guildAccumulators E kills)"
  and guildAccumulators_triples: "guild_triples (guildAccumulators E kills) = kill_triples E kills"
proof -
  have "guilds_ok E []" "guild_triples [] = {}" by (simp_all add: guilds_ok_def guild_triples_def)
  then show "guilds_ok E (guildAccumulators E kills)"
    "guild_triples (guildAccumulators E kills) = kill_triples E kills"
    using foldl_guild_kills [of E "[]" kills] by (simp_all add: guildAccumulators_def)
qed

definition history_triples :: "js_env \<Rightarrow> guildHistoryEntry list \<Rightarrow> (string \<times> string \<times> string) set" where
  "history_triples E history =
     {(guildIdentity E (gh_guild h), gn_date n, canonicalCharacterId E c) | h n c.
        h \<in> set history \<and> n \<in> set (gh_nights h) \<and> c \<in> set (gn_characters n)}"

lemma history_triples_accumulated:
  assumes "guilds_ok E guilds"
  shows "history_triples E (map (\<lambda>e. historyEntry E (snd e)) guilds) = guild_triples guilds"
proof -
  have g: "map_of guilds i = Some acc \<longleftrightarrow> (i, acc) \<in> set guilds" for i acc
    using assms by (simp add: guilds_ok_def)
  have n: "map_of (ga_nights acc) date = Some night \<longleftrightarrow> (date, night) \<in> set (ga_nights acc)"
    if "(i, acc) \<in> set guilds" for i acc date night
    using assms that by (auto simp: guilds_ok_def nights_ok_def)
  have dom: "i \<in> dom (map_of night) \<longleftrightarrow> (\<exists>c. (canonicalCharacterId E c, c) \<in> set night \<and> i = canonicalCharacterId E c)"
    if "(g, acc) \<in> set guilds" "(date, night) \<in> set (ga_nights acc)" for g acc date night i
  proof -
    have "\<forall>(i, c) \<in> set night. i = canonicalCharacterId E c"
      using assms that by (fastforce simp: guilds_ok_def nights_ok_def)
    then show ?thesis by (force simp: dom_map_of_conv_image_fst)
  qed
  show ?thesis
  proof (intro set_eqI iffI)
    fix t assume "t \<in> history_triples E (map (\<lambda>e. historyEntry E (snd e)) guilds)"
    then obtain i acc date night j c where m: "(i, acc) \<in> set guilds" "(date, night) \<in> set (ga_nights acc)"
        "(j, c) \<in> set night"
      and t: "t = (guildIdentity E (ga_guild acc), date, canonicalCharacterId E c)"
      by (auto simp: history_triples_def historyEntry_def)
    have ids: "i = guildIdentity E (ga_guild acc)" "j = canonicalCharacterId E c"
      using assms m by (fastforce simp: guilds_ok_def nights_ok_def)+
    then have "j \<in> dom (map_of night)" using dom [OF m(1,2)] m(3) by metis
    moreover have "map_of guilds i = Some acc" "map_of (ga_nights acc) date = Some night"
      using g n m by metis+
    ultimately show "t \<in> guild_triples guilds"
      unfolding t guild_triples_def night_pairs_def ids [symmetric] by blast
  next
    fix t assume "t \<in> guild_triples guilds"
    then obtain i acc date night j where "map_of guilds i = Some acc" "map_of (ga_nights acc) date = Some night"
        "j \<in> dom (map_of night)" and t: "t = (i, date, j)"
      unfolding guild_triples_def night_pairs_def by blast
    then obtain c where m: "(i, acc) \<in> set guilds" "(date, night) \<in> set (ga_nights acc)"
        "(canonicalCharacterId E c, c) \<in> set night" "j = canonicalCharacterId E c"
      using g n dom by metis
    then have "i = guildIdentity E (ga_guild acc)"
      using assms m by (fastforce simp: guilds_ok_def)
    with m t show "t \<in> history_triples E (map (\<lambda>e. historyEntry E (snd e)) guilds)"
      by (force simp: history_triples_def historyEntry_def)
  qed
qed

lemma sorted_nights:
  assumes "nights_ok E (ga_nights acc)"
  shows "sorted_wrt (<) (map gn_date (gh_nights (historyEntry E acc)))"
proof -
  let ?cmp = "\<lambda>a b :: string \<times> (string, characterKey) jsmap. order_cmp (fst a) (fst b)"
  let ?s = "sort_by ?cmp (ga_nights acc)"
  have "js_comparator ?cmp" by (rule js_comparator_pullback [OF js_comparator_order_cmp])
  then have "sorted_wrt (\<lambda>a b. ?cmp a b \<le> 0) ?s" by (rule js_comparator.sorted_sort_by)
  then have "sorted (map fst ?s)" by (simp add: sorted_map)
  moreover have "distinct (map fst ?s)"
    using assms by (simp add: nights_ok_def distinct_map_sort_by)
  moreover have "map gn_date (gh_nights (historyEntry E acc)) = map fst ?s"
    by (simp add: historyEntry_def split_beta comp_def)
  ultimately show ?thesis by (simp only: strict_sorted_iff)
qed

lemma collected_sorted:
  "list_all (\<lambda>h. gh_nights h \<noteq> [] \<and> sorted_wrt (<) (map gn_date (gh_nights h))) (collectGuildRaidNights E kills)"
  using guildAccumulators_ok [of E kills] sorted_nights
  by (fastforce simp: collectGuildRaidNights_def list_all_iff guilds_ok_def historyEntry_def)

text \<open>
  The guild history says exactly what the kills say: a character raided with a guild on a
  day exactly when one of its kills on that UTC day is in a report naming the guild; a guild
  appears once, under whichever spelling, and its nights are listed once each, oldest first.
\<close>

theorem guild_nights_exact:
  "history_triples E (collectGuildRaidNights E kills) = kill_triples E kills \<and>
   distinct (map (\<lambda>h. guildIdentity E (gh_guild h)) (collectGuildRaidNights E kills)) \<and>
   list_all (\<lambda>h. gh_nights h \<noteq> [] \<and> sorted_wrt (<) (map gn_date (gh_nights h))) (collectGuildRaidNights E kills)"
proof (intro conjI)
  let ?acc = "guildAccumulators E kills"
  have ok: "guilds_ok E ?acc" by (rule guildAccumulators_ok)
  show "history_triples E (collectGuildRaidNights E kills) = kill_triples E kills"
    using history_triples_accumulated [OF ok] guildAccumulators_triples
    by (simp add: collectGuildRaidNights_def history_triples_def)
  have "map (\<lambda>e. guildIdentity E (ga_guild (snd e))) ?acc = map fst ?acc"
    using ok by (force simp: guilds_ok_def)
  then have "distinct (map (\<lambda>e. guildIdentity E (ga_guild (snd e))) ?acc)"
    using ok by (metis guilds_ok_def)
  then show "distinct (map (\<lambda>h. guildIdentity E (gh_guild h)) (collectGuildRaidNights E kills))"
    by (simp add: collectGuildRaidNights_def distinct_map_sort_by comp_def historyEntry_def)
  show "list_all (\<lambda>h. gh_nights h \<noteq> [] \<and> sorted_wrt (<) (map gn_date (gh_nights h))) (collectGuildRaidNights E kills)"
    by (rule collected_sorted)
qed

subsection \<open>The timeline\<close>

text \<open>The tier of a day is the last of the leading tiers that had opened by it.\<close>

lemma tierIndexFrom_takeWhile:
  "tierIndexFrom candidate index tiers date =
     (let n = length (takeWhile (\<lambda>t. rt_startsOn t \<le> date) tiers)
      in if n = 0 then index else candidate + int n - 1)"
  by (induction candidate index tiers date rule: tierIndexFrom.induct) (auto simp: Let_def not_less)

lemma tierIndex_takeWhile:
  "tierIndex tiers date = int (length (takeWhile (\<lambda>t. rt_startsOn t \<le> date) tiers)) - 1"
  by (simp add: tierIndex_def tierIndexFrom_takeWhile Let_def)

lemma tierIndex_less: "tierIndex tiers date < int (length tiers)"
  using length_takeWhile_le [of "\<lambda>t. rt_startsOn t \<le> date" tiers] by (simp add: tierIndex_takeWhile)

definition span_ok :: "raidTier list \<Rightarrow> guildTimelineSpan \<Rightarrow> bool" where
  "span_ok tiers s \<longleftrightarrow>
     0 < gs_nights s \<and> gs_firstNight s \<le> gs_lastNight s \<and> set (gs_tiers s) \<subseteq> set (map rt_name tiers)"

definition open_ok :: "raidTier list \<Rightarrow> openSpan \<Rightarrow> bool" where
  "open_ok tiers c \<longleftrightarrow>
     0 < os_nights c \<and> os_firstNight c \<le> os_lastNight c \<and> (\<forall>i \<in> set (os_tiers c). i < int (length tiers))"

lemma closeSpan_ok:
  "(case current of None \<Rightarrow> True | Some c \<Rightarrow> open_ok tiers c) \<Longrightarrow>
   list_all (span_ok tiers) (closeSpan E tiers guild current)"
  by (auto simp: closeSpan_def span_ok_def open_ok_def split: option.split intro!: imageI nth_mem)
    (auto simp: nat_less_iff)

lemma sum_closeSpan:
  "sum_list (map gs_nights (closeSpan E tiers guild current)) = (case current of None \<Rightarrow> 0 | Some c \<Rightarrow> os_nights c)"
  by (auto simp: closeSpan_def split: option.split)

lemma spanLoop_nights:
  "sum_list (map gs_nights (spanLoop E tiers guild nights current)) =
     length nights + (case current of None \<Rightarrow> 0 | Some c \<Rightarrow> os_nights c)"
  by (induction E tiers guild nights current rule: spanLoop.induct)
    (auto simp: sum_closeSpan Let_def opensSpan_def extendSpan_def newSpan_def split: option.split if_split)

lemma spanLoop_ok:
  assumes "sorted_wrt (<) (map gn_date nights)"
    and "case current of None \<Rightarrow> True
         | Some c \<Rightarrow> open_ok tiers c \<and> (\<forall>n \<in> set nights. os_lastNight c \<le> gn_date n)"
  shows "list_all (span_ok tiers) (spanLoop E tiers guild nights current)"
  using assms
proof (induction E tiers guild nights current rule: spanLoop.induct)
  case (1 E tiers guild current)
  then show ?case by (simp add: closeSpan_ok split: option.splits)
next
  case (2 E tiers guild night nights current)
  define tier where "tier = tierIndex tiers (gn_date night)"
  have later: "\<forall>n \<in> set nights. gn_date night \<le> gn_date n" using "2.prems"(1) by auto
  have tier: "tier < int (length tiers)" by (simp add: tier_def tierIndex_less)
  show ?case
  proof (cases "opensSpan current tier")
    case True
    have "open_ok tiers (extendSpan E night tier (newSpan night tier))"
      using tier by (simp add: open_ok_def extendSpan_def newSpan_def)
    then show ?thesis
      using "2.IH"(1) [OF tier_def True] "2.prems" later True
      by (simp add: tier_def [symmetric] Let_def closeSpan_ok extendSpan_def split: option.splits)
  next
    case False
    then obtain c where c: "current = Some c" by (auto simp: opensSpan_def split: option.splits)
    have "open_ok tiers (extendSpan E night tier c)"
      using tier "2.prems"(2) c order_trans [of "os_firstNight c" "os_lastNight c" "gn_date night"]
      by (auto simp: open_ok_def extendSpan_def)
    then show ?thesis
      using "2.IH"(2) [OF tier_def False] "2.prems"(1) later False c
      by (simp add: tier_def [symmetric] Let_def extendSpan_def)
  qed
qed

lemma subseq_map_filter_dates:
  assumes "\<And>n n'. f n = Some n' \<Longrightarrow> gn_date n' = gn_date n"
  shows "subseq (map gn_date (List.map_filter f nights)) (map gn_date nights)"
  by (induction nights) (auto simp: map_filter_simps assms split: option.split)

lemma visibleNights_sorted:
  assumes "sorted_wrt (<) (map gn_date (gh_nights entry))"
  shows "sorted_wrt (<) (map gn_date (visibleNights visible entry))"
  unfolding visibleNights_def
  by (rule sorted_wrt_subseq [OF subseq_map_filter_dates assms]) (auto split: list.splits)

text \<open>
  The timeline of a collected history draws every visible night of every guild seen on at
  least two of them, exactly once; each span is non-empty, runs forwards and names only
  existing tiers.
\<close>

theorem timeline_draws_every_night:
  "sum_list (map gs_nights (guildTimelineSpans E tiers (Some visible) (collectGuildRaidNights E kills))) =
     sum_list (map (\<lambda>h. if length (visibleNights visible h) < 2 then 0 else length (visibleNights visible h)) (collectGuildRaidNights E kills)) \<and>
   list_all (span_ok tiers) (guildTimelineSpans E tiers (Some visible) (collectGuildRaidNights E kills))"
proof
  let ?history = "collectGuildRaidNights E kills"
  have mset_sum: "mset xs = mset ys \<Longrightarrow> sum_list (map gs_nights xs) = sum_list (map gs_nights ys)" for xs ys
    by (metis mset_map sum_mset_sum_list)
  have "sum_list (map gs_nights (guildSpans E tiers visible h)) =
      (if length (visibleNights visible h) < 2 then 0 else length (visibleNights visible h))" for h
    by (simp add: guildSpans_def MINIMUM_GUILD_NIGHTS_def spanLoop_nights Let_def)
  then have "sum_list (map gs_nights (concat (map (guildSpans E tiers visible) hs))) =
      sum_list (map (\<lambda>h. if length (visibleNights visible h) < 2 then 0 else length (visibleNights visible h)) hs)" for hs
    by (induction hs) simp_all
  then show "sum_list (map gs_nights (guildTimelineSpans E tiers (Some visible) ?history)) =
      sum_list (map (\<lambda>h. if length (visibleNights visible h) < 2 then 0 else length (visibleNights visible h)) ?history)"
    by (simp add: guildTimelineSpans_def mset_sum [OF mset_sort_by])
  have "sorted_wrt (<) (map gn_date (visibleNights visible h))" if "h \<in> set ?history" for h
    using that collected_sorted [of E kills] visibleNights_sorted
    by (auto simp: list_all_iff)
  then show "list_all (span_ok tiers) (guildTimelineSpans E tiers (Some visible) ?history)"
    using spanLoop_ok [where current = None]
    by (fastforce simp: guildTimelineSpans_def guildSpans_def Let_def list_all_iff split: if_splits)
qed

end
