(* ===== verification/Dossier.thy ===== *)
theory Dossier
  imports RaidCatalogue
begin

section \<open>The applicant dossier\<close>

text \<open>
  \<open>packages/domain/src/applicant-dossier.ts\<close>: from the kills, wipes, best parses, Cutting
  Edge achievements and Raider.IO first kills of a group of characters, the raids and
  bosses the dossier shows, and the limitations that say what was withheld. The
  achievement catalogue is a parameter, as the raid catalogue is.
\<close>

subsection \<open>Evidence\<close>

record dossierCharacter =
  dch_key :: characterKey
  dch_displayName :: string
  dch_className :: "string option"
  dch_guild :: "characterGuild option"
  dch_raiderIoUrl :: "string option"

datatype dossierKillParseMetric = Metric rat | Metric_not_applicable | Metric_unavailable

record dossierSpec =
  sp_name :: string
  sp_iconUrl :: string

record dossierKillPerformance =
  pf_spec :: "dossierSpec option"
  pf_damage :: dossierKillParseMetric
  pf_healing :: dossierKillParseMetric
  pf_bossDamage :: dossierKillParseMetric

record dossierKillEvidence =
  ke_raidId :: string
  ke_raidName :: string
  ke_bossId :: string
  ke_bossName :: string
  ke_journalBossId :: "string option"
  ke_bossOrder :: int
  ke_character :: characterKey
  ke_killedAt :: string
  ke_guild :: "characterGuild option"
  ke_historicWorldRank :: "int option"
  ke_reportUrl :: "string option"
  ke_uploader :: "string option"
  ke_loggedAs :: "characterKey option"
  ke_performance :: dossierKillPerformance

record dossierTierBestParse =
  tb_raidName :: string
  tb_bossName :: string
  tb_character :: characterKey
  tb_rankingsUrl :: string
  tb_loggedAs :: "characterKey option"
  tb_performance :: dossierKillPerformance

record dossierWipeEvidence =
  we_raidName :: string
  we_bossName :: string
  we_journalBossId :: "string option"
  we_character :: characterKey
  we_attemptedAt :: string
  we_reportUrl :: string
  we_guild :: "characterGuild option"
  we_uploader :: "string option"

record dossierLimitationEncounter =
  le_raidName :: string
  le_bossName :: "string option"
  le_kills :: nat

datatype limitationSource = Raiderio | Warcraft_logs | Blizzard

record dossierLimitation =
  dl_source :: limitationSource
  dl_character :: "characterKey option"
  dl_code :: string
  dl_observedAt :: "string option"
  dl_retryAt :: "string option"
  dl_encounters :: "dossierLimitationEncounter list option"
  dl_automatic :: "bool option" \<comment> \<open>\<open>recovery\<close>: automatic, none or absent\<close>

record dossierCuttingEdgeEvidence =
  ce_achievementId :: string
  ce_completedAt :: string

datatype dossierRosterRole = Tank | Healer | Dps

record dossierRosterMember =
  rm_name :: string
  rm_realm :: string
  rm_region :: string
  rm_className :: string
  rm_specName :: string
  rm_role :: dossierRosterRole
  rm_itemLevel :: "rat option"

record roleCounts =
  rc_tank :: nat
  rc_healer :: nat
  rc_dps :: nat

record itemLevels =
  il_average :: rat
  il_min :: rat
  il_max :: rat

datatype loggedRoster = Roster_available roleCounts "dossierRosterMember list" | Roster_private

record dossierLoggedEncounter =
  dle_pulledAt :: string
  dle_defeatedAt :: string
  dle_durationMs :: rat
  dle_guild :: "characterGuild option"
  dle_itemLevel :: itemLevels
  dle_deathCount :: nat
  dle_vantusCount :: "nat option"
  dle_roster :: loggedRoster

datatype firstKillEncounter = Log_read dossierLoggedEncounter | Log_not_read | Log_none

record dossierRaiderIoFirstKill =
  fk_character :: characterKey
  fk_raidSlug :: string
  fk_bossSlug :: string
  fk_killedAt :: string
  fk_guild :: "characterGuild option"
  fk_historicWorldRank :: "int option"
  fk_encounter :: firstKillEncounter

datatype unavailableRoster = Hidden_roster | No_logged_encounter | Not_read

record availableRoster =
  ar_playerCount :: nat
  ar_roleCounts :: roleCounts
  ar_itemLevel :: itemLevels
  ar_pulledAt :: string
  ar_durationMs :: rat
  ar_deathCount :: nat
  ar_vantusCount :: "nat option"
  ar_members :: "(dossierRosterMember \<times> bool) list" \<comment> \<open>with \<open>isDossierCharacter\<close>\<close>

datatype applicantDossierKillRoster = Roster availableRoster | No_roster unavailableRoster

record dossierInput =
  di_root :: characterKey
  di_characters :: "dossierCharacter list"
  di_kills :: "dossierKillEvidence list"
  di_wipes :: "dossierWipeEvidence list option"
  di_tierBests :: "dossierTierBestParse list"
  di_complete :: "characterKey list option"
  di_cuttingEdges :: "dossierCuttingEdgeEvidence list"
  di_firstKills :: "dossierRaiderIoFirstKill list"
  di_limitations :: "dossierLimitation list"

subsection \<open>The dossier\<close>

datatype reportSource = Guild_log | Personal_log

record applicantDossierReport =
  rp_reportUrl :: string
  rp_source :: reportSource
  rp_uploader :: "string option"
  rp_guild :: "characterGuild option"

datatype applicantDossierParseMetric =
    Parse_available rat string
  | Parse_not_applicable
  | Parse_unavailable

record applicantDossierCharacterParses =
  cp_character :: string
  cp_spec :: "dossierSpec option"
  cp_loggedAs :: "characterKey option"
  cp_damage :: applicantDossierParseMetric
  cp_healing :: applicantDossierParseMetric
  cp_bossDamage :: applicantDossierParseMetric

record applicantDossierFirstKill =
  af_killedAt :: string
  af_guild :: "characterGuild option"
  af_historicWorldRank :: "int option"
  af_reportUrl :: "string option"
  af_reportUrls :: "string list"
  af_reports :: "applicantDossierReport list"
  af_characters :: "characterKey list"
  af_parses :: "applicantDossierCharacterParses list"
  af_roster :: "applicantDossierKillRoster option"

record applicantDossierWipe =
  aw_attemptedAt :: string
  aw_reportUrl :: string
  aw_source :: reportSource
  aw_uploader :: "string option"
  aw_guild :: "characterGuild option"
  aw_characters :: "characterKey list"

record bossMetadata =
  bm_bossId :: string
  bm_bossName :: string
  bm_bossOrder :: int
  bm_imageUrl :: "string option"

record bossKills =
  bk_firstKill :: applicantDossierFirstKill
  bk_firstKills :: "applicantDossierFirstKill list"
  bk_bestParses :: "applicantDossierCharacterParses list"
  bk_wipes :: "applicantDossierWipe list"

datatype applicantDossierBoss =
    Boss_kill bossMetadata bossKills
  | Boss_wipe bossMetadata applicantDossierWipe "applicantDossierWipe list"
  | Boss_no_logs bossMetadata
  | Boss_incomplete bossMetadata

record applicantDossierRaid =
  ra_raidId :: string
  ra_raidName :: string
  ra_imageUrl :: "string option"
  ra_bosses :: "applicantDossierBoss list" \<comment> \<open>\<open>cuttingEdge\<close> is always \<open>null\<close>\<close>

record aggregatedBoss =
  ab_metadata :: bossMetadata
  ab_kills :: bossKills
  ab_isFinalBoss :: bool

record matchedKill =
  mk_kill :: dossierKillEvidence
  mk_isFinalBoss :: bool
  mk_firstKill :: "dossierRaiderIoFirstKill option"

record applicantDossierCuttingEdge =
  ac_achievement :: cuttingEdgeAchievement
  ac_completedAt :: string

record applicantDossier =
  ad_root :: characterKey
  ad_characters :: "dossierCharacter list"
  ad_raids :: "applicantDossierRaid list"
  ad_cuttingEdges :: "applicantDossierCuttingEdge list"
  ad_limitations :: "dossierLimitation list"

datatype dossierFailure =
    Empty_display_name \<comment> \<open>the initial of an empty name throws\<close>
  | Invalid_raid_catalogue \<comment> \<open>thrown by \<open>supportedRaidCatalogue\<close>\<close>
  | Lookup_diverges \<comment> \<open>\<open>lookupRaiderIoBoss\<close> does not return\<close>

subsection \<open>Comparators\<close>

abbreviation text_cmp :: "string \<Rightarrow> string \<Rightarrow> int" where
  "text_cmp \<equiv> order_cmp"

definition optionalText :: "string option \<Rightarrow> string option \<Rightarrow> int" where
  "optionalText = optional_cmp text_cmp"

definition optionalNumber :: "int option \<Rightarrow> int option \<Rightarrow> int" where
  "optionalNumber = optional_cmp (\<lambda>a b. a - b)"

definition compareGuild :: "characterGuild option \<Rightarrow> characterGuild option \<Rightarrow> int" where
  "compareGuild =
     optional_cmp (\<lambda>a b. or_else (text_cmp (g_name a) (g_name b)) (text_cmp (g_realm a) (g_realm b)))"

definition compareEvidence :: "js_env \<Rightarrow> dossierKillEvidence \<Rightarrow> dossierKillEvidence \<Rightarrow> int" where
  "compareEvidence E a b =
     or_else (text_cmp (ke_killedAt a) (ke_killedAt b))
    (or_else (text_cmp (ke_raidName a) (ke_raidName b))
    (or_else (text_cmp (ke_bossName a) (ke_bossName b))
    (or_else (ke_bossOrder a - ke_bossOrder b)
    (or_else (optionalText (ke_reportUrl a) (ke_reportUrl b))
    (or_else (compareGuild (ke_guild a) (ke_guild b))
    (or_else (optionalNumber (ke_historicWorldRank a) (ke_historicWorldRank b))
       (text_cmp (canonicalCharacterId E (ke_character a)) (canonicalCharacterId E (ke_character b)))))))))"

definition reportSource_of :: "characterGuild option \<Rightarrow> reportSource" where
  "reportSource_of guild = (case guild of None \<Rightarrow> Personal_log | Some _ \<Rightarrow> Guild_log)"

definition compareSource :: "reportSource \<Rightarrow> reportSource \<Rightarrow> int" where
  "compareSource a b = (if a = b then 0 else if a = Guild_log then - 1 else 1)"

definition compareReportEvidence :: "js_env \<Rightarrow> dossierKillEvidence \<Rightarrow> dossierKillEvidence \<Rightarrow> int" where
  "compareReportEvidence E a b =
     or_else (compareSource (reportSource_of (ke_guild a)) (reportSource_of (ke_guild b)))
    (or_else (optionalText (ke_reportUrl a) (ke_reportUrl b))
       (compareEvidence E a b))"

definition reportsFor :: "js_env \<Rightarrow> dossierKillEvidence list \<Rightarrow> applicantDossierReport list" where
  "reportsFor E evidence =
     map (\<lambda>kill. \<lparr>rp_reportUrl = the (ke_reportUrl kill), rp_source = reportSource_of (ke_guild kill),
                  rp_uploader = ke_uploader kill, rp_guild = ke_guild kill\<rparr>)
       (keep_first ke_reportUrl
          (filter (\<lambda>kill. ke_reportUrl kill \<noteq> None) (sort_by (compareReportEvidence E) evidence)) [])"

definition compareEventsLatestFirst :: "js_env \<Rightarrow> dossierKillEvidence \<Rightarrow> dossierKillEvidence \<Rightarrow> int" where
  "compareEventsLatestFirst E a b = compareEvidence E b a"

subsection \<open>Events\<close>

definition nul :: string where "nul = [CHR 0x00]"

definition sharedEvidenceKey :: "js_env \<Rightarrow> dossierKillEvidence \<Rightarrow> string" where
  "sharedEvidenceKey E k =
     (case ke_reportUrl k of
        None \<Rightarrow> ''character'' @ nul @ canonicalCharacterId E (ke_character k) @ nul @ ke_killedAt k
      | Some reportUrl \<Rightarrow> ''report'' @ nul @ reportUrl)"

definition killEventKey :: "js_env \<Rightarrow> dossierKillEvidence \<Rightarrow> string" where
  "killEventKey E kill =
     (case dateParse E (ke_killedAt kill) of
        None \<Rightarrow> region (ke_character kill) @ nul @ sharedEvidenceKey E kill
      | Some timestamp \<Rightarrow> region (ke_character kill) @ nul @ take 10 (toISOString timestamp))"

definition reportIdentity :: "string \<Rightarrow> string" where
  \<comment> \<open>up to the first \<open>#\<close>\<close>
  "reportIdentity reportUrl = takeWhile (\<lambda>c. c \<noteq> CHR ''#'') reportUrl"

definition normalizedGuildText :: "js_env \<Rightarrow> string \<Rightarrow> string" where
  "normalizedGuildText E v = toLower E (js_trim E v)"

definition compareAttributedGuild :: "js_env \<Rightarrow> characterGuild \<Rightarrow> characterGuild \<Rightarrow> int" where
  "compareAttributedGuild E a b =
     or_else (text_cmp (normalizedGuildText E (g_name a)) (normalizedGuildText E (g_name b)))
    (or_else (text_cmp (normalizedGuildText E (g_realm a)) (normalizedGuildText E (g_realm b)))
    (or_else (text_cmp (g_name a) (g_name b))
       (text_cmp (g_realm a) (g_realm b))))"

definition sameAttributedGuild :: "js_env \<Rightarrow> characterGuild \<Rightarrow> characterGuild \<Rightarrow> bool" where
  "sameAttributedGuild E a b \<longleftrightarrow>
     normalizedGuildText E (g_name a) = normalizedGuildText E (g_name b) \<and>
     normalizedGuildText E (g_realm a) = normalizedGuildText E (g_realm b)"

definition catalogueEncounter ::
    "js_env \<Rightarrow> catalogueData \<Rightarrow> string \<Rightarrow> string \<Rightarrow> string option \<Rightarrow> raidCatalogueEncounter option" where
  "catalogueEncounter E K raidName bossName journalBossId =
     (if isNonRaidZone E K raidName then None
      else lookupRaidEncounterForEvidence E K
             \<lparr>ev_raidName = raidName, ev_bossName = bossName, ev_journalBossId = journalBossId\<rparr>)"

definition currentness :: "js_env \<Rightarrow> catalogueData \<Rightarrow> string \<Rightarrow> string \<Rightarrow> bool option" where
  "currentness E K killedAt raidId = currentContentEligibilityByRaidId E K killedAt raidId"

definition UNPARSED :: dossierKillPerformance where
  "UNPARSED = \<lparr>pf_spec = None, pf_damage = Metric_unavailable, pf_healing = Metric_unavailable,
               pf_bossDamage = Metric_unavailable\<rparr>"

definition hasPublicLog :: "matchedKill \<Rightarrow> bool" where
  "hasPublicLog kill \<longleftrightarrow> mk_firstKill kill = None \<or> ke_reportUrl (mk_kill kill) \<noteq> None"

fun ROLE_ORDER :: "dossierRosterRole \<Rightarrow> int" where
  "ROLE_ORDER Tank = 0"
| "ROLE_ORDER Healer = 1"
| "ROLE_ORDER Dps = 2"

definition memberOrder :: "dossierRosterMember \<Rightarrow> dossierRosterMember \<Rightarrow> int" where
  "memberOrder a b =
     or_else (ROLE_ORDER (rm_role a) - ROLE_ORDER (rm_role b))
    (or_else (text_cmp (rm_name a) (rm_name b)) (text_cmp (rm_realm a) (rm_realm b)))"

fun readRoster ::
    "js_env \<Rightarrow> dossierLoggedEncounter \<Rightarrow> string list \<Rightarrow> loggedRoster \<Rightarrow> applicantDossierKillRoster" where
  "readRoster E encounter dossierCharacterIds Roster_private = No_roster Hidden_roster"
| "readRoster E encounter dossierCharacterIds (Roster_available counts members) =
     (if \<not> isRosterShown (Some True) members then No_roster Hidden_roster
      else Roster
        \<lparr>ar_playerCount = rc_tank counts + rc_healer counts + rc_dps counts, ar_roleCounts = counts,
         ar_itemLevel = dle_itemLevel encounter, ar_pulledAt = dle_pulledAt encounter,
         ar_durationMs = dle_durationMs encounter, ar_deathCount = dle_deathCount encounter,
         ar_vantusCount = dle_vantusCount encounter,
         ar_members = map (\<lambda>member. (member,
             json_string_array [toLower E (rm_region member), toLower E (rm_realm member), toLower E (rm_name member)]
               \<in> set dossierCharacterIds))
           (sort_by memberOrder members)\<rparr>)"

definition readEncounter :: "dossierRaiderIoFirstKill \<Rightarrow> dossierLoggedEncounter option" where
  "readEncounter first = (case fk_encounter first of Log_read encounter \<Rightarrow> Some encounter | _ \<Rightarrow> None)"

definition killRoster ::
    "js_env \<Rightarrow> matchedKill list \<Rightarrow> string list \<Rightarrow> applicantDossierKillRoster option" where
  "killRoster E shared dossierCharacterIds =
     (let firsts = List.map_filter mk_firstKill shared
      in if firsts = [] then None
         else
           (case List.map_filter readEncounter firsts of
              encounter # _ \<Rightarrow> Some (readRoster E encounter dossierCharacterIds (dle_roster encounter))
            | [] \<Rightarrow> Some (No_roster
                (if list_ex (\<lambda>first. fk_encounter first = Log_not_read) firsts then Not_read
                 else No_logged_encounter))))"

subsection \<open>Parses\<close>

record parseCandidate =
  pc_metric :: applicantDossierParseMetric
  pc_loggedAs :: "characterKey option"

fun percentile_of :: "applicantDossierParseMetric \<Rightarrow> rat" where
  "percentile_of (Parse_available percentile reportUrl) = percentile"
| "percentile_of _ = 0"

fun metricUrl :: "applicantDossierParseMetric \<Rightarrow> string" where
  "metricUrl (Parse_available percentile reportUrl) = reportUrl"
| "metricUrl _ = []"

fun isAvailable :: "applicantDossierParseMetric \<Rightarrow> bool" where
  "isAvailable (Parse_available _ _) = True"
| "isAvailable _ = False"

definition compareParses :: "parseCandidate \<Rightarrow> parseCandidate \<Rightarrow> int" where
  \<comment> \<open>highest percentile first, then the current name, then the URL\<close>
  "compareParses a b =
     or_else (order_cmp (percentile_of (pc_metric b)) (percentile_of (pc_metric a)))
    (or_else (of_bool (pc_loggedAs a \<noteq> None) - of_bool (pc_loggedAs b \<noteq> None))
       (text_cmp (metricUrl (pc_metric a)) (metricUrl (pc_metric b))))"

definition selectParseMetric :: "parseCandidate list \<Rightarrow> parseCandidate" where
  "selectParseMetric candidates =
     (case sort_by compareParses (filter (\<lambda>c. isAvailable (pc_metric c)) candidates) of
        best # _ \<Rightarrow> best
      | [] \<Rightarrow> \<lparr>pc_metric =
               (if list_ex (\<lambda>c. pc_metric c = Parse_not_applicable) candidates then Parse_not_applicable
                else Parse_unavailable),
              pc_loggedAs = None\<rparr>)"

fun leadingParse :: "parseCandidate option \<Rightarrow> parseCandidate list \<Rightarrow> parseCandidate option" where
  "leadingParse leading [] = leading"
| "leadingParse leading (candidate # selected) =
     leadingParse
       (if \<not> isAvailable (pc_metric candidate) then leading
        else (case leading of
            None \<Rightarrow> Some candidate
          | Some l \<Rightarrow>
              if \<not> isAvailable (pc_metric l) \<or> percentile_of (pc_metric l) < percentile_of (pc_metric candidate)
              then Some candidate else Some l))
       selected"

definition rowLoggedAs :: "parseCandidate list \<Rightarrow> characterKey option" where
  "rowLoggedAs selected = (case leadingParse None selected of None \<Rightarrow> None | Some l \<Rightarrow> pc_loggedAs l)"

fun parseCandidate_of :: "string option \<Rightarrow> dossierKillParseMetric \<Rightarrow> applicantDossierParseMetric" where
  \<comment> \<open>\<open>parseCandidate(kill, metric)\<close>, of the kill's report URL\<close>
  "parseCandidate_of reportUrl (Metric percentile) =
     (case reportUrl of None \<Rightarrow> Parse_unavailable | Some url \<Rightarrow> Parse_available percentile url)"
| "parseCandidate_of reportUrl Metric_not_applicable = Parse_not_applicable"
| "parseCandidate_of reportUrl Metric_unavailable = Parse_unavailable"

fun tierBestCandidate :: "string \<Rightarrow> dossierKillParseMetric \<Rightarrow> applicantDossierParseMetric" where
  "tierBestCandidate rankingsUrl (Metric percentile) = Parse_available percentile rankingsUrl"
| "tierBestCandidate rankingsUrl Metric_not_applicable = Parse_not_applicable"
| "tierBestCandidate rankingsUrl Metric_unavailable = Parse_unavailable"

definition parseCandidates ::
    "dossierKillEvidence list \<Rightarrow> dossierTierBestParse list \<Rightarrow>
     (dossierKillPerformance \<Rightarrow> dossierKillParseMetric) \<Rightarrow> parseCandidate list" where
  "parseCandidates kills tierBests select =
     map (\<lambda>kill. \<lparr>pc_metric = parseCandidate_of (ke_reportUrl kill) (select (ke_performance kill)),
                  pc_loggedAs = ke_loggedAs kill\<rparr>) kills @
     map (\<lambda>best. \<lparr>pc_metric = tierBestCandidate (tb_rankingsUrl best) (select (tb_performance best)),
                  pc_loggedAs = tb_loggedAs best\<rparr>) tierBests"

definition selectParseSpec :: "dossierKillPerformance list \<Rightarrow> dossierSpec option" where
  "selectParseSpec performances =
     (case List.map_filter pf_spec performances of [] \<Rightarrow> None | spec # _ \<Rightarrow> Some spec)"

definition characterParses ::
    "dossierCharacter \<Rightarrow> dossierKillEvidence list \<Rightarrow> dossierTierBestParse list \<Rightarrow>
     applicantDossierCharacterParses" where
  "characterParses character kills tierBests =
     (let damage = selectParseMetric (parseCandidates kills tierBests pf_damage);
          healing = selectParseMetric (parseCandidates kills tierBests pf_healing);
          bossDamage = selectParseMetric (parseCandidates kills tierBests pf_bossDamage)
      in \<lparr>cp_character = dch_displayName character,
          cp_spec = option_else (selectParseSpec (map ke_performance kills))
                      (selectParseSpec (map tb_performance tierBests)),
          cp_loggedAs = rowLoggedAs [damage, healing, bossDamage],
          cp_damage = pc_metric damage, cp_healing = pc_metric healing,
          cp_bossDamage = pc_metric bossDamage\<rparr>)"

definition aggregateEventParses ::
    "js_env \<Rightarrow> dossierKillEvidence list \<Rightarrow> dossierCharacter list \<Rightarrow> dossierTierBestParse list \<Rightarrow>
     applicantDossierCharacterParses list" where
  "aggregateEventParses E kills characters tierBests =
     List.map_filter (\<lambda>character.
        let i = canonicalCharacterId E (dch_key character);
            characterKills = filter (\<lambda>kill. canonicalCharacterId E (ke_character kill) = i) kills
        in if characterKills = [] then None
           else Some (characterParses character characterKills
                  (filter (\<lambda>best. canonicalCharacterId E (tb_character best) = i) tierBests)))
      characters"

definition aggregateBossParses ::
    "js_env \<Rightarrow> dossierKillEvidence list list \<Rightarrow> dossierCharacter list \<Rightarrow> dossierTierBestParse list \<Rightarrow>
     applicantDossierCharacterParses list" where
  "aggregateBossParses E events characters tierBests =
     aggregateEventParses E (concat events) characters tierBests"

subsection \<open>Limitations\<close>

type_synonym encounterTally = "(string, dossierLimitationEncounter) jsmap"

definition tallyEncounter :: "string \<Rightarrow> string option \<Rightarrow> encounterTally \<Rightarrow> encounterTally" where
  "tallyEncounter raidName bossName tally =
     (let key = raidName @ nul @ (case bossName of None \<Rightarrow> [] | Some b \<Rightarrow> b);
          entry = (case map_get tally key of
              Some e \<Rightarrow> e | None \<Rightarrow> \<lparr>le_raidName = raidName, le_bossName = bossName, le_kills = 0\<rparr>)
      in map_set key (entry\<lparr>le_kills := le_kills entry + 1\<rparr>) tally)"

definition compareTallied :: "dossierLimitationEncounter \<Rightarrow> dossierLimitationEncounter \<Rightarrow> int" where
  "compareTallied a b =
     or_else (int (le_kills b) - int (le_kills a))
    (or_else (text_cmp (le_raidName a) (le_raidName b))
       (text_cmp (case le_bossName a of None \<Rightarrow> [] | Some n \<Rightarrow> n) (case le_bossName b of None \<Rightarrow> [] | Some n \<Rightarrow> n)))"

definition encounterList :: "encounterTally \<Rightarrow> dossierLimitationEncounter list" where
  "encounterList tally = sort_by compareTallied (map snd tally)"

definition summarizeLimitationEncounters ::
    "(string \<times> string option) list \<Rightarrow> dossierLimitationEncounter list" where
  "summarizeLimitationEncounters kills =
     encounterList (foldl (\<lambda>tally (raidName, bossName). tallyEncounter raidName bossName tally) [] kills)"

record withheldReason =
  wr_limitation :: dossierLimitation
  wr_encounters :: encounterTally

type_synonym withheldReasons = "(string, withheldReason) jsmap"

fun sourceText :: "limitationSource \<Rightarrow> string" where
  "sourceText Raiderio = ''raiderio''"
| "sourceText Warcraft_logs = ''warcraft_logs''"
| "sourceText Blizzard = ''blizzard''"

definition withhold ::
    "js_env \<Rightarrow> string \<Rightarrow> limitationSource \<Rightarrow> dossierKillEvidence \<Rightarrow> withheldReasons \<Rightarrow> withheldReasons" where
  "withhold E code source kill reasons =
     (let key = sourceText source @ nul @ code @ nul @ canonicalCharacterId E (ke_character kill);
          entry = (case map_get reasons key of
              Some e \<Rightarrow> e
            | None \<Rightarrow> \<lparr>wr_limitation = \<lparr>dl_source = source, dl_character = Some (ke_character kill), dl_code = code,
                         dl_observedAt = None, dl_retryAt = None, dl_encounters = None, dl_automatic = None\<rparr>,
                      wr_encounters = []\<rparr>)
      in map_set key (entry\<lparr>wr_encounters :=
           tallyEncounter (ke_raidName kill) (Some (ke_bossName kill)) (wr_encounters entry)\<rparr>) reasons)"

subsection \<open>Sorting kills out\<close>

record killSorting =
  ks_all :: "matchedKill list"
  ks_reasons :: withheldReasons
  ks_withheld :: "matchedKill list"

definition matched_of :: "raidCatalogueEncounter \<Rightarrow> dossierKillEvidence \<Rightarrow> matchedKill" where
  \<comment> \<open>the spread of the catalogue's metadata over the supplied kill; what the raid adds to it
      is overwritten or never read\<close>
  "matched_of metadata kill =
     \<lparr>mk_kill = kill\<lparr>ke_raidId := re_raidId metadata, ke_raidName := re_raidName metadata,
        ke_bossId := re_bossId metadata, ke_bossName := re_bossName metadata,
        ke_bossOrder := re_bossOrder metadata\<rparr>,
      mk_isFinalBoss = re_isFinalBoss metadata, mk_firstKill = None\<rparr>"

definition withheldCode :: "bool option \<Rightarrow> string" where
  "withheldCode eligible =
     (if eligible = Some False then ''current_content_evidence_withheld'' else ''current_content_window_unknown'')"

definition sortKill :: "js_env \<Rightarrow> catalogueData \<Rightarrow> dossierKillEvidence \<Rightarrow> killSorting \<Rightarrow> killSorting" where
  "sortKill E K supplied s =
     (case catalogueEncounter E K (ke_raidName supplied) (ke_bossName supplied) (ke_journalBossId supplied) of
        None \<Rightarrow>
          if isNonRaidZone E K (ke_raidName supplied) then s
          else s\<lparr>ks_reasons := withhold E ''unmatched_encounter'' Warcraft_logs supplied (ks_reasons s)\<rparr>
      | Some metadata \<Rightarrow>
          (let matched = matched_of metadata supplied; kill = mk_kill matched;
               eligible = currentness E K (ke_killedAt kill) (ke_raidId kill)
           in if eligible \<noteq> Some True
              then s\<lparr>ks_withheld := ks_withheld s @ [matched],
                     ks_reasons := withhold E (withheldCode eligible) Warcraft_logs kill (ks_reasons s)\<rparr>
              else s\<lparr>ks_all := ks_all s @ [matched]\<rparr>))"

definition sortKills :: "js_env \<Rightarrow> catalogueData \<Rightarrow> dossierKillEvidence list \<Rightarrow> killSorting" where
  "sortKills E K kills =
     foldl (\<lambda>s kill. sortKill E K kill s) \<lparr>ks_all = [], ks_reasons = [], ks_withheld = []\<rparr> kills"

subsection \<open>Raider.IO first kills\<close>

type_synonym killIndex = "(string, (nat \<times> int option) list) jsmap"

definition matchKey :: "js_env \<Rightarrow> characterKey \<Rightarrow> string \<Rightarrow> string \<Rightarrow> string" where
  "matchKey E character raidSlug bossSlug =
     json_string_array [canonicalCharacterId E character, raidSlug, bossSlug]"

fun indexEntries ::
    "js_env \<Rightarrow> nat \<Rightarrow> matchedKill list \<Rightarrow> raiderIoBoss option list \<Rightarrow> (string \<times> nat \<times> int option) list" where
  "indexEntries E position (kill # kills) (boss # bosses) =
     (case boss of
        None \<Rightarrow> []
      | Some b \<Rightarrow> [(matchKey E (ke_character (mk_kill kill)) (rb_raidSlug b) (rb_bossSlug b),
                     position, dateParse E (ke_killedAt (mk_kill kill)))]) @
     indexEntries E (Suc position) kills bosses"
| "indexEntries E position _ _ = []"

definition indexKills :: "js_env \<Rightarrow> catalogueData \<Rightarrow> bool \<Rightarrow> matchedKill list \<Rightarrow> killIndex option" where
  \<comment> \<open>\<^term>\<open>None\<close>: a boss lookup does not return\<close>
  "indexKills E K anyFirstKills kills =
     (if \<not> anyFirstKills then Some []
      else map_option (\<lambda>bosses. foldl (\<lambda>m (key, entry). bucket_push key entry m) [] (indexEntries E 0 kills bosses))
        (those (map (\<lambda>kill. lookupRaiderIoBoss E K (ke_raidName (mk_kill kill)) (ke_bossName (mk_kill kill))) kills)))"

definition distance :: "int option \<Rightarrow> int option \<Rightarrow> int option" where
  \<comment> \<open>\<open>Math.abs(a - b)\<close>, \<^term>\<open>None\<close> for \<open>NaN\<close>\<close>
  "distance a b = (case (a, b) of (Some x, Some y) \<Rightarrow> Some \<bar>x - y\<bar> | _ \<Rightarrow> None)"

definition within_match :: "int option \<Rightarrow> bool" where
  "within_match d = (case d of None \<Rightarrow> False | Some n \<Rightarrow> n \<le> STORED_KILL_MATCH_MS)"

definition betterMatch ::
    "js_env \<Rightarrow> matchedKill list \<Rightarrow> (nat \<times> int) option \<Rightarrow> nat \<Rightarrow> int \<Rightarrow> bool" where
  "betterMatch E kills matched index d =
     (case matched of
        None \<Rightarrow> True
      | Some (index', d') \<Rightarrow>
          d < d' \<or> (d = d' \<and> compareEvidence E (mk_kill (kills ! index)) (mk_kill (kills ! index')) < 0))"

fun bestMatch ::
    "js_env \<Rightarrow> matchedKill list \<Rightarrow> int option \<Rightarrow> (nat \<times> int option) list \<Rightarrow> (nat \<times> int) option \<Rightarrow>
     (nat \<times> int) option" where
  "bestMatch E kills at_ms [] matched = matched"
| "bestMatch E kills at_ms ((index, candidateAt) # candidates) matched =
     bestMatch E kills at_ms candidates
       (if mk_firstKill (kills ! index) \<noteq> None \<or> \<not> within_match (distance candidateAt at_ms) then matched
        else if betterMatch E kills matched index (the (distance candidateAt at_ms))
          then Some (index, the (distance candidateAt at_ms))
        else matched)"

definition candidatesAt :: "killIndex \<Rightarrow> string \<Rightarrow> (nat \<times> int option) list" where
  "candidatesAt index key = (case map_get index key of None \<Rightarrow> [] | Some cs \<Rightarrow> cs)"

definition raiderIoKill_of :: "raidCatalogueEncounter \<Rightarrow> dossierRaiderIoFirstKill \<Rightarrow> matchedKill" where
  "raiderIoKill_of metadata first =
     \<lparr>mk_kill =
        \<lparr>ke_raidId = re_raidId metadata, ke_raidName = re_raidName metadata, ke_bossId = re_bossId metadata,
         ke_bossName = re_bossName metadata, ke_journalBossId = Some (re_bossId metadata),
         ke_bossOrder = re_bossOrder metadata, ke_character = fk_character first,
         ke_killedAt = fk_killedAt first,
         ke_guild = (case fk_encounter first of Log_read encounter \<Rightarrow> dle_guild encounter | _ \<Rightarrow> fk_guild first),
         ke_historicWorldRank = fk_historicWorldRank first, ke_reportUrl = None, ke_uploader = None,
         ke_loggedAs = None, ke_performance = UNPARSED\<rparr>,
      mk_isFinalBoss = re_isFinalBoss metadata, mk_firstKill = Some first\<rparr>"

definition addRaiderIoKill ::
    "js_env \<Rightarrow> catalogueData \<Rightarrow> killIndex \<Rightarrow> string \<Rightarrow> dossierRaiderIoFirstKill \<Rightarrow> matchedKill \<Rightarrow>
     killSorting \<Rightarrow> killSorting" where
  \<comment> \<open>a first kill that matches no stored kill and has a log\<close>
  "addRaiderIoKill E K withheldIndex key first kill s =
     (let eligible = currentness E K (ke_killedAt (mk_kill kill)) (ke_raidId (mk_kill kill))
      in if eligible = Some True then s\<lparr>ks_all := ks_all s @ [kill]\<rparr>
         else if list_ex (\<lambda>(index, candidateAt). within_match (distance candidateAt (dateParse E (fk_killedAt first))))
                   (candidatesAt withheldIndex key) then s
         else s\<lparr>ks_reasons := withhold E (withheldCode eligible) Raiderio (mk_kill kill) (ks_reasons s)\<rparr>)"

definition attachFirstKill ::
    "js_env \<Rightarrow> catalogueData \<Rightarrow> killIndex \<Rightarrow> killIndex \<Rightarrow> dossierRaiderIoFirstKill \<Rightarrow> killSorting \<Rightarrow> killSorting" where
  "attachFirstKill E K eligibleIndex withheldIndex first s =
     (case lookupRaidEncounterByRaiderIoSlugs E K (fk_raidSlug first) (fk_bossSlug first) of
        None \<Rightarrow> s
      | Some metadata \<Rightarrow>
          (let key = matchKey E (fk_character first) (fk_raidSlug first) (fk_bossSlug first)
           in case bestMatch E (ks_all s) (dateParse E (fk_killedAt first)) (candidatesAt eligibleIndex key) None of
                Some (index, d) \<Rightarrow>
                  s\<lparr>ks_all := (ks_all s)[index := (ks_all s ! index)\<lparr>mk_firstKill := Some first\<rparr>]\<rparr>
              | None \<Rightarrow>
                  if fk_encounter first = Log_none then s
                  else addRaiderIoKill E K withheldIndex key first (raiderIoKill_of metadata first) s))"

definition attachFirstKills ::
    "js_env \<Rightarrow> catalogueData \<Rightarrow> dossierRaiderIoFirstKill list \<Rightarrow> killSorting \<Rightarrow> killSorting option" where
  "attachFirstKills E K firsts s =
     (case (indexKills E K (firsts \<noteq> []) (ks_all s), indexKills E K (firsts \<noteq> []) (ks_withheld s)) of
        (Some eligibleIndex, Some withheldIndex) \<Rightarrow>
          Some (foldl (\<lambda>s first. attachFirstKill E K eligibleIndex withheldIndex first s) s firsts)
      | _ \<Rightarrow> None)"

definition withheldLimitations :: "withheldReasons \<Rightarrow> dossierLimitation list" where
  "withheldLimitations reasons =
     map (\<lambda>(key, reason). (wr_limitation reason)\<lparr>dl_encounters := Some (encounterList (wr_encounters reason))\<rparr>) reasons"

subsection \<open>Wipes\<close>

definition bossKey :: "string \<Rightarrow> string \<Rightarrow> string" where
  "bossKey raidId bossId = raidId @ nul @ bossId"

definition dossierKeysOf :: "js_env \<Rightarrow> dossierCharacter list \<Rightarrow> characterKey list \<Rightarrow> characterKey list" where
  \<comment> \<open>the dossier's characters among the given ones, in the dossier's order\<close>
  "dossierKeysOf E characters participants =
     map dch_key (filter (\<lambda>c. canonicalCharacterId E (dch_key c) \<in>
         set (map (canonicalCharacterId E) participants)) characters)"

definition compareWipeEvidence :: "dossierWipeEvidence \<Rightarrow> dossierWipeEvidence \<Rightarrow> int" where
  "compareWipeEvidence a b =
     or_else (text_cmp (we_attemptedAt b) (we_attemptedAt a)) (text_cmp (we_reportUrl a) (we_reportUrl b))"

definition compareWipes :: "applicantDossierWipe \<Rightarrow> applicantDossierWipe \<Rightarrow> int" where
  "compareWipes a b =
     or_else (text_cmp (aw_attemptedAt b) (aw_attemptedAt a)) (text_cmp (aw_reportUrl a) (aw_reportUrl b))"

definition wipeOf :: "js_env \<Rightarrow> dossierCharacter list \<Rightarrow> dossierWipeEvidence list \<Rightarrow> applicantDossierWipe" where
  "wipeOf E characters shared =
     (let selected = hd (sort_by compareWipeEvidence shared)
      in \<lparr>aw_attemptedAt = we_attemptedAt selected, aw_reportUrl = we_reportUrl selected,
          aw_source = reportSource_of (we_guild selected), aw_uploader = we_uploader selected,
          aw_guild = we_guild selected,
          aw_characters = dossierKeysOf E characters (map we_character shared)\<rparr>)"

definition aggregateWipes ::
    "js_env \<Rightarrow> dossierCharacter list \<Rightarrow> dossierWipeEvidence list \<Rightarrow> applicantDossierWipe list" where
  "aggregateWipes E characters wipes =
     sort_by compareWipes (map (\<lambda>(url, shared). wipeOf E characters shared) (group_by we_reportUrl wipes []))"

definition wipesByBoss ::
    "js_env \<Rightarrow> catalogueData \<Rightarrow> dossierWipeEvidence list \<Rightarrow> (string, dossierWipeEvidence list) jsmap" where
  "wipesByBoss E K wipes =
     foldl (\<lambda>m wipe.
        case catalogueEncounter E K (we_raidName wipe) (we_bossName wipe) (we_journalBossId wipe) of
          None \<Rightarrow> m
        | Some metadata \<Rightarrow> bucket_push (bossKey (re_raidId metadata) (re_bossId metadata)) wipe m)
      [] wipes"

definition tierBestsByBoss ::
    "js_env \<Rightarrow> catalogueData \<Rightarrow> dossierTierBestParse list \<Rightarrow> (string, dossierTierBestParse list) jsmap" where
  "tierBestsByBoss E K tierBests =
     foldl (\<lambda>m best.
        case catalogueEncounter E K (tb_raidName best) (tb_bossName best) None of
          None \<Rightarrow> m
        | Some metadata \<Rightarrow> bucket_push (bossKey (re_raidId metadata) (re_bossId metadata)) best m)
      [] tierBests"

definition bucket_at :: "(string, 'a list) jsmap \<Rightarrow> string \<Rightarrow> 'a list" where
  "bucket_at m key = (case map_get m key of None \<Rightarrow> [] | Some b \<Rightarrow> b)"

definition wipesOutside :: "string list \<Rightarrow> dossierWipeEvidence list \<Rightarrow> dossierWipeEvidence list" where
  \<comment> \<open>the wipes of reports that hold none of the kills\<close>
  "wipesOutside killReportUrls wipes =
     filter (\<lambda>wipe. reportIdentity (we_reportUrl wipe) \<notin> set killReportUrls) wipes"

subsection \<open>Bosses\<close>

definition byBoss :: "matchedKill list \<Rightarrow> (string, matchedKill list) jsmap" where
  "byBoss kills = group_by (\<lambda>kill. bossKey (ke_raidId (mk_kill kill)) (ke_bossId (mk_kill kill))) kills []"

definition compareMatched :: "js_env \<Rightarrow> matchedKill \<Rightarrow> matchedKill \<Rightarrow> int" where
  "compareMatched E a b = compareEvidence E (mk_kill a) (mk_kill b)"

definition attributedGuild :: "js_env \<Rightarrow> matchedKill list \<Rightarrow> characterGuild option" where
  "attributedGuild E shared =
     (case sort_by (compareAttributedGuild E) (List.map_filter (\<lambda>k. ke_guild (mk_kill k)) shared) of
        [] \<Rightarrow> None | guild # _ \<Rightarrow> Some guild)"

definition eventRanks :: "js_env \<Rightarrow> matchedKill list \<Rightarrow> int list" where
  "eventRanks E shared =
     keep_first (\<lambda>r. r)
       (List.map_filter (\<lambda>k.
          case (attributedGuild E shared, ke_guild (mk_kill k)) of
            (Some attributed, Some guild) \<Rightarrow>
              if sameAttributedGuild E guild attributed then ke_historicWorldRank (mk_kill k) else None
          | _ \<Rightarrow> None) shared) []"

record dossierEvent =
  de_selected :: matchedKill
  de_shared :: "matchedKill list"
  de_logged :: "matchedKill list"
  de_firstKill :: applicantDossierFirstKill

definition eventOf ::
    "js_env \<Rightarrow> dossierInput \<Rightarrow> dossierCharacter list \<Rightarrow> string list \<Rightarrow> matchedKill list \<Rightarrow> dossierEvent" where
  "eventOf E input characters dossierCharacterIds shared =
     (let selected = hd (sort_by (compareMatched E) shared);
          ranks = eventRanks E shared;
          reports = reportsFor E (map mk_kill shared);
          logged = filter hasPublicLog shared
      in \<lparr>de_selected = selected, de_shared = shared, de_logged = logged,
          de_firstKill =
            \<lparr>af_killedAt = ke_killedAt (mk_kill selected), af_guild = attributedGuild E shared,
             af_historicWorldRank = (case ranks of [rank] \<Rightarrow> Some rank | _ \<Rightarrow> None),
             af_reportUrl = (case reports of
                 preferred # _ \<Rightarrow> Some (rp_reportUrl preferred)
               | [] \<Rightarrow> ke_reportUrl (mk_kill selected)),
             af_reportUrls = map rp_reportUrl reports, af_reports = reports,
             af_characters = dossierKeysOf E (di_characters input) (map (\<lambda>k. ke_character (mk_kill k)) shared),
             af_parses = aggregateEventParses E (map mk_kill logged) characters [],
             af_roster = killRoster E shared dossierCharacterIds\<rparr>\<rparr>)"

definition bossEvents ::
    "js_env \<Rightarrow> dossierInput \<Rightarrow> dossierCharacter list \<Rightarrow> string list \<Rightarrow> matchedKill list \<Rightarrow> dossierEvent list" where
  "bossEvents E input characters dossierCharacterIds kills =
     sort_by (\<lambda>a b. compareEventsLatestFirst E (mk_kill (de_selected a)) (mk_kill (de_selected b)))
       (map (\<lambda>(key, shared). eventOf E input characters dossierCharacterIds shared)
          (group_by (\<lambda>k. killEventKey E (mk_kill k)) (sort_by (compareMatched E) kills) []))"

definition bossImage :: "js_env \<Rightarrow> catalogueData \<Rightarrow> dossierKillEvidence \<Rightarrow> string option" where
  "bossImage E K kill =
     option_else (Option.bind (lookupJournalEncounter E K (ke_bossId kill)) re_imageUrl)
       (Option.bind (lookupRaidBossByName E K (ke_raidName kill) (ke_bossName kill)) re_imageUrl)"

definition aggregatedBoss_of ::
    "js_env \<Rightarrow> catalogueData \<Rightarrow> dossierInput \<Rightarrow> dossierCharacter list \<Rightarrow> string list \<Rightarrow>
     (string, dossierTierBestParse list) jsmap \<Rightarrow> (string, dossierWipeEvidence list) jsmap \<Rightarrow>
     matchedKill list \<Rightarrow> aggregatedBoss" where
  "aggregatedBoss_of E K input characters dossierCharacterIds tierBests wipes kills =
     (let events = bossEvents E input characters dossierCharacterIds kills;
          selected = mk_kill (de_selected (hd events));
          key = bossKey (ke_raidId selected) (ke_bossId selected);
          killReportUrls = map reportIdentity (List.map_filter (\<lambda>k. ke_reportUrl (mk_kill k)) kills)
      in \<lparr>ab_metadata = \<lparr>bm_bossId = ke_bossId selected, bm_bossName = ke_bossName selected,
            bm_bossOrder = ke_bossOrder selected, bm_imageUrl = bossImage E K selected\<rparr>,
          ab_kills = \<lparr>bk_firstKill = de_firstKill (last events), bk_firstKills = map de_firstKill events,
            bk_bestParses = aggregateBossParses E (map (\<lambda>e. map mk_kill (de_logged e)) events) characters
              (bucket_at tierBests key),
            bk_wipes = aggregateWipes E (di_characters input) (wipesOutside killReportUrls (bucket_at wipes key))\<rparr>,
          ab_isFinalBoss = mk_isFinalBoss (de_selected (hd events))\<rparr>)"

subsection \<open>Raids\<close>

record observedRaid =
  or_raidName :: string
  or_imageUrl :: "string option"
  or_bosses :: "aggregatedBoss list"
  or_tierOrdinal :: "int option"

definition addObservedBoss ::
    "js_env \<Rightarrow> catalogueData \<Rightarrow> string \<Rightarrow> string \<Rightarrow> aggregatedBoss \<Rightarrow> (string, observedRaid) jsmap \<Rightarrow>
     (string, observedRaid) jsmap" where
  "addObservedBoss E K raidId raidName boss raids =
     (let raid = (case map_get raids raidId of
            Some raid \<Rightarrow> raid
          | None \<Rightarrow> \<lparr>or_raidName = raidName,
                     or_imageUrl = Option.bind (lookupRaidByName E K raidName) rr_imageUrl,
                     or_bosses = [],
                     or_tierOrdinal = map_option rr_tierOrdinal (lookupRaidByName E K raidName)\<rparr>)
      in map_set raidId (raid\<lparr>or_bosses := or_bosses raid @ [boss]\<rparr>) raids)"

definition observedRaids ::
    "js_env \<Rightarrow> catalogueData \<Rightarrow> dossierInput \<Rightarrow> dossierCharacter list \<Rightarrow> string list \<Rightarrow>
     (string, dossierTierBestParse list) jsmap \<Rightarrow> (string, dossierWipeEvidence list) jsmap \<Rightarrow>
     matchedKill list \<Rightarrow> (string, observedRaid) jsmap" where
  "observedRaids E K input characters dossierCharacterIds tierBests wipes allKills =
     foldl (\<lambda>raids (key, kills).
        let selected = mk_kill (de_selected (hd (bossEvents E input characters dossierCharacterIds kills)))
        in addObservedBoss E K (ke_raidId selected) (ke_raidName selected)
             (aggregatedBoss_of E K input characters dossierCharacterIds tierBests wipes kills) raids)
      [] (byBoss allKills)"

definition allWarcraftLogsComplete :: "js_env \<Rightarrow> dossierInput \<Rightarrow> bool" where
  "allWarcraftLogsComplete E input =
     list_all (\<lambda>c. canonicalCharacterId E (dch_key c) \<in>
         set (map (canonicalCharacterId E) (case di_complete input of None \<Rightarrow> [] | Some ks \<Rightarrow> ks)))
       (di_characters input)"

definition includeCatalogueGaps :: "dossierInput \<Rightarrow> bool" where
  "includeCatalogueGaps input \<longleftrightarrow> di_wipes input \<noteq> None \<or> di_complete input \<noteq> None"

definition catalogueBoss ::
    "js_env \<Rightarrow> dossierInput \<Rightarrow> (string, dossierWipeEvidence list) jsmap \<Rightarrow> string \<Rightarrow> aggregatedBoss list \<Rightarrow>
     raidCatalogueEncounter \<Rightarrow> applicantDossierBoss" where
  "catalogueBoss E input wipes raidId observed encounter =
     (let wipesForBoss = bucket_at wipes (bossKey raidId (re_bossId encounter));
          metadata = \<lparr>bm_bossId = re_bossId encounter, bm_bossName = re_bossName encounter,
                      bm_bossOrder = re_bossOrder encounter, bm_imageUrl = re_imageUrl encounter\<rparr>
      in case find (\<lambda>boss. bm_bossId (ab_metadata boss) = re_bossId encounter) observed of
           Some boss \<Rightarrow>
             Boss_kill (ab_metadata boss) ((ab_kills boss)\<lparr>bk_wipes :=
               aggregateWipes E (di_characters input) (wipesOutside
                 (concat (map (\<lambda>kill. map reportIdentity (af_reportUrls kill)) (bk_firstKills (ab_kills boss))))
                 wipesForBoss)\<rparr>)
         | None \<Rightarrow>
             (case aggregateWipes E (di_characters input) wipesForBoss of
                wipe # rest \<Rightarrow> Boss_wipe metadata wipe (wipe # rest)
              | [] \<Rightarrow> if allWarcraftLogsComplete E input then Boss_no_logs metadata else Boss_incomplete metadata))"

definition catalogueRaid ::
    "js_env \<Rightarrow> dossierInput \<Rightarrow> (string, dossierWipeEvidence list) jsmap \<Rightarrow> (string, observedRaid) jsmap \<Rightarrow>
     supportedRaid \<Rightarrow> applicantDossierRaid" where
  "catalogueRaid E input wipes raids supported =
     (let raid = sr_raid supported;
          observed = (case map_get raids (rr_raidId raid) of None \<Rightarrow> [] | Some r \<Rightarrow> or_bosses r)
      in \<lparr>ra_raidId = rr_raidId raid, ra_raidName = rr_raidName raid, ra_imageUrl = rr_imageUrl raid,
          ra_bosses = map (catalogueBoss E input wipes (rr_raidId raid) observed) (sr_encounters supported)\<rparr>)"

definition compareBosses :: "aggregatedBoss \<Rightarrow> aggregatedBoss \<Rightarrow> int" where
  "compareBosses a b =
     or_else (of_bool (ab_isFinalBoss b) - of_bool (ab_isFinalBoss a))
    (or_else (bm_bossOrder (ab_metadata b) - bm_bossOrder (ab_metadata a))
    (or_else (text_cmp (bm_bossName (ab_metadata a)) (bm_bossName (ab_metadata b)))
       (text_cmp (bm_bossId (ab_metadata a)) (bm_bossId (ab_metadata b)))))"

definition compareRaids :: "string \<times> observedRaid \<Rightarrow> string \<times> observedRaid \<Rightarrow> int" where
  "compareRaids a b =
     (let byName = or_else (text_cmp (or_raidName (snd a)) (or_raidName (snd b))) (text_cmp (fst a) (fst b))
      in case (or_tierOrdinal (snd a), or_tierOrdinal (snd b)) of
           (None, None) \<Rightarrow> byName
         | (None, Some _) \<Rightarrow> 1
         | (Some _, None) \<Rightarrow> - 1
         | (Some x, Some y) \<Rightarrow> if x \<noteq> y then y - x else byName)"

definition observedRaid_shown ::
    "js_env \<Rightarrow> dossierInput \<Rightarrow> (string, dossierWipeEvidence list) jsmap \<Rightarrow> string \<times> observedRaid \<Rightarrow>
     applicantDossierRaid" where
  "observedRaid_shown E input wipes = (\<lambda>(raidId, raid).
     \<lparr>ra_raidId = raidId, ra_raidName = or_raidName raid, ra_imageUrl = or_imageUrl raid,
      ra_bosses = map (\<lambda>boss. Boss_kill (ab_metadata boss) ((ab_kills boss)\<lparr>bk_wipes :=
          aggregateWipes E (di_characters input) (bucket_at wipes (bossKey raidId (bm_bossId (ab_metadata boss))))\<rparr>))
        (sort_by compareBosses (or_bosses raid))\<rparr>)"

subsection \<open>Assembly\<close>

definition addCuttingEdge ::
    "cuttingEdgeAchievement list \<Rightarrow> dossierCuttingEdgeEvidence \<Rightarrow> (string, applicantDossierCuttingEdge) jsmap \<Rightarrow>
     (string, applicantDossierCuttingEdge) jsmap" where
  "addCuttingEdge catalogue evidence m =
     (case lookupCuttingEdgeAchievement catalogue (ce_achievementId evidence) of
        None \<Rightarrow> m
      | Some achievement \<Rightarrow>
          (let key = ach_achievementId achievement;
               entry = (case map_get m key of
                   Some e \<Rightarrow> e
                 | None \<Rightarrow> \<lparr>ac_achievement = achievement, ac_completedAt = ce_completedAt evidence\<rparr>)
           in map_set key
                (if ce_completedAt evidence < ac_completedAt entry
                 then entry\<lparr>ac_completedAt := ce_completedAt evidence\<rparr> else entry) m))"

definition compareCuttingEdges :: "applicantDossierCuttingEdge \<Rightarrow> applicantDossierCuttingEdge \<Rightarrow> int" where
  "compareCuttingEdges a b =
     or_else (text_cmp (ac_completedAt b) (ac_completedAt a))
       (text_cmp (ach_achievementId (ac_achievement a)) (ach_achievementId (ac_achievement b)))"

definition dossierCuttingEdges ::
    "cuttingEdgeAchievement list \<Rightarrow> dossierCuttingEdgeEvidence list \<Rightarrow> applicantDossierCuttingEdge list" where
  "dossierCuttingEdges catalogue evidence =
     sort_by compareCuttingEdges (map snd (foldl (\<lambda>m e. addCuttingEdge catalogue e m) [] evidence))"

definition displayCharacters :: "js_env \<Rightarrow> dossierCharacter list \<Rightarrow> dossierCharacter list option" where
  "displayCharacters E characters =
     those (map (\<lambda>c. map_option (\<lambda>n. c\<lparr>dch_displayName := n\<rparr>)
        (formatCharacterDisplayName E (dch_displayName c))) characters)"

definition dossierRaids ::
    "js_env \<Rightarrow> catalogueData \<Rightarrow> dossierInput \<Rightarrow> dossierCharacter list \<Rightarrow> matchedKill list \<Rightarrow>
     applicantDossierRaid list option" where
  \<comment> \<open>\<^term>\<open>None\<close>: the supported catalogue is invalid\<close>
  "dossierRaids E K input characters allKills =
     (let wipes = wipesByBoss E K (case di_wipes input of None \<Rightarrow> [] | Some ws \<Rightarrow> ws);
          raids = observedRaids E K input characters
            (map (\<lambda>c. json_string_array [region (dch_key c), realm (dch_key c), cname (dch_key c)]) (di_characters input))
            (tierBestsByBoss E K (di_tierBests input)) wipes allKills
      in if includeCatalogueGaps input
         then map_option (map (catalogueRaid E input wipes raids)) (supportedRaidCatalogue E K)
         else Some (map (observedRaid_shown E input wipes) (sort_by compareRaids raids)))"

definition buildApplicantDossier ::
    "js_env \<Rightarrow> catalogueData \<Rightarrow> cuttingEdgeAchievement list \<Rightarrow> dossierInput \<Rightarrow>
     dossierFailure + applicantDossier" where
  "buildApplicantDossier E K achievements input =
     (case displayCharacters E (di_characters input) of
        None \<Rightarrow> Inl Empty_display_name
      | Some characters \<Rightarrow>
          (case attachFirstKills E K (di_firstKills input) (sortKills E K (di_kills input)) of
             None \<Rightarrow> Inl Lookup_diverges
           | Some s \<Rightarrow>
               (case dossierRaids E K input characters (ks_all s) of
                  None \<Rightarrow> Inl Invalid_raid_catalogue
                | Some raids \<Rightarrow>
                    Inr \<lparr>ad_root = di_root input, ad_characters = characters, ad_raids = raids,
                         ad_cuttingEdges = dossierCuttingEdges achievements (di_cuttingEdges input),
                         ad_limitations = di_limitations input @ withheldLimitations (ks_reasons s)\<rparr>)))"

end
