(* ===== verification/DossierCorrect.thy ===== *)
theory DossierCorrect
  imports Dossier RaidCatalogueCorrect
begin

section \<open>Correctness of the applicant dossier\<close>

text \<open>
  Every supplied kill is shown, tallied in a limitation or a dungeon's; every kill shown was
  current; a boss's first kill is its earliest and its events partition its kills; a
  historic rank is shown only where the evidence agrees; with catalogue gaps the raids are
  the catalogue's; and the assembly returns a dossier.
\<close>

subsection \<open>Comparators\<close>

lemma comparator_on_order: "js_comparator (\<lambda>x y. order_cmp (f x) (f y))"
  by (rule js_comparator_pullback [OF js_comparator_order_cmp])

lemma comparator_on_minus: "js_comparator (\<lambda>x y. f x - f y :: int)"
  by (rule js_comparator_pullback [OF js_comparator_minus])

lemma comparator_on_optional: "js_comparator c \<Longrightarrow> js_comparator (\<lambda>x y. optional_cmp c (f x) (f y))"
  by (rule js_comparator_pullback [OF js_comparator_optional])

lemmas comparator_on = js_comparator_or_else comparator_on_order comparator_on_minus comparator_on_optional
  js_comparator_order_cmp js_comparator_minus

lemma js_comparator_compareEvidence: "js_comparator (compareEvidence E)"
  unfolding compareEvidence_def [abs_def] optionalText_def optionalNumber_def compareGuild_def
  by (intro comparator_on)

lemma js_comparator_compareMatched: "js_comparator (compareMatched E)"
  unfolding compareMatched_def [abs_def]
  by (rule js_comparator_pullback [OF js_comparator_compareEvidence])

lemma js_comparator_flip: "js_comparator c \<Longrightarrow> js_comparator (\<lambda>x y. c y x)"
  by unfold_locales (metis js_comparator.flip, metis js_comparator.le_trans)

lemma compareEvidence_killedAt: "compareEvidence E a b \<le> 0 \<Longrightarrow> ke_killedAt a \<le> ke_killedAt b"
  by (auto simp: compareEvidence_def or_else_def order_cmp_def split: if_splits)

subsection \<open>Tallies\<close>

lemma sum_update:
  "sum_list (map (\<lambda>e. f (snd e)) (AList.update k v m)) + (case map_of m k of None \<Rightarrow> 0 | Some old \<Rightarrow> f old) =
   sum_list (map (\<lambda>e. f (snd e)) m) + (f v :: nat)"
  by (induction m) (auto split: option.splits)

lemma sum_update_Suc:
  assumes "f v = Suc (case map_of m k of None \<Rightarrow> 0 | Some old \<Rightarrow> f old)"
  shows "sum_list (map (\<lambda>e. f (snd e)) (AList.update k v m)) = Suc (sum_list (map (\<lambda>e. f (snd e)) m))"
  using sum_update [of f k v m] assms by linarith

definition tally_total :: "encounterTally \<Rightarrow> nat" where
  "tally_total tally = sum_list (map (\<lambda>e. le_kills (snd e)) tally)"

definition withheld_total :: "withheldReasons \<Rightarrow> nat" where
  \<comment> \<open>the kills counted by the withheld limitations\<close>
  "withheld_total reasons = sum_list (map (\<lambda>e. tally_total (wr_encounters (snd e))) reasons)"

lemma tallyEncounter_total: "tally_total (tallyEncounter raidName bossName tally) = Suc (tally_total tally)"
  unfolding tally_total_def tallyEncounter_def Let_def
  by (rule sum_update_Suc) (simp split: option.split)

lemma withhold_total: "withheld_total (withhold E code source kill reasons) = Suc (withheld_total reasons)"
  unfolding withheld_total_def withhold_def Let_def
  by (rule sum_update_Suc [where f = "\<lambda>r. tally_total (wr_encounters r)"])
    (simp add: tallyEncounter_total tally_total_def [of "[]"] split: option.split)

definition kills_current :: "js_env \<Rightarrow> catalogueData \<Rightarrow> matchedKill list \<Rightarrow> bool" where
  "kills_current E K kills \<longleftrightarrow>
     list_all (\<lambda>k. currentness E K (ke_killedAt (mk_kill k)) (ke_raidId (mk_kill k)) = Some True) kills"

lemma sortKill_total:
  "withheld_total (ks_reasons (sortKill E K kill s)) + length (ks_all (sortKill E K kill s)) +
     of_bool (isNonRaidZone E K (ke_raidName kill)) =
   Suc (withheld_total (ks_reasons s) + length (ks_all s))"
proof (cases "isNonRaidZone E K (ke_raidName kill)")
  case True
  then show ?thesis by (simp add: sortKill_def catalogueEncounter_def)
next
  case False
  then show ?thesis by (simp add: sortKill_def withhold_total Let_def split: option.split)
qed

lemma sortKill_current:
  "kills_current E K (ks_all s) \<Longrightarrow> kills_current E K (ks_all (sortKill E K kill s))"
  by (auto simp: sortKill_def kills_current_def Let_def split: option.split)

lemma sortKills_total:
  fixes s
  shows "withheld_total (ks_reasons (foldl (\<lambda>s kill. sortKill E K kill s) s kills)) +
     length (ks_all (foldl (\<lambda>s kill. sortKill E K kill s) s kills)) +
     length (filter (\<lambda>kill. isNonRaidZone E K (ke_raidName kill)) kills) =
   withheld_total (ks_reasons s) + length (ks_all s) + length kills"
proof (induction kills arbitrary: s)
  case (Cons kill kills)
  from Cons.IH [of "sortKill E K kill s"] sortKill_total [of E K kill s] show ?case
    by (cases "isNonRaidZone E K (ke_raidName kill)") simp_all
qed simp

lemma foldl_invariant:
  "(\<And>s x. I s \<Longrightarrow> I (f s x)) \<Longrightarrow> I s \<Longrightarrow> I (foldl f s xs)"
  by (induction xs arbitrary: s) auto

text \<open>
  C18. No supplied kill goes missing: it is in a dungeon or other non-raid zone, or counted by
  exactly one withheld limitation, or admitted to the dossier.
\<close>

theorem kills_accounted:
  "withheld_total (ks_reasons (sortKills E K kills)) + length (ks_all (sortKills E K kills)) +
     length (filter (\<lambda>kill. isNonRaidZone E K (ke_raidName kill)) kills) = length kills"
  using sortKills_total [of E K "\<lparr>ks_all = [], ks_reasons = [], ks_withheld = []\<rparr>" kills]
  by (simp add: sortKills_def withheld_total_def)

lemma sortKills_current: "kills_current E K (ks_all (sortKills E K kills))"
  unfolding sortKills_def
  by (rule foldl_invariant) (simp_all add: sortKill_current kills_current_def [of _ _ "[]"])

lemma lend_keeps_kills: "map mk_kill (kills[i := (kills ! i)\<lparr>mk_firstKill := f\<rparr>]) = map mk_kill kills"
  by (cases "i < length kills") (simp_all add: map_update list_update_same_conv list_update_beyond)

lemma kills_current_map:
  "kills_current E K kills \<longleftrightarrow>
     list_all (\<lambda>k. currentness E K (ke_killedAt k) (ke_raidId k) = Some True) (map mk_kill kills)"
  by (simp add: kills_current_def list.pred_map comp_def)

lemma kills_current_lend:
  "kills_current E K kills \<Longrightarrow> kills_current E K (kills[i := (kills ! i)\<lparr>mk_firstKill := Some first\<rparr>])"
  unfolding kills_current_map by (simp only: lend_keeps_kills)

lemma attachFirstKill_current:
  assumes "kills_current E K (ks_all s)"
  shows "kills_current E K (ks_all (attachFirstKill E K eligibleIndex withheldIndex first s))"
  using assms kills_current_lend [OF assms]
  by (auto simp: attachFirstKill_def addRaiderIoKill_def Let_def kills_current_def split: option.split)

text \<open>
  C19. Only current content is shown: every kill the dossier is assembled from, Warcraft Logs'
  or Raider.IO's own, happened while its raid was current.
\<close>

theorem shown_kills_current:
  assumes "attachFirstKills E K firsts (sortKills E K kills) = Some s"
  shows "kills_current E K (ks_all s)"
proof -
  obtain i j where "s = foldl (\<lambda>s first. attachFirstKill E K i j first s) (sortKills E K kills) firsts"
    using assms by (auto simp: attachFirstKills_def split: option.splits)
  moreover have "kills_current E K (ks_all (foldl (\<lambda>s first. attachFirstKill E K i j first s) (sortKills E K kills) firsts))"
    by (rule foldl_invariant [where I = "\<lambda>s. kills_current E K (ks_all s)"])
      (rule attachFirstKill_current, assumption, rule sortKills_current)
  ultimately show ?thesis by simp
qed

subsection \<open>Lending first kills\<close>

lemma bestMatch_found:
  assumes "bestMatch E kills at_ms candidates matched = Some (i, d)"
  shows "matched = Some (i, d) \<or>
         (\<exists>a. (i, a) \<in> set candidates \<and> mk_firstKill (kills ! i) = None \<and> within_match (distance a at_ms))"
  using assms
proof (induction E kills at_ms candidates matched rule: bestMatch.induct)
  case (2 E kills at_ms index a candidates matched)
  then show ?case by (auto split: if_splits)
qed simp

definition index_ok :: "js_env \<Rightarrow> matchedKill list \<Rightarrow> killIndex \<Rightarrow> bool" where
  \<comment> \<open>an entry is the position and the instant of a kill of the character its key names\<close>
  "index_ok E kills index \<longleftrightarrow>
     (\<forall>character raidSlug bossSlug i a. (i, a) \<in> set (candidatesAt index (matchKey E character raidSlug bossSlug)) \<longrightarrow>
        i < length kills \<and> a = dateParse E (ke_killedAt (mk_kill (kills ! i))) \<and>
        canonicalCharacterId E (ke_character (mk_kill (kills ! i))) = canonicalCharacterId E character)"

lemma indexEntries_sound:
  "(key, i, a) \<in> set (indexEntries E n kills bosses) \<Longrightarrow>
   n \<le> i \<and> i < n + length kills \<and> a = dateParse E (ke_killedAt (mk_kill (kills ! (i - n)))) \<and>
   (\<exists>raidSlug bossSlug. key = matchKey E (ke_character (mk_kill (kills ! (i - n)))) raidSlug bossSlug)"
proof (induction E n kills bosses rule: indexEntries.induct)
  case (1 E n kill kills boss bosses)
  show ?case
  proof (cases "(key, i, a) \<in> set (indexEntries E (Suc n) kills bosses)")
    case True
    then have "Suc n \<le> i" using "1.IH" by blast
    then have "i - n = Suc (i - Suc n)" by simp
    with "1.IH" [OF True] show ?thesis by auto
  next
    case False
    with "1.prems" show ?thesis by (auto split: option.splits) blast
  qed
qed simp_all

lemma foldl_bucket_push:
  "map_of (foldl (\<lambda>m (key, entry). bucket_push key entry m) m entries) k = Some b \<Longrightarrow>
   x \<in> set b \<Longrightarrow> (k, x) \<in> set entries \<or> (\<exists>b0. map_of m k = Some b0 \<and> x \<in> set b0)"
proof (induction entries arbitrary: m)
  case (Cons e entries)
  obtain k' v where e: "e = (k', v)" by fastforce
  from Cons.prems have "(k, x) \<in> set entries \<or> (\<exists>b0. map_of (bucket_push k' v m) k = Some b0 \<and> x \<in> set b0)"
    by (intro Cons.IH) (simp_all add: e)
  then show ?case
    by (auto simp: e map_of_bucket_push split: if_splits option.splits)
qed auto

lemma indexKills_ok: "indexKills E K b kills = Some index \<Longrightarrow> index_ok E kills index"
proof (cases b)
  case True
  assume "indexKills E K b kills = Some index"
  then obtain bosses where index: "index = foldl (\<lambda>m (key, entry). bucket_push key entry m) [] (indexEntries E 0 kills bosses)"
    using True by (auto simp: indexKills_def)
  show ?thesis
    unfolding index_ok_def
  proof (intro allI impI)
    fix character raidSlug bossSlug i a
    let ?key = "matchKey E character raidSlug bossSlug"
    assume "(i, a) \<in> set (candidatesAt index ?key)"
    then obtain bucket where "map_of index ?key = Some bucket" "(i, a) \<in> set bucket"
      by (cases "map_of index ?key") (simp_all add: candidatesAt_def)
    from foldl_bucket_push [OF this [unfolded index]]
    have "(?key, i, a) \<in> set (indexEntries E 0 kills bosses)" by simp
    from indexEntries_sound [OF this]
    show "i < length kills \<and> a = dateParse E (ke_killedAt (mk_kill (kills ! i))) \<and>
        canonicalCharacterId E (ke_character (mk_kill (kills ! i))) = canonicalCharacterId E character"
      by (auto simp: matchKey_def)
  qed
qed (auto simp: indexKills_def index_ok_def candidatesAt_def)

definition lent_ok :: "js_env \<Rightarrow> matchedKill \<Rightarrow> bool" where
  \<comment> \<open>the first kill a kill carries is of the same character and within the match window\<close>
  "lent_ok E k \<longleftrightarrow>
     (case mk_firstKill k of
        None \<Rightarrow> True
      | Some first \<Rightarrow>
          canonicalCharacterId E (ke_character (mk_kill k)) = canonicalCharacterId E (fk_character first) \<and>
          within_match (distance (dateParse E (ke_killedAt (mk_kill k))) (dateParse E (fk_killedAt first))))"

definition attach_ok :: "js_env \<Rightarrow> matchedKill list \<Rightarrow> dossierRaiderIoFirstKill multiset \<Rightarrow> killSorting \<Rightarrow> bool" where
  "attach_ok E stored seen s \<longleftrightarrow>
     take (length stored) (map mk_kill (ks_all s)) = map mk_kill stored \<and>
     list_all (lent_ok E) (ks_all s) \<and> mset (List.map_filter mk_firstKill (ks_all s)) \<subseteq># seen"

lemma mset_map_filter_update:
  "i < length xs \<Longrightarrow> f (xs ! i) = None \<Longrightarrow> f x = Some y \<Longrightarrow>
   mset (List.map_filter f (xs[i := x])) = add_mset y (mset (List.map_filter f xs))"
  by (induction xs arbitrary: i) (auto simp: map_filter_simps nth_Cons split: nat.splits option.splits)

lemma map_filter_append: "List.map_filter f (xs @ ys) = List.map_filter f xs @ List.map_filter f ys"
  by (simp add: map_filter_def)

lemma attach_ok_mono: "attach_ok E stored seen s \<Longrightarrow> attach_ok E stored (add_mset first seen) s"
  by (auto simp: attach_ok_def intro: subset_mset.trans)

lemma attach_lend:
  assumes "attach_ok E stored seen s" and "i < length stored" and "mk_firstKill (ks_all s ! i) = None"
    and "lent_ok E ((stored ! i)\<lparr>mk_firstKill := Some first\<rparr>)"
  shows "attach_ok E stored (add_mset first seen)
           (s\<lparr>ks_all := (ks_all s)[i := (ks_all s ! i)\<lparr>mk_firstKill := Some first\<rparr>]\<rparr>)"
proof -
  have len: "length stored \<le> length (ks_all s)"
    using assms(1) by (auto simp: attach_ok_def dest: arg_cong [of _ _ length])
  have "mk_kill (ks_all s ! i) = mk_kill (stored ! i)"
  proof -
    have "take (length stored) (map mk_kill (ks_all s)) ! i = map mk_kill stored ! i"
      using assms(1) by (simp add: attach_ok_def)
    with assms(2) len show ?thesis by simp
  qed
  then have "lent_ok E ((ks_all s ! i)\<lparr>mk_firstKill := Some first\<rparr>)"
    using assms(4) by (simp add: lent_ok_def)
  then have "list_all (lent_ok E) ((ks_all s)[i := (ks_all s ! i)\<lparr>mk_firstKill := Some first\<rparr>])"
    using assms(1) set_update_subset_insert [of "ks_all s" i] by (auto simp: attach_ok_def list_all_iff)
  then show ?thesis
    using assms(1-3) len
    by (simp add: attach_ok_def lend_keeps_kills mset_map_filter_update)
qed

lemma attach_append:
  assumes "attach_ok E stored seen s" and "lent_ok E k" and "mk_firstKill k = Some first"
  shows "attach_ok E stored (add_mset first seen) (s\<lparr>ks_all := ks_all s @ [k]\<rparr>)"
proof -
  have len: "length stored \<le> length (ks_all s)"
    using assms(1) by (auto simp: attach_ok_def dest: arg_cong [of _ _ length])
  with assms show ?thesis by (simp add: attach_ok_def map_filter_append map_filter_simps)
qed

lemma raiderIoKill_lent_ok:
  assumes "currentness E K (fk_killedAt first) raidId = Some True"
  shows "lent_ok E (raiderIoKill_of metadata first)"
proof -
  obtain t where "dateParse E (fk_killedAt first) = Some t"
    using assms by (auto simp: currentness_def currentContentEligibilityByRaidId_def split: option.splits)
  then show ?thesis
    by (simp add: lent_ok_def raiderIoKill_of_def distance_def within_match_def STORED_KILL_MATCH_MS_def)
qed

lemma attachFirstKill_ok:
  assumes "index_ok E stored eligibleIndex" and "attach_ok E stored seen s"
  shows "attach_ok E stored (add_mset first seen) (attachFirstKill E K eligibleIndex withheldIndex first s)"
proof (cases "lookupRaidEncounterByRaiderIoSlugs E K (fk_raidSlug first) (fk_bossSlug first)")
  case (Some metadata)
  let ?key = "matchKey E (fk_character first) (fk_raidSlug first) (fk_bossSlug first)"
  let ?match = "bestMatch E (ks_all s) (dateParse E (fk_killedAt first)) (candidatesAt eligibleIndex ?key) None"
  show ?thesis
  proof (cases ?match)
    case None
    have "ke_killedAt (mk_kill (raiderIoKill_of metadata first)) = fk_killedAt first"
      "mk_firstKill (raiderIoKill_of metadata first) = Some first"
      by (simp_all add: raiderIoKill_of_def)
    with Some None assms(2) show ?thesis
      using attach_append [OF assms(2) raiderIoKill_lent_ok] attach_ok_mono [OF assms(2)]
      by (auto simp: attachFirstKill_def addRaiderIoKill_def Let_def attach_ok_def)
  next
    case (Some found)
    obtain i d where found: "found = (i, d)" by fastforce
    then obtain a where a: "(i, a) \<in> set (candidatesAt eligibleIndex ?key)" "mk_firstKill (ks_all s ! i) = None"
        "within_match (distance a (dateParse E (fk_killedAt first)))"
      using bestMatch_found [of E "ks_all s" "dateParse E (fk_killedAt first)" "candidatesAt eligibleIndex ?key" None i d]
        Some by auto
    then have i: "i < length stored" "a = dateParse E (ke_killedAt (mk_kill (stored ! i)))"
        "canonicalCharacterId E (ke_character (mk_kill (stored ! i))) = canonicalCharacterId E (fk_character first)"
      using assms(1) unfolding index_ok_def by blast+
    then have "lent_ok E ((stored ! i)\<lparr>mk_firstKill := Some first\<rparr>)"
      using a(3) by (simp add: lent_ok_def)
    from attach_lend [OF assms(2) i(1) a(2) this] show ?thesis
      using Some found \<open>lookupRaidEncounterByRaiderIoSlugs E K (fk_raidSlug first) (fk_bossSlug first) = Some metadata\<close>
      by (simp add: attachFirstKill_def Let_def)
  qed
qed (simp add: attachFirstKill_def attach_ok_mono [OF assms(2)])

lemma attachFirstKills_ok:
  "index_ok E stored i \<Longrightarrow> attach_ok E stored seen s \<Longrightarrow>
   attach_ok E stored (seen + mset firsts) (foldl (\<lambda>s first. attachFirstKill E K i j first s) s firsts)"
proof (induction firsts arbitrary: s seen)
  case (Cons first firsts)
  from Cons.IH [OF Cons.prems(1) attachFirstKill_ok [OF Cons.prems, of first K j]] show ?case
    by (simp add: ac_simps)
qed simp

lemma sortKills_unlent: "list_all (\<lambda>k. mk_firstKill k = None) (ks_all (sortKills E K kills))"
  unfolding sortKills_def
  by (rule foldl_invariant [where I = "\<lambda>s. list_all (\<lambda>k. mk_firstKill k = None) (ks_all s)"])
    (auto simp: sortKill_def matched_of_def Let_def split: option.split)

text \<open>
  C20. A Raider.IO first kill is lent at most once and only to a kill of the same character
  within two hours of it, and lending changes nothing else: the Warcraft Logs kills keep
  their places and their evidence.
\<close>

theorem first_kills_lent:
  assumes "attachFirstKills E K firsts (sortKills E K kills) = Some s"
  shows "mset (List.map_filter mk_firstKill (ks_all s)) \<subseteq># mset firsts \<and>
         list_all (lent_ok E) (ks_all s) \<and>
         take (length (ks_all (sortKills E K kills))) (map mk_kill (ks_all s)) =
           map mk_kill (ks_all (sortKills E K kills))"
proof -
  let ?stored = "ks_all (sortKills E K kills)"
  obtain i j where "indexKills E K (firsts \<noteq> []) ?stored = Some i"
    and s: "s = foldl (\<lambda>s first. attachFirstKill E K i j first s) (sortKills E K kills) firsts"
    using assms by (auto simp: attachFirstKills_def split: option.splits)
  then have "index_ok E ?stored i" by (intro indexKills_ok)
  moreover have "attach_ok E ?stored {#} (sortKills E K kills)"
    using sortKills_unlent [of E K kills]
    by (auto simp: attach_ok_def lent_ok_def list_all_iff map_filter_def filter_empty_conv)
  ultimately have "attach_ok E ?stored ({#} + mset firsts) s"
    unfolding s by (rule attachFirstKills_ok)
  then show ?thesis by (simp add: attach_ok_def)
qed

subsection \<open>Events of a boss\<close>

lemma eventOf_simps [simp]:
  "de_shared (eventOf E input characters ids shared) = shared"
  "de_selected (eventOf E input characters ids shared) = hd (sort_by (compareMatched E) shared)"
  "af_killedAt (de_firstKill (eventOf E input characters ids shared)) =
     ke_killedAt (mk_kill (hd (sort_by (compareMatched E) shared)))"
  by (simp_all add: eventOf_def Let_def)

lemma bossEvents_partition: "mset (concat (map de_shared (bossEvents E input characters ids kills))) = mset kills"
proof -
  let ?groups = "group_by (\<lambda>k. killEventKey E (mk_kill k)) (sort_by (compareMatched E) kills) []"
  have "mset (concat (map de_shared (bossEvents E input characters ids kills))) =
      mset (concat (map de_shared (map (\<lambda>(key, shared). eventOf E input characters ids shared) ?groups)))"
    unfolding bossEvents_def by (rule mset_concat_perm) (rule mset_sort_by)
  also have "map de_shared (map (\<lambda>(key, shared). eventOf E input characters ids shared) ?groups) = map snd ?groups"
    by auto
  also have "mset (concat (map snd ?groups)) = mset kills"
    by (simp add: mset_group_by mset_sort_by)
  finally show ?thesis .
qed

lemma event_selected_least:
  assumes "k \<in> set shared"
  shows "compareEvidence E (mk_kill (hd (sort_by (compareMatched E) shared))) (mk_kill k) \<le> 0"
proof -
  from assms have "shared \<noteq> []" by auto
  from js_comparator.hd_sort_by_least [OF js_comparator_compareMatched this assms] show ?thesis
    by (simp add: compareMatched_def)
qed

lemma last_sorted:
  "sorted_wrt (\<lambda>x y. c x y \<le> (0 :: int)) xs \<Longrightarrow> x \<in> set xs \<Longrightarrow> c x x \<le> 0 \<Longrightarrow> c x (last xs) \<le> 0"
  by (induction xs) auto

lemma last_event_earliest:
  assumes "k \<in> set kills"
  shows "compareEvidence E (mk_kill (de_selected (last (bossEvents E input characters ids kills)))) (mk_kill k) \<le> 0"
proof -
  let ?events = "bossEvents E input characters ids kills"
  let ?cmp = "\<lambda>a b. compareEventsLatestFirst E (mk_kill (de_selected a)) (mk_kill (de_selected b))"
  have cmp: "js_comparator ?cmp"
    unfolding compareEventsLatestFirst_def
    by (rule js_comparator_flip, rule js_comparator_pullback [OF js_comparator_compareEvidence])
  have "k \<in> set (concat (map de_shared ?events))"
    using assms bossEvents_partition [of E input characters ids kills] by (metis set_mset_mset)
  then obtain e where e: "e \<in> set ?events" "k \<in> set (de_shared e)" by auto
  then obtain shared where "e = eventOf E input characters ids shared" by (auto simp: bossEvents_def)
  with e(2) have sel: "compareEvidence E (mk_kill (de_selected e)) (mk_kill k) \<le> 0"
    using event_selected_least by simp
  have sorted: "sorted_wrt (\<lambda>a b. ?cmp a b \<le> 0) ?events"
    unfolding bossEvents_def by (rule js_comparator.sorted_sort_by [OF cmp])
  have "?cmp e (last ?events) \<le> 0"
    by (rule last_sorted [where c = ?cmp, OF sorted e(1)]) (simp only: js_comparator.refl_zero [OF cmp])
  then show ?thesis
    unfolding compareEventsLatestFirst_def
    by (rule js_comparator.le_trans [OF js_comparator_compareEvidence _ sel])
qed

text \<open>
  On a boss card the events share out the boss's kills, each kill in exactly one event,
  and the first kill shown is the earliest: no kill of the boss precedes it.
\<close>

theorem first_kill_earliest:
  assumes "kills \<noteq> []"
  shows "mset (concat (map de_shared (bossEvents E input characters ids kills))) = mset kills \<and>
         list_all (\<lambda>k. af_killedAt (bk_firstKill (ab_kills (aggregatedBoss_of E K input characters ids tierBests wipes kills)))
              \<le> ke_killedAt (mk_kill k)) kills \<and>
         length (bk_firstKills (ab_kills (aggregatedBoss_of E K input characters ids tierBests wipes kills))) =
           length (bossEvents E input characters ids kills)"
proof -
  let ?events = "bossEvents E input characters ids kills"
  have "?events \<noteq> []"
    using assms bossEvents_partition [of E input characters ids kills] by auto
  then have "last ?events \<in> set ?events" by simp
  then obtain shared where "last ?events = eventOf E input characters ids shared" by (auto simp: bossEvents_def)
  then have "af_killedAt (de_firstKill (last ?events)) = ke_killedAt (mk_kill (de_selected (last ?events)))"
    by simp
  then show ?thesis
    using bossEvents_partition compareEvidence_killedAt [OF last_event_earliest]
    by (simp add: aggregatedBoss_of_def Let_def list_all_iff)
qed

subsection \<open>Historic ranks\<close>

text \<open>
  An event shows a historic world rank only when the evidence agrees on it: it is the rank
  of some kill of the guild the event is attributed to, and every kill of that guild which
  carries a rank carries this one.
\<close>

theorem historic_rank_agreed:
  assumes "af_historicWorldRank (de_firstKill (eventOf E input characters ids shared)) = Some r"
  shows "\<exists>guild. attributedGuild E shared = Some guild \<and>
           (\<exists>k \<in> set shared. ke_historicWorldRank (mk_kill k) = Some r) \<and>
           (\<forall>k \<in> set shared. \<forall>g r'. ke_guild (mk_kill k) = Some g \<longrightarrow> sameAttributedGuild E g guild \<longrightarrow>
              ke_historicWorldRank (mk_kill k) = Some r' \<longrightarrow> r' = r)"
proof -
  let ?rank = "\<lambda>k. case (attributedGuild E shared, ke_guild (mk_kill k)) of
      (Some attributed, Some guild) \<Rightarrow>
        if sameAttributedGuild E guild attributed then ke_historicWorldRank (mk_kill k) else None
    | _ \<Rightarrow> None"
  have "eventRanks E shared = [r]"
    using assms by (auto simp: eventOf_def Let_def split: list.splits)
  moreover have "set (eventRanks E shared) = set (List.map_filter ?rank shared)"
    using ident_keep_first [of "\<lambda>r. r" "List.map_filter ?rank shared" "[]"] by (simp add: eventRanks_def)
  then have "set (eventRanks E shared) = {x. \<exists>k \<in> set shared. ?rank k = Some x}"
    by (simp only: set_eq_iff set_map_filter_eq mem_Collect_eq simp_thms)
  ultimately have ranks: "{x. \<exists>k \<in> set shared. ?rank k = Some x} = {r}" by simp
  then obtain k where k: "k \<in> set shared" "?rank k = Some r" by blast
  then obtain guild where guild: "attributedGuild E shared = Some guild"
    and "ke_historicWorldRank (mk_kill k) = Some r"
    by (auto split: option.splits if_splits)
  moreover have "r' = r" if "k' \<in> set shared" "ke_guild (mk_kill k') = Some g" "sameAttributedGuild E g guild"
      "ke_historicWorldRank (mk_kill k') = Some r'" for k' g r'
  proof -
    have "?rank k' = Some r'" using that guild by simp
    with that(1) have "r' \<in> {x. \<exists>k \<in> set shared. ?rank k = Some x}" by blast
    then show ?thesis unfolding ranks by simp
  qed
  ultimately show ?thesis using k(1) by blast
qed

subsection \<open>Catalogue gaps\<close>

fun boss_metadata :: "applicantDossierBoss \<Rightarrow> bossMetadata" where
  "boss_metadata (Boss_kill m k) = m"
| "boss_metadata (Boss_wipe m w ws) = m"
| "boss_metadata (Boss_no_logs m) = m"
| "boss_metadata (Boss_incomplete m) = m"

fun shown_without_logs :: "applicantDossierBoss \<Rightarrow> bool" where
  "shown_without_logs (Boss_no_logs m) = True"
| "shown_without_logs _ = False"

lemma catalogueBoss_id: "bm_bossId (boss_metadata (catalogueBoss E input wipes raidId observed encounter)) = re_bossId encounter"
  by (auto simp: catalogueBoss_def Let_def find_Some_iff split: option.split list.split)

lemma catalogueBoss_no_logs:
  "shown_without_logs (catalogueBoss E input wipes raidId observed encounter) \<Longrightarrow> allWarcraftLogsComplete E input"
  by (auto simp: catalogueBoss_def Let_def split: option.splits list.splits if_splits)

lemma build_cases:
  assumes "buildApplicantDossier E K achievements input = Inr d"
  obtains characters s where "displayCharacters E (di_characters input) = Some characters"
    "attachFirstKills E K (di_firstKills input) (sortKills E K (di_kills input)) = Some s"
    "dossierRaids E K input characters (ks_all s) = Some (ad_raids d)"
    "ad_limitations d = di_limitations input @ withheldLimitations (ks_reasons s)"
  using assms by (auto simp: buildApplicantDossier_def split: option.splits)

lemma dossierRaids_gaps:
  assumes "includeCatalogueGaps input" and "dossierRaids E K input characters kills = Some shown"
  shows "\<exists>wipes raids catalogue. supportedRaidCatalogue E K = Some catalogue \<and>
           shown = map (catalogueRaid E input wipes raids) catalogue"
proof -
  obtain wipes raids where "dossierRaids E K input characters kills =
      map_option (map (catalogueRaid E input wipes raids)) (supportedRaidCatalogue E K)"
    using assms(1) by (simp add: dossierRaids_def Let_def)
  with assms(2) show ?thesis by (cases "supportedRaidCatalogue E K") auto
qed

text \<open>
  C21. A dossier asked for with its gaps shows the whole catalogue: exactly the supported raids
  and, in each, exactly its encounters, in the catalogue's order; and a boss is declared to
  have no logs only when the collection of every character is complete.
\<close>

theorem gaps_cover_catalogue:
  assumes "buildApplicantDossier E K achievements input = Inr d" and "includeCatalogueGaps input"
  shows "map_option (map (\<lambda>s. (rr_raidId (sr_raid s), map re_bossId (sr_encounters s)))) (supportedRaidCatalogue E K) =
           Some (map (\<lambda>r. (ra_raidId r, map (\<lambda>b. bm_bossId (boss_metadata b)) (ra_bosses r))) (ad_raids d)) \<and>
         (allWarcraftLogsComplete E input \<or>
          list_all (\<lambda>r. list_all (\<lambda>b. \<not> shown_without_logs b) (ra_bosses r)) (ad_raids d))"
proof -
  obtain characters and s :: killSorting
    where "dossierRaids E K input characters (ks_all s) = Some (ad_raids d)"
    using assms(1) by (rule build_cases) blast
  from dossierRaids_gaps [OF assms(2) this] obtain wipes raids catalogue
    where "supportedRaidCatalogue E K = Some catalogue"
      "ad_raids d = map (catalogueRaid E input wipes raids) catalogue"
    by blast
  then show ?thesis
    using catalogueBoss_no_logs
    by (auto simp: catalogueRaid_def Let_def catalogueBoss_id comp_def list_all_iff)
qed

subsection \<open>The assembly returns\<close>

lemma those_Some: "list_all (\<lambda>x. x \<noteq> None) xs \<Longrightarrow> \<exists>ys. those xs = Some ys"
  by (induction xs) auto

lemma indexKills_returns: "zone_uncatalogued E K \<Longrightarrow> \<exists>index. indexKills E K b kills = Some index"
  using those_Some [of "map (\<lambda>kill. lookupRaiderIoBoss E K (ke_raidName (mk_kill kill)) (ke_bossName (mk_kill kill))) kills"]
    raiderIoBossByNames_returns [of E K 2]
  by (auto simp: indexKills_def list_all_iff)

lemma attachFirstKills_returns: "zone_uncatalogued E K \<Longrightarrow> \<exists>s'. attachFirstKills E K firsts s = Some s'"
  using indexKills_returns [of E K "firsts \<noteq> []" "ks_all s"] indexKills_returns [of E K "firsts \<noteq> []" "ks_withheld s"]
  by (auto simp: attachFirstKills_def)

lemma displayCharacters_returns:
  assumes "list_all (\<lambda>c. dch_displayName c \<noteq> []) characters"
  shows "\<exists>shown. displayCharacters E characters = Some shown"
proof -
  have "formatCharacterDisplayName E n \<noteq> None" if "n \<noteq> []" for n
    using that by (cases n) (simp_all add: formatCharacterDisplayName_def)
  with assms show ?thesis
    unfolding displayCharacters_def by (intro those_Some) (auto simp: list_all_iff)
qed

definition raid_names_distinct :: "js_env \<Rightarrow> catalogueData \<Rightarrow> bool" where
  \<comment> \<open>a test of the repository checks the generated catalogue for it\<close>
  "raid_names_distinct E K \<longleftrightarrow> distinct (map (\<lambda>raid. normalizedName E (jr_raidName raid)) (cat_raids K))"

lemma filter_unique_key:
  "distinct (map f xs) \<Longrightarrow> x \<in> set xs \<Longrightarrow> filter (\<lambda>y. f y = f x) xs = [x]"
proof (induction xs)
  case (Cons z zs)
  then show ?case
    by (cases "x = z") (auto simp: filter_empty_conv image_iff)
qed simp

lemma enumerate_keys:
  "map (\<lambda>x. fst (case x of (n, raid) \<Rightarrow> (g raid, f n raid))) (List.enumerate i xs) = map g xs"
  by (induction xs arbitrary: i) simp_all

lemma unique_index_total:
  assumes "distinct (map fst es)" and "k \<in> set (map fst es)"
  shows "index_get (unique_index es) k \<noteq> None"
proof -
  from assms(2) obtain v where "(k, v) \<in> set es" by auto
  from filter_unique_key [OF assms(1) this] have "index_get (unique_index es) k = Some v"
    unfolding index_get_unique by simp
  then show ?thesis by simp
qed

lemma lookupRaidByName_catalogued:
  assumes "raid_names_distinct E K" and "raid \<in> set (cat_raids K)"
  shows "lookupRaidByName E K (jr_raidName raid) \<noteq> None"
  unfolding lookupRaidByName_def raidsByName_def
proof (rule unique_index_total, goal_cases)
  case 1
  from assms(1) show ?case unfolding map_map comp_def enumerate_keys raid_names_distinct_def .
next
  case 2
  from assms(2) show ?case unfolding map_map comp_def enumerate_keys by simp
qed

lemma supportedRaids_returns:
  assumes "raid_names_distinct E K" and "snd ` set es \<subseteq> set (cat_raids K)"
  shows "\<exists>raids. supportedRaids E K es = Some raids"
  using assms(2)
proof (induction es)
  case (Cons e es)
  moreover obtain n raid where e: "e = (n, raid)" by fastforce
  moreover from Cons.prems e have "raid \<in> set (cat_raids K)" by simp
  from lookupRaidByName_catalogued [OF assms(1) this]
  obtain metadata where "lookupRaidByName E K (jr_raidName raid) = Some metadata" by blast
  ultimately show ?case by auto
qed simp

lemma dossierRaids_returns:
  assumes "raid_names_distinct E K"
  shows "\<exists>raids. dossierRaids E K input characters kills = Some raids"
proof -
  have "snd ` set (List.enumerate 0 (cat_raids K)) = set (cat_raids K)"
    by (metis list.set_map map_snd_enumerate)
  then obtain catalogue where "supportedRaidCatalogue E K = Some catalogue"
    using supportedRaids_returns [OF assms, of "List.enumerate 0 (cat_raids K)"]
    by (auto simp: supportedRaidCatalogue_def)
  then show ?thesis by (simp add: dossierRaids_def Let_def)
qed

lemma buildApplicantDossier_returns:
  assumes "zone_uncatalogued E K" and "raid_names_distinct E K"
    and "list_all (\<lambda>c. dch_displayName c \<noteq> []) (di_characters input)"
  shows "\<exists>d. buildApplicantDossier E K achievements input = Inr d"
proof -
  obtain characters where "displayCharacters E (di_characters input) = Some characters"
    using displayCharacters_returns [OF assms(3)] by blast
  moreover obtain s where "attachFirstKills E K (di_firstKills input) (sortKills E K (di_kills input)) = Some s"
    using attachFirstKills_returns [OF assms(1)] by blast
  moreover obtain raids where "dossierRaids E K input characters (ks_all s) = Some raids"
    using dossierRaids_returns [OF assms(2)] by blast
  ultimately show ?thesis by (simp add: buildApplicantDossier_def)
qed

text \<open>
  C22. The assembly always returns a dossier: for characters with a display name, over a
  catalogue whose raid names are distinct and none of which is the combined zone, no kill,
  wipe, parse or first kill makes it throw or loop.
\<close>

theorem dossier_returned:
  assumes "zone_uncatalogued E K" and "raid_names_distinct E K"
    and "list_all (\<lambda>c. dch_displayName c \<noteq> []) (di_characters input)"
  shows "\<exists>d. buildApplicantDossier E K achievements input = Inr d"
  using assms by (rule buildApplicantDossier_returns)

subsection \<open>A small dossier\<close>

text \<open>A catalogue of one raid with one boss, under one-letter names.\<close>

definition tiny_catalogue :: catalogueData where
  "tiny_catalogue =
     \<lparr>cat_raids =
        [\<lparr>jr_journalRaidId = ''1273'', jr_raidName = ''P'', jr_imageUrl = None,
          jr_encounters = [\<lparr>je_journalBossId = ''1'', je_bossName = ''Q'', je_bossOrder = 1, je_imageUrl = None\<rparr>]\<rparr>],
      cat_windows = [], cat_dungeons = [''D'']\<rparr>"

definition sample_key :: characterKey where
  "sample_key = \<lparr>region = ''eu'', realm = ''r'', cname = ''a''\<rparr>"

definition sample_kill :: "string \<Rightarrow> string \<Rightarrow> int option \<Rightarrow> dossierKillEvidence" where
  "sample_kill raidName killedAt rank =
     \<lparr>ke_raidId = [], ke_raidName = raidName, ke_bossId = [], ke_bossName = ''Q'', ke_journalBossId = None,
      ke_bossOrder = 0, ke_character = sample_key, ke_killedAt = killedAt,
      ke_guild = Some \<lparr>g_name = ''G'', g_region = ''eu'', g_realm = ''r''\<rparr>,
      ke_historicWorldRank = rank, ke_reportUrl = Some (''u''), ke_uploader = None,
      ke_loggedAs = None, ke_performance = UNPARSED\<rparr>"

definition sample_kills :: "dossierKillEvidence list" where
  "sample_kills =
     [sample_kill ''P'' ''2024-12-03T20:00:00.000Z'' (Some 12), sample_kill ''D'' ''2024-11-05T21:00:00.000Z'' None]"

definition sample_first_kills :: "dossierRaiderIoFirstKill list" where
  "sample_first_kills =
     [\<lparr>fk_character = sample_key, fk_raidSlug = ''nerubar-palace'', fk_bossSlug = ''q'',
       fk_killedAt = ''2024-12-03T20:30:00.000Z'', fk_guild = None, fk_historicWorldRank = None,
       fk_encounter = Log_none\<rparr>]"

definition sample_input :: dossierInput where
  "sample_input =
     \<lparr>di_root = sample_key,
      di_characters = [\<lparr>dch_key = sample_key, dch_displayName = ''a'', dch_className = None, dch_guild = None,
                        dch_raiderIoUrl = None\<rparr>],
      di_kills = sample_kills, di_wipes = Some [], di_tierBests = [], di_complete = None,
      di_cuttingEdges = [], di_firstKills = sample_first_kills, di_limitations = []\<rparr>"

lemma sample_attached:
  "map_option (\<lambda>s. map (\<lambda>k. (ke_killedAt (mk_kill k), mk_firstKill k \<noteq> None)) (ks_all s))
     (attachFirstKills ascii_env tiny_catalogue sample_first_kills
       (sortKills ascii_env tiny_catalogue sample_kills)) =
   Some [(''2024-12-03T20:00:00.000Z'', True)]"
  by code_simp

lemma sample_attaches:
  obtains s where "attachFirstKills ascii_env tiny_catalogue sample_first_kills
      (sortKills ascii_env tiny_catalogue sample_kills) = Some s"
    "map (\<lambda>k. (ke_killedAt (mk_kill k), mk_firstKill k \<noteq> None)) (ks_all s) = [(''2024-12-03T20:00:00.000Z'', True)]"
  using sample_attached by auto

theorem shown_kills_current_witness:
  "map_option (\<lambda>s. (length (ks_all s), kills_current ascii_env tiny_catalogue (ks_all s)))
     (attachFirstKills ascii_env tiny_catalogue sample_first_kills
       (sortKills ascii_env tiny_catalogue sample_kills)) = Some (1, True)"
proof -
  obtain s where s: "attachFirstKills ascii_env tiny_catalogue sample_first_kills
      (sortKills ascii_env tiny_catalogue sample_kills) = Some s"
    "map (\<lambda>k. (ke_killedAt (mk_kill k), mk_firstKill k \<noteq> None)) (ks_all s) = [(''2024-12-03T20:00:00.000Z'', True)]"
    by (rule sample_attaches)
  have "length (ks_all s) = 1" using arg_cong [OF s(2), of length] by simp
  with shown_kills_current [OF s(1)] s(1) show ?thesis by simp
qed

theorem first_kills_lent_witness:
  "map_option (\<lambda>s. (length (List.map_filter mk_firstKill (ks_all s)), list_all (lent_ok ascii_env) (ks_all s)))
     (attachFirstKills ascii_env tiny_catalogue sample_first_kills
       (sortKills ascii_env tiny_catalogue sample_kills)) = Some (1, True)"
proof -
  obtain s where s: "attachFirstKills ascii_env tiny_catalogue sample_first_kills
      (sortKills ascii_env tiny_catalogue sample_kills) = Some s"
    "map (\<lambda>k. (ke_killedAt (mk_kill k), mk_firstKill k \<noteq> None)) (ks_all s) = [(''2024-12-03T20:00:00.000Z'', True)]"
    by (rule sample_attaches)
  then obtain k where "ks_all s = [k]" "mk_firstKill k \<noteq> None" by (auto simp: map_eq_Cons_conv)
  then have "length (List.map_filter mk_firstKill (ks_all s)) = 1" by (auto simp: map_filter_simps)
  with first_kills_lent [OF s(1)] s(1) show ?thesis by simp
qed

definition sample_matched :: "matchedKill list" where
  "sample_matched =
     map (\<lambda>killedAt. \<lparr>mk_kill = sample_kill ''P'' killedAt (Some 12), mk_isFinalBoss = True, mk_firstKill = None\<rparr>)
       [''2024-12-03T20:00:00.000Z'', ''2024-11-05T20:00:00.000Z'']"

theorem first_kill_earliest_witness:
  "af_killedAt (bk_firstKill (ab_kills (aggregatedBoss_of ascii_env tiny_catalogue sample_input [] [] [] [] sample_matched)))
     \<le> ''2024-11-05T20:00:00.000Z'' \<and>
   size (mset (concat (map de_shared (bossEvents ascii_env sample_input [] [] sample_matched)))) = 2"
proof -
  have "sample_matched \<noteq> []" by (simp add: sample_matched_def)
  from first_kill_earliest [OF this, where E = ascii_env and K = tiny_catalogue and input = sample_input
      and characters = "[]" and ids = "[]" and tierBests = "[]" and wipes = "[]"]
  show ?thesis by (simp only:) (simp add: sample_matched_def sample_kill_def)
qed

theorem historic_rank_agreed_witness:
  "af_historicWorldRank (de_firstKill (eventOf ascii_env sample_input [] [] sample_matched)) = Some 12 \<and>
   attributedGuild ascii_env sample_matched = Some \<lparr>g_name = ''G'', g_region = ''eu'', g_realm = ''r''\<rparr>"
proof -
  have rank: "af_historicWorldRank (de_firstKill (eventOf ascii_env sample_input [] [] sample_matched)) = Some 12"
    by code_simp
  obtain guild where "attributedGuild ascii_env sample_matched = Some guild"
    using historic_rank_agreed [OF rank] by blast
  moreover have "attributedGuild ascii_env sample_matched = Some \<lparr>g_name = ''G'', g_region = ''eu'', g_realm = ''r''\<rparr>"
    by code_simp
  ultimately show ?thesis using rank by simp
qed

lemma sample_conditions:
  "zone_uncatalogued ascii_env tiny_catalogue" "raid_names_distinct ascii_env tiny_catalogue"
  "list_all (\<lambda>c. dch_displayName c \<noteq> []) (di_characters sample_input)" "includeCatalogueGaps sample_input"
  by code_simp+

theorem dossier_returned_witness:
  "\<exists>d. buildApplicantDossier ascii_env tiny_catalogue [] sample_input = Inr d"
  using sample_conditions(1,2,3) by (rule dossier_returned)

theorem gaps_cover_catalogue_witness:
  "\<exists>d. buildApplicantDossier ascii_env tiny_catalogue [] sample_input = Inr d \<and>
       map (\<lambda>r. (ra_raidId r, map (\<lambda>b. bm_bossId (boss_metadata b)) (ra_bosses r))) (ad_raids d) = [(''1273'', [''1''])]"
proof -
  obtain d where d: "buildApplicantDossier ascii_env tiny_catalogue [] sample_input = Inr d"
    using buildApplicantDossier_returns [OF sample_conditions(1,2,3)] by blast
  have "map_option (map (\<lambda>s. (rr_raidId (sr_raid s), map re_bossId (sr_encounters s))))
      (supportedRaidCatalogue ascii_env tiny_catalogue) = Some [(''1273'', [''1''])]"
    by code_simp
  with gaps_cover_catalogue [OF d sample_conditions(4)] d show ?thesis by simp
qed

end
