(* ===== verification/BoundedCache.thy ===== *)
theory BoundedCache
  imports Prelude
begin

section \<open>The bounded cache\<close>

text \<open>
  \<open>packages/application/src/bounded-cache.ts\<close>: a cache of loaded values and remembered
  failures, least recently used evicted first, with one load in flight per key. Calls,
  settling loads and their clean-up interleave; the step relation allows every order.

  An entry's place in the map is its recency. A load in flight is a key of the pending
  map; between the settling of its promise and \<open>finally\<close> the key is still pending and
  marked settled.
\<close>

datatype boundedCacheOutcome = Hit | Miss | Shared | Failure | Capacity

datatype ('v, 'e) cacheContent = Cached_value 'v | Cached_failure 'e

record ('v, 'e) cacheEntry =
  en_content :: "('v, 'e) cacheContent"
  en_expiresAt :: int

record 'e cacheOptions =
  co_ttlMs :: int
  co_maxEntries :: nat
  co_negativeTtlMs :: "int option"
  co_cacheFailure :: "'e \<Rightarrow> bool" \<comment> \<open>constantly false when absent\<close>

record ('v, 'e) cacheState =
  cs_entries :: "(string, ('v, 'e) cacheEntry) jsmap"
  cs_pending :: "(string, bool) jsmap" \<comment> \<open>whether the load has settled\<close>

definition empty_cache :: "('v, 'e) cacheState" where
  "empty_cache = \<lparr>cs_entries = [], cs_pending = []\<rparr>"

definition remember ::
    "'e cacheOptions \<Rightarrow> string \<Rightarrow> ('v, 'e) cacheEntry \<Rightarrow> (string, ('v, 'e) cacheEntry) jsmap \<Rightarrow>
     (string, ('v, 'e) cacheEntry) jsmap" where
  "remember options key entry entries =
     map_set key entry
       (if co_maxEntries options \<le> length entries \<and> entries \<noteq> []
        then AList.delete (fst (hd entries)) entries else entries)"

datatype ('v, 'e) cacheReply =
    Returned 'v
  | Thrown 'e
  | Awaits_active
  | Over_capacity
  | Load_started

definition openRequest :: "'e cacheOptions \<Rightarrow> string \<Rightarrow> ('v, 'e) cacheState \<Rightarrow> ('v, 'e) cacheReply \<times> ('v, 'e) cacheState" where
  \<comment> \<open>no live entry: join the load in flight, refuse, or start one\<close>
  "openRequest options key s =
     (if map_has (cs_pending s) key then (Awaits_active, s)
      else if co_maxEntries options \<le> length (cs_pending s) then (Over_capacity, s)
      else (Load_started, s\<lparr>cs_pending := map_set key False (cs_pending s)\<rparr>))"

definition cacheCall ::
    "'e cacheOptions \<Rightarrow> int \<Rightarrow> string \<Rightarrow> ('v, 'e) cacheState \<Rightarrow> ('v, 'e) cacheReply \<times> ('v, 'e) cacheState" where
  "cacheCall options now key s =
     (case map_get (cs_entries s) key of
        None \<Rightarrow> openRequest options key s
      | Some entry \<Rightarrow>
          (let others = AList.delete key (cs_entries s)
           in if now < en_expiresAt entry
              then ((case en_content entry of Cached_value v \<Rightarrow> Returned v | Cached_failure e \<Rightarrow> Thrown e),
                    s\<lparr>cs_entries := map_set key entry others\<rparr>)
              else openRequest options key (s\<lparr>cs_entries := others\<rparr>)))"

fun outcome_of :: "('v, 'e) cacheReply \<Rightarrow> boundedCacheOutcome" where
  \<comment> \<open>the event emitted by the call; a failing load emits \<^const>\<open>Failure\<close> when it settles\<close>
  "outcome_of (Returned _) = Hit"
| "outcome_of (Thrown _) = Hit"
| "outcome_of Awaits_active = Shared"
| "outcome_of Over_capacity = Capacity"
| "outcome_of Load_started = Miss"

definition loadResolved ::
    "'e cacheOptions \<Rightarrow> int \<Rightarrow> string \<Rightarrow> 'v \<Rightarrow> ('v, 'e) cacheState \<Rightarrow> ('v, 'e) cacheState" where
  "loadResolved options now key v s =
     s\<lparr>cs_entries := remember options key
         \<lparr>en_content = Cached_value v, en_expiresAt = now + co_ttlMs options\<rparr> (cs_entries s),
       cs_pending := map_set key True (cs_pending s)\<rparr>"

definition loadRejected ::
    "'e cacheOptions \<Rightarrow> int \<Rightarrow> string \<Rightarrow> 'e \<Rightarrow> ('v, 'e) cacheState \<Rightarrow> ('v, 'e) cacheState" where
  "loadRejected options now key err s =
     (case co_negativeTtlMs options of
        None \<Rightarrow> s\<lparr>cs_pending := map_set key True (cs_pending s)\<rparr>
      | Some negativeTtlMs \<Rightarrow>
          if co_cacheFailure options err
          then s\<lparr>cs_entries := remember options key
                   \<lparr>en_content = Cached_failure err, en_expiresAt = now + negativeTtlMs\<rparr> (cs_entries s),
                 cs_pending := map_set key True (cs_pending s)\<rparr>
          else s\<lparr>cs_pending := map_set key True (cs_pending s)\<rparr>)"

definition loadFinished :: "string \<Rightarrow> ('v, 'e) cacheState \<Rightarrow> ('v, 'e) cacheState" where
  "loadFinished key s = s\<lparr>cs_pending := AList.delete key (cs_pending s)\<rparr>"

subsection \<open>Runs\<close>

datatype ('v, 'e) cacheEvent =
    Called int string
  | Resolved int string 'v
  | Rejected int string 'e
  | Finished string

inductive cache_run ::
    "'e cacheOptions \<Rightarrow> ('v, 'e) cacheEvent list \<Rightarrow> ('v, 'e) cacheState \<Rightarrow> bool" for options where
  start: "cache_run options [] empty_cache"
| call: "cache_run options es s \<Longrightarrow> cacheCall options now key s = (reply, s') \<Longrightarrow>
         cache_run options (es @ [Called now key]) s'"
| resolve: "cache_run options es s \<Longrightarrow> map_get (cs_pending s) key = Some False \<Longrightarrow>
         cache_run options (es @ [Resolved now key v]) (loadResolved options now key v s)"
| reject: "cache_run options es s \<Longrightarrow> map_get (cs_pending s) key = Some False \<Longrightarrow>
         cache_run options (es @ [Rejected now key e]) (loadRejected options now key e s)"
| finish: "cache_run options es s \<Longrightarrow> map_get (cs_pending s) key = Some True \<Longrightarrow>
         cache_run options (es @ [Finished key]) (loadFinished key s)"

definition entry_backed ::
    "'e cacheOptions \<Rightarrow> ('v, 'e) cacheEvent list \<Rightarrow> string \<Rightarrow> ('v, 'e) cacheEntry \<Rightarrow> bool" where
  \<comment> \<open>the entry was made by a load of its key, and expires as that load says\<close>
  "entry_backed options es key entry =
     (case en_content entry of
        Cached_value v \<Rightarrow> \<exists>t. Resolved t key v \<in> set es \<and> en_expiresAt entry = t + co_ttlMs options
      | Cached_failure e \<Rightarrow> \<exists>t ttl. Rejected t key e \<in> set es \<and> co_negativeTtlMs options = Some ttl \<and>
            co_cacheFailure options e \<and> en_expiresAt entry = t + ttl)"

definition cache_ok :: "'e cacheOptions \<Rightarrow> ('v, 'e) cacheEvent list \<Rightarrow> ('v, 'e) cacheState \<Rightarrow> bool" where
  "cache_ok options es s \<longleftrightarrow>
     distinct (map fst (cs_entries s)) \<and> distinct (map fst (cs_pending s)) \<and>
     length (cs_entries s) \<le> max 1 (co_maxEntries options) \<and>
     length (cs_pending s) \<le> co_maxEntries options \<and>
     (\<forall>(key, entry) \<in> set (cs_entries s). entry_backed options es key entry)"

lemma entry_backed_mono: "entry_backed options es key entry \<Longrightarrow> entry_backed options (es @ fs) key entry"
  by (auto simp: entry_backed_def split: cacheContent.splits)

lemma update_entry: "x \<in> set (AList.update k v m) \<Longrightarrow> x = (k, v) \<or> x \<in> set m"
  by (induction m) (auto split: if_splits)

lemma length_update: "length (AList.update k v m) = (if k \<in> fst ` set m then length m else Suc (length m))"
  by (induction m) auto

lemma delete_subset: "set (AList.delete k m) \<subseteq> set m"
  by (auto simp: AList.delete_eq)

lemma length_delete_key:
  "distinct (map fst m) \<Longrightarrow> k \<in> fst ` set m \<Longrightarrow> Suc (length (AList.delete k m)) = length m"
  by (induction m) (auto simp: AList.delete_eq filter_id_conv image_iff split_beta)

lemma cache_ok_events: "cache_ok options es s \<Longrightarrow> cache_ok options (es @ fs) s"
  unfolding cache_ok_def using entry_backed_mono by blast

lemma remember_ok:
  assumes "distinct (map fst entries)" and "length entries \<le> max 1 n"
    and "n = co_maxEntries options"
  shows "distinct (map fst (remember options key entry entries)) \<and>
         length (remember options key entry entries) \<le> max 1 n \<and>
         set (remember options key entry entries) \<subseteq> insert (key, entry) (set entries)"
proof -
  define kept where "kept = (if n \<le> length entries \<and> entries \<noteq> []
      then AList.delete (fst (hd entries)) entries else entries)"
  have kept: "distinct (map fst kept)" "set kept \<subseteq> set entries"
    using assms(1) delete_subset [of "fst (hd entries)" entries] by (auto simp: kept_def distinct_delete)
  have "Suc (length kept) \<le> max 1 n"
  proof (cases "n \<le> length entries \<and> entries \<noteq> []")
    case True
    then have "fst (hd entries) \<in> fst ` set entries" by simp
    from length_delete_key [OF assms(1) this] True assms(2) show ?thesis by (simp add: kept_def)
  next
    case False
    then show ?thesis by (auto simp: kept_def)
  qed
  then have "length (AList.update key entry kept) \<le> max 1 n" by (simp add: length_update)
  moreover have "remember options key entry entries = AList.update key entry kept"
    by (simp add: remember_def kept_def assms(3))
  ultimately show ?thesis
    using kept update_entry [of _ key entry kept] by (auto simp: distinct_update)
qed

lemma openRequest_ok:
  assumes "cache_ok options es s"
  shows "cache_ok options es (snd (openRequest options key s))"
  using assms by (auto simp: openRequest_def cache_ok_def distinct_update length_update)

lemma cacheCall_ok:
  assumes "cache_ok options es s"
  shows "cache_ok options es (snd (cacheCall options now key s))"
proof (cases "map_of (cs_entries s) key")
  case None
  then show ?thesis by (simp add: cacheCall_def openRequest_ok [OF assms])
next
  case (Some entry)
  let ?others = "AList.delete key (cs_entries s)"
  have member: "(key, entry) \<in> set (cs_entries s)" using Some by (rule map_of_SomeD)
  then have "key \<in> fst ` set (cs_entries s)" by force
  moreover have distinct: "distinct (map fst (cs_entries s))" using assms by (simp add: cache_ok_def)
  ultimately have len: "Suc (length ?others) = length (cs_entries s)" by (intro length_delete_key)
  have others: "cache_ok options es (s\<lparr>cs_entries := ?others\<rparr>)"
    using assms len delete_subset [of key "cs_entries s"] by (auto simp: cache_ok_def distinct_delete)
  have "cache_ok options es (s\<lparr>cs_entries := AList.update key entry ?others\<rparr>)"
    using assms len others member update_entry [of _ key entry ?others]
    by (fastforce simp: cache_ok_def distinct_update length_update)
  with others show ?thesis by (simp add: cacheCall_def Some Let_def openRequest_ok)
qed

lemma settle_pending:
  assumes "cache_ok options es s" and "map_of (cs_pending s) key = Some b"
  shows "distinct (map fst (AList.update key c (cs_pending s))) \<and>
         length (AList.update key c (cs_pending s)) \<le> co_maxEntries options"
proof -
  have "key \<in> fst ` set (cs_pending s)" using map_of_SomeD [OF assms(2)] by force
  with assms(1) show ?thesis by (simp add: cache_ok_def distinct_update length_update)
qed

lemma cache_ok_remembered:
  assumes "cache_ok options es s" and "map_of (cs_pending s) key = Some False"
    and "entry_backed options (es @ [e]) key entry"
  shows "cache_ok options (es @ [e])
           (s\<lparr>cs_entries := remember options key entry (cs_entries s), cs_pending := AList.update key True (cs_pending s)\<rparr>)"
proof -
  have old: "cache_ok options (es @ [e]) s" by (rule cache_ok_events [OF assms(1)])
  then have "distinct (map fst (cs_entries s))" "length (cs_entries s) \<le> max 1 (co_maxEntries options)"
    by (simp_all add: cache_ok_def)
  from remember_ok [OF this refl, of key entry] settle_pending [OF assms(1,2), of True] old assms(3) show ?thesis
    by (auto simp: cache_ok_def)
qed

lemma cache_run_ok: "cache_run options es s \<Longrightarrow> cache_ok options es s"
proof (induction rule: cache_run.induct)
  case start
  then show ?case by (simp add: cache_ok_def empty_cache_def)
next
  case (call es s now key reply s')
  then show ?case using cache_ok_events [OF cacheCall_ok [OF call.IH]] by (metis snd_conv)
next
  case (resolve es s key now v)
  then show ?case unfolding loadResolved_def
    by (intro cache_ok_remembered) (auto simp: entry_backed_def)
next
  case (reject es s key now e)
  have settled: "cache_ok options (es @ [Rejected now key e]) (s\<lparr>cs_pending := AList.update key True (cs_pending s)\<rparr>)"
    using cache_ok_events [OF reject.IH] settle_pending [OF reject.IH reject.hyps(2), of True] by (auto simp: cache_ok_def)
  show ?case
  proof (cases "co_negativeTtlMs options")
    case (Some ttl)
    then have "co_cacheFailure options e \<Longrightarrow> cache_ok options (es @ [Rejected now key e])
        (s\<lparr>cs_entries := remember options key \<lparr>en_content = Cached_failure e, en_expiresAt = now + ttl\<rparr> (cs_entries s),
           cs_pending := AList.update key True (cs_pending s)\<rparr>)"
      using reject by (intro cache_ok_remembered) (auto simp: entry_backed_def)
    with settled Some show ?thesis by (simp add: loadRejected_def)
  qed (simp add: loadRejected_def settled)
next
  case (finish es s key)
  have "cache_ok options (es @ [Finished key]) s" by (rule cache_ok_events [OF finish.IH])
  moreover have "length (AList.delete key (cs_pending s)) \<le> length (cs_pending s)"
    by (simp add: AList.delete_eq)
  ultimately show ?case by (auto simp: loadFinished_def cache_ok_def distinct_delete)
qed

text \<open>
  C23. In every interleaving of calls, settling loads and clean-ups the cache stays within its
  bounds, and a call it answers itself is answered with what a load of that key returned, or
  with a failure such a load threw, less than its time to live ago.
\<close>

theorem cache_bounded_and_fresh:
  assumes "cache_run options es s"
  shows "length (cs_entries s) \<le> max 1 (co_maxEntries options) \<and> length (cs_pending s) \<le> co_maxEntries options \<and>
         (case fst (cacheCall options now key s) of
            Returned v \<Rightarrow> \<exists>t. Resolved t key v \<in> set es \<and> now < t + co_ttlMs options
          | Thrown e \<Rightarrow> \<exists>t ttl. Rejected t key e \<in> set es \<and> co_negativeTtlMs options = Some ttl \<and>
                co_cacheFailure options e \<and> now < t + ttl
          | _ \<Rightarrow> True)"
proof -
  have ok: "cache_ok options es s" by (rule cache_run_ok [OF assms])
  show ?thesis
  proof (cases "map_of (cs_entries s) key")
    case None
    with ok show ?thesis by (simp add: cache_ok_def cacheCall_def openRequest_def)
  next
    case (Some entry)
    then have "entry_backed options es key entry"
      using ok map_of_SomeD [OF Some] by (auto simp: cache_ok_def)
    with ok Some show ?thesis
      by (auto simp: cache_ok_def cacheCall_def openRequest_def entry_backed_def Let_def simp del: map_of_eq_Some_iff
          split: cacheContent.splits)
  qed
qed

definition sample_options :: "string cacheOptions" where
  "sample_options = \<lparr>co_ttlMs = 1000, co_maxEntries = 1, co_negativeTtlMs = None, co_cacheFailure = (\<lambda>_. False)\<rparr>"

definition sample_cache :: "(nat, string) cacheState" where
  "sample_cache =
     \<lparr>cs_entries = [(''k'', \<lparr>en_content = Cached_value 7, en_expiresAt = 1005\<rparr>)], cs_pending = [(''k'', True)]\<rparr>"

lemma sample_cache_run: "cache_run sample_options [Called 0 ''k'', Resolved 5 ''k'' 7] sample_cache"
proof -
  have "cacheCall sample_options 0 ''k'' (empty_cache :: (nat, string) cacheState) =
      (Load_started, \<lparr>cs_entries = [], cs_pending = [(''k'', False)]\<rparr>)"
    by code_simp
  from cache_run.call [OF cache_run.start this]
  have "cache_run sample_options [Called 0 ''k'']
      (\<lparr>cs_entries = [], cs_pending = [(''k'', False)]\<rparr> :: (nat, string) cacheState)"
    by simp
  from cache_run.resolve [OF this, of "''k''" 5 7] show ?thesis
    by (simp add: loadResolved_def remember_def sample_cache_def sample_options_def)
qed

theorem cache_bounded_and_fresh_witness:
  "length (cs_entries sample_cache) \<le> 1 \<and> fst (cacheCall sample_options 900 ''k'' sample_cache) = Returned 7"
proof -
  have "fst (cacheCall sample_options 900 ''k'' sample_cache) = Returned 7" by code_simp
  with cache_bounded_and_fresh [OF sample_cache_run] show ?thesis by (simp add: sample_options_def)
qed

end
