(* ===== verification/PhaseLedger.thy ===== *)
theory PhaseLedger
  imports Prelude
begin

section \<open>The evidence phase ledger\<close>

text \<open>
  \<open>packages/application/src/evidence-phase-ledger.ts\<close>: the progress of one collection run, a
  plan of phases each in one of seven states. A transition computes the rows to persist and,
  once they are persisted, applies them: where the write is rejected the phases stay as they were.
  Only the flag of \<open>seed\<close> is set before its write and stays set when that is rejected. The
  run's handler awaits each call, so transitions do not overlap.
\<close>

datatype evidencePhaseId =
    Warcraft_logs_identity_resolution
  | Warcraft_logs_history
  | Warcraft_logs_tier_bests
  | Warcraft_logs_fight_parses
  | Warcraft_logs_ranking_identities
  | Raiderio_rankings
  | Raiderio_logged_encounters
  | Blizzard_achievements
  | Publication

datatype evidencePhaseState = Pending | Active | Completed | Skipped | Limited | Failed | Cancelled

record evidencePhase =
  ph_id :: evidencePhaseId
  ph_state :: evidencePhaseState
  ph_startedAt :: "int option"
  ph_completedAt :: "int option"
  ph_limitationCode :: "string option"

datatype ledgerError = Evidence_phase_unknown | Evidence_phase_plan_invalid | Evidence_phase_transition_invalid

definition terminalState :: "evidencePhaseState \<Rightarrow> bool" where
  "terminalState s \<longleftrightarrow> s \<in> {Completed, Skipped, Limited, Failed, Cancelled}"

definition isLegalTransition :: "evidencePhaseState \<Rightarrow> evidencePhaseState \<Rightarrow> bool" where
  "isLegalTransition current next_state =
     (if current = next_state then True
      else if current = Pending then next_state = Active \<or> next_state = Skipped
      else if current = Active then terminalState next_state
      else if current = Completed then next_state = Limited
      else if current = Limited then next_state = Active
      else False)"

definition phase :: "evidencePhaseId \<Rightarrow> evidencePhase" where
  "phase i = \<lparr>ph_id = i, ph_state = Pending, ph_startedAt = None, ph_completedAt = None, ph_limitationCode = None\<rparr>"

subsection \<open>Plans\<close>

definition warcraftLogsPhases :: "bool \<Rightarrow> bool \<Rightarrow> bool \<Rightarrow> evidencePhaseId list" where
  "warcraftLogsPhases scan tierBests fightParses =
     [Warcraft_logs_identity_resolution] @
     (if scan then [Warcraft_logs_history] else []) @
     (if tierBests then [Warcraft_logs_tier_bests] else []) @
     (if fightParses then [Warcraft_logs_fight_parses, Warcraft_logs_ranking_identities] else [])"

definition providerPhases :: "bool \<Rightarrow> bool \<Rightarrow> evidencePhaseId list" where
  "providerPhases raiderIo blizzard =
     (if raiderIo then [Raiderio_rankings, Raiderio_logged_encounters] else []) @
     (if blizzard then [Blizzard_achievements] else [])"

definition warcraftLogsPlan :: "bool \<Rightarrow> bool \<Rightarrow> bool \<Rightarrow> evidencePhaseId list" where
  "warcraftLogsPlan scan tierBests fightParses = warcraftLogsPhases scan tierBests fightParses @ [Publication]"

definition providersPlan :: "bool \<Rightarrow> bool \<Rightarrow> evidencePhaseId list" where
  "providersPlan raiderIo blizzard = providerPhases raiderIo blizzard @ [Publication]"

definition collectionPlan :: "bool \<Rightarrow> bool \<Rightarrow> bool \<Rightarrow> bool \<Rightarrow> bool \<Rightarrow> evidencePhaseId list" where
  "collectionPlan scan tierBests fightParses raiderIo blizzard =
     warcraftLogsPhases scan tierBests fightParses @ providerPhases raiderIo blizzard @ [Publication]"

definition fullEvidencePhasePlan :: "evidencePhaseId list" where
  "fullEvidencePhasePlan = collectionPlan True True True True True"

subsection \<open>The ledger\<close>

record ledger =
  lg_plan :: "evidencePhaseId list"
  lg_phases :: "(evidencePhaseId, evidencePhase) jsmap"
  lg_seeded :: bool

fun initialById ::
    "evidencePhaseId list \<Rightarrow> evidencePhase list \<Rightarrow> (evidencePhaseId, evidencePhase) jsmap \<Rightarrow>
     ledgerError + (evidencePhaseId, evidencePhase) jsmap" where
  "initialById plan [] m = Inr m"
| "initialById plan (initial # rest) m =
     (if ph_id initial \<notin> set plan then Inl Evidence_phase_unknown
      else if map_has m (ph_id initial) then Inl Evidence_phase_plan_invalid
      else initialById plan rest (map_set (ph_id initial)
             (if ph_limitationCode initial = Some [] then initial\<lparr>ph_limitationCode := None\<rparr> else initial) m))"

definition ledger_of ::
    "evidencePhaseId list \<Rightarrow> (evidencePhaseId, evidencePhase) jsmap \<Rightarrow> bool \<Rightarrow> ledger" where
  "ledger_of plan m seeded =
     \<lparr>lg_plan = plan,
      lg_phases = map_from (map (\<lambda>i. (i, case map_get m i of Some p \<Rightarrow> p | None \<Rightarrow> phase i)) plan),
      lg_seeded = seeded\<rparr>"

definition createEvidencePhaseLedger ::
    "evidencePhaseId list \<Rightarrow> evidencePhase list option \<Rightarrow> ledgerError + ledger" where
  "createEvidencePhaseLedger plan initialPhases =
     (case initialPhases of
        None \<Rightarrow> Inr (ledger_of plan [] False)
      | Some initial \<Rightarrow>
          (case initialById plan initial [] of
             Inl e \<Rightarrow> Inl e
           | Inr m \<Rightarrow>
               if list_ex (\<lambda>i. \<not> map_has m i) plan then Inl Evidence_phase_plan_invalid
               else Inr (ledger_of plan m True)))"

definition phaseAt :: "ledger \<Rightarrow> evidencePhaseId \<Rightarrow> evidencePhase" where
  \<comment> \<open>\<open>phases.get(id)!\<close>, asked only of planned ids\<close>
  "phaseAt l i = (case map_get (lg_phases l) i of Some p \<Rightarrow> p | None \<Rightarrow> phase i)"

definition stateAt :: "ledger \<Rightarrow> evidencePhaseId \<Rightarrow> evidencePhaseState" where
  "stateAt l i = ph_state (phaseAt l i)"

definition ordered :: "ledger \<Rightarrow> evidencePhaseId list \<Rightarrow> evidencePhase list" where
  "ordered l ids = map (phaseAt l) ids"

fun previousPhasesAreTerminal :: "ledger \<Rightarrow> evidencePhaseId \<Rightarrow> evidencePhaseId list \<Rightarrow> bool" where
  "previousPhasesAreTerminal l i [] = False"
| "previousPhasesAreTerminal l i (p # ps) =
     (if p = i then True
      else if \<not> terminalState (stateAt l p) then False
      else previousPhasesAreTerminal l i ps)"

text \<open>A transition reads the clock once per phase it skips and once more; \<open>clock k\<close> is the
  \<open>k\<close>-th reading.\<close>

fun precedingSkips ::
    "ledger \<Rightarrow> (nat \<Rightarrow> int) \<Rightarrow> nat \<Rightarrow> evidencePhaseId \<Rightarrow> evidencePhaseId list \<Rightarrow> evidencePhase list option" where
  \<comment> \<open>\<^term>\<open>None\<close>: an earlier phase is still active\<close>
  "precedingSkips l clock k i [] = Some []"
| "precedingSkips l clock k i (p # ps) =
     (if p = i then Some []
      else if stateAt l p = Pending
        then map_option (\<lambda>skips. (phaseAt l p)\<lparr>ph_state := Skipped, ph_completedAt := Some (clock k)\<rparr> # skips)
               (precedingSkips l clock (Suc k) i ps)
      else if \<not> terminalState (stateAt l p) then None
      else precedingSkips l clock k i ps)"

definition nextPhase ::
    "evidencePhase \<Rightarrow> evidencePhaseId \<Rightarrow> evidencePhaseState \<Rightarrow> string option \<Rightarrow> int \<Rightarrow> evidencePhase" where
  "nextPhase current i state limitationCode at_ms =
     \<lparr>ph_id = i, ph_state = state,
      ph_startedAt =
        (case ph_startedAt current of
           Some t \<Rightarrow> Some t | None \<Rightarrow> if state = Active then Some at_ms else None),
      ph_completedAt = (if terminalState state then Some at_ms else None),
      ph_limitationCode = (if limitationCode = Some [] then None else limitationCode)\<rparr>"

definition apply_rows :: "evidencePhase list \<Rightarrow> ledger \<Rightarrow> ledger" where
  "apply_rows rows l = l\<lparr>lg_phases := foldl (\<lambda>m p. map_set (ph_id p) p m) (lg_phases l) rows\<rparr>"

definition transition ::
    "(nat \<Rightarrow> int) \<Rightarrow> evidencePhaseId \<Rightarrow> evidencePhaseState \<Rightarrow> string option \<Rightarrow> ledger \<Rightarrow>
     ledgerError + evidencePhase list" where
  \<comment> \<open>the rows to persist and then apply; none when nothing changes\<close>
  "transition clock i state limitationCode l =
     (if \<not> map_has (lg_phases l) i then Inl Evidence_phase_unknown
      else if stateAt l i = Completed \<and> state = Active then Inr []
      else
        (case (if state = Active then precedingSkips l clock 0 i (lg_plan l) else Some []) of
           None \<Rightarrow> Inl Evidence_phase_transition_invalid
         | Some preceding \<Rightarrow>
             if state \<noteq> Skipped \<and> state \<noteq> Active \<and> \<not> previousPhasesAreTerminal l i (lg_plan l)
             then Inl Evidence_phase_transition_invalid
             else if \<not> isLegalTransition (stateAt l i) state then Inl Evidence_phase_transition_invalid
             else if stateAt l i = state \<and> ph_limitationCode (phaseAt l i) = limitationCode then Inr []
             else Inr (preceding @ [nextPhase (phaseAt l i) i state limitationCode (clock (length preceding))])))"

definition seed :: "ledger \<Rightarrow> evidencePhase list \<times> ledger" where
  "seed l = (if lg_seeded l then ([], l) else (ordered l (lg_plan l), l\<lparr>lg_seeded := True\<rparr>))"

definition activePhase :: "ledger \<Rightarrow> evidencePhaseId option" where
  "activePhase l = find (\<lambda>i. stateAt l i = Active) (lg_plan l)"

definition step_to ::
    "(nat \<Rightarrow> int) \<Rightarrow> evidencePhaseId \<Rightarrow> evidencePhaseState \<Rightarrow> string option \<Rightarrow> ledger \<Rightarrow> ledgerError + ledger" where
  \<comment> \<open>a transition whose rows are persisted\<close>
  "step_to clock i state limitationCode l =
     (case transition clock i state limitationCode l of Inl e \<Rightarrow> Inl e | Inr rows \<Rightarrow> Inr (apply_rows rows l))"

definition cancelActive :: "(nat \<Rightarrow> int) \<Rightarrow> ledger \<Rightarrow> ledgerError + ledger" where
  "cancelActive clock l =
     (case activePhase l of None \<Rightarrow> Inr l | Some i \<Rightarrow> step_to clock i Cancelled None l)"

definition failActive :: "(nat \<Rightarrow> int) \<Rightarrow> string option \<Rightarrow> ledger \<Rightarrow> ledgerError + ledger" where
  "failActive clock limitationCode l =
     (case activePhase l of None \<Rightarrow> Inr l | Some i \<Rightarrow> step_to clock i Failed limitationCode l)"

fun skipPendingIn ::
    "(nat \<Rightarrow> nat \<Rightarrow> int) \<Rightarrow> nat \<Rightarrow> evidencePhaseId option \<Rightarrow> evidencePhaseId list \<Rightarrow> ledger \<Rightarrow> ledgerError + ledger" where
  \<comment> \<open>the loop of both skips; \<open>until\<close> is absent in \<open>skipPending\<close>\<close>
  "skipPendingIn clock k until [] l = Inr l"
| "skipPendingIn clock k until (i # is) l =
     (if until = Some i then Inr l
      else if i \<noteq> Publication \<and> stateAt l i = Pending
        then (case step_to (clock k) i Skipped None l of
                Inl e \<Rightarrow> Inl e | Inr l' \<Rightarrow> skipPendingIn clock (Suc k) until is l')
      else skipPendingIn clock k until is l)"

definition skipPending :: "(nat \<Rightarrow> nat \<Rightarrow> int) \<Rightarrow> ledger \<Rightarrow> ledgerError + ledger" where
  "skipPending clock l = skipPendingIn clock 0 None (lg_plan l) l"

definition skipPendingBefore :: "(nat \<Rightarrow> nat \<Rightarrow> int) \<Rightarrow> evidencePhaseId \<Rightarrow> ledger \<Rightarrow> ledgerError + ledger" where
  "skipPendingBefore clock until l = skipPendingIn clock 0 (Some until) (lg_plan l) l"

subsection \<open>Steps\<close>

inductive ledger_step :: "ledger \<Rightarrow> ledger \<Rightarrow> bool" where
  seeded: "ledger_step l (snd (seed l))"
| moved: "state \<noteq> Pending \<Longrightarrow> transition clock i state limitationCode l = Inr rows \<Longrightarrow>
          ledger_step l (apply_rows rows l)"

inductive_cases ledger_stepE: "ledger_step l l'"

abbreviation before :: "ledger \<Rightarrow> evidencePhaseId \<Rightarrow> evidencePhaseId list" where
  "before l i \<equiv> takeWhile (\<lambda>p. p \<noteq> i) (lg_plan l)"

definition ledger_ok :: "ledger \<Rightarrow> bool" where
  \<comment> \<open>no phase has been entered while an earlier one is pending, every settled phase has
      its completion time, and no limitation code is empty\<close>
  "ledger_ok l \<longleftrightarrow>
     map fst (lg_phases l) = lg_plan l \<and> distinct (lg_plan l) \<and>
     (\<forall>i \<in> set (lg_plan l). ph_id (phaseAt l i) = i \<and>
        ph_limitationCode (phaseAt l i) \<noteq> Some [] \<and>
        (terminalState (stateAt l i) \<longrightarrow> ph_completedAt (phaseAt l i) \<noteq> None) \<and>
        (stateAt l i \<notin> {Pending, Skipped} \<longrightarrow> (\<forall>x \<in> set (before l i). stateAt l x \<noteq> Pending)))"

lemma find_append: "find P (xs @ ys) = (case find P xs of None \<Rightarrow> find P ys | Some x \<Rightarrow> Some x)"
  by (induction xs) auto

lemma apply_rows_phaseAt:
  assumes "distinct (map ph_id rows)"
  shows "phaseAt (apply_rows rows l) x =
           (case find (\<lambda>p. ph_id p = x) rows of None \<Rightarrow> phaseAt l x | Some p \<Rightarrow> p)"
  using assms
proof (induction rows arbitrary: l)
  case Nil
  then show ?case by (simp add: apply_rows_def)
next
  case (Cons p rows)
  let ?l = "apply_rows [p] l"
  have "apply_rows (p # rows) l = apply_rows rows ?l" by (simp add: apply_rows_def)
  moreover have "phaseAt ?l y = (if y = ph_id p then p else phaseAt l y)" for y
    by (simp add: phaseAt_def apply_rows_def update_conv')
  moreover have "find (\<lambda>q. ph_id q = ph_id p) rows = None"
    using Cons.prems by (auto simp: find_None_iff image_iff)
  ultimately show ?case using Cons by (auto split: option.split)
qed

lemma apply_rows_keys:
  "set (map ph_id rows) \<subseteq> set (map fst (lg_phases l)) \<Longrightarrow> map fst (lg_phases (apply_rows rows l)) = map fst (lg_phases l)"
proof (induction rows arbitrary: l)
  case (Cons p rows)
  have upd: "map fst (AList.update k v m) = map fst m" if "k \<in> set (map fst m)"
    for k v and m :: "(evidencePhaseId, evidencePhase) jsmap"
    using that by (induction m) auto
  have keys: "map fst (lg_phases (apply_rows [p] l)) = map fst (lg_phases l)"
    using Cons.prems by (simp add: apply_rows_def upd)
  have "apply_rows (p # rows) l = apply_rows rows (apply_rows [p] l)" by (simp add: apply_rows_def)
  with Cons.IH [of "apply_rows [p] l"] keys Cons.prems show ?case by simp
qed (simp add: apply_rows_def)

lemma precedingSkips_spec:
  assumes "precedingSkips l clock k i ps = Some skips" and "\<forall>p \<in> set ps. ph_id (phaseAt l p) = p"
  shows "map ph_id skips = filter (\<lambda>p. stateAt l p = Pending) (takeWhile (\<lambda>p. p \<noteq> i) ps) \<and>
         (\<forall>p \<in> set skips. ph_state p = Skipped \<and> ph_completedAt p \<noteq> None \<and>
            ph_limitationCode p = ph_limitationCode (phaseAt l (ph_id p))) \<and>
         (\<forall>p \<in> set (takeWhile (\<lambda>p. p \<noteq> i) ps). stateAt l p \<noteq> Active)"
  using assms
  by (induction l clock k i ps arbitrary: skips rule: precedingSkips.induct) (auto simp: terminalState_def split: if_splits)

lemma previous_terminal:
  "previousPhasesAreTerminal l i ps \<Longrightarrow> \<forall>p \<in> set (takeWhile (\<lambda>p. p \<noteq> i) ps). terminalState (stateAt l p)"
  by (induction l i ps rule: previousPhasesAreTerminal.induct) (auto split: if_splits)

lemma transition_cases:
  assumes "ledger_ok l" and "transition clock i state code l = Inr rows" and "rows \<noteq> []"
  obtains skips where "rows = skips @ [nextPhase (phaseAt l i) i state code (clock (length skips))]"
    "map ph_id skips = (if state = Active then filter (\<lambda>p. stateAt l p = Pending) (before l i) else [])"
    "\<forall>p \<in> set skips. ph_state p = Skipped \<and> ph_completedAt p \<noteq> None \<and> ph_limitationCode p = ph_limitationCode (phaseAt l (ph_id p))"
    "i \<in> set (lg_plan l)" "isLegalTransition (stateAt l i) state"
    "state = Active \<Longrightarrow> \<forall>p \<in> set (before l i). stateAt l p \<noteq> Active"
    "state \<noteq> Skipped \<Longrightarrow> state \<noteq> Active \<Longrightarrow> \<forall>p \<in> set (before l i). terminalState (stateAt l p)"
proof -
  have planned: "i \<in> set (lg_plan l)" and ids: "\<forall>p \<in> set (lg_plan l). ph_id (phaseAt l p) = p"
    using assms by (auto simp: ledger_ok_def transition_def split: if_splits)
  obtain skips where skips: "(if state = Active then precedingSkips l clock 0 i (lg_plan l) else Some []) = Some skips"
    "rows = skips @ [nextPhase (phaseAt l i) i state code (clock (length skips))]"
    "isLegalTransition (stateAt l i) state"
    "state \<noteq> Skipped \<Longrightarrow> state \<noteq> Active \<Longrightarrow> previousPhasesAreTerminal l i (lg_plan l)"
    using assms(2,3) unfolding transition_def by (auto split: if_splits option.splits)
  have "map ph_id skips = (if state = Active then filter (\<lambda>p. stateAt l p = Pending) (before l i) else []) \<and>
      (\<forall>p \<in> set skips. ph_state p = Skipped \<and> ph_completedAt p \<noteq> None \<and> ph_limitationCode p = ph_limitationCode (phaseAt l (ph_id p))) \<and>
      (state = Active \<longrightarrow> (\<forall>p \<in> set (before l i). stateAt l p \<noteq> Active))"
    using skips(1) precedingSkips_spec [OF _ ids, of clock 0 i skips] by (cases "state = Active") simp_all
  then show thesis
    using that [OF skips(2) _ _ planned skips(3)] previous_terminal [OF skips(4)] by blast
qed

lemma transition_effect:
  assumes "ledger_ok l" and "transition clock i state code l = Inr rows" and "rows \<noteq> []"
  shows "map fst (lg_phases (apply_rows rows l)) = lg_plan l"
    and "stateAt (apply_rows rows l) x =
           (if x = i then state
            else if state = Active \<and> x \<in> set (before l i) \<and> stateAt l x = Pending then Skipped else stateAt l x)"
    and "x \<in> set (lg_plan l) \<Longrightarrow> ph_id (phaseAt (apply_rows rows l) x) = x"
    and "x \<in> set (lg_plan l) \<Longrightarrow> terminalState (stateAt (apply_rows rows l) x) \<Longrightarrow>
           ph_completedAt (phaseAt (apply_rows rows l) x) \<noteq> None"
    and "x \<in> set (lg_plan l) \<Longrightarrow> ph_limitationCode (phaseAt (apply_rows rows l) x) \<noteq> Some []"
proof -
  from transition_cases [OF assms] obtain skips
    where rows: "rows = skips @ [nextPhase (phaseAt l i) i state code (clock (length skips))]"
      and ids: "map ph_id skips = (if state = Active then filter (\<lambda>p. stateAt l p = Pending) (before l i) else [])"
      and skipped: "\<forall>p \<in> set skips. ph_state p = Skipped \<and> ph_completedAt p \<noteq> None \<and>
        ph_limitationCode p = ph_limitationCode (phaseAt l (ph_id p))"
      and planned: "i \<in> set (lg_plan l)"
    by metis
  let ?next = "nextPhase (phaseAt l i) i state code (clock (length skips))"
  have next_id: "ph_id ?next = i" "ph_state ?next = state" "terminalState state \<Longrightarrow> ph_completedAt ?next \<noteq> None"
    "ph_limitationCode ?next \<noteq> Some []"
    by (simp_all add: nextPhase_def)
  have "i \<notin> set (before l i)" by (metis set_takeWhileD)
  then have fresh: "i \<notin> set (map ph_id skips)" using ids by auto
  have "distinct (map ph_id skips)"
    using ids assms(1) by (auto simp: ledger_ok_def)
  with fresh have distinct: "distinct (map ph_id rows)" by (auto simp: rows next_id)
  have rows_planned: "set (map ph_id rows) \<subseteq> set (map fst (lg_phases l))"
    using ids planned assms(1) set_takeWhileD [of _ "\<lambda>p. p \<noteq> i" "lg_plan l"]
    by (auto simp: rows next_id ledger_ok_def split: if_splits)
  have "map fst (lg_phases l) = lg_plan l" using assms(1) by (simp add: ledger_ok_def)
  with apply_rows_keys [OF rows_planned] show "map fst (lg_phases (apply_rows rows l)) = lg_plan l" by simp
  have at_i: "phaseAt (apply_rows rows l) i = ?next"
  proof -
    have "find (\<lambda>p. ph_id p = i) skips = None" using fresh by (auto simp: find_None_iff)
    then have "find (\<lambda>p. ph_id p = i) rows = Some ?next" by (simp add: rows find_append next_id)
    then show ?thesis by (simp add: apply_rows_phaseAt [OF distinct])
  qed
  have other: "phaseAt (apply_rows rows l) x = (case find (\<lambda>p. ph_id p = x) skips of None \<Rightarrow> phaseAt l x | Some p \<Rightarrow> p)"
    if "x \<noteq> i" for x
  proof -
    have "find (\<lambda>p. ph_id p = x) rows = find (\<lambda>p. ph_id p = x) skips"
      using that by (simp add: rows find_append next_id split: option.split)
    then show ?thesis by (simp add: apply_rows_phaseAt [OF distinct])
  qed
  show "stateAt (apply_rows rows l) x = (if x = i then state
      else if state = Active \<and> x \<in> set (before l i) \<and> stateAt l x = Pending then Skipped else stateAt l x)"
  proof (cases "x = i")
    case False
    have "find (\<lambda>p. ph_id p = x) skips = None \<longleftrightarrow> x \<notin> set (map ph_id skips)"
      by (auto simp: find_None_iff)
    moreover have "find (\<lambda>p. ph_id p = x) skips = Some p \<Longrightarrow> p \<in> set skips" for p
      by (auto simp: find_Some_iff)
    ultimately show ?thesis
      using False skipped ids by (cases "find (\<lambda>p. ph_id p = x) skips") (auto simp: stateAt_def other)
  qed (simp add: stateAt_def at_i next_id)
  show "ph_id (phaseAt (apply_rows rows l) x) = x" if "x \<in> set (lg_plan l)"
    using that assms(1) at_i other next_id
    by (cases "x = i") (auto simp: ledger_ok_def find_Some_iff split: option.split)
  show "ph_completedAt (phaseAt (apply_rows rows l) x) \<noteq> None"
    if "x \<in> set (lg_plan l)" "terminalState (stateAt (apply_rows rows l) x)"
  proof (cases "x = i")
    case True
    with that(2) show ?thesis by (simp add: stateAt_def at_i next_id)
  next
    case False
    show ?thesis
    proof (cases "find (\<lambda>p. ph_id p = x) skips")
      case None
      with False that assms(1) show ?thesis by (simp add: ledger_ok_def stateAt_def other)
    next
      case (Some p)
      then have "p \<in> set skips" by (auto simp: find_Some_iff)
      with Some False skipped show ?thesis by (simp add: other)
    qed
  qed
  show "ph_limitationCode (phaseAt (apply_rows rows l) x) \<noteq> Some []" if x: "x \<in> set (lg_plan l)"
  proof (cases "x = i")
    case True
    then show ?thesis using next_id(4) by (simp add: at_i)
  next
    case False
    have kept: "ph_limitationCode (phaseAt l x) \<noteq> Some []" using x assms(1) by (simp add: ledger_ok_def)
    show ?thesis
    proof (cases "find (\<lambda>p. ph_id p = x) skips")
      case None
      then show ?thesis using kept other [OF False] by simp
    next
      case (Some p)
      then have p: "p \<in> set skips" "ph_id p = x" by (auto simp: find_Some_iff)
      then have "ph_limitationCode p = ph_limitationCode (phaseAt l x)" using skipped by blast
      then show ?thesis using kept Some other [OF False] by simp
    qed
  qed
qed

lemma apply_rows_plan [simp]: "lg_plan (apply_rows rows l) = lg_plan l"
  by (simp add: apply_rows_def)

lemma apply_rows_Nil [simp]: "apply_rows [] l = l"
  by (simp add: apply_rows_def)

lemma transition_ok:
  assumes "ledger_ok l" and "transition clock i state code l = Inr rows" and "state \<noteq> Pending"
  shows "ledger_ok (apply_rows rows l)"
proof (cases "rows = []")
  case False
  note effect = transition_effect [OF assms(1,2) False]
  have gap: "stateAt (apply_rows rows l) x \<noteq> Pending"
    if j: "j \<in> set (lg_plan l)" "stateAt (apply_rows rows l) j \<notin> {Pending, Skipped}" "x \<in> set (before l j)" for j x
  proof (cases "j = i")
    case True
    have "stateAt (apply_rows rows l) i = state" using effect(2) [of i] by simp
    with j(2) True have "state \<noteq> Skipped" by simp
    from transition_cases [OF assms(1,2) False] this
    have "state \<noteq> Active \<Longrightarrow> \<forall>p \<in> set (before l i). terminalState (stateAt l p)" by metis
    then have "state \<noteq> Active \<Longrightarrow> stateAt l x \<noteq> Pending"
      using j(3) True by (fastforce simp: terminalState_def)
    then show ?thesis
      using j(3) True assms(3) by (auto simp: effect(2))
  next
    case False
    then have "stateAt l j \<notin> {Pending, Skipped}" using j(2) by (auto simp: effect(2) split: if_splits)
    then have "stateAt l x \<noteq> Pending" using assms(1) j(1,3) by (auto simp: ledger_ok_def)
    with assms(3) show ?thesis by (simp add: effect(2))
  qed
  show ?thesis
    unfolding ledger_ok_def apply_rows_plan
    using effect(1,3,4,5) gap assms(1) by (simp add: ledger_ok_def)
qed (simp add: assms(1))

text \<open>
  The moves of one phase, and the order between phases: one that is entered or settled has every
  earlier phase settled.
\<close>

definition legal_move :: "evidencePhaseState \<Rightarrow> evidencePhaseState \<Rightarrow> bool" where
  "legal_move s s' \<longleftrightarrow> (s, s') \<in>
     {(Pending, Active), (Pending, Skipped), (Active, Completed), (Active, Skipped), (Active, Limited), (Active, Failed),
      (Active, Cancelled), (Completed, Limited), (Limited, Active)}"

definition orderly :: "ledger \<Rightarrow> ledger \<Rightarrow> bool" where
  "orderly l l' \<longleftrightarrow> (\<forall>i \<in> set (lg_plan l). stateAt l' i \<noteq> stateAt l i \<longrightarrow>
     legal_move (stateAt l i) (stateAt l' i) \<and>
     (stateAt l' i \<noteq> Skipped \<longrightarrow> (\<forall>x \<in> set (before l i). stateAt l' x \<noteq> Pending \<and> stateAt l' x \<noteq> Active)))"

lemma orderly_same: "(\<And>i. stateAt l' i = stateAt l i) \<Longrightarrow> orderly l l'"
  by (simp add: orderly_def)

lemma legal_move_transition: "isLegalTransition s s' \<Longrightarrow> s \<noteq> s' \<Longrightarrow> legal_move s s'"
  by (auto simp: isLegalTransition_def legal_move_def terminalState_def split: if_splits)

lemma transition_orderly:
  assumes "ledger_ok l" and "transition clock i state code l = Inr rows" and "state \<noteq> Pending"
  shows "orderly l (apply_rows rows l)"
proof (cases "rows = []")
  case False
  note effect = transition_effect(2) [OF assms(1,2) False]
  from transition_cases [OF assms(1,2) False] have legal: "isLegalTransition (stateAt l i) state"
    and entered: "state = Active \<Longrightarrow> \<forall>p \<in> set (before l i). stateAt l p \<noteq> Active"
    and settled: "state \<noteq> Skipped \<Longrightarrow> state \<noteq> Active \<Longrightarrow> \<forall>p \<in> set (before l i). terminalState (stateAt l p)"
    by metis+
  have own: "i \<notin> set (before l i)" by (metis set_takeWhileD)
  have earlier: "stateAt (apply_rows rows l) x \<noteq> Pending \<and> stateAt (apply_rows rows l) x \<noteq> Active"
    if x: "x \<in> set (before l i)" and "state \<noteq> Skipped" for x
  proof (cases "state = Active")
    case True
    then show ?thesis using entered x own by (auto simp: effect)
  next
    case False
    then have "terminalState (stateAt l x)" using settled that by blast
    then show ?thesis using False x own by (auto simp: effect terminalState_def)
  qed
  show ?thesis
    unfolding orderly_def
  proof (intro ballI impI)
    fix j assume j: "stateAt (apply_rows rows l) j \<noteq> stateAt l j"
    show "legal_move (stateAt l j) (stateAt (apply_rows rows l) j) \<and>
      (stateAt (apply_rows rows l) j \<noteq> Skipped \<longrightarrow>
         (\<forall>x \<in> set (before l j). stateAt (apply_rows rows l) x \<noteq> Pending \<and> stateAt (apply_rows rows l) x \<noteq> Active))"
    proof (cases "j = i")
      case True
      then have "stateAt (apply_rows rows l) j = state" by (simp add: effect)
      with True j show ?thesis using legal_move_transition [OF legal] earlier by auto
    next
      case False
      then show ?thesis using j by (auto simp: effect legal_move_def split: if_splits)
    qed
  qed
qed (simp add: orderly_same)

definition final_state :: "evidencePhaseState \<Rightarrow> bool" where
  "final_state s \<longleftrightarrow> s \<in> {Skipped, Failed, Cancelled}"

lemma transition_final:
  assumes "ledger_ok l" and "transition clock i state code l = Inr rows" and "final_state (stateAt l x)"
  shows "stateAt (apply_rows rows l) x = stateAt l x"
proof (cases "rows = []")
  case False
  from transition_cases [OF assms(1,2) False] have "isLegalTransition (stateAt l i) state" by metis
  with assms(3) show ?thesis
    by (auto simp: transition_effect(2) [OF assms(1,2) False] isLegalTransition_def final_state_def split: if_splits)
qed simp

lemma seed_simps [simp]:
  "lg_plan (snd (seed l)) = lg_plan l" "lg_phases (snd (seed l)) = lg_phases l"
  "phaseAt (snd (seed l)) = phaseAt l" "stateAt (snd (seed l)) = stateAt l"
  by (simp_all add: seed_def phaseAt_def stateAt_def fun_eq_iff)

lemma ledger_step_ok:
  assumes "ledger_step l l'" and "ledger_ok l"
  shows "ledger_ok l' \<and> lg_plan l' = lg_plan l \<and> (final_state (stateAt l x) \<longrightarrow> stateAt l' x = stateAt l x) \<and> orderly l l'"
  using assms(1)
proof (cases rule: ledger_step.cases)
  case seeded
  then show ?thesis using assms(2) by (simp add: ledger_ok_def orderly_same)
next
  case (moved state clock i code rows)
  then show ?thesis
    using transition_ok [OF assms(2)] transition_final [OF assms(2)] transition_orderly [OF assms(2)] by simp
qed

abbreviation orderly_step :: "ledger \<Rightarrow> ledger \<Rightarrow> bool" where
  "orderly_step l l' \<equiv> ledger_step l l' \<and> orderly l l'"

lemma ledger_steps_ok:
  assumes "ledger_step\<^sup>*\<^sup>* l l'" and "ledger_ok l"
  shows "ledger_ok l' \<and> lg_plan l' = lg_plan l \<and> (final_state (stateAt l x) \<longrightarrow> stateAt l' x = stateAt l x) \<and> orderly_step\<^sup>*\<^sup>* l l'"
  using assms
proof (induction rule: rtranclp_induct)
  case (step y z)
  from ledger_step_ok [OF step.hyps(2), of x] step rtranclp.rtrancl_into_rtrancl [of orderly_step l y z]
  show ?case by auto
qed simp

lemma map_from_once:
  assumes "distinct (map fst kvs)"
  shows "map_from kvs = kvs"
proof -
  have "foldl (\<lambda>m (k, v). map_set k v m) m kvs = m @ kvs" if "distinct (map fst (m @ kvs))" for m
    using that
  proof (induction kvs arbitrary: m)
    case (Cons kv kvs)
    have "AList.update k v m = m @ [(k, v)]" if "k \<notin> fst ` set m" for k :: 'a and v :: 'b and m
      using that by (induction m) auto
    with Cons.prems Cons.IH [of "m @ [kv]"] show ?case by (cases kv) simp
  qed simp
  from this [of "[]"] assms show ?thesis by (simp add: map_from_def)
qed

text \<open>A ledger built from what is known of each planned phase.\<close>

lemma ledger_of_phases:
  assumes "distinct plan"
  shows "map fst (lg_phases (ledger_of plan m seeded)) = plan"
    and "i \<in> set plan \<Longrightarrow> phaseAt (ledger_of plan m seeded) i = (case map_get m i of Some p \<Rightarrow> p | None \<Rightarrow> phase i)"
proof -
  let ?kvs = "map (\<lambda>i. (i, case map_get m i of Some p \<Rightarrow> p | None \<Rightarrow> phase i)) plan"
  have "map_from ?kvs = ?kvs" using assms by (intro map_from_once) (simp add: comp_def)
  then have phases: "lg_phases (ledger_of plan m seeded) = ?kvs" by (simp add: ledger_of_def)
  then show "map fst (lg_phases (ledger_of plan m seeded)) = plan" by (simp add: comp_def)
  show "i \<in> set plan \<Longrightarrow> phaseAt (ledger_of plan m seeded) i = (case map_get m i of Some p \<Rightarrow> p | None \<Rightarrow> phase i)"
    unfolding phaseAt_def phases by (simp add: map_of_map_restrict)
qed

lemma ledger_of_plan [simp]: "lg_plan (ledger_of plan m seeded) = plan"
  by (simp add: ledger_of_def)

lemma fresh_ledger_ok: "distinct plan \<Longrightarrow> ledger_ok (ledger_of plan [] seeded)"
  by (simp add: ledger_ok_def stateAt_def ledger_of_phases phase_def terminalState_def)

subsection \<open>A ledger restored from its rows\<close>

lemma initialById_restores:
  assumes "distinct (map ph_id rows)" and "ph_id ` set rows \<subseteq> set plan" and "ph_id ` set rows \<inter> fst ` set m = {}"
    and "\<forall>p \<in> set rows. ph_limitationCode p \<noteq> Some []"
  shows "\<exists>m'. initialById plan rows m = Inr m' \<and>
    (\<forall>i. map_get m' i = (case find (\<lambda>p. ph_id p = i) rows of Some p \<Rightarrow> Some p | None \<Rightarrow> map_get m i))"
  using assms
proof (induction rows arbitrary: m)
  case (Cons p rows)
  have keys: "fst ` set (map_set (ph_id p) p m) = insert (ph_id p) (fst ` set m)" by (induction m) auto
  have "ph_id p \<notin> fst ` set m" using Cons.prems(3) by auto
  then have new: "\<not> map_has m (ph_id p)" by (auto simp: map_of_eq_None_iff dest: map_of_SomeD intro: rev_image_eqI)
  have "find (\<lambda>q. ph_id q = ph_id p) rows = None" using Cons.prems(1) by (auto simp: find_None_iff image_iff)
  moreover obtain m' where "initialById plan rows (map_set (ph_id p) p m) = Inr m'"
    "\<forall>i. map_get m' i = (case find (\<lambda>p. ph_id p = i) rows of Some p \<Rightarrow> Some p | None \<Rightarrow> map_get (map_set (ph_id p) p m) i)"
    using Cons.IH [of "map_set (ph_id p) p m"] Cons.prems keys by auto
  ultimately show ?case using new Cons.prems(2,4) by (auto simp: update_conv' split: option.split)
qed simp

lemma find_unique:
  assumes "p \<in> set xs" and "P p" and "\<And>q. q \<in> set xs \<Longrightarrow> P q \<Longrightarrow> q = p"
  shows "find P xs = Some p"
proof (cases "find P xs")
  case None
  then show ?thesis using assms(1,2) by (simp add: find_None_iff)
next
  case (Some q)
  then have "q \<in> set xs" "P q" by (auto simp: find_Some_iff)
  then show ?thesis using Some assms(3) by simp
qed

lemma restored_ledger:
  assumes "ledger_ok l" and "mset rows = mset (ordered l (lg_plan l))"
  shows "\<exists>l'. createEvidencePhaseLedger (lg_plan l) (Some rows) = Inr l' \<and> ledger_ok l' \<and> lg_plan l' = lg_plan l \<and>
    map (phaseAt l') (lg_plan l) = map (phaseAt l) (lg_plan l)"
proof -
  have ids: "\<forall>i \<in> set (lg_plan l). ph_id (phaseAt l i) = i \<and> ph_limitationCode (phaseAt l i) \<noteq> Some []"
    and plan: "distinct (lg_plan l)" using assms(1) by (auto simp: ledger_ok_def)
  have rows: "set rows = phaseAt l ` set (lg_plan l)" using mset_eq_setD [OF assms(2)] by (simp add: ordered_def)
  have "map ph_id (ordered l (lg_plan l)) = lg_plan l" using ids by (simp add: ordered_def map_idI)
  then have "mset (map ph_id rows) = mset (lg_plan l)" using assms(2) by (metis mset_map)
  then have once: "distinct (map ph_id rows)" using plan by (metis mset_eq_imp_distinct_iff)
  have planned: "ph_id ` phaseAt l ` set (lg_plan l) \<subseteq> set (lg_plan l)" using ids by auto
  have "ph_id ` set rows \<subseteq> set (lg_plan l)" "\<forall>p \<in> set rows. ph_limitationCode p \<noteq> Some []"
    using ids planned unfolding rows by auto
  then have "\<exists>m. initialById (lg_plan l) rows [] = Inr m \<and>
      (\<forall>i. map_get m i = (case find (\<lambda>p. ph_id p = i) rows of Some p \<Rightarrow> Some p | None \<Rightarrow> map_get [] i))"
    by (intro initialById_restores [OF once]) simp_all
  then obtain m where m: "initialById (lg_plan l) rows [] = Inr m"
    "\<And>i. map_get m i = (case find (\<lambda>p. ph_id p = i) rows of Some p \<Rightarrow> Some p | None \<Rightarrow> map_get [] i)" by blast
  have found: "map_get m i = Some (phaseAt l i)" if "i \<in> set (lg_plan l)" for i
  proof -
    have "find (\<lambda>p. ph_id p = i) rows = Some (phaseAt l i)"
      using ids that rows by (intro find_unique) auto
    then show ?thesis by (simp add: m(2))
  qed
  let ?l = "ledger_of (lg_plan l) m True"
  have phases: "phaseAt ?l i = phaseAt l i" if "i \<in> set (lg_plan l)" for i
    using ledger_of_phases(2) [OF plan that, of m True] found [OF that] by simp
  then have states: "stateAt ?l i = stateAt l i" if "i \<in> set (lg_plan l)" for i using that by (simp add: stateAt_def)
  have "x \<in> set (lg_plan l)" if "x \<in> set (before l i)" for x i using that by (metis set_takeWhileD)
  then have "ledger_ok ?l"
    using assms(1) phases states ledger_of_phases(1) [OF plan] unfolding ledger_ok_def by simp
  moreover have "map_has m i" if "i \<in> set (lg_plan l)" for i
    using found [OF that] by (auto dest: map_of_SomeD intro: rev_image_eqI)
  then have "createEvidencePhaseLedger (lg_plan l) (Some rows) = Inr ?l"
    using m(1) by (auto simp: createEvidencePhaseLedger_def list_ex_iff)
  ultimately show ?thesis using phases by (intro exI [of _ ?l]) simp
qed

text \<open>
  The ledgers of a run: a fresh one, what an operation makes of one, and one built again by a later attempt from
  the rows of an earlier one, in any order.
\<close>

inductive ledger_reached :: "evidencePhaseId list \<Rightarrow> ledger \<Rightarrow> bool"
  for plan where
  started: "createEvidencePhaseLedger plan None = Inr l \<Longrightarrow> ledger_reached plan l"
| stepped: "ledger_reached plan l \<Longrightarrow> ledger_step l l' \<Longrightarrow> ledger_reached plan l'"
| resumed: "ledger_reached plan l \<Longrightarrow> mset rows = mset (ordered l plan) \<Longrightarrow>
    createEvidencePhaseLedger plan (Some rows) = Inr l' \<Longrightarrow> ledger_reached plan l'"

lemma ledger_reached_ok: "ledger_reached plan l \<Longrightarrow> distinct plan \<Longrightarrow> ledger_ok l \<and> lg_plan l = plan"
proof (induction rule: ledger_reached.induct)
  case (started l)
  then show ?case using fresh_ledger_ok by (auto simp: createEvidencePhaseLedger_def)
next
  case (stepped l l')
  then show ?case using ledger_step_ok by auto
next
  case (resumed l rows l')
  then show ?case using restored_ledger [of l rows] by auto
qed

lemma ledger_reached_steps: "ledger_step\<^sup>*\<^sup>* l l' \<Longrightarrow> ledger_reached plan l \<Longrightarrow> ledger_reached plan l'"
  by (induction rule: rtranclp_induct) (auto intro: ledger_reached.stepped)

subsection \<open>The operations are steps\<close>

lemma step_to_steps: "state \<noteq> Pending \<Longrightarrow> step_to clock i state code l = Inr l' \<Longrightarrow> ledger_step\<^sup>*\<^sup>* l l'"
  by (auto simp: step_to_def split: sum.splits intro: ledger_step.moved)

lemma skipPendingIn_steps: "skipPendingIn clock k until is l = Inr l' \<Longrightarrow> ledger_step\<^sup>*\<^sup>* l l'"
proof (induction clock k until "is" l rule: skipPendingIn.induct)
  case (2 clock k until i "is" l)
  then show ?case
    by (auto split: if_splits sum.splits dest!: step_to_steps [rotated] intro: rtranclp_trans)
qed simp

text \<open>The operations of the ledger that return.\<close>

inductive ledger_operation :: "ledger \<Rightarrow> ledger \<Rightarrow> bool" where
  op_seed: "ledger_operation l (snd (seed l))"
| op_transition: "state \<noteq> Pending \<Longrightarrow> step_to clock i state code l = Inr l' \<Longrightarrow> ledger_operation l l'"
| op_cancelActive: "cancelActive clock l = Inr l' \<Longrightarrow> ledger_operation l l'"
| op_failActive: "failActive clock code l = Inr l' \<Longrightarrow> ledger_operation l l'"
| op_skipPending: "skipPending clocks l = Inr l' \<Longrightarrow> ledger_operation l l'"
| op_skipPendingBefore: "skipPendingBefore clocks until l = Inr l' \<Longrightarrow> ledger_operation l l'"

lemma ledger_operation_steps: "ledger_operation l l' \<Longrightarrow> ledger_step\<^sup>*\<^sup>* l l'"
proof (induction rule: ledger_operation.induct)
  case (op_seed l)
  show ?case by (intro r_into_rtranclp ledger_step.seeded)
qed (auto simp: cancelActive_def failActive_def skipPending_def skipPendingBefore_def
    intro: step_to_steps skipPendingIn_steps split: option.splits)

text \<open>
  C24. Every operation of a ledger that a run reaches, also after an attempt that picked up the rows of an
  earlier one, is a sequence of single transitions, and in each of them every phase that changes
  makes a legal move and, unless it is skipped, is entered or settled only with every earlier phase
  settled. In the ledger it leaves no phase has been entered while an earlier one is still pending,
  every settled phase has its completion time, and a phase that was skipped, failed or cancelled
  still is; and its rows, in any order, give the same phases back.
\<close>

theorem ledger_invariant:
  assumes "distinct plan" and "ledger_reached plan l" and "ledger_operation l l'"
  shows "(\<lambda>k k'. ledger_step k k' \<and> orderly k k')\<^sup>*\<^sup>* l l' \<and> ledger_ok l' \<and> lg_plan l' = plan \<and>
    map (stateAt l') (filter (\<lambda>i. final_state (stateAt l i)) plan) = map (stateAt l) (filter (\<lambda>i. final_state (stateAt l i)) plan) \<and>
    (\<forall>rows. mset rows = mset (ordered l' plan) \<longrightarrow>
       (\<exists>l2. createEvidencePhaseLedger plan (Some rows) = Inr l2 \<and> map (phaseAt l2) plan = map (phaseAt l') plan))"
proof -
  have l: "ledger_ok l" "lg_plan l = plan" using ledger_reached_ok [OF assms(2,1)] by auto
  note steps = ledger_steps_ok [OF ledger_operation_steps [OF assms(3)] l(1)]
  then have l': "ledger_ok l'" "lg_plan l' = plan" using l(2) by auto
  have "\<exists>l2. createEvidencePhaseLedger plan (Some rows) = Inr l2 \<and> map (phaseAt l2) plan = map (phaseAt l') plan"
    if "mset rows = mset (ordered l' plan)" for rows
    using restored_ledger [OF l'(1), of rows] that unfolding l'(2) by blast
  with steps l' show ?thesis by auto
qed

definition sample_plan :: "evidencePhaseId list" where
  "sample_plan = [Warcraft_logs_history, Blizzard_achievements, Publication]"

definition sample_row :: "evidencePhaseId \<Rightarrow> evidencePhaseState \<Rightarrow> int option \<Rightarrow> int option \<Rightarrow> evidencePhase" where
  "sample_row i state startedAt completedAt =
     \<lparr>ph_id = i, ph_state = state, ph_startedAt = startedAt, ph_completedAt = completedAt, ph_limitationCode = None\<rparr>"

definition sample_ledger :: "evidencePhase list \<Rightarrow> ledger" where
  \<comment> \<open>the fresh ledger after some rows\<close>
  "sample_ledger rows = apply_rows rows (ledger_of sample_plan [] False)"

definition sample_entered :: "evidencePhase list" where
  "sample_entered =
     [sample_row Warcraft_logs_history Skipped None (Some 0), sample_row Blizzard_achievements Active (Some 1) None]"

lemma sample_reached: "ledger_reached sample_plan (sample_ledger sample_entered)"
proof (rule ledger_reached.stepped)
  show "ledger_reached sample_plan (ledger_of sample_plan [] False)"
    by (rule ledger_reached.started) (simp add: createEvidencePhaseLedger_def)
  have "transition int Blizzard_achievements Active None (ledger_of sample_plan [] False) = Inr sample_entered" by code_simp
  then show "ledger_step (ledger_of sample_plan [] False) (sample_ledger sample_entered)"
    unfolding sample_ledger_def by (intro ledger_step.moved [of Active]) simp
qed

text \<open>The publication cannot be entered before the achievements are settled, and a cancelled run settles them.\<close>

theorem ledger_invariant_witness:
  "transition int Publication Active None (sample_ledger sample_entered) = Inl Evidence_phase_transition_invalid \<and>
   orderly_step\<^sup>*\<^sup>* (sample_ledger sample_entered)
     (apply_rows [sample_row Blizzard_achievements Cancelled (Some 1) (Some 0)] (sample_ledger sample_entered)) \<and>
   (\<exists>l2. createEvidencePhaseLedger sample_plan
        (Some (rev (ordered (apply_rows [sample_row Blizzard_achievements Cancelled (Some 1) (Some 0)] (sample_ledger sample_entered)) sample_plan))) =
        Inr l2 \<and> map (stateAt l2) sample_plan = [Skipped, Cancelled, Pending])"
proof -
  let ?l = "sample_ledger sample_entered"
  let ?l' = "apply_rows [sample_row Blizzard_achievements Cancelled (Some 1) (Some 0)] ?l"
  have distinct: "distinct sample_plan" by (simp add: sample_plan_def)
  have "cancelActive int ?l = Inr ?l'" by code_simp
  then have "ledger_operation ?l ?l'" by (rule op_cancelActive)
  note run = ledger_invariant [OF distinct sample_reached this]
  have "mset (rev (ordered ?l' sample_plan)) = mset (ordered ?l' sample_plan)" by simp
  then obtain l2 where l2: "createEvidencePhaseLedger sample_plan (Some (rev (ordered ?l' sample_plan))) = Inr l2"
    "map (phaseAt l2) sample_plan = map (phaseAt ?l') sample_plan" using run by blast
  have "map (stateAt l2) sample_plan = map (stateAt ?l') sample_plan"
    using arg_cong [OF l2(2), of "map ph_state"] by (simp add: stateAt_def comp_def)
  moreover have "map (stateAt ?l') sample_plan = [Skipped, Cancelled, Pending]" by code_simp
  moreover have "transition int Publication Active None ?l = Inl Evidence_phase_transition_invalid" by code_simp
  ultimately show ?thesis using run l2(1) by simp
qed

end
