(* ===== verification/EvidencePolicy.thy ===== *)
theory EvidencePolicy
  imports RaidCatalogue Doubles
begin

section \<open>Collection policies\<close>

text \<open>
  \<open>packages/application/src\<close>: whether a failed attempt earns another
  (\<open>evidence-retry-policy.ts\<close>), how long a limited run waits (\<open>limitation-retry-policy.ts\<close>),
  a run's points budget (\<open>evidence-run-budget.ts\<close>), which tiers a run may stop re-querying
  and where the scan may stop (\<open>terminal-tiers.ts\<close>), when the newest page is enough
  (\<open>settled-collection.ts\<close>), and search reservations (\<open>rate-limit.ts\<close>). Values read from the
  repositories are arguments.
\<close>

subsection \<open>Retrying a failed attempt\<close>

datatype evidenceFailureClassification =
    Points_budget_refusal | Cancelled_run | Transient | Deterministic | Unclassified

datatype evidenceRetryReason =
    Retryable | Reason_cancelled | Reason_deterministic | Cost_veto | Attempts_exhausted | Unclassified_exhausted

datatype evidenceRetryAction = Retry | Stop

definition TRANSIENT_SQLSTATE_CLASSES :: "string list" where
  "TRANSIENT_SQLSTATE_CLASSES = [''08'', ''53'', ''57'']"

definition DETERMINISTIC_SQLSTATE_CLASS :: string where
  "DETERMINISTIC_SQLSTATE_CLASS = ''23''"

definition TRANSIENT_ERRNO_CODES :: "string list" where
  "TRANSIENT_ERRNO_CODES =
     [''ECONNRESET'', ''ECONNREFUSED'', ''ETIMEDOUT'', ''EPIPE'', ''EHOSTUNREACH'', ''ENETUNREACH'', ''ENOTFOUND'']"

definition DETERMINISTIC_ERROR_NAMES :: "string list" where
  "DETERMINISTIC_ERROR_NAMES = [''RangeError'', ''TypeError'', ''SyntaxError'', ''ReferenceError'']"

definition code_char :: "char \<Rightarrow> bool" where
  "code_char c \<longleftrightarrow> CHR ''a'' \<le> c \<and> c \<le> CHR ''z'' \<or> ascii_digit c"

definition AUTHORED_CODE_PATTERN :: "string \<Rightarrow> bool" where
  \<comment> \<open>\<open>/^[a-z][a-z0-9]*(?:_[a-z0-9]+)+$/\<close>: at least two parts, the first starting with a letter\<close>
  "AUTHORED_CODE_PATTERN s =
     (case split_on (CHR ''_'') s of
        first # second # rest \<Rightarrow>
          list_all (\<lambda>part. part \<noteq> [] \<and> list_all code_char part) (first # second # rest) \<and>
          \<not> ascii_digit (hd first)
      | _ \<Rightarrow> False)"

definition sqlStateCode :: "string \<Rightarrow> bool" where
  \<comment> \<open>\<open>/^\d{2}[0-9A-Z]{3}$/\<close>\<close>
  "sqlStateCode s \<longleftrightarrow>
     length s = 5 \<and> list_all ascii_digit (take 2 s) \<and>
     list_all (\<lambda>c. ascii_digit c \<or> CHR ''A'' \<le> c \<and> c \<le> CHR ''Z'') (drop 2 s)"

record thrownFailure =
  th_code :: "string option" \<comment> \<open>\<open>codeOf(error)\<close>: the \<open>code\<close> property when it is a string\<close>
  th_error :: "(string \<times> string) option" \<comment> \<open>name and message of an \<open>Error\<close>\<close>

definition classifyCode :: "string option \<Rightarrow> evidenceFailureClassification option" where
  "classifyCode code =
     (case code of
        None \<Rightarrow> None
      | Some c \<Rightarrow>
          if c = ''points_budget_low'' then Some Points_budget_refusal
          else if c \<in> set TRANSIENT_ERRNO_CODES then Some Transient
          else if sqlStateCode c then
            (if take 2 c \<in> set TRANSIENT_SQLSTATE_CLASSES then Some Transient
             else if take 2 c = DETERMINISTIC_SQLSTATE_CLASS then Some Deterministic else None)
          else None)"

definition classifyEvidenceFailure :: "bool \<Rightarrow> thrownFailure \<Rightarrow> evidenceFailureClassification" where
  "classifyEvidenceFailure aborted err =
     (if aborted then Cancelled_run
      else
        (case classifyCode (th_code err) of
           Some c \<Rightarrow> c
         | None \<Rightarrow>
             (case th_error err of
                None \<Rightarrow> Unclassified
              | Some (name, message) \<Rightarrow>
                  if name \<in> set DETERMINISTIC_ERROR_NAMES \<or> AUTHORED_CODE_PATTERN message then Deterministic
                  else Unclassified)))"

record evidenceRetryInput =
  ri_classification :: evidenceFailureClassification
  ri_attempt :: int
  ri_maxAttempts :: int
  ri_pointsSpent :: "rat option"
  ri_collectionBegan :: bool
  ri_costCeiling :: rat

definition tooExpensiveToRepeat :: "evidenceRetryInput \<Rightarrow> bool" where
  "tooExpensiveToRepeat input =
     (if ri_costCeiling input \<le> 0 then False
      else (case ri_pointsSpent input of
              None \<Rightarrow> ri_collectionBegan input
            | Some spent \<Rightarrow> ri_costCeiling input < spent))"

definition evidenceRetryDecision :: "evidenceRetryInput \<Rightarrow> evidenceRetryAction \<times> evidenceRetryReason" where
  "evidenceRetryDecision input =
     (if ri_classification input = Points_budget_refusal then (Retry, Retryable)
      else if ri_classification input = Cancelled_run then (Retry, Reason_cancelled)
      else if ri_maxAttempts input \<le> ri_attempt input then (Stop, Attempts_exhausted)
      else if tooExpensiveToRepeat input then (Stop, Cost_veto)
      else if ri_classification input = Deterministic then (Stop, Reason_deterministic)
      else if ri_classification input = Transient then (Retry, Retryable)
      else if ri_attempt input \<le> 1 then (Retry, Retryable)
      else (Stop, Unclassified_exhausted))"

subsection \<open>Waiting after a limitation\<close>

datatype warcraftLogsLimitationCode =
    Unavailable | Parse_unavailable_code | Rate_limited | Parse_rate_limited | Request_cap | Parse_request_cap
  | Not_found | History_limit | Private_logs | Parse_private | Schema_drift | Parse_schema_drift
  | Parse_identity_unmatched | Points_budget_low

record retryOptions =
  ro_transientRetryMs :: int
  ro_capRetryMs :: int

fun retryDelayMsFor :: "retryOptions \<Rightarrow> warcraftLogsLimitationCode \<Rightarrow> int option" where
  "retryDelayMsFor options Unavailable = Some (ro_transientRetryMs options)"
| "retryDelayMsFor options Parse_unavailable_code = Some (ro_transientRetryMs options)"
| "retryDelayMsFor options Rate_limited = Some (ro_transientRetryMs options)"
| "retryDelayMsFor options Parse_rate_limited = Some (ro_transientRetryMs options)"
| "retryDelayMsFor options Request_cap = Some (ro_capRetryMs options)"
| "retryDelayMsFor options Parse_request_cap = Some (ro_capRetryMs options)"
| "retryDelayMsFor options Not_found = None"
| "retryDelayMsFor options History_limit = None"
| "retryDelayMsFor options Private_logs = None"
| "retryDelayMsFor options Parse_private = None"
| "retryDelayMsFor options Schema_drift = None"
| "retryDelayMsFor options Parse_schema_drift = None"
| "retryDelayMsFor options Parse_identity_unmatched = Some (ro_transientRetryMs options)"
| "retryDelayMsFor options Points_budget_low = None"

record runLimitation =
  rl_code :: warcraftLogsLimitationCode
  rl_retryAfterMs :: "int option"

definition limitationDelay :: "retryOptions \<Rightarrow> runLimitation \<Rightarrow> int option" where
  "limitationDelay options limitation = option_else (rl_retryAfterMs limitation) (retryDelayMsFor options (rl_code limitation))"

definition drivingLimitation :: "retryOptions \<Rightarrow> runLimitation list \<Rightarrow> runLimitation option" where
  "drivingLimitation options limitations =
     option_else (find (\<lambda>limitation. limitationDelay options limitation \<noteq> None) limitations)
       (case limitations of [] \<Rightarrow> None | first # _ \<Rightarrow> Some first)"

subsection \<open>The points budget\<close>

definition js_round :: "rat \<Rightarrow> rat" where
  \<comment> \<open>the double nearest an exact result, of either sign\<close>
  "js_round x = (if x < 0 then - roundDouble (- x) else roundDouble x)"

record warcraftLogsRateLimit =
  wl_limitPerHour :: rat
  wl_pointsSpentThisHour :: rat

definition remainingPoints :: "warcraftLogsRateLimit \<Rightarrow> rat" where
  "remainingPoints points = js_round (wl_limitPerHour points - wl_pointsSpentThisHour points)"

definition MAXIMUM_RESERVE_SHARE_OF_ALLOWANCE :: rat where
  "MAXIMUM_RESERVE_SHARE_OF_ALLOWANCE = roundDouble (3 / 10)"

definition effectiveReserve :: "rat \<Rightarrow> rat \<Rightarrow> rat" where
  "effectiveReserve limitPerHour configured =
     min configured (js_round (limitPerHour * MAXIMUM_RESERVE_SHARE_OF_ALLOWANCE))"

definition belowReserve :: "warcraftLogsRateLimit \<Rightarrow> rat \<Rightarrow> bool" where
  "belowReserve points pointsReserve \<longleftrightarrow>
     0 < pointsReserve \<and> remainingPoints points < effectiveReserve (wl_limitPerHour points) pointsReserve"

datatype credentials = Own | Visitor

definition MAXIMUM_SCAN_SHARE_OF_OWN_ALLOWANCE :: rat where
  "MAXIMUM_SCAN_SHARE_OF_OWN_ALLOWANCE = 1 / 2"

definition MAXIMUM_SCAN_SHARE_OF_VISITOR_ALLOWANCE :: rat where
  "MAXIMUM_SCAN_SHARE_OF_VISITOR_ALLOWANCE = roundDouble (15 / 100)"

definition HISTORY_SCAN_POINTS_PER_REQUEST :: rat where "HISTORY_SCAN_POINTS_PER_REQUEST = 30"

definition MEASURED_HISTORY_SCAN_POINTS_PER_REQUEST :: rat where
  "MEASURED_HISTORY_SCAN_POINTS_PER_REQUEST = 20"

definition FIGHT_PARSE_POINTS_PER_REQUEST :: rat where
  "FIGHT_PARSE_POINTS_PER_REQUEST = roundDouble (132 / 10)"

definition FIGHT_PARSE_POINT_BOUND :: rat where "FIGHT_PARSE_POINT_BOUND = 14"

definition effectiveRequestCap :: "rat \<Rightarrow> rat \<Rightarrow> credentials \<Rightarrow> rat" where
  "effectiveRequestCap limitPerHour configured whose =
     (let share = (case whose of Visitor \<Rightarrow> MAXIMUM_SCAN_SHARE_OF_VISITOR_ALLOWANCE
                               | Own \<Rightarrow> MAXIMUM_SCAN_SHARE_OF_OWN_ALLOWANCE)
      in max 1 (min configured
           (of_int \<lfloor>js_round (js_round (limitPerHour * share) / HISTORY_SCAN_POINTS_PER_REQUEST)\<rfloor>)))"

record evidenceRunBudget =
  rb_scanPages :: rat
  rb_reservedPoints :: rat
  rb_parsePoints :: rat
  rb_worstCaseAtMeasuredCost :: rat
  rb_worstCaseAtAssumedCost :: rat
  rb_closes :: bool

record runBudgetInput =
  bi_limitPerHour :: rat
  bi_credentials :: credentials
  bi_requestCap :: rat
  bi_parseRequestCap :: rat
  bi_pointsReserve :: rat
  bi_scanPages :: "rat option"

definition evidenceRunBudget_of :: "runBudgetInput \<Rightarrow> evidenceRunBudget" where
  "evidenceRunBudget_of input =
     (let scanPages = (case bi_scanPages input of
            Some pages \<Rightarrow> pages
          | None \<Rightarrow> effectiveRequestCap (bi_limitPerHour input) (bi_requestCap input) (bi_credentials input));
          reservedPoints = effectiveReserve (bi_limitPerHour input) (bi_pointsReserve input);
          parsePoints = js_round (bi_parseRequestCap input * FIGHT_PARSE_POINTS_PER_REQUEST);
          assumed = js_round (js_round (scanPages * HISTORY_SCAN_POINTS_PER_REQUEST) + parsePoints)
      in \<lparr>rb_scanPages = scanPages, rb_reservedPoints = reservedPoints, rb_parsePoints = parsePoints,
          rb_worstCaseAtMeasuredCost =
            js_round (js_round (scanPages * MEASURED_HISTORY_SCAN_POINTS_PER_REQUEST) + parsePoints),
          rb_worstCaseAtAssumedCost = assumed, rb_closes = (assumed \<le> reservedPoints)\<rparr>)"

definition parseOnlyRequestCap :: "rat \<Rightarrow> rat \<Rightarrow> rat" where
  "parseOnlyRequestCap limitPerHour pointsReserve =
     max 1 (of_int \<lfloor>js_round (effectiveReserve limitPerHour pointsReserve / FIGHT_PARSE_POINT_BOUND)\<rfloor>)"

subsection \<open>Terminal tiers\<close>

datatype evidenceCollectionDomain = Kills | Parses | Tier_bests

record terminalTier =
  tt_raidId :: string
  tt_domain :: evidenceCollectionDomain

record terminalTierKill =
  tk_raidId :: string
  tk_raidName :: string
  tk_killedAt :: string
  tk_bossName :: "string option"
  tk_journalBossId :: "string option"

record terminalTierWipe =
  tw_raidId :: string
  tw_raidName :: string
  tw_attemptedAt :: string

record terminalTierInput =
  ti_at :: int
  ti_settleMs :: int
  ti_kills :: "terminalTierKill list"
  ti_scanSkipped :: bool
  ti_scanLimitation :: "string option"
  ti_troubledParses :: "string list"
  ti_troubledTierBests :: "string list"

record raidReading =
  rd_concluded :: bool
  rd_settled :: bool

definition killSettled :: "js_env \<Rightarrow> terminalTierInput \<Rightarrow> terminalTierKill \<Rightarrow> bool" where
  "killSettled E input kill =
     (case dateParse E (tk_killedAt kill) of
        None \<Rightarrow> False | Some killedAt \<Rightarrow> killedAt < ti_at input - ti_settleMs input)"

definition killConcluded :: "js_env \<Rightarrow> catalogueData \<Rightarrow> terminalTierInput \<Rightarrow> terminalTierKill \<Rightarrow> bool" where
  "killConcluded E K input kill \<longleftrightarrow>
     raidTierConclusionForEvidence E K
       \<lparr>ev_raidName = tk_raidName kill,
        ev_bossName = (case tk_bossName kill of None \<Rightarrow> [] | Some b \<Rightarrow> b),
        ev_journalBossId = tk_journalBossId kill\<rparr> (Some (ti_at input)) = Concluded"

definition readKill ::
    "js_env \<Rightarrow> catalogueData \<Rightarrow> terminalTierInput \<Rightarrow> (string, raidReading) jsmap \<Rightarrow> terminalTierKill \<Rightarrow>
     (string, raidReading) jsmap" where
  "readKill E K input raids kill =
     (if isNonRaidZone E K (tk_raidName kill) then raids
      else map_set (tk_raidId kill)
        (case map_get raids (tk_raidId kill) of
           Some seen \<Rightarrow> \<lparr>rd_concluded = (rd_concluded seen \<and> killConcluded E K input kill),
                        rd_settled = (rd_settled seen \<and> killSettled E input kill)\<rparr>
         | None \<Rightarrow> \<lparr>rd_concluded = killConcluded E K input kill, rd_settled = killSettled E input kill\<rparr>) raids)"

definition raidMarks :: "terminalTierInput \<Rightarrow> string \<times> raidReading \<Rightarrow> terminalTier list" where
  "raidMarks input = (\<lambda>(raidId, raid).
     if \<not> rd_settled raid \<or> \<not> rd_concluded raid then []
     else (if ti_scanSkipped input then [] else [\<lparr>tt_raidId = raidId, tt_domain = Kills\<rparr>]) @
          (if raidId \<in> set (ti_troubledParses input) then [] else [\<lparr>tt_raidId = raidId, tt_domain = Parses\<rparr>]) @
          (if raidId \<in> set (ti_troubledTierBests input) then [] else [\<lparr>tt_raidId = raidId, tt_domain = Tier_bests\<rparr>]))"

definition terminalTiersFrom :: "js_env \<Rightarrow> catalogueData \<Rightarrow> terminalTierInput \<Rightarrow> terminalTier list" where
  "terminalTiersFrom E K input =
     (if ti_scanLimitation input \<noteq> None then []
      else concat (map (raidMarks input)
        (sort_by (\<lambda>a b. localeCompare E (fst a) (fst b)) (foldl (readKill E K input) [] (ti_kills input)))))"

definition terminalRaids :: "evidenceCollectionDomain \<Rightarrow> terminalTier list \<Rightarrow> string list" where
  "terminalRaids domain terminal = map tt_raidId (filter (\<lambda>tier. tt_domain tier = domain) terminal)"

definition heldEvidence ::
    "js_env \<Rightarrow> catalogueData \<Rightarrow> terminalTierKill list \<Rightarrow> terminalTierWipe list \<Rightarrow> (string \<times> string) list" where
  \<comment> \<open>raid id and instant of every stored kill and wipe in a raid zone\<close>
  "heldEvidence E K kills wipes =
     map (\<lambda>(raidId, raidName, at_text). (raidId, at_text))
       (filter (\<lambda>(raidId, raidName, at_text). \<not> isNonRaidZone E K raidName)
          (map (\<lambda>k. (tk_raidId k, tk_raidName k, tk_killedAt k)) kills @
           map (\<lambda>w. (tw_raidId w, tw_raidName w, tw_attemptedAt w)) wipes))"

definition killScanFloorFrom ::
    "js_env \<Rightarrow> catalogueData \<Rightarrow> terminalTier list \<Rightarrow> terminalTierKill list \<Rightarrow> terminalTierWipe list \<Rightarrow> string option" where
  "killScanFloorFrom E K terminal kills wipes =
     (let terminalKillRaids = terminalRaids Kills terminal; held = heldEvidence E K kills wipes
      in if terminalKillRaids = [] \<or> kills = [] then None
         else if held = [] then None
         else
           (case filter (\<lambda>(raidId, at_text). raidId \<notin> set terminalKillRaids) held of
              [] \<Rightarrow> Some (foldl (\<lambda>newest (raidId, at_text). if newest < at_text then at_text else newest) (snd (hd held)) held)
            | first # rest \<Rightarrow>
                Some (foldl (\<lambda>oldest (raidId, at_text). if at_text < oldest then at_text else oldest) (snd first) (first # rest))))"

subsection \<open>Settled collections\<close>

definition RAIDER_IO_RECOVERY_RECHECK_MS :: int where
  "RAIDER_IO_RECOVERY_RECHECK_MS = 7 * 24 * 60 * 60 * 1000"

record settlementKill =
  sk_raidId :: string
  sk_fightUrl :: string
  sk_killedAt :: string

definition killTiersAreSettled ::
    "settlementKill list \<Rightarrow> terminalTier list \<Rightarrow> string list \<Rightarrow> (string, string) jsmap \<Rightarrow> bool" where
  "killTiersAreSettled kills terminal hydratedFightUrls collectedTierZones \<longleftrightarrow>
     list_all (\<lambda>domain. list_all (\<lambda>kill. sk_raidId kill \<in> set (terminalRaids domain terminal)) kills)
       [Kills, Parses, Tier_bests] \<and>
     list_all (\<lambda>kill. sk_fightUrl kill \<in> set hydratedFightUrls) kills \<and>
     list_all (\<lambda>kill. case map_get (map_from collectedTierZones) (sk_raidId kill) of
         None \<Rightarrow> False | Some collectedAt \<Rightarrow> sk_killedAt kill < collectedAt) kills"

record schedulingReads =
  sr_storedRaidIds :: "string list" \<comment> \<open>of the stored kills and wipes\<close>
  sr_lastCleanKillScanAt :: "string option"
  sr_historyScanResumePage :: "nat option"
  sr_aliasResumePages :: "nat option list"
  sr_terminal :: "terminalTier list"
  sr_recoveredAt :: "int option"
  sr_hydratedFightUrls :: "string list"
  sr_collectedTierZones :: "(string, string) jsmap"

record completedRun =
  cr_limitationCode :: "string option"
  cr_parseLimitationCode :: "string option"

definition staleReadNeedsOnlyNewestPage ::
    "js_env \<Rightarrow> catalogueData \<Rightarrow> int \<Rightarrow> completedRun option \<Rightarrow> bool \<Rightarrow> settlementKill list \<Rightarrow> schedulingReads \<Rightarrow> bool" where
  "staleReadNeedsOnlyNewestPage E K at_ms completed completedVersionCurrent kills reads =
     (case completed of
        None \<Rightarrow> False
      | Some run \<Rightarrow>
          completedVersionCurrent \<and> cr_limitationCode run = None \<and> cr_parseLimitationCode run = None \<and>
          (case sr_recoveredAt reads of
             None \<Rightarrow> False | Some recoveredAt \<Rightarrow> at_ms - RAIDER_IO_RECOVERY_RECHECK_MS < recoveredAt) \<and>
          list_all (\<lambda>raidId. raidId \<in> set (terminalRaids Kills (sr_terminal reads))) (sr_storedRaidIds reads) \<and>
          sr_historyScanResumePage reads = None \<and> list_all (\<lambda>page. page = None) (sr_aliasResumePages reads) \<and>
          (case sr_lastCleanKillScanAt reads of
             None \<Rightarrow> False
           | Some scannedAt \<Rightarrow> \<not> raidContentWindowOpenedBetween E K (dateParse E scannedAt) (Some at_ms)) \<and>
          killTiersAreSettled kills (sr_terminal reads) (sr_hydratedFightUrls reads) (sr_collectedTierZones reads))"

subsection \<open>Search reservations\<close>

record rateLimitDecision =
  rd_allowed :: bool
  rd_retryAfterSeconds :: "int option"

definition retryDecision :: "bool \<Rightarrow> int option \<Rightarrow> int \<Rightarrow> rateLimitDecision" where
  \<comment> \<open>\<open>decision\<close>, of a reservation and the instant it was asked for\<close>
  "retryDecision allowed retryAt at_ms =
     \<lparr>rd_allowed = allowed,
      rd_retryAfterSeconds =
        map_option (\<lambda>t. max 1 \<lceil>js_round (of_int (t - at_ms) / 1000)\<rceil>) retryAt\<rparr>"

datatype callerClass = Anonymous | Bot

record callerIdentity =
  ci_callerClass :: callerClass
  ci_bucketHash :: string

record rateLimitConfig =
  BOT_SEARCHES_PER_HOUR :: int
  ANONYMOUS_SEARCHES_PER_HOUR :: int
  PUBLIC_READS_PER_MINUTE :: int
  TIER_SEARCHES_PER_HOUR :: int

record reservationPolicy =
  rp_bucketHash :: string
  rp_limit :: int
  rp_expiresAt :: int
  rp_at :: int

definition searchPolicy :: "rateLimitConfig \<Rightarrow> int \<Rightarrow> callerIdentity \<Rightarrow> reservationPolicy" where
  "searchPolicy config at_ms caller =
     \<lparr>rp_bucketHash = ''search:'' @ ci_bucketHash caller,
      rp_limit = (if ci_callerClass caller = Bot then BOT_SEARCHES_PER_HOUR config
                  else ANONYMOUS_SEARCHES_PER_HOUR config),
      rp_expiresAt = at_ms + 60 * 60 * 1000, rp_at = at_ms\<rparr>"

definition readPolicy :: "rateLimitConfig \<Rightarrow> int \<Rightarrow> callerIdentity \<Rightarrow> reservationPolicy" where
  "readPolicy config at_ms caller =
     \<lparr>rp_bucketHash = ''read:'' @ ci_bucketHash caller, rp_limit = PUBLIC_READS_PER_MINUTE config,
      rp_expiresAt = at_ms + 60 * 1000, rp_at = at_ms\<rparr>"

definition tierSearchPolicy :: "rateLimitConfig \<Rightarrow> int \<Rightarrow> callerIdentity \<Rightarrow> reservationPolicy" where
  "tierSearchPolicy config at_ms caller =
     \<lparr>rp_bucketHash = ''tier-search:'' @ ci_bucketHash caller, rp_limit = TIER_SEARCHES_PER_HOUR config,
      rp_expiresAt = at_ms + 60 * 60 * 1000, rp_at = at_ms\<rparr>"

definition connectionMutationPolicy :: "rateLimitConfig \<Rightarrow> int \<Rightarrow> callerIdentity \<Rightarrow> reservationPolicy" where
  "connectionMutationPolicy config at_ms caller =
     (searchPolicy config at_ms caller)\<lparr>rp_bucketHash := ''connection-mutation:'' @ ci_bucketHash caller\<rparr>"

definition reserveUnder ::
    "(reservationPolicy \<Rightarrow> bool \<times> int option) \<Rightarrow> reservationPolicy \<Rightarrow> rateLimitDecision" where
  \<comment> \<open>the repository's \<open>reserve\<close> is a parameter\<close>
  "reserveUnder reserve policy = (case reserve policy of (allowed, retryAt) \<Rightarrow> retryDecision allowed retryAt (rp_at policy))"

end
