(* ===== verification/EvidencePolicyCorrect.thy ===== *)
theory EvidencePolicyCorrect
  imports EvidencePolicy
begin

section \<open>What the collection policies promise\<close>

text \<open>
  The marks of \<open>terminalTiersFrom\<close> are exactly the tiers the three rules of its comment allow;
  the floor of \<open>killScanFloorFrom\<close> never rises above evidence that only a scan can find again;
  the limitation that drives a run's retry is the first one that earns a retry; a thrown failure
  earns another attempt only within the attempt limit and the cost ceiling.
\<close>

definition raidZoneKills ::
    "js_env \<Rightarrow> catalogueData \<Rightarrow> terminalTierInput \<Rightarrow> string \<Rightarrow> terminalTierKill list" where
  \<comment> \<open>specification: the kills that speak for one raid id\<close>
  "raidZoneKills E K input raidId =
     filter (\<lambda>kill. tk_raidId kill = raidId \<and> \<not> isNonRaidZone E K (tk_raidName kill)) (ti_kills input)"

fun domainAllowed :: "terminalTierInput \<Rightarrow> string \<Rightarrow> evidenceCollectionDomain \<Rightarrow> bool" where
  \<comment> \<open>specification: what each domain asks beyond a concluded, settled raid\<close>
  "domainAllowed input raidId Kills \<longleftrightarrow> \<not> ti_scanSkipped input"
| "domainAllowed input raidId Parses \<longleftrightarrow> raidId \<notin> set (ti_troubledParses input)"
| "domainAllowed input raidId Tier_bests \<longleftrightarrow> raidId \<notin> set (ti_troubledTierBests input)"

subsection \<open>The readings of a run's kills\<close>

lemma distinct_keys_readKills [simp]:
  "distinct (map fst (foldl (readKill E K input) [] kills))"
  by (induction kills rule: rev_induct) (simp_all add: readKill_def distinct_update)

lemma map_of_readKills:
  "map_of (foldl (readKill E K input) [] kills) raidId =
     (let mine = filter (\<lambda>kill. tk_raidId kill = raidId \<and> \<not> isNonRaidZone E K (tk_raidName kill)) kills
      in if mine = [] then None
         else Some \<lparr>rd_concluded = list_all (killConcluded E K input) mine,
                    rd_settled = list_all (killSettled E input) mine\<rparr>)"
proof (induction kills rule: rev_induct)
  case Nil
  show ?case by simp
next
  case (snoc kill kills)
  show ?case
  proof (cases "isNonRaidZone E K (tk_raidName kill) \<or> tk_raidId kill \<noteq> raidId")
    case True
    then show ?thesis using snoc by (auto simp: readKill_def update_conv')
  next
    case False
    then show ?thesis using snoc by (auto simp: readKill_def update_conv' Let_def split: if_splits)
  qed
qed

lemma raidMarks_iff:
  "tier \<in> set (raidMarks input (raidId, raid)) \<longleftrightarrow>
     rd_settled raid \<and> rd_concluded raid \<and> tt_raidId tier = raidId \<and> domainAllowed input raidId (tt_domain tier)"
  by (cases tier; cases "tt_domain tier") (auto simp: raidMarks_def)

lemma terminalTiersFrom_iff:
  "tier \<in> set (terminalTiersFrom E K input) \<longleftrightarrow>
     ti_scanLimitation input = None \<and>
     raidZoneKills E K input (tt_raidId tier) \<noteq> [] \<and>
     list_all (killConcluded E K input) (raidZoneKills E K input (tt_raidId tier)) \<and>
     list_all (killSettled E input) (raidZoneKills E K input (tt_raidId tier)) \<and>
     domainAllowed input (tt_raidId tier) (tt_domain tier)"
proof -
  let ?raids = "foldl (readKill E K input) [] (ti_kills input)"
  have "tier \<in> set (terminalTiersFrom E K input) \<longleftrightarrow>
      ti_scanLimitation input = None \<and> (\<exists>entry \<in> set ?raids. tier \<in> set (raidMarks input entry))"
    by (simp add: terminalTiersFrom_def)
  also have "\<dots> \<longleftrightarrow> ti_scanLimitation input = None \<and>
      (\<exists>raid. map_of ?raids (tt_raidId tier) = Some raid \<and> rd_settled raid \<and> rd_concluded raid \<and>
         domainAllowed input (tt_raidId tier) (tt_domain tier))"
    (is "_ \<longleftrightarrow> _ \<and> ?read")
  proof -
    have "(\<exists>entry \<in> set ?raids. tier \<in> set (raidMarks input entry)) \<longleftrightarrow>
        (\<exists>raid. (tt_raidId tier, raid) \<in> set ?raids \<and> tier \<in> set (raidMarks input (tt_raidId tier, raid)))"
      by (force simp: raidMarks_iff)
    also have "\<dots> \<longleftrightarrow> ?read" by (auto simp: raidMarks_iff)
    finally show ?thesis by simp
  qed
  also have "\<dots> \<longleftrightarrow> ti_scanLimitation input = None \<and>
     raidZoneKills E K input (tt_raidId tier) \<noteq> [] \<and>
     list_all (killConcluded E K input) (raidZoneKills E K input (tt_raidId tier)) \<and>
     list_all (killSettled E input) (raidZoneKills E K input (tt_raidId tier)) \<and>
     domainAllowed input (tt_raidId tier) (tt_domain tier)"
    by (auto simp: map_of_readKills raidZoneKills_def Let_def split: if_splits)
  finally show ?thesis .
qed

text \<open>
  C25. A tier is marked terminal for a domain exactly when the run's scan raised no limitation, the
  run read at least one raid-zone kill under that raid id, every one of them belongs to a concluded
  tier and is older than the settling time (an undatable kill never is), and the domain itself was
  read without trouble: a skipped scan marks nothing for kills, a troubled raid nothing for the
  domain it was troubled in.
\<close>
theorem terminal_marks_exact:
  "tier \<in> set (terminalTiersFrom E K input) \<longleftrightarrow>
     ti_scanLimitation input = None \<and>
     raidZoneKills E K input (tt_raidId tier) \<noteq> [] \<and>
     list_all (killConcluded E K input) (raidZoneKills E K input (tt_raidId tier)) \<and>
     list_all (killSettled E input) (raidZoneKills E K input (tt_raidId tier)) \<and>
     domainAllowed input (tt_raidId tier) (tt_domain tier)"
  by (rule terminalTiersFrom_iff)

subsection \<open>Marks outlive the run\<close>

text \<open>
  A mark is stored and trusted by later runs. What that takes of the catalogue is one law: evidence
  of a concluded tier stays concluded.
\<close>

locale conclusion_contract =
  fixes concluded :: "int \<Rightarrow> 'evidence \<Rightarrow> bool"
  assumes stays_concluded: "concluded t e \<Longrightarrow> t \<le> t' \<Longrightarrow> concluded t' e"
begin

lemma all_stay_concluded: "list_all (concluded t) es \<Longrightarrow> t \<le> t' \<Longrightarrow> list_all (concluded t') es"
  using stays_concluded by (auto simp: list_all_iff)

end

interpretation catalogue: conclusion_contract
  "\<lambda>t evidence. raidTierConclusionForEvidence E K evidence (Some t) = Concluded" for E K
  by unfold_locales
    (auto simp: raidTierConclusionForEvidence_def raidTierConclusionForRaidId_def split: option.splits if_splits)

definition killEvidence :: "terminalTierKill \<Rightarrow> raidEvidenceIdentity" where
  \<comment> \<open>what \<^const>\<open>killConcluded\<close> asks the catalogue about\<close>
  "killEvidence kill =
     \<lparr>ev_raidName = tk_raidName kill, ev_bossName = (case tk_bossName kill of None \<Rightarrow> [] | Some b \<Rightarrow> b),
      ev_journalBossId = tk_journalBossId kill\<rparr>"

lemma killConcluded_list:
  "list_all (killConcluded E K input) kills \<longleftrightarrow>
     list_all (\<lambda>evidence. raidTierConclusionForEvidence E K evidence (Some (ti_at input)) = Concluded)
       (map killEvidence kills)"
  by (simp add: list_all_iff killConcluded_def killEvidence_def)

lemma terminal_mark_stays:
  assumes "tier \<in> set (terminalTiersFrom E K input)" and "ti_at input \<le> later"
  shows "tier \<in> set (terminalTiersFrom E K (input\<lparr>ti_at := later\<rparr>))"
proof -
  let ?later = "input\<lparr>ti_at := later\<rparr>" and ?kills = "raidZoneKills E K input (tt_raidId tier)"
  have same: "raidZoneKills E K ?later (tt_raidId tier) = ?kills"
    "domainAllowed ?later i d = domainAllowed input i d" for i d
    by (simp_all add: raidZoneKills_def) (cases d; simp)
  have "list_all (killConcluded E K ?later) ?kills" if "list_all (killConcluded E K input) ?kills"
    using catalogue.all_stay_concluded [OF that [unfolded killConcluded_list] assms(2)]
    by (simp only: killConcluded_list) simp
  moreover have "list_all (killSettled E ?later) ?kills" if "list_all (killSettled E input) ?kills"
    using that assms(2) by (fastforce simp: list_all_iff killSettled_def split: option.splits)
  ultimately show ?thesis using assms(1) by (simp add: terminalTiersFrom_iff same)
qed

subsection \<open>The scan floor\<close>

lemma foldl_least:
  fixes start :: "'a :: linorder"
  shows "foldl (\<lambda>oldest (k, t). if t < oldest then t else oldest) start xs =
           fold min (map snd xs) start"
  by (induction xs arbitrary: start) (auto simp: min_def)

lemma foldl_greatest:
  fixes start :: "'a :: linorder"
  shows "foldl (\<lambda>newest (k, t). if newest < t then t else newest) start xs =
           fold max (map snd xs) start"
  by (induction xs arbitrary: start) (auto simp: max_def)

lemma list_ex_filter: "list_ex P xs \<longleftrightarrow> filter P xs \<noteq> []"
  by (induction xs) auto

lemma killScanFloorFrom_eq:
  "killScanFloorFrom E K terminal kills wipes =
     (let held = heldEvidence E K kills wipes;
          outstanding = filter (\<lambda>(raidId, t). raidId \<notin> set (terminalRaids Kills terminal)) held
      in if terminalRaids Kills terminal = [] \<or> kills = [] \<or> held = [] then None
         else if outstanding = [] then Some (Max (snd ` set held))
         else Some (Min (snd ` set outstanding)))"
proof -
  have least: "fold min (map snd (p # ps)) (snd p) = Min (snd ` set (p # ps))" for p :: "string \<times> string" and ps
  proof -
    have "fold min (map snd ps) (snd p) = Min (set (snd p # map snd ps))" by (rule Min.set_eq_fold [symmetric])
    then show ?thesis by simp
  qed
  have greatest: "fold max (map snd ps) (snd (hd ps)) = Max (snd ` set ps)" if "ps \<noteq> []" for ps :: "(string \<times> string) list"
  proof -
    have ps: "ps = hd ps # tl ps" using \<open>ps \<noteq> []\<close> by simp
    have "fold max (map snd (tl ps)) (snd (hd ps)) = Max (set (snd (hd ps) # map snd (tl ps)))" by (rule Max.set_eq_fold [symmetric])
    moreover have "fold max (map snd ps) (snd (hd ps)) = fold max (map snd (tl ps)) (snd (hd ps))"
      by (subst ps) simp
    moreover have "snd ` set ps = set (snd (hd ps) # map snd (tl ps))" by (subst ps) simp
    ultimately show ?thesis by simp
  qed
  show ?thesis
    unfolding killScanFloorFrom_def Let_def foldl_least foldl_greatest
    by (auto simp: least greatest split: list.split simp del: fold_simps list.map set_filter)
qed

lemma unsettled_above_floor:
  assumes "killScanFloorFrom E K terminal kills wipes = Some floor_at"
    and "(raidId, t) \<in> set (heldEvidence E K kills wipes)" and "raidId \<notin> set (terminalRaids Kills terminal)"
  shows "floor_at \<le> t"
proof -
  let ?outstanding = "filter (\<lambda>(raidId, t). raidId \<notin> set (terminalRaids Kills terminal)) (heldEvidence E K kills wipes)"
  have "(raidId, t) \<in> set ?outstanding" using assms by simp
  then have "t \<in> snd ` set ?outstanding" and outstanding: "?outstanding \<noteq> []"
    by (simp_all only: image_eqI [of t snd "(raidId, t)"] snd_conv) (metis empty_iff empty_set)
  moreover have "floor_at = Min (snd ` set ?outstanding)"
    using assms(1) outstanding unfolding killScanFloorFrom_eq Let_def by (simp split: if_splits)
  ultimately show ?thesis by (metis List.finite_set Min_le finite_imageI)
qed

lemma scan_floor_held:
  "case killScanFloorFrom E K terminal kills wipes of
     None \<Rightarrow> terminalRaids Kills terminal = [] \<or> kills = [] \<or> heldEvidence E K kills wipes = []
   | Some floor_at \<Rightarrow>
       floor_at \<in> snd ` set (heldEvidence E K kills wipes) \<and>
       list_all (\<lambda>(raidId, t). raidId \<in> set (terminalRaids Kills terminal) \<or> floor_at \<le> t)
         (heldEvidence E K kills wipes) \<and>
       (list_ex (\<lambda>(raidId, t). raidId \<notin> set (terminalRaids Kills terminal)) (heldEvidence E K kills wipes) \<or>
        list_all (\<lambda>(raidId, t). t \<le> floor_at) (heldEvidence E K kills wipes))"
proof (cases "killScanFloorFrom E K terminal kills wipes")
  case None
  then show ?thesis by (simp add: killScanFloorFrom_eq Let_def split: if_splits)
next
  case (Some floor_at)
  let ?held = "heldEvidence E K kills wipes"
  let ?outstanding = "filter (\<lambda>(raidId, t). raidId \<notin> set (terminalRaids Kills terminal)) ?held"
  have held: "?held \<noteq> []" using Some by (auto simp: killScanFloorFrom_eq Let_def split: if_splits)
  have above: "list_all (\<lambda>(raidId, t). raidId \<in> set (terminalRaids Kills terminal) \<or> floor_at \<le> t) ?held"
    using unsettled_above_floor [OF Some] by (auto simp: list_all_iff)
  have "floor_at = (if ?outstanding = [] then Max (snd ` set ?held) else Min (snd ` set ?outstanding))"
    using Some by (auto simp: killScanFloorFrom_eq Let_def split: if_splits)
  moreover have "?outstanding \<noteq> [] \<Longrightarrow> Min (snd ` set ?outstanding) \<in> snd ` set ?outstanding"
    by (rule Min_in) (simp_all del: set_filter)
  moreover have "Max (snd ` set ?held) \<in> snd ` set ?held" using held by (intro Max_in) auto
  moreover have "snd ` set ?outstanding \<subseteq> snd ` set ?held" by auto
  ultimately have "floor_at \<in> snd ` set ?held" by (auto split: if_splits)
  moreover have "list_all (\<lambda>(raidId, t). t \<le> floor_at) ?held" if "?outstanding = []"
  proof -
    have "floor_at = Max (snd ` set ?held)"
      using Some that by (auto simp: killScanFloorFrom_eq Let_def split: if_splits)
    moreover have "\<forall>e \<in> set ?held. snd e \<le> Max (snd ` set ?held)" by (simp add: Max_ge)
    ultimately show ?thesis by (simp only: list_all_iff case_prod_unfold)
  qed
  moreover have "list_ex (\<lambda>(raidId, t). raidId \<notin> set (terminalRaids Kills terminal)) ?held \<longleftrightarrow> ?outstanding \<noteq> []"
    by (rule list_ex_filter)
  ultimately show ?thesis using Some above by auto
qed

definition raidEvidence ::
    "js_env \<Rightarrow> catalogueData \<Rightarrow> (string \<Rightarrow> string \<Rightarrow> bool) \<Rightarrow> string \<Rightarrow> string \<Rightarrow> string \<Rightarrow> bool" where
  \<comment> \<open>specification: a stored row in a raid zone whose raid and instant satisfy the predicate\<close>
  "raidEvidence E K P raidName raidId t \<longleftrightarrow> \<not> isNonRaidZone E K raidName \<and> P raidId t"

abbreviation storedEx ::
    "js_env \<Rightarrow> catalogueData \<Rightarrow> terminalTierKill list \<Rightarrow> terminalTierWipe list \<Rightarrow> (string \<Rightarrow> string \<Rightarrow> bool) \<Rightarrow> bool" where
  \<comment> \<open>some stored kill or wipe of a raid zone satisfies the predicate\<close>
  "storedEx E K kills wipes P \<equiv>
     list_ex (\<lambda>k. raidEvidence E K P (tk_raidName k) (tk_raidId k) (tk_killedAt k)) kills \<or>
     list_ex (\<lambda>w. raidEvidence E K P (tw_raidName w) (tw_raidId w) (tw_attemptedAt w)) wipes"

definition unlessOutside ::
    "js_env \<Rightarrow> catalogueData \<Rightarrow> (string \<Rightarrow> string \<Rightarrow> bool) \<Rightarrow> string \<Rightarrow> string \<Rightarrow> string \<Rightarrow> bool" where
  \<comment> \<open>specification: a stored row outside raid zones, or one whose raid and instant satisfy the predicate\<close>
  "unlessOutside E K P raidName raidId t \<longleftrightarrow> isNonRaidZone E K raidName \<or> P raidId t"

abbreviation storedAll ::
    "js_env \<Rightarrow> catalogueData \<Rightarrow> terminalTierKill list \<Rightarrow> terminalTierWipe list \<Rightarrow> (string \<Rightarrow> string \<Rightarrow> bool) \<Rightarrow> bool" where
  \<comment> \<open>every stored kill and wipe of a raid zone satisfies the predicate\<close>
  "storedAll E K kills wipes P \<equiv>
     list_all (\<lambda>k. unlessOutside E K P (tk_raidName k) (tk_raidId k) (tk_killedAt k)) kills \<and>
     list_all (\<lambda>w. unlessOutside E K P (tw_raidName w) (tw_raidId w) (tw_attemptedAt w)) wipes"

lemma list_ex_map_filter: "list_ex P (map f (filter Q (map g xs))) \<longleftrightarrow> list_ex (\<lambda>x. Q (g x) \<and> P (f (g x))) xs"
  by (induction xs) auto

lemma heldEvidence_list_ex:
  "list_ex (\<lambda>(raidId, t). P raidId t) (heldEvidence E K kills wipes) \<longleftrightarrow> storedEx E K kills wipes P"
  by (simp add: heldEvidence_def raidEvidence_def list_ex_map_filter)

lemma heldEvidence_ex: "(\<exists>(raidId, t) \<in> set (heldEvidence E K kills wipes). P raidId t) \<longleftrightarrow> storedEx E K kills wipes P"
  unfolding heldEvidence_list_ex [symmetric] by (simp add: list_ex_iff)

lemma list_all_map_filter: "list_all P (map f (filter Q (map g xs))) \<longleftrightarrow> list_all (\<lambda>x. \<not> Q (g x) \<or> P (f (g x))) xs"
  by (induction xs) auto

lemma heldEvidence_all:
  "list_all (\<lambda>(raidId, t). P raidId t) (heldEvidence E K kills wipes) \<longleftrightarrow> storedAll E K kills wipes P"
  by (simp add: heldEvidence_def unlessOutside_def list_all_map_filter)

lemma heldEvidence_Nil: "heldEvidence E K kills wipes = [] \<longleftrightarrow> storedAll E K kills wipes (\<lambda>_ _. False)"
  unfolding heldEvidence_all [symmetric] by (cases "heldEvidence E K kills wipes") auto

lemma heldEvidence_instant:
  "t \<in> snd ` set (heldEvidence E K kills wipes) \<longleftrightarrow> storedEx E K kills wipes (\<lambda>_ u. u = t)"
  unfolding heldEvidence_ex [symmetric] by force

text \<open>
  The floor the report scan may stop at: none while no raid is terminal for kills or nothing is
  held; otherwise it is the instant of a stored kill or wipe, no stored kill or wipe of a raid that
  is not terminal for kills is older than it (so the scan still reaches all evidence a publish
  would drop), and once every held raid is terminal it is the newest instant held.
\<close>
theorem scan_floor_exact:
  "case killScanFloorFrom E K terminal kills wipes of
     None \<Rightarrow> terminalRaids Kills terminal = [] \<or> kills = [] \<or> storedAll E K kills wipes (\<lambda>_ _. False)
   | Some floor_at \<Rightarrow>
       storedEx E K kills wipes (\<lambda>_ t. t = floor_at) \<and>
       storedAll E K kills wipes (\<lambda>raidId t. raidId \<in> set (terminalRaids Kills terminal) \<or> floor_at \<le> t) \<and>
       (storedEx E K kills wipes (\<lambda>raidId _. raidId \<notin> set (terminalRaids Kills terminal)) \<or>
        storedAll E K kills wipes (\<lambda>_ t. t \<le> floor_at))"
  using scan_floor_held [where E = E and K = K and terminal = terminal and kills = kills and wipes = wipes]
  unfolding heldEvidence_all heldEvidence_Nil heldEvidence_instant heldEvidence_list_ex .

subsection \<open>Retries\<close>

lemma find_split:
  assumes "find P xs = Some x"
  shows "\<exists>pre post. xs = pre @ x # post \<and> P x \<and> list_all (\<lambda>y. \<not> P y) pre"
  using assms
proof (induction xs)
  case (Cons y ys)
  show ?case
  proof (cases "P y")
    case True
    then show ?thesis using Cons.prems by (intro exI [of _ "[]"] exI [of _ ys]) simp
  next
    case False
    then obtain pre post where "ys = pre @ x # post" "P x" "list_all (\<lambda>y. \<not> P y) pre"
      using Cons by auto
    then show ?thesis using False by (intro exI [of _ "y # pre"] exI [of _ post]) simp
  qed
qed simp

text \<open>
  The limitation a run records: none only when it raised none; it is the first raised limitation
  that earns a retry whenever some raised limitation earns one, and the first raised otherwise. A
  character is never left uncollectable by one limitation when another of the same run would have
  rescheduled it.
\<close>
theorem driving_limitation_exact:
  "case drivingLimitation options limitations of
     None \<Rightarrow> limitations = []
   | Some driving \<Rightarrow>
       (\<exists>earlier later. limitations = earlier @ driving # later \<and>
          (if list_ex (\<lambda>l. limitationDelay options l \<noteq> None) limitations
           then limitationDelay options driving \<noteq> None \<and> list_all (\<lambda>l. limitationDelay options l = None) earlier
           else earlier = []))"
proof (cases "find (\<lambda>l. limitationDelay options l \<noteq> None) limitations")
  case None
  then have "\<not> list_ex (\<lambda>l. limitationDelay options l \<noteq> None) limitations"
    by (auto simp: find_None_iff list_ex_iff)
  with None show ?thesis by (cases limitations) (auto simp: drivingLimitation_def option_else_def)
next
  case (Some driving)
  then obtain earlier later where parts: "limitations = earlier @ driving # later"
    "limitationDelay options driving \<noteq> None" "list_all (\<lambda>l. limitationDelay options l = None) earlier"
    using find_split by fastforce
  then have "list_ex (\<lambda>l. limitationDelay options l \<noteq> None) limitations" by (simp add: list_ex_iff)
  with parts Some show ?thesis by (auto simp: drivingLimitation_def option_else_def)
qed

lemma retry_needs_allowance:
  assumes "fst (evidenceRetryDecision input) = Retry"
    and "ri_classification input \<noteq> Points_budget_refusal" "ri_classification input \<noteq> Cancelled_run"
  shows "ri_attempt input < ri_maxAttempts input" "\<not> tooExpensiveToRepeat input"
    "ri_classification input = Transient \<or> ri_classification input = Unclassified \<and> ri_attempt input \<le> 1"
  using assms by (cases "ri_classification input"; auto simp: evidenceRetryDecision_def split: if_splits)+

end
