(* ===== verification/LinkStrength.thy ===== *)
theory LinkStrength
  imports Connections
begin

section \<open>Link strengths\<close>

text \<open>
  The second half of \<open>packages/domain/src/character-connections.ts\<close>: how strongly each
  character of a group is linked to one of them. The code splits the link graph into its
  biconnected components by Tarjan's edge-stack search and walks the block-cut tree.

  A link's position in the list is its id. The recursive search runs on fuel; as many steps as
  the adjacency map has keys, and one more, are enough. The stack of edges has its top first.
\<close>

datatype linkStrength = Raiderio_strength | Fingerprint_strength | Manual_strength

record strengthLink =
  sl_a :: string
  sl_b :: string
  sl_strength :: linkStrength

record connectionEdge =
  ce_id :: nat
  ce_a :: string
  ce_b :: string

record connectionBlock =
  cb_edgeIds :: "nat list"
  cb_vertices :: "string list"

type_synonym adjacency = "(string, (string \<times> nat) list) jsmap"

definition addEdge :: "adjacency \<Rightarrow> connectionEdge \<Rightarrow> adjacency" where
  "addEdge adj e = bucket_push (ce_b e) (ce_a e, ce_id e) (bucket_push (ce_a e) (ce_b e, ce_id e) adj)"

definition buildAdjacency :: "connectionEdge list \<Rightarrow> adjacency" where
  "buildAdjacency es = foldl addEdge [] es"

definition neighbours :: "('k, 'a list) jsmap \<Rightarrow> 'k \<Rightarrow> 'a list" where
  \<comment> \<open>\<open>adjacency.get(node) ?? []\<close>\<close>
  "neighbours m k = (case map_get m k of None \<Rightarrow> [] | Some xs \<Rightarrow> xs)"

subsection \<open>Biconnected components\<close>

record blockSearch =
  bs_disc :: "(string, nat) jsmap"
  bs_low :: "(string, nat) jsmap"
  bs_edgeStack :: "connectionEdge list" \<comment> \<open>top first\<close>
  bs_blocks :: "connectionBlock list"
  bs_counter :: nat

definition number_at :: "(string, nat) jsmap \<Rightarrow> string \<Rightarrow> nat" where
  \<comment> \<open>\<open>disc.get(node)!\<close>, asked only of discovered nodes\<close>
  "number_at m k = (case map_get m k of None \<Rightarrow> 0 | Some n \<Rightarrow> n)"

fun popEdges :: "nat \<Rightarrow> connectionEdge list \<Rightarrow> connectionBlock \<Rightarrow> connectionBlock \<times> connectionEdge list" where
  "popEdges edgeId [] block = (block, [])"
| "popEdges edgeId (newest # stack) block =
     (let block' = \<lparr>cb_edgeIds = cb_edgeIds block @ [ce_id newest],
                    cb_vertices = set_add (ce_b newest) (set_add (ce_a newest) (cb_vertices block))\<rparr>
      in if ce_id newest = edgeId then (block', stack) else popEdges edgeId stack block')"

definition popBlockThrough :: "nat \<Rightarrow> blockSearch \<Rightarrow> blockSearch" where
  "popBlockThrough edgeId s =
     (case popEdges edgeId (bs_edgeStack s) \<lparr>cb_edgeIds = [], cb_vertices = []\<rparr> of
        (block, stack) \<Rightarrow> s\<lparr>bs_edgeStack := stack, bs_blocks := bs_blocks s @ [block]\<rparr>)"

definition pushEdge :: "nat \<Rightarrow> string \<Rightarrow> string \<Rightarrow> blockSearch \<Rightarrow> blockSearch" where
  "pushEdge edgeId node other s = s\<lparr>bs_edgeStack := \<lparr>ce_id = edgeId, ce_a = node, ce_b = other\<rparr> # bs_edgeStack s\<rparr>"

definition lowerLow :: "string \<Rightarrow> nat \<Rightarrow> blockSearch \<Rightarrow> blockSearch" where
  "lowerLow node n s = s\<lparr>bs_low := map_set node (min (number_at (bs_low s) node) n) (bs_low s)\<rparr>"

definition discover :: "string \<Rightarrow> blockSearch \<Rightarrow> blockSearch" where
  "discover node s =
     s\<lparr>bs_disc := map_set node (bs_counter s) (bs_disc s), bs_low := map_set node (bs_counter s) (bs_low s),
       bs_counter := bs_counter s + 1\<rparr>"

definition leaveChild :: "string \<Rightarrow> string \<Rightarrow> nat \<Rightarrow> blockSearch \<Rightarrow> blockSearch" where
  \<comment> \<open>after \<open>dfs(to, edgeId)\<close>\<close>
  "leaveChild node to edgeId s =
     (let s' = lowerLow node (number_at (bs_low s) to) s
      in if number_at (bs_disc s') node \<le> number_at (bs_low s') to then popBlockThrough edgeId s' else s')"

fun visitNeighbours ::
    "(string \<Rightarrow> nat \<Rightarrow> blockSearch \<Rightarrow> blockSearch option) \<Rightarrow> string \<Rightarrow> nat option \<Rightarrow>
     (string \<times> nat) list \<Rightarrow> blockSearch \<Rightarrow> blockSearch option" where
  "visitNeighbours rec node parent [] s = Some s"
| "visitNeighbours rec node parent ((to, edgeId) # rest) s =
     (if parent = Some edgeId then visitNeighbours rec node parent rest s
      else if \<not> map_has (bs_disc s) to then
        (case rec to edgeId (pushEdge edgeId node to s) of
           None \<Rightarrow> None
         | Some s' \<Rightarrow> visitNeighbours rec node parent rest (leaveChild node to edgeId s'))
      else if number_at (bs_disc s) to < number_at (bs_disc s) node then
        visitNeighbours rec node parent rest
          (lowerLow node (number_at (bs_disc s) to) (pushEdge edgeId node to s))
      else visitNeighbours rec node parent rest s)"

primrec dfs :: "nat \<Rightarrow> adjacency \<Rightarrow> string \<Rightarrow> nat option \<Rightarrow> blockSearch \<Rightarrow> blockSearch option" where
  "dfs 0 adj node parent s = None"
| "dfs (Suc fuel) adj node parent s =
     visitNeighbours (\<lambda>to edgeId. dfs fuel adj to (Some edgeId)) node parent (neighbours adj node) (discover node s)"

definition biconnectedComponents :: "adjacency \<Rightarrow> string \<Rightarrow> connectionBlock list option" where
  "biconnectedComponents adj start =
     map_option bs_blocks (dfs (Suc (length adj)) adj start None
       \<lparr>bs_disc = [], bs_low = [], bs_edgeStack = [], bs_blocks = [], bs_counter = 0\<rparr>)"

subsection \<open>The block-cut tree\<close>

datatype treeNode = Block_node int | Vertex_node string

fun treeNodeKey :: "treeNode \<Rightarrow> string" where
  "treeNodeKey (Block_node index) =
     ''block'' @ CHR 0x00 # (if index < 0 then ''-'' else []) @ decimal (nat \<bar>index\<bar>)"
| "treeNodeKey (Vertex_node i) = ''vertex'' @ CHR 0x00 # i"

definition blockCounts :: "connectionBlock list \<Rightarrow> (string, nat) jsmap" where
  \<comment> \<open>\<open>blockCountByVertex\<close>\<close>
  "blockCounts blocks =
     foldl (\<lambda>counts vertex. map_set vertex (number_at counts vertex + 1) counts) [] (concat (map cb_vertices blocks))"

definition isCutVertex :: "connectionBlock list \<Rightarrow> string \<Rightarrow> bool" where
  "isCutVertex blocks vertex \<longleftrightarrow> 2 \<le> number_at (blockCounts blocks) vertex"

definition linkNodes :: "treeNode \<Rightarrow> treeNode \<Rightarrow> (string, treeNode list) jsmap \<Rightarrow> (string, treeNode list) jsmap" where
  \<comment> \<open>\<open>link\<close>\<close>
  "linkNodes left right m = bucket_push (treeNodeKey right) left (bucket_push (treeNodeKey left) right m)"

definition blockCutTree :: "connectionBlock list \<Rightarrow> (string, treeNode list) jsmap" where
  \<comment> \<open>\<open>neighboursOf\<close>\<close>
  "blockCutTree blocks =
     foldl (\<lambda>m (index, vertex). if isCutVertex blocks vertex
                                then linkNodes (Block_node (int index)) (Vertex_node vertex) m else m)
       [] (concat (map (\<lambda>(index, block). map (Pair index) (cb_vertices block)) (enumerate 0 blocks)))"

definition blockIndexOf :: "connectionBlock list \<Rightarrow> string \<Rightarrow> int" where
  \<comment> \<open>\<open>blocks.findIndex((b) => b.vertices.has(vertex))\<close>\<close>
  "blockIndexOf blocks vertex =
     (let index = length (takeWhile (\<lambda>b. vertex \<notin> set (cb_vertices b)) blocks)
      in if index < length blocks then int index else - 1)"

definition nodeOf :: "connectionBlock list \<Rightarrow> string \<Rightarrow> treeNode" where
  "nodeOf blocks vertex =
     (if isCutVertex blocks vertex then Vertex_node vertex else Block_node (blockIndexOf blocks vertex))"

definition blockHasProvider :: "nat list \<Rightarrow> connectionBlock \<Rightarrow> bool" where
  "blockHasProvider providerEdgeIds block \<longleftrightarrow> list_ex (\<lambda>edgeId. edgeId \<in> set providerEdgeIds) (cb_edgeIds block)"

fun ownHasProvider :: "nat list \<Rightarrow> connectionBlock list \<Rightarrow> treeNode \<Rightarrow> bool" where
  "ownHasProvider providerEdgeIds blocks (Block_node index) =
     (if 0 \<le> index \<and> nat index < length blocks then blockHasProvider providerEdgeIds (blocks ! nat index) else False)"
| "ownHasProvider providerEdgeIds blocks (Vertex_node i) = False"

record treeWalk =
  tw_cumulative :: "(string, bool) jsmap"
  tw_visited :: "string list"
  tw_queue :: "treeNode list"

definition truth_at :: "(string, bool) jsmap \<Rightarrow> string \<Rightarrow> bool" where
  \<comment> \<open>\<open>cumulativeByKey.get(key) ?? false\<close>\<close>
  "truth_at m k \<longleftrightarrow> map_get m k = Some True"

definition visitNode :: "(treeNode \<Rightarrow> bool) \<Rightarrow> string \<Rightarrow> treeNode \<Rightarrow> treeWalk \<Rightarrow> treeWalk" where
  \<comment> \<open>one neighbour of the current node\<close>
  "visitNode own currentKey node w =
     (if treeNodeKey node \<in> set (tw_visited w) then w
      else w\<lparr>tw_visited := set_add (treeNodeKey node) (tw_visited w),
             tw_cumulative := map_set (treeNodeKey node) (truth_at (tw_cumulative w) currentKey \<or> own node) (tw_cumulative w),
             tw_queue := tw_queue w @ [node]\<rparr>)"

definition visitCurrent ::
    "(treeNode \<Rightarrow> bool) \<Rightarrow> (string, treeNode list) jsmap \<Rightarrow> treeNode \<Rightarrow> treeWalk \<Rightarrow> treeWalk" where
  "visitCurrent own tree current w =
     foldl (\<lambda>w node. visitNode own (treeNodeKey current) node w) w (neighbours tree (treeNodeKey current))"

text \<open>Each round takes a node off the queue, and only nodes not yet visited are put on it.\<close>

definition treeKeys :: "(string, treeNode list) jsmap \<Rightarrow> string set" where
  "treeKeys tree = treeNodeKey ` \<Union> (set ` snd ` set tree)"

definition walkMeasure :: "(string, treeNode list) jsmap \<Rightarrow> treeWalk \<Rightarrow> nat" where
  "walkMeasure tree w = length (tw_queue w) + card (treeKeys tree - set (tw_visited w))"

lemma finite_treeKeys [simp]: "finite (treeKeys tree)"
  by (simp add: treeKeys_def)

lemma neighbours_treeKeys: "node \<in> set (neighbours tree k) \<Longrightarrow> treeNodeKey node \<in> treeKeys tree"
proof -
  assume node: "node \<in> set (neighbours tree k)"
  then obtain nodes where "map_of tree k = Some nodes" "node \<in> set nodes"
    by (cases "map_of tree k") (simp_all add: neighbours_def)
  then have "(k, nodes) \<in> set tree" "node \<in> set nodes" by (simp_all add: map_of_SomeD)
  then have "node \<in> \<Union> (set ` snd ` set tree)" by (metis UN_I image_eqI snd_conv)
  then show ?thesis by (simp add: treeKeys_def)
qed

lemma visitNode_measure:
  assumes "treeNodeKey node \<in> treeKeys tree"
  shows "walkMeasure tree (visitNode own k node w) = walkMeasure tree w"
proof (cases "treeNodeKey node \<in> set (tw_visited w)")
  case False
  have "card (treeKeys tree - set (tw_visited w)) =
      Suc (card (treeKeys tree - insert (treeNodeKey node) (set (tw_visited w))))"
    using assms False card_Suc_Diff1 [of "treeKeys tree - set (tw_visited w)" "treeNodeKey node"]
    by (simp add: Diff_insert [symmetric])
  then show ?thesis using False by (simp add: visitNode_def walkMeasure_def)
qed (simp add: visitNode_def)

lemma visitCurrent_measure: "walkMeasure tree (visitCurrent own tree current w) = walkMeasure tree w"
proof -
  have "walkMeasure tree (foldl (\<lambda>w node. visitNode own k node w) w nodes) = walkMeasure tree w"
    if "\<And>node. node \<in> set nodes \<Longrightarrow> treeNodeKey node \<in> treeKeys tree" for nodes k w
    using that by (induction nodes arbitrary: w) (simp_all add: visitNode_measure)
  then show ?thesis by (simp add: visitCurrent_def neighbours_treeKeys)
qed

function walkTree :: "(treeNode \<Rightarrow> bool) \<Rightarrow> (string, treeNode list) jsmap \<Rightarrow> treeWalk \<Rightarrow> treeWalk" where
  "walkTree own tree w =
     (case tw_queue w of
        [] \<Rightarrow> w
      | current # queue \<Rightarrow> walkTree own tree (visitCurrent own tree current (w\<lparr>tw_queue := queue\<rparr>)))"
  by pat_completeness auto

termination
  by (relation "measure (\<lambda>(own, tree, w). walkMeasure tree w)")
    (simp_all add: visitCurrent_measure, simp add: walkMeasure_def)

declare walkTree.simps [simp del]

definition startWalk :: "(treeNode \<Rightarrow> bool) \<Rightarrow> treeNode \<Rightarrow> treeWalk" where
  "startWalk own rt =
     \<lparr>tw_cumulative = [(treeNodeKey rt, own rt)], tw_visited = [treeNodeKey rt], tw_queue = [rt]\<rparr>"

definition blockStrengths :: "string \<Rightarrow> nat list \<Rightarrow> connectionBlock list \<Rightarrow> (string, bool) jsmap" where
  \<comment> \<open>\<open>hasProviderPathFrom\<close> after \<open>biconnectedComponents\<close>\<close>
  "blockStrengths origin providerEdgeIds blocks =
     (let own = ownHasProvider providerEdgeIds blocks;
          cumulative = tw_cumulative (walkTree own (blockCutTree blocks) (startWalk own (nodeOf blocks origin)));
          visitedVertices = foldl (\<lambda>s vertex. set_add vertex s) [] (concat (map cb_vertices blocks))
      in foldl (\<lambda>m vertex. if vertex = origin then m
                           else map_set vertex (truth_at cumulative (treeNodeKey (nodeOf blocks vertex))) m)
           [] visitedVertices)"

definition hasProviderPathFrom ::
    "string \<Rightarrow> connectionEdge list \<Rightarrow> nat list \<Rightarrow> (string, bool) jsmap option" where
  "hasProviderPathFrom origin es providerEdgeIds =
     (let adj = buildAdjacency es
      in if \<not> map_has adj origin then Some []
         else map_option (blockStrengths origin providerEdgeIds) (biconnectedComponents adj origin))"

definition edgeOf :: "nat \<times> strengthLink \<Rightarrow> connectionEdge" where
  "edgeOf = (\<lambda>(i, l). \<lparr>ce_id = i, ce_a = sl_a l, ce_b = sl_b l\<rparr>)"

definition pathStrengths :: "string \<Rightarrow> strengthLink list \<Rightarrow> (string, linkStrength) jsmap option" where
  "pathStrengths origin links =
     (let numbered = enumerate 0 links;
          allEdges = map edgeOf numbered;
          manualOrRaiderioEdges = map edgeOf (filter (\<lambda>(i, l). sl_strength l \<noteq> Fingerprint_strength) numbered);
          raiderioEdgeIds = map fst (filter (\<lambda>(i, l). sl_strength l = Raiderio_strength) numbered);
          nonManualEdgeIds = map fst (filter (\<lambda>(i, l). sl_strength l \<noteq> Manual_strength) numbered)
      in case (hasProviderPathFrom origin manualOrRaiderioEdges raiderioEdgeIds,
               hasProviderPathFrom origin allEdges nonManualEdgeIds) of
           (Some raiderioRun, Some fingerprintRun) \<Rightarrow>
             Some (foldl (\<lambda>m node. map_set node
                            (if map_get raiderioRun node = Some True then Raiderio_strength
                             else if map_get fingerprintRun node = Some True then Fingerprint_strength
                             else Manual_strength) m) [] (map fst fingerprintRun))
         | _ \<Rightarrow> None)"

end
