(* ===== verification/SimplePaths.thy ===== *)
theory SimplePaths
  imports Prelude
begin

section \<open>Simple paths\<close>

text \<open>
  Simple paths of an undirected graph, given by its adjacency relation. In a graph that no single
  vertex disconnects, any two vertices are joined by a simple path through any given link; and a
  graph hung onto another by one vertex adds to the simple paths only what it holds itself.
\<close>

definition spath :: "('v \<Rightarrow> 'v \<Rightarrow> bool) \<Rightarrow> 'v list \<Rightarrow> 'v \<Rightarrow> 'v \<Rightarrow> bool" where
  "spath R xs u v \<longleftrightarrow> xs \<noteq> [] \<and> hd xs = u \<and> last xs = v \<and> distinct xs \<and> successively R xs"

definition crosses :: "('v \<Rightarrow> 'v \<Rightarrow> bool) \<Rightarrow> 'v list \<Rightarrow> bool" where
  \<comment> \<open>some step of the path is in the relation\<close>
  "crosses P xs \<longleftrightarrow> \<not> successively (\<lambda>x y. \<not> P x y) xs"

definition touched :: "('v \<Rightarrow> 'v \<Rightarrow> bool) \<Rightarrow> 'v set" where
  "touched R = {x. \<exists>y. R x y}"

lemma touched_step:
  assumes "symp R" and "R x y"
  shows "x \<in> touched R" and "y \<in> touched R"
  using assms(2) sympD [OF assms] by (auto simp: touched_def)

lemma spath_single [simp]: "spath R [u] u u"
  by (simp add: spath_def)

lemma spath_append:
  assumes "spath R xs u x" and "spath R ys y v" and "R x y" and "set xs \<inter> set ys = {}"
  shows "spath R (xs @ ys) u v"
  using assms by (auto simp: spath_def successively_append_iff)

lemma spath_prefix: "spath R (xs @ x # ys) u v \<Longrightarrow> spath R (xs @ [x]) u x"
  by (cases xs) (auto simp: spath_def successively_append_iff successively_Cons hd_append split: if_splits)

lemma spath_suffix: "spath R (xs @ x # ys) u v \<Longrightarrow> spath R (x # ys) x v"
  by (auto simp: spath_def successively_append_iff)

lemma spath_join:
  assumes "spath R (xs @ [d]) u d" and "spath R (d # ys) d v" and "set xs \<inter> set ys = {}"
  shows "spath R (xs @ d # ys) u v"
proof (cases ys)
  case Nil
  then show ?thesis using assms by (auto simp: spath_def)
next
  case (Cons y ys')
  then have "spath R ys y v" "R d y" "d \<notin> set ys" using assms(2) by (auto simp: spath_def)
  then show ?thesis using spath_append [OF assms(1)] assms(3) by simp
qed

lemma spath_rev:
  assumes "symp R" and "spath R xs u v"
  shows "spath R (rev xs) v u"
proof -
  have "successively (\<lambda>x y. R y x) xs"
    using assms by (auto simp: spath_def dest: sympD elim: successively_mono)
  then show ?thesis using assms(2) by (simp add: spath_def hd_rev last_rev successively_rev)
qed

lemma spath_mono: "spath R xs u v \<Longrightarrow> (\<And>x y. R x y \<Longrightarrow> R' x y) \<Longrightarrow> spath R' xs u v"
  by (auto simp: spath_def elim: successively_mono)

lemma spath_loop: "spath R xs u u \<Longrightarrow> xs = [u]"
  by (cases xs) (auto simp: spath_def split: if_splits)

lemma spath_ends: "spath R xs u v \<Longrightarrow> u \<in> set xs \<and> v \<in> set xs"
  by (auto simp: spath_def)

lemma spath_in: "spath R xs u v \<Longrightarrow> x \<in> set xs \<Longrightarrow> x = u \<or> (\<exists>y. R y x)"
proof (induction xs arbitrary: u)
  case (Cons z zs)
  then show ?case by (cases zs) (auto simp: spath_def)
qed simp

lemma crosses_append:
  "crosses P (xs @ ys) \<longleftrightarrow> crosses P xs \<or> crosses P ys \<or> xs \<noteq> [] \<and> ys \<noteq> [] \<and> P (last xs) (hd ys)"
  by (auto simp: crosses_def successively_append_iff)

lemma crosses_mono: "crosses P xs \<Longrightarrow> (\<And>x y. P x y \<Longrightarrow> Q x y) \<Longrightarrow> crosses Q xs"
  unfolding crosses_def by (metis (mono_tags, lifting) successively_mono)

lemma not_crosses_single [simp]: "\<not> crosses P []" "\<not> crosses P [x]"
  by (simp_all add: crosses_def)

text \<open>A walk can be shortened to a simple path.\<close>

lemma spath_of_walk:
  assumes "R\<^sup>*\<^sup>* u v"
  shows "\<exists>xs. spath R xs u v"
  using assms
proof (induction rule: rtranclp_induct)
  case base
  show ?case by (intro exI [of _ "[u]"]) simp
next
  case (step y z)
  then obtain xs where xs: "spath R xs u y" by blast
  show ?case
  proof (cases "z \<in> set xs")
    case True
    then obtain ys zs where "xs = ys @ z # zs" by (meson split_list)
    then show ?thesis using spath_prefix [of R ys z zs] xs by blast
  next
    case False
    then have "spath R (xs @ [z]) u z" using spath_append [OF xs spath_single] step by simp
    then show ?thesis ..
  qed
qed

lemma walk_of_spath: "spath R xs u v \<Longrightarrow> R\<^sup>*\<^sup>* u v"
proof (induction xs arbitrary: u)
  case (Cons x xs)
  show ?case
  proof (cases xs)
    case Nil
    then have "u = v" using Cons.prems by (auto simp: spath_def)
    then show ?thesis by simp
  next
    case (Cons y ys)
    then have "R u y" "spath R xs y v" using Cons.prems by (auto simp: spath_def)
    then show ?thesis using Cons.IH by (meson converse_rtranclp_into_rtranclp)
  qed
qed (simp add: spath_def)

subsection \<open>Paths that avoid a vertex\<close>

abbreviation avoiding :: "'v \<Rightarrow> ('v \<Rightarrow> 'v \<Rightarrow> bool) \<Rightarrow> 'v \<Rightarrow> 'v \<Rightarrow> bool" where
  "avoiding c R \<equiv> \<lambda>x y. R x y \<and> x \<noteq> c \<and> y \<noteq> c"

definition robust :: "('v \<Rightarrow> 'v \<Rightarrow> bool) \<Rightarrow> bool" where
  \<comment> \<open>no single vertex disconnects the touched vertices\<close>
  "robust R \<longleftrightarrow> (\<forall>c. \<forall>u \<in> touched R - {c}. \<forall>w \<in> touched R - {c}. (avoiding c R)\<^sup>*\<^sup>* u w)"

lemma robustD:
  assumes "robust R" and "u \<in> touched R" and "w \<in> touched R" and "u \<noteq> c" and "w \<noteq> c"
  shows "(avoiding c R)\<^sup>*\<^sup>* u w"
proof -
  have "\<forall>u \<in> touched R - {c}. \<forall>w \<in> touched R - {c}. (avoiding c R)\<^sup>*\<^sup>* u w"
    using assms(1) unfolding robust_def by (rule spec)
  moreover have "u \<in> touched R - {c}" "w \<in> touched R - {c}" using assms(2-5) by simp_all
  ultimately show ?thesis by (meson bspec)
qed

lemma spath_avoiding:
  assumes "spath (avoiding c R) xs u v" and "u \<noteq> c"
  shows "spath R xs u v" and "c \<notin> set xs"
  using spath_mono [OF assms(1)] spath_in [OF assms(1)] assms(2) by blast+

lemma bridge_between:
  assumes "xs \<noteq> []" and "hd xs \<in> S" and "last xs \<in> T" and "S \<inter> T = {}"
  shows "\<exists>ys d ms t zs. xs = ys @ d # ms @ t # zs \<and> d \<in> S \<and> t \<in> T \<and> set ms \<inter> (S \<union> T) = {}"
proof -
  have "\<exists>x \<in> set xs. x \<in> T" using assms(1,3) last_in_set by blast
  then obtain pre t zs where pre: "xs = pre @ t # zs" "t \<in> T" "\<forall>x \<in> set pre. x \<notin> T"
    using split_list_first_prop [of xs "\<lambda>x. x \<in> T"] by blast
  have "pre \<noteq> []" using pre assms(2,4) by (cases pre) auto
  then have "hd pre \<in> S" "hd pre \<in> set pre" using pre(1) assms(2) by (simp_all add: hd_append)
  then have "\<exists>x \<in> set pre. x \<in> S" by blast
  then obtain ys d ms where "pre = ys @ d # ms" "d \<in> S" "\<forall>x \<in> set ms. x \<notin> S"
    using split_list_last_prop [of pre "\<lambda>x. x \<in> S"] by blast
  with pre show ?thesis
    by (intro exI [of _ ys] exI [of _ d] exI [of _ ms] exI [of _ t] exI [of _ zs]) auto
qed

subsection \<open>Disjoint paths\<close>

definition linked :: "('v \<Rightarrow> 'v \<Rightarrow> bool) \<Rightarrow> 'v \<Rightarrow> 'v \<Rightarrow> 'v \<Rightarrow> 'v \<Rightarrow> bool" where
  "linked R u w x y \<longleftrightarrow> (\<exists>xs ys. spath R xs u x \<and> spath R ys w y \<and> set xs \<inter> set ys = {})"

lemma linked_swap: "linked R u w x y \<longleftrightarrow> linked R w u y x"
  unfolding linked_def by (metis inf_commute)

lemma linked_move_through:
  \<comment> \<open>the second path wants to end where the first passes\<close>
  assumes "robust R" and "w \<in> touched R" and "x \<in> touched R"
    and xs: "spath R (xs1 @ y' # xs2) u x" and ys: "spath R ys w y" and disjoint: "set (xs1 @ y' # xs2) \<inter> set ys = {}"
    and "R y y'" and "y' \<noteq> x"
  shows "linked R u w x y' \<or> linked R u w y' x"
proof -
  have ends: "w \<in> set ys" "x \<in> set xs2" "last xs2 = x"
    using ys xs \<open>y' \<noteq> x\<close> by (auto simp: spath_def split: if_splits)
  then have "w \<noteq> y'" using disjoint by auto
  then have "(avoiding y' R)\<^sup>*\<^sup>* w x" using \<open>y' \<noteq> x\<close> by (intro robustD [OF assms(1-3)]) auto
  from spath_of_walk [OF this] obtain ds where "spath (avoiding y' R) ds w x" ..
  then have ds: "spath R ds w x" "y' \<notin> set ds"
    by (rule spath_avoiding [OF _ \<open>w \<noteq> y'\<close>])+
  have "distinct (xs1 @ y' # xs2)" using xs by (simp add: spath_def)
  then have "(set xs1 \<union> set ys) \<inter> set xs2 = {}" using disjoint by auto
  have "ds \<noteq> []" "hd ds \<in> set xs1 \<union> set ys" "last ds \<in> set xs2"
    using ds(1) ends by (auto simp: spath_def)
  from bridge_between [OF this \<open>(set xs1 \<union> set ys) \<inter> set xs2 = {}\<close>] obtain ds1 d ms t ds2 where split: "ds = ds1 @ d # ms @ t # ds2" "d \<in> set xs1 \<union> set ys" "t \<in> set xs2"
    "set ms \<inter> (set xs1 \<union> set ys \<union> set xs2) = {}"
    by blast
  obtain xs21 xs22 where xs2: "xs2 = xs21 @ t # xs22" using split(3) by (meson split_list)
  have tail: "spath R (t # xs22) t x" using spath_suffix [of R "xs1 @ y' # xs21" t xs22] xs xs2 by simp
  have bridge: "spath R (d # ms @ [t]) d t"
    using spath_prefix [of R "d # ms" t ds2] spath_suffix [of R ds1 d "ms @ t # ds2" w x] ds(1) split(1) by fastforce
  have bridged: "spath R (d # ms @ t # xs22) d x"
  proof -
    have "set (d # ms) \<inter> set xs22 = {}"
      using split(2,4) xs2 \<open>(set xs1 \<union> set ys) \<inter> set xs2 = {}\<close> by auto
    then show ?thesis using spath_join [of R "d # ms"] bridge tail by simp
  qed
  show ?thesis
  proof (cases "d \<in> set ys")
    case True
    then obtain ys1 ys2 where ys12: "ys = ys1 @ d # ys2" by (meson split_list)
    have "set ys1 \<inter> set (ms @ t # xs22) = {}"
      using split(4) xs2 ys12 \<open>(set xs1 \<union> set ys) \<inter> set xs2 = {}\<close> by auto
    then have "spath R (ys1 @ d # ms @ t # xs22) w x"
      using spath_join [OF _ bridged] spath_prefix [of R ys1 d ys2] ys ys12 by simp
    moreover have "spath R (xs1 @ [y']) u y'" by (rule spath_prefix [OF xs])
    moreover have "set (xs1 @ [y']) \<inter> set (ys1 @ d # ms @ t # xs22) = {}"
    proof -
      have "y' \<notin> set (ms @ t # xs22)" using split(1) ds(2) xs2 \<open>distinct (xs1 @ y' # xs2)\<close> by auto
      moreover have "set xs1 \<inter> set (ms @ t # xs22) = {}"
        using split(4) xs2 \<open>(set xs1 \<union> set ys) \<inter> set xs2 = {}\<close> by auto
      moreover have "set (xs1 @ [y']) \<inter> set (ys1 @ [d]) = {}" using disjoint ys12 by auto
      ultimately show ?thesis by auto
    qed
    ultimately show ?thesis unfolding linked_def by blast
  next
    case False
    then have "d \<in> set xs1" using split(2) by simp
    then obtain xs11 xs12 where xs1: "xs1 = xs11 @ d # xs12" by (meson split_list)
    have "spath R (xs11 @ [d]) u d" using spath_prefix [of R xs11 d "xs12 @ y' # xs2"] xs xs1 by simp
    moreover have "set xs11 \<inter> set (ms @ t # xs22) = {}"
      using split(4) xs2 xs1 \<open>(set xs1 \<union> set ys) \<inter> set xs2 = {}\<close> by auto
    ultimately have "spath R (xs11 @ d # ms @ t # xs22) u x" using spath_join [OF _ bridged] by simp
    moreover have "spath R (ys @ [y']) w y'"
      using spath_append [OF ys spath_single \<open>R y y'\<close>] disjoint by simp
    moreover have "set (xs11 @ d # ms @ t # xs22) \<inter> set (ys @ [y']) = {}"
    proof -
      have "y' \<notin> set (ms @ t # xs22)" using split(1) ds(2) xs2 \<open>distinct (xs1 @ y' # xs2)\<close> by auto
      moreover have "set ys \<inter> set (ms @ t # xs22) = {}"
        using split(4) xs2 \<open>(set xs1 \<union> set ys) \<inter> set xs2 = {}\<close> by auto
      moreover have "set (xs11 @ [d]) \<inter> set (ys @ [y']) = {}"
        using disjoint xs1 \<open>distinct (xs1 @ y' # xs2)\<close> by auto
      ultimately show ?thesis by auto
    qed
    ultimately show ?thesis unfolding linked_def by blast
  qed
qed

definition good :: "('v \<Rightarrow> 'v \<Rightarrow> bool) \<Rightarrow> 'v \<Rightarrow> 'v \<Rightarrow> 'v \<Rightarrow> 'v \<Rightarrow> bool" where
  "good R u w x y \<longleftrightarrow> linked R u w x y \<or> linked R u w y x"

lemma good_swap: "good R u w x y \<longleftrightarrow> good R u w y x" "good R u w x y \<longleftrightarrow> good R w u x y"
  unfolding good_def using linked_swap by metis+

lemma linked_move:
  assumes "robust R" and "w \<in> touched R" and "x \<in> touched R" and "linked R u w x y" and "R y y'" and "y' \<noteq> x"
  shows "good R u w x y'"
proof -
  obtain xs ys where xs: "spath R xs u x" and ys: "spath R ys w y" and disjoint: "set xs \<inter> set ys = {}"
    using assms(4) by (auto simp: linked_def)
  consider "y' \<in> set xs" | "y' \<in> set ys" | "y' \<notin> set xs \<union> set ys" by blast
  then show ?thesis
  proof cases
    case 1
    then obtain xs1 xs2 where "xs = xs1 @ y' # xs2" by (meson split_list)
    then show ?thesis using linked_move_through [OF assms(1-3)] xs ys disjoint assms(5,6) by (simp add: good_def)
  next
    case 2
    then obtain ys1 ys2 where split: "ys = ys1 @ y' # ys2" by (meson split_list)
    then have "spath R (ys1 @ [y']) w y'" using ys by (simp add: spath_prefix)
    moreover have "set xs \<inter> set (ys1 @ [y']) = {}" using disjoint split by auto
    ultimately show ?thesis using xs unfolding good_def linked_def by blast
  next
    case 3
    then have "spath R (ys @ [y']) w y'" using spath_append [OF ys spath_single assms(5)] by simp
    moreover have "set xs \<inter> set (ys @ [y']) = {}" using disjoint 3 by auto
    ultimately show ?thesis using xs unfolding good_def linked_def by blast
  qed
qed

lemma good_walk:
  assumes "robust R" and "u \<in> touched R" and "w \<in> touched R" and "x \<in> touched R"
    and "good R u w x y" and "(avoiding x R)\<^sup>*\<^sup>* y y'"
  shows "good R u w x y'"
  using assms(6,5)
proof (induction rule: rtranclp_induct)
  case (step y' z)
  then have "good R u w x y'" by blast
  then consider "linked R u w x y'" | "linked R w u x y'" unfolding good_def using linked_swap by metis
  then show ?case
  proof cases
    case 1
    then show ?thesis using linked_move [OF assms(1,3,4)] step.hyps(2) by blast
  next
    case 2
    then show ?thesis using linked_move [OF assms(1,2,4)] step.hyps(2) good_swap by metis
  qed
qed

lemma good_any:
  assumes "robust R" and "u \<in> touched R" and "w \<in> touched R" and "x \<in> touched R" and "y \<in> touched R"
    and "u \<noteq> w" and "x \<noteq> y"
  shows "good R u w x y"
proof -
  have start: "good R u w u w" unfolding good_def linked_def
    by (rule disjI1, rule exI [of _ "[u]"], rule exI [of _ "[w]"]) (simp add: assms(6))
  have via: "good R u w u' y'" if "good R u w u' w'" "u' \<in> touched R" "w' \<in> touched R" "y' \<in> touched R" "w' \<noteq> u'" "y' \<noteq> u'" for u' w' y'
    using good_walk [OF assms(1-3) that(2,1)] robustD [OF assms(1) that(3,4)] that(5,6) by blast
  show ?thesis
  proof (cases "x = u")
    case True
    then show ?thesis using via [OF start] assms by metis
  next
    case False
    have "good R u w x u"
    proof (cases "x = w")
      case True
      then show ?thesis using start good_swap(1) by metis
    next
      case False
      then have "good R u w u x" using via [OF start] assms \<open>x \<noteq> u\<close> by metis
      then show ?thesis using good_swap(1) by metis
    qed
    then show ?thesis using via [of x u y] False assms by metis
  qed
qed

text \<open>A simple path between any two vertices through any given link.\<close>

lemma robust_path_through:
  assumes "symp R" and "robust R" and "u \<in> touched R" and "w \<in> touched R" and "u \<noteq> w"
    and "R x y" and "x \<noteq> y" and "P x y" and "symp P"
  shows "\<exists>xs. spath R xs u w \<and> crosses P xs"
proof -
  have touched: "x \<in> touched R" "y \<in> touched R" using assms(1,6) by (auto simp: touched_def dest: sympD)
  have through: "\<exists>xs. spath R xs u w \<and> crosses P xs" 
    if ab: "linked R u w a b" "R a b" "P a b" for a b
  proof -
    obtain xs ys where xs: "spath R xs u a" and ys: "spath R ys w b" and disjoint: "set xs \<inter> set ys = {}"
      using ab(1) by (auto simp: linked_def)
    have rev: "spath R (rev ys) b w" by (rule spath_rev [OF assms(1) ys])
    have "spath R (xs @ rev ys) u w" using spath_append [OF xs rev ab(2)] disjoint by simp
    moreover have "crosses P (xs @ rev ys)"
      using xs rev ab(3) by (simp add: crosses_append spath_def)
    ultimately show ?thesis by blast
  qed
  have "good R u w x y" by (rule good_any [OF assms(2-4) touched assms(5,7)])
  then show ?thesis
    using through [of x y] through [of y x] assms(6,8) sympD [OF assms(1)] sympD [OF assms(9)]
    unfolding good_def by blast
qed

subsection \<open>Hanging a graph onto another\<close>

lemma crosses_iff: "crosses P xs \<longleftrightarrow> (\<exists>ys x y zs. xs = ys @ x # y # zs \<and> P x y)"
proof (induction xs)
  case (Cons a xs)
  show ?case
  proof (cases xs)
    case Nil
    then show ?thesis by simp
  next
    case (Cons b bs)
    have "crosses P (a # xs) \<longleftrightarrow> P a b \<or> crosses P xs" using Cons by (auto simp: crosses_def)
    also have "\<dots> \<longleftrightarrow> (\<exists>ys x y zs. a # xs = ys @ x # y # zs \<and> P x y)"
      unfolding Cons.IH using \<open>xs = b # bs\<close> by (metis append_Cons append_Nil list.inject neq_Nil_conv)
    finally show ?thesis .
  qed
qed simp

definition provides :: "('v \<Rightarrow> 'v \<Rightarrow> bool) \<Rightarrow> ('v \<Rightarrow> 'v \<Rightarrow> bool) \<Rightarrow> 'v \<Rightarrow> 'v \<Rightarrow> bool" where
  \<comment> \<open>some simple path takes a step of the second relation\<close>
  "provides R P u v \<longleftrightarrow> (\<exists>xs. spath R xs u v \<and> crosses P xs)"

lemma provides_loop: "\<not> provides R P u u"
  by (auto simp: provides_def dest: spath_loop)

lemma pendant_lists:
  assumes "symp G" and "symp B" and "touched B \<inter> T = {a}" and "touched G \<subseteq> T"
    and "xs \<noteq> []" and "hd xs \<in> T" and "distinct xs" and "successively (sup G B) xs"
  shows "set xs \<subseteq> T \<and> successively G xs \<or>
    (\<exists>ys zs. xs = ys @ a # zs \<and> zs \<noteq> [] \<and> set (ys @ [a]) \<subseteq> T \<and> successively G (ys @ [a]) \<and>
       successively B (a # zs) \<and> set zs \<subseteq> touched B - T)"
  using assms(5-)
proof (induction xs rule: rev_induct)
  case (snoc x xs)
  have B_ends: "p \<in> touched B \<and> q \<in> touched B" if "B p q" for p q
    using that sympD [OF assms(2)] by (auto simp: touched_def)
  have G_ends: "p \<in> T \<and> q \<in> T" if "G p q" for p q
    using that sympD [OF assms(1)] assms(4) by (auto simp: touched_def)
  show ?case
  proof (cases "xs = []")
    case True
    then show ?thesis using snoc.prems by simp
  next
    case False
    then have step: "G (last xs) x \<or> B (last xs) x" and apart: "x \<notin> set xs" "last xs \<in> set xs"
      and "hd xs \<in> T" "distinct xs" "successively (sup G B) xs"
      using snoc.prems by (auto simp: successively_append_iff)
    with snoc.IH [OF False] consider (inside) "set xs \<subseteq> T" "successively G xs"
      | (left) ys zs where "xs = ys @ a # zs" "zs \<noteq> []" "set (ys @ [a]) \<subseteq> T" "successively G (ys @ [a])"
        "successively B (a # zs)" "set zs \<subseteq> touched B - T"
      by blast
    then show ?thesis
    proof cases
      case inside
      show ?thesis
      proof (cases "x \<in> T")
        case True
        have "G (last xs) x"
        proof (rule ccontr)
          assume "\<not> G (last xs) x"
          then have "B (last xs) x" using step by blast
          then have "last xs = a" "x = a" using B_ends inside(1) apart(2) True assms(3) by blast+
          then show False using apart by simp
        qed
        then show ?thesis using inside True False by (simp add: successively_append_iff)
      next
        case outside: False
        then have B: "B (last xs) x" using step G_ends by blast
        then have "last xs = a" using B_ends inside(1) apart(2) assms(3) by blast
        then have "xs = butlast xs @ [a]" using False append_butlast_last_id by metis
        then show ?thesis
          using inside B B_ends outside \<open>last xs = a\<close>
          by (intro disjI2 exI [of _ "butlast xs"] exI [of _ "[x]"]) (auto dest: in_set_butlastD)
      qed
    next
      case left
      then have "last xs \<in> set zs" by simp
      then have "last xs \<notin> T" using left(6) by blast
      then have B: "B (last xs) x" using step G_ends by blast
      have "x \<noteq> a" using left(1) apart(1) by auto
      then have "x \<in> touched B - T" using B B_ends assms(3) by blast
      then show ?thesis using left B
        by (intro disjI2 exI [of _ ys] exI [of _ "zs @ [x]"])
          (simp add: successively_append_iff successively_Cons hd_append)
    qed
  qed
qed simp

lemma pendant_outside:
  assumes "symp G" and "symp B" and "touched B \<inter> insert r (touched G) = {a}"
    and "\<And>x y. PG x y \<Longrightarrow> G x y" and "\<And>x y. PB x y \<Longrightarrow> B x y" and "v \<notin> touched B - {a}"
  shows "provides (sup G B) (sup PG PB) r v \<longleftrightarrow> provides G PG r v"
    and "(\<exists>xs. spath (sup G B) xs r v) \<longleftrightarrow> (\<exists>xs. spath G xs r v)"
proof -
  let ?T = "insert r (touched G)"
  have inside: "spath G xs r v \<and> set xs \<subseteq> ?T" if "spath (sup G B) xs r v" for xs
  proof -
    have "set xs \<subseteq> ?T \<and> successively G xs \<or>
      (\<exists>ys zs. xs = ys @ a # zs \<and> zs \<noteq> [] \<and> set (ys @ [a]) \<subseteq> ?T \<and> successively G (ys @ [a]) \<and>
         successively B (a # zs) \<and> set zs \<subseteq> touched B - ?T)"
      using that by (intro pendant_lists [OF assms(1-3)]) (auto simp: spath_def)
    moreover have False if right: "xs = ys @ a # zs" "zs \<noteq> []" "set zs \<subseteq> touched B - ?T" for ys zs
    proof -
      have "v = last zs" using right(1,2) \<open>spath (sup G B) xs r v\<close> by (simp add: spath_def)
      then have "v \<in> set zs" using right(2) by simp
      then have "v \<in> touched B - {a}" using right(3) assms(3) by blast
      then show False using assms(6) by simp
    qed
    ultimately have "set xs \<subseteq> ?T" "successively G xs" by blast+
    then show ?thesis using that by (simp add: spath_def)
  qed
  have "crosses PG xs" if run: "spath G xs r v" "set xs \<subseteq> ?T" "crosses (sup PG PB) xs" for xs
  proof -
    obtain ys x y zs where split: "xs = ys @ x # y # zs" "PG x y \<or> PB x y"
      using run(3) by (auto simp: crosses_iff)
    have "\<not> PB x y"
    proof
      assume "PB x y"
      then have "x \<in> touched B" "y \<in> touched B" using touched_step [OF assms(2)] assms(5) by blast+
      moreover have "x \<in> ?T" "y \<in> ?T" using run(2) split(1) by auto
      ultimately have "x = a" "y = a" using assms(3) by blast+
      then show False using run(1) split(1) by (simp add: spath_def)
    qed
    then show ?thesis using split by (auto simp: crosses_iff)
  qed
  then show "provides (sup G B) (sup PG PB) r v \<longleftrightarrow> provides G PG r v"
    using inside unfolding provides_def by (meson crosses_mono spath_mono sup2I1)
  show "(\<exists>xs. spath (sup G B) xs r v) \<longleftrightarrow> (\<exists>xs. spath G xs r v)"
    using inside by (meson spath_mono sup2I1)
qed

lemma pendant_inside:
  assumes "symp G" and "symp B" and "touched B \<inter> insert r (touched G) = {a}"
    and "\<And>x y. PG x y \<Longrightarrow> G x y" and "\<And>x y. PB x y \<Longrightarrow> B x y" and "v \<in> touched B - {a}"
    and joined: "\<exists>xs. spath B xs a v" and through: "(\<exists>x y. PB x y) \<Longrightarrow> \<exists>xs. spath B xs a v \<and> crosses PB xs"
    and reached: "\<exists>xs. spath G xs r a"
  shows "provides (sup G B) (sup PG PB) r v \<longleftrightarrow> provides G PG r a \<or> (\<exists>x y. PB x y)"
    and "\<exists>xs. spath (sup G B) xs r v"
proof -
  let ?T = "insert r (touched G)"
  have join: "spath (sup G B) (ys @ tl zs) r v \<and> (crosses PG ys \<or> crosses PB zs \<longrightarrow> crosses (sup PG PB) (ys @ tl zs))"
    if ys: "spath G ys r a" and zs: "spath B zs a v" for ys zs
  proof -
    obtain us where us: "ys = us @ [a]" using ys append_butlast_last_id unfolding spath_def by metis
    obtain ws where ws: "zs = a # ws" using zs unfolding spath_def by (metis hd_Cons_tl)
    have "set ys \<subseteq> ?T" using spath_in [OF ys] assms(1) by (auto simp: touched_def dest: sympD)
    moreover have "set ws \<subseteq> touched B - {a}"
      using spath_in [OF zs] zs ws assms(2) by (auto simp: touched_def spath_def dest: sympD)
    ultimately have "set us \<inter> set ws = {}" using assms(3) us by auto
    then have "spath (sup G B) (us @ a # ws) r v"
      using spath_join [of "sup G B" us a r ws v] spath_mono [OF ys, of "sup G B"] spath_mono [OF zs, of "sup G B"] us ws
      by simp
    moreover have "crosses (sup PG PB) (us @ a # ws)" if "crosses PG ys \<or> crosses PB zs"
      using that us ws crosses_append [of "sup PG PB" us "a # ws"] crosses_append [of "sup PG PB" ys ws]
        crosses_mono [of PG ys "sup PG PB"] crosses_mono [of PB zs "sup PG PB"] by auto
    ultimately show ?thesis using us ws by simp
  qed
  have "provides G PG r a \<or> (\<exists>x y. PB x y)" if "spath (sup G B) xs r v" "crosses (sup PG PB) xs" for xs
  proof -
    have "set xs \<subseteq> ?T \<and> successively G xs \<or>
      (\<exists>ys zs. xs = ys @ a # zs \<and> zs \<noteq> [] \<and> set (ys @ [a]) \<subseteq> ?T \<and> successively G (ys @ [a]) \<and>
         successively B (a # zs) \<and> set zs \<subseteq> touched B - ?T)"
      using that by (intro pendant_lists [OF assms(1-3)]) (auto simp: spath_def)
    moreover have "\<not> set xs \<subseteq> ?T" using spath_ends [OF that(1)] assms(3,6) by blast
    ultimately obtain ys zs where split: "xs = ys @ a # zs" "successively G (ys @ [a])" "set zs \<subseteq> touched B - ?T" by blast
    then have "spath G (ys @ [a]) r a" using that(1) by (cases ys) (auto simp: spath_def)
    moreover have "crosses PG (ys @ [a]) \<or> (\<exists>x y. PB x y)"
    proof (rule disjCI)
      assume "\<nexists>x y. PB x y"
      then have PG: "crosses PG xs" using that(2) by (auto simp: crosses_iff)
      have outside: "\<not> PG p q" if "q \<in> set zs" for p q
      proof
        assume "PG p q"
        then have "G q p" using assms(4) sympD [OF assms(1)] by blast
        then have "q \<in> touched G" by (auto simp: touched_def)
        then show False using that split(3) by blast
      qed
      then have "\<not> crosses PG zs" "zs \<noteq> [] \<Longrightarrow> \<not> PG a (hd zs)" by (auto simp: crosses_iff)
      then show "crosses PG (ys @ [a])"
        using PG split(1) crosses_append [of PG "ys @ [a]" zs] by auto
    qed
    ultimately show ?thesis unfolding provides_def by blast
  qed
  then show "provides (sup G B) (sup PG PB) r v \<longleftrightarrow> provides G PG r a \<or> (\<exists>x y. PB x y)"
    using join joined through reached unfolding provides_def by meson
  show "\<exists>xs. spath (sup G B) xs r v" using join joined reached by meson
qed

subsection \<open>Trees of blocks\<close>

text \<open>
  A list of blocks, each given by its vertices, in which every block meets the root and the blocks
  after it in one vertex; and for each vertex whether a block on the way from the root is marked.
\<close>

fun hangs :: "('b \<Rightarrow> 'v set) \<Rightarrow> 'v set \<Rightarrow> 'b list \<Rightarrow> bool" where
  "hangs V R [] \<longleftrightarrow> True"
| "hangs V R (b # bs) \<longleftrightarrow> (\<exists>a. V b \<inter> (R \<union> \<Union> (V ` set bs)) = {a}) \<and> hangs V R bs"

lemma hangs_append: "hangs V R (bs @ cs) \<longleftrightarrow> hangs V (R \<union> \<Union> (V ` set cs)) bs \<and> hangs V R cs"
  by (induction bs) (auto simp: Un_ac)

lemma hangs_cong:
  assumes "\<And>b. b \<in> set bs \<Longrightarrow> V b \<inter> R = V b \<inter> R'"
  shows "hangs V R bs \<longleftrightarrow> hangs V R' bs"
  using assms by (induction bs) (simp_all add: Int_Un_distrib)

lemma hangs_drop: "hangs V R bs \<Longrightarrow> hangs V R (drop j bs)"
  by (induction bs arbitrary: j) (auto simp: drop_Cons split: nat.split)

definition hook :: "('b \<Rightarrow> 'v set) \<Rightarrow> 'v \<Rightarrow> 'b \<Rightarrow> 'b list \<Rightarrow> 'v" where
  \<comment> \<open>the vertex by which a block hangs\<close>
  "hook V r b bs = the_elem (V b \<inter> insert r (\<Union> (V ` set bs)))"

fun gathers :: "('b \<Rightarrow> 'v set) \<Rightarrow> ('b \<Rightarrow> bool) \<Rightarrow> 'v \<Rightarrow> 'b list \<Rightarrow> 'v \<Rightarrow> bool" where
  "gathers V q r [] v \<longleftrightarrow> False"
| "gathers V q r (b # bs) v \<longleftrightarrow>
     (if v \<in> V b \<and> v \<notin> insert r (\<Union> (V ` set bs)) then gathers V q r bs (hook V r b bs) \<or> q b
      else gathers V q r bs v)"

lemma hook_in:
  assumes "hangs V {r} (b # bs)"
  shows "V b \<inter> insert r (\<Union> (V ` set bs)) = {hook V r b bs}"
proof -
  obtain a where a: "V b \<inter> insert r (\<Union> (V ` set bs)) = {a}" using assms by (auto simp del: insert_iff)
  then have "hook V r b bs = a" unfolding hook_def by (simp only: the_elem_eq)
  then show ?thesis using a by simp
qed

lemma gathers_root [simp]: "\<not> gathers V q r bs r"
  by (induction bs) auto

definition joins_any :: "('b \<Rightarrow> 'v \<Rightarrow> 'v \<Rightarrow> bool) \<Rightarrow> 'b list \<Rightarrow> 'v \<Rightarrow> 'v \<Rightarrow> bool" where
  "joins_any J bs x y \<longleftrightarrow> (\<exists>b \<in> set bs. J b x y)"

lemma joins_any_simps:
  "joins_any J [] = (\<lambda>x y. False)" "joins_any J (b # bs) = sup (joins_any J bs) (J b)"
  by (auto simp: joins_any_def fun_eq_iff)

lemma touched_joins_any: "touched (joins_any J bs) = \<Union> ((\<lambda>b. touched (J b)) ` set bs)"
  by (auto simp: joins_any_def touched_def)

definition solid :: "('v \<Rightarrow> 'v \<Rightarrow> bool) \<Rightarrow> bool" where
  "solid R \<longleftrightarrow> symp R \<and> robust R \<and> (\<forall>x y. R x y \<longrightarrow> x \<noteq> y) \<and> (\<forall>u \<in> touched R. \<forall>w \<in> touched R. R\<^sup>*\<^sup>* u w)"

lemma blocks_gather:
  assumes "hangs V {r} bs"
    and "\<And>b. b \<in> set bs \<Longrightarrow> solid (J b) \<and> touched (J b) = V b"
    and "\<And>b. b \<in> set bs \<Longrightarrow> symp (Q b) \<and> (q b \<longleftrightarrow> (\<exists>x y. Q b x y))"
    and "\<And>b x y. b \<in> set bs \<Longrightarrow> Q b x y \<Longrightarrow> J b x y"
  shows "(provides (joins_any J bs) (joins_any Q bs) r v \<longleftrightarrow> gathers V q r bs v) \<and>
         ((\<exists>xs. spath (joins_any J bs) xs r v) \<longleftrightarrow> v \<in> insert r (\<Union> (V ` set bs)))"
  using assms
proof (induction bs arbitrary: v)
  case Nil
  have reach: "(\<exists>xs. spath (\<lambda>x y. False) xs r v) \<longleftrightarrow> v = r" for v
  proof -
    have "spath (\<lambda>x y. False) xs r v \<Longrightarrow> v = r" for xs
      by (cases xs rule: rev_cases) (auto simp: spath_def successively_append_iff hd_append split: if_splits)
    moreover have "\<exists>xs. spath (\<lambda>x y. False) xs r r" by (intro exI [of _ "[r]"]) simp
    ultimately show ?thesis by blast
  qed
  moreover have "\<not> provides (joins_any J []) (joins_any Q []) r v" for v
    by (auto simp: joins_any_simps provides_def crosses_iff)
  ultimately show ?case by (simp add: joins_any_simps)
next
  case (Cons b bs)
  have rest: "provides (joins_any J bs) (joins_any Q bs) r v \<longleftrightarrow> gathers V q r bs v"
    "(\<exists>xs. spath (joins_any J bs) xs r v) \<longleftrightarrow> v \<in> insert r (\<Union> (V ` set bs))" for v
    using Cons.IH [of v] Cons.prems by simp_all
  have solid: "solid (J b)" "touched (J b) = V b" "symp (Q b)" "q b \<longleftrightarrow> (\<exists>x y. Q b x y)"
    "\<And>x y. Q b x y \<Longrightarrow> J b x y" and "hangs V {r} (b # bs)"
    using Cons.prems by auto
  have touched: "touched (joins_any J bs) = \<Union> (V ` set bs)"
    using Cons.prems(2) by (auto simp: touched_joins_any)
  define a where "a = hook V r b bs"
  have hook: "touched (J b) \<inter> insert r (touched (joins_any J bs)) = {a}"
    unfolding a_def solid(2) touched by (rule hook_in) fact
  have symp: "symp (joins_any J bs)" "symp (J b)"
  proof -
    have "symp (J c)" if "c \<in> set (b # bs)" for c using Cons.prems(2) [OF that] by (simp add: solid_def)
    then show "symp (joins_any J bs)" "symp (J b)" unfolding joins_any_def symp_def by (meson list.set_intros)+
  qed
  have sub: "\<And>x y. joins_any Q bs x y \<Longrightarrow> joins_any J bs x y" using Cons.prems(4) by (auto simp: joins_any_def)
  have inside: "provides (sup (joins_any J bs) (J b)) (sup (joins_any Q bs) (Q b)) r v \<longleftrightarrow>
      provides (joins_any J bs) (joins_any Q bs) r a \<or> (\<exists>x y. Q b x y)"
    "\<exists>xs. spath (sup (joins_any J bs) (J b)) xs r v" if v: "v \<in> touched (J b) - {a}" for v
  proof -
    have a: "a \<in> touched (J b)" using hook by blast
    have joined: "\<exists>xs. spath (J b) xs a v"
      using spath_of_walk solid(1) a v unfolding solid_def by (metis DiffD1)
    have through: "\<exists>xs. spath (J b) xs a v \<and> crosses (Q b) xs" if some: "\<exists>x y. Q b x y"
    proof -
      obtain x y where "Q b x y" using some by blast
      then show ?thesis
        using robust_path_through [of "J b" a v x y "Q b"] solid(1,3,5) a v unfolding solid_def by blast
    qed
    have reached: "\<exists>xs. spath (joins_any J bs) xs r a" using rest(2) [of a] hook touched by blast
    show "provides (sup (joins_any J bs) (J b)) (sup (joins_any Q bs) (Q b)) r v \<longleftrightarrow>
      provides (joins_any J bs) (joins_any Q bs) r a \<or> (\<exists>x y. Q b x y)"
      "\<exists>xs. spath (sup (joins_any J bs) (J b)) xs r v"
      by (rule pendant_inside [OF symp hook sub solid(5) v joined through reached]; simp)+
  qed
  have outside: "provides (sup (joins_any J bs) (J b)) (sup (joins_any Q bs) (Q b)) r v \<longleftrightarrow>
      provides (joins_any J bs) (joins_any Q bs) r v"
    "(\<exists>xs. spath (sup (joins_any J bs) (J b)) xs r v) \<longleftrightarrow> (\<exists>xs. spath (joins_any J bs) xs r v)"
    if v: "v \<notin> touched (J b) - {a}" for v
    by (rule pendant_outside [OF symp hook sub solid(5) v]; simp)+
  have here: "v \<in> touched (J b) - {a} \<longleftrightarrow> v \<in> V b \<and> v \<notin> insert r (\<Union> (V ` set bs))" for v
    using hook solid(2) touched by auto
  show ?case
  proof (cases "v \<in> touched (J b) - {a}")
    case True
    have "v \<in> insert r (\<Union> (V ` set (b # bs)))" using here [of v] True by auto
    moreover have "gathers V q r (b # bs) v \<longleftrightarrow> gathers V q r bs a \<or> q b" using here [of v] True a_def by auto
    ultimately show ?thesis using inside [OF True] rest(1) [of a] solid(4) by (simp only: joins_any_simps)
  next
    case False
    have "v \<in> insert r (\<Union> (V ` set (b # bs))) \<longleftrightarrow> v \<in> insert r (\<Union> (V ` set bs))"
      using here [of v] False by auto
    moreover have "gathers V q r (b # bs) v \<longleftrightarrow> gathers V q r bs v" using here [of v] False by auto
    ultimately show ?thesis using outside [OF False] rest [of v] by (simp only: joins_any_simps)
  qed
qed

lemma gathers_home:
  assumes "hangs V {r} bs" and "i < length bs"
    and "v \<in> V (bs ! i)" and "v \<notin> insert r (\<Union> (V ` set (drop (Suc i) bs)))"
  shows "gathers V q r bs v \<longleftrightarrow> gathers V q r bs (hook V r (bs ! i) (drop (Suc i) bs)) \<or> q (bs ! i)"
  using assms
proof (induction bs arbitrary: i)
  case (Cons b bs)
  show ?case
  proof (cases i)
    case 0
    then show ?thesis using Cons.prems hook_in [of V r b bs] by auto
  next
    case (Suc j)
    then have j: "hangs V {r} bs" "j < length bs" "v \<in> V (bs ! j)" "v \<notin> insert r (\<Union> (V ` set (drop (Suc j) bs)))"
      using Cons.prems by auto
    let ?a = "hook V r (bs ! j) (drop (Suc j) bs)"
    have "hangs V {r} (drop j bs)" using j(1) by (rule hangs_drop)
    then have "?a \<in> insert r (\<Union> (V ` set (drop (Suc j) bs)))"
      using hook_in [of V r "bs ! j" "drop (Suc j) bs"] j(2) by (simp add: Cons_nth_drop_Suc) blast
    then have "?a \<in> insert r (\<Union> (V ` set bs))" using set_drop_subset [of "Suc j" bs] by blast
    moreover have "v \<in> \<Union> (V ` set bs)" using j(2,3) by auto
    ultimately show ?thesis using Cons.IH [OF j] Suc by simp
  qed
qed simp

end
