(* ===== verification/LinkBlocks.thy ===== *)
theory LinkBlocks
  imports LinkStrength SimplePaths
begin

section \<open>The blocks of a component\<close>

text \<open>
  The edge-stack search of \<open>biconnectedComponents\<close> in
  \<open>packages/domain/src/character-connections.ts\<close> returns: it needs no more steps than the
  adjacency map has keys, and one. What it returns are the blocks of the start's component, each of
  them robust, in an order in which every block hangs by one vertex on those after it and the start.
\<close>

subsection \<open>The adjacency map\<close>

locale link_graph =
  fixes E :: "nat \<Rightarrow> string \<Rightarrow> string \<Rightarrow> bool" and adj :: adjacency
  assumes E_sym: "E i x y \<Longrightarrow> E i y x"
    and E_ends: "E i x y \<Longrightarrow> E i x' y' \<Longrightarrow> x' = x \<and> y' = y \<or> x' = y \<and> y' = x"
    and neighbours_iff: "(y, i) \<in> set (neighbours adj x) \<longleftrightarrow> E i x y"

definition edgeJoins :: "connectionEdge list \<Rightarrow> nat \<Rightarrow> string \<Rightarrow> string \<Rightarrow> bool" where
  "edgeJoins es i x y \<longleftrightarrow>
     (\<exists>e \<in> set es. ce_id e = i \<and> (ce_a e = x \<and> ce_b e = y \<or> ce_a e = y \<and> ce_b e = x))"

lemma neighbours_bucket_push:
  "neighbours (bucket_push k v m) x = neighbours m x @ (if x = k then [v] else [])"
  by (simp add: neighbours_def map_of_bucket_push split: option.split)

lemma neighbours_buildAdjacency: "(y, i) \<in> set (neighbours (buildAdjacency es) x) \<longleftrightarrow> edgeJoins es i x y"
proof -
  have "(y, i) \<in> set (neighbours (foldl addEdge adj es) x) \<longleftrightarrow>
      (y, i) \<in> set (neighbours adj x) \<or> edgeJoins es i x y" for adj
    by (induction es arbitrary: adj) (auto simp: edgeJoins_def addEdge_def neighbours_bucket_push)
  then show ?thesis by (simp add: buildAdjacency_def) (simp add: neighbours_def)
qed

lemma edgeJoins_ends:
  assumes "distinct (map ce_id es)" and "edgeJoins es i x y" and "edgeJoins es i x' y'"
  shows "x' = x \<and> y' = y \<or> x' = y \<and> y' = x"
proof -
  have "e = e'" if "e \<in> set es" "e' \<in> set es" "ce_id e = ce_id e'" for e e'
    using that assms(1) by (auto simp: distinct_map dest: inj_onD)
  then show ?thesis using assms(2,3) by (fastforce simp: edgeJoins_def)
qed

lemma distinct_edge_ids: "distinct (map ce_id (map edgeOf (filter P (enumerate n links))))"
proof -
  have ids: "map ce_id (map edgeOf xs) = map fst xs" for xs by (induction xs) (auto simp: edgeOf_def)
  show ?thesis unfolding ids by (rule distinct_map_filter) simp
qed

interpretation numbered: link_graph
  "edgeJoins (map edgeOf (filter P (enumerate 0 links)))" "buildAdjacency (map edgeOf (filter P (enumerate 0 links)))"
  for P links
proof
  show "edgeJoins (map edgeOf (filter P (enumerate 0 links))) i x y \<Longrightarrow>
      edgeJoins (map edgeOf (filter P (enumerate 0 links))) i y x" for i x y
    by (auto simp: edgeJoins_def)
qed (rule edgeJoins_ends [OF distinct_edge_ids] neighbours_buildAdjacency; assumption?)+

subsection \<open>Open edges and blocks\<close>

definition stackJoins :: "connectionEdge list \<Rightarrow> string \<Rightarrow> string \<Rightarrow> bool" where
  "stackJoins es x y \<longleftrightarrow> (\<exists>e \<in> set es. ce_a e = x \<and> ce_b e = y \<or> ce_a e = y \<and> ce_b e = x)"

definition blockJoins :: "(nat \<Rightarrow> string \<Rightarrow> string \<Rightarrow> bool) \<Rightarrow> connectionBlock \<Rightarrow> string \<Rightarrow> string \<Rightarrow> bool" where
  "blockJoins E b x y \<longleftrightarrow> (\<exists>i \<in> set (cb_edgeIds b). E i x y)"

abbreviation vertexSet :: "connectionBlock \<Rightarrow> string set" where
  "vertexSet b \<equiv> set (cb_vertices b)"

definition goodBlock :: "(nat \<Rightarrow> string \<Rightarrow> string \<Rightarrow> bool) \<Rightarrow> connectionBlock \<Rightarrow> bool" where
  "goodBlock E b \<longleftrightarrow> solid (blockJoins E b) \<and> touched (blockJoins E b) = vertexSet b \<and>
     (\<forall>i \<in> set (cb_edgeIds b). \<exists>x y. E i x y) \<and> distinct (cb_vertices b)"

definition openVertices :: "string \<Rightarrow> string set \<Rightarrow> connectionEdge list \<Rightarrow> string set" where
  "openVertices v N pre = insert v (N \<inter> touched (stackJoins pre))"

definition componentBlocks ::
    "(nat \<Rightarrow> string \<Rightarrow> string \<Rightarrow> bool) \<Rightarrow> string \<Rightarrow> string set \<Rightarrow> connectionBlock list \<Rightarrow> bool" where
  \<comment> \<open>\<open>N\<close> holds the start's component, whose links but loops are those of the blocks\<close>
  "componentBlocks E start N blocks \<longleftrightarrow>
     hangs vertexSet {start} blocks \<and> (\<forall>b \<in> set blocks. goodBlock E b \<and> vertexSet b \<subseteq> N) \<and> start \<in> N \<and>
     (\<forall>i x y. x \<in> N \<longrightarrow> E i x y \<longrightarrow> y \<in> N \<and> (x \<noteq> y \<longrightarrow> (\<exists>b \<in> set blocks. i \<in> set (cb_edgeIds b))))"

definition inner :: "string set \<Rightarrow> connectionEdge list \<Rightarrow> string \<Rightarrow> string \<Rightarrow> bool" where
  "inner N pre x y \<longleftrightarrow> stackJoins pre x y \<and> x \<in> N \<and> y \<in> N"

definition handledIds :: "connectionEdge list \<Rightarrow> connectionBlock list \<Rightarrow> nat set" where
  "handledIds pre nb = ce_id ` set pre \<union> \<Union> ((\<lambda>b. set (cb_edgeIds b)) ` set nb)"

text \<open>
  What the search below a vertex \<open>v\<close>, entered by link \<open>p\<close> from the vertices \<open>G\<close> still being
  searched, has established after the links \<open>seen\<close> of \<open>v\<close>: the vertices \<open>N\<close> found, the edges \<open>pre\<close>
  left open and the blocks \<open>nb\<close> closed.
\<close>

definition covers ::
    "(nat \<Rightarrow> string \<Rightarrow> string \<Rightarrow> bool) \<Rightarrow> string set \<Rightarrow> string \<Rightarrow> nat option \<Rightarrow> (string \<times> nat) set \<Rightarrow>
     string set \<Rightarrow> nat set \<Rightarrow> bool" where
  \<comment> \<open>every link seen leads to a vertex found or still being searched, and is open or in a block\<close>
  "covers E G v p seen N ids \<longleftrightarrow>
     (\<forall>x \<in> N - {v}. \<forall>i y. E i x y \<longrightarrow> y \<in> N \<union> G \<and> (x \<noteq> y \<longrightarrow> i \<in> ids)) \<and>
     (\<forall>(y, i) \<in> seen. y \<in> N \<union> G \<and> (y \<noteq> v \<longrightarrow> p \<noteq> Some i \<longrightarrow> i \<in> ids))"

definition openEdges ::
    "(nat \<Rightarrow> string \<Rightarrow> string \<Rightarrow> bool) \<Rightarrow> string set \<Rightarrow> nat option \<Rightarrow> string set \<Rightarrow> connectionEdge list \<Rightarrow> bool" where
  "openEdges E G p N pre \<longleftrightarrow>
     (\<forall>e \<in> set pre. E (ce_id e) (ce_a e) (ce_b e) \<and> ce_a e \<in> N \<and> ce_b e \<in> N \<union> G \<and>
        ce_a e \<noteq> ce_b e \<and> p \<noteq> Some (ce_id e))"

definition openWalks :: "string \<Rightarrow> string set \<Rightarrow> connectionEdge list \<Rightarrow> bool" where
  \<comment> \<open>without any one vertex, every other open vertex still reaches \<open>v\<close> or a vertex above\<close>
  "openWalks v N pre \<longleftrightarrow>
     (\<forall>x \<in> openVertices v N pre. (inner N pre)\<^sup>*\<^sup>* x v) \<and>
     (\<forall>c \<in> openVertices v N pre. \<forall>x \<in> openVertices v N pre - {c}.
        \<exists>z. (avoiding c (stackJoins pre))\<^sup>*\<^sup>* x z \<and> z \<noteq> c \<and> (z = v \<or> z \<notin> N))"

definition subtree ::
    "(nat \<Rightarrow> string \<Rightarrow> string \<Rightarrow> bool) \<Rightarrow> string set \<Rightarrow> string \<Rightarrow> nat option \<Rightarrow> (string \<times> nat) set \<Rightarrow>
     string set \<Rightarrow> connectionEdge list \<Rightarrow> connectionBlock list \<Rightarrow> bool" where
  "subtree E G v p seen N pre nb \<longleftrightarrow>
     v \<in> N \<and> N \<inter> G = {} \<and> covers E G v p seen N (handledIds pre nb) \<and> openEdges E G p N pre \<and>
     (\<forall>b \<in> set nb. goodBlock E b \<and> vertexSet b \<subseteq> N) \<and>
     hangs vertexSet (openVertices v N pre) nb \<and> openWalks v N pre"

lemma stackJoins_sym: "stackJoins es x y \<longleftrightarrow> stackJoins es y x"
  by (auto simp: stackJoins_def)

lemma stackJoins_simps:
  "stackJoins [] x y \<longleftrightarrow> False"
  "stackJoins (e # es) x y \<longleftrightarrow> ce_a e = x \<and> ce_b e = y \<or> ce_a e = y \<and> ce_b e = x \<or> stackJoins es x y"
  "stackJoins (es @ fs) x y \<longleftrightarrow> stackJoins es x y \<or> stackJoins fs x y"
  by (auto simp: stackJoins_def)

lemma walk_touched: "(avoiding c (stackJoins es))\<^sup>*\<^sup>* x z \<Longrightarrow> z = x \<or> z \<in> touched (stackJoins es)"
proof (induction rule: rtranclp_induct)
  case (step y z)
  then have "stackJoins es z y" using stackJoins_sym by metis
  then show ?case by (auto simp: touched_def)
qed simp

lemma walk_mono: "R\<^sup>*\<^sup>* x y \<Longrightarrow> (\<And>a b. R a b \<Longrightarrow> R' a b) \<Longrightarrow> R'\<^sup>*\<^sup>* x y"
  by (metis mono_rtranclp)

lemma subtree_start: "v \<notin> G \<Longrightarrow> subtree E G v p {} {v} [] []"
  by (simp add: subtree_def covers_def openEdges_def openWalks_def openVertices_def touched_def stackJoins_simps)

lemma coversD:
  assumes "covers E G v p seen N ids"
  shows "x \<in> N \<Longrightarrow> x \<noteq> v \<Longrightarrow> E i x y \<Longrightarrow> y \<in> N \<union> G"
    and "x \<in> N \<Longrightarrow> x \<noteq> v \<Longrightarrow> E i x y \<Longrightarrow> x \<noteq> y \<Longrightarrow> i \<in> ids"
    and "(y, i) \<in> seen \<Longrightarrow> y \<in> N \<union> G"
    and "(y, i) \<in> seen \<Longrightarrow> y \<noteq> v \<Longrightarrow> p \<noteq> Some i \<Longrightarrow> i \<in> ids"
  using assms by (auto simp: covers_def)

lemma coversI:
  assumes "\<And>x i y. x \<in> N \<Longrightarrow> x \<noteq> v \<Longrightarrow> E i x y \<Longrightarrow> y \<in> N \<union> G \<and> (x \<noteq> y \<longrightarrow> i \<in> ids)"
    and "\<And>y i. (y, i) \<in> seen \<Longrightarrow> y \<in> N \<union> G \<and> (y \<noteq> v \<longrightarrow> p \<noteq> Some i \<longrightarrow> i \<in> ids)"
  shows "covers E G v p seen N ids"
  unfolding covers_def
proof (intro conjI ballI allI impI)
  show "case e of (y, i) \<Rightarrow> y \<in> N \<union> G \<and> (y \<noteq> v \<longrightarrow> p \<noteq> Some i \<longrightarrow> i \<in> ids)" if "e \<in> seen" for e
    using assms(2) [of "fst e" "snd e"] that by (cases e) simp
qed (use assms(1) in auto)

lemma covers_insert:
  assumes "covers E G v p seen N ids" and "y \<in> N \<union> G" and "y \<noteq> v \<Longrightarrow> p \<noteq> Some i \<Longrightarrow> i \<in> ids"
  shows "covers E G v p (insert (y, i) seen) N ids"
  using assms by (simp add: covers_def)

lemma covers_mono: "covers E G v p seen N ids \<Longrightarrow> ids \<subseteq> ids' \<Longrightarrow> covers E G v p seen N ids'"
  unfolding covers_def by fast

lemma subtree_skip:
  assumes "subtree E G v p seen N pre nb" and "y \<in> N \<union> G" and "y \<noteq> v \<Longrightarrow> p \<noteq> Some i \<Longrightarrow> i \<in> handledIds pre nb"
  shows "subtree E G v p (insert (y, i) seen) N pre nb"
  using assms covers_insert by (simp add: subtree_def)

lemma openVertices_outside:
  assumes "v \<in> N" and "\<And>x y. stackJoins es x y \<Longrightarrow> x \<in> N \<Longrightarrow> x = v"
  shows "openVertices v N (es @ pre) = openVertices v N pre"
  using assms by (auto simp: openVertices_def touched_def stackJoins_simps)

lemma openWalksD:
  assumes "openWalks v N pre" and "x \<in> openVertices v N pre"
  shows "(inner N pre)\<^sup>*\<^sup>* x v"
    and "c \<in> openVertices v N pre \<Longrightarrow> x \<noteq> c \<Longrightarrow>
         \<exists>z. (avoiding c (stackJoins pre))\<^sup>*\<^sup>* x z \<and> z \<noteq> c \<and> (z = v \<or> z \<notin> N)"
  using assms by (simp_all add: openWalks_def)

lemma openWalks_mono:
  assumes "openWalks v N pre" and "openVertices v N pre' = openVertices v N pre"
    and more: "\<And>x y. stackJoins pre x y \<Longrightarrow> stackJoins pre' x y"
  shows "openWalks v N pre'"
  unfolding openWalks_def assms(2)
proof (intro conjI ballI)
  fix x assume "x \<in> openVertices v N pre"
  from openWalksD(1) [OF assms(1) this] show "(inner N pre')\<^sup>*\<^sup>* x v"
    by (rule walk_mono) (auto simp: inner_def more)
next
  fix c x assume "c \<in> openVertices v N pre" "x \<in> openVertices v N pre - {c}"
  then obtain z where "(avoiding c (stackJoins pre))\<^sup>*\<^sup>* x z" and z: "z \<noteq> c \<and> (z = v \<or> z \<notin> N)"
    using openWalksD(2) [OF assms(1), of x c] by auto
  then have "(avoiding c (stackJoins pre'))\<^sup>*\<^sup>* x z" by (elim walk_mono) (auto simp: more)
  with z show "\<exists>z. (avoiding c (stackJoins pre'))\<^sup>*\<^sup>* x z \<and> z \<noteq> c \<and> (z = v \<or> z \<notin> N)" by blast
qed

lemma subtree_back:
  assumes "subtree E G v p seen N pre nb" and "w \<in> G" and "E i v w" and "p \<noteq> Some i"
  shows "subtree E G v p (insert (w, i) seen) N (\<lparr>ce_id = i, ce_a = v, ce_b = w\<rparr> # pre) nb"
proof -
  let ?e = "\<lparr>ce_id = i, ce_a = v, ce_b = w\<rparr>"
  have w: "w \<notin> N" "w \<noteq> v" "v \<in> N" using assms(1,2) by (auto simp: subtree_def)
  have same: "openVertices v N (?e # pre) = openVertices v N pre"
    using openVertices_outside [of v N "[?e]" pre] w by (auto simp: stackJoins_simps)
  have walks: "openWalks v N (?e # pre)"
    using assms(1) by (intro openWalks_mono [OF _ same]) (auto simp: subtree_def stackJoins_simps)
  have "handledIds (?e # pre) nb = insert i (handledIds pre nb)" by (auto simp: handledIds_def)
  then have "covers E G v p (insert (w, i) seen) N (handledIds (?e # pre) nb)"
    using assms(1,2) covers_mono [of E G v p seen N "handledIds pre nb" "insert i (handledIds pre nb)"]
    by (intro covers_insert) (auto simp: subtree_def)
  moreover have "openEdges E G p N (?e # pre)" using assms w by (simp add: subtree_def openEdges_def)
  ultimately show ?thesis using assms(1) walks same by (simp add: subtree_def)
qed

lemma covers_child:
  assumes "covers E G v p seen N ids" and "covers E (insert v G) w (Some i) seen' N' ids'"
    and all: "\<And>j y. E j w y \<Longrightarrow> (y, j) \<in> seen'"
    and "v \<in> N" "w \<in> N'" "i \<in> ids''" "ids \<subseteq> ids''" "ids' \<subseteq> ids''"
  shows "covers E G v p (insert (w, i) seen) (N \<union> N') ids''"
proof -
  note up = coversD [OF assms(1)] and down = coversD [OF assms(2)]
  show ?thesis
  proof (rule coversI)
    fix x j y assume x: "x \<in> N \<union> N'" "x \<noteq> v" and E: "E j x y"
    consider "x \<in> N" | "x \<in> N'" "x \<noteq> w" | "x = w" using x by blast
    then show "y \<in> N \<union> N' \<union> G \<and> (x \<noteq> y \<longrightarrow> j \<in> ids'')"
    proof cases
      case 1
      then show ?thesis using up(1,2) [OF _ x(2) E] assms(7) by auto
    next
      case 2
      then show ?thesis using down(1,2) [OF _ _ E] assms(4,8) by auto
    next
      case 3
      then have "(y, j) \<in> seen'" using all E by simp
      then show ?thesis using down(3,4) [of y j] 3 assms(4,6,8) by auto
    qed
  next
    fix y j assume "(y, j) \<in> insert (w, i) seen"
    then show "y \<in> N \<union> N' \<union> G \<and> (y \<noteq> v \<longrightarrow> p \<noteq> Some j \<longrightarrow> j \<in> ids'')"
      using up(3,4) [of y j] assms(5-7) by auto
  qed
qed

lemma openEdges_joins:
  assumes "openEdges E G p N pre" and "stackJoins pre x y"
  shows "x \<in> N \<union> G" and "x \<in> N \<or> y \<in> N" and "x \<noteq> y"
  using assms by (auto simp: openEdges_def stackJoins_def)

lemma openEdges_touched: "openEdges E G p N pre \<Longrightarrow> touched (stackJoins pre) \<subseteq> N \<union> G"
  using openEdges_joins(1) by (fastforce simp: touched_def)

lemma handledIds_simps:
  "handledIds (pre @ pre') nb = handledIds pre nb \<union> ce_id ` set pre'"
  "handledIds (e # pre) nb = insert (ce_id e) (handledIds pre nb)"
  "handledIds pre (nb @ nb') = handledIds pre nb \<union> handledIds [] nb'"
  "handledIds [] [b] = set (cb_edgeIds b)"
  "handledIds pre nb = ce_id ` set pre \<union> handledIds [] nb"
  by (auto simp: handledIds_def)

context link_graph
begin

lemma openEdges_child:
  assumes "openEdges E (insert v G) (Some i) N' pre'" and "N' \<inter> insert v G = {}"
    and parent: "\<And>j. p = Some j \<Longrightarrow> \<exists>g \<in> G. E j g v" and "v \<in> N"
  shows "openEdges E G p (N \<union> N') pre'"
  unfolding openEdges_def
proof (intro ballI conjI)
  fix e assume e: "e \<in> set pre'"
  then show "E (ce_id e) (ce_a e) (ce_b e)" "ce_a e \<in> N \<union> N'" "ce_b e \<in> N \<union> N' \<union> G" "ce_a e \<noteq> ce_b e"
    using assms(1,4) by (auto simp: openEdges_def)
  show "p \<noteq> Some (ce_id e)"
  proof
    assume "p = Some (ce_id e)"
    then obtain g where "g \<in> G" "E (ce_id e) g v" using parent by blast
    moreover have "E (ce_id e) (ce_a e) (ce_b e)" "ce_a e \<in> N'" using assms(1) e by (auto simp: openEdges_def)
    ultimately show False using E_ends [of "ce_id e" g v "ce_a e" "ce_b e"] assms(2) by blast
  qed
qed

lemma subtree_keep:
  assumes up: "subtree E G v p seen N pre nb" and down: "subtree E (insert v G) w (Some i) seen' N' pre' nb'"
    and all: "\<And>j y. E j w y \<Longrightarrow> (y, j) \<in> seen'"
    and apart: "N \<inter> N' = {}" and "E i v w" and "p \<noteq> Some i"
    and parent: "\<And>j. p = Some j \<Longrightarrow> \<exists>g \<in> G. E j g v"
    and above: "e0 \<in> set pre'" "ce_b e0 \<in> G"
  shows "subtree E G v p (insert (w, i) seen) (N \<union> N') (pre' @ \<lparr>ce_id = i, ce_a = v, ce_b = w\<rparr> # pre) (nb @ nb')"
proof -
  let ?e = "\<lparr>ce_id = i, ce_a = v, ce_b = w\<rparr>"
  let ?pre = "pre' @ ?e # pre" and ?N = "N \<union> N'"
  let ?up = "openVertices v N pre" and ?down = "openVertices w N' pre'"
  have in_sets: "v \<in> N" "w \<in> N'" "N \<inter> G = {}" "N' \<inter> insert v G = {}" "v \<noteq> w"
    using up down apart by (auto simp: subtree_def)
  have edges: "openEdges E G p N pre" "openEdges E (insert v G) (Some i) N' pre'"
    using up down by (simp_all add: subtree_def)
  note touched_up = openEdges_touched [OF edges(1)] and touched_down = openEdges_touched [OF edges(2)]
  have joins: "stackJoins ?pre x y \<longleftrightarrow> stackJoins pre' x y \<or> x = v \<and> y = w \<or> x = w \<and> y = v \<or> stackJoins pre x y" for x y
    by (auto simp: stackJoins_simps)
  have opens: "openVertices v ?N ?pre = ?up \<union> ?down"
  proof -
    have "touched (stackJoins ?pre) = touched (stackJoins pre') \<union> {v, w} \<union> touched (stackJoins pre)"
      by (auto simp: touched_def joins)
    moreover have "insert v ((N \<union> N') \<inter> (down \<union> {v, w} \<union> up)) = insert v (N \<inter> up) \<union> insert w (N' \<inter> down)"
      if "up \<subseteq> N \<union> G" "down \<subseteq> N' \<union> insert v G" for up down
    proof (rule set_eqI)
      fix x
      have "x \<in> up \<Longrightarrow> x \<in> N \<or> x \<in> G" "x \<in> down \<Longrightarrow> x \<in> N' \<or> x = v \<or> x \<in> G" "x \<in> N' \<Longrightarrow> x \<notin> N \<and> x \<notin> G \<and> x \<noteq> v"
        "x \<in> N \<Longrightarrow> x \<notin> G" "x = w \<Longrightarrow> x \<in> N'" "x = v \<Longrightarrow> x \<in> N"
        using that in_sets apart by auto
      then show "x \<in> insert v ((N \<union> N') \<inter> (down \<union> {v, w} \<union> up)) \<longleftrightarrow> x \<in> insert v (N \<inter> up) \<union> insert w (N' \<inter> down)"
        by auto
    qed
    ultimately show ?thesis using touched_up touched_down by (simp only: openVertices_def)
  qed
  have up_sub: "?up \<subseteq> N" and down_sub: "?down \<subseteq> N'" using in_sets by (auto simp: openVertices_def)
  have walks_up: "openWalks v N pre" and walks_down: "openWalks w N' pre'" using up down by (simp_all add: subtree_def)
  have lift_up: "(avoiding c (stackJoins ?pre))\<^sup>*\<^sup>* x z" if "(avoiding c (stackJoins pre))\<^sup>*\<^sup>* x z" for c x z
    using that by (rule walk_mono) (auto simp: joins)
  have lift_down: "(avoiding c (stackJoins ?pre))\<^sup>*\<^sup>* x z" if "(avoiding c (stackJoins pre'))\<^sup>*\<^sup>* x z" for c x z
    using that by (rule walk_mono) (auto simp: joins)
  have inner_up: "(avoiding c (stackJoins ?pre))\<^sup>*\<^sup>* x v" if "x \<in> ?up" "c \<notin> N" for c x
    using openWalksD(1) [OF walks_up that(1)] by (rule walk_mono) (use that(2) in \<open>auto simp: inner_def joins\<close>)
  have inner_down: "(avoiding c (stackJoins ?pre))\<^sup>*\<^sup>* x w" "(avoiding c (stackJoins ?pre))\<^sup>*\<^sup>* w x"
    if "x \<in> ?down" "c \<notin> N'" for c x
  proof -
    have walk: "(inner N' pre')\<^sup>*\<^sup>* x w" by (rule openWalksD(1) [OF walks_down that(1)])
    then show "(avoiding c (stackJoins ?pre))\<^sup>*\<^sup>* x w"
      by (rule walk_mono) (use that(2) in \<open>auto simp: inner_def joins\<close>)
    have "symp (inner N' pre')" using stackJoins_sym by (auto simp: inner_def intro!: sympI)
    then have "(inner N' pre')\<^sup>*\<^sup>* w x" using walk symp_rtranclp sympD by metis
    then show "(avoiding c (stackJoins ?pre))\<^sup>*\<^sup>* w x"
      by (rule walk_mono) (use that(2) in \<open>auto simp: inner_def joins\<close>)
  qed
  have bridge: "(avoiding c (stackJoins ?pre))\<^sup>*\<^sup>* w v" if "c \<noteq> v" "c \<noteq> w" for c
    using that by (intro r_into_rtranclp) (auto simp: joins)
  have "openWalks v ?N ?pre"
    unfolding openWalks_def opens
  proof (intro conjI ballI)
    fix x assume x: "x \<in> ?up \<union> ?down"
    have "(inner ?N ?pre)\<^sup>*\<^sup>* x w" if "x \<in> ?down"
      using openWalksD(1) [OF walks_down that] by (rule walk_mono) (auto simp: inner_def joins)
    moreover have "inner ?N ?pre w v" using in_sets by (simp add: inner_def joins)
    moreover have "(inner ?N ?pre)\<^sup>*\<^sup>* x v" if "x \<in> ?up"
      using openWalksD(1) [OF walks_up that] by (rule walk_mono) (auto simp: inner_def joins)
    ultimately show "(inner ?N ?pre)\<^sup>*\<^sup>* x v" using x by (meson UnE rtranclp.rtrancl_into_rtrancl)
  next
    fix c x assume c: "c \<in> ?up \<union> ?down" and x: "x \<in> ?up \<union> ?down - {c}"
    let ?goal = "\<exists>z. (avoiding c (stackJoins ?pre))\<^sup>*\<^sup>* x z \<and> z \<noteq> c \<and> (z = v \<or> z \<notin> ?N)"
    consider (uu) "c \<in> ?up" "x \<in> ?up" | (ud) "c \<in> ?up" "x \<in> ?down" | (du) "c \<in> ?down" "x \<in> ?up"
      | (dd) "c \<in> ?down" "x \<in> ?down" using c x by blast
    then show ?goal
    proof cases
      case uu
      then obtain z where z: "(avoiding c (stackJoins pre))\<^sup>*\<^sup>* x z" "z \<noteq> c" "z = v \<or> z \<notin> N"
        using openWalksD(2) [OF walks_up] x by blast
      have "z = x \<or> z \<in> touched (stackJoins pre)" by (rule walk_touched [OF z(1)])
      then have "z = v \<or> z \<notin> ?N" using z(3) uu(2) up_sub touched_up in_sets(4) by blast
      then show ?thesis using lift_up [OF z(1)] z(2) by blast
    next
      case ud
      then have "c \<notin> N'" "c \<noteq> w" using up_sub apart in_sets by blast+
      show ?thesis
      proof (cases "c = v")
        case False
        have "(avoiding c (stackJoins ?pre))\<^sup>*\<^sup>* x v"
          by (rule rtranclp_trans [OF inner_down(1) [OF ud(2) \<open>c \<notin> N'\<close>] bridge [OF False \<open>c \<noteq> w\<close>]])
        then show ?thesis using False by blast
      next
        case True
        have e0: "E (ce_id e0) (ce_a e0) (ce_b e0)" "ce_a e0 \<in> N'" using edges(2) above(1) by (auto simp: openEdges_def)
        then have "stackJoins pre' (ce_a e0) (ce_b e0)" using above(1) by (auto simp: stackJoins_def)
        moreover have "ce_b e0 \<noteq> v" "ce_a e0 \<noteq> v" using above(2) in_sets e0(2) by auto
        ultimately have step: "avoiding c (stackJoins ?pre) (ce_a e0) (ce_b e0)" using True joins by blast
        have "ce_a e0 \<in> ?down" using e0(2) \<open>stackJoins pre' _ _\<close> by (auto simp: openVertices_def touched_def)
        then have "(avoiding c (stackJoins ?pre))\<^sup>*\<^sup>* w (ce_a e0)" using \<open>c \<notin> N'\<close> by (rule inner_down(2))
        from rtranclp_trans [OF inner_down(1) [OF ud(2) \<open>c \<notin> N'\<close>] this]
        have "(avoiding c (stackJoins ?pre))\<^sup>*\<^sup>* x (ce_b e0)" using step by (rule rtranclp.rtrancl_into_rtrancl)
        moreover have "ce_b e0 \<notin> ?N" using above(2) in_sets by blast
        ultimately show ?thesis using \<open>ce_b e0 \<noteq> v\<close> True by blast
      qed
    next
      case du
      then have "c \<notin> N" "v \<noteq> c" using down_sub apart in_sets by blast+
      then show ?thesis using inner_up [OF du(2)] by blast
    next
      case dd
      then obtain z where z: "(avoiding c (stackJoins pre'))\<^sup>*\<^sup>* x z" "z \<noteq> c" "z = w \<or> z \<notin> N'"
        using openWalksD(2) [OF walks_down] x by blast
      have "v \<noteq> c" using dd(1) down_sub apart in_sets by blast
      show ?thesis
      proof (cases "z = w")
        case True
        then have "(avoiding c (stackJoins ?pre))\<^sup>*\<^sup>* x v"
          using rtranclp_trans [OF lift_down [OF z(1)]] bridge [of c] z(2) \<open>v \<noteq> c\<close> by blast
        then show ?thesis using \<open>v \<noteq> c\<close> by blast
      next
        case False
        then have "z \<notin> N'" "z \<noteq> x" using z(3) dd(2) down_sub by auto
        then have "z \<in> touched (stackJoins pre')" using walk_touched [OF z(1)] by simp
        then have "z \<in> insert v G" using touched_down \<open>z \<notin> N'\<close> by blast
        then have "z = v \<or> z \<notin> ?N" using in_sets by blast
        then show ?thesis using lift_down [OF z(1)] z(2) by blast
      qed
    qed
  qed
  moreover have "covers E G v p (insert (w, i) seen) ?N (handledIds ?pre (nb @ nb'))"
    using up down by (intro covers_child [OF _ _ all]) (auto simp: subtree_def handledIds_def)
  moreover have "openEdges E G p ?N ?pre"
    using openEdges_child [OF edges(2) in_sets(4) parent in_sets(1)] edges(1) in_sets assms(5,6)
    by (auto simp: openEdges_def)
  moreover have "hangs vertexSet (openVertices v ?N ?pre) (nb @ nb')"
  proof -
    have blocks: "\<And>b. b \<in> set nb \<Longrightarrow> vertexSet b \<subseteq> N" "\<And>b. b \<in> set nb' \<Longrightarrow> vertexSet b \<subseteq> N'"
      using up down by (auto simp: subtree_def)
    have "hangs vertexSet (openVertices v ?N ?pre \<union> \<Union> (vertexSet ` set nb')) nb \<longleftrightarrow> hangs vertexSet ?up nb"
    proof (rule hangs_cong)
      fix b assume "b \<in> set nb"
      then have "vertexSet b \<inter> N' = {}" using blocks(1) apart by blast
      moreover have "\<Union> (vertexSet ` set nb') \<subseteq> N'" using blocks(2) by blast
      ultimately show "vertexSet b \<inter> (openVertices v ?N ?pre \<union> \<Union> (vertexSet ` set nb')) = vertexSet b \<inter> ?up"
        unfolding opens using down_sub by blast
    qed
    moreover have "hangs vertexSet (openVertices v ?N ?pre) nb' \<longleftrightarrow> hangs vertexSet ?down nb'"
    proof (rule hangs_cong)
      fix b assume "b \<in> set nb'"
      then have "vertexSet b \<inter> N = {}" using blocks(2) apart by blast
      then show "vertexSet b \<inter> openVertices v ?N ?pre = vertexSet b \<inter> ?down"
        unfolding opens using up_sub by blast
    qed
    ultimately show ?thesis using up down unfolding hangs_append by (simp add: subtree_def)
  qed
  moreover have "\<forall>b \<in> set (nb @ nb'). goodBlock E b \<and> vertexSet b \<subseteq> ?N" using up down by (auto simp: subtree_def)
  ultimately show ?thesis using in_sets unfolding subtree_def by blast
qed

lemma openEdges_blockJoins:
  assumes "openEdges E G p N pre" and "E i v w" and "set (cb_edgeIds b) = insert i (ce_id ` set pre)"
  shows "blockJoins E b x y \<longleftrightarrow> stackJoins (\<lparr>ce_id = i, ce_a = v, ce_b = w\<rparr> # pre) x y"
proof -
  have edge: "E (ce_id e) x y \<longleftrightarrow> ce_a e = x \<and> ce_b e = y \<or> ce_a e = y \<and> ce_b e = x" if "E (ce_id e) (ce_a e) (ce_b e)" for e
    using that E_sym [OF that] E_ends [OF that, of x y] by auto
  have "blockJoins E b x y \<longleftrightarrow> E i x y \<or> (\<exists>e \<in> set pre. E (ce_id e) x y)"
    using assms(3) by (auto simp: blockJoins_def)
  also have "\<dots> \<longleftrightarrow> stackJoins (\<lparr>ce_id = i, ce_a = v, ce_b = w\<rparr> # pre) x y"
    using edge [of "\<lparr>ce_id = i, ce_a = v, ce_b = w\<rparr>"] edge assms(1,2) by (auto simp: stackJoins_def openEdges_def)
  finally show ?thesis .
qed

text \<open>The edges of a child from which nothing leads above the parent make a block with the child's link.\<close>

lemma closed_solid:
  assumes edges: "openEdges E (insert v G) (Some i) N pre" and walks: "openWalks w N pre"
    and "w \<in> N" and "N \<inter> insert v G = {}" and below: "\<And>e. e \<in> set pre \<Longrightarrow> ce_b e \<notin> G"
    and J: "\<And>x y. J x y \<longleftrightarrow> stackJoins (\<lparr>ce_id = i, ce_a = v, ce_b = w\<rparr> # pre) x y"
  shows "solid J" and "touched J = insert v (openVertices w N pre)"
proof -
  let ?down = "openVertices w N pre"
  have vw: "v \<noteq> w" "v \<notin> N" using assms(3,4) by auto
  have J': "J x y \<longleftrightarrow> x = v \<and> y = w \<or> x = w \<and> y = v \<or> stackJoins pre x y" for x y
    by (auto simp: J stackJoins_simps)
  have ends: "x \<in> insert v N" if "stackJoins pre x y" for x y
    using that edges below by (auto simp: stackJoins_def openEdges_def)
  then have "touched (stackJoins pre) \<subseteq> insert v N" by (auto simp: touched_def)
  moreover have "touched J = {v, w} \<union> touched (stackJoins pre)" by (auto simp: touched_def J')
  ultimately show touched: "touched J = insert v ?down" using assms(3) by (auto simp: openVertices_def)
  have symp: "symp J" using stackJoins_sym by (auto simp: J' intro!: sympI)
  have irrefl: "x \<noteq> y" if "J x y" for x y using that vw openEdges_joins(3) [OF edges] by (auto simp: J')
  have inner: "x \<in> ?down" "y \<in> ?down" "J x y" if "inner N pre x y" for x y
    using that stackJoins_sym [of pre x y] by (auto simp: inner_def openVertices_def touched_def J')
  have via: "(avoiding c J)\<^sup>*\<^sup>* x w" if "x \<in> ?down" "c \<notin> ?down" for c x
    using openWalksD(1) [OF walks that(1)] by (rule walk_mono) (use that(2) inner in blast)
  have step: "(avoiding c J)\<^sup>*\<^sup>* w v" if "c \<noteq> v" "c \<noteq> w" for c
    using that by (intro r_into_rtranclp) (auto simp: J')
  have sub: "?down \<subseteq> N" using assms(3) by (auto simp: openVertices_def)
  have reverse: "R\<^sup>*\<^sup>* y x" if "symp R" "R\<^sup>*\<^sup>* x y" for R :: "string \<Rightarrow> string \<Rightarrow> bool" and x y
    using that symp_rtranclp sympD by metis
  have avoid_symp: "symp (avoiding c J)" for c using sympD [OF symp] by (auto intro!: sympI)
  \<comment> \<open>every vertex that is left reaches one chosen vertex\<close>
  have centre: "\<exists>z. \<forall>x \<in> touched J - {c}. (avoiding c J)\<^sup>*\<^sup>* x z" for c
  proof (cases "c \<in> ?down")
    case False
    have "(avoiding c J)\<^sup>*\<^sup>* x w" if "x \<in> touched J - {c}" for x
    proof (cases "x = v")
      case True
      have "c \<noteq> w" using False by (auto simp: openVertices_def)
      then show ?thesis using True that step [of c] reverse [OF avoid_symp] by blast
    next
      case x: False
      then have "x \<in> ?down" using that touched by blast
      then show ?thesis using False by (rule via)
    qed
    then show ?thesis by blast
  next
    case True
    then have "c \<noteq> v" using sub vw by blast
    have "(avoiding c J)\<^sup>*\<^sup>* x v" if x: "x \<in> touched J - {c}" for x
    proof (cases "x = v")
      case False
      then have "x \<in> ?down" using x touched by blast
      then obtain z where z: "(avoiding c (stackJoins pre))\<^sup>*\<^sup>* x z" "z \<noteq> c" "z = w \<or> z \<notin> N"
        using openWalksD(2) [OF walks _ True] x by blast
      then have walk: "(avoiding c J)\<^sup>*\<^sup>* x z" by (elim walk_mono) (auto simp: J')
      have "z = w \<or> z = v"
        using walk_touched [OF z(1)] z(3) \<open>x \<in> ?down\<close> sub \<open>touched (stackJoins pre) \<subseteq> insert v N\<close> by blast
      then show ?thesis
      proof
        assume "z = w"
        then show ?thesis using rtranclp_trans [OF walk] step [OF \<open>c \<noteq> v\<close>] z(2) by simp
      qed (use walk in simp)
    qed simp
    then show ?thesis by blast
  qed
  have "robust J"
    unfolding robust_def
  proof (intro allI ballI)
    fix c u x assume u: "u \<in> touched J - {c}" and x: "x \<in> touched J - {c}"
    obtain z where z: "\<And>y. y \<in> touched J - {c} \<Longrightarrow> (avoiding c J)\<^sup>*\<^sup>* y z" using centre [of c] by blast
    show "(avoiding c J)\<^sup>*\<^sup>* u x" by (rule rtranclp_trans [OF z [OF u] reverse [OF avoid_symp z [OF x]]])
  qed
  moreover have "J\<^sup>*\<^sup>* u x" if "u \<in> touched J" "x \<in> touched J" for u x
  proof -
    have "J\<^sup>*\<^sup>* x w" if "x \<in> touched J" for x
    proof (cases "x = v")
      case True
      then show ?thesis by (intro r_into_rtranclp) (simp add: J')
    next
      case False
      then have "x \<in> ?down" using that touched by blast
      from openWalksD(1) [OF walks this] show ?thesis by (rule walk_mono) (rule inner(3))
    qed
    then show ?thesis using that reverse [OF symp] by (meson rtranclp_trans)
  qed
  ultimately show "solid J" using symp irrefl by (simp add: solid_def)
qed

lemma subtree_pop:
  assumes up: "subtree E G v p seen N pre nb" and down: "subtree E (insert v G) w (Some i) seen' N' pre' nb'"
    and all: "\<And>j y. E j w y \<Longrightarrow> (y, j) \<in> seen'"
    and apart: "N \<inter> N' = {}" and "E i v w"
    and below: "\<And>e. e \<in> set pre' \<Longrightarrow> ce_b e \<notin> G"
    and ids: "set (cb_edgeIds b) = insert i (ce_id ` set pre')"
    and vertices: "vertexSet b = {v, w} \<union> ce_a ` set pre' \<union> ce_b ` set pre'" "distinct (cb_vertices b)"
  shows "subtree E G v p (insert (w, i) seen) (N \<union> N') pre (nb @ nb' @ [b])"
proof -
  let ?N = "N \<union> N'" and ?up = "openVertices v N pre" and ?down = "openVertices w N' pre'"
  have in_sets: "v \<in> N" "w \<in> N'" "N \<inter> G = {}" "N' \<inter> insert v G = {}" "v \<noteq> w"
    using up down apart by (auto simp: subtree_def)
  have edges: "openEdges E G p N pre" "openEdges E (insert v G) (Some i) N' pre'"
    using up down by (simp_all add: subtree_def)
  have walks_up: "openWalks v N pre" and walks_down: "openWalks w N' pre'" using up down by (simp_all add: subtree_def)
  have J: "blockJoins E b x y \<longleftrightarrow> stackJoins (\<lparr>ce_id = i, ce_a = v, ce_b = w\<rparr> # pre') x y" for x y
    by (rule openEdges_blockJoins [OF edges(2) assms(5) ids])
  note solid = closed_solid [OF edges(2) walks_down in_sets(2,4) below J]
  have "touched (blockJoins E b) = vertexSet b"
    unfolding vertices(1) by (auto simp: touched_def J stackJoins_def)
  then have b: "vertexSet b = insert v ?down" using solid(2) by simp
  have "\<exists>x y. E j x y" if "j \<in> set (cb_edgeIds b)" for j
    using that edges(2) assms(5) by (auto simp: ids openEdges_def)
  then have good: "goodBlock E b"
    using solid(1) \<open>touched (blockJoins E b) = vertexSet b\<close> vertices(2) by (simp add: goodBlock_def)
  have up_sub: "?up \<subseteq> N" and down_sub: "?down \<subseteq> N'" using in_sets by (auto simp: openVertices_def)
  have touched_up: "touched (stackJoins pre) \<subseteq> N \<union> G" by (rule openEdges_touched [OF edges(1)])
  have opens: "openVertices v ?N pre = ?up"
    using touched_up in_sets(4) by (auto simp: openVertices_def)
  have "openWalks v ?N pre"
    unfolding openWalks_def opens
  proof (intro conjI ballI)
    fix x assume "x \<in> ?up"
    from openWalksD(1) [OF walks_up this] show "(inner ?N pre)\<^sup>*\<^sup>* x v" by (rule walk_mono) (auto simp: inner_def)
  next
    fix c x assume "c \<in> ?up" and x: "x \<in> ?up - {c}"
    then obtain z where z: "(avoiding c (stackJoins pre))\<^sup>*\<^sup>* x z" "z \<noteq> c" "z = v \<or> z \<notin> N"
      using openWalksD(2) [OF walks_up] by blast
    have "z = x \<or> z \<in> touched (stackJoins pre)" by (rule walk_touched [OF z(1)])
    then have "z = v \<or> z \<notin> ?N" using z(3) x up_sub touched_up in_sets(4) by blast
    then show "\<exists>z. (avoiding c (stackJoins pre))\<^sup>*\<^sup>* x z \<and> z \<noteq> c \<and> (z = v \<or> z \<notin> ?N)" using z by blast
  qed
  moreover have "covers E G v p (insert (w, i) seen) ?N (handledIds pre (nb @ nb' @ [b]))"
    using up down ids by (intro covers_child [OF _ _ all]) (auto simp: subtree_def handledIds_def)
  moreover have "openEdges E G p ?N pre" using edges(1) by (auto simp: openEdges_def)
  moreover have "hangs vertexSet (openVertices v ?N pre) (nb @ nb' @ [b])"
  proof -
    have blocks: "\<And>c. c \<in> set nb \<Longrightarrow> vertexSet c \<subseteq> N" "\<And>c. c \<in> set nb' \<Longrightarrow> vertexSet c \<subseteq> N'"
      using up down by (auto simp: subtree_def)
    have "hangs vertexSet (?up \<union> \<Union> (vertexSet ` set (nb' @ [b]))) nb \<longleftrightarrow> hangs vertexSet ?up nb"
    proof (rule hangs_cong)
      fix c assume "c \<in> set nb"
      then have "vertexSet c \<inter> N' = {}" using blocks(1) apart by blast
      moreover have "\<Union> (vertexSet ` set (nb' @ [b])) \<subseteq> insert v N'" using blocks(2) b down_sub by auto
      moreover have "v \<in> ?up" by (simp add: openVertices_def)
      ultimately show "vertexSet c \<inter> (?up \<union> \<Union> (vertexSet ` set (nb' @ [b]))) = vertexSet c \<inter> ?up" by blast
    qed
    moreover have "hangs vertexSet (?up \<union> \<Union> (vertexSet ` set [b])) nb' \<longleftrightarrow> hangs vertexSet ?down nb'"
    proof (rule hangs_cong)
      fix c assume "c \<in> set nb'"
      then have "vertexSet c \<inter> N = {}" using blocks(2) apart by blast
      then have "vertexSet c \<inter> ?up = {}" "v \<notin> vertexSet c" using up_sub in_sets(1) by blast+
      then show "vertexSet c \<inter> (?up \<union> \<Union> (vertexSet ` set [b])) = vertexSet c \<inter> ?down" using b by auto
    qed
    moreover have "hangs vertexSet ?up [b]"
    proof -
      have "vertexSet b \<inter> ?up = {v}" using b down_sub up_sub apart by (auto simp: openVertices_def)
      then show ?thesis by simp
    qed
    ultimately show ?thesis using up down unfolding opens hangs_append by (simp add: subtree_def)
  qed
  moreover have "\<forall>c \<in> set (nb @ nb' @ [b]). goodBlock E c \<and> vertexSet c \<subseteq> ?N"
    using up down good b down_sub in_sets(1) by (auto simp: subtree_def)
  ultimately show ?thesis using in_sets unfolding subtree_def by blast
qed

end

subsection \<open>The state of the search\<close>

definition found :: "blockSearch \<Rightarrow> string set" where
  "found s = set (map fst (bs_disc s))"

abbreviation disc_at :: "blockSearch \<Rightarrow> string \<Rightarrow> nat" where
  "disc_at s x \<equiv> number_at (bs_disc s) x"

abbreviation low_at :: "blockSearch \<Rightarrow> string \<Rightarrow> nat" where
  "low_at s x \<equiv> number_at (bs_low s) x"

definition lowestAbove :: "blockSearch \<Rightarrow> string \<Rightarrow> string set \<Rightarrow> connectionEdge list \<Rightarrow> bool" where
  \<comment> \<open>\<open>low\<close> of \<open>v\<close> is its own number or the least an open edge leads up to\<close>
  "lowestAbove s v N pre \<longleftrightarrow>
     low_at s v \<le> disc_at s v \<and>
     (\<forall>e \<in> set pre. ce_b e \<notin> N \<longrightarrow> low_at s v \<le> disc_at s (ce_b e)) \<and>
     (low_at s v = disc_at s v \<or> (\<exists>e \<in> set pre. ce_b e \<notin> N \<and> low_at s v = disc_at s (ce_b e)))"

definition searched ::
    "blockSearch \<Rightarrow> string \<Rightarrow> blockSearch \<Rightarrow> string set \<Rightarrow> connectionEdge list \<Rightarrow> connectionBlock list \<Rightarrow> bool" where
  \<comment> \<open>what the search below \<open>v\<close> has done to the state it was entered with\<close>
  "searched s0 v s N pre nb \<longleftrightarrow>
     found s = found s0 \<union> N \<and> N \<inter> found s0 = {} \<and> v \<in> N \<and>
     bs_edgeStack s = pre @ bs_edgeStack s0 \<and> bs_blocks s = bs_blocks s0 @ nb \<and>
     (\<forall>x \<in> found s0. disc_at s x = disc_at s0 x \<and> low_at s x = low_at s0 x) \<and>
     (\<forall>x \<in> N. disc_at s x < bs_counter s) \<and> disc_at s v = bs_counter s0 \<and> bs_counter s0 < bs_counter s \<and>
     (\<forall>x \<in> N - {v}. bs_counter s0 < disc_at s x) \<and> lowestAbove s v N pre"

lemma number_at_set [simp]: "number_at (map_set k n m) x = (if x = k then n else number_at m x)"
  by (simp add: number_at_def update_conv')

lemma search_simps [simp]:
  "bs_disc (pushEdge i v w s) = bs_disc s" "bs_low (pushEdge i v w s) = bs_low s"
  "bs_edgeStack (pushEdge i v w s) = \<lparr>ce_id = i, ce_a = v, ce_b = w\<rparr> # bs_edgeStack s"
  "bs_blocks (pushEdge i v w s) = bs_blocks s" "bs_counter (pushEdge i v w s) = bs_counter s"
  "bs_disc (lowerLow v n s) = bs_disc s" "bs_low (lowerLow v n s) = map_set v (min (low_at s v) n) (bs_low s)"
  "bs_edgeStack (lowerLow v n s) = bs_edgeStack s" "bs_blocks (lowerLow v n s) = bs_blocks s"
  "bs_counter (lowerLow v n s) = bs_counter s"
  by (simp_all add: pushEdge_def lowerLow_def)

lemma found_simps [simp]:
  "found (pushEdge i v w s) = found s" "found (lowerLow v n s) = found s"
  by (simp_all add: found_def)

lemma popEdges_through:
  assumes "\<And>e. e \<in> set xs \<Longrightarrow> ce_id e \<noteq> i" and "ce_id e = i"
  shows "\<exists>b. popEdges i (xs @ e # st) block = (b, st) \<and>
     set (cb_edgeIds b) = set (cb_edgeIds block) \<union> insert i (ce_id ` set xs) \<and>
     vertexSet b = vertexSet block \<union> {ce_a e, ce_b e} \<union> ce_a ` set xs \<union> ce_b ` set xs \<and>
     (distinct (cb_vertices block) \<longrightarrow> distinct (cb_vertices b))"
  using assms
proof (induction xs arbitrary: block)
  case (Cons x xs)
  let ?block = "\<lparr>cb_edgeIds = cb_edgeIds block @ [ce_id x],
                 cb_vertices = set_add (ce_b x) (set_add (ce_a x) (cb_vertices block))\<rparr>"
  obtain b where "popEdges i (xs @ e # st) ?block = (b, st)"
    "set (cb_edgeIds b) = set (cb_edgeIds ?block) \<union> insert i (ce_id ` set xs)"
    "vertexSet b = vertexSet ?block \<union> {ce_a e, ce_b e} \<union> ce_a ` set xs \<union> ce_b ` set xs"
    "distinct (cb_vertices ?block) \<longrightarrow> distinct (cb_vertices b)"
    using Cons.IH [of ?block] Cons.prems by auto
  then show ?case using Cons.prems by (intro exI [of _ b]) auto
qed auto

lemma searched_start: "v \<notin> found s \<Longrightarrow> searched s v (discover v s) {v} [] []"
  by (auto simp: searched_def lowestAbove_def discover_def found_def dom_update)

lemma searched_back:
  assumes "searched s0 v s N pre nb" and "w \<in> found s0"
  shows "searched s0 v (lowerLow v (disc_at s w) (pushEdge i v w s)) N (\<lparr>ce_id = i, ce_a = v, ce_b = w\<rparr> # pre) nb"
proof -
  have w: "w \<notin> N" "v \<in> N" "v \<notin> found s0" using assms by (auto simp: searched_def)
  have "lowestAbove s v N pre" using assms(1) by (simp add: searched_def)
  then have "lowestAbove (lowerLow v (disc_at s w) (pushEdge i v w s)) v N (\<lparr>ce_id = i, ce_a = v, ce_b = w\<rparr> # pre)"
    using w(1) unfolding lowestAbove_def by (auto simp: min_def)
  then show ?thesis using assms(1) w by (auto simp: searched_def)
qed

text \<open>A child has been searched: either nothing below it leads above \<open>v\<close>, or something does.\<close>

lemma child_state:
  assumes up: "searched s0 v s N pre nb" and down: "searched (pushEdge i v w s) w s' N' pre' nb'"
  shows "found s' = found s0 \<union> (N \<union> N')" and "(N \<union> N') \<inter> found s0 = {}" and "N \<inter> N' = {}"
    and "\<And>x. x \<in> found s \<Longrightarrow> disc_at s' x = disc_at s x \<and> low_at s' x = low_at s x"
    and "bs_edgeStack s' = pre' @ \<lparr>ce_id = i, ce_a = v, ce_b = w\<rparr> # pre @ bs_edgeStack s0"
    and "bs_blocks s' = bs_blocks s0 @ nb @ nb'"
    and "\<And>x. x \<in> N \<union> N' \<Longrightarrow> disc_at s' x < bs_counter s'" and "disc_at s' v = bs_counter s0"
    and "bs_counter s0 < bs_counter s'" and "\<And>x. x \<in> N \<union> N' - {v} \<Longrightarrow> bs_counter s0 < disc_at s' x"
    and "disc_at s' w = bs_counter s" and "v \<in> N" and "w \<in> N'" and "w \<noteq> v" and "disc_at s' v < disc_at s' w"
proof -
  have u: "found s = found s0 \<union> N" "N \<inter> found s0 = {}" "v \<in> N" "bs_edgeStack s = pre @ bs_edgeStack s0"
    "bs_blocks s = bs_blocks s0 @ nb" "\<And>x. x \<in> N \<Longrightarrow> disc_at s x < bs_counter s" "disc_at s v = bs_counter s0"
    "bs_counter s0 < bs_counter s" "\<And>x. x \<in> N \<Longrightarrow> x \<noteq> v \<Longrightarrow> bs_counter s0 < disc_at s x"
    using up by (auto simp: searched_def)
  have d: "found s' = found s \<union> N'" "N' \<inter> found s = {}" "w \<in> N'"
    "bs_edgeStack s' = pre' @ \<lparr>ce_id = i, ce_a = v, ce_b = w\<rparr> # bs_edgeStack s" "bs_blocks s' = bs_blocks s @ nb'"
    "\<And>x. x \<in> found s \<Longrightarrow> disc_at s' x = disc_at s x \<and> low_at s' x = low_at s x"
    "\<And>x. x \<in> N' \<Longrightarrow> disc_at s' x < bs_counter s'" "disc_at s' w = bs_counter s" "bs_counter s < bs_counter s'"
    "\<And>x. x \<in> N' \<Longrightarrow> x \<noteq> w \<Longrightarrow> bs_counter s < disc_at s' x"
    using down by (auto simp: searched_def)
  show "found s' = found s0 \<union> (N \<union> N')" "(N \<union> N') \<inter> found s0 = {}" "N \<inter> N' = {}" using u(1,2) d(1,2) by auto
  show "disc_at s' x = disc_at s x \<and> low_at s' x = low_at s x" if "x \<in> found s" for x using d(6) that by blast
  show "bs_edgeStack s' = pre' @ \<lparr>ce_id = i, ce_a = v, ce_b = w\<rparr> # pre @ bs_edgeStack s0"
    "bs_blocks s' = bs_blocks s0 @ nb @ nb'" using u(4,5) d(4,5) by simp_all
  have old: "disc_at s' x = disc_at s x" if "x \<in> N" for x using d(6) [of x] u(1) that by simp
  show "disc_at s' x < bs_counter s'" if "x \<in> N \<union> N'" for x
    using that old u(6) d(7,9) by (metis UnE less_trans)
  show "disc_at s' v = bs_counter s0" using old u(3,7) by simp
  show "bs_counter s0 < bs_counter s'" using u(8) d(9) by simp
  show "bs_counter s0 < disc_at s' x" if x: "x \<in> N \<union> N' - {v}" for x
  proof (cases "x \<in> N")
    case True
    then show ?thesis using old u(9) x by simp
  next
    case False
    then show ?thesis using x d(8,10) u(8) by (cases "x = w") fastforce+
  qed
  show "disc_at s' w = bs_counter s" "v \<in> N" "w \<in> N'" by fact+
  show "w \<noteq> v" using u(1,3) d(2,3) by blast
  show "disc_at s' v < disc_at s' w" using old [OF u(3)] u(6) [OF u(3)] d(8) by simp
qed

lemma searched_pop:
  assumes up: "searched s0 v s N pre nb" and down: "searched (pushEdge i v w s) w s' N' pre' nb'"
    and closed: "disc_at s' v \<le> low_at s' w"
    and pre_ends: "\<And>e. e \<in> set pre \<Longrightarrow> ce_b e \<in> N \<union> found s0" and fresh: "\<And>e. e \<in> set pre' \<Longrightarrow> ce_id e \<noteq> i"
  shows "\<exists>b. searched s0 v (leaveChild v w i s') (N \<union> N') pre (nb @ nb' @ [b]) \<and>
     set (cb_edgeIds b) = insert i (ce_id ` set pre') \<and>
     vertexSet b = {v, w} \<union> ce_a ` set pre' \<union> ce_b ` set pre' \<and> distinct (cb_vertices b)"
proof -
  note c = child_state [OF up down]
  let ?low = "lowerLow v (low_at s' w) s'"
  obtain b where b: "popEdges i (bs_edgeStack s') \<lparr>cb_edgeIds = [], cb_vertices = []\<rparr> = (b, pre @ bs_edgeStack s0)"
    "set (cb_edgeIds b) = insert i (ce_id ` set pre')" "vertexSet b = {v, w} \<union> ce_a ` set pre' \<union> ce_b ` set pre'"
    "distinct (cb_vertices b)"
    using popEdges_through [of pre' i "\<lparr>ce_id = i, ce_a = v, ce_b = w\<rparr>" "pre @ bs_edgeStack s0" "\<lparr>cb_edgeIds = [], cb_vertices = []\<rparr>"]
      fresh c(5) by auto
  have leave: "leaveChild v w i s' = ?low\<lparr>bs_edgeStack := pre @ bs_edgeStack s0, bs_blocks := bs_blocks s' @ [b]\<rparr>"
    using closed c(14) b(1) by (simp add: leaveChild_def popBlockThrough_def)
  have v: "v \<in> found s" using up by (auto simp: searched_def)
  have above: "lowestAbove s v N pre" using up by (simp add: searched_def)
  then have "low_at s v \<le> low_at s' w" using closed c(4) [OF v] by (simp add: lowestAbove_def)
  then have low: "low_at (leaveChild v w i s') v = low_at s v" using leave c(4) [OF v] by simp
  have ends: "ce_b e \<in> found s \<and> (ce_b e \<notin> N \<union> N' \<longleftrightarrow> ce_b e \<notin> N)" if "e \<in> set pre" for e
    using pre_ends [OF that] c(2) up by (auto simp: searched_def)
  have disc: "disc_at (leaveChild v w i s') x = disc_at s' x" for x using leave by simp
  have "lowestAbove (leaveChild v w i s') v (N \<union> N') pre"
    using above ends c(4) v unfolding lowestAbove_def low disc by metis
  then have "searched s0 v (leaveChild v w i s') (N \<union> N') pre (nb @ nb' @ [b])"
    using c v up unfolding searched_def leave by (auto simp: found_def)
  then show ?thesis using b(2-4) by blast
qed

lemma searched_keep:
  assumes up: "searched s0 v s N pre nb" and down: "searched (pushEdge i v w s) w s' N' pre' nb'"
    and "low_at s' w < disc_at s' v"
    and pre_ends: "\<And>e. e \<in> set pre \<Longrightarrow> ce_b e \<in> N \<union> found s0"
    and pre_ends': "\<And>e. e \<in> set pre' \<Longrightarrow> ce_b e \<in> N' \<union> insert v (found s0)"
  shows "searched s0 v (leaveChild v w i s') (N \<union> N') (pre' @ \<lparr>ce_id = i, ce_a = v, ce_b = w\<rparr> # pre) (nb @ nb')"
    and "\<exists>e \<in> set pre'. ce_b e \<in> found s0"
proof -
  note c = child_state [OF up down]
  have leave: "leaveChild v w i s' = lowerLow v (low_at s' w) s'"
    using assms(3) c(14) by (simp add: leaveChild_def)
  have v: "v \<in> found s" using up by (auto simp: searched_def)
  have above: "lowestAbove s v N pre" "lowestAbove s' w N' pre'" using up down by (simp_all add: searched_def)
  have "low_at s' w \<noteq> disc_at s' w" using assms(3) c(15) by simp
  then obtain e0 where e0: "e0 \<in> set pre'" "ce_b e0 \<notin> N'" "low_at s' w = disc_at s' (ce_b e0)"
    using above(2) by (auto simp: lowestAbove_def)
  then have "ce_b e0 \<noteq> v" using assms(3) by auto
  then have e0_up: "ce_b e0 \<in> found s0" using pre_ends' [OF e0(1)] e0(2) by auto
  then show "\<exists>e \<in> set pre'. ce_b e \<in> found s0" using e0(1) by blast
  have ends: "ce_b e \<in> found s \<and> (ce_b e \<notin> N \<union> N' \<longleftrightarrow> ce_b e \<notin> N)" if "e \<in> set pre" for e
    using pre_ends [OF that] c(2) up by (auto simp: searched_def)
  have low: "low_at (leaveChild v w i s') v = min (low_at s v) (low_at s' w)" using leave c(4) [OF v] by simp
  have disc: "disc_at (leaveChild v w i s') x = disc_at s' x" for x using leave by simp
  have "lowestAbove (leaveChild v w i s') v (N \<union> N') (pre' @ \<lparr>ce_id = i, ce_a = v, ce_b = w\<rparr> # pre)"
    unfolding lowestAbove_def low disc
  proof (intro conjI ballI impI)
    show "min (low_at s v) (low_at s' w) \<le> disc_at s' v" using assms(3) by simp
  next
    fix e assume e: "e \<in> set (pre' @ \<lparr>ce_id = i, ce_a = v, ce_b = w\<rparr> # pre)" "ce_b e \<notin> N \<union> N'"
    then consider "e \<in> set pre'" | "e \<in> set pre" using c(13) by auto
    then show "min (low_at s v) (low_at s' w) \<le> disc_at s' (ce_b e)"
    proof cases
      case 1
      then show ?thesis using above(2) e(2) by (auto simp: lowestAbove_def)
    next
      case 2
      then have "low_at s v \<le> disc_at s (ce_b e)" using above(1) e(2) by (simp add: lowestAbove_def)
      then show ?thesis using c(4) ends [OF 2] by simp
    qed
  next
    let ?pre = "pre' @ \<lparr>ce_id = i, ce_a = v, ce_b = w\<rparr> # pre"
    have "\<exists>e \<in> set ?pre. ce_b e \<notin> N \<union> N' \<and> min (low_at s v) (low_at s' w) = disc_at s' (ce_b e)"
    proof (cases "low_at s v \<le> low_at s' w")
      case True
      then have "low_at s v \<noteq> disc_at s v" using assms(3) c(4) [OF v] by simp
      then obtain e where e: "e \<in> set pre" "ce_b e \<notin> N" "low_at s v = disc_at s (ce_b e)"
        using above(1) by (auto simp: lowestAbove_def)
      then show ?thesis using True ends [OF e(1)] c(4) by (intro bexI [of _ e]) auto
    next
      case False
      then show ?thesis using e0 e0_up c(2) by (intro bexI [of _ e0]) auto
    qed
    then show "min (low_at s v) (low_at s' w) = disc_at s' v \<or>
        (\<exists>e \<in> set ?pre. ce_b e \<notin> N \<union> N' \<and> min (low_at s v) (low_at s' w) = disc_at s' (ce_b e))" ..
  qed
  then show "searched s0 v (leaveChild v w i s') (N \<union> N') (pre' @ \<lparr>ce_id = i, ce_a = v, ce_b = w\<rparr> # pre) (nb @ nb')"
    using c v up unfolding searched_def leave by auto
qed

subsection \<open>The search\<close>

definition ready ::
    "(nat \<Rightarrow> string \<Rightarrow> string \<Rightarrow> bool) \<Rightarrow> string set \<Rightarrow> string \<Rightarrow> nat option \<Rightarrow> blockSearch \<Rightarrow> bool" where
  \<comment> \<open>a vertex not yet found is entered from the vertices \<open>G\<close> being searched; all others are finished\<close>
  "ready E G v p s \<longleftrightarrow>
     v \<notin> found s \<and> G \<subseteq> found s \<and> (\<forall>x \<in> found s. disc_at s x < bs_counter s) \<and>
     (\<forall>x \<in> found s - G. \<forall>i y. E i x y \<longrightarrow> y \<in> found s) \<and> (\<forall>i. p = Some i \<longrightarrow> (\<exists>g \<in> G. E i g v))"

definition searchResult ::
    "(nat \<Rightarrow> string \<Rightarrow> string \<Rightarrow> bool) \<Rightarrow> string set \<Rightarrow> string \<Rightarrow> nat option \<Rightarrow> (string \<times> nat) set \<Rightarrow>
     blockSearch \<Rightarrow> blockSearch option \<Rightarrow> bool" where
  "searchResult E G v p seen s0 result \<longleftrightarrow>
     (\<exists>s N pre nb. result = Some s \<and> subtree E G v p seen N pre nb \<and> searched s0 v s N pre nb)"

context link_graph
begin

lemma ready_child:
  assumes ready: "ready E G v p s0" and tree: "subtree E G v p seen N pre nb" and state: "searched s0 v s N pre nb"
    and "E i v w" and "w \<notin> found s"
  shows "ready E (insert v G) w (Some i) (pushEdge i v w s)"
  unfolding ready_def
proof (intro conjI ballI allI impI)
  have found: "found s = found s0 \<union> N" "v \<in> N" using state by (auto simp: searched_def)
  show "w \<notin> found (pushEdge i v w s)" "insert v G \<subseteq> found (pushEdge i v w s)"
    using assms(5) found ready by (auto simp: ready_def)
  show "disc_at (pushEdge i v w s) x < bs_counter (pushEdge i v w s)" if "x \<in> found (pushEdge i v w s)" for x
  proof (cases "x \<in> N")
    case True
    then show ?thesis using state by (simp add: searched_def)
  next
    case False
    then have "x \<in> found s0" using that found by simp
    then have "disc_at s x < bs_counter s0" using state ready by (simp add: searched_def ready_def)
    moreover have "bs_counter s0 < bs_counter s" using state by (simp add: searched_def)
    ultimately show ?thesis by simp
  qed
  show "y \<in> found (pushEdge i v w s)" if x: "x \<in> found (pushEdge i v w s) - insert v G" and E: "E j x y" for x j y
  proof (cases "x \<in> N")
    case True
    have "covers E G v p seen N (handledIds pre nb)" using tree by (simp add: subtree_def)
    from coversD(1) [OF this True _ E] have "y \<in> N \<union> G" using x by blast
    then show ?thesis using found ready by (auto simp: ready_def)
  next
    case False
    then show ?thesis using x E ready found by (auto simp: ready_def)
  qed
  show "\<exists>g \<in> insert v G. E j g w" if "Some i = Some j" for j using that assms(4) by auto
qed

lemma visitNeighbours_result:
  assumes rec: "\<And>w i s. ready E (insert v G) w (Some i) s \<Longrightarrow> finite (touchable - found s) \<Longrightarrow>
      E i v w \<Longrightarrow> card (touchable - found s) \<le> fuel \<Longrightarrow>
      searchResult E (insert v G) w (Some i) {(y, j). E j w y} s (rec w i s)"
    and ready: "ready E G v p s0" and "finite touchable" and fuel: "card (touchable - insert v (found s0)) \<le> fuel"
    and "subtree E G v p seen N pre nb" and "searched s0 v s N pre nb" and "\<And>y j. (y, j) \<in> set rest \<Longrightarrow> E j v y"
  shows "searchResult E G v p (seen \<union> set rest) s0 (visitNeighbours rec v p rest s)"
  using assms(5-)
proof (induction rest arbitrary: s seen N pre nb)
  case Nil
  then show ?case by (auto simp: searchResult_def)
next
  case (Cons entry rest)
  obtain w i where entry: "entry = (w, i)" by fastforce
  note tree = Cons.prems(1) and state = Cons.prems(2)
  have E: "E i v w" and rest: "\<And>y j. (y, j) \<in> set rest \<Longrightarrow> E j v y" using Cons.prems(3) entry by auto
  have covers: "covers E G v p seen N (handledIds pre nb)" and edges: "openEdges E G p N pre"
    and v: "v \<in> N" using tree by (simp_all add: subtree_def)
  have found: "found s = found s0 \<union> N" "N \<inter> found s0 = {}" using state by (auto simp: searched_def)
  have G: "G \<subseteq> found s0" and parent: "\<And>j. p = Some j \<Longrightarrow> \<exists>g \<in> G. E j g v" using ready by (auto simp: ready_def)
  have pre_ends: "ce_b e \<in> N \<union> found s0" if "e \<in> set pre" for e using edges that G by (auto simp: openEdges_def)
  have seen: "insert (w, i) seen \<union> set rest = seen \<union> set (entry # rest)" using entry by auto
  consider (parent) "p = Some i" | (tree) "p \<noteq> Some i" "w \<notin> found s"
    | (up) "p \<noteq> Some i" "w \<in> found s" "disc_at s w < disc_at s v"
    | (down) "p \<noteq> Some i" "w \<in> found s" "\<not> disc_at s w < disc_at s v" by blast
  then show ?case
  proof cases
    case parent
    then obtain g where "g \<in> G" "E i g v" using \<open>\<And>j. p = Some j \<Longrightarrow> _\<close> by blast
    then have "w \<in> G \<or> w = v" using E E_ends [of i g v v w] by blast
    then have "subtree E G v p (insert (w, i) seen) N pre nb" using parent v by (intro subtree_skip [OF tree]) auto
    from Cons.IH [OF this state rest] show ?thesis using parent entry seen by simp
  next
    case down
    have "w \<in> N"
    proof (rule ccontr)
      assume "w \<notin> N"
      then have "w \<in> found s0" using down(2) found by simp
      then have "disc_at s w < bs_counter s0" using state ready by (simp add: searched_def ready_def)
      then show False using down(3) state by (simp add: searched_def)
    qed
    have "i \<in> handledIds pre nb" if "w \<noteq> v" using coversD(2) [OF covers \<open>w \<in> N\<close> that E_sym [OF E]] that by blast
    then have "subtree E G v p (insert (w, i) seen) N pre nb" using \<open>w \<in> N\<close> by (intro subtree_skip [OF tree]) auto
    from Cons.IH [OF this state rest] show ?thesis using down entry seen by (simp add: found_def)
  next
    case up
    have "w \<notin> N"
    proof
      assume "w \<in> N"
      have later: "\<forall>x \<in> N - {v}. bs_counter s0 < disc_at s x" "disc_at s v = bs_counter s0"
        using state by (simp_all add: searched_def)
      have "bs_counter s0 \<le> disc_at s w"
      proof (cases "w = v")
        case False
        then show ?thesis using later(1) \<open>w \<in> N\<close> by (simp add: less_imp_le)
      qed (simp add: later(2))
      then show False using up(3) state by (simp add: searched_def)
    qed
    then have w: "w \<in> found s0" using up(2) found by simp
    have "w \<in> G"
    proof (rule ccontr)
      assume "w \<notin> G"
      then have "v \<in> found s0" using w ready E_sym [OF E] by (auto simp: ready_def)
      then show False using ready by (simp add: ready_def)
    qed
    from Cons.IH [OF subtree_back [OF tree this E up(1)] searched_back [OF state w] rest]
    show ?thesis using up entry seen by (simp add: found_def)
  next
    case tree
    let ?push = "pushEdge i v w s"
    have "touchable - found ?push \<subseteq> touchable - insert v (found s0)" using found v by auto
    then have "card (touchable - found ?push) \<le> fuel"
      using fuel \<open>finite touchable\<close> by (meson card_mono finite_Diff le_trans)
    then have "searchResult E (insert v G) w (Some i) {(y, j). E j w y} ?push (rec w i ?push)"
      using rec ready_child [OF ready Cons.prems(1) state E tree(2)] E \<open>finite touchable\<close> by simp
    then obtain s' N' pre' nb' where s': "rec w i ?push = Some s'"
      "subtree E (insert v G) w (Some i) {(y, j). E j w y} N' pre' nb'" "searched ?push w s' N' pre' nb'"
      by (auto simp: searchResult_def)
    note c = child_state [OF state s'(3)]
    have edges': "openEdges E (insert v G) (Some i) N' pre'" using s'(2) by (simp add: subtree_def)
    have pre_ends': "ce_b e \<in> N' \<union> insert v (found s0)" if "e \<in> set pre'" for e
      using edges' that G by (auto simp: openEdges_def)
    have step: "visitNeighbours rec v p (entry # rest) s = visitNeighbours rec v p rest (leaveChild v w i s')"
      using tree s'(1) entry by (simp add: found_def)
    have all: "(y, j) \<in> {(y, j). E j w y}" if "E j w y" for j y using that by simp
    show ?thesis
    proof (cases "disc_at s' v \<le> low_at s' w")
      case True
      have fresh: "ce_id e \<noteq> i" if "e \<in> set pre'" for e using edges' that by (auto simp: openEdges_def)
      have below: "ce_b e \<notin> G" if "e \<in> set pre'" for e
      proof
        assume "ce_b e \<in> G"
        then have up: "ce_b e \<in> found s0" using G by blast
        then have "ce_b e \<notin> N'" using c(2) by blast
        then have "low_at s' w \<le> disc_at s' (ce_b e)"
          using s'(3) that by (simp add: searched_def lowestAbove_def)
        moreover have "disc_at s' (ce_b e) < bs_counter s0"
          using up ready state c(4) [of "ce_b e"] found by (auto simp: searched_def ready_def)
        ultimately show False using True c(8) by simp
      qed
      obtain b where b: "searched s0 v (leaveChild v w i s') (N \<union> N') pre (nb @ nb' @ [b])"
        "set (cb_edgeIds b) = insert i (ce_id ` set pre')" "vertexSet b = {v, w} \<union> ce_a ` set pre' \<union> ce_b ` set pre'"
        "distinct (cb_vertices b)"
        using searched_pop [OF state s'(3) True pre_ends fresh] by blast
      from Cons.IH [OF subtree_pop [OF Cons.prems(1) s'(2) all c(3) E below b(2-4)] b(1) rest]
      show ?thesis unfolding step seen .
    next
      case False
      then have low: "low_at s' w < disc_at s' v" by simp
      note keep = searched_keep [OF state s'(3) low pre_ends pre_ends']
      obtain e0 where e0: "e0 \<in> set pre'" "ce_b e0 \<in> found s0" using keep(2) by blast
      have "ce_b e0 \<in> G"
        using edges' e0 c(2,12) by (auto simp: openEdges_def)
      from Cons.IH [OF subtree_keep [OF Cons.prems(1) s'(2) all c(3) E tree(1) parent e0(1) this] keep(1) rest]
      show ?thesis unfolding step seen .
    qed
  qed
qed

lemma dfs_result:
  assumes "ready E G v p s" and "finite touchable" and "v \<in> touchable" and "\<And>i x y. E i x y \<Longrightarrow> y \<in> touchable"
    and "card (touchable - found s) \<le> fuel"
  shows "searchResult E G v p {(y, j). E j v y} s (dfs fuel adj v p s)"
  using assms(1,3,5)
proof (induction fuel arbitrary: G v p s)
  case 0
  then show ?case using assms(2) by (auto simp: ready_def)
next
  case (Suc fuel)
  have v: "v \<notin> found s" "v \<notin> G" using Suc.prems(1) by (auto simp: ready_def)
  have "Suc (card (touchable - insert v (found s))) = card (touchable - found s)"
    using card_Suc_Diff1 [of "touchable - found s" v] assms(2) Suc.prems(2) v(1) by (simp add: Diff_insert [symmetric])
  then have fuel: "card (touchable - insert v (found s)) \<le> fuel" using Suc.prems(3) by simp
  have rec: "searchResult E (insert v G) w (Some i) {(y, j). E j w y} s' (dfs fuel adj w (Some i) s')"
    if "ready E (insert v G) w (Some i) s'" "finite (touchable - found s')" "E i v w" "card (touchable - found s') \<le> fuel" for w i s'
    using Suc.IH [OF that(1) _ that(4)] assms(4) that(3) by blast
  have "searchResult E G v p ({} \<union> set (neighbours adj v)) s
      (visitNeighbours (\<lambda>w i. dfs fuel adj w (Some i)) v p (neighbours adj v) (discover v s))"
    by (rule visitNeighbours_result [where touchable = touchable and fuel = fuel, OF rec Suc.prems(1) assms(2) fuel
          subtree_start [OF v(2)] searched_start [OF v(1)]]) (simp_all add: neighbours_iff)
  moreover have "set (neighbours adj v) = {(y, j). E j v y}" using neighbours_iff by auto
  ultimately show ?case by simp
qed

lemma key_of_edge: "E i x y \<Longrightarrow> x \<in> set (map fst adj)"
proof -
  assume "E i x y"
  then have "neighbours adj x \<noteq> []" using neighbours_iff [of y i x] by auto
  then obtain ns where "map_of adj x = Some ns" by (cases "map_of adj x") (simp_all add: neighbours_def)
  then show "x \<in> set (map fst adj)" by (metis domI dom_map_of_conv_image_fst list.set_map)
qed

text \<open>
  The blocks of the start's component: they hang in order from the start, each is solid, their links
  are all the links of the component but loops.
\<close>

lemma biconnected_blocks:
  assumes "E i0 start y0"
  shows "\<exists>blocks N. biconnectedComponents adj start = Some blocks \<and> componentBlocks E start N blocks"
proof -
  let ?s = "\<lparr>bs_disc = [], bs_low = [], bs_edgeStack = [], bs_blocks = [], bs_counter = 0\<rparr>"
  have "ready E {} start None ?s" by (simp add: ready_def found_def)
  moreover have "card (set (map fst adj) - found ?s) \<le> Suc (length adj)"
    using card_length [of "map fst adj"] by (simp add: found_def)
  moreover have "start \<in> set (map fst adj)" by (rule key_of_edge [OF assms])
  moreover have "y \<in> set (map fst adj)" if "E i x y" for i x y by (rule key_of_edge [OF E_sym [OF that]])
  ultimately have "searchResult E {} start None {(y, j). E j start y} ?s (dfs (Suc (length adj)) adj start None ?s)"
    by (intro dfs_result [where touchable = "set (map fst adj)"]) auto
  then obtain s N pre nb where s: "dfs (Suc (length adj)) adj start None ?s = Some s"
    and tree: "subtree E {} start None {(y, j). E j start y} N pre nb" and state: "searched ?s start s N pre nb"
    unfolding searchResult_def by blast
  have covers: "covers E {} start None {(y, j). E j start y} N (handledIds pre nb)"
    and edges: "openEdges E {} None N pre" and walks: "openWalks start N pre"
    and blocks: "\<forall>b \<in> set nb. goodBlock E b \<and> vertexSet b \<subseteq> N" "start \<in> N"
    and hangs: "hangs vertexSet (openVertices start N pre) nb"
    using tree by (simp_all add: subtree_def)
  have touched: "touched (stackJoins pre) \<subseteq> N" using openEdges_touched [OF edges] by simp
  have alone: "openVertices start N pre = {start}"
  proof (rule ccontr)
    assume "openVertices start N pre \<noteq> {start}"
    then obtain x where x: "x \<in> openVertices start N pre" "x \<noteq> start" by (auto simp: openVertices_def)
    have "start \<in> openVertices start N pre" by (simp add: openVertices_def)
    then obtain z where "(avoiding start (stackJoins pre))\<^sup>*\<^sup>* x z" "z \<noteq> start" "z \<notin> N"
      using openWalksD(2) [OF walks x(1), of start] x(2) by blast
    moreover have "x \<in> N" using x by (auto simp: openVertices_def)
    ultimately show False using walk_touched touched by blast
  qed
  have "pre = []"
  proof (rule ccontr)
    assume "pre \<noteq> []"
    then have e: "hd pre \<in> set pre" by simp
    then have "stackJoins pre (ce_a (hd pre)) (ce_b (hd pre))" "stackJoins pre (ce_b (hd pre)) (ce_a (hd pre))"
      by (auto simp: stackJoins_def)
    then have "ce_a (hd pre) \<in> touched (stackJoins pre)" "ce_b (hd pre) \<in> touched (stackJoins pre)"
      by (auto simp: touched_def)
    then have "ce_a (hd pre) = start" "ce_b (hd pre) = start"
      using touched alone by (auto simp: openVertices_def)
    then show False using edges e by (auto simp: openEdges_def)
  qed
  then have ids: "handledIds pre nb = \<Union> ((\<lambda>b. set (cb_edgeIds b)) ` set nb)" by (simp add: handledIds_def)
  have "bs_blocks s = nb" using state by (simp add: searched_def)
  then have run: "biconnectedComponents adj start = Some nb" using s by (simp only: biconnectedComponents_def option.map)
  have closed: "y \<in> N \<and> (x \<noteq> y \<longrightarrow> (\<exists>b \<in> set nb. i \<in> set (cb_edgeIds b)))" if "x \<in> N" "E i x y" for i x y
  proof (cases "x = start")
    case True
    then show ?thesis using coversD(3,4) [OF covers, of y i] that(2) ids by auto
  next
    case False
    then show ?thesis using coversD(1,2) [OF covers that(1) False that(2)] ids by auto
  qed
  have "hangs vertexSet {start} nb" using hangs by (simp only: alone)
  then have "componentBlocks E start N nb" using blocks closed by (simp add: componentBlocks_def)
  with run show ?thesis by (intro exI conjI)
qed

end

end
