(* ===== verification/LinkStrengthCorrect.thy ===== *)
theory LinkStrengthCorrect
  imports LinkBlocks
begin

section \<open>Link strengths are those of simple paths\<close>

text \<open>
  The walk of the block-cut tree gathers, on the way to each node, whether a block passed holds a
  provider link; by the structure of the blocks that is whether a simple path from the origin
  takes one; so each character's label is the one its simple paths from the origin earn.
\<close>

subsection \<open>Keys of tree nodes\<close>

lemma treeNodeKey_inject:
  "treeNodeKey (Block_node (int i)) = treeNodeKey (Block_node (int j)) \<longleftrightarrow> i = j"
  "treeNodeKey (Vertex_node v) = treeNodeKey (Vertex_node w) \<longleftrightarrow> v = w"
  "treeNodeKey (Block_node x) \<noteq> treeNodeKey (Vertex_node v)"
  "treeNodeKey (Vertex_node v) \<noteq> treeNodeKey (Block_node x)"
  by simp_all

subsection \<open>The block-cut tree\<close>

lemma number_at_map_set: "number_at (map_set k n m) x = (if x = k then n else number_at m x)"
  by (simp add: number_at_def update_conv')

lemma blockCounts_count: "number_at (blockCounts bs) v = count_list (concat (map cb_vertices bs)) v"
proof -
  have "number_at (foldl (\<lambda>counts vertex. map_set vertex (number_at counts vertex + 1) counts) m vs) v =
      number_at m v + count_list vs v" for m vs
    by (induction vs arbitrary: m) (simp_all add: number_at_map_set)
  then show ?thesis by (simp add: blockCounts_def) (simp add: number_at_def)
qed

lemma count_list_distinct: "distinct xs \<Longrightarrow> count_list xs v = (if v \<in> set xs then 1 else 0)"
  by (induction xs) auto

lemma count_blocks:
  assumes "\<And>b. b \<in> set bs \<Longrightarrow> distinct (cb_vertices b)"
  shows "count_list (concat (map cb_vertices bs)) v = length (filter (\<lambda>b. v \<in> vertexSet b) bs)"
  using assms by (induction bs) (simp_all add: count_list_append count_list_distinct)

lemma isCutVertex_iff:
  assumes "\<And>b. b \<in> set bs \<Longrightarrow> distinct (cb_vertices b)"
  shows "isCutVertex bs v \<longleftrightarrow>
    (\<exists>i j. i < length bs \<and> j < length bs \<and> i \<noteq> j \<and> v \<in> vertexSet (bs ! i) \<and> v \<in> vertexSet (bs ! j))"
proof -
  have "isCutVertex bs v \<longleftrightarrow> \<not> card {i. i < length bs \<and> v \<in> vertexSet (bs ! i)} \<le> Suc 0"
    using count_blocks [OF assms, of bs v]
    by (simp only: isCutVertex_def blockCounts_count length_filter_conv_card) (simp add: not_less_eq_eq numeral_2_eq_2)
  then show ?thesis by (auto simp: card_le_Suc0_iff_eq)
qed

lemma neighbours_linkNodes:
  "n \<in> set (neighbours (linkNodes l r m) k) \<longleftrightarrow>
     n \<in> set (neighbours m k) \<or> n = r \<and> k = treeNodeKey l \<or> n = l \<and> k = treeNodeKey r"
  by (auto simp: linkNodes_def neighbours_bucket_push)

lemma neighbours_blockCutTree:
  "n \<in> set (neighbours (blockCutTree bs) k) \<longleftrightarrow>
     (\<exists>i v. i < length bs \<and> v \<in> vertexSet (bs ! i) \<and> isCutVertex bs v \<and>
        (n = Vertex_node v \<and> k = treeNodeKey (Block_node (int i)) \<or>
         n = Block_node (int i) \<and> k = treeNodeKey (Vertex_node v)))"
proof -
  let ?link = "\<lambda>m (index, vertex). if isCutVertex bs vertex
                                then linkNodes (Block_node (int index)) (Vertex_node vertex) m else m"
  have "n \<in> set (neighbours (foldl ?link m ps) k) \<longleftrightarrow> n \<in> set (neighbours m k) \<or>
     (\<exists>(i, v) \<in> set ps. isCutVertex bs v \<and>
        (n = Vertex_node v \<and> k = treeNodeKey (Block_node (int i)) \<or>
         n = Block_node (int i) \<and> k = treeNodeKey (Vertex_node v)))" for m ps
    by (induction ps arbitrary: m) (auto simp: neighbours_linkNodes simp del: treeNodeKey.simps split: if_splits)
  moreover have "set (concat (map (\<lambda>(index, block). map (Pair index) (cb_vertices block)) (enumerate 0 bs))) =
      {(i, v). i < length bs \<and> v \<in> vertexSet (bs ! i)}"
    by (force simp: in_set_enumerate_eq)
  moreover have "n \<notin> set (neighbours [] k)" by (simp add: neighbours_def)
  ultimately show ?thesis unfolding blockCutTree_def by (simp del: treeNodeKey.simps add: conj_assoc)
qed

subsection \<open>Walking a tree\<close>

text \<open>
  A tree on the nodes \<open>D\<close>, given by each node's parent, whose edges are what the neighbours list; and
  for each node what its parent has gathered and its own mark. The walk finds every node and
  remembers that.
\<close>

definition rootedTree ::
    "(string, treeNode list) jsmap \<Rightarrow> (treeNode \<Rightarrow> bool) \<Rightarrow> treeNode set \<Rightarrow> treeNode \<Rightarrow>
     (treeNode \<Rightarrow> treeNode option) \<Rightarrow> (treeNode \<Rightarrow> bool) \<Rightarrow> bool" where
  "rootedTree tree own D rt parent gathered \<longleftrightarrow>
     rt \<in> D \<and> inj_on treeNodeKey D \<and> parent rt = None \<and> gathered rt = own rt \<and>
     (\<forall>n \<in> D. \<forall>m. m \<in> set (neighbours tree (treeNodeKey n)) \<longleftrightarrow> m \<in> D \<and> (parent n = Some m \<or> parent m = Some n)) \<and>
     (\<forall>n \<in> D. \<forall>p. parent n = Some p \<longrightarrow> p \<in> D \<and> gathered n = (gathered p \<or> own n))"

lemma rootedTreeD:
  assumes "rootedTree tree own D rt parent gathered"
  shows "rt \<in> D" and "inj_on treeNodeKey D" and "parent rt = None" and "gathered rt = own rt"
    and "n \<in> D \<Longrightarrow> m \<in> set (neighbours tree (treeNodeKey n)) \<longleftrightarrow> m \<in> D \<and> (parent n = Some m \<or> parent m = Some n)"
    and "n \<in> D \<Longrightarrow> parent n = Some p \<Longrightarrow> p \<in> D \<and> gathered n = (gathered p \<or> own n)"
  using assms unfolding rootedTree_def by blast+

definition walked ::
    "treeNode set \<Rightarrow> (treeNode \<Rightarrow> treeNode option) \<Rightarrow> (treeNode \<Rightarrow> bool) \<Rightarrow> treeNode set \<Rightarrow> treeWalk \<Rightarrow> bool" where
  \<comment> \<open>the nodes \<open>S\<close> visited so far\<close>
  "walked D parent gathered S w \<longleftrightarrow>
     S \<subseteq> D \<and> set (tw_visited w) = treeNodeKey ` S \<and> set (tw_queue w) \<subseteq> S \<and>
     (\<forall>n \<in> S. map_get (tw_cumulative w) (treeNodeKey n) = Some (gathered n)) \<and>
     (\<forall>n \<in> S. \<forall>p. parent n = Some p \<longrightarrow> p \<in> S)"

lemma walkedD:
  assumes "walked D parent gathered S w"
  shows "S \<subseteq> D" and "set (tw_visited w) = treeNodeKey ` S" and "set (tw_queue w) \<subseteq> S"
    and "n \<in> S \<Longrightarrow> map_get (tw_cumulative w) (treeNodeKey n) = Some (gathered n)"
    and "n \<in> S \<Longrightarrow> parent n = Some p \<Longrightarrow> p \<in> S"
  using assms unfolding walked_def by blast+


lemma visitNode_walked:
  assumes tree: "rootedTree tree own D rt parent gathered" and w: "walked D parent gathered S w"
    and c: "c \<in> S" and n: "n \<in> D" and edge: "parent c = Some n \<or> parent n = Some c"
  shows "walked D parent gathered (insert n S) (visitNode own (treeNodeKey c) n w)"
    and "set (tw_queue w) \<union> ({n} - S) \<subseteq> set (tw_queue (visitNode own (treeNodeKey c) n w))"
proof -
  have seen: "treeNodeKey n \<in> set (tw_visited w) \<longleftrightarrow> n \<in> S"
    unfolding walkedD(2) [OF w] using rootedTreeD(2) [OF tree] walkedD(1) [OF w] n by (meson inj_on_image_mem_iff)
  show "set (tw_queue w) \<union> ({n} - S) \<subseteq> set (tw_queue (visitNode own (treeNodeKey c) n w))"
    using seen by (auto simp: visitNode_def)
  show "walked D parent gathered (insert n S) (visitNode own (treeNodeKey c) n w)"
  proof (cases "n \<in> S")
    case True
    then show ?thesis using w seen by (simp add: visitNode_def insert_absorb)
  next
    case False
    then have "parent n = Some c" using edge walkedD(5) [OF w c] by blast
    then have gathered: "gathered n = (gathered c \<or> own n)" using rootedTreeD(6) [OF tree n] by simp
    have other: "treeNodeKey m = treeNodeKey n \<Longrightarrow> m = n" if "m \<in> insert n S" for m
      using that rootedTreeD(2) [OF tree] walkedD(1) [OF w] n by (auto dest: inj_onD)
    have truth: "truth_at (tw_cumulative w) (treeNodeKey c) = gathered c"
      using walkedD(4) [OF w c] by (simp add: truth_at_def)
    let ?w = "visitNode own (treeNodeKey c) n w"
    have "map_get (tw_cumulative ?w) (treeNodeKey m) = Some (gathered m)" if "m \<in> insert n S" for m
      using that False seen truth gathered other [OF that] walkedD(4) [OF w, of m]
      by (auto simp: visitNode_def update_conv' simp del: treeNodeKey.simps)
    moreover have "set (tw_visited ?w) = treeNodeKey ` insert n S" "set (tw_queue ?w) \<subseteq> insert n S"
      using False seen walkedD(2,3) [OF w] by (auto simp: visitNode_def)
    moreover have "m' \<in> insert n S" if "m \<in> insert n S" "parent m = Some m'" for m m'
      using that \<open>parent n = Some c\<close> c walkedD(5) [OF w, of m m'] by auto
    ultimately show ?thesis using walkedD(1) [OF w] n unfolding walked_def by blast
  qed
qed

lemma visitNodes_walked:
  assumes tree: "rootedTree tree own D rt parent gathered" and w: "walked D parent gathered S w" and c: "c \<in> S"
    and "\<And>n. n \<in> set ns \<Longrightarrow> n \<in> D \<and> (parent c = Some n \<or> parent n = Some c)"
  shows "walked D parent gathered (S \<union> set ns) (foldl (\<lambda>w n. visitNode own (treeNodeKey c) n w) w ns) \<and>
     set (tw_queue w) \<union> (set ns - S) \<subseteq> set (tw_queue (foldl (\<lambda>w n. visitNode own (treeNodeKey c) n w) w ns))"
  using w c assms(4)
proof (induction ns arbitrary: S w)
  case (Cons n ns)
  have n: "n \<in> D" "parent c = Some n \<or> parent n = Some c" using Cons.prems(3) by auto
  note step = visitNode_walked [OF tree Cons.prems(1,2) n]
  have "walked D parent gathered (insert n S \<union> set ns) (foldl (\<lambda>w n. visitNode own (treeNodeKey c) n w) (visitNode own (treeNodeKey c) n w) ns) \<and>
     set (tw_queue (visitNode own (treeNodeKey c) n w)) \<union> (set ns - insert n S) \<subseteq>
       set (tw_queue (foldl (\<lambda>w n. visitNode own (treeNodeKey c) n w) (visitNode own (treeNodeKey c) n w) ns))"
    using Cons.IH [OF step(1)] Cons.prems(2,3) by simp
  then show ?case using step(2) by auto
qed simp

definition closedBut :: "(string, treeNode list) jsmap \<Rightarrow> treeNode set \<Rightarrow> treeNode set \<Rightarrow> bool" where
  "closedBut tree S waiting \<longleftrightarrow> (\<forall>n \<in> S - waiting. set (neighbours tree (treeNodeKey n)) \<subseteq> S)"

lemma visitCurrent_walked:
  assumes tree: "rootedTree tree own D rt parent gathered" and w: "walked D parent gathered S w" and c: "c \<in> S"
    and closed: "closedBut tree S (insert c (set (tw_queue w)))"
  shows "\<exists>S'. S \<subseteq> S' \<and> walked D parent gathered S' (visitCurrent own tree c w) \<and>
     closedBut tree S' (set (tw_queue (visitCurrent own tree c w)))"
proof -
  let ?ns = "set (neighbours tree (treeNodeKey c))"
  have "n \<in> D \<and> (parent c = Some n \<or> parent n = Some c)" if "n \<in> ?ns" for n
    using rootedTreeD(5) [OF tree] walkedD(1) [OF w] c that by blast
  then have visit: "walked D parent gathered (S \<union> ?ns) (visitCurrent own tree c w)"
    "set (tw_queue w) \<union> (?ns - S) \<subseteq> set (tw_queue (visitCurrent own tree c w))"
    using visitNodes_walked [OF tree w c, of "neighbours tree (treeNodeKey c)"] unfolding visitCurrent_def by blast+
  have "closedBut tree (S \<union> ?ns) (set (tw_queue (visitCurrent own tree c w)))"
    using closed visit(2) unfolding closedBut_def by blast
  with visit(1) show ?thesis by blast
qed

lemma walkTree_walked:
  assumes tree: "rootedTree tree own D rt parent gathered" and "walked D parent gathered S w"
    and "closedBut tree S (set (tw_queue w))"
  shows "\<exists>S'. S \<subseteq> S' \<and> walked D parent gathered S' (walkTree own tree w) \<and> closedBut tree S' {}"
  using assms
proof (induction own tree w arbitrary: S rule: walkTree.induct)
  case (1 own tree w)
  show ?case
  proof (cases "tw_queue w")
    case Nil
    then show ?thesis using "1.prems" by (auto simp: walkTree.simps)
  next
    case (Cons c queue)
    let ?w = "w\<lparr>tw_queue := queue\<rparr>"
    have c: "c \<in> S" "set queue \<subseteq> S" using walkedD(3) [OF "1.prems"(2)] Cons by simp_all
    have "walked D parent gathered S ?w" using "1.prems"(2) c(2) by (simp add: walked_def)
    moreover have "closedBut tree S (insert c (set (tw_queue ?w)))" using "1.prems"(3) Cons by simp
    ultimately obtain S1 where S1: "S \<subseteq> S1" "walked D parent gathered S1 (visitCurrent own tree c ?w)"
      "closedBut tree S1 (set (tw_queue (visitCurrent own tree c ?w)))"
      using visitCurrent_walked [OF "1.prems"(1) _ c(1)] by blast
    obtain S2 where "S1 \<subseteq> S2" "walked D parent gathered S2 (walkTree own tree (visitCurrent own tree c ?w))"
      "closedBut tree S2 {}"
      using "1.IH" [OF Cons "1.prems"(1) S1(2,3)] by blast
    moreover have "walkTree own tree w = walkTree own tree (visitCurrent own tree c ?w)"
      using Cons by (subst walkTree.simps) simp
    ultimately show ?thesis using S1(1) by (metis order_trans)
  qed
qed

lemma walkTree_gathers:
  assumes tree: "rootedTree tree own D rt parent gathered"
    and rank: "\<And>n. n \<in> D \<Longrightarrow> n \<noteq> rt \<Longrightarrow> \<exists>p. parent n = Some p \<and> rank p < (rank n :: nat)" and n: "n \<in> D"
  shows "map_get (tw_cumulative (walkTree own tree (startWalk own rt))) (treeNodeKey n) = Some (gathered n)"
proof -
  have "walked D parent gathered {rt} (startWalk own rt)"
    using rootedTreeD(1,3,4) [OF tree] by (simp add: walked_def startWalk_def)
  moreover have "closedBut tree {rt} (set (tw_queue (startWalk own rt)))" by (simp add: closedBut_def startWalk_def)
  ultimately obtain S where S: "{rt} \<subseteq> S" "walked D parent gathered S (walkTree own tree (startWalk own rt))"
    "closedBut tree S {}"
    using walkTree_walked [OF tree] by blast
  have "n \<in> S" using n
  proof (induction "rank n" arbitrary: n rule: less_induct)
    case less
    show ?case
    proof (cases "n = rt")
      case False
      then obtain p where p: "parent n = Some p" "rank p < rank n" using rank less.prems by blast
      then have "p \<in> S" using less rootedTreeD(6) [OF tree less.prems] by blast
      then have "set (neighbours tree (treeNodeKey p)) \<subseteq> S" using S(3) by (simp add: closedBut_def)
      moreover have "n \<in> set (neighbours tree (treeNodeKey p))"
        using rootedTreeD(5) [OF tree, of p n] p(1) \<open>p \<in> S\<close> walkedD(1) [OF S(2)] less.prems by blast
      ultimately show ?thesis by blast
    qed (use S(1) in simp)
  qed
  then show ?thesis by (rule walkedD(4) [OF S(2)])
qed

subsection \<open>The tree of the blocks\<close>

definition blockTree :: "string \<Rightarrow> connectionBlock list \<Rightarrow> bool" where
  "blockTree r bs \<longleftrightarrow> hangs vertexSet {r} bs \<and> (\<forall>b \<in> set bs. distinct (cb_vertices b)) \<and> bs \<noteq> []"

definition hookOf :: "string \<Rightarrow> connectionBlock list \<Rightarrow> nat \<Rightarrow> string" where
  "hookOf r bs i = hook vertexSet r (bs ! i) (drop (Suc i) bs)"

definition homeOf :: "connectionBlock list \<Rightarrow> string \<Rightarrow> nat" where
  \<comment> \<open>the last block a vertex is in, the one through which the origin reaches it\<close>
  "homeOf bs v = Max {j. j < length bs \<and> v \<in> vertexSet (bs ! j)}"

lemma in_later:
  "v \<in> \<Union> (vertexSet ` set (drop (Suc i) bs)) \<longleftrightarrow> (\<exists>j > i. j < length bs \<and> v \<in> vertexSet (bs ! j))"
proof
  assume "v \<in> \<Union> (vertexSet ` set (drop (Suc i) bs))"
  then obtain b where "b \<in> set (drop (Suc i) bs)" "v \<in> vertexSet b" by blast
  then obtain k where "k < length (drop (Suc i) bs)" "v \<in> vertexSet (drop (Suc i) bs ! k)"
    unfolding in_set_conv_nth by blast
  then show "\<exists>j > i. j < length bs \<and> v \<in> vertexSet (bs ! j)" by (intro exI [of _ "Suc i + k"]) auto
next
  assume "\<exists>j > i. j < length bs \<and> v \<in> vertexSet (bs ! j)"
  then obtain j where j: "i < j" "j < length bs" "v \<in> vertexSet (bs ! j)" by blast
  then have "drop (Suc i) bs ! (j - Suc i) = bs ! j" "j - Suc i < length (drop (Suc i) bs)" by auto
  then have "bs ! j \<in> set (drop (Suc i) bs)" by (metis nth_mem)
  with j(3) show "v \<in> \<Union> (vertexSet ` set (drop (Suc i) bs))" by blast
qed

lemma hookOf_unique:
  assumes "blockTree r bs" and "i < length bs"
  shows "vertexSet (bs ! i) \<inter> insert r (\<Union> (vertexSet ` set (drop (Suc i) bs))) = {hookOf r bs i}"
proof -
  have "hangs vertexSet {r} (drop i bs)" using assms(1) by (simp add: blockTree_def hangs_drop)
  then have "hangs vertexSet {r} (bs ! i # drop (Suc i) bs)" using assms(2) by (simp only: Cons_nth_drop_Suc)
  then show ?thesis unfolding hookOf_def by (rule hook_in)
qed

lemma hookOf_cases:
  assumes "blockTree r bs" and "i < length bs"
  shows "hookOf r bs i \<in> vertexSet (bs ! i)"
    and "hookOf r bs i = r \<or> (\<exists>j > i. j < length bs \<and> hookOf r bs i \<in> vertexSet (bs ! j))"
  using hookOf_unique [OF assms] in_later [of "hookOf r bs i" i bs] by blast+

lemma hookOf_eq:
  assumes "blockTree r bs" and "i < length bs" and "v \<in> vertexSet (bs ! i)"
    and "v = r \<or> (\<exists>j > i. j < length bs \<and> v \<in> vertexSet (bs ! j))"
  shows "v = hookOf r bs i"
  using hookOf_unique [OF assms(1,2)] in_later [of v i bs] assms(3,4) by blast

lemma homeOf:
  assumes "i < length bs" and "v \<in> vertexSet (bs ! i)"
  shows "i \<le> homeOf bs v" and "homeOf bs v < length bs" and "v \<in> vertexSet (bs ! homeOf bs v)"
proof -
  let ?J = "{j. j < length bs \<and> v \<in> vertexSet (bs ! j)}"
  have "finite ?J" "i \<in> ?J" using assms by simp_all
  then have "i \<le> Max ?J" "Max ?J \<in> ?J" using Max_ge Max_in by blast+
  then show "i \<le> homeOf bs v" "homeOf bs v < length bs" "v \<in> vertexSet (bs ! homeOf bs v)"
    by (simp_all add: homeOf_def)
qed

lemma homeOf_not_hook:
  assumes "blockTree r bs" and "i < length bs" and "v \<in> vertexSet (bs ! i)" and "v \<noteq> hookOf r bs i"
  shows "v \<noteq> r" and "homeOf bs v = i"
  using hookOf_eq [OF assms(1-3)] assms(4) homeOf [OF assms(2,3)] le_neq_implies_less by blast+

lemma isCutVertex_blocks:
  assumes "blockTree r bs"
  shows "isCutVertex bs v \<longleftrightarrow>
    (\<exists>i j. i < length bs \<and> j < length bs \<and> i \<noteq> j \<and> v \<in> vertexSet (bs ! i) \<and> v \<in> vertexSet (bs ! j))"
  using assms by (intro isCutVertex_iff) (simp add: blockTree_def)

lemma nodeOf_cut: "isCutVertex bs v \<Longrightarrow> nodeOf bs v = Vertex_node v"
  by (simp add: nodeOf_def)

lemma nodeOf_block:
  assumes "blockTree r bs" and "\<not> isCutVertex bs v" and "i < length bs" and "v \<in> vertexSet (bs ! i)"
  shows "nodeOf bs v = Block_node (int i)"
proof -
  let ?k = "length (takeWhile (\<lambda>b. v \<notin> vertexSet b) bs)"
  have "\<not> i < ?k" using assms(4) nth_mem [of i "takeWhile (\<lambda>b. v \<notin> vertexSet b) bs"]
    by (auto dest: set_takeWhileD simp: takeWhile_nth)
  then have "?k < length bs" using assms(3) by simp
  moreover from this have "v \<in> vertexSet (bs ! ?k)" using nth_length_takeWhile by blast
  ultimately have "?k = i" using assms(2-4) isCutVertex_blocks [OF assms(1)] by blast
  then show ?thesis using assms(2,3) by (simp add: nodeOf_def blockIndexOf_def)
qed

lemma root_in_last:
  assumes "blockTree r bs"
  shows "r \<in> vertexSet (bs ! (length bs - 1))"
proof -
  have i: "length bs - 1 < length bs" using assms by (simp add: blockTree_def)
  show ?thesis using hookOf_cases [OF assms i] by auto
qed

lemma nodeOf_root:
  assumes "blockTree r bs"
  shows "nodeOf bs r = (if isCutVertex bs r then Vertex_node r else Block_node (int (length bs - 1)))"
proof -
  have "length bs - 1 < length bs" using assms by (simp add: blockTree_def)
  then show ?thesis using nodeOf_block [OF assms _ _ root_in_last [OF assms]] by (simp add: nodeOf_cut)
qed

lemma root_hook:
  assumes "blockTree r bs"
  shows "hookOf r bs (length bs - 1) = r"
proof -
  have "length bs - 1 < length bs" using assms by (simp add: blockTree_def)
  then show ?thesis using hookOf_eq [OF assms _ root_in_last [OF assms]] by simp
qed

definition treeNodes :: "connectionBlock list \<Rightarrow> treeNode set" where
  "treeNodes bs = (\<lambda>i. Block_node (int i)) ` {..< length bs} \<union> Vertex_node ` {v. isCutVertex bs v}"

definition treeParent :: "string \<Rightarrow> connectionBlock list \<Rightarrow> treeNode \<Rightarrow> treeNode option" where
  "treeParent r bs n =
     (if n = nodeOf bs r then None
      else case n of Block_node i \<Rightarrow> Some (Vertex_node (hookOf r bs (nat i)))
           | Vertex_node v \<Rightarrow> Some (Block_node (int (homeOf bs v))))"

definition treeGathered :: "(connectionBlock \<Rightarrow> bool) \<Rightarrow> string \<Rightarrow> connectionBlock list \<Rightarrow> treeNode \<Rightarrow> bool" where
  "treeGathered q r bs n =
     (case n of Block_node i \<Rightarrow> gathers vertexSet q r bs (hookOf r bs (nat i)) \<or> q (bs ! nat i)
      | Vertex_node v \<Rightarrow> gathers vertexSet q r bs v)"

lemma gathers_block:
  assumes "blockTree r bs" and "i < length bs" and "v \<in> vertexSet (bs ! i)" and "v \<noteq> hookOf r bs i"
  shows "gathers vertexSet q r bs v \<longleftrightarrow> treeGathered q r bs (Block_node (int i))"
proof -
  have "v \<notin> insert r (\<Union> (vertexSet ` set (drop (Suc i) bs)))" using hookOf_unique [OF assms(1,2)] assms(3,4) by blast
  moreover have "hangs vertexSet {r} bs" using assms(1) by (simp add: blockTree_def)
  ultimately show ?thesis using gathers_home [of vertexSet r bs i v q] assms(2,3)
    by (simp add: treeGathered_def hookOf_def)
qed

lemma tree_edge:
  assumes bs: "blockTree r bs" and i: "i < length bs" and v: "isCutVertex bs v"
  shows "v \<in> vertexSet (bs ! i) \<longleftrightarrow>
    treeParent r bs (Block_node (int i)) = Some (Vertex_node v) \<or>
    treeParent r bs (Vertex_node v) = Some (Block_node (int i))"
proof
  assume here: "v \<in> vertexSet (bs ! i)"
  show "treeParent r bs (Block_node (int i)) = Some (Vertex_node v) \<or>
    treeParent r bs (Vertex_node v) = Some (Block_node (int i))"
  proof (cases "v = hookOf r bs i")
    case True
    have "Block_node (int i) \<noteq> nodeOf bs r"
    proof
      assume "Block_node (int i) = nodeOf bs r"
      then have "\<not> isCutVertex bs r" "i = length bs - 1" using nodeOf_root [OF bs] by (auto split: if_splits)
      then show False using True root_hook [OF bs] v by simp
    qed
    then show ?thesis using True by (simp add: treeParent_def)
  next
    case False
    then have "v \<noteq> r" "homeOf bs v = i" using homeOf_not_hook [OF bs i here] by simp_all
    then show ?thesis using nodeOf_root [OF bs] by (simp add: treeParent_def)
  qed
next
  assume "treeParent r bs (Block_node (int i)) = Some (Vertex_node v) \<or>
    treeParent r bs (Vertex_node v) = Some (Block_node (int i))"
  then have "v = hookOf r bs i \<or> homeOf bs v = i"
  proof
    assume "treeParent r bs (Block_node (int i)) = Some (Vertex_node v)"
    then show ?thesis by (simp add: treeParent_def split: if_splits)
  next
    assume "treeParent r bs (Vertex_node v) = Some (Block_node (int i))"
    then show ?thesis by (simp add: treeParent_def split: if_splits)
  qed
  moreover obtain j where "j < length bs" "v \<in> vertexSet (bs ! j)" using v isCutVertex_blocks [OF bs] by blast
  ultimately show "v \<in> vertexSet (bs ! i)" using hookOf_cases(1) [OF bs i] homeOf(3) by blast
qed

lemma tree_parent_in:
  assumes bs: "blockTree r bs" and n: "n \<in> treeNodes bs" and p: "treeParent r bs n = Some p"
  shows "p \<in> treeNodes bs" and "treeGathered q r bs n = (treeGathered q r bs p \<or> (\<exists>i. n = Block_node i \<and> q (bs ! nat i)))"
proof -
  consider i where "i < length bs" "n = Block_node (int i)" | v where "isCutVertex bs v" "n = Vertex_node v"
    using n by (auto simp: treeNodes_def)
  then have "p \<in> treeNodes bs \<and> (treeGathered q r bs n = (treeGathered q r bs p \<or> (\<exists>i. n = Block_node i \<and> q (bs ! nat i))))"
  proof cases
    case 1
    then have p': "p = Vertex_node (hookOf r bs i)" "Block_node (int i) \<noteq> nodeOf bs r"
      using p by (simp_all add: treeParent_def split: if_splits)
    have "isCutVertex bs (hookOf r bs i)"
    proof (rule ccontr)
      assume alone: "\<not> isCutVertex bs (hookOf r bs i)"
      then have "hookOf r bs i = r"
        using hookOf_cases [OF bs 1(1)] 1(1) isCutVertex_blocks [OF bs] by (metis less_irrefl)
      then show False using alone p'(2) nodeOf_block [OF bs _ 1(1)] hookOf_cases(1) [OF bs 1(1)] by simp
    qed
    then show ?thesis using 1(2) p'(1) by (simp add: treeNodes_def treeGathered_def)
  next
    case 2
    then have p': "p = Block_node (int (homeOf bs v))" "v \<noteq> r"
      using p by (auto simp: treeParent_def nodeOf_cut split: if_splits)
    obtain j where "j < length bs" "v \<in> vertexSet (bs ! j)" using 2(1) isCutVertex_blocks [OF bs] by blast
    note home = homeOf [OF this]
    have "v \<noteq> hookOf r bs (homeOf bs v)"
      using hookOf_cases(2) [OF bs home(2)] p'(2) homeOf(1) by (metis leD)
    then have "gathers vertexSet q r bs v \<longleftrightarrow> treeGathered q r bs p"
      using gathers_block [OF bs home(2,3)] p'(1) by simp
    then show ?thesis using 2(2) p'(1) home(2) by (simp add: treeNodes_def treeGathered_def)
  qed
  then show "p \<in> treeNodes bs" "treeGathered q r bs n = (treeGathered q r bs p \<or> (\<exists>i. n = Block_node i \<and> q (bs ! nat i)))"
    by simp_all
qed

lemma tree_neighbours:
  assumes bs: "blockTree r bs" and n: "n \<in> treeNodes bs"
  shows "m \<in> set (neighbours (blockCutTree bs) (treeNodeKey n)) \<longleftrightarrow>
    m \<in> treeNodes bs \<and> (treeParent r bs n = Some m \<or> treeParent r bs m = Some n)"
proof -
  have kinds: "treeParent r bs (Block_node i) \<noteq> Some (Block_node j)" "treeParent r bs (Vertex_node v) \<noteq> Some (Vertex_node w)"
    for i j v w by (simp_all add: treeParent_def)
  consider i where "i < length bs" "n = Block_node (int i)" | v where "isCutVertex bs v" "n = Vertex_node v"
    using n by (auto simp: treeNodes_def)
  then show ?thesis
  proof cases
    case 1
    then have "m \<in> set (neighbours (blockCutTree bs) (treeNodeKey n)) \<longleftrightarrow>
        (\<exists>v. m = Vertex_node v \<and> isCutVertex bs v \<and> v \<in> vertexSet (bs ! i))"
      unfolding neighbours_blockCutTree 1(2) by (auto simp only: treeNodeKey_inject)
    then show ?thesis using tree_edge [OF bs 1(1)] kinds 1(2) by (auto simp: treeNodes_def)
  next
    case 2
    then have "m \<in> set (neighbours (blockCutTree bs) (treeNodeKey n)) \<longleftrightarrow>
        (\<exists>i. m = Block_node (int i) \<and> i < length bs \<and> v \<in> vertexSet (bs ! i))"
      unfolding neighbours_blockCutTree 2(2) by (auto simp only: treeNodeKey_inject)
    then show ?thesis using tree_edge [OF bs _ 2(1)] kinds 2(2) by (auto simp: treeNodes_def)
  qed
qed

definition treeRank :: "string \<Rightarrow> connectionBlock list \<Rightarrow> treeNode \<Rightarrow> nat" where
  "treeRank r bs n =
     (case n of Block_node i \<Rightarrow> 2 * (length bs - nat i)
      | Vertex_node v \<Rightarrow> if v = r then 0 else 2 * (length bs - homeOf bs v) + 1)"

lemma tree_rank:
  assumes bs: "blockTree r bs" and n: "n \<in> treeNodes bs" and "n \<noteq> nodeOf bs r"
  shows "\<exists>p. treeParent r bs n = Some p \<and> treeRank r bs p < treeRank r bs n"
proof -
  consider i where "i < length bs" "n = Block_node (int i)" | v where "isCutVertex bs v" "n = Vertex_node v"
    using n by (auto simp: treeNodes_def)
  then show ?thesis
  proof cases
    case 1
    have "treeRank r bs (Vertex_node (hookOf r bs i)) < treeRank r bs (Block_node (int i))"
      using hookOf_cases(2) [OF bs 1(1)]
    proof
      assume "\<exists>j > i. j < length bs \<and> hookOf r bs i \<in> vertexSet (bs ! j)"
      then obtain j where "i < j" "j < length bs" "hookOf r bs i \<in> vertexSet (bs ! j)" by blast
      then have "i < homeOf bs (hookOf r bs i)" "homeOf bs (hookOf r bs i) < length bs" using homeOf by (metis less_le_trans)+
      then show ?thesis by (auto simp: treeRank_def)
    qed (use 1(1) in \<open>simp add: treeRank_def\<close>)
    then show ?thesis using assms(3) 1(2) by (simp add: treeParent_def)
  next
    case 2
    then have "v \<noteq> r" using assms(3) nodeOf_cut by auto
    then show ?thesis using 2 assms(3) by (simp add: treeParent_def treeRank_def)
  qed
qed

lemma treeGathered_nodeOf:
  assumes bs: "blockTree r bs" and v: "v \<in> \<Union> (vertexSet ` set bs)"
  shows "nodeOf bs v \<in> treeNodes bs" and "v \<noteq> r \<Longrightarrow> treeGathered q r bs (nodeOf bs v) = gathers vertexSet q r bs v"
proof -
  obtain b where "b \<in> set bs" "v \<in> vertexSet b" using v by blast
  then obtain i where i: "i < length bs" "v \<in> vertexSet (bs ! i)" unfolding in_set_conv_nth by blast
  have "nodeOf bs v \<in> treeNodes bs \<and> (v \<noteq> r \<longrightarrow> treeGathered q r bs (nodeOf bs v) = gathers vertexSet q r bs v)"
  proof (cases "isCutVertex bs v")
    case True
    then show ?thesis by (simp add: nodeOf_cut treeNodes_def treeGathered_def)
  next
    case False
    then have node: "nodeOf bs v = Block_node (int i)" using nodeOf_block [OF bs _ i] by simp
    have "treeGathered q r bs (Block_node (int i)) = gathers vertexSet q r bs v" if "v \<noteq> r"
    proof -
      have "v \<noteq> hookOf r bs i"
        using hookOf_cases(2) [OF bs i(1)] that False i isCutVertex_blocks [OF bs] by (metis less_irrefl)
      then show ?thesis using gathers_block [OF bs i] by simp
    qed
    then show ?thesis using node i(1) by (simp add: treeNodes_def)
  qed
  then show "nodeOf bs v \<in> treeNodes bs"
    "v \<noteq> r \<Longrightarrow> treeGathered q r bs (nodeOf bs v) = gathers vertexSet q r bs v" by simp_all
qed

lemma treeGathered_root:
  assumes bs: "blockTree r bs"
  shows "treeGathered q r bs (nodeOf bs r) \<longleftrightarrow> (\<exists>i. nodeOf bs r = Block_node i \<and> q (bs ! nat i))"
  using nodeOf_root [OF bs] root_hook [OF bs] by (auto simp: treeGathered_def)

lemma ownHasProvider_node:
  "n \<in> treeNodes bs \<Longrightarrow> ownHasProvider pe bs n \<longleftrightarrow> (\<exists>i. n = Block_node i \<and> blockHasProvider pe (bs ! nat i))"
  by (auto simp: treeNodes_def)

lemma rootedTree_blocks:
  assumes bs: "blockTree r bs"
  shows "rootedTree (blockCutTree bs) (ownHasProvider pe bs) (treeNodes bs) (nodeOf bs r) (treeParent r bs)
    (treeGathered (blockHasProvider pe) r bs)"
proof -
  have last: "length bs - 1 < length bs" using bs by (simp add: blockTree_def)
  then have "bs ! (length bs - 1) \<in> set bs" by (rule nth_mem)
  then have "r \<in> \<Union> (vertexSet ` set bs)" using root_in_last [OF bs] by blast
  then have "nodeOf bs r \<in> treeNodes bs" by (rule treeGathered_nodeOf(1) [OF bs])
  moreover have "inj_on treeNodeKey (treeNodes bs)"
    by (auto simp only: inj_on_def treeNodes_def treeNodeKey_inject Un_iff image_iff)
  moreover have "treeParent r bs (nodeOf bs r) = None" by (simp add: treeParent_def)
  ultimately show ?thesis
    unfolding rootedTree_def
    using tree_neighbours [OF bs] tree_parent_in(1) [OF bs] tree_parent_in(2) [OF bs, where q = "blockHasProvider pe"] treeGathered_root [OF bs]
      ownHasProvider_node
    by simp
qed

lemma map_get_foldl_set:
  "map_get (foldl (\<lambda>m x. if x = r then m else map_set x (f x) m) m xs) v =
     (if v \<in> set xs \<and> v \<noteq> r then Some (f v) else map_get m v)"
  by (induction xs arbitrary: m) (auto simp: update_conv')

lemma set_foldl_set_add: "set (foldl (\<lambda>s x. set_add x s) s xs) = set s \<union> set xs"
  by (induction xs arbitrary: s) auto

lemma blockStrengths_get:
  assumes "hangs vertexSet {r} bs" and "\<And>b. b \<in> set bs \<Longrightarrow> distinct (cb_vertices b)"
  shows "map_get (blockStrengths r pe bs) v =
    (if v \<noteq> r \<and> v \<in> \<Union> (vertexSet ` set bs) then Some (gathers vertexSet (blockHasProvider pe) r bs v) else None)"
proof -
  let ?run = "tw_cumulative (walkTree (ownHasProvider pe bs) (blockCutTree bs) (startWalk (ownHasProvider pe bs) (nodeOf bs r)))"
  have truth: "truth_at ?run (treeNodeKey (nodeOf bs v)) = gathers vertexSet (blockHasProvider pe) r bs v"
    if "v \<noteq> r" "v \<in> \<Union> (vertexSet ` set bs)"
  proof -
    have bs: "blockTree r bs" using assms that(2) by (auto simp: blockTree_def)
    have "map_get ?run (treeNodeKey (nodeOf bs v)) = Some (treeGathered (blockHasProvider pe) r bs (nodeOf bs v))"
      using walkTree_gathers [OF rootedTree_blocks [OF bs] tree_rank [OF bs] treeGathered_nodeOf(1) [OF bs that(2)]] .
    then show ?thesis using treeGathered_nodeOf(2) [OF bs that(2) that(1)] by (simp add: truth_at_def)
  qed
  then show ?thesis
    unfolding blockStrengths_def Let_def map_get_foldl_set set_foldl_set_add by auto
qed

subsection \<open>Runs over the link graph\<close>

lemma spath_restrict:
  assumes "spath R xs u v" and "u \<in> N" and "\<And>x y. x \<in> N \<Longrightarrow> R x y \<Longrightarrow> x \<noteq> y \<Longrightarrow> R' x y \<and> y \<in> N"
  shows "spath R' xs u v \<and> set xs \<subseteq> N"
  using assms(1,2)
proof (induction xs arbitrary: u)
  case (Cons x xs)
  show ?case
  proof (cases xs)
    case Nil
    then show ?thesis using Cons.prems by (auto simp: spath_def)
  next
    case (Cons y ys)
    then have step: "x = u" "R u y" "u \<noteq> y" "spath R xs y v" "u \<notin> set xs" using Cons.prems(1) by (auto simp: spath_def)
    then have "R' u y" "y \<in> N" using assms(3) Cons.prems(2) by blast+
    then have "spath R' xs y v \<and> set xs \<subseteq> N" using Cons.IH step(4) by blast
    then show ?thesis using \<open>R' u y\<close> step Cons.prems(2) Cons by (auto simp: spath_def)
  qed
qed (simp add: spath_def)

lemma componentBlocksD:
  assumes "componentBlocks E start N blocks"
  shows "hangs vertexSet {start} blocks" and "b \<in> set blocks \<Longrightarrow> goodBlock E b" and "start \<in> N"
    and "x \<in> N \<Longrightarrow> E i x y \<Longrightarrow> y \<in> N"
    and "x \<in> N \<Longrightarrow> E i x y \<Longrightarrow> x \<noteq> y \<Longrightarrow> \<exists>b \<in> set blocks. i \<in> set (cb_edgeIds b)"
  using assms unfolding componentBlocks_def by blast+

definition runOf :: "(nat \<Rightarrow> string \<Rightarrow> string \<Rightarrow> bool) \<Rightarrow> nat list \<Rightarrow> string \<Rightarrow> string \<Rightarrow> bool option" where
  \<comment> \<open>what a run from the origin is to answer: for a vertex it reaches, whether by a provider link\<close>
  "runOf E pe origin v =
     (if v \<noteq> origin \<and> (\<exists>xs. spath (\<lambda>x y. \<exists>i. E i x y) xs origin v)
      then Some (provides (\<lambda>x y. \<exists>i. E i x y) (\<lambda>x y. \<exists>i \<in> set pe. E i x y) origin v) else None)"

definition providerJoins ::
    "(nat \<Rightarrow> string \<Rightarrow> string \<Rightarrow> bool) \<Rightarrow> nat list \<Rightarrow> connectionBlock \<Rightarrow> string \<Rightarrow> string \<Rightarrow> bool" where
  "providerJoins E pe b x y \<longleftrightarrow> (\<exists>i \<in> set (cb_edgeIds b). i \<in> set pe \<and> E i x y)"

lemma blockStrengths_runOf:
  assumes sym: "\<And>i x y. E i x y \<Longrightarrow> E i y x" and blocks: "componentBlocks E origin N bs"
  shows "map_get (blockStrengths origin pe bs) v = runOf E pe origin v"
proof -
  let ?J = "\<lambda>x y. \<exists>i. E i x y" and ?Q = "\<lambda>x y. \<exists>i \<in> set pe. E i x y"
  let ?BJ = "joins_any (blockJoins E) bs" and ?BQ = "joins_any (providerJoins E pe) bs"
  have good: "solid (blockJoins E b) \<and> touched (blockJoins E b) = vertexSet b" "distinct (cb_vertices b)"
    "\<And>i. i \<in> set (cb_edgeIds b) \<Longrightarrow> \<exists>x y. E i x y" if "b \<in> set bs" for b
    using componentBlocksD(2) [OF blocks that] by (auto simp: goodBlock_def)
  have "symp (providerJoins E pe b) \<and> (blockHasProvider pe b \<longleftrightarrow> (\<exists>x y. providerJoins E pe b x y))" if "b \<in> set bs" for b
  proof
    show "symp (providerJoins E pe b)" using sym by (auto simp: symp_def providerJoins_def)
    show "blockHasProvider pe b \<longleftrightarrow> (\<exists>x y. providerJoins E pe b x y)"
      using good(3) [OF that] unfolding blockHasProvider_def list_ex_iff providerJoins_def by blast
  qed
  moreover have "blockJoins E b x y" if "providerJoins E pe b x y" for b x y
    using that by (auto simp: providerJoins_def blockJoins_def)
  ultimately have gather: "provides ?BJ ?BQ origin w \<longleftrightarrow> gathers vertexSet (blockHasProvider pe) origin bs w"
    "(\<exists>xs. spath ?BJ xs origin w) \<longleftrightarrow> w \<in> insert origin (\<Union> (vertexSet ` set bs))" for w
    using blocks_gather [of vertexSet origin bs "blockJoins E" "providerJoins E pe" "blockHasProvider pe" w]
      componentBlocksD(1) [OF blocks] good(1) by blast+
  have path: "spath ?J xs origin w \<longleftrightarrow> spath ?BJ xs origin w" and within: "spath ?J xs origin w \<Longrightarrow> set xs \<subseteq> N" for xs w
  proof -
    have step: "?BJ x y \<and> y \<in> N" if x: "x \<in> N" and J: "?J x y" and other: "x \<noteq> y" for x y
    proof -
      obtain i where i: "E i x y" using J ..
      from componentBlocksD(5) [OF blocks x i other] obtain b where "b \<in> set bs" "i \<in> set (cb_edgeIds b)" ..
      then have "?BJ x y" using i unfolding joins_any_def blockJoins_def by blast
      with componentBlocksD(4) [OF blocks x i] show ?thesis by simp
    qed
    have forth: "spath ?BJ xs origin w \<and> set xs \<subseteq> N" if "spath ?J xs origin w"
      by (rule spath_restrict [OF that componentBlocksD(3) [OF blocks] step])
    have "?J x y" if "?BJ x y" for x y using that unfolding joins_any_def blockJoins_def by blast
    then have converse: "spath ?J xs origin w" if "spath ?BJ xs origin w" by (rule spath_mono [OF that])
    show "spath ?J xs origin w \<longleftrightarrow> spath ?BJ xs origin w" using forth converse by blast
    show "spath ?J xs origin w \<Longrightarrow> set xs \<subseteq> N" using forth by blast
  qed
  have crossing: "crosses ?Q xs \<longleftrightarrow> crosses ?BQ xs" if xs: "spath ?J xs origin w" for xs w
  proof
    assume "crosses ?Q xs"
    then obtain ys x y zs i where split: "xs = ys @ x # y # zs" "i \<in> set pe" "E i x y" unfolding crosses_iff by blast
    then have "x \<in> N" "x \<noteq> y" using within [OF xs] xs by (auto simp: spath_def)
    then have "?BQ x y" using componentBlocksD(5) [OF blocks _ split(3)] split(2,3)
      unfolding joins_any_def providerJoins_def by blast
    then show "crosses ?BQ xs" using split(1) unfolding crosses_iff by blast
  next
    assume "crosses ?BQ xs"
    then show "crosses ?Q xs" by (rule crosses_mono) (auto simp: joins_any_def providerJoins_def)
  qed
  have "provides ?J ?Q origin v \<longleftrightarrow> provides ?BJ ?BQ origin v"
    unfolding provides_def using path crossing by blast
  moreover have "v \<noteq> origin \<Longrightarrow> (\<exists>xs. spath ?J xs origin v) \<longleftrightarrow> v \<in> \<Union> (vertexSet ` set bs)"
    using gather(2) [of v] path by simp
  ultimately show ?thesis
    using blockStrengths_get [OF componentBlocksD(1) [OF blocks] good(2), of pe v] gather(1) [of v]
    unfolding runOf_def by (cases "v = origin") simp_all
qed

lemma map_has_buildAdjacency:
  "map_has (buildAdjacency es) x \<longleftrightarrow> (\<exists>i y. edgeJoins es i x y)"
proof -
  have push: "fst ` set (bucket_push k u m) = insert k (fst ` set m)" for k m and u :: "string \<times> nat"
    by (simp add: bucket_push_def dom_update)
  have "x \<in> fst ` set (foldl addEdge adj es) \<longleftrightarrow> x \<in> fst ` set adj \<or> (\<exists>e \<in> set es. ce_a e = x \<or> ce_b e = x)" for adj
    by (induction es arbitrary: adj) (auto simp only: addEdge_def push foldl.simps list.set bex_simps insert_iff)
  moreover have "(\<exists>e \<in> set es. ce_a e = x \<or> ce_b e = x) \<longleftrightarrow> (\<exists>i y. edgeJoins es i x y)"
    unfolding edgeJoins_def by blast
  ultimately show ?thesis by (simp add: buildAdjacency_def)
qed

lemma hasProviderPathFrom_runOf:
  fixes P links
  defines "es \<equiv> map edgeOf (filter P (enumerate 0 links))"
  shows "\<exists>m. hasProviderPathFrom origin es pe = Some m \<and> (\<forall>v. map_get m v = runOf (edgeJoins es) pe origin v)"
proof (cases "map_has (buildAdjacency es) origin")
  case True
  then obtain i y where "edgeJoins es i origin y" using map_has_buildAdjacency by blast
  then obtain blocks N where blocks: "biconnectedComponents (buildAdjacency es) origin = Some blocks"
    "componentBlocks (edgeJoins es) origin N blocks"
    using numbered.biconnected_blocks [of P links i origin y] unfolding es_def by blast
  have "map_get (blockStrengths origin pe blocks) v = runOf (edgeJoins es) pe origin v" for v
    by (rule blockStrengths_runOf [OF _ blocks(2)]) (auto simp: edgeJoins_def)
  then show ?thesis using True blocks(1) by (simp add: hasProviderPathFrom_def)
next
  case False
  then have none: "\<not> edgeJoins es i origin y" for i y using map_has_buildAdjacency by blast
  have "v = origin" if "spath (\<lambda>x y. \<exists>i. edgeJoins es i x y) xs origin v" for xs v
  proof (cases xs)
    case (Cons x ys)
    then show ?thesis using that none by (cases ys) (auto simp: spath_def)
  qed (use that in \<open>simp add: spath_def\<close>)
  then have "runOf (edgeJoins es) pe origin v = None" for v unfolding runOf_def by auto
  then show ?thesis using False by (simp add: hasProviderPathFrom_def)
qed

subsection \<open>The labels\<close>

definition connects :: "(linkStrength \<Rightarrow> bool) \<Rightarrow> strengthLink list \<Rightarrow> string \<Rightarrow> string \<Rightarrow> bool" where
  \<comment> \<open>a link of such a strength joins the two\<close>
  "connects strong links x y \<longleftrightarrow>
     (\<exists>l \<in> set links. strong (sl_strength l) \<and> (sl_a l = x \<and> sl_b l = y \<or> sl_a l = y \<and> sl_b l = x))"

definition earnedStrength :: "string \<Rightarrow> strengthLink list \<Rightarrow> string \<Rightarrow> linkStrength option" where
  \<comment> \<open>the rule \<open>pathStrengths\<close> documents\<close>
  "earnedStrength origin links v =
     (if v = origin \<or> \<not> (\<exists>path. spath (connects (\<lambda>_. True) links) path origin v) then None
      else if provides (connects (\<lambda>s. s \<noteq> Fingerprint_strength) links)
                (connects (\<lambda>s. s = Raiderio_strength) links) origin v then Some Raiderio_strength
      else if provides (connects (\<lambda>_. True) links)
                (connects (\<lambda>s. s \<noteq> Manual_strength) links) origin v then Some Fingerprint_strength
      else Some Manual_strength)"

lemma edgeJoins_numbered:
  "edgeJoins (map edgeOf (filter P (enumerate 0 links))) i x y \<longleftrightarrow>
     i < length links \<and> P (i, links ! i) \<and>
     (sl_a (links ! i) = x \<and> sl_b (links ! i) = y \<or> sl_a (links ! i) = y \<and> sl_b (links ! i) = x)"
  by (auto simp: edgeJoins_def edgeOf_def in_set_enumerate_eq)

lemma connects_nth:
  "connects strong links x y \<longleftrightarrow>
     (\<exists>i < length links. strong (sl_strength (links ! i)) \<and>
        (sl_a (links ! i) = x \<and> sl_b (links ! i) = y \<or> sl_a (links ! i) = y \<and> sl_b (links ! i) = x))"
  unfolding connects_def Bex_def in_set_conv_nth by blast

lemma edges_connect:
  "(\<lambda>x y. \<exists>i. edgeJoins (map edgeOf (filter (\<lambda>(i, l). strong (sl_strength l)) (enumerate 0 links))) i x y) =
     connects strong links"
  "(\<lambda>x y. \<exists>i \<in> set (map fst (filter (\<lambda>(i, l). provider (sl_strength l)) (enumerate 0 links))).
       edgeJoins (map edgeOf (filter (\<lambda>(i, l). strong (sl_strength l)) (enumerate 0 links))) i x y) =
     connects (\<lambda>s. provider s \<and> strong s) links"
  unfolding edgeJoins_numbered connects_nth by (force simp: fun_eq_iff in_set_enumerate_eq)+

lemma provider_run:
  "\<exists>m. hasProviderPathFrom origin (map edgeOf (filter (\<lambda>(i, l). strong (sl_strength l)) (enumerate 0 links)))
         (map fst (filter (\<lambda>(i, l). provider (sl_strength l)) (enumerate 0 links))) = Some m \<and>
       (\<forall>v. map_get m v =
         (if v \<noteq> origin \<and> (\<exists>path. spath (connects strong links) path origin v)
          then Some (provides (connects strong links) (connects (\<lambda>s. provider s \<and> strong s) links) origin v) else None))"
  using hasProviderPathFrom_runOf [of origin "\<lambda>(i, l). strong (sl_strength l)" links
      "map fst (filter (\<lambda>(i, l). provider (sl_strength l)) (enumerate 0 links))"]
  unfolding runOf_def edges_connect .

lemma map_get_foldl_all:
  "map_get (foldl (\<lambda>m x. map_set x (f x) m) m xs) v = (if v \<in> set xs then Some (f v) else map_get m v)"
  by (induction xs arbitrary: m) (auto simp: update_conv')

lemma provides_strong_reach:
  assumes "provides (connects strong links) Q origin v"
  shows "\<exists>path. spath (connects (\<lambda>_. True) links) path origin v"
proof -
  obtain path where "spath (connects strong links) path origin v" using assms by (auto simp: provides_def)
  then have "spath (connects (\<lambda>_. True) links) path origin v" by (rule spath_mono) (auto simp: connects_def)
  then show ?thesis ..
qed

lemma pathStrengths_earned:
  "\<exists>labels. pathStrengths origin links = Some labels \<and>
     (\<forall>v. map_get labels v = earnedStrength origin links v)"
proof -
  let ?all = "connects (\<lambda>_. True) links"
  obtain raiderioRun where raiderio:
    "hasProviderPathFrom origin (map edgeOf (filter (\<lambda>(i, l). sl_strength l \<noteq> Fingerprint_strength) (enumerate 0 links)))
       (map fst (filter (\<lambda>(i, l). sl_strength l = Raiderio_strength) (enumerate 0 links))) = Some raiderioRun"
    "\<And>v. map_get raiderioRun v =
       (if v \<noteq> origin \<and> (\<exists>path. spath (connects (\<lambda>s. s \<noteq> Fingerprint_strength) links) path origin v)
        then Some (provides (connects (\<lambda>s. s \<noteq> Fingerprint_strength) links)
          (connects (\<lambda>s. s = Raiderio_strength \<and> s \<noteq> Fingerprint_strength) links) origin v) else None)"
    using provider_run [of origin "\<lambda>s. s \<noteq> Fingerprint_strength" links "\<lambda>s. s = Raiderio_strength"] by blast
  obtain fingerprintRun where fingerprint:
    "hasProviderPathFrom origin (map edgeOf (filter (\<lambda>(i, l). True) (enumerate 0 links)))
       (map fst (filter (\<lambda>(i, l). sl_strength l \<noteq> Manual_strength) (enumerate 0 links))) = Some fingerprintRun"
    "\<And>v. map_get fingerprintRun v =
       (if v \<noteq> origin \<and> (\<exists>path. spath ?all path origin v)
        then Some (provides ?all (connects (\<lambda>s. s \<noteq> Manual_strength \<and> True) links) origin v) else None)"
    using provider_run [of origin "\<lambda>s. True" links "\<lambda>s. s \<noteq> Manual_strength"] by blast
  have everything: "filter (\<lambda>(i, l). True) xs = xs" for xs :: "(nat \<times> strengthLink) list"
    by (induction xs) auto
  have raiderioLinks: "(\<lambda>s. s = Raiderio_strength \<and> s \<noteq> Fingerprint_strength) = (\<lambda>s. s = Raiderio_strength)" by auto
  let ?label = "\<lambda>node. if map_get raiderioRun node = Some True then Raiderio_strength
     else if map_get fingerprintRun node = Some True then Fingerprint_strength else Manual_strength"
  let ?labels = "foldl (\<lambda>m node. map_set node (?label node) m) [] (map fst fingerprintRun)"
  have "pathStrengths origin links = Some ?labels"
    using raiderio(1) fingerprint(1) unfolding pathStrengths_def Let_def everything by simp
  moreover have "map_get ?labels v = earnedStrength origin links v" for v
  proof -
    have "v \<in> set (map fst fingerprintRun) \<longleftrightarrow> map_get fingerprintRun v \<noteq> None"
      using map_of_eq_None_iff [of fingerprintRun v] by auto
    then have "map_get ?labels v = (if map_get fingerprintRun v \<noteq> None then Some (?label v) else None)"
      unfolding map_get_foldl_all by simp
    also have "\<dots> = earnedStrength origin links v"
      unfolding earnedStrength_def raiderio(2) fingerprint(2) raiderioLinks
      using provides_strong_reach by (auto simp: provides_def)
    finally show ?thesis .
  qed
  ultimately show ?thesis by blast
qed

text \<open>
  C8. The labels of \<open>pathStrengths\<close> are those its comment states, over simple paths: a character other
  than the origin gets one exactly if the links reach it; it is raiderio if some simple path of
  raiderio and manual links takes a raiderio link, else fingerprint if some simple path takes a
  provider link, else manual. The search always returns.
\<close>

theorem path_strengths_exact:
  "\<exists>labels. pathStrengths origin links = Some labels \<and>
     (\<forall>v. map_get labels v = earnedStrength origin links v)"
  by (rule pathStrengths_earned)

end
