(* ===== verification/GroupSubjects.thy ===== *)
theory GroupSubjects
  imports LinkStrength
begin

section \<open>Who is on a dossier page\<close>

text \<open>
  \<open>packages/application/src/dossier-subjects.ts\<close>, \<open>shared-warcraft-logs-identity.ts\<close> and
  \<open>group-subjects.ts\<close>: the characters a dossier shows. The older read resolves them from the stored
  snapshot of the searched character and its manual connections; the newer one walks the group the
  character is in and labels each member by the strength of its links. Both merge the keys that
  resolved to one Warcraft Logs character into a row and split the rows at the display cap.

  The repositories are parameters whose reads may throw.
\<close>

subsection \<open>Subjects\<close>

datatype subjectSource = Snapshot_source discoverySource | Submitted_source | Manually_added_source

record rankedSubject =
  rs_key :: characterKey
  rs_displayName :: string
  rs_className :: "string option"
  rs_guild :: "characterGuild option"
  rs_raiderIoUrl :: string
  rs_source :: subjectSource
  rs_pending :: "bool option"
  rs_fromApplication :: bool \<comment> \<open>\<open>origin: "application"\<close>\<close>
  rs_warcraftLogsAliases :: "characterKey list option"
  rs_level :: int

definition keysOf :: "rankedSubject \<Rightarrow> characterKey list" where
  "keysOf s = rs_key s # (case rs_warcraftLogsAliases s of None \<Rightarrow> [] | Some ks \<Rightarrow> ks)"

definition compareByLevelThenKey :: "js_env \<Rightarrow> rankedSubject \<Rightarrow> rankedSubject \<Rightarrow> int" where
  "compareByLevelThenKey E l r =
     or_else (rs_level r - rs_level l)
       (or_else (localeCompare E (region (rs_key l)) (region (rs_key r)))
         (or_else (localeCompare E (realm (rs_key l)) (realm (rs_key r)))
           (localeCompare E (cname (rs_key l)) (cname (rs_key r)))))"

definition compareRootFirst :: "js_env \<Rightarrow> string \<Rightarrow> rankedSubject \<Rightarrow> rankedSubject \<Rightarrow> int" where
  \<comment> \<open>\<open>rootOrder || compareByLevelThenKey(left, right)\<close>\<close>
  "compareRootFirst E rootId l r =
     or_else (of_bool (canonicalCharacterId E (rs_key r) = rootId) - of_bool (canonicalCharacterId E (rs_key l) = rootId))
       (compareByLevelThenKey E l r)"

subsection \<open>Keys of one Warcraft Logs character\<close>

record recordedId =
  ri_key :: characterKey
  ri_characterId :: nat

record 'a identityGroup =
  ig_primary :: 'a
  ig_aliases :: "'a list"

definition identityKey :: "js_env \<Rightarrow> (string, nat) jsmap \<Rightarrow> characterKey \<Rightarrow> string" where
  "identityKey E ids key =
     (case map_get ids (canonicalCharacterId E key) of
        None \<Rightarrow> ''key'' @ CHR 0x00 # canonicalCharacterId E key
      | Some characterId \<Rightarrow> ''wcl'' @ CHR 0x00 # decimal characterId)"

definition joinIdentity ::
    "('a \<Rightarrow> string) \<Rightarrow> (string, 'a list) jsmap \<times> string list \<Rightarrow> 'a \<Rightarrow> (string, 'a list) jsmap \<times> string list" where
  \<comment> \<open>one candidate: the members by group and the order of the groups\<close>
  "joinIdentity ident = (\<lambda>(members, order) candidate.
     case map_get members (ident candidate) of
       Some existing \<Rightarrow> (map_set (ident candidate) (existing @ [candidate]) members, order)
     | None \<Rightarrow> (map_set (ident candidate) [candidate] members, order @ [ident candidate]))"

definition groupBySharedWarcraftLogsId ::
    "js_env \<Rightarrow> ('a \<Rightarrow> characterKey) \<Rightarrow> 'a list \<Rightarrow> recordedId list \<Rightarrow> ('a list \<Rightarrow> nat) \<Rightarrow> 'a identityGroup list" where
  \<comment> \<open>the choice of the primary is its position among the members: the aliases are the other objects\<close>
  "groupBySharedWarcraftLogsId E keyOf candidates recorded choosePrimary =
     (let ids = map_from (map (\<lambda>entry. (canonicalCharacterId E (ri_key entry), ri_characterId entry)) recorded)
      in case foldl (joinIdentity (\<lambda>c. identityKey E ids (keyOf c))) ([], []) candidates of
           (members, order) \<Rightarrow>
             map (\<lambda>grp. let all = (case map_get members grp of None \<Rightarrow> [] | Some ms \<Rightarrow> ms); i = choosePrimary all
                        in \<lparr>ig_primary = all ! i, ig_aliases = take i all @ drop (Suc i) all\<rparr>) order)"

definition find_index :: "('a \<Rightarrow> bool) \<Rightarrow> 'a list \<Rightarrow> nat option" where
  "find_index P xs = (let i = length (takeWhile (\<lambda>x. \<not> P x) xs) in if i < length xs then Some i else None)"

definition choosePrimary :: "('a \<Rightarrow> bool) \<Rightarrow> ('a \<Rightarrow> bool) \<Rightarrow> 'a list \<Rightarrow> nat" where
  \<comment> \<open>\<open>members.find(isRoot) ?? members.find(isExcluded) ?? members[0]!\<close>\<close>
  "choosePrimary isRoot isExcluded members =
     (case find_index isRoot members of
        Some i \<Rightarrow> i
      | None \<Rightarrow> (case find_index isExcluded members of Some i \<Rightarrow> i | None \<Rightarrow> 0))"

definition identityRow :: "rankedSubject identityGroup \<Rightarrow> rankedSubject" where
  "identityRow identity =
     (if ig_aliases identity = [] then ig_primary identity
      else (ig_primary identity)\<lparr>rs_warcraftLogsAliases := Some (map rs_key (ig_aliases identity))\<rparr>)"

definition identityExcluded ::
    "(rankedSubject \<Rightarrow> bool) \<Rightarrow> (rankedSubject \<Rightarrow> bool) \<Rightarrow> rankedSubject identityGroup \<Rightarrow> bool" where
  "identityExcluded isRoot isExcluded identity \<longleftrightarrow>
     \<not> isRoot (ig_primary identity) \<and> list_ex isExcluded (ig_primary identity # ig_aliases identity)"

subsection \<open>Subjects of a stored snapshot\<close>

datatype snapshotState = Complete_state | Partial_state

record snapshotCharacter =
  sc_key :: characterKey
  sc_displayName :: string
  sc_className :: string
  sc_level :: int
  sc_guild :: "characterGuild option"
  sc_raiderIoUrl :: string
  sc_source :: discoverySource

record storedSnapshot =
  ss_id :: string
  ss_rootKey :: characterKey
  ss_state :: snapshotState
  ss_limitationCode :: "string option"
  ss_characters :: "snapshotCharacter list"

datatype connectionOrigin = Dossier_origin | Applicant_sheet_origin | Bot_origin

record manualCharacter =
  mc_key :: characterKey
  mc_displayName :: string
  mc_className :: "string option"
  mc_level :: int
  mc_raiderIoUrl :: string
  mc_pending :: bool
  mc_origin :: connectionOrigin
  mc_excluded :: bool

record 'e subjectRepositories =
  sr_getCurrent :: "characterKey \<Rightarrow> 'e + storedSnapshot option"
  sr_getCurrentDeclaring :: "(characterKey \<Rightarrow> 'e + storedSnapshot option) option"
  sr_manualList :: "characterKey \<Rightarrow> 'e + manualCharacter list"
  sr_listDiscoveredExclusions :: "(characterKey \<Rightarrow> 'e + characterKey list) option"
  sr_warcraftLogsCharacterIds :: "(characterKey list \<Rightarrow> 'e + recordedId list) option"

record resolvedSubjects =
  rv_snapshot :: storedSnapshot
  rv_selected :: "rankedSubject list"
  rv_skipped :: "rankedSubject list"
  rv_excludedOrdered :: "rankedSubject list"
  rv_provisional :: bool

definition snapshotSubject :: "snapshotCharacter \<Rightarrow> rankedSubject" where
  \<comment> \<open>a stored character used as a subject\<close>
  "snapshotSubject c =
     \<lparr>rs_key = sc_key c, rs_displayName = sc_displayName c, rs_className = Some (sc_className c),
      rs_guild = sc_guild c, rs_raiderIoUrl = sc_raiderIoUrl c, rs_source = Snapshot_source (sc_source c),
      rs_pending = None, rs_fromApplication = False, rs_warcraftLogsAliases = None, rs_level = sc_level c\<rparr>"

definition borrowSnapshot :: "js_env \<Rightarrow> characterKey \<Rightarrow> storedSnapshot option \<Rightarrow> storedSnapshot option" where
  "borrowSnapshot E key containing =
     (case containing of
        None \<Rightarrow> None
      | Some snapshot \<Rightarrow>
          (let i = canonicalCharacterId E key;
               member = find (\<lambda>c. canonicalCharacterId E (sc_key c) = i) (ss_characters snapshot)
           in if map_option sc_source member \<noteq> Some Claimed \<and> map_option sc_source member \<noteq> Some Declared_main then None
              else (let formerRootId = canonicalCharacterId E (ss_rootKey snapshot)
                    in Some (snapshot\<lparr>ss_rootKey := key,
                         ss_characters := map (\<lambda>c. let characterId = canonicalCharacterId E (sc_key c)
                           in if characterId = i then c\<lparr>sc_source := Input\<rparr>
                              else if characterId = formerRootId then c\<lparr>sc_source := Claimed\<rparr>
                              else c) (ss_characters snapshot)\<rparr>))))"

definition manualSubject :: "manualCharacter \<Rightarrow> characterGuild option \<Rightarrow> rankedSubject" where
  "manualSubject c guild =
     \<lparr>rs_key = mc_key c, rs_displayName = mc_displayName c, rs_className = mc_className c, rs_guild = guild,
      rs_raiderIoUrl = mc_raiderIoUrl c, rs_source = Manually_added_source, rs_pending = Some (mc_pending c),
      rs_fromApplication = (mc_origin c = Applicant_sheet_origin \<or> mc_origin c = Bot_origin),
      rs_warcraftLogsAliases = None, rs_level = mc_level c\<rparr>"

record admissions =
  ad_seen :: "string list"
  ad_manual :: "rankedSubject list"
  ad_excluded :: "rankedSubject list"
  ad_manualExcludedIds :: "string list"

definition admit :: "js_env \<Rightarrow> bool \<Rightarrow> rankedSubject \<Rightarrow> admissions \<Rightarrow> admissions" where
  \<comment> \<open>\<open>admit(candidate, into)\<close>\<close>
  "admit E intoExcluded candidate s =
     (let i = canonicalCharacterId E (rs_key candidate)
      in if i \<in> set (ad_seen s) then s
         else if intoExcluded then s\<lparr>ad_seen := set_add i (ad_seen s), ad_excluded := ad_excluded s @ [candidate]\<rparr>
         else s\<lparr>ad_seen := set_add i (ad_seen s), ad_manual := ad_manual s @ [candidate]\<rparr>)"

definition connectedGuild :: "js_env \<Rightarrow> characterKey \<Rightarrow> storedSnapshot option \<Rightarrow> characterGuild option" where
  "connectedGuild E key theirs =
     (case theirs of
        None \<Rightarrow> None
      | Some snapshot \<Rightarrow>
          (case find (\<lambda>d. canonicalCharacterId E (sc_key d) = canonicalCharacterId E key) (ss_characters snapshot) of
             None \<Rightarrow> None
           | Some d \<Rightarrow> sc_guild d))"

definition admitManual :: "js_env \<Rightarrow> manualCharacter \<Rightarrow> storedSnapshot option \<Rightarrow> admissions \<Rightarrow> admissions" where
  \<comment> \<open>one manual connection, once its snapshot is read\<close>
  "admitManual E c theirs s =
     (let s1 = (if mc_excluded c
                then s\<lparr>ad_manualExcludedIds := set_add (canonicalCharacterId E (mc_key c)) (ad_manualExcludedIds s)\<rparr>
                else s);
          s2 = admit E (mc_excluded c) (manualSubject c (connectedGuild E (mc_key c) theirs)) s1
      in if mc_pending c then s2
         else foldl (\<lambda>s d. admit E False (snapshotSubject d) s) s2
                (case theirs of None \<Rightarrow> [] | Some snapshot \<Rightarrow> ss_characters snapshot))"

fun admitManuals ::
    "js_env \<Rightarrow> (characterKey \<Rightarrow> 'e + storedSnapshot option) \<Rightarrow> manualCharacter list \<Rightarrow> admissions \<Rightarrow> 'e + admissions" where
  "admitManuals E getCurrent [] s = Inr s"
| "admitManuals E getCurrent (c # cs) s =
     (case (if mc_pending c then Inr None else getCurrent (mc_key c)) of
        Inl err \<Rightarrow> Inl err
      | Inr theirs \<Rightarrow> admitManuals E getCurrent cs (admitManual E c theirs s))"

definition resolveRows ::
    "js_env \<Rightarrow> nat \<Rightarrow> storedSnapshot \<Rightarrow> bool \<Rightarrow> admissions \<Rightarrow> string list \<Rightarrow> recordedId list \<Rightarrow> resolvedSubjects" where
  \<comment> \<open>from the snapshot, what was admitted, the discovered exclusions and the recorded ids\<close>
  "resolveRows E cap snapshot provisional s exclusions recorded =
     (let rootId = canonicalCharacterId E (ss_rootKey snapshot);
          isExcluded = (\<lambda>c. canonicalCharacterId E (rs_key c) \<in> set exclusions);
          isRoot = (\<lambda>c. canonicalCharacterId E (rs_key c) = rootId);
          ordered = sort_by (compareRootFirst E rootId) (map snapshotSubject (ss_characters snapshot) @ ad_manual s);
          identities = groupBySharedWarcraftLogsId E rs_key (ordered @ ad_excluded s) recorded (choosePrimary isRoot isExcluded);
          includedOrdered = map identityRow (filter (\<lambda>i. \<not> identityExcluded isRoot isExcluded i) identities);
          excludedIdentities = map identityRow (filter (identityExcluded isRoot isExcluded) identities);
          selected = take cap includedOrdered
      in \<lparr>rv_snapshot = snapshot, rv_selected = selected, rv_skipped = drop (length selected) includedOrdered,
          rv_excludedOrdered = sort_by (compareByLevelThenKey E) excludedIdentities, rv_provisional = provisional\<rparr>)"

definition findSnapshot ::
    "js_env \<Rightarrow> characterKey \<Rightarrow> 'e subjectRepositories \<Rightarrow> 'e + (storedSnapshot \<times> bool) option" where
  \<comment> \<open>the character's own snapshot, or one borrowed, which is provisional\<close>
  "findSnapshot E key repositories =
     (case sr_getCurrent repositories key of
        Inl err \<Rightarrow> Inl err
      | Inr (Some own) \<Rightarrow> Inr (Some (own, False))
      | Inr None \<Rightarrow>
          (case (case sr_getCurrentDeclaring repositories of None \<Rightarrow> Inr None | Some getDeclaring \<Rightarrow> getDeclaring key) of
             Inl err \<Rightarrow> Inl err
           | Inr containing \<Rightarrow> Inr (map_option (\<lambda>s. (s, True)) (borrowSnapshot E key containing))))"

definition legacyResolveSubjects ::
    "js_env \<Rightarrow> characterKey \<Rightarrow> 'e subjectRepositories \<Rightarrow> nat \<Rightarrow> 'e + resolvedSubjects option" where
  "legacyResolveSubjects E key repositories cap =
     (case findSnapshot E key repositories of
        Inl err \<Rightarrow> Inl err
      | Inr None \<Rightarrow> Inr None
      | Inr (Some (snapshot, provisional)) \<Rightarrow>
          (case sr_manualList repositories (ss_rootKey snapshot) of
             Inl err \<Rightarrow> Inl err
           | Inr connections \<Rightarrow>
               (case admitManuals E (sr_getCurrent repositories) connections
                       \<lparr>ad_seen = map (\<lambda>c. canonicalCharacterId E (sc_key c)) (ss_characters snapshot),
                        ad_manual = [], ad_excluded = [], ad_manualExcludedIds = []\<rparr> of
                  Inl err \<Rightarrow> Inl err
                | Inr s \<Rightarrow>
                    (case (case sr_listDiscoveredExclusions repositories of
                             None \<Rightarrow> Inr [] | Some listExclusions \<Rightarrow> listExclusions (ss_rootKey snapshot)) of
                       Inl err \<Rightarrow> Inl err
                     | Inr discovered \<Rightarrow>
                         (let candidates = sort_by (compareRootFirst E (canonicalCharacterId E (ss_rootKey snapshot)))
                                             (map snapshotSubject (ss_characters snapshot) @ ad_manual s) @ ad_excluded s;
                              recorded = (case sr_warcraftLogsCharacterIds repositories of
                                            None \<Rightarrow> []
                                          | Some characterIds \<Rightarrow> (case characterIds (map rs_key candidates) of Inl _ \<Rightarrow> [] | Inr ids \<Rightarrow> ids))
                          in Inr (Some (resolveRows E cap snapshot provisional s
                               (map (canonicalCharacterId E) discovered @ ad_manualExcludedIds s) recorded)))))))"

subsection \<open>Subjects of a character group\<close>

record graphCharacter =
  gc_key :: characterKey
  gc_displayName :: string
  gc_className :: string
  gc_level :: int
  gc_raiderIoUrl :: string

record manualRow =
  mr_makerId :: string
  mr_targetId :: string
  mr_excluded :: bool

record undiscoveredTarget =
  ut_makerId :: string
  ut_targetKey :: characterKey
  ut_excluded :: bool

record discoveredExclusion =
  de_makerId :: string
  de_targetId :: string

record latestOutcome =
  so_state :: snapshotState
  so_limitationCode :: "string option"

record groupGraph =
  gg_characters :: "(string, graphCharacter) jsmap"
  gg_idOf :: "characterKey \<Rightarrow> string option"
  gg_groupOf :: "(string, string) jsmap"
  gg_links :: "strengthLink list"
  gg_manual :: "manualRow list"
  gg_undiscoveredManualTargets :: "undiscoveredTarget list"
  gg_discoveredExclusions :: "discoveredExclusion list"
  gg_suppressed :: "string list"
  gg_warcraftLogsIds :: "(string, nat) jsmap"
  gg_sharedIdentity :: "string \<Rightarrow> string list"
  gg_latestSnapshot :: "(string, latestOutcome) jsmap"

subsubsection \<open>The members of a page\<close>

definition groupNeighbours :: "groupGraph \<Rightarrow> string \<Rightarrow> (string, string list) jsmap" where
  \<comment> \<open>\<open>neighbours\<close>, of the links between characters of the group\<close>
  "groupNeighbours graph grp =
     foldl (\<lambda>m l. if map_get (gg_groupOf graph) (sl_a l) \<noteq> Some grp \<or> map_get (gg_groupOf graph) (sl_b l) \<noteq> Some grp then m
                  else bucket_push (sl_b l) (sl_a l) (bucket_push (sl_a l) (sl_b l) m)) [] (gg_links graph)"

record pageWalk =
  pw_members :: "string list"
  pw_queue :: "string list"

definition visitMember :: "string list \<Rightarrow> pageWalk \<Rightarrow> string \<Rightarrow> pageWalk" where
  \<comment> \<open>one neighbour of the character walked from\<close>
  "visitMember suppressed w i =
     (if i \<in> set (pw_members w) \<or> i \<in> set suppressed then w
      else w\<lparr>pw_members := set_add i (pw_members w), pw_queue := pw_queue w @ [i]\<rparr>)"

definition visitMembers :: "string list \<Rightarrow> (string, string list) jsmap \<Rightarrow> string \<Rightarrow> pageWalk \<Rightarrow> pageWalk" where
  "visitMembers suppressed m node w = foldl (visitMember suppressed) w (neighbours m node)"

definition neighbourIds :: "(string, string list) jsmap \<Rightarrow> string set" where
  "neighbourIds m = \<Union> (set ` snd ` set m)"

definition pageMeasure :: "(string, string list) jsmap \<Rightarrow> pageWalk \<Rightarrow> nat" where
  "pageMeasure m w = length (pw_queue w) + card (neighbourIds m - set (pw_members w))"

lemma finite_neighbourIds [simp]: "finite (neighbourIds m)"
  by (simp add: neighbourIds_def)

lemma neighbours_in: "i \<in> set (neighbours m k) \<Longrightarrow> i \<in> neighbourIds m"
proof -
  assume i: "i \<in> set (neighbours m k)"
  then obtain ids where "map_of m k = Some ids" "i \<in> set ids"
    by (cases "map_of m k") (simp_all add: neighbours_def)
  then have "(k, ids) \<in> set m" "i \<in> set ids" by (simp_all add: map_of_SomeD)
  then show ?thesis unfolding neighbourIds_def by (metis UN_I image_eqI snd_conv)
qed

lemma visitMember_measure:
  assumes "i \<in> neighbourIds m"
  shows "pageMeasure m (visitMember suppressed w i) \<le> pageMeasure m w"
proof (cases "i \<in> set (pw_members w) \<or> i \<in> set suppressed")
  case False
  have "card (neighbourIds m - set (pw_members w)) = Suc (card (neighbourIds m - insert i (set (pw_members w))))"
    using assms False card_Suc_Diff1 [of "neighbourIds m - set (pw_members w)" i] by (simp add: Diff_insert [symmetric])
  then show ?thesis using False by (simp add: visitMember_def pageMeasure_def)
qed (auto simp: visitMember_def)

lemma visitMembers_measure: "pageMeasure m (visitMembers suppressed m node w) \<le> pageMeasure m w"
proof -
  have "pageMeasure m (foldl (visitMember suppressed) w ids) \<le> pageMeasure m w"
    if "\<And>i. i \<in> set ids \<Longrightarrow> i \<in> neighbourIds m" for ids w
    using that
  proof (induction ids arbitrary: w)
    case (Cons i ids)
    have "pageMeasure m (foldl (visitMember suppressed) (visitMember suppressed w i) ids) \<le>
        pageMeasure m (visitMember suppressed w i)"
      using Cons by simp
    also have "\<dots> \<le> pageMeasure m w" by (rule visitMember_measure) (use Cons.prems in simp)
    finally show ?case by simp
  qed simp
  then show ?thesis unfolding visitMembers_def using neighbours_in by blast
qed

function walkMembers :: "string list \<Rightarrow> (string, string list) jsmap \<Rightarrow> pageWalk \<Rightarrow> pageWalk" where
  "walkMembers suppressed m w =
     (case pw_queue w of
        [] \<Rightarrow> w
      | node # queue \<Rightarrow> walkMembers suppressed m (visitMembers suppressed m node (w\<lparr>pw_queue := queue\<rparr>)))"
  by pat_completeness auto

termination
proof (relation "measure (\<lambda>(suppressed, m, w). pageMeasure m w)")
  fix suppressed :: "string list" and m and w :: pageWalk and node queue
  assume "pw_queue w = node # queue"
  then have "pageMeasure m (w\<lparr>pw_queue := queue\<rparr>) < pageMeasure m w" by (simp add: pageMeasure_def)
  then show "((suppressed, m, visitMembers suppressed m node (w\<lparr>pw_queue := queue\<rparr>)), (suppressed, m, w))
      \<in> measure (\<lambda>(suppressed, m, w). pageMeasure m w)"
    using visitMembers_measure [of m suppressed node "w\<lparr>pw_queue := queue\<rparr>"] by simp
qed simp

declare walkMembers.simps [simp del]

definition pageMembers :: "string \<Rightarrow> groupGraph \<Rightarrow> string list" where
  "pageMembers originId graph =
     (if originId \<in> set (gg_suppressed graph) then []
      else case map_get (gg_groupOf graph) originId of
             None \<Rightarrow> [originId]
           | Some grp \<Rightarrow> pw_members (walkMembers (gg_suppressed graph) (groupNeighbours graph grp)
               \<lparr>pw_members = [originId], pw_queue = [originId]\<rparr>))"

subsubsection \<open>The page\<close>

fun sourceFor :: "linkStrength \<Rightarrow> subjectSource" where
  \<comment> \<open>\<open>SOURCE_FOR\<close>\<close>
  "sourceFor Raiderio_strength = Snapshot_source Claimed"
| "sourceFor Fingerprint_strength = Snapshot_source Fingerprint_source"
| "sourceFor Manual_strength = Manually_added_source"

record pageResearch =
  pr_state :: snapshotState
  pr_limitationCodes :: "string list"

record groupSubjects =
  gs_selected :: "rankedSubject list"
  gs_skipped :: "rankedSubject list"
  gs_excluded :: "rankedSubject list"
  gs_research :: pageResearch

definition memberSubject :: "groupGraph \<Rightarrow> string \<Rightarrow> (string, linkStrength) jsmap \<Rightarrow> string \<Rightarrow> rankedSubject option" where
  \<comment> \<open>\<open>subject\<close>; \<^term>\<open>None\<close>: the id has no character, and reading its key throws\<close>
  "memberSubject graph originId strengths i =
     (case map_get (gg_characters graph) i of
        None \<Rightarrow> None
      | Some c \<Rightarrow> Some
          \<lparr>rs_key = gc_key c, rs_displayName = gc_displayName c, rs_className = Some (gc_className c), rs_guild = None,
           rs_raiderIoUrl = gc_raiderIoUrl c,
           rs_source = (if i = originId then Snapshot_source Input
                        else sourceFor (case map_get strengths i of Some s \<Rightarrow> s | None \<Rightarrow> Fingerprint_strength)),
           rs_pending = None, rs_fromApplication = False, rs_warcraftLogsAliases = None, rs_level = gc_level c\<rparr>)"

definition isSelfExclusion :: "groupGraph \<Rightarrow> string \<Rightarrow> string \<Rightarrow> bool" where
  "isSelfExclusion graph makerId targetId \<longleftrightarrow> targetId \<in> set (gg_sharedIdentity graph makerId)"

definition excludedIdsOf :: "groupGraph \<Rightarrow> string \<Rightarrow> string list \<Rightarrow> string list" where
  \<comment> \<open>\<open>excludedIds\<close>\<close>
  "excludedIdsOf graph originId members =
     (let manual = foldl (\<lambda>ids row. if mr_excluded row \<and> mr_makerId row \<in> set members
                            \<and> \<not> isSelfExclusion graph (mr_makerId row) (mr_targetId row)
                          then set_add (mr_targetId row) ids else ids) [] (gg_manual graph);
          discovered = foldl (\<lambda>ids row. if de_makerId row \<in> set members
                            \<and> \<not> isSelfExclusion graph (de_makerId row) (de_targetId row)
                          then set_add (de_targetId row) ids else ids) manual (gg_discoveredExclusions graph)
      in filter (\<lambda>i. i \<noteq> originId) discovered)"

definition undiscoveredSubject :: "characterKey \<Rightarrow> rankedSubject" where
  "undiscoveredSubject key =
     \<lparr>rs_key = key, rs_displayName = cname key, rs_className = None, rs_guild = None, rs_raiderIoUrl = toRaiderIoUrl key,
      rs_source = Manually_added_source, rs_pending = None, rs_fromApplication = False, rs_warcraftLogsAliases = None,
      rs_level = 0\<rparr>"

definition addUndiscovered ::
    "js_env \<Rightarrow> groupGraph \<Rightarrow> string list \<Rightarrow> (string, rankedSubject) jsmap \<times> string list \<Rightarrow> undiscoveredTarget \<Rightarrow>
     (string, rankedSubject) jsmap \<times> string list" where
  \<comment> \<open>one row: the undiscovered targets by canonical id and those excluded\<close>
  "addUndiscovered E graph members = (\<lambda>(undiscovered, excluded) row.
     if ut_makerId row \<notin> set members \<or> gg_idOf graph (ut_targetKey row) \<noteq> None then (undiscovered, excluded)
     else (let canonical = canonicalCharacterId E (ut_targetKey row);
               excluded' = (if ut_excluded row then set_add canonical excluded else excluded)
           in (if map_has undiscovered canonical then (undiscovered, excluded')
               else (map_set canonical (undiscoveredSubject (ut_targetKey row)) undiscovered, excluded'))))"

definition undiscoveredOf ::
    "js_env \<Rightarrow> groupGraph \<Rightarrow> string list \<Rightarrow> (string, rankedSubject) jsmap \<times> string list" where
  "undiscoveredOf E graph members = foldl (addUndiscovered E graph members) ([], []) (gg_undiscoveredManualTargets graph)"

definition recordedOf :: "groupGraph \<Rightarrow> string list \<Rightarrow> recordedId list option" where
  \<comment> \<open>\<open>recorded\<close>\<close>
  "recordedOf graph members =
     map_option concat (those (map (\<lambda>i. case map_get (gg_warcraftLogsIds graph) i of
         None \<Rightarrow> Some []
       | Some wcl \<Rightarrow> map_option (\<lambda>c. [\<lparr>ri_key = gc_key c, ri_characterId = wcl\<rparr>]) (map_get (gg_characters graph) i)) members))"

definition researchOf :: "groupGraph \<Rightarrow> string \<Rightarrow> string list \<Rightarrow> pageResearch" where
  "researchOf graph originId members =
     (let contributing = List.map_filter (map_get (gg_latestSnapshot graph)) members;
          originHasComplete = map_option so_state (map_get (gg_latestSnapshot graph) originId) = Some Complete_state;
          allComplete = list_all (\<lambda>s. so_state s = Complete_state) contributing;
          codes = List.map_filter (\<lambda>s. case so_limitationCode s of None \<Rightarrow> None | Some c \<Rightarrow> if c = [] then None else Some c) contributing
      in \<lparr>pr_state = (if allComplete \<and> originHasComplete then Complete_state else Partial_state),
          pr_limitationCodes = sort (remdups codes)\<rparr>)"

definition assemblePage ::
    "js_env \<Rightarrow> characterKey \<Rightarrow> string \<Rightarrow> groupGraph \<Rightarrow> nat \<Rightarrow> string list \<Rightarrow> rankedSubject list \<Rightarrow> recordedId list \<Rightarrow> groupSubjects" where
  \<comment> \<open>from the members, each with its subject, and the recorded ids\<close>
  "assemblePage E originKey originId graph cap members subjects recorded =
     (let originCanonical = canonicalCharacterId E originKey;
          excludedIds = excludedIdsOf graph originId members;
          (undiscovered, undiscoveredExcluded) = undiscoveredOf E graph members;
          ordered = sort_by (compareRootFirst E originCanonical) (subjects @ map snd undiscovered);
          idByCanonical = map_from (zip (map (\<lambda>s. canonicalCharacterId E (rs_key s)) subjects) members);
          excludedSubject = (\<lambda>c. let canonical = canonicalCharacterId E (rs_key c)
             in (case map_get idByCanonical canonical of Some i \<Rightarrow> i | None \<Rightarrow> []) \<in> set excludedIds
                \<or> canonical \<in> set undiscoveredExcluded);
          isOrigin = (\<lambda>c. canonicalCharacterId E (rs_key c) = originCanonical);
          identities = groupBySharedWarcraftLogsId E rs_key ordered recorded (choosePrimary isOrigin excludedSubject);
          included = map identityRow (filter (\<lambda>i. \<not> identityExcluded isOrigin excludedSubject i) identities);
          excluded = map identityRow (filter (identityExcluded isOrigin excludedSubject) identities)
      in \<lparr>gs_selected = take cap included, gs_skipped = drop cap included,
          gs_excluded = sort_by (compareByLevelThenKey E) excluded, gs_research = researchOf graph originId members\<rparr>)"

definition pageLinks :: "groupGraph \<Rightarrow> string list \<Rightarrow> strengthLink list" where
  "pageLinks graph members = filter (\<lambda>l. sl_a l \<in> set members \<and> sl_b l \<in> set members) (gg_links graph)"

definition resolveGroupSubjects :: "js_env \<Rightarrow> characterKey \<Rightarrow> groupGraph \<Rightarrow> nat \<Rightarrow> groupSubjects option option" where
  \<comment> \<open>\<^term>\<open>None\<close>: it throws\<close>
  "resolveGroupSubjects E originKey graph cap =
     (case gg_idOf graph originKey of
        None \<Rightarrow> Some None
      | Some originId \<Rightarrow>
          if originId = [] \<or> originId \<in> set (gg_suppressed graph) then Some None
          else (let members = pageMembers originId graph
                in case pathStrengths originId (pageLinks graph members) of
                     None \<Rightarrow> None
                   | Some strengths \<Rightarrow>
                       (case (those (map (memberSubject graph originId strengths) members), recordedOf graph members) of
                          (Some subjects, Some recorded) \<Rightarrow>
                            Some (Some (assemblePage E originKey originId graph cap members subjects recorded))
                        | _ \<Rightarrow> None)))"

end
