(* ===== verification/GroupSubjectsCorrect.thy ===== *)
theory GroupSubjectsCorrect
  imports GroupSubjects LinkStrengthCorrect
begin

section \<open>Pages show every member once, labelled by its paths\<close>

text \<open>
  The walk of a page finds exactly the characters its group reaches without passing a suppressed one;
  each is labelled by the simple paths between members; and every candidate is on the page once, as a
  row or as an alias of one, with the searched character leading.
\<close>

subsection \<open>The members of a page\<close>

definition pageStep :: "groupGraph \<Rightarrow> string \<Rightarrow> string \<Rightarrow> bool" where
  "pageStep graph x y \<longleftrightarrow>
     connects (\<lambda>_. True) (gg_links graph) x y \<and> map_get (gg_groupOf graph) x = map_get (gg_groupOf graph) y \<and>
     map_get (gg_groupOf graph) x \<noteq> None \<and> y \<notin> set (gg_suppressed graph)"

definition pageReach :: "string \<Rightarrow> groupGraph \<Rightarrow> string set" where
  \<comment> \<open>what the origin reaches in its group without passing a suppressed character\<close>
  "pageReach originId graph =
     (if originId \<in> set (gg_suppressed graph) then {} else {x. (pageStep graph)\<^sup>*\<^sup>* originId x})"

lemma neighbours_both:
  "y \<in> set (neighbours (bucket_push b a (bucket_push a b m)) x) \<longleftrightarrow>
     y \<in> set (neighbours m x) \<or> a = x \<and> b = y \<or> a = y \<and> b = x"
  by (cases "x = a"; cases "x = b") (simp_all add: neighbours_bucket_push eq_commute disj_commute)

lemma neighbours_groupNeighbours:
  "y \<in> set (neighbours (groupNeighbours graph grp) x) \<longleftrightarrow>
     connects (\<lambda>_. True) (gg_links graph) x y \<and>
     map_get (gg_groupOf graph) x = Some grp \<and> map_get (gg_groupOf graph) y = Some grp"
proof -
  let ?step = "\<lambda>m l. if map_get (gg_groupOf graph) (sl_a l) \<noteq> Some grp \<or> map_get (gg_groupOf graph) (sl_b l) \<noteq> Some grp then m
                  else bucket_push (sl_b l) (sl_a l) (bucket_push (sl_a l) (sl_b l) m)"
  have "y \<in> set (neighbours (foldl ?step m links) x) \<longleftrightarrow> y \<in> set (neighbours m x) \<or>
      connects (\<lambda>_. True) links x y \<and>
      map_get (gg_groupOf graph) x = Some grp \<and> map_get (gg_groupOf graph) y = Some grp" for m links
  proof (induction links arbitrary: m)
    case (Cons l links)
    have here: "connects (\<lambda>_. True) (l # links) x y \<longleftrightarrow>
        (sl_a l = x \<and> sl_b l = y \<or> sl_a l = y \<and> sl_b l = x) \<or> connects (\<lambda>_. True) links x y"
      unfolding connects_def by simp
    show ?case
    proof (cases "map_get (gg_groupOf graph) (sl_a l) = Some grp \<and> map_get (gg_groupOf graph) (sl_b l) = Some grp")
      case True
      let ?J = "sl_a l = x \<and> sl_b l = y \<or> sl_a l = y \<and> sl_b l = x"
      have "y \<in> set (neighbours (?step m l) x) \<longleftrightarrow> y \<in> set (neighbours m x) \<or> ?J"
        using True by (simp add: neighbours_both)
      moreover have "?J \<Longrightarrow> map_get (gg_groupOf graph) x = Some grp \<and> map_get (gg_groupOf graph) y = Some grp"
        using True by metis
      ultimately show ?thesis unfolding foldl.simps Cons.IH here by blast
    next
      case False
      then show ?thesis unfolding foldl.simps Cons.IH here by auto
    qed
  qed (simp add: connects_def)
  moreover have "y \<notin> set (neighbours [] x)" by (simp add: neighbours_def)
  ultimately show ?thesis unfolding groupNeighbours_def by simp
qed

definition closedWalk :: "string list \<Rightarrow> (string, string list) jsmap \<Rightarrow> string set \<Rightarrow> string set \<Rightarrow> bool" where
  \<comment> \<open>members not waiting have their neighbours among the members\<close>
  "closedWalk suppressed m members waiting \<longleftrightarrow>
     (\<forall>x \<in> members - waiting. set (neighbours m x) - set suppressed \<subseteq> members)"

definition memberWalk :: "string \<Rightarrow> string list \<Rightarrow> (string, string list) jsmap \<Rightarrow> pageWalk \<Rightarrow> bool" where
  "memberWalk originId suppressed m w \<longleftrightarrow>
     originId \<in> set (pw_members w) \<and> distinct (pw_members w) \<and> set (pw_queue w) \<subseteq> set (pw_members w) \<and>
     set (pw_members w) \<subseteq> {x. (\<lambda>x y. y \<in> set (neighbours m x) \<and> y \<notin> set suppressed)\<^sup>*\<^sup>* originId x}"

lemma visitMember_sets:
  "set (pw_members (visitMember suppressed w i)) = set (pw_members w) \<union> ({i} - set suppressed)"
  "set (pw_queue (visitMember suppressed w i)) = set (pw_queue w) \<union> ({i} - set suppressed - set (pw_members w))"
  "distinct (pw_members (visitMember suppressed w i)) = distinct (pw_members w)"
  by (auto simp: visitMember_def)

lemma visitMember_foldl:
  "set (pw_members (foldl (visitMember suppressed) w ids)) = set (pw_members w) \<union> (set ids - set suppressed)"
  "set (pw_queue (foldl (visitMember suppressed) w ids)) = set (pw_queue w) \<union> (set ids - set suppressed - set (pw_members w))"
  "distinct (pw_members (foldl (visitMember suppressed) w ids)) = distinct (pw_members w)"
  by (induction ids arbitrary: w) (auto simp: visitMember_sets)

lemma walkMembers_walk:
  assumes "memberWalk originId suppressed m w"
    and "closedWalk suppressed m (set (pw_members w)) (set (pw_queue w))"
  shows "memberWalk originId suppressed m (walkMembers suppressed m w) \<and>
     closedWalk suppressed m (set (pw_members (walkMembers suppressed m w))) {}"
  using assms
proof (induction suppressed m w rule: walkMembers.induct)
  case (1 suppressed m w)
  show ?case
  proof (cases "pw_queue w")
    case Nil
    then show ?thesis using "1.prems" by (simp add: walkMembers.simps)
  next
    case (Cons node queue)
    let ?w = "visitMembers suppressed m node (w\<lparr>pw_queue := queue\<rparr>)"
    have node: "node \<in> set (pw_members w)" using "1.prems"(1) Cons by (simp add: memberWalk_def)
    have members: "set (pw_members ?w) = set (pw_members w) \<union> (set (neighbours m node) - set suppressed)"
      and waiting: "set (pw_queue ?w) = set queue \<union> (set (neighbours m node) - set suppressed - set (pw_members w))"
      and distinct: "distinct (pw_members ?w) = distinct (pw_members w)"
      by (simp_all add: visitMembers_def visitMember_foldl)
    let ?R = "\<lambda>x y. y \<in> set (neighbours m x) \<and> y \<notin> set suppressed"
    have reach: "?R\<^sup>*\<^sup>* originId node" using node "1.prems"(1) by (auto simp: memberWalk_def)
    have "?R\<^sup>*\<^sup>* originId y" if "y \<in> set (neighbours m node) - set suppressed" for y
      by (rule rtranclp.rtrancl_into_rtrancl [OF reach]) (use that in simp)
    then have "memberWalk originId suppressed m ?w"
      using "1.prems"(1) members waiting distinct Cons unfolding memberWalk_def by auto
    moreover have "closedWalk suppressed m (set (pw_members ?w)) (set (pw_queue ?w))"
      using "1.prems"(2) members waiting Cons unfolding closedWalk_def by auto
    ultimately have "memberWalk originId suppressed m (walkMembers suppressed m ?w) \<and>
        closedWalk suppressed m (set (pw_members (walkMembers suppressed m ?w))) {}"
      by (rule "1.IH" [OF Cons])
    moreover have "walkMembers suppressed m w = walkMembers suppressed m ?w"
      using Cons by (subst walkMembers.simps) simp
    ultimately show ?thesis by simp
  qed
qed

lemma page_members_reach:
  "set (pageMembers originId graph) = pageReach originId graph" "distinct (pageMembers originId graph)"
proof -
  have "set (pageMembers originId graph) = pageReach originId graph \<and> distinct (pageMembers originId graph)"
  proof (cases "originId \<in> set (gg_suppressed graph)")
    case False
    show ?thesis
    proof (cases "map_get (gg_groupOf graph) originId")
      case None
      have "x = originId" if "(pageStep graph)\<^sup>*\<^sup>* originId x" for x
        using that by (induction rule: rtranclp_induct) (use None in \<open>auto simp: pageStep_def\<close>)
      then show ?thesis using None False by (auto simp: pageMembers_def pageReach_def)
    next
      case (Some grp)
      let ?m = "groupNeighbours graph grp" and ?w = "\<lparr>pw_members = [originId], pw_queue = [originId]\<rparr>"
      let ?R = "\<lambda>x y. y \<in> set (neighbours ?m x) \<and> y \<notin> set (gg_suppressed graph)"
      have walk: "memberWalk originId (gg_suppressed graph) ?m (walkMembers (gg_suppressed graph) ?m ?w)"
        and closed: "closedWalk (gg_suppressed graph) ?m (set (pw_members (walkMembers (gg_suppressed graph) ?m ?w))) {}"
        using walkMembers_walk [of originId "gg_suppressed graph" ?m ?w] by (simp_all add: memberWalk_def closedWalk_def)
      have members: "pageMembers originId graph = pw_members (walkMembers (gg_suppressed graph) ?m ?w)"
        using False Some by (simp add: pageMembers_def)
      have "x \<in> set (pageMembers originId graph)" if "?R\<^sup>*\<^sup>* originId x" for x
        using that
      proof (induction rule: rtranclp_induct)
        case base
        then show ?case using walk members by (simp add: memberWalk_def)
      next
        case (step y z)
        then show ?case using closed members unfolding closedWalk_def by auto
      qed
      moreover have "?R\<^sup>*\<^sup>* originId x \<longleftrightarrow> (pageStep graph)\<^sup>*\<^sup>* originId x" for x
      proof
        assume "?R\<^sup>*\<^sup>* originId x"
        then show "(pageStep graph)\<^sup>*\<^sup>* originId x"
          by (rule walk_mono) (auto simp: pageStep_def neighbours_groupNeighbours)
      next
        assume "(pageStep graph)\<^sup>*\<^sup>* originId x"
        then have "?R\<^sup>*\<^sup>* originId x \<and> map_get (gg_groupOf graph) x = Some grp"
        proof (induction rule: rtranclp_induct)
          case (step y z)
          then have "?R y z" "map_get (gg_groupOf graph) z = Some grp"
            by (auto simp: pageStep_def neighbours_groupNeighbours)
          moreover have "?R\<^sup>*\<^sup>* originId y" using step.IH by (rule conjunct1)
          then have "?R\<^sup>*\<^sup>* originId z" by (rule rtranclp.rtrancl_into_rtrancl) fact
          ultimately show ?case by (intro conjI)
        qed (simp add: Some)
        then show "?R\<^sup>*\<^sup>* originId x" by simp
      qed
      ultimately show ?thesis
        using walk members False unfolding memberWalk_def pageReach_def by auto
    qed
  qed (simp add: pageMembers_def pageReach_def)
  then show "set (pageMembers originId graph) = pageReach originId graph" "distinct (pageMembers originId graph)"
    by simp_all
qed

subsection \<open>Labels\<close>

lemma page_member_linked:
  assumes "originId \<notin> set (gg_suppressed graph)" and "i \<in> set (pageMembers originId graph)"
  shows "\<exists>path. spath (connects (\<lambda>_. True) (pageLinks graph (pageMembers originId graph))) path originId i"
proof -
  have "(pageStep graph)\<^sup>*\<^sup>* originId i" using assms page_members_reach by (auto simp: pageReach_def)
  then have "(connects (\<lambda>_. True) (pageLinks graph (pageMembers originId graph)))\<^sup>*\<^sup>* originId i"
  proof (induction rule: rtranclp_induct)
    case (step y z)
    have "(pageStep graph)\<^sup>*\<^sup>* originId z" using step.hyps by (rule rtranclp.rtrancl_into_rtrancl)
    then have "y \<in> set (pageMembers originId graph)" "z \<in> set (pageMembers originId graph)"
      using step.hyps(1) assms(1) unfolding page_members_reach pageReach_def by simp_all
    moreover have "connects (\<lambda>_. True) (gg_links graph) y z" using step.hyps(2) by (simp add: pageStep_def)
    ultimately have "connects (\<lambda>_. True) (pageLinks graph (pageMembers originId graph)) y z"
      unfolding connects_def pageLinks_def by auto
    with step.IH show ?case by (rule rtranclp.rtrancl_into_rtrancl)
  qed simp
  then show ?thesis by (rule spath_of_walk)
qed

definition earnedSource :: "groupGraph \<Rightarrow> string \<Rightarrow> string \<Rightarrow> subjectSource option" where
  \<comment> \<open>the label of a member: the origin's own, or that of its paths between members\<close>
  "earnedSource graph originId i =
     (if i = originId then Some (Snapshot_source Input)
      else map_option sourceFor (earnedStrength originId (pageLinks graph (pageMembers originId graph)) i))"

lemma earnedStrength_some:
  "v \<noteq> origin \<Longrightarrow> \<exists>path. spath (connects (\<lambda>_. True) links) path origin v \<Longrightarrow> \<exists>s. earnedStrength origin links v = Some s"
  by (auto simp: earnedStrength_def)

lemma memberSubject_earned:
  assumes "originId \<notin> set (gg_suppressed graph)" and "i \<in> set (pageMembers originId graph)"
    and "\<And>v. map_get strengths v = earnedStrength originId (pageLinks graph (pageMembers originId graph)) v"
    and "memberSubject graph originId strengths i = Some s"
  shows "Some (rs_source s) = earnedSource graph originId i"
proof (cases "i = originId")
  case True
  then show ?thesis using assms(4) by (auto simp: memberSubject_def earnedSource_def split: option.splits)
next
  case False
  then obtain strength where "earnedStrength originId (pageLinks graph (pageMembers originId graph)) i = Some strength"
    using earnedStrength_some page_member_linked [OF assms(1,2)] by blast
  then show ?thesis using False assms(4)
    by (auto simp: memberSubject_def earnedSource_def assms(3) split: option.splits)
qed

subsection \<open>Every candidate once\<close>

lemma joinIdentity_group_by:
  "foldl (joinIdentity ident) (m, map fst m) cs = (group_by ident cs m, map fst (group_by ident cs m))"
proof (induction cs arbitrary: m)
  case (Cons c cs)
  have "joinIdentity ident (m, map fst m) c = (bucket_push (ident c) c m, map fst (bucket_push (ident c) c m))"
  proof (cases "map_of m (ident c)")
    case None
    then have "ident c \<notin> set (map fst m)" by (simp add: map_of_eq_None_iff)
    then show ?thesis using None by (simp add: joinIdentity_def bucket_push_def update_keys)
  next
    case (Some b)
    then have "ident c \<in> set (map fst m)" by (metis map_of_eq_None_iff option.distinct(1) set_map)
    then show ?thesis using Some by (simp add: joinIdentity_def bucket_push_def update_keys)
  qed
  then show ?case using Cons.IH by simp
qed simp

lemma find_index_less: "find_index P xs = Some i \<Longrightarrow> i < length xs \<and> P (xs ! i) \<and> (\<forall>j < i. \<not> P (xs ! j))"
  unfolding find_index_def Let_def
  using nth_length_takeWhile [of "\<lambda>x. \<not> P x" xs] nth_mem [of _ "takeWhile (\<lambda>x. \<not> P x) xs"]
  by (auto split: if_splits simp: takeWhile_nth dest: set_takeWhileD)

lemma find_index_None: "find_index P xs = None \<longleftrightarrow> (\<forall>x \<in> set xs. \<not> P x)"
proof
  assume none: "find_index P xs = None"
  show "\<forall>x \<in> set xs. \<not> P x"
  proof
    fix x assume "x \<in> set xs"
    moreover have "takeWhile (\<lambda>x. \<not> P x) xs = xs"
      using none length_takeWhile_le [of "\<lambda>x. \<not> P x" xs] takeWhile_eq_take [of "\<lambda>x. \<not> P x" xs]
      by (auto simp: find_index_def Let_def split: if_splits)
    ultimately show "\<not> P x" by (simp add: takeWhile_eq_all_conv)
  qed
next
  assume "\<forall>x \<in> set xs. \<not> P x"
  then have "takeWhile (\<lambda>x. \<not> P x) xs = xs" by (simp add: takeWhile_eq_all_conv)
  then show "find_index P xs = None" by (simp only: find_index_def Let_def) simp
qed

lemma choosePrimary_less: "xs \<noteq> [] \<Longrightarrow> choosePrimary P Q xs < length xs"
  using find_index_less by (auto simp: choosePrimary_def split: option.splits)

definition identityMembers :: "'a identityGroup \<Rightarrow> 'a list" where
  "identityMembers i = ig_primary i # ig_aliases i"

lemma mset_pick: "i < length xs \<Longrightarrow> add_mset (xs ! i) (mset (take i xs) + mset (drop (Suc i) xs)) = mset xs"
  by (metis add_mset_add_single append_take_drop_id Cons_nth_drop_Suc mset.simps(2) mset_append union_mset_add_mset_right)

lemma identities_groups:
  "groupBySharedWarcraftLogsId E keyOf cs recorded pick =
     (let ids = map_from (map (\<lambda>entry. (canonicalCharacterId E (ri_key entry), ri_characterId entry)) recorded)
      in map (\<lambda>(grp, all). \<lparr>ig_primary = all ! pick all, ig_aliases = take (pick all) all @ drop (Suc (pick all)) all\<rparr>)
           (group_by (\<lambda>c. identityKey E ids (keyOf c)) cs []))"
proof -
  let ?ids = "map_from (map (\<lambda>entry. (canonicalCharacterId E (ri_key entry), ri_characterId entry)) recorded)"
  let ?g = "group_by (\<lambda>c. identityKey E ?ids (keyOf c)) cs []"
  have fold: "foldl (joinIdentity (\<lambda>c. identityKey E ?ids (keyOf c))) ([], []) cs = (?g, map fst ?g)"
    using joinIdentity_group_by [of _ "[]"] by simp
  have "map_of ?g grp = Some all" if "(grp, all) \<in> set ?g" for grp all
    using that by (intro map_of_is_SomeI) simp_all
  then have "map (\<lambda>grp. let all = (case map_get ?g grp of None \<Rightarrow> [] | Some ms \<Rightarrow> ms); i = pick all
                        in \<lparr>ig_primary = all ! i, ig_aliases = take i all @ drop (Suc i) all\<rparr>) (map fst ?g) =
      map (\<lambda>(grp, all). \<lparr>ig_primary = all ! pick all, ig_aliases = take (pick all) all @ drop (Suc (pick all)) all\<rparr>) ?g"
    by (auto simp: Let_def)
  then show ?thesis unfolding groupBySharedWarcraftLogsId_def Let_def fold by simp
qed

lemma identities_partition:
  assumes pick: "\<And>xs. xs \<noteq> [] \<Longrightarrow> pick xs < length xs"
  shows "mset (concat (map identityMembers (groupBySharedWarcraftLogsId E keyOf cs recorded pick))) = mset cs"
proof -
  let ?ids = "map_from (map (\<lambda>entry. (canonicalCharacterId E (ri_key entry), ri_characterId entry)) recorded)"
  let ?g = "group_by (\<lambda>c. identityKey E ?ids (keyOf c)) cs []"
  have "mset (identityMembers \<lparr>ig_primary = all ! pick all, ig_aliases = take (pick all) all @ drop (Suc (pick all)) all\<rparr>) = mset all"
    if "(grp, all) \<in> set ?g" for grp all
    using mset_pick [OF pick [OF group_by_bucket(2) [OF that]]] by (simp add: identityMembers_def)
  then have "mset (concat (map identityMembers (map (\<lambda>(grp, all). \<lparr>ig_primary = all ! pick all,
        ig_aliases = take (pick all) all @ drop (Suc (pick all)) all\<rparr>) xs))) = mset (concat (map snd xs))"
    if "set xs \<subseteq> set ?g" for xs
    using that by (induction xs) auto
  from this [of ?g] show ?thesis unfolding identities_groups Let_def by (simp add: mset_group_by)
qed

lemma keysOf_identityRow:
  assumes "\<And>s. s \<in> set (identityMembers i) \<Longrightarrow> rs_warcraftLogsAliases s = None"
  shows "keysOf (identityRow i) = map rs_key (identityMembers i)"
  using assms [of "ig_primary i"] by (simp add: keysOf_def identityRow_def identityMembers_def)

lemma mset_split: "mset (concat (map f (filter (\<lambda>x. \<not> P x) xs))) + mset (concat (map f (filter P xs))) = mset (concat (map f xs))"
  by (induction xs) (auto simp: ac_simps)

lemma those_iff: "those xs = Some ys \<longleftrightarrow> xs = map Some ys"
  by (induction xs arbitrary: ys) (auto split: option.splits)

definition pageKeys :: "groupSubjects \<Rightarrow> characterKey list" where
  \<comment> \<open>every key a page shows, as a row or as an alias of one\<close>
  "pageKeys page = concat (map keysOf (gs_selected page @ gs_skipped page @ gs_excluded page))"

definition pageRows :: "groupSubjects \<Rightarrow> rankedSubject list" where
  "pageRows page = gs_selected page @ gs_skipped page @ gs_excluded page"

definition pageCandidates :: "js_env \<Rightarrow> groupGraph \<Rightarrow> string \<Rightarrow> characterKey list" where
  \<comment> \<open>the members' keys and those of their undiscovered manual targets\<close>
  "pageCandidates E graph originId =
     List.map_filter (\<lambda>i. map_option gc_key (map_get (gg_characters graph) i)) (pageMembers originId graph) @
     map (\<lambda>(canonical, s). rs_key s) (fst (undiscoveredOf E graph (pageMembers originId graph)))"

text \<open>What a page is made of.\<close>

definition pageBuilt ::
    "js_env \<Rightarrow> characterKey \<Rightarrow> groupGraph \<Rightarrow> nat \<Rightarrow> groupSubjects \<Rightarrow> string \<Rightarrow> (string, linkStrength) jsmap \<Rightarrow>
     rankedSubject list \<Rightarrow> recordedId list \<Rightarrow> bool" where
  "pageBuilt E originKey graph cap page originId strengths subjects recorded \<longleftrightarrow>
     gg_idOf graph originKey = Some originId \<and> originId \<notin> set (gg_suppressed graph) \<and>
     (\<forall>v. map_get strengths v = earnedStrength originId (pageLinks graph (pageMembers originId graph)) v) \<and>
     map (memberSubject graph originId strengths) (pageMembers originId graph) = map Some subjects \<and>
     page = assemblePage E originKey originId graph cap (pageMembers originId graph) subjects recorded"

lemma page_built:
  assumes "resolveGroupSubjects E originKey graph cap = Some (Some page)"
  shows "\<exists>originId strengths subjects recorded. pageBuilt E originKey graph cap page originId strengths subjects recorded"
proof -
  obtain originId where origin: "gg_idOf graph originKey = Some originId" "originId \<notin> set (gg_suppressed graph)"
    using assms by (auto simp: resolveGroupSubjects_def split: option.splits if_splits)
  let ?members = "pageMembers originId graph"
  obtain strengths where strengths: "pathStrengths originId (pageLinks graph ?members) = Some strengths"
    "\<And>v. map_get strengths v = earnedStrength originId (pageLinks graph ?members) v"
    using pathStrengths_earned by blast
  from assms origin strengths(1) obtain subjects recorded where
    "those (map (memberSubject graph originId strengths) ?members) = Some subjects"
    "page = assemblePage E originKey originId graph cap ?members subjects recorded"
    by (auto simp: resolveGroupSubjects_def Let_def split: option.splits if_splits)
  with origin strengths(2) show ?thesis unfolding pageBuilt_def those_iff by blast
qed

lemma pageBuiltD:
  assumes "pageBuilt E originKey graph cap page originId strengths subjects recorded"
  shows "gg_idOf graph originKey = Some originId" and "originId \<notin> set (gg_suppressed graph)"
    and "map_get strengths v = earnedStrength originId (pageLinks graph (pageMembers originId graph)) v"
    and "map (memberSubject graph originId strengths) (pageMembers originId graph) = map Some subjects"
    and "page = assemblePage E originKey originId graph cap (pageMembers originId graph) subjects recorded"
  using assms by (simp_all add: pageBuilt_def)

lemma member_subjects_keys:
  assumes "map (memberSubject graph originId strengths) members = map Some subjects"
  shows "map rs_key subjects = List.map_filter (\<lambda>i. map_option gc_key (map_get (gg_characters graph) i)) members"
  using assms
proof (induction members arbitrary: subjects)
  case (Cons i members)
  then obtain s subjects' where "subjects = s # subjects'" by (cases subjects) auto
  with Cons show ?case by (auto simp: memberSubject_def map_filter_def split: option.splits)
qed (simp add: map_filter_def)

lemma member_subjects_plain:
  assumes "map (memberSubject graph originId strengths) members = map Some subjects" and "s \<in> set subjects"
  shows "rs_warcraftLogsAliases s = None" and "\<exists>i \<in> set members. memberSubject graph originId strengths i = Some s"
proof -
  have "Some s \<in> set (map (memberSubject graph originId strengths) members)" using assms by simp
  then show "\<exists>i \<in> set members. memberSubject graph originId strengths i = Some s" by force
  then show "rs_warcraftLogsAliases s = None" by (auto simp: memberSubject_def split: option.splits)
qed

definition undiscoveredInv :: "groupGraph \<Rightarrow> string list \<Rightarrow> undiscoveredTarget list \<Rightarrow> (string, rankedSubject) jsmap \<Rightarrow> bool" where
  "undiscoveredInv graph members rows m \<longleftrightarrow>
     (\<forall>(canonical, s) \<in> set m. \<exists>row \<in> set rows. ut_makerId row \<in> set members \<and> s = undiscoveredSubject (ut_targetKey row))"

lemma set_map_set: "set (map_set k v m) \<subseteq> insert (k, v) (set m)"
  by (induction m) auto

lemma undiscoveredOf_inv: "undiscoveredInv graph members (gg_undiscoveredManualTargets graph) (fst (undiscoveredOf E graph members))"
proof -
  let ?all = "gg_undiscoveredManualTargets graph"
  have "undiscoveredInv graph members ?all (fst (foldl (addUndiscovered E graph members) acc rows))"
    if "set rows \<subseteq> set ?all" "undiscoveredInv graph members ?all (fst acc)" for acc rows
    using that
  proof (induction rows arbitrary: acc)
    case (Cons row rows)
    have "undiscoveredInv graph members ?all (fst (addUndiscovered E graph members acc row))"
      using Cons.prems set_map_set [of "canonicalCharacterId E (ut_targetKey row)" "undiscoveredSubject (ut_targetKey row)" "fst acc"]
      unfolding addUndiscovered_def undiscoveredInv_def Let_def by (cases acc) (auto split: if_splits)
    then show ?case using Cons.IH Cons.prems(1) by simp
  qed simp
  from this [of ?all "([], [])"] show ?thesis by (simp add: undiscoveredOf_def undiscoveredInv_def)
qed

lemma undiscovered_plain:
  assumes "s \<in> snd ` set (fst (undiscoveredOf E graph members))"
  shows "rs_warcraftLogsAliases s = None"
    and "\<exists>row \<in> set (gg_undiscoveredManualTargets graph). ut_makerId row \<in> set members \<and> s = undiscoveredSubject (ut_targetKey row)"
proof -
  obtain c where "(c, s) \<in> set (fst (undiscoveredOf E graph members))" using assms by auto
  then show "\<exists>row \<in> set (gg_undiscoveredManualTargets graph). ut_makerId row \<in> set members \<and> s = undiscoveredSubject (ut_targetKey row)"
    using undiscoveredOf_inv [of graph members E] unfolding undiscoveredInv_def by blast
  then show "rs_warcraftLogsAliases s = None" by (auto simp: undiscoveredSubject_def)
qed

text \<open>The parts of \<open>assemblePage\<close>.\<close>

definition excludesSubject ::
    "js_env \<Rightarrow> groupGraph \<Rightarrow> string \<Rightarrow> string list \<Rightarrow> rankedSubject list \<Rightarrow> rankedSubject \<Rightarrow> bool" where
  "excludesSubject E graph originId members subjects c \<longleftrightarrow>
     (case map_get (map_from (zip (map (\<lambda>s. canonicalCharacterId E (rs_key s)) subjects) members)) (canonicalCharacterId E (rs_key c)) of
        Some i \<Rightarrow> i | None \<Rightarrow> []) \<in> set (excludedIdsOf graph originId members)
     \<or> canonicalCharacterId E (rs_key c) \<in> set (snd (undiscoveredOf E graph members))"

definition isOrigin :: "js_env \<Rightarrow> characterKey \<Rightarrow> rankedSubject \<Rightarrow> bool" where
  "isOrigin E originKey c \<longleftrightarrow> canonicalCharacterId E (rs_key c) = canonicalCharacterId E originKey"

definition pageOrdered :: "js_env \<Rightarrow> characterKey \<Rightarrow> groupGraph \<Rightarrow> string list \<Rightarrow> rankedSubject list \<Rightarrow> rankedSubject list" where
  "pageOrdered E originKey graph members subjects =
     sort_by (compareRootFirst E (canonicalCharacterId E originKey)) (subjects @ map snd (fst (undiscoveredOf E graph members)))"

definition pageIdentities ::
    "js_env \<Rightarrow> characterKey \<Rightarrow> string \<Rightarrow> groupGraph \<Rightarrow> string list \<Rightarrow> rankedSubject list \<Rightarrow> recordedId list \<Rightarrow>
     rankedSubject identityGroup list" where
  "pageIdentities E originKey originId graph members subjects recorded =
     groupBySharedWarcraftLogsId E rs_key (pageOrdered E originKey graph members subjects) recorded
       (choosePrimary (isOrigin E originKey) (excludesSubject E graph originId members subjects))"

lemma assemblePage_parts:
  fixes E originKey originId graph cap members subjects recorded
  defines "page \<equiv> assemblePage E originKey originId graph cap members subjects recorded"
    and "excl \<equiv> identityExcluded (isOrigin E originKey) (excludesSubject E graph originId members subjects)"
    and "ids \<equiv> pageIdentities E originKey originId graph members subjects recorded"
  shows "gs_selected page = take cap (map identityRow (filter (\<lambda>i. \<not> excl i) ids))"
    and "gs_skipped page = drop cap (map identityRow (filter (\<lambda>i. \<not> excl i) ids))"
    and "gs_excluded page = sort_by (compareByLevelThenKey E) (map identityRow (filter excl ids))"
  unfolding page_def excl_def ids_def assemblePage_def Let_def pageIdentities_def pageOrdered_def isOrigin_def [abs_def]
    excludesSubject_def [abs_def]
  by (simp_all split: prod.split)

lemma pageOrdered_plain:
  assumes "map (memberSubject graph originId strengths) members = map Some subjects"
    and "s \<in> set (pageOrdered E originKey graph members subjects)"
  shows "rs_warcraftLogsAliases s = None"
proof -
  have "s \<in> set subjects \<or> s \<in> snd ` set (fst (undiscoveredOf E graph members))"
    using assms(2) by (auto simp: pageOrdered_def)
  then show ?thesis by (rule disjE) (erule member_subjects_plain(1) [OF assms(1)] undiscovered_plain(1))+
qed

lemma pageIdentities_members:
  "mset (concat (map identityMembers (pageIdentities E originKey originId graph members subjects recorded))) =
     mset (pageOrdered E originKey graph members subjects)"
  unfolding pageIdentities_def by (intro identities_partition choosePrimary_less)

lemma pageIdentities_plain:
  assumes "map (memberSubject graph originId strengths) members = map Some subjects"
    and i: "i \<in> set (pageIdentities E originKey originId graph members subjects recorded)" and s: "s \<in> set (identityMembers i)"
  shows "rs_warcraftLogsAliases s = None" and "s \<in> set (pageOrdered E originKey graph members subjects)"
proof -
  have "s \<in> set (concat (map identityMembers (pageIdentities E originKey originId graph members subjects recorded)))"
    using i s by auto
  then show "s \<in> set (pageOrdered E originKey graph members subjects)"
    using pageIdentities_members by (metis set_mset_mset)
  then show "rs_warcraftLogsAliases s = None" by (rule pageOrdered_plain [OF assms(1)])
qed

lemma mset_concat_map_identityRow:
  assumes "\<And>i. i \<in> set ids \<Longrightarrow> keysOf (identityRow i) = map rs_key (identityMembers i)"
  shows "concat (map keysOf (map identityRow ids)) = map rs_key (concat (map identityMembers ids))"
  using assms by (induction ids) auto

lemma mset_map_union: "mset xs + mset ys = mset zs \<Longrightarrow> mset (map f xs) + mset (map f ys) = mset (map f zs)"
  by (metis image_mset_union mset_map)

lemma mset_map_cong: "mset xs = mset ys \<Longrightarrow> mset (map f xs) = mset (map f ys)"
  by (metis mset_map)

lemma in_take_or_drop: "x \<in> set (take n xs) \<or> x \<in> set (drop n xs) \<longleftrightarrow> x \<in> set xs"
  by (metis Un_iff append_take_drop_id set_append)

lemma identity_rows_keys:
  fixes E cs recorded pick
  defines "ids \<equiv> groupBySharedWarcraftLogsId E rs_key cs recorded pick"
  assumes plain: "\<And>s. s \<in> set cs \<Longrightarrow> rs_warcraftLogsAliases s = None"
    and pick: "\<And>xs. xs \<noteq> [] \<Longrightarrow> pick xs < length xs"
  shows "mset (concat (map keysOf (map identityRow (filter (\<lambda>i. \<not> P i) ids)))) +
    mset (concat (map keysOf (map identityRow (filter P ids)))) = mset (map rs_key cs)"
proof -
  have members: "mset (concat (map identityMembers ids)) = mset cs" unfolding ids_def using pick by (rule identities_partition)
  have keys: "keysOf (identityRow i) = map rs_key (identityMembers i)" if "i \<in> set ids" for i
  proof (rule keysOf_identityRow)
    fix s assume "s \<in> set (identityMembers i)"
    then have "s \<in> set (concat (map identityMembers ids))" using that by auto
    then show "rs_warcraftLogsAliases s = None" using members plain by (metis set_mset_mset)
  qed
  have "concat (map keysOf (map identityRow (filter Q ids))) = map rs_key (concat (map identityMembers (filter Q ids)))" for Q
    by (rule mset_concat_map_identityRow) (simp add: keys)
  then have "mset (concat (map keysOf (map identityRow (filter (\<lambda>i. \<not> P i) ids)))) +
      mset (concat (map keysOf (map identityRow (filter P ids)))) =
      mset (map rs_key (concat (map identityMembers (filter (\<lambda>i. \<not> P i) ids)))) +
      mset (map rs_key (concat (map identityMembers (filter P ids))))" by (simp only:)
  also have "\<dots> = mset (map rs_key (concat (map identityMembers ids)))"
    by (rule mset_map_union) (rule mset_split)
  also have "\<dots> = mset (map rs_key cs)" using members by (rule mset_map_cong)
  finally show ?thesis .
qed

lemma page_rows_keys:
  assumes "pageBuilt E originKey graph cap page originId strengths subjects recorded"
  shows "mset (pageKeys page) = mset (pageCandidates E graph originId)"
proof -
  let ?members = "pageMembers originId graph"
  let ?ids = "pageIdentities E originKey originId graph ?members subjects recorded"
  let ?excl = "identityExcluded (isOrigin E originKey) (excludesSubject E graph originId ?members subjects)"
  let ?ordered = "pageOrdered E originKey graph ?members subjects"
  note built = pageBuiltD(4,5) [OF assms]
  note parts = assemblePage_parts [of E originKey originId graph cap ?members subjects recorded, folded built(2)]
  have "mset (pageKeys page) =
      mset (concat (map keysOf (gs_selected page @ gs_skipped page))) + mset (concat (map keysOf (gs_excluded page)))"
    by (simp add: pageKeys_def)
  also have "gs_selected page @ gs_skipped page = map identityRow (filter (\<lambda>i. \<not> ?excl i) ?ids)"
    unfolding parts by (rule append_take_drop_id)
  also have "mset (concat (map keysOf (gs_excluded page))) = mset (concat (map keysOf (map identityRow (filter ?excl ?ids))))"
    unfolding parts by (rule mset_concat_perm) (rule mset_sort_by)
  also have "mset (concat (map keysOf (map identityRow (filter (\<lambda>i. \<not> ?excl i) ?ids)))) +
      mset (concat (map keysOf (map identityRow (filter ?excl ?ids)))) = mset (map rs_key ?ordered)"
    unfolding pageIdentities_def using pageOrdered_plain [OF built(1)] choosePrimary_less by (rule identity_rows_keys)
  also have "mset (map rs_key ?ordered) = mset (map rs_key (subjects @ map snd (fst (undiscoveredOf E graph ?members))))"
    unfolding pageOrdered_def by (rule mset_map_cong) (rule mset_sort_by)
  also have "map rs_key (subjects @ map snd xs) = map rs_key subjects @ map (\<lambda>(canonical, s). rs_key s) xs"
    for xs :: "(string \<times> rankedSubject) list" by auto
  finally show ?thesis by (simp add: pageCandidates_def member_subjects_keys [OF built(1)])
qed


text \<open>
  C11. The members of a page are exactly the characters the origin reaches over the links of its group
  without passing a suppressed one, each once; a suppressed origin has none.
\<close>

theorem page_members_exact:
  "set (pageMembers originId graph) = pageReach originId graph \<and> distinct (pageMembers originId graph)"
  using page_members_reach by simp

lemma page_row_in:
  assumes "pageBuilt E originKey graph cap page originId strengths subjects recorded" and "row \<in> set (pageRows page)"
  shows "\<exists>s \<in> set (pageOrdered E originKey graph (pageMembers originId graph) subjects).
     rs_key row = rs_key s \<and> rs_source row = rs_source s"
proof -
  let ?members = "pageMembers originId graph"
  let ?ids = "pageIdentities E originKey originId graph ?members subjects recorded"
  note built = pageBuiltD(4,5) [OF assms(1)]
  note parts = assemblePage_parts [of E originKey originId graph cap ?members subjects recorded, folded built(2)]
  have "row \<in> set (map identityRow ?ids)"
    using assms(2) in_take_or_drop [of row cap "map identityRow (filter (\<lambda>i. \<not> identityExcluded (isOrigin E originKey)
      (excludesSubject E graph originId ?members subjects) i) ?ids)"]
    unfolding pageRows_def parts by auto
  then obtain i where i: "i \<in> set ?ids" "row = identityRow i" by auto
  have "ig_primary i \<in> set (pageOrdered E originKey graph ?members subjects)"
    using pageIdentities_plain(2) [OF built(1) i(1)] by (simp add: identityMembers_def)
  moreover have "rs_key row = rs_key (ig_primary i) \<and> rs_source row = rs_source (ig_primary i)"
    using i(2) by (simp add: identityRow_def)
  ultimately show ?thesis by blast
qed

definition targetOf :: "groupGraph \<Rightarrow> string set \<Rightarrow> characterKey \<Rightarrow> bool" where
  \<comment> \<open>a manual target of one of them that has no character yet\<close>
  "targetOf graph makers key \<longleftrightarrow>
     (\<exists>t \<in> set (gg_undiscoveredManualTargets graph). ut_makerId t \<in> makers \<and> ut_targetKey t = key)"

definition labelledMember :: "groupGraph \<Rightarrow> string \<Rightarrow> rankedSubject \<Rightarrow> bool" where
  \<comment> \<open>the key of a character reached, with the label its paths earn\<close>
  "labelledMember graph originId row \<longleftrightarrow>
     (\<exists>i \<in> pageReach originId graph. map_option gc_key (map_get (gg_characters graph) i) = Some (rs_key row) \<and>
        earnedSource graph originId i = Some (rs_source row))"

text \<open>
  C12. Every row of a page is a character the origin reaches, labelled by the strength its simple paths
  between page members earn (the weakest label the code falls back to is never used), or an
  undiscovered manual target of one, labelled as added by hand.
\<close>

theorem page_labels_earned:
  assumes "resolveGroupSubjects E originKey graph cap = Some (Some page)" and "gg_idOf graph originKey = Some originId"
    and "row \<in> set (pageRows page)"
  shows "labelledMember graph originId row \<or>
     targetOf graph (pageReach originId graph) (rs_key row) \<and> rs_source row = Manually_added_source"
proof -
  obtain originId' strengths subjects recorded where
    built: "pageBuilt E originKey graph cap page originId' strengths subjects recorded"
    using page_built [OF assms(1)] by blast
  then have same: "originId' = originId" using assms(2) pageBuiltD(1) by fastforce
  let ?members = "pageMembers originId graph"
  obtain s where "s \<in> set (pageOrdered E originKey graph ?members subjects)"
    and row: "rs_key row = rs_key s" "rs_source row = rs_source s"
    using page_row_in [OF built assms(3)] same by blast
  then consider "s \<in> set subjects" | "s \<in> snd ` set (fst (undiscoveredOf E graph ?members))"
    by (auto simp: pageOrdered_def)
  then show ?thesis
  proof cases
    case 1
    then obtain i where i: "i \<in> set ?members" "memberSubject graph originId strengths i = Some s"
      using member_subjects_plain(2) pageBuiltD(4) [OF built] same by blast
    have "Some (rs_source s) = earnedSource graph originId i"
      using memberSubject_earned [OF _ i(1) _ i(2)] pageBuiltD(2,3) [OF built] same by blast
    moreover have "map_option gc_key (map_get (gg_characters graph) i) = Some (rs_key s)"
      using i(2) by (auto simp: memberSubject_def split: option.splits)
    ultimately have "labelledMember graph originId row"
      unfolding labelledMember_def using i(1) row page_members_reach by auto
    then show ?thesis ..
  next
    case 2
    then obtain t where "t \<in> set (gg_undiscoveredManualTargets graph)" "ut_makerId t \<in> set ?members"
      "s = undiscoveredSubject (ut_targetKey t)"
      using undiscovered_plain(2) by blast
    then show ?thesis using row page_members_reach by (auto simp: targetOf_def undiscoveredSubject_def)
  qed
qed

subsection \<open>Exclusions\<close>

definition excludedByMember :: "groupGraph \<Rightarrow> string \<Rightarrow> string \<Rightarrow> bool" where
  \<comment> \<open>some member hides the character, and not as another name of its own\<close>
  "excludedByMember graph originId i \<longleftrightarrow>
     (\<exists>row \<in> set (gg_manual graph). mr_excluded row \<and> mr_targetId row = i \<and> mr_makerId row \<in> pageReach originId graph \<and>
        i \<notin> set (gg_sharedIdentity graph (mr_makerId row))) \<or>
     (\<exists>row \<in> set (gg_discoveredExclusions graph). de_targetId row = i \<and> de_makerId row \<in> pageReach originId graph \<and>
        i \<notin> set (gg_sharedIdentity graph (de_makerId row)))"

definition hidesKey :: "js_env \<Rightarrow> groupGraph \<Rightarrow> string \<Rightarrow> string \<Rightarrow> bool" where
  \<comment> \<open>the canonical id of a character a member hides, or of an excluded target without a character\<close>
  "hidesKey E graph originId c \<longleftrightarrow>
     (\<exists>i \<in> pageReach originId graph - {originId}. excludedByMember graph originId i \<and>
        map_option (\<lambda>ch. canonicalCharacterId E (gc_key ch)) (map_get (gg_characters graph) i) = Some c) \<or>
     (\<exists>t \<in> set (gg_undiscoveredManualTargets graph). ut_excluded t \<and> ut_makerId t \<in> pageReach originId graph \<and>
        gg_idOf graph (ut_targetKey t) = None \<and> canonicalCharacterId E (ut_targetKey t) = c)"

lemma foldl_set_add_if:
  "set (foldl (\<lambda>ids x. if P x then set_add (f x) ids else ids) ids xs) = set ids \<union> f ` {x \<in> set xs. P x}"
  by (induction xs arbitrary: ids) auto

lemma excludedIdsOf_set:
  "i \<in> set (excludedIdsOf graph originId (pageMembers originId graph)) \<longleftrightarrow> i \<noteq> originId \<and> excludedByMember graph originId i"
  unfolding excludedIdsOf_def Let_def set_filter foldl_set_add_if excludedByMember_def isSelfExclusion_def
    page_members_reach by auto

lemma undiscoveredOf_excluded:
  "c \<in> set (snd (undiscoveredOf E graph members)) \<longleftrightarrow>
     (\<exists>t \<in> set (gg_undiscoveredManualTargets graph). ut_excluded t \<and> ut_makerId t \<in> set members \<and>
        gg_idOf graph (ut_targetKey t) = None \<and> canonicalCharacterId E (ut_targetKey t) = c)"
proof -
  have "c \<in> set (snd (foldl (addUndiscovered E graph members) acc rows)) \<longleftrightarrow> c \<in> set (snd acc) \<or>
     (\<exists>t \<in> set rows. ut_excluded t \<and> ut_makerId t \<in> set members \<and>
        gg_idOf graph (ut_targetKey t) = None \<and> canonicalCharacterId E (ut_targetKey t) = c)" for acc rows
  proof (induction rows arbitrary: acc)
    case (Cons t rows)
    have "c \<in> set (snd (addUndiscovered E graph members acc t)) \<longleftrightarrow> c \<in> set (snd acc) \<or>
        (ut_excluded t \<and> ut_makerId t \<in> set members \<and> gg_idOf graph (ut_targetKey t) = None \<and>
         canonicalCharacterId E (ut_targetKey t) = c)"
      by (cases acc) (auto simp: addUndiscovered_def Let_def)
    then show ?case using Cons.IH by auto
  qed simp
  then show ?thesis by (simp add: undiscoveredOf_def)
qed

lemma map_of_map_from_distinct: "distinct (map fst xs) \<Longrightarrow> map_of (map_from xs) = map_of xs"
  unfolding map_of_map_from by (subst map_of_inject_set) (simp_all add: rev_map [symmetric])

lemma memberSubject_key:
  "memberSubject graph originId strengths i = Some s \<Longrightarrow>
   \<exists>c. map_get (gg_characters graph) i = Some c \<and> rs_key s = gc_key c"
  by (auto simp: memberSubject_def split: option.splits)

lemma excludesSubject_hides:
  assumes members: "map (memberSubject graph originId strengths) (pageMembers originId graph) = map Some subjects"
    and distinct: "distinct (map (\<lambda>s. canonicalCharacterId E (rs_key s)) subjects)"
    and named: "\<not> excludedByMember graph originId []"
  shows "excludesSubject E graph originId (pageMembers originId graph) subjects c \<longleftrightarrow>
    hidesKey E graph originId (canonicalCharacterId E (rs_key c))"
proof -
  let ?c = "canonicalCharacterId E (rs_key c)" and ?members = "pageMembers originId graph"
  let ?pairs = "zip (map (\<lambda>s. canonicalCharacterId E (rs_key s)) subjects) ?members"
  have len: "length subjects = length ?members" using members by (metis length_map)
  then have keys: "map fst ?pairs = map (\<lambda>s. canonicalCharacterId E (rs_key s)) subjects" by simp
  then have lookup: "map_get (map_from ?pairs) ?c = Some i \<longleftrightarrow> (?c, i) \<in> set ?pairs" for i
    using distinct by (simp only: map_of_map_from_distinct map_of_eq_Some_iff)
  have subject: "memberSubject graph originId strengths (?members ! k) = Some (subjects ! k)" if "k < length ?members" for k
    using that members len by (metis nth_map)
  have key: "map_option (\<lambda>ch. canonicalCharacterId E (gc_key ch)) (map_get (gg_characters graph) (?members ! k)) =
      Some (canonicalCharacterId E (rs_key (subjects ! k)))" if "k < length ?members" for k
    using memberSubject_key [OF subject [OF that]] by (elim exE conjE) simp
  have pair: "(?c, i) \<in> set ?pairs \<longleftrightarrow> i \<in> set ?members \<and>
      map_option (\<lambda>ch. canonicalCharacterId E (gc_key ch)) (map_get (gg_characters graph) i) = Some ?c" for i
  proof
    assume "(?c, i) \<in> set ?pairs"
    then obtain k where k: "k < length ?members" "i = ?members ! k" "?c = canonicalCharacterId E (rs_key (subjects ! k))"
      using len by (auto simp: in_set_conv_nth)
    then show "i \<in> set ?members \<and>
      map_option (\<lambda>ch. canonicalCharacterId E (gc_key ch)) (map_get (gg_characters graph) i) = Some ?c"
      using key [OF k(1)] nth_mem [OF k(1)] by simp
  next
    assume i: "i \<in> set ?members \<and>
      map_option (\<lambda>ch. canonicalCharacterId E (gc_key ch)) (map_get (gg_characters graph) i) = Some ?c"
    then obtain k where k: "k < length ?members" "i = ?members ! k" by (metis in_set_conv_nth)
    then have "?c = canonicalCharacterId E (rs_key (subjects ! k))" using key [OF k(1)] i by auto
    then show "(?c, i) \<in> set ?pairs" using k len by (auto simp: in_set_conv_nth intro!: exI [of _ k])
  qed
  have "(case map_get (map_from ?pairs) ?c of Some i \<Rightarrow> i | None \<Rightarrow> []) \<in> set (excludedIdsOf graph originId ?members) \<longleftrightarrow>
      (\<exists>i. (?c, i) \<in> set ?pairs \<and> i \<noteq> originId \<and> excludedByMember graph originId i)"
  proof (cases "map_get (map_from ?pairs) ?c")
    case None
    then have "\<nexists>i. (?c, i) \<in> set ?pairs" using lookup by simp
    then show ?thesis using None named by (simp add: excludedIdsOf_set)
  next
    case (Some i)
    then have "(?c, j) \<in> set ?pairs \<longleftrightarrow> j = i" for j using lookup [of j] by auto
    then show ?thesis using Some by (simp add: excludedIdsOf_set)
  qed
  then show ?thesis
    unfolding excludesSubject_def hidesKey_def undiscoveredOf_excluded pair page_members_reach by blast
qed

lemma identity_origin_primary:
  assumes i: "i \<in> set (groupBySharedWarcraftLogsId E keyOf cs recorded (choosePrimary P Q))" and "s \<in> set (identityMembers i)" "P s"
  shows "P (ig_primary i)"
proof -
  obtain grp all where all: "(grp, all) \<in> set (group_by (\<lambda>c. identityKey E (map_from (map (\<lambda>entry.
        (canonicalCharacterId E (ri_key entry), ri_characterId entry)) recorded)) (keyOf c)) cs [])"
    and i': "i = \<lparr>ig_primary = all ! choosePrimary P Q all,
      ig_aliases = take (choosePrimary P Q all) all @ drop (Suc (choosePrimary P Q all)) all\<rparr>"
    using i unfolding identities_groups Let_def by auto
  have "mset (identityMembers i) = mset all"
    using mset_pick [OF choosePrimary_less [OF group_by_bucket(2) [OF all]]] by (simp add: identityMembers_def i')
  then have "s \<in> set all" using assms(2) by (metis set_mset_mset)
  then obtain k where "find_index P all = Some k" using assms(3) find_index_None by (metis option.exhaust)
  then show ?thesis using find_index_less [of P all k] by (simp add: i' choosePrimary_def)
qed

definition showsOrigin :: "js_env \<Rightarrow> characterKey \<Rightarrow> rankedSubject \<Rightarrow> bool" where
  "showsOrigin E originKey row \<longleftrightarrow> list_ex (\<lambda>k. canonicalCharacterId E k = canonicalCharacterId E originKey) (keysOf row)"

definition showsHidden :: "js_env \<Rightarrow> groupGraph \<Rightarrow> string \<Rightarrow> rankedSubject \<Rightarrow> bool" where
  "showsHidden E graph originId row \<longleftrightarrow> list_ex (\<lambda>k. hidesKey E graph originId (canonicalCharacterId E k)) (keysOf row)"

lemma page_row_excluded:
  assumes built: "pageBuilt E originKey graph cap page originId strengths subjects recorded"
    and distinct: "distinct (map (canonicalCharacterId E) (pageKeys page))"
    and named: "\<not> excludedByMember graph originId []" and row: "row \<in> set (pageRows page)"
  shows "row \<in> set (gs_excluded page) \<Longrightarrow> \<not> showsOrigin E originKey row \<and> showsHidden E graph originId row"
    and "row \<in> set (gs_selected page @ gs_skipped page) \<Longrightarrow> showsOrigin E originKey row \<or> \<not> showsHidden E graph originId row"
proof -
  let ?members = "pageMembers originId graph"
  let ?ids = "pageIdentities E originKey originId graph ?members subjects recorded"
  let ?excl = "identityExcluded (isOrigin E originKey) (excludesSubject E graph originId ?members subjects)"
  note parts = assemblePage_parts [of E originKey originId graph cap ?members subjects recorded, folded pageBuiltD(5) [OF built]]
  have "mset (map (canonicalCharacterId E) (pageKeys page)) =
      mset (map (canonicalCharacterId E) (pageCandidates E graph originId))"
    by (rule mset_map_cong) (rule page_rows_keys [OF built])
  then have "distinct (map (canonicalCharacterId E) (pageCandidates E graph originId))"
    using distinct by (metis mset_eq_imp_distinct_iff)
  then have "distinct (map (canonicalCharacterId E) (map rs_key subjects))"
    unfolding pageCandidates_def map_append distinct_append member_subjects_keys [OF pageBuiltD(4) [OF built], symmetric]
    by (rule conjunct1)
  then have "distinct (map (\<lambda>s. canonicalCharacterId E (rs_key s)) subjects)" by (simp add: comp_def)
  note hides = excludesSubject_hides [OF pageBuiltD(4) [OF built] this named]
  have keys: "keysOf (identityRow i) = map rs_key (identityMembers i)" if "i \<in> set ?ids" for i
    using pageIdentities_plain(1) [OF pageBuiltD(4) [OF built] that] by (rule keysOf_identityRow)
  have hidden: "list_ex (excludesSubject E graph originId ?members subjects) (identityMembers i) \<longleftrightarrow>
      showsHidden E graph originId (identityRow i)" if "i \<in> set ?ids" for i
    unfolding showsHidden_def keys [OF that] list_ex_iff hides by auto
  have "isOrigin E originKey (ig_primary i) \<longleftrightarrow> showsOrigin E originKey (identityRow i)" if i: "i \<in> set ?ids" for i
  proof
    assume "isOrigin E originKey (ig_primary i)"
    then show "showsOrigin E originKey (identityRow i)"
      unfolding showsOrigin_def keys [OF i] by (simp add: identityMembers_def isOrigin_def)
  next
    assume "showsOrigin E originKey (identityRow i)"
    then obtain s where "s \<in> set (identityMembers i)" "isOrigin E originKey s"
      unfolding showsOrigin_def keys [OF i] list_ex_iff isOrigin_def by auto
    then show "isOrigin E originKey (ig_primary i)" using identity_origin_primary i unfolding pageIdentities_def by metis
  qed
  then have excl: "?excl i \<longleftrightarrow> \<not> showsOrigin E originKey (identityRow i) \<and> showsHidden E graph originId (identityRow i)"
    if "i \<in> set ?ids" for i
    using hidden that unfolding identityExcluded_def identityMembers_def [symmetric] by blast
  show "row \<in> set (gs_excluded page) \<Longrightarrow> \<not> showsOrigin E originKey row \<and> showsHidden E graph originId row"
    unfolding parts using excl by auto
  show "showsOrigin E originKey row \<or> \<not> showsHidden E graph originId row" if "row \<in> set (gs_selected page @ gs_skipped page)"
  proof -
    have "row \<in> set (map identityRow (filter (\<lambda>i. \<not> ?excl i) ?ids))"
      using that unfolding parts append_take_drop_id .
    then show ?thesis using excl by auto
  qed
qed

text \<open>
  A row of a page is excluded exactly when one of its keys belongs to a character a member hides and
  none is the searched character's: no other row is greyed, none is left out, and the searched
  character never is.
\<close>

theorem page_exclusions_exact:
  assumes "resolveGroupSubjects E originKey graph cap = Some (Some page)" and "gg_idOf graph originKey = Some originId"
    and "distinct (map (canonicalCharacterId E) (pageKeys page))" and "\<not> excludedByMember graph originId []"
    and "row \<in> set (pageRows page)"
  shows "row \<in> set (gs_excluded page) \<longleftrightarrow> showsHidden E graph originId row \<and> \<not> showsOrigin E originKey row"
proof -
  obtain originId' strengths subjects recorded where
    built: "pageBuilt E originKey graph cap page originId' strengths subjects recorded"
    using page_built [OF assms(1)] by blast
  then have "originId' = originId" using assms(2) pageBuiltD(1) by fastforce
  moreover have "row \<in> set (gs_excluded page) \<or> row \<in> set (gs_selected page @ gs_skipped page)"
    using assms(5) by (auto simp: pageRows_def)
  ultimately show ?thesis using page_row_excluded [OF built assms(3)] assms(4,5) by blast
qed

subsection \<open>The searched character leads\<close>

lemma js_comparator_descending: "js_comparator (\<lambda>x y. f y - f x :: int)"
  by unfold_locales (auto simp: sgn_if)

context js_runtime
begin

lemma comparator_compareRootFirst: "js_comparator (compareRootFirst E rootId)"
  unfolding compareRootFirst_def [abs_def] compareByLevelThenKey_def
  by (intro js_comparator_or_else js_comparator_descending
      js_comparator_pullback [OF loc.js_comparator_axioms, where f = "\<lambda>s. region (rs_key s)"]
      js_comparator_pullback [OF loc.js_comparator_axioms, where f = "\<lambda>s. realm (rs_key s)"]
      js_comparator_pullback [OF loc.js_comparator_axioms, where f = "\<lambda>s. cname (rs_key s)"])

lemma sorted_root_first:
  assumes "s \<in> set ss" and "canonicalCharacterId E (rs_key s) = rootId"
  shows "canonicalCharacterId E (rs_key (hd (sort_by (compareRootFirst E rootId) ss))) = rootId"
proof (rule ccontr)
  let ?h = "hd (sort_by (compareRootFirst E rootId) ss)"
  assume other: "canonicalCharacterId E (rs_key ?h) \<noteq> rootId"
  have "ss \<noteq> []" using assms(1) by auto
  then have "compareRootFirst E rootId ?h s \<le> 0"
    using js_comparator.hd_sort_by_least [OF comparator_compareRootFirst] assms(1) by blast
  then show False using other assms(2) by (simp add: compareRootFirst_def or_else_def split: if_splits)
qed

end

lemma group_by_hd: "m \<noteq> [] \<Longrightarrow> group_by ident xs m \<noteq> [] \<and> fst (hd (group_by ident xs m)) = fst (hd m)"
proof (induction xs arbitrary: m)
  case (Cons x xs)
  have "bucket_push (ident x) x m \<noteq> [] \<and> fst (hd (bucket_push (ident x) x m)) = fst (hd m)"
    using Cons.prems unfolding bucket_push_def by (cases m) auto
  then show ?case using Cons.IH by simp
qed simp

lemma first_identity:
  assumes "cs \<noteq> []" and pick: "\<And>xs. xs \<noteq> [] \<Longrightarrow> pick xs < length xs"
  shows "groupBySharedWarcraftLogsId E keyOf cs recorded pick \<noteq> [] \<and>
    hd cs \<in> set (identityMembers (hd (groupBySharedWarcraftLogsId E keyOf cs recorded pick)))"
proof -
  define ids where "ids = map_from (map (\<lambda>entry. (canonicalCharacterId E (ri_key entry), ri_characterId entry)) recorded)"
  define g where "g = group_by (\<lambda>c. identityKey E ids (keyOf c)) cs []"
  obtain c cs' where cs: "cs = c # cs'" using assms(1) by (cases cs) auto
  have "g \<noteq> [] \<and> fst (hd g) = identityKey E ids (keyOf c)"
    unfolding g_def cs group_by.simps using group_by_hd [of "bucket_push (identityKey E ids (keyOf c)) c []"]
    by (simp add: bucket_push_def)
  then obtain all g' where g: "g = (identityKey E ids (keyOf c), all) # g'" by (cases g) auto
  have "(identityKey E ids (keyOf c), all) \<in> set g" using g by simp
  note bucket = group_by_bucket [OF this [unfolded g_def]]
  have "c \<in> set all" using bucket(1) cs by simp
  moreover have "mset (identityMembers \<lparr>ig_primary = all ! pick all, ig_aliases = take (pick all) all @ drop (Suc (pick all)) all\<rparr>) = mset all"
    using mset_pick [OF pick [OF bucket(2)]] by (simp add: identityMembers_def)
  ultimately have "c \<in> set (identityMembers \<lparr>ig_primary = all ! pick all, ig_aliases = take (pick all) all @ drop (Suc (pick all)) all\<rparr>)"
    by (metis set_mset_mset)
  moreover have "groupBySharedWarcraftLogsId E keyOf cs recorded pick =
      map (\<lambda>(grp, all). \<lparr>ig_primary = all ! pick all, ig_aliases = take (pick all) all @ drop (Suc (pick all)) all\<rparr>) g"
    unfolding identities_groups Let_def g_def ids_def ..
  ultimately show ?thesis by (simp add: cs g)
qed

lemma page_origin_first:
  assumes runtime: "js_runtime E" and built: "pageBuilt E originKey graph cap page originId strengths subjects recorded"
    and origin: "map_get (gg_characters graph) originId = Some c" "canonicalCharacterId E (gc_key c) = canonicalCharacterId E originKey"
    and "0 < cap"
  shows "gs_selected page \<noteq> [] \<and> showsOrigin E originKey (hd (gs_selected page))"
proof -
  let ?members = "pageMembers originId graph"
  let ?ids = "pageIdentities E originKey originId graph ?members subjects recorded"
  let ?excl = "identityExcluded (isOrigin E originKey) (excludesSubject E graph originId ?members subjects)"
  note parts = assemblePage_parts [of E originKey originId graph cap ?members subjects recorded, folded pageBuiltD(5) [OF built]]
  have "originId \<in> set ?members" using pageBuiltD(2) [OF built] by (simp add: page_members_reach pageReach_def)
  then obtain s where s: "s \<in> set subjects" "memberSubject graph originId strengths originId = Some s"
    using pageBuiltD(4) [OF built] by (metis image_iff list.set_map)
  then have "canonicalCharacterId E (rs_key s) = canonicalCharacterId E originKey"
    using origin by (auto simp: memberSubject_def)
  then have first: "isOrigin E originKey (hd (pageOrdered E originKey graph ?members subjects))"
    unfolding isOrigin_def pageOrdered_def using s(1) by (intro js_runtime.sorted_root_first [OF runtime]) auto
  have "pageOrdered E originKey graph ?members subjects \<noteq> []" using s(1) by (auto simp: pageOrdered_def)
  then have ids: "?ids \<noteq> []" "hd (pageOrdered E originKey graph ?members subjects) \<in> set (identityMembers (hd ?ids))"
    using first_identity choosePrimary_less unfolding pageIdentities_def by blast+
  then have "hd ?ids \<in> set ?ids" by simp
  then have primary: "isOrigin E originKey (ig_primary (hd ?ids))"
    using identity_origin_primary ids(2) first unfolding pageIdentities_def by metis
  then have "\<not> ?excl (hd ?ids)" by (simp add: identityExcluded_def)
  then have "filter (\<lambda>i. \<not> ?excl i) ?ids = hd ?ids # filter (\<lambda>i. \<not> ?excl i) (tl ?ids)" using ids(1) by (cases ?ids) auto
  then have "gs_selected page \<noteq> [] \<and> hd (gs_selected page) = identityRow (hd ?ids)"
    using assms(5) unfolding parts by (cases cap) auto
  moreover have "rs_key (identityRow (hd ?ids)) = rs_key (ig_primary (hd ?ids))" by (simp add: identityRow_def)
  ultimately show ?thesis using primary by (simp add: showsOrigin_def keysOf_def isOrigin_def)
qed

text \<open>
  The searched character leads its page: with room for any row, the first row selected is its own,
  whatever its level and whichever keys it shares a Warcraft Logs character with.
\<close>

theorem page_origin_leads:
  assumes "js_runtime E" and "resolveGroupSubjects E originKey graph cap = Some (Some page)"
    and "gg_idOf graph originKey = Some originId" and "map_get (gg_characters graph) originId = Some c"
    and "canonicalCharacterId E (gc_key c) = canonicalCharacterId E originKey" and "0 < cap"
  shows "gs_selected page \<noteq> [] \<and> showsOrigin E originKey (hd (gs_selected page))"
proof -
  obtain originId' strengths subjects recorded where
    built: "pageBuilt E originKey graph cap page originId' strengths subjects recorded"
    using page_built [OF assms(2)] by blast
  then have "originId' = originId" using assms(3) pageBuiltD(1) by fastforce
  then show ?thesis using page_origin_first [OF assms(1) built] assms(4-6) by simp
qed

subsection \<open>The stored snapshot's page\<close>

definition admittedOnce :: "js_env \<Rightarrow> storedSnapshot \<Rightarrow> admissions \<Rightarrow> bool" where
  "admittedOnce E snapshot s \<longleftrightarrow>
     (let shown = map (\<lambda>c. canonicalCharacterId E (sc_key c)) (ss_characters snapshot) @
        map (\<lambda>c. canonicalCharacterId E (rs_key c)) (ad_manual s @ ad_excluded s)
      in set (ad_seen s) = set shown \<and>
         (distinct (map (\<lambda>c. canonicalCharacterId E (sc_key c)) (ss_characters snapshot)) \<longrightarrow> distinct shown) \<and>
         (\<forall>c \<in> set (ad_manual s @ ad_excluded s). rs_warcraftLogsAliases c = None))"

lemma admit_admitted:
  assumes "admittedOnce E snapshot s" and "rs_warcraftLogsAliases c = None"
  shows "admittedOnce E snapshot (admit E intoExcluded c s)"
  using assms unfolding admittedOnce_def admit_def Let_def by auto

lemma admitManual_admitted:
  assumes "admittedOnce E snapshot s"
  shows "admittedOnce E snapshot (admitManual E c theirs s)"
proof -
  have fold: "admittedOnce E snapshot (foldl (\<lambda>s d. admit E False (snapshotSubject d) s) s cs)" if "admittedOnce E snapshot s" for s cs
    using that by (induction cs arbitrary: s) (simp_all add: admit_admitted snapshotSubject_def)
  have "admittedOnce E snapshot (s\<lparr>ad_manualExcludedIds := ids\<rparr>)" for ids using assms by (simp add: admittedOnce_def)
  then show ?thesis
    using assms unfolding admitManual_def Let_def
    by (auto intro!: fold admit_admitted simp: manualSubject_def)
qed

lemma admitManuals_admitted:
  "admitManuals E getCurrent cs s = Inr s' \<Longrightarrow> admittedOnce E snapshot s \<Longrightarrow> admittedOnce E snapshot s'"
proof (induction cs arbitrary: s)
  case (Cons c cs)
  then obtain theirs where "admitManuals E getCurrent cs (admitManual E c theirs s) = Inr s'"
    by (auto split: sum.splits)
  then show ?case using Cons.IH admitManual_admitted [OF Cons.prems(2)] by blast
qed simp

definition resolvedKeys :: "resolvedSubjects \<Rightarrow> characterKey list" where
  "resolvedKeys r = concat (map keysOf (rv_selected r @ rv_skipped r @ rv_excludedOrdered r))"

lemma resolveRows_keys:
  assumes "\<And>c. c \<in> set (ad_manual s @ ad_excluded s) \<Longrightarrow> rs_warcraftLogsAliases c = None"
  shows "mset (resolvedKeys (resolveRows E cap snapshot provisional s exclusions recorded)) =
    mset (map sc_key (ss_characters snapshot) @ map rs_key (ad_manual s @ ad_excluded s))"
proof -
  let ?rootId = "canonicalCharacterId E (ss_rootKey snapshot)"
  let ?isExcluded = "\<lambda>c. canonicalCharacterId E (rs_key c) \<in> set exclusions"
  let ?isRoot = "\<lambda>c. canonicalCharacterId E (rs_key c) = ?rootId"
  let ?all = "sort_by (compareRootFirst E ?rootId) (map snapshotSubject (ss_characters snapshot) @ ad_manual s) @ ad_excluded s"
  let ?ids = "groupBySharedWarcraftLogsId E rs_key ?all recorded (choosePrimary ?isRoot ?isExcluded)"
  let ?excl = "identityExcluded ?isRoot ?isExcluded"
  let ?r = "resolveRows E cap snapshot provisional s exclusions recorded"
  have "rs_warcraftLogsAliases c = None" if "c \<in> set ?all" for c
    using that assms by (auto simp: snapshotSubject_def)
  then have keys: "mset (concat (map keysOf (map identityRow (filter (\<lambda>i. \<not> ?excl i) ?ids)))) +
      mset (concat (map keysOf (map identityRow (filter ?excl ?ids)))) = mset (map rs_key ?all)"
    using choosePrimary_less by (rule identity_rows_keys)
  have "drop (length (take cap xs)) xs = drop cap xs" for xs :: "rankedSubject list" by (simp add: min_def)
  then have "rv_selected ?r @ rv_skipped ?r = map identityRow (filter (\<lambda>i. \<not> ?excl i) ?ids)"
    by (simp add: resolveRows_def Let_def del: length_take)
  moreover have "mset (concat (map keysOf (rv_excludedOrdered ?r))) = mset (concat (map keysOf (map identityRow (filter ?excl ?ids))))"
    unfolding resolveRows_def Let_def by (simp only: resolvedSubjects.simps) (rule mset_concat_perm, rule mset_sort_by)
  ultimately have "mset (resolvedKeys ?r) = mset (map rs_key ?all)"
    using keys unfolding resolvedKeys_def by (metis append.assoc concat_append map_append mset_append)
  also have "\<dots> = mset (map rs_key ((map snapshotSubject (ss_characters snapshot) @ ad_manual s) @ ad_excluded s))"
    by (rule mset_map_cong) (simp only: mset_append mset_sort_by)
  finally show ?thesis by (simp add: comp_def snapshotSubject_def)
qed

definition resolvedIds :: "js_env \<Rightarrow> resolvedSubjects \<Rightarrow> string list" where
  "resolvedIds E r = map (canonicalCharacterId E) (resolvedKeys r)"

definition snapshotIds :: "js_env \<Rightarrow> storedSnapshot \<Rightarrow> string list" where
  "snapshotIds E snapshot = map (\<lambda>c. canonicalCharacterId E (sc_key c)) (ss_characters snapshot)"

text \<open>
  The older page shows every character of its snapshot and nobody twice, whatever its manual
  connections, their snapshots and the Warcraft Logs ids that merge its rows.
\<close>

theorem legacy_shows_each_once:
  assumes "legacyResolveSubjects E key repositories cap = Inr (Some r)" and "distinct (snapshotIds E (rv_snapshot r))"
  shows "distinct (resolvedIds E r) \<and> set (snapshotIds E (rv_snapshot r)) \<subseteq> set (resolvedIds E r) \<and>
    length (rv_selected r) \<le> cap"
proof -
  obtain snapshot provisional s exclusions recorded connections where
    s: "admitManuals E (sr_getCurrent repositories) connections
       \<lparr>ad_seen = map (\<lambda>c. canonicalCharacterId E (sc_key c)) (ss_characters snapshot),
        ad_manual = [], ad_excluded = [], ad_manualExcludedIds = []\<rparr> = Inr s"
    and r: "r = resolveRows E cap snapshot provisional s exclusions recorded"
    using assms(1) unfolding legacyResolveSubjects_def Let_def
    by (auto split: sum.splits option.splits prod.splits)
  have snapshot: "rv_snapshot r = snapshot" by (simp add: r resolveRows_def Let_def)
  have ad: "admittedOnce E snapshot s" by (rule admitManuals_admitted [OF s]) (simp add: admittedOnce_def)
  then have "rs_warcraftLogsAliases c = None" if "c \<in> set (ad_manual s @ ad_excluded s)" for c
    using that by (auto simp: admittedOnce_def Let_def)
  then have "mset (resolvedIds E r) = mset (map (canonicalCharacterId E)
      (map sc_key (ss_characters snapshot) @ map rs_key (ad_manual s @ ad_excluded s)))"
    unfolding resolvedIds_def r by (intro mset_map_cong resolveRows_keys)
  then have ids: "mset (resolvedIds E r) = mset (snapshotIds E snapshot @
      map (\<lambda>c. canonicalCharacterId E (rs_key c)) (ad_manual s @ ad_excluded s))"
    by (simp add: snapshotIds_def comp_def multiset.map_comp)
  have "distinct (snapshotIds E snapshot @ map (\<lambda>c. canonicalCharacterId E (rs_key c)) (ad_manual s @ ad_excluded s))"
    using ad assms(2) snapshot unfolding admittedOnce_def Let_def snapshotIds_def by simp
  then have "distinct (resolvedIds E r)" using ids by (metis mset_eq_imp_distinct_iff)
  moreover have "set (snapshotIds E (rv_snapshot r)) \<subseteq> set (resolvedIds E r)"
    using ids snapshot by (metis Un_upper1 set_append set_mset_mset)
  moreover have "length (rv_selected r) \<le> cap" by (simp add: r resolveRows_def Let_def)
  ultimately show ?thesis by blast
qed

definition exampleSnapshot :: storedSnapshot where
  "exampleSnapshot =
     \<lparr>ss_id = ''s'', ss_rootKey = ryii, ss_state = Complete_state, ss_limitationCode = None,
      ss_characters = [\<lparr>sc_key = ryii, sc_displayName = ''Ryii'', sc_className = ''Mage'', sc_level = 80, sc_guild = None,
        sc_raiderIoUrl = ''u'', sc_source = Input\<rparr>]\<rparr>"

definition exampleRepositories :: "unit subjectRepositories" where
  "exampleRepositories =
     \<lparr>sr_getCurrent = (\<lambda>k. Inr (Some exampleSnapshot)), sr_getCurrentDeclaring = None, sr_manualList = (\<lambda>k. Inr []),
      sr_listDiscoveredExclusions = None, sr_warcraftLogsCharacterIds = None\<rparr>"

definition exampleResolved :: resolvedSubjects where
  "exampleResolved = resolveRows ascii_env 5 exampleSnapshot False
     \<lparr>ad_seen = [canonicalCharacterId ascii_env ryii], ad_manual = [], ad_excluded = [], ad_manualExcludedIds = []\<rparr> [] []"

theorem legacy_shows_each_once_witness:
  "distinct (resolvedIds ascii_env exampleResolved) \<and> length (rv_selected exampleResolved) \<le> 5"
proof -
  have "legacyResolveSubjects ascii_env ryii exampleRepositories 5 = Inr (Some exampleResolved)"
    by (simp add: legacyResolveSubjects_def findSnapshot_def exampleRepositories_def exampleSnapshot_def exampleResolved_def)
  moreover have "distinct (snapshotIds ascii_env (rv_snapshot exampleResolved))"
    by (simp add: exampleResolved_def resolveRows_def Let_def exampleSnapshot_def snapshotIds_def)
  ultimately show ?thesis using legacy_shows_each_once by blast
qed

subsection \<open>An example page\<close>

definition alt :: characterKey where
  "alt = \<lparr>region = ''us'', realm = ''illidan'', cname = ''alt''\<rparr>"

definition exampleGraph :: groupGraph where
  \<comment> \<open>two linked characters, the second hidden by the first\<close>
  "exampleGraph =
     \<lparr>gg_characters =
        [(''a'', \<lparr>gc_key = ryii, gc_displayName = ''Ryii'', gc_className = ''Mage'', gc_level = 80, gc_raiderIoUrl = ''u''\<rparr>),
         (''b'', \<lparr>gc_key = alt, gc_displayName = ''Alt'', gc_className = ''Monk'', gc_level = 90, gc_raiderIoUrl = ''v''\<rparr>)],
      gg_idOf = (\<lambda>k. if k = ryii then Some ''a'' else if k = alt then Some ''b'' else None),
      gg_groupOf = [(''a'', ''g''), (''b'', ''g'')],
      gg_links = [\<lparr>sl_a = ''a'', sl_b = ''b'', sl_strength = Fingerprint_strength\<rparr>],
      gg_manual = [\<lparr>mr_makerId = ''a'', mr_targetId = ''b'', mr_excluded = True\<rparr>],
      gg_undiscoveredManualTargets = [], gg_discoveredExclusions = [], gg_suppressed = [], gg_warcraftLogsIds = [],
      gg_sharedIdentity = (\<lambda>i. [i]),
      gg_latestSnapshot = [(''a'', \<lparr>so_state = Complete_state, so_limitationCode = None\<rparr>)]\<rparr>"

definition examplePage :: groupSubjects where
  "examplePage =
     \<lparr>gs_selected =
        [\<lparr>rs_key = ryii, rs_displayName = ''Ryii'', rs_className = Some ''Mage'', rs_guild = None, rs_raiderIoUrl = ''u'',
          rs_source = Snapshot_source Input, rs_pending = None, rs_fromApplication = False, rs_warcraftLogsAliases = None,
          rs_level = 80\<rparr>],
      gs_skipped = [],
      gs_excluded =
        [\<lparr>rs_key = alt, rs_displayName = ''Alt'', rs_className = Some ''Monk'', rs_guild = None, rs_raiderIoUrl = ''v'',
          rs_source = Snapshot_source Fingerprint_source, rs_pending = None, rs_fromApplication = False,
          rs_warcraftLogsAliases = None, rs_level = 90\<rparr>],
      gs_research = \<lparr>pr_state = Complete_state, pr_limitationCodes = []\<rparr>\<rparr>"

lemma exampleGraph_page: "resolveGroupSubjects ascii_env ryii exampleGraph 1 = Some (Some examplePage)"
  by code_simp

lemma exampleGraph_origin: "gg_idOf exampleGraph ryii = Some ''a''"
  by (simp add: exampleGraph_def)


lemma examplePage_excluded: "gs_excluded examplePage = [hd (gs_excluded examplePage)]"
  by (simp add: examplePage_def)

lemma examplePage_row: "hd (gs_excluded examplePage) \<in> set (pageRows examplePage)"
  by (simp add: examplePage_def pageRows_def)

theorem page_labels_earned_witness:
  "labelledMember exampleGraph ''a'' (hd (gs_excluded examplePage)) \<or>
   targetOf exampleGraph (pageReach ''a'' exampleGraph) alt \<and>
   rs_source (hd (gs_excluded examplePage)) = Manually_added_source"
  using page_labels_earned [OF exampleGraph_page exampleGraph_origin examplePage_row] by (simp add: examplePage_def)

lemma examplePage_distinct: "distinct (map (canonicalCharacterId ascii_env) (pageKeys examplePage))"
  by code_simp

theorem page_exclusions_exact_witness:
  "showsHidden ascii_env exampleGraph ''a'' (hd (gs_excluded examplePage)) \<and>
   \<not> showsOrigin ascii_env ryii (hd (gs_excluded examplePage))"
proof -
  have "\<not> excludedByMember exampleGraph ''a'' []" by (simp add: excludedByMember_def exampleGraph_def)
  note exact = page_exclusions_exact [OF exampleGraph_page exampleGraph_origin examplePage_distinct this examplePage_row]
  have "hd (gs_excluded examplePage) \<in> set (gs_excluded examplePage)" by (simp add: examplePage_def)
  then show ?thesis using exact by simp
qed

theorem page_origin_leads_witness:
  "gs_selected examplePage \<noteq> [] \<and> showsOrigin ascii_env ryii (hd (gs_selected examplePage))"
  by (rule page_origin_leads [OF ascii.js_runtime_axioms exampleGraph_page exampleGraph_origin,
        where c = "\<lparr>gc_key = ryii, gc_displayName = ''Ryii'', gc_className = ''Mage'', gc_level = 80, gc_raiderIoUrl = ''u''\<rparr>"])
    (simp_all add: exampleGraph_def)

end
