(* ===== verification/GroupReplay.thy ===== *)
theory GroupReplay
  imports GroupSubjects
begin

section \<open>The character groups replay\<close>

text \<open>
  \<open>packages/application/src/character-groups-replay.ts\<close>: what the stored observations, groups and
  pages are checked against. The ledger checks compare the observation writes with the ledger, the
  drift check the stored groups with the components of the links, and the page check today's dossier
  pages with those of the groups. The audit is what the database package loads in one read; ids in a
  compound key are separated by a NUL.
\<close>

subsection \<open>The audit\<close>

record ledgerRow =
  lr_runId :: string
  lr_sweepReservationId :: "string option"
  lr_observerId :: string
  lr_family :: string
  lr_decision :: string
  lr_reason :: string
  lr_runStartedAt :: int
  lr_writtenAt :: int

record groupsObservation =
  ob_lowId :: string
  ob_highId :: string
  ob_source :: string
  ob_observerId :: string
  ob_runId :: string
  ob_observedAt :: int

datatype publicationKind = Run_publication | Reservation_publication string "string option"
  \<comment> \<open>a reservation with its id and limitation code\<close>

record groupsPublication =
  pb_kind :: publicationKind
  pb_runId :: string
  pb_observerId :: string
  pb_at :: int

record storedGroup =
  sg_recomputedAt :: int
  sg_members :: "string list"

record groupsMaintenance =
  gm_lastCycleStartedAt :: "int option"
  gm_lastCycleCompletedAt :: "int option"

record groupsAudit =
  ga_now :: int
  ga_graph :: groupGraph
  ga_groups :: "(string, storedGroup) jsmap"
  ga_maintenance :: groupsMaintenance
  ga_observations :: "groupsObservation list"
  ga_ledger :: "ledgerRow list"
  ga_publications :: "groupsPublication list"
  ga_latestRawMembership :: "(string, string list) jsmap"
  ga_observedEver :: "(string, string list) jsmap"
  ga_latestSnapshotIds :: "string list"
  ga_manualChanges :: "int list"
  ga_manualCreatedAt :: "int list"
  ga_roots :: "characterKey list"
  ga_ungroupedSince :: "(string, int) jsmap"

record replayFinding =
  rf_check :: string
  rf_detail :: string

subsection \<open>Times\<close>

definition PENDING_MS :: int where "PENDING_MS = 10 * 60 * 1000"
definition HOUR_MS :: int where "HOUR_MS = 60 * 60 * 1000"
definition MAX_MEASURED_CYCLE_MS :: int where "MAX_MEASURED_CYCLE_MS = 6 * HOUR_MS"
definition CLOCK_TOLERANCE_MS :: int where "CLOCK_TOLERANCE_MS = 5 * 1000"
definition CAPPED_SWEEP_LIMITATION :: string where "CAPPED_SWEEP_LIMITATION = ''fingerprint_sweep_capped''"
definition BASELINE_REASONS :: "string list" where "BASELINE_REASONS = [''backfill'', ''rebuild'']"

definition pendingDriftBoundMs :: "groupsMaintenance \<Rightarrow> int" where
  "pendingDriftBoundMs maintenance =
     (case (gm_lastCycleStartedAt maintenance, gm_lastCycleCompletedAt maintenance) of
        (Some started, Some completed) \<Rightarrow>
          (let cycleMs = min MAX_MEASURED_CYCLE_MS (max 0 (completed - started))
           in max (2 * HOUR_MS) (HOUR_MS + 2 * cycleMs))
      | _ \<Rightarrow> 2 * HOUR_MS)"

definition windowStart :: "groupsAudit \<Rightarrow> int" where
  "windowStart audit =
     foldl max 0 (map lr_writtenAt (filter (\<lambda>row. lr_reason row \<in> set BASELINE_REASONS) (ga_ledger audit)))"

definition youngObservers :: "groupsAudit \<Rightarrow> string list" where
  "youngObservers audit =
     map pb_observerId (filter (\<lambda>p. pb_at p > ga_now audit - PENDING_MS) (ga_publications audit))"

definition familyOfSource :: "string \<Rightarrow> string" where
  "familyOfSource source = (if source = ''fingerprint'' then ''fingerprint'' else ''raiderio'')"

definition formatKey :: "characterKey \<Rightarrow> string" where
  "formatKey key = region key @ ''/'' @ realm key @ ''/'' @ cname key"

definition describer :: "groupGraph \<Rightarrow> string \<Rightarrow> string" where
  "describer graph i =
     (if i \<in> set (gg_suppressed graph) then ''(suppressed)''
      else case map_get (gg_characters graph) i of
             Some c \<Rightarrow> formatKey (gc_key c) | None \<Rightarrow> ''(unknown)'')"

definition keyDescriber :: "groupGraph \<Rightarrow> characterKey \<Rightarrow> string" where
  "keyDescriber graph key =
     (case gg_idOf graph key of
        Some i \<Rightarrow> if i \<in> set (gg_suppressed graph) then ''(suppressed)'' else formatKey key
      | None \<Rightarrow> formatKey key)"

definition compound :: "string \<Rightarrow> string \<Rightarrow> string" where
  "compound a b = a @ CHR 0x00 # b"

subsection \<open>The ledger\<close>

fun publicationName :: "groupsPublication \<Rightarrow> string" where
  "publicationName p =
     (case pb_kind p of
        Run_publication \<Rightarrow> ''run '' @ pb_runId p
      | Reservation_publication reservationId _ \<Rightarrow> ''reservation '' @ reservationId)"

definition publicationOwed :: "groupsAudit \<Rightarrow> groupsPublication \<Rightarrow> bool" where
  \<comment> \<open>\<open>owed\<close>: its ledger row is there\<close>
  "publicationOwed audit p \<longleftrightarrow>
     (case pb_kind p of
        Run_publication \<Rightarrow> pb_runId p \<in> set (map lr_runId (filter (\<lambda>row. lr_family row = ''raiderio'') (ga_ledger audit)))
      | Reservation_publication reservationId _ \<Rightarrow>
          reservationId \<in> set (List.map_filter lr_sweepReservationId (filter (\<lambda>row. lr_family row = ''fingerprint'') (ga_ledger audit))))"

definition settledPublications :: "groupsAudit \<Rightarrow> groupsPublication list" where
  "settledPublications audit =
     filter (\<lambda>p. \<not> (pb_at p \<le> windowStart audit \<or> pb_at p > ga_now audit - PENDING_MS)) (ga_publications audit)"

definition completenessFailures :: "groupsAudit \<Rightarrow> replayFinding list" where
  "completenessFailures audit =
     map (\<lambda>p. \<lparr>rf_check = ''a_completeness'',
               rf_detail = publicationName p @ '' for '' @ describer (ga_graph audit) (pb_observerId p)\<rparr>)
       (filter (\<lambda>p. \<not> publicationOwed audit p) (settledPublications audit))"

definition observedBy :: "groupsAudit \<Rightarrow> string list" where
  "observedBy audit =
     concat (map (\<lambda>row. [compound (ob_observerId row) (ob_lowId row), compound (ob_observerId row) (ob_highId row)])
       (ga_observations audit))"

definition presenceFailures :: "groupsAudit \<Rightarrow> replayFinding list" where
  "presenceFailures audit =
     concat (map (\<lambda>(rootId, members).
       if rootId \<in> set (youngObservers audit) then []
       else map (\<lambda>memberId. \<lparr>rf_check = ''b_presence'',
                rf_detail = describer (ga_graph audit) memberId @ '' from '' @ describer (ga_graph audit) rootId\<rparr>)
              (filter (\<lambda>memberId. memberId \<noteq> rootId \<and> compound rootId memberId \<notin> set (observedBy audit)) members))
       (ga_latestRawMembership audit))"

definition loggedKeys :: "groupsAudit \<Rightarrow> string list" where
  "loggedKeys audit = map (\<lambda>row. compound (lr_runId row) (compound (lr_observerId row) (lr_family row))) (ga_ledger audit)"

definition provenanceFailures :: "groupsAudit \<Rightarrow> replayFinding list" where
  "provenanceFailures audit =
     map (\<lambda>row. \<lparr>rf_check = ''c_provenance'',
            rf_detail = familyOfSource (ob_source row) @ '' run '' @ ob_runId row @ '' observed by '' @
              describer (ga_graph audit) (ob_observerId row)\<rparr>)
       (filter (\<lambda>row. compound (ob_runId row) (compound (ob_observerId row) (familyOfSource (ob_source row)))
                  \<notin> set (loggedKeys audit)) (ga_observations audit))"

definition compareLedgerRows :: "ledgerRow \<Rightarrow> ledgerRow \<Rightarrow> int" where
  "compareLedgerRows l r = or_else (lr_runStartedAt l - lr_runStartedAt r) (lr_writtenAt l - lr_writtenAt r)"

definition last_index :: "('a \<Rightarrow> bool) \<Rightarrow> 'a list \<Rightarrow> nat option" where
  \<comment> \<open>\<open>lastIndexOf\<close>\<close>
  "last_index P xs =
     (let i = length (takeWhile (\<lambda>x. \<not> P x) (rev xs)) in if i < length xs then Some (length xs - 1 - i) else None)"

definition retractionFailures :: "groupsAudit \<Rightarrow> ledgerRow list \<Rightarrow> replayFinding list" where
  \<comment> \<open>of the rows of one observer and family\<close>
  "retractionFailures audit rows =
     (let sorted = sort_by compareLedgerRows rows
      in case last_index (\<lambda>row. lr_decision row = ''replaced'') sorted of
           None \<Rightarrow> []
         | Some replacedIndex \<Rightarrow>
             (let replaced = sorted ! replacedIndex;
                  allowedRuns = map lr_runId (filter (\<lambda>row. lr_decision row \<noteq> ''blocked'') (drop replacedIndex sorted))
              in map (\<lambda>row. \<lparr>rf_check = ''d_retraction'',
                     rf_detail = describer (ga_graph audit) (if ob_lowId row = ob_observerId row then ob_highId row else ob_lowId row)
                       @ '' survives '' @ lr_family replaced @ '' replacement for '' @ describer (ga_graph audit) (ob_observerId row)\<rparr>)
                   (filter (\<lambda>row. ob_observerId row = lr_observerId replaced \<and> familyOfSource (ob_source row) = lr_family replaced
                        \<and> ob_observedAt row < lr_runStartedAt replaced \<and> ob_runId row \<notin> set allowedRuns) (ga_observations audit))))"

subsubsection \<open>Coverage\<close>

definition add_count :: "string \<Rightarrow> nat \<Rightarrow> (string, nat) jsmap \<Rightarrow> (string, nat) jsmap" where
  \<comment> \<open>\<open>add\<close> and \<open>bump\<close>\<close>
  "add_count name by m = map_set name ((case map_get m name of None \<Rightarrow> 0 | Some n \<Rightarrow> n) + by) m"

definition sealingReservations :: "groupsAudit \<Rightarrow> string list" where
  "sealingReservations audit =
     List.map_filter (\<lambda>p. case pb_kind p of
         Run_publication \<Rightarrow> None
       | Reservation_publication reservationId code \<Rightarrow>
           if code \<noteq> Some CAPPED_SWEEP_LIMITATION then Some reservationId else None) (ga_publications audit)"

definition firstFingerprintAt :: "groupsAudit \<Rightarrow> (string, int) jsmap" where
  "firstFingerprintAt audit =
     foldl (\<lambda>m row. if lr_family row \<noteq> ''fingerprint'' then m
                    else map_set (lr_observerId row)
                           (min (case map_get m (lr_observerId row) of Some t \<Rightarrow> t | None \<Rightarrow> lr_writtenAt row) (lr_writtenAt row)) m)
       [] (ga_ledger audit)"

definition isNotDueRefresh :: "groupsAudit \<Rightarrow> ledgerRow \<Rightarrow> bool" where
  "isNotDueRefresh audit row \<longleftrightarrow>
     lr_family row = ''raiderio'' \<and> lr_reason row \<notin> set BASELINE_REASONS \<and> lr_reason row \<noteq> ''live_sweep_completion'' \<and>
     lr_runId row \<notin> set (map lr_runId (filter (\<lambda>row. lr_family row = ''fingerprint'') (ga_ledger audit))) \<and>
     (case map_get (firstFingerprintAt audit) (lr_observerId row) of
        None \<Rightarrow> False | Some swept \<Rightarrow> swept < lr_writtenAt row)"

definition isSweepRow :: "ledgerRow \<Rightarrow> bool" where
  "isSweepRow row \<longleftrightarrow>
     lr_family row = ''fingerprint'' \<and> lr_sweepReservationId row \<noteq> None \<and> lr_reason row \<notin> set BASELINE_REASONS"

definition firstCycle :: "ledgerRow list \<Rightarrow> (string, nat \<times> ledgerRow) jsmap" where
  \<comment> \<open>the first row of each chain, with its position: rows are compared as objects\<close>
  "firstCycle ledger =
     foldl (\<lambda>m (i, row).
       if \<not> isSweepRow row then m
       else (let chain = compound (lr_runId row) (lr_observerId row)
             in case map_get m chain of
                  Some (j, first) \<Rightarrow> if lr_writtenAt row < lr_writtenAt first then map_set chain (i, row) m else m
                | None \<Rightarrow> map_set chain (i, row) m)) [] (enumerate 0 ledger)"

definition coverRow ::
    "groupsAudit \<Rightarrow> int \<Rightarrow> (string, nat) jsmap \<Rightarrow> nat \<times> ledgerRow \<Rightarrow> (string, nat) jsmap" where
  "coverRow audit start coverage = (\<lambda>(i, row).
     if lr_writtenAt row \<le> start then coverage
     else (let c1 = add_count (lr_reason row) 1 coverage;
               c2 = (if isNotDueRefresh audit row then add_count ''not_due_refresh'' 1 c1 else c1)
           in if \<not> isSweepRow row then c2
              else (let c3 = add_count ''sweep_publication'' 1 c2
                    in if map_option fst (map_get (firstCycle (ga_ledger audit)) (compound (lr_runId row) (lr_observerId row))) = Some i
                       then add_count ''sweep_first_cycle'' 1 c3
                       else (let c4 = add_count ''sweep_continuation'' 1 c3
                             in case lr_sweepReservationId row of
                                  Some reservationId \<Rightarrow>
                                    if reservationId \<in> set (sealingReservations audit) then add_count ''sweep_seal'' 1 c4 else c4
                                | None \<Rightarrow> c4))))"

definition ledgerCoverage :: "groupsAudit \<Rightarrow> int \<Rightarrow> (string, nat) jsmap" where
  "ledgerCoverage audit start =
     foldl (\<lambda>coverage createdAt. if createdAt > start then add_count ''manual_added'' 1 coverage else coverage)
       (foldl (coverRow audit start) [] (enumerate 0 (ga_ledger audit))) (ga_manualCreatedAt audit)"

record ledgerAudit =
  la_failures :: "replayFinding list"
  la_coverage :: "(string, nat) jsmap"
  la_publicationsChecked :: nat

definition auditLedger :: "groupsAudit \<Rightarrow> ledgerAudit" where
  "auditLedger audit =
     (let byObserverFamily = group_by (\<lambda>row. compound (lr_observerId row) (lr_family row)) (ga_ledger audit) []
      in \<lparr>la_failures = completenessFailures audit @ presenceFailures audit @ provenanceFailures audit @
            concat (map (\<lambda>(key, rows). retractionFailures audit rows) byObserverFamily),
          la_coverage = ledgerCoverage audit (windowStart audit),
          la_publicationsChecked = length (settledPublications audit)\<rparr>)"

subsection \<open>Drift\<close>

partial_function (option) findPart :: "nat list \<Rightarrow> nat \<Rightarrow> nat option" where
  [code]: "findPart parent rt =
     (if rt < length parent then (if parent ! rt = rt then Some rt else findPart parent (parent ! rt)) else None)"

definition find_part :: "nat list \<Rightarrow> nat \<Rightarrow> (nat list \<times> nat) option" where
  "find_part parent index = map_option (\<lambda>rt. (parent[index := rt], rt)) (findPart parent index)"

definition linkParts :: "nat list \<Rightarrow> nat \<Rightarrow> nat \<Rightarrow> nat list option" where
  \<comment> \<open>\<open>parent[find(part)] = find(first)\<close>\<close>
  "linkParts parent part first =
     (case find_part parent part of
        None \<Rightarrow> None
      | Some (p1, a) \<Rightarrow> (case find_part p1 first of None \<Rightarrow> None | Some (p2, b) \<Rightarrow> Some (p2[a := b])))"

fun joinGroups ::
    "(string, nat) jsmap \<Rightarrow> (string \<times> string) list \<Rightarrow> (string, nat) jsmap \<Rightarrow> nat list \<Rightarrow> nat list option" where
  \<comment> \<open>over the entries of \<open>groupOf\<close>, with \<open>firstPartOfGroup\<close>\<close>
  "joinGroups partOf [] firstPart parent = Some parent"
| "joinGroups partOf ((i, groupId) # entries) firstPart parent =
     (case map_get partOf i of
        None \<Rightarrow> joinGroups partOf entries firstPart parent
      | Some part \<Rightarrow>
          (case map_get firstPart groupId of
             None \<Rightarrow> joinGroups partOf entries (map_set groupId part firstPart) parent
           | Some first \<Rightarrow>
               (case linkParts parent part first of
                  None \<Rightarrow> None
                | Some parent' \<Rightarrow> joinGroups partOf entries firstPart parent')))"

fun collectClusters :: "nat list \<Rightarrow> nat list \<Rightarrow> (nat, nat list) jsmap \<Rightarrow> (nat, nat list) jsmap option" where
  "collectClusters [] parent clusters = Some clusters"
| "collectClusters (index # indices) parent clusters =
     (case find_part parent index of
        None \<Rightarrow> None
      | Some (parent', rt) \<Rightarrow> collectClusters indices parent' (bucket_push rt index clusters))"

definition partIndex :: "string list list \<Rightarrow> (string, nat) jsmap" where
  \<comment> \<open>\<open>partOf\<close>\<close>
  "partIndex parts =
     foldl (\<lambda>m (index, members). foldl (\<lambda>m i. map_set i index m) m members) [] (enumerate 0 parts)"

definition driftClusters :: "string list list \<Rightarrow> (string, string) jsmap \<Rightarrow> (nat, nat list) jsmap option" where
  "driftClusters parts groupOf =
     (case joinGroups (partIndex parts) groupOf [] [0 ..< length parts] of
        None \<Rightarrow> None
      | Some parent \<Rightarrow> collectClusters [0 ..< length parts] parent [])"

definition cycleCoveredAfter :: "groupsMaintenance \<Rightarrow> int \<Rightarrow> bool" where
  "cycleCoveredAfter maintenance t \<longleftrightarrow>
     (case (gm_lastCycleStartedAt maintenance, gm_lastCycleCompletedAt maintenance) of
        (Some started, Some completed) \<Rightarrow> t \<le> started - CLOCK_TOLERANCE_MS \<and> completed \<ge> started
      | _ \<Rightarrow> False)"

definition earliestUncovered :: "groupsMaintenance \<Rightarrow> int list \<Rightarrow> int option" where
  "earliestUncovered maintenance instants =
     (case filter (\<lambda>t. \<not> cycleCoveredAfter maintenance t) instants of
        [] \<Rightarrow> None | t # ts \<Rightarrow> Some (foldl min t ts))"

definition groupPendingSince :: "groupsAudit \<Rightarrow> string \<Rightarrow> int option" where
  "groupPendingSince audit groupId =
     (case map_get (ga_groups audit) groupId of
        None \<Rightarrow> Some 0
      | Some grp \<Rightarrow>
          (let recomputedAt = sg_recomputedAt grp - CLOCK_TOLERANCE_MS
           in earliestUncovered (ga_maintenance audit)
                (concat (map (\<lambda>i. filter (\<lambda>t. t > recomputedAt)
                   (map lr_writtenAt (filter (\<lambda>row. lr_observerId row = i) (ga_ledger audit)))) (sg_members grp)))))"

definition storedGroupOf :: "(string, string) jsmap \<Rightarrow> string \<Rightarrow> string" where
  "storedGroupOf groupOf i = (case map_get groupOf i of Some g \<Rightarrow> g | None \<Rightarrow> compound ''ungrouped'' i)"

definition minutesOf :: "int \<Rightarrow> string" where
  \<comment> \<open>\<open>Math.round(ms / 60_000)\<close> of a positive number of milliseconds, printed\<close>
  "minutesOf ms = decimal (nat ((ms + 30000) div 60000))"

definition driftTriggers :: "groupsAudit \<Rightarrow> string list \<Rightarrow> string list \<Rightarrow> bool \<Rightarrow> int list" where
  "driftTriggers audit groupIds ungrouped manualAcross =
     List.map_filter (groupPendingSince audit) groupIds @
     filter (\<lambda>created. \<not> cycleCoveredAfter (ga_maintenance audit) created)
       (map (\<lambda>i. case map_get (ga_ungroupedSince audit) i of Some created \<Rightarrow> created | None \<Rightarrow> 0) ungrouped) @
     (if manualAcross
      then (case earliestUncovered (ga_maintenance audit) (ga_manualChanges audit) of None \<Rightarrow> [] | Some t \<Rightarrow> [t])
      else [])"

definition observedAcross :: "groupsAudit \<Rightarrow> (string, nat) jsmap \<Rightarrow> string list \<Rightarrow> bool" where
  "observedAcross audit partOf ids \<longleftrightarrow>
     list_ex (\<lambda>from. list_ex (\<lambda>to. to \<in> set ids \<and> map_get partOf from \<noteq> map_get partOf to)
        (case map_get (ga_observedEver audit) from of None \<Rightarrow> [] | Some seen \<Rightarrow> seen)) ids \<or>
     list_ex (\<lambda>row. ob_lowId row \<in> set ids \<and> ob_highId row \<in> set ids \<and>
        map_get partOf (ob_lowId row) \<noteq> map_get partOf (ob_highId row)) (ga_observations audit)"

record driftAudit =
  da_failures :: "replayFinding list"
  da_reports :: "replayFinding list"

definition judgeCluster :: "groupsAudit \<Rightarrow> string list list \<Rightarrow> nat list \<Rightarrow> driftAudit" where
  \<comment> \<open>the finding of one cluster\<close>
  "judgeCluster audit parts indices =
     (let graph = ga_graph audit;
          groupOf = gg_groupOf graph;
          ids = sort (concat (map ((!) parts) indices));
          groupIds = keep_first (\<lambda>g. g) (List.map_filter (map_get groupOf) ids) [];
          ungrouped = filter (\<lambda>i. map_get groupOf i = None) ids
      in if length indices = 1 \<and> length groupIds = 1 \<and> length ungrouped = 0
         then \<lparr>da_failures = [], da_reports = []\<rparr>
         else
           (let around = (case ids of [] \<Rightarrow> ''(unknown)'' | i # _ \<Rightarrow> describer graph i);
                manualAcross = list_ex (\<lambda>l. sl_strength l = Manual_strength \<and> sl_a l \<in> set ids \<and> sl_b l \<in> set ids \<and>
                  storedGroupOf groupOf (sl_a l) \<noteq> storedGroupOf groupOf (sl_b l)) (gg_links graph);
                triggers = driftTriggers audit groupIds ungrouped manualAcross;
                boundMs = pendingDriftBoundMs (ga_maintenance audit)
            in if triggers \<noteq> []
               then (if list_ex (\<lambda>t. t < ga_now audit - boundMs) triggers
                     then \<lparr>da_failures = [\<lparr>rf_check = ''drift_stale_pending'',
                             rf_detail = decimal (length ids) @ '' characters around '' @ around @ '', pending over '' @
                               minutesOf boundMs @ '' minutes''\<rparr>], da_reports = []\<rparr>
                     else \<lparr>da_failures = [], da_reports = [\<lparr>rf_check = ''drift_pending'',
                             rf_detail = decimal (length ids) @ '' characters around '' @ around\<rparr>]\<rparr>)
               else if (length groupIds = 1 \<and> length ungrouped = 0) \<and> \<not> observedAcross audit (partIndex parts) ids
               then \<lparr>da_failures = [], da_reports = [\<lparr>rf_check = ''drift_manual'',
                       rf_detail = decimal (length indices) @ '' recomputed groups in one stored group around '' @ around\<rparr>]\<rparr>
               else \<lparr>da_failures = [\<lparr>rf_check = ''drift'',
                       rf_detail = decimal (length indices) @ '' recomputed and '' @
                         decimal (length groupIds + length ungrouped) @ '' stored groups around '' @ around\<rparr>], da_reports = []\<rparr>))"

definition graphComponents :: "groupGraph \<Rightarrow> string list list option" where
  "graphComponents graph =
     components (map fst (gg_characters graph)) (map (\<lambda>l. \<lparr>link_a = sl_a l, link_b = sl_b l\<rparr>) (gg_links graph))"

definition auditDrift :: "groupsAudit \<Rightarrow> driftAudit option" where
  \<comment> \<open>\<^term>\<open>None\<close>: a walk of a parent chain does not end\<close>
  "auditDrift audit =
     (case graphComponents (ga_graph audit) of
        None \<Rightarrow> None
      | Some parts \<Rightarrow>
          map_option (\<lambda>clusters.
            let findings = map (\<lambda>(rt, indices). judgeCluster audit parts indices) clusters
            in \<lparr>da_failures = concat (map da_failures findings), da_reports = concat (map da_reports findings)\<rparr>)
            (driftClusters parts (gg_groupOf (ga_graph audit))))"

definition auditMaintenance :: "groupsAudit \<Rightarrow> replayFinding list" where
  "auditMaintenance audit =
     (let baseline = windowStart audit;
          firstWrite = (case map lr_writtenAt (ga_ledger audit) of [] \<Rightarrow> None | t # ts \<Rightarrow> Some (foldl min t ts));
          since = max (if baseline > 0 then baseline else case firstWrite of Some t \<Rightarrow> t | None \<Rightarrow> 0)
                    (case gm_lastCycleCompletedAt (ga_maintenance audit) of Some t \<Rightarrow> t | None \<Rightarrow> 0);
          boundMs = pendingDriftBoundMs (ga_maintenance audit)
      in if ga_now audit - since > boundMs
         then [\<lparr>rf_check = ''maintenance_stale'',
                rf_detail = ''no maintenance cycle completed in the last '' @ minutesOf boundMs @ '' minutes''\<rparr>]
         else [])"

subsection \<open>Pages\<close>

datatype label = Raiderio_declared | Fingerprint_derived | Manually_added_label

fun labelRank :: "label \<Rightarrow> nat" where
  "labelRank Raiderio_declared = 3"
| "labelRank Fingerprint_derived = 2"
| "labelRank Manually_added_label = 1"

fun labelOf :: "subjectSource \<Rightarrow> label option" where
  "labelOf Submitted_source = None"
| "labelOf Manually_added_source = Some Manually_added_label"
| "labelOf (Snapshot_source source) = Some (if source = Fingerprint_source then Fingerprint_derived else Raiderio_declared)"

fun labelOfStrength :: "linkStrength \<Rightarrow> label" where
  "labelOfStrength Raiderio_strength = Raiderio_declared"
| "labelOfStrength Fingerprint_strength = Fingerprint_derived"
| "labelOfStrength Manual_strength = Manually_added_label"

record pageRow =
  pg_subject :: rankedSubject
  pg_excluded :: bool

definition withRecomputedGroups :: "groupGraph \<Rightarrow> groupGraph option" where
  "withRecomputedGroups graph =
     map_option (\<lambda>parts. graph\<lparr>gg_groupOf := foldl (\<lambda>m members. foldl (\<lambda>m i. map_set i (hd members) m) m members) [] parts\<rparr>)
       (graphComponents graph)"

type_synonym resolver = "characterKey \<Rightarrow> groupGraph \<Rightarrow> nat \<Rightarrow> groupSubjects option option"

definition rowsOf :: "rankedSubject list \<Rightarrow> rankedSubject list \<Rightarrow> rankedSubject list \<Rightarrow> pageRow list" where
  "rowsOf selected skipped excluded =
     map (\<lambda>s. \<lparr>pg_subject = s, pg_excluded = False\<rparr>) (selected @ skipped) @
     map (\<lambda>s. \<lparr>pg_subject = s, pg_excluded = True\<rparr>) excluded"

definition rowIds :: "js_env \<Rightarrow> pageRow \<Rightarrow> string list" where
  "rowIds E row = map (canonicalCharacterId E) (keysOf (pg_subject row))"

definition rowsByKey :: "js_env \<Rightarrow> pageRow list \<Rightarrow> (string, pageRow) jsmap" where
  \<comment> \<open>\<open>nextByKey\<close>\<close>
  "rowsByKey E rows = foldl (\<lambda>m row. foldl (\<lambda>m c. map_set c row m) m (rowIds E row)) [] rows"

definition holdsOrigin :: "js_env \<Rightarrow> characterKey \<Rightarrow> pageRow \<Rightarrow> bool" where
  "holdsOrigin E key row \<longleftrightarrow> list_ex (\<lambda>c. c = canonicalCharacterId E key) (rowIds E row)"

definition removedFailures ::
    "js_env \<Rightarrow> groupGraph \<Rightarrow> string \<Rightarrow> pageRow list \<Rightarrow> (string, pageRow) jsmap \<Rightarrow> replayFinding list" where
  "removedFailures E graph page todayRows nextByKey =
     map (\<lambda>k. \<lparr>rf_check = ''removed'', rf_detail = keyDescriber graph k @ '' from '' @ page\<rparr>)
       (filter (\<lambda>k. \<not> map_has nextByKey (canonicalCharacterId E k)) (concat (map (\<lambda>row. keysOf (pg_subject row)) todayRows)))"

definition labelAfter ::
    "js_env \<Rightarrow> groupGraph \<Rightarrow> (string, linkStrength) jsmap \<Rightarrow> pageRow \<Rightarrow> pageRow \<Rightarrow> label option" where
  \<comment> \<open>\<open>after\<close>, of a row of today and the group page's row that shows its key\<close>
  "labelAfter E graph strengths row found =
     (if canonicalCharacterId E (rs_key (pg_subject found)) = canonicalCharacterId E (rs_key (pg_subject row))
      then labelOf (rs_source (pg_subject found))
      else (case gg_idOf graph (rs_key (pg_subject row)) of
              None \<Rightarrow> None
            | Some i \<Rightarrow> map_option labelOfStrength (map_get strengths i)))"

definition labelWeakened ::
    "js_env \<Rightarrow> groupGraph \<Rightarrow> characterKey \<Rightarrow> (string, linkStrength) jsmap \<Rightarrow> (string, pageRow) jsmap \<Rightarrow> pageRow \<Rightarrow> bool" where
  "labelWeakened E graph key strengths nextByKey row \<longleftrightarrow>
     \<not> holdsOrigin E key row \<and>
     (case map_get nextByKey (canonicalCharacterId E (rs_key (pg_subject row))) of
        None \<Rightarrow> False
      | Some found \<Rightarrow>
          (case labelOf (rs_source (pg_subject row)) of
             None \<Rightarrow> False
           | Some before \<Rightarrow>
               (case labelAfter E graph strengths row found of
                  None \<Rightarrow> False | Some after \<Rightarrow> labelRank after < labelRank before)))"

definition exclusionRows :: "groupGraph \<Rightarrow> (string \<times> string) list" where
  \<comment> \<open>maker and target of every exclusion\<close>
  "exclusionRows graph =
     map (\<lambda>row. (mr_makerId row, mr_targetId row)) (filter mr_excluded (gg_manual graph)) @
     map (\<lambda>row. (de_makerId row, de_targetId row)) (gg_discoveredExclusions graph)"

definition exclusionExplained :: "js_env \<Rightarrow> groupGraph \<Rightarrow> string \<Rightarrow> pageRow \<Rightarrow> bool" where
  "exclusionExplained E graph originId row \<longleftrightarrow>
     (let ids = List.map_filter (gg_idOf graph) (keysOf (pg_subject row));
          originGroup = map_get (gg_groupOf graph) originId
      in list_ex (\<lambda>(makerId, targetId). targetId \<in> set ids \<and> map_get (gg_groupOf graph) makerId = originGroup \<and>
             \<not> isSelfExclusion graph makerId targetId) (exclusionRows graph) \<or>
         list_ex (\<lambda>t. ut_excluded t \<and> canonicalCharacterId E (ut_targetKey t) \<in> set (rowIds E row) \<and>
             map_get (gg_groupOf graph) (ut_makerId t) = originGroup) (gg_undiscoveredManualTargets graph))"

definition todayExcluded :: "js_env \<Rightarrow> pageRow list \<Rightarrow> string list" where
  "todayExcluded E todayRows = concat (map (rowIds E) (filter pg_excluded todayRows))"

definition exclusionLost :: "js_env \<Rightarrow> characterKey \<Rightarrow> (string, pageRow) jsmap \<Rightarrow> pageRow \<Rightarrow> bool" where
  "exclusionLost E key nextByKey row \<longleftrightarrow>
     pg_excluded row \<and>
     (case List.map_filter (map_get nextByKey) (rowIds E row) of
        [] \<Rightarrow> False | found # _ \<Rightarrow> \<not> pg_excluded found \<and> \<not> holdsOrigin E key found)"

record pageComparison =
  pc_failures :: "replayFinding list"
  pc_reports :: "replayFinding list"
  pc_counts :: "(string, nat) jsmap"

definition comparePage ::
    "js_env \<Rightarrow> groupGraph \<Rightarrow> (string, linkStrength) jsmap \<Rightarrow> characterKey \<Rightarrow> string \<Rightarrow> resolvedSubjects \<Rightarrow> groupSubjects \<Rightarrow>
     pageComparison \<Rightarrow> pageComparison" where
  \<comment> \<open>one page that is resolved on both sides\<close>
  "comparePage E graph strengths key originId today nxt acc =
     (let page = keyDescriber graph key;
          todayRows = rowsOf (rv_selected today) (rv_skipped today) (rv_excludedOrdered today);
          nextRows = rowsOf (gs_selected nxt) (gs_skipped nxt) (gs_excluded nxt);
          nextByKey = rowsByKey E nextRows;
          todayKeys = keep_first (\<lambda>c. c) (concat (map (rowIds E) todayRows)) [];
          finding = (\<lambda>check row. \<lparr>rf_check = check,
             rf_detail = keyDescriber graph (rs_key (pg_subject row)) @ '' on '' @ page\<rparr>);
          weakened = map (finding ''label_weakened'') (filter (labelWeakened E graph key strengths nextByKey) todayRows);
          hidden = filter pg_excluded nextRows;
          unexplained = map (finding ''exclusion_unexplained'') (filter (\<lambda>row. \<not> exclusionExplained E graph originId row) hidden);
          shared = map (finding ''shared_exclusion'') (filter (\<lambda>row. exclusionExplained E graph originId row \<and>
             \<not> list_ex (\<lambda>c. c \<in> set (todayExcluded E todayRows)) (rowIds E row)) hidden);
          lost = map (finding ''exclusion_lost'') (filter (exclusionLost E key nextByKey) todayRows);
          missing = (case ss_limitationCode (rv_snapshot today) of
             None \<Rightarrow> []
           | Some code \<Rightarrow> if code = [] \<or> code \<in> set (pr_limitationCodes (gs_research nxt)) then [] else [code]);
          limitation = map (\<lambda>code. \<lparr>rf_check = (if length shared > 0 then ''limitation_removed'' else ''limitation_missing''),
             rf_detail = code @ '' on '' @ page\<rparr>) missing;
          stateChanged = \<not> rv_provisional today \<and> ss_state (rv_snapshot today) \<noteq> pr_state (gs_research nxt);
          stateName = (\<lambda>s. if s = Complete_state then ''complete'' else ''partial'');
          stateReports = (if stateChanged then [\<lparr>rf_check = ''research_state_changed'',
             rf_detail = stateName (ss_state (rv_snapshot today)) @ '' to '' @ stateName (pr_state (gs_research nxt)) @
               '' on '' @ page\<rparr>] else []);
          overCeiling = (if length (gs_skipped nxt) > 0 then [\<lparr>rf_check = ''over_ceiling'', rf_detail = page\<rparr>] else []);
          nextKeys = map fst nextByKey;
          extra = length (filter (\<lambda>c. c \<notin> set todayKeys) nextKeys);
          grew = (if extra > 0 then [\<lparr>rf_check = ''grew'', rf_detail = decimal extra @ '' more on '' @ page\<rparr>] else []);
          c1 = add_count ''pages'' 1 (pc_counts acc);
          c2 = (if rv_provisional today then add_count ''provisional'' 1 c1 else c1);
          c3 = add_count ''sharedExclusions'' (length shared) c2;
          c4 = (if stateChanged then add_count ''researchStateChanged'' 1 c3 else c3);
          c5 = add_count (if extra > 0 then ''grew''
                          else if list_ex (\<lambda>c. c \<notin> set nextKeys) todayKeys then ''lost'' else ''unchanged'') 1 c4
      in \<lparr>pc_failures = pc_failures acc @ removedFailures E graph page todayRows nextByKey @ weakened @ unexplained @ lost @
            (if length shared > 0 then [] else limitation) @ overCeiling,
          pc_reports = pc_reports acc @ shared @ (if length shared > 0 then limitation else []) @ stateReports @ grew,
          pc_counts = c5\<rparr>)"

definition todayPageIds :: "groupGraph \<Rightarrow> characterKey \<Rightarrow> resolvedSubjects \<Rightarrow> string list" where
  \<comment> \<open>\<open>pageIds\<close>\<close>
  "todayPageIds graph key today =
     (case gg_idOf graph key of None \<Rightarrow> [] | Some i \<Rightarrow> [i]) @
     concat (map (\<lambda>row. List.map_filter (gg_idOf graph) (keysOf (pg_subject row)))
       (rowsOf (rv_selected today) (rv_skipped today) (rv_excludedOrdered today)))"

definition compareRoot ::
    "js_env \<Rightarrow> groupsAudit \<Rightarrow> groupGraph \<Rightarrow> (string, resolvedSubjects option) jsmap \<Rightarrow> nat \<Rightarrow> resolver \<Rightarrow>
     pageComparison \<Rightarrow> characterKey \<Rightarrow> pageComparison option" where
  \<comment> \<open>one root; \<^term>\<open>None\<close>: the resolution throws\<close>
  "compareRoot E audit graph legacy cap resolve acc key =
     (case map_get legacy (canonicalCharacterId E key) of
        Some (Some today) \<Rightarrow>
          (let page = keyDescriber graph key
           in if list_ex (\<lambda>i. i \<in> set (youngObservers audit)) (todayPageIds graph key today)
              then Some (acc\<lparr>pc_counts := add_count ''pendingPages'' 1 (pc_counts acc)\<rparr>)
              else if ss_id (rv_snapshot today) \<notin> set (ga_latestSnapshotIds audit)
              then Some (acc\<lparr>pc_counts := add_count ''movedPages'' 1 (pc_counts acc),
                             pc_reports := pc_reports acc @ [\<lparr>rf_check = ''page_moved'', rf_detail = page\<rparr>]\<rparr>)
              else (let absent = (let c = add_count ''pages'' 1 (pc_counts acc)
                                  in acc\<lparr>pc_counts := (if rv_provisional today then add_count ''provisional'' 1 c else c),
                                         pc_failures := pc_failures acc @ [\<lparr>rf_check = ''page_missing'', rf_detail = page\<rparr>]\<rparr>)
                    in case gg_idOf graph key of
                         None \<Rightarrow> Some absent
                       | Some originId \<Rightarrow>
                           (case resolve key graph cap of
                              None \<Rightarrow> None
                            | Some None \<Rightarrow> Some absent
                            | Some (Some nxt) \<Rightarrow>
                                map_option (\<lambda>strengths. comparePage E graph strengths key originId today nxt acc)
                                  (pathStrengths originId (pageLinks graph (pageMembers originId graph))))))
      | _ \<Rightarrow> Some acc)"

fun compareRoots ::
    "js_env \<Rightarrow> groupsAudit \<Rightarrow> groupGraph \<Rightarrow> (string, resolvedSubjects option) jsmap \<Rightarrow> nat \<Rightarrow> resolver \<Rightarrow>
     characterKey list \<Rightarrow> pageComparison \<Rightarrow> pageComparison option" where
  "compareRoots E audit graph legacy cap resolve [] acc = Some acc"
| "compareRoots E audit graph legacy cap resolve (key # keys) acc =
     (case compareRoot E audit graph legacy cap resolve acc key of
        None \<Rightarrow> None
      | Some acc' \<Rightarrow> compareRoots E audit graph legacy cap resolve keys acc')"

definition initialCounts :: "groupGraph \<Rightarrow> (string, nat) jsmap" where
  "initialCounts graph =
     [(''pages'', 0), (''pendingPages'', 0), (''movedPages'', 0), (''provisional'', 0), (''unchanged'', 0), (''grew'', 0),
      (''lost'', 0), (''researchStateChanged'', 0), (''sharedExclusions'', 0),
      (''selfExclusions'', length (filter (\<lambda>(makerId, targetId). isSelfExclusion graph makerId targetId) (exclusionRows graph)))]"

definition comparePages ::
    "js_env \<Rightarrow> groupsAudit \<Rightarrow> (string, resolvedSubjects option) jsmap \<Rightarrow> nat \<Rightarrow> resolver \<Rightarrow> pageComparison option" where
  "comparePages E audit legacy cap resolve =
     (case withRecomputedGroups (ga_graph audit) of
        None \<Rightarrow> None
      | Some graph \<Rightarrow> compareRoots E audit graph legacy cap resolve (ga_roots audit)
          \<lparr>pc_failures = [], pc_reports = [], pc_counts = initialCounts graph\<rparr>)"

subsection \<open>The whole replay\<close>

record replayReport =
  rr_failures :: "replayFinding list"
  rr_reports :: "replayFinding list"
  rr_counts :: "(string, nat) jsmap"
  rr_coverage :: "(string, nat) jsmap"
  rr_windowStart :: "string option"
  rr_publicationsChecked :: nat
  rr_lastCycleStartedAt :: "string option"
  rr_lastCycleCompletedAt :: "string option"

definition replayCharacterGroups ::
    "js_env \<Rightarrow> groupsAudit \<Rightarrow> (string, resolvedSubjects option) jsmap \<Rightarrow> nat \<Rightarrow> replayReport option" where
  "replayCharacterGroups E audit legacy cap =
     (case (auditDrift audit, comparePages E audit legacy cap (resolveGroupSubjects E)) of
        (Some drift, Some pages) \<Rightarrow>
          (let ledger = auditLedger audit; start = windowStart audit
           in Some \<lparr>rr_failures = pc_failures pages @ la_failures ledger @ da_failures drift @ auditMaintenance audit,
                    rr_reports = pc_reports pages @ da_reports drift, rr_counts = pc_counts pages,
                    rr_coverage = la_coverage ledger,
                    rr_windowStart = (if start > 0 then Some (toISOString start) else None),
                    rr_publicationsChecked = la_publicationsChecked ledger,
                    rr_lastCycleStartedAt = map_option toISOString (gm_lastCycleStartedAt (ga_maintenance audit)),
                    rr_lastCycleCompletedAt = map_option toISOString (gm_lastCycleCompletedAt (ga_maintenance audit))\<rparr>)
      | _ \<Rightarrow> None)"

end
