(* ===== verification/GroupReplayCorrect.thy ===== *)
theory GroupReplayCorrect
  imports GroupReplay GroupSubjectsCorrect ConnectionsCorrect
begin

section \<open>What a clean replay shows\<close>

text \<open>
  The drift check finds nothing exactly when the stored groups are the components of the links: the
  clusters it judges are those of recomputed components that share a stored group, by a union-find
  over their positions. A clean ledger check accounts for every settled publication, membership and
  observation, and a clean page check for every row of today's pages.
\<close>

subsection \<open>Union-find over positions\<close>

inductive rootOf :: "nat list \<Rightarrow> nat \<Rightarrow> nat \<Rightarrow> bool" for p where
  rootOf_root: "r < length p \<Longrightarrow> p ! r = r \<Longrightarrow> rootOf p r r"
| rootOf_step: "i < length p \<Longrightarrow> p ! i \<noteq> i \<Longrightarrow> rootOf p (p ! i) r \<Longrightarrow> rootOf p i r"

lemma findPart_rootOf: "rootOf p i r \<Longrightarrow> findPart p i = Some r"
  by (induction rule: rootOf.induct) (simp_all add: findPart.simps)

lemma rootOf_unique: "rootOf p i r \<Longrightarrow> rootOf p i s \<Longrightarrow> r = s"
  by (metis findPart_rootOf option.inject)

lemma rootOf_via: "i < length p \<Longrightarrow> p ! i = k \<Longrightarrow> k \<noteq> i \<Longrightarrow> rootOf p k r \<Longrightarrow> rootOf p i r"
  using rootOf_step by blast

lemma rootOf_fixed: "rootOf p i r \<Longrightarrow> r < length p \<and> p ! r = r"
  by (induction rule: rootOf.induct) simp_all

definition rooted :: "nat list \<Rightarrow> bool" where
  "rooted p \<longleftrightarrow> (\<forall>i < length p. \<exists>r. rootOf p i r)"

lemma rootOf_compress:
  assumes "rootOf p i r" and "rootOf p j s"
  shows "rootOf (p[i := r]) j s"
  using assms(2)
proof (induction rule: rootOf.induct)
  case (rootOf_root s)
  show ?case
  proof (cases "s = i")
    case True
    then have "r = s" using assms(1) rootOf_root rootOf.rootOf_root rootOf_unique by blast
    then show ?thesis using rootOf_root True by (intro rootOf.rootOf_root) simp_all
  next
    case False
    then show ?thesis using rootOf_root by (intro rootOf.rootOf_root) simp_all
  qed
next
  case (rootOf_step j s)
  show ?case
  proof (cases "j = i")
    case True
    then have "r = s" using assms(1) rootOf_step.hyps rootOf.rootOf_step rootOf_unique by blast
    have "r \<noteq> i" using rootOf_fixed [OF assms(1)] rootOf_step.hyps(2) True by auto
    then have "rootOf (p[i := r]) r r" using rootOf_fixed [OF assms(1)] by (intro rootOf.rootOf_root) simp_all
    moreover have "p[i := r] ! i = r" "i < length (p[i := r])" using rootOf_step.hyps(1) True by simp_all
    ultimately have "rootOf (p[i := r]) i r" using \<open>r \<noteq> i\<close> by (intro rootOf_via [of i "p[i := r]" r r])
    then show ?thesis by (simp only: True \<open>r = s\<close>)
  next
    case False
    then have "j < length (p[i := r])" "p[i := r] ! j = p ! j" using rootOf_step.hyps(1) by simp_all
    then show ?thesis using rootOf_step.hyps(2) rootOf_step.IH by (rule rootOf_via)
  qed
qed

lemma rootOf_link:
  assumes "rootOf p j s" and b: "b < length p" "p ! b = b" and a: "p ! a = a"
  shows "rootOf (p[a := b]) j (if s = a then b else s)"
  using assms(1)
proof (induction rule: rootOf.induct)
  case (rootOf_root s)
  show ?case
  proof (cases "s = a \<and> a \<noteq> b")
    case True
    have "rootOf (p[a := b]) b b" using True b by (intro rootOf.rootOf_root) simp_all
    moreover have "p[a := b] ! a = b" "a < length (p[a := b])" "b \<noteq> a" using rootOf_root(1) True by simp_all
    ultimately have "rootOf (p[a := b]) a b" by (intro rootOf_via [of a "p[a := b]" b b])
    then show ?thesis using True by (simp only: simp_thms if_True)
  next
    case False
    have "p[a := b] ! s = s" using False rootOf_root b by (cases "a = b") (auto simp: nth_list_update)
    then have "rootOf (p[a := b]) s s" using rootOf_root(1) by (intro rootOf.rootOf_root) simp_all
    then show ?thesis using False by (cases "s = a") simp_all
  qed
next
  case (rootOf_step j s)
  then have "j \<noteq> a" using a by auto
  then have "j < length (p[a := b])" "p[a := b] ! j = p ! j" using rootOf_step.hyps(1) by simp_all
  then show ?case using rootOf_step.hyps(2) rootOf_step.IH by (rule rootOf_via)
qed

definition sameRoot :: "nat list \<Rightarrow> nat \<Rightarrow> nat \<Rightarrow> bool" where
  "sameRoot p i j \<longleftrightarrow> (\<exists>r. rootOf p i r \<and> rootOf p j r)"

lemma sameRoot_iff: "rootOf p u m \<Longrightarrow> rootOf p v n \<Longrightarrow> sameRoot p u v \<longleftrightarrow> m = n"
  unfolding sameRoot_def using rootOf_unique by blast

lemma find_part_rooted:
  assumes "rooted p" and "i < length p"
  shows "\<exists>r. find_part p i = Some (p[i := r], r) \<and> rootOf p i r \<and> rooted (p[i := r]) \<and>
    (\<forall>j s. j < length p \<longrightarrow> (rootOf (p[i := r]) j s \<longleftrightarrow> rootOf p j s))"
proof -
  obtain r where r: "rootOf p i r" using assms by (auto simp: rooted_def)
  have forth: "rootOf p j s \<Longrightarrow> rootOf (p[i := r]) j s" for j s by (rule rootOf_compress [OF r])
  have "rootOf (p[i := r]) j s \<longleftrightarrow> rootOf p j s" if "j < length p" for j s
  proof -
    obtain t where "rootOf p j t" using assms(1) \<open>j < length p\<close> by (auto simp: rooted_def)
    then show ?thesis using forth rootOf_unique by blast
  qed
  moreover from this have "rooted (p[i := r])" using assms(1) by (simp add: rooted_def)
  moreover have "find_part p i = Some (p[i := r], r)" using findPart_rootOf [OF r] by (simp add: find_part_def)
  ultimately show ?thesis using r by blast
qed

lemma linkParts_rooted:
  assumes p: "rooted p" and i: "i < length p" and k: "k < length p"
  shows "\<exists>p'. linkParts p i k = Some p' \<and> length p' = length p \<and> rooted p' \<and>
    (\<forall>x y. x < length p \<longrightarrow> y < length p \<longrightarrow> (sameRoot p' x y \<longleftrightarrow>
       sameRoot p x y \<or> sameRoot p x i \<and> sameRoot p k y \<or> sameRoot p x k \<and> sameRoot p i y))"
proof -
  obtain a where a: "find_part p i = Some (p[i := a], a)" "rootOf p i a" "rooted (p[i := a])"
    "\<And>j s. j < length p \<Longrightarrow> rootOf (p[i := a]) j s \<longleftrightarrow> rootOf p j s"
    using find_part_rooted [OF p i] by blast
  let ?p1 = "p[i := a]"
  have len: "length ?p1 = length p" by simp
  then obtain b where b: "find_part ?p1 k = Some (?p1[k := b], b)" "rootOf ?p1 k b" "rooted (?p1[k := b])"
    "\<And>j s. j < length p \<Longrightarrow> rootOf (?p1[k := b]) j s \<longleftrightarrow> rootOf ?p1 j s"
    using find_part_rooted [OF a(3), of k] k by auto
  let ?p2 = "?p1[k := b]"
  have root: "rootOf ?p2 j s \<longleftrightarrow> rootOf p j s" if "j < length p" for j s using a(4) b(4) that by blast
  have "rootOf p k b" using a(4) b(2) k by blast
  have fixed: "a < length ?p2" "?p2 ! a = a" "b < length ?p2" "?p2 ! b = b"
    using rootOf_fixed [of ?p2 i a] rootOf_fixed [of ?p2 k b] root i k a(2) \<open>rootOf p k b\<close> by simp_all
  let ?p' = "?p2[a := b]"
  have forth: "rootOf p j s \<Longrightarrow> j < length p \<Longrightarrow> rootOf ?p' j (if s = a then b else s)" for j s
    using rootOf_link [OF _ fixed(3,4,2)] root by blast
  have "sameRoot ?p' x y \<longleftrightarrow> sameRoot p x y \<or> sameRoot p x i \<and> sameRoot p k y \<or> sameRoot p x k \<and> sameRoot p i y"
    if x: "x < length p" and y: "y < length p" for x y
  proof -
    obtain s t where s: "rootOf p x s" and t: "rootOf p y t" using p x y unfolding rooted_def by blast
    have "sameRoot ?p' x y \<longleftrightarrow> (if s = a then b else s) = (if t = a then b else t)"
      by (rule sameRoot_iff [OF forth [OF s x] forth [OF t y]])
    then show ?thesis
      unfolding sameRoot_iff [OF s t] sameRoot_iff [OF s a(2)] sameRoot_iff [OF \<open>rootOf p k b\<close> t]
        sameRoot_iff [OF s \<open>rootOf p k b\<close>] sameRoot_iff [OF a(2) t] by auto
  qed
  moreover have "rooted ?p'"
    unfolding rooted_def
  proof (intro allI impI)
    fix j assume "j < length ?p'"
    then have j: "j < length p" by simp
    then obtain s where "rootOf p j s" using p unfolding rooted_def by blast
    from forth [OF this j] show "\<exists>r. rootOf ?p' j r" ..
  qed
  moreover have "linkParts p i k = Some ?p'" by (simp add: linkParts_def a(1) b(1))
  ultimately show ?thesis by (intro exI [of _ ?p']) simp
qed

subsection \<open>Clusters\<close>

text \<open>Positions that share a stored group, after some entries of \<open>groupOf\<close>.\<close>

definition sharing :: "(string, nat) jsmap \<Rightarrow> (string \<times> string) set \<Rightarrow> (nat \<times> nat) set" where
  "sharing partOf entries =
     {(x, y). \<exists>i j g. (i, g) \<in> entries \<and> (j, g) \<in> entries \<and> map_get partOf i = Some x \<and> map_get partOf j = Some y}"

definition joined ::
    "(string, nat) jsmap \<Rightarrow> nat \<Rightarrow> (string \<times> string) set \<Rightarrow> (string, nat) jsmap \<Rightarrow> nat list \<Rightarrow> bool" where
  "joined partOf n seen firstPart p \<longleftrightarrow>
     length p = n \<and> rooted p \<and>
     (\<forall>g k. map_get firstPart g = Some k \<longrightarrow> (\<exists>i. (i, g) \<in> seen \<and> map_get partOf i = Some k)) \<and>
     (\<forall>(i, g) \<in> seen. \<forall>k. map_get partOf i = Some k \<longrightarrow> (\<exists>f. map_get firstPart g = Some f \<and> sameRoot p k f)) \<and>
     (\<forall>x < n. \<forall>y < n. sameRoot p x y \<longrightarrow> (x, y) \<in> (sharing partOf seen)\<^sup>*)"

lemma joinedD:
  assumes "joined partOf n seen firstPart p"
  shows "length p = n" and "rooted p"
    and "map_get firstPart g = Some k \<Longrightarrow> \<exists>i. (i, g) \<in> seen \<and> map_get partOf i = Some k"
    and "(i, g) \<in> seen \<Longrightarrow> map_get partOf i = Some k \<Longrightarrow> \<exists>f. map_get firstPart g = Some f \<and> sameRoot p k f"
    and "x < n \<Longrightarrow> y < n \<Longrightarrow> sameRoot p x y \<Longrightarrow> (x, y) \<in> (sharing partOf seen)\<^sup>*"
  using assms unfolding joined_def by blast+

lemma sharing_mono: "seen \<subseteq> seen' \<Longrightarrow> sharing partOf seen \<subseteq> sharing partOf seen'"
  unfolding sharing_def by blast

lemma sharing_rtrancl_mono: "(x, y) \<in> (sharing partOf seen)\<^sup>* \<Longrightarrow> seen \<subseteq> seen' \<Longrightarrow> (x, y) \<in> (sharing partOf seen')\<^sup>*"
  by (meson rtrancl_mono sharing_mono subsetD)

lemma sameRoot_refl: "rooted p \<Longrightarrow> x < length p \<Longrightarrow> sameRoot p x x"
  unfolding rooted_def sameRoot_def by blast

lemma sameRoot_sym: "sameRoot p x y \<longleftrightarrow> sameRoot p y x"
  unfolding sameRoot_def by blast

lemma joined_skip:
  assumes "joined partOf n seen firstPart p" and "map_get partOf i = None"
  shows "joined partOf n (insert (i, g) seen) firstPart p"
  unfolding joined_def
proof (intro conjI allI impI ballI)
  show "length p = n" "rooted p" by (rule joinedD [OF assms(1)])+
  show "\<exists>i'. (i', g') \<in> insert (i, g) seen \<and> map_get partOf i' = Some k" if "map_get firstPart g' = Some k" for g' k
    using joinedD(3) [OF assms(1) that] by blast
  show "(x, y) \<in> (sharing partOf (insert (i, g) seen))\<^sup>*" if "x < n" "y < n" "sameRoot p x y" for x y
    by (rule sharing_rtrancl_mono [OF joinedD(5) [OF assms(1) that]]) blast
  show "case e of (i, g) \<Rightarrow> \<forall>k. map_get partOf i = Some k \<longrightarrow> (\<exists>f. map_get firstPart g = Some f \<and> sameRoot p k f)"
    if "e \<in> insert (i, g) seen" for e
    using that joinedD(4) [OF assms(1)] assms(2) by (cases e) auto
qed

lemma joined_first:
  assumes j: "joined partOf n seen firstPart p" and i: "map_get partOf i = Some k" "k < n" and none: "map_get firstPart g = None"
  shows "joined partOf n (insert (i, g) seen) (map_set g k firstPart) p"
  unfolding joined_def
proof (intro conjI allI impI ballI)
  show "length p = n" "rooted p" by (rule joinedD [OF j])+
  then have self: "sameRoot p k k" using i(2) sameRoot_refl by blast
  show "\<exists>i'. (i', g') \<in> insert (i, g) seen \<and> map_get partOf i' = Some k'" if "map_get (map_set g k firstPart) g' = Some k'" for g' k'
    using that joinedD(3) [OF j, of g' k'] i(1) by (auto simp: update_conv' split: if_splits)
  show "(x, y) \<in> (sharing partOf (insert (i, g) seen))\<^sup>*" if "x < n" "y < n" "sameRoot p x y" for x y
    by (rule sharing_rtrancl_mono [OF joinedD(5) [OF j that]]) blast
  show "case e of (i, g') \<Rightarrow> \<forall>k'. map_get partOf i = Some k' \<longrightarrow>
      (\<exists>f. map_get (map_set g k firstPart) g' = Some f \<and> sameRoot p k' f)"
    if e: "e \<in> insert (i, g) seen" for e
  proof (cases e)
    case (Pair i' g')
    show ?thesis
    proof (cases "e = (i, g)")
      case True
      then show ?thesis using i(1) self by (simp add: update_conv')
    next
      case False
      then have old: "(i', g') \<in> seen" using e Pair by auto
      have "g' \<noteq> g" if "map_get partOf i' = Some k'" for k' using joinedD(4) [OF j old that] none by auto
      then show ?thesis using joinedD(4) [OF j old] Pair by (auto simp: update_conv')
    qed
  qed
qed

lemma joined_link:
  assumes j: "joined partOf n seen firstPart p" and i: "map_get partOf i = Some k" "k < n"
    and first: "map_get firstPart g = Some f" "f < n"
  shows "\<exists>p'. linkParts p k f = Some p' \<and> joined partOf n (insert (i, g) seen) firstPart p'"
proof -
  have len: "length p = n" and rooted: "rooted p" by (rule joinedD [OF j])+
  obtain p' where p': "linkParts p k f = Some p'" "length p' = n" "rooted p'"
    "\<And>x y. x < n \<Longrightarrow> y < n \<Longrightarrow> sameRoot p' x y \<longleftrightarrow>
       sameRoot p x y \<or> sameRoot p x k \<and> sameRoot p f y \<or> sameRoot p x f \<and> sameRoot p k y"
    using linkParts_rooted [OF rooted, of k f] i(2) first(2) len by auto
  let ?seen = "insert (i, g) seen"
  have old: "(x, y) \<in> (sharing partOf ?seen)\<^sup>*" if "x < n" "y < n" "sameRoot p x y" for x y
    by (rule sharing_rtrancl_mono [OF joinedD(5) [OF j that]]) blast
  obtain i0 where i0: "(i0, g) \<in> seen" "map_get partOf i0 = Some f" using joinedD(3) [OF j first(1)] by blast
  then have share: "(k, f) \<in> sharing partOf ?seen" "(f, k) \<in> sharing partOf ?seen"
    using i(1) unfolding sharing_def by blast+
  have "joined partOf n ?seen firstPart p'"
    unfolding joined_def
  proof (intro conjI allI impI ballI)
    show "length p' = n" "rooted p'" by (rule p')+
    show "\<exists>i'. (i', g') \<in> ?seen \<and> map_get partOf i' = Some k'" if "map_get firstPart g' = Some k'" for g' k'
      using joinedD(3) [OF j that] by blast
    show "(x, y) \<in> (sharing partOf ?seen)\<^sup>*" if x: "x < n" and y: "y < n" and same: "sameRoot p' x y" for x y
    proof -
      consider "sameRoot p x y" | "sameRoot p x k" "sameRoot p f y" | "sameRoot p x f" "sameRoot p k y"
        using same p'(4) [OF x y] by blast
      then show ?thesis
      proof cases
        case 1
        then show ?thesis by (rule old [OF x y])
      next
        case 2
        have "(x, k) \<in> (sharing partOf ?seen)\<^sup>*" "(f, y) \<in> (sharing partOf ?seen)\<^sup>*"
          using old x y i(2) first(2) 2 by blast+
        then show ?thesis using share(1) by (meson rtrancl.rtrancl_into_rtrancl rtrancl_trans)
      next
        case 3
        have "(x, f) \<in> (sharing partOf ?seen)\<^sup>*" "(k, y) \<in> (sharing partOf ?seen)\<^sup>*"
          using old x y i(2) first(2) 3 by blast+
        then show ?thesis using share(2) by (meson rtrancl.rtrancl_into_rtrancl rtrancl_trans)
      qed
    qed
    show "case e of (i, g') \<Rightarrow> \<forall>k'. map_get partOf i = Some k' \<longrightarrow> (\<exists>f. map_get firstPart g' = Some f \<and> sameRoot p' k' f)"
      if e: "e \<in> ?seen" for e
    proof (cases e)
      case (Pair i' g')
      show ?thesis
      proof (cases "e = (i, g)")
        case True
        have "sameRoot p' k f" using p'(4) [OF i(2) first(2)] sameRoot_refl [OF rooted] i(2) first(2) len by blast
        then show ?thesis using True i(1) first(1) by simp
      next
        case False
        then have "(i', g') \<in> seen" using e Pair by auto
        have "\<exists>f'. map_get firstPart g' = Some f' \<and> sameRoot p' k' f'" if k': "map_get partOf i' = Some k'" for k'
        proof -
          obtain f' where f': "map_get firstPart g' = Some f'" "sameRoot p k' f'"
            using joinedD(4) [OF j \<open>(i', g') \<in> seen\<close> k'] by blast
          have "k' < n" "f' < n" using f'(2) len unfolding sameRoot_def by (metis rootOf.cases)+
          then show ?thesis using f' p'(4) by blast
        qed
        then show ?thesis using Pair by simp
      qed
    qed
  qed
  with p'(1) show ?thesis by blast
qed

lemma joinGroups_joined:
  assumes "joined partOf n seen firstPart p" and range: "\<And>i k. map_get partOf i = Some k \<Longrightarrow> k < n"
  shows "\<exists>p' firstPart'. joinGroups partOf entries firstPart p = Some p' \<and> joined partOf n (set entries \<union> seen) firstPart' p'"
  using assms(1)
proof (induction entries arbitrary: seen firstPart p)
  case (Cons e entries)
  obtain i g where e: "e = (i, g)" by fastforce
  show ?case
  proof (cases "map_get partOf i")
    case None
    have "joined partOf n (insert (i, g) seen) firstPart p" by (rule joined_skip [OF Cons.prems None])
    from Cons.IH [OF this] show ?thesis using None e by simp
  next
    case (Some k)
    show ?thesis
    proof (cases "map_get firstPart g")
      case None
      have "joined partOf n (insert (i, g) seen) (map_set g k firstPart) p"
        by (rule joined_first [OF Cons.prems Some range [OF Some] None])
      from Cons.IH [OF this] show ?thesis using None Some e by simp
    next
      case (Some f)
      have "f < n" using joinedD(3) [OF Cons.prems Some] range by blast
      then obtain p' where "linkParts p k f = Some p'" "joined partOf n (insert (i, g) seen) firstPart p'"
        using joined_link [OF Cons.prems \<open>map_get partOf i = Some k\<close> range [OF \<open>map_get partOf i = Some k\<close>] Some] by blast
      then show ?thesis using Cons.IH [of "insert (i, g) seen" firstPart p'] Some \<open>map_get partOf i = Some k\<close> e by simp
    qed
  qed
qed auto

lemma group_by_cong:
  "(\<And>x. x \<in> set xs \<Longrightarrow> f x = g x) \<Longrightarrow> group_by f xs m = group_by g xs m"
  by (induction xs arbitrary: m) simp_all

lemma collectClusters_group_by:
  assumes "rooted p" and "\<And>x. x \<in> set xs \<Longrightarrow> x < length p"
  shows "collectClusters xs p m = Some (group_by (\<lambda>x. the (findPart p x)) xs m)"
  using assms
proof (induction xs arbitrary: p m)
  case (Cons x xs)
  then obtain r where r: "find_part p x = Some (p[x := r], r)" "rootOf p x r" "rooted (p[x := r])"
    "\<And>j s. j < length p \<Longrightarrow> rootOf (p[x := r]) j s \<longleftrightarrow> rootOf p j s"
    using find_part_rooted [of p x] by auto
  have "findPart (p[x := r]) y = findPart p y" if y: "y \<in> set xs" for y
  proof -
    have "y < length p" using Cons.prems(2) y by simp
    then obtain s where "rootOf p y s" using Cons.prems(1) unfolding rooted_def by blast
    then show ?thesis using findPart_rootOf r(4) [OF \<open>y < length p\<close>] by metis
  qed
  then have "group_by (\<lambda>y. the (findPart (p[x := r]) y)) xs m' = group_by (\<lambda>y. the (findPart p y)) xs m'" for m'
    by (intro group_by_cong) simp
  then show ?case using Cons.IH [OF r(3)] Cons.prems(2) findPart_rootOf [OF r(2)] r(1) by simp
qed simp

lemma group_by_filter:
  "x \<in> set xs \<Longrightarrow> (key x, filter (\<lambda>y. key y = key x) xs) \<in> set (group_by key xs [])"
  by (rule map_of_SomeD) (auto simp: map_of_group_by filter_empty_conv split: list.split)

text \<open>The clusters: positions chained by shared stored groups, every position in one of them.\<close>

lemma driftClusters_spec:
  assumes range: "\<And>i k. map_get (partIndex parts) i = Some k \<Longrightarrow> k < length parts"
  shows "\<exists>rt. driftClusters parts groupOf = Some (group_by rt [0 ..< length parts] []) \<and>
    (\<forall>x < length parts. \<forall>y < length parts. rt x = rt y \<longleftrightarrow>
       (x, y) \<in> (sharing (partIndex parts) (set groupOf))\<^sup>*)"
proof -
  let ?n = "length parts" and ?S = "sharing (partIndex parts) (set groupOf)"
  have start: "rootOf [0 ..< ?n] x x" if "x < ?n" for x
    using that by (intro rootOf_root) simp_all
  have "joined (partIndex parts) ?n {} [] [0 ..< ?n]"
    unfolding joined_def
  proof (intro conjI allI impI)
    show "rooted [0 ..< ?n]" using start unfolding rooted_def by (metis length_upt minus_nat.diff_0)
    show "(x, y) \<in> (sharing (partIndex parts) {})\<^sup>*" if "x < ?n" "y < ?n" "sameRoot [0 ..< ?n] x y" for x y
    proof -
      have "x = y" using that(3) sameRoot_iff [OF start [OF that(1)] start [OF that(2)]] by blast
      then show ?thesis by simp
    qed
  qed simp_all
  from joinGroups_joined [OF this, of groupOf] range obtain p firstPart where
    p: "joinGroups (partIndex parts) groupOf [] [0 ..< ?n] = Some p" "joined (partIndex parts) ?n (set groupOf) firstPart p"
    by auto
  note j = joinedD [OF p(2)]
  define rt where "rt = (\<lambda>x. the (findPart p x))"
  have clusters: "driftClusters parts groupOf = Some (group_by rt [0 ..< ?n] [])"
    using collectClusters_group_by [OF j(2), of "[0 ..< ?n]" "[]"] j(1) p(1) by (simp add: driftClusters_def rt_def)
  have ex: "\<exists>r. rootOf p x r" if "x < ?n" for x using that j(1,2) unfolding rooted_def by simp
  have same: "rt x = rt y \<longleftrightarrow> sameRoot p x y" if xy: "x < ?n" "y < ?n" for x y
  proof -
    obtain r s where "rootOf p x r" "rootOf p y s" using ex xy by blast
    then show ?thesis using findPart_rootOf sameRoot_iff unfolding rt_def by (metis option.sel)
  qed
  have step: "rt x = rt y" if shared: "(x, y) \<in> ?S" for x y
  proof -
    obtain i k g where g: "(i, g) \<in> set groupOf" "(k, g) \<in> set groupOf"
      "map_get (partIndex parts) i = Some x" "map_get (partIndex parts) k = Some y"
      using shared unfolding sharing_def by blast
    have "x < ?n" "y < ?n" using range g(3,4) by blast+
    moreover obtain f where "map_get firstPart g = Some f" "sameRoot p x f" using j(4) [OF g(1,3)] by blast
    moreover from this obtain f' where "map_get firstPart g = Some f'" "sameRoot p y f'" using j(4) [OF g(2,4)] by blast
    ultimately show ?thesis using same unfolding sameRoot_def by (metis option.inject rootOf_unique)
  qed
  have "rt x = rt y" if "(x, y) \<in> ?S\<^sup>*" for x y using that by (induction rule: rtrancl_induct) (simp_all add: step)
  then have "rt x = rt y \<longleftrightarrow> (x, y) \<in> ?S\<^sup>*" if "x < ?n" "y < ?n" for x y
    using j(5) [OF that] same [OF that] by blast
  then show ?thesis using clusters by blast
qed

lemma map_of_foldl_const:
  "map_of (foldl (\<lambda>m i. map_set i k m) m members) i = (if i \<in> set members then Some k else map_of m i)"
  by (induction members arbitrary: m) (auto simp: update_conv')

lemma map_of_foldl_parts:
  assumes "distinct (concat parts)"
  shows "map_of (foldl (\<lambda>m (index, members). foldl (\<lambda>m i. map_set i index m) m members) m (enumerate n parts)) i = Some k \<longleftrightarrow>
    (\<exists>l < length parts. k = n + l \<and> i \<in> set (parts ! l)) \<or> i \<notin> set (concat parts) \<and> map_of m i = Some k"
  using assms
proof (induction parts arbitrary: m n)
  case (Cons part parts)
  have "i \<in> set (parts ! l) \<Longrightarrow> l < length parts \<Longrightarrow> i \<notin> set part" for l
    using Cons.prems nth_mem by fastforce
  then show ?case
    using Cons.IH [of _ "Suc n"] Cons.prems by (auto simp: map_of_foldl_const Ex_less_Suc2)
qed simp

lemma partIndex_spec:
  "distinct (concat parts) \<Longrightarrow> map_get (partIndex parts) i = Some k \<longleftrightarrow> k < length parts \<and> i \<in> set (parts ! k)"
  unfolding partIndex_def by (subst map_of_foldl_parts) auto

subsection \<open>A cluster with no finding\<close>

lemma keep_first_single:
  "length (keep_first (\<lambda>g. g) gs []) = 1 \<longleftrightarrow> (\<exists>g. set gs = {g})"
proof -
  have "distinct (keep_first (\<lambda>g. g) gs [])" "set (keep_first (\<lambda>g. g) gs []) = set gs"
    using distinct_keep_first [of "\<lambda>g. g" gs "[]"] ident_keep_first [of "\<lambda>g. g" gs "[]"] by simp_all
  then have "length (keep_first (\<lambda>g. g) gs []) = card (set gs)" by (metis distinct_card)
  then show ?thesis by (simp add: card_1_singleton_iff)
qed

lemma one_group:
  "length (keep_first (\<lambda>g. g) (List.map_filter f ids) []) = 1 \<and> length (filter (\<lambda>i. f i = None) ids) = 0 \<longleftrightarrow>
   ids \<noteq> [] \<and> (\<exists>g. \<forall>i \<in> set ids. f i = Some g)"
proof -
  have "(\<exists>g. set (List.map_filter f ids) = {g}) \<and> (\<forall>i \<in> set ids. f i \<noteq> None) \<longleftrightarrow>
      ids \<noteq> [] \<and> (\<exists>g. \<forall>i \<in> set ids. f i = Some g)" (is "?l \<longleftrightarrow> ?r")
  proof
    assume l: ?l
    then obtain g where g: "set (List.map_filter f ids) = {g}" by blast
    have "f i = Some g" if "i \<in> set ids" for i
      using that l g set_map_filter_eq [of _ f ids] by (metis not_None_eq singletonD)
    moreover have "ids \<noteq> []" using g by (cases ids) (auto simp: map_filter_simps)
    ultimately show ?r by blast
  next
    assume r: ?r
    then obtain g i where "\<forall>i \<in> set ids. f i = Some g" "i \<in> set ids" by (metis last_in_set)
    then have "set (List.map_filter f ids) = {g}" by (auto simp: set_map_filter_eq)
    then show ?l using r by auto
  qed
  then show ?thesis unfolding keep_first_single by (simp add: filter_empty_conv)
qed

lemma judgeCluster_clean:
  "da_failures (judgeCluster audit parts indices) = [] \<and> da_reports (judgeCluster audit parts indices) = [] \<longleftrightarrow>
   length indices = 1 \<and> concat (map ((!) parts) indices) \<noteq> [] \<and>
   (\<exists>g. \<forall>i \<in> set (concat (map ((!) parts) indices)). map_get (gg_groupOf (ga_graph audit)) i = Some g)"
proof -
  let ?ids = "sort (concat (map ((!) parts) indices))" and ?f = "map_get (gg_groupOf (ga_graph audit))"
  have "da_failures (judgeCluster audit parts indices) = [] \<and> da_reports (judgeCluster audit parts indices) = [] \<longleftrightarrow>
      length indices = 1 \<and> length (keep_first (\<lambda>g. g) (List.map_filter ?f ?ids) []) = 1 \<and>
      length (filter (\<lambda>i. ?f i = None) ?ids) = 0"
    unfolding judgeCluster_def Let_def by simp
  also have "\<dots> \<longleftrightarrow> length indices = 1 \<and> ?ids \<noteq> [] \<and> (\<exists>g. \<forall>i \<in> set ?ids. ?f i = Some g)"
    by (simp only: one_group)
  moreover have "?ids \<noteq> [] \<longleftrightarrow> concat (map ((!) parts) indices) \<noteq> []"
    by (metis set_empty set_sort)
  ultimately show ?thesis by (simp only: set_sort)
qed

subsection \<open>Drift\<close>

definition graphIds :: "groupGraph \<Rightarrow> string set" where
  \<comment> \<open>the characters and the ends of the links\<close>
  "graphIds graph = fst ` set (gg_characters graph) \<union> sl_a ` set (gg_links graph) \<union> sl_b ` set (gg_links graph)"

definition groupsExact :: "groupGraph \<Rightarrow> bool" where
  \<comment> \<open>the stored groups are the components: everything is grouped, and two share a group when connected\<close>
  "groupsExact graph \<longleftrightarrow>
     (\<forall>i \<in> graphIds graph. map_get (gg_groupOf graph) i \<noteq> None) \<and>
     (\<forall>i \<in> graphIds graph. \<forall>j \<in> graphIds graph. map_get (gg_groupOf graph) i = map_get (gg_groupOf graph) j \<longleftrightarrow>
        connected (map (\<lambda>l. \<lparr>link_a = sl_a l, link_b = sl_b l\<rparr>) (gg_links graph)) i j)"

lemma connected_equiv:
  "connected links x x" "connected links x y \<Longrightarrow> connected links y x"
  "connected links x y \<Longrightarrow> connected links y z \<Longrightarrow> connected links x z"
proof -
  have "sym (linkPairs links)" unfolding sym_def linkPairs_def by blast
  then show "connected links x y \<Longrightarrow> connected links y x"
    unfolding connected_def by (metis sym_def sym_rtrancl)
qed (auto simp: connected_def)

text \<open>The parts as the drift check sees them: a class of connected ids at each position.\<close>

lemma graphComponents_classes:
  "\<exists>parts. graphComponents graph = Some parts \<and> distinct (concat parts) \<and> set (concat parts) = graphIds graph \<and>
     (\<forall>k < length parts. parts ! k \<noteq> []) \<and>
     (\<forall>k < length parts. \<forall>l < length parts. \<forall>i \<in> set (parts ! k). \<forall>j \<in> set (parts ! l).
        k = l \<longleftrightarrow> connected (map (\<lambda>l. \<lparr>link_a = sl_a l, link_b = sl_b l\<rparr>) (gg_links graph)) i j)"
proof -
  let ?links = "map (\<lambda>l. \<lparr>link_a = sl_a l, link_b = sl_b l\<rparr>) (gg_links graph)"
  obtain parts where parts: "graphComponents graph = Some parts"
      "is_partition parts (set (map fst (gg_characters graph)) \<union> endpoints ?links)"
      "list_all (\<lambda>part. part \<noteq> [] \<and> sorted part \<and>
         set part = {y \<in> set (map fst (gg_characters graph)) \<union> endpoints ?links. connected ?links (hd part) y}) parts"
    using components_spec [of "map fst (gg_characters graph)" ?links] unfolding graphComponents_def by blast
  have ids: "set (map fst (gg_characters graph)) \<union> endpoints ?links = graphIds graph"
    by (simp add: graphIds_def endpoints_def image_image Un_assoc)
  have d: "distinct (concat parts)" and all: "set (concat parts) = graphIds graph"
    using parts(2) unfolding is_partition_def ids by blast+
  have each: "parts ! k \<noteq> []" "set (parts ! k) = {y \<in> graphIds graph. connected ?links (hd (parts ! k)) y}"
    if "k < length parts" for k
    using parts(3) that unfolding ids list_all_length by blast+
  have "k = l \<longleftrightarrow> connected ?links i j"
    if k: "k < length parts" and l: "l < length parts" and i: "i \<in> set (parts ! k)" and j: "j \<in> set (parts ! l)" for k l i j
  proof
    assume "k = l"
    then have "connected ?links (hd (parts ! k)) i" "connected ?links (hd (parts ! k)) j"
      using i j each(2) [OF k] by auto
    then show "connected ?links i j" using connected_equiv(3) [OF connected_equiv(2)] by blast
  next
    assume "connected ?links i j"
    moreover have "connected ?links (hd (parts ! k)) i" "j \<in> graphIds graph" using i j each(2) [OF k] each(2) [OF l] by auto
    ultimately have "j \<in> set (parts ! k)" unfolding each(2) [OF k] using connected_equiv(3) by blast
    then show "k = l" using partIndex_spec [OF d, of j] k l j by (metis option.inject)
  qed
  then show ?thesis using parts(1) d all each(1) by blast
qed

abbreviation graphLinks :: "groupGraph \<Rightarrow> link list" where
  "graphLinks graph \<equiv> map (\<lambda>l. \<lparr>link_a = sl_a l, link_b = sl_b l\<rparr>) (gg_links graph)"

text \<open>Some positions, their parts classes of connected ids: what the clusters say of the groups.\<close>

lemma clusters_exact:
  fixes groupOf :: "(string, string) jsmap"
  assumes keys: "distinct (map fst groupOf)" and d: "distinct (concat parts)" and all: "set (concat parts) = ids"
    and nonempty: "\<And>k. k < length parts \<Longrightarrow> parts ! k \<noteq> []"
    and classes: "\<And>k l i j. k < length parts \<Longrightarrow> l < length parts \<Longrightarrow> i \<in> set (parts ! k) \<Longrightarrow> j \<in> set (parts ! l) \<Longrightarrow>
        k = l \<longleftrightarrow> con i j"
    and rt: "\<And>x y. x < length parts \<Longrightarrow> y < length parts \<Longrightarrow>
        rt x = rt y \<longleftrightarrow> (x, y) \<in> (sharing (partIndex parts) (set groupOf))\<^sup>*"
  shows "(\<forall>(r, indices) \<in> set (group_by rt [0 ..< length parts] []). length indices = 1 \<and>
      concat (map ((!) parts) indices) \<noteq> [] \<and> (\<exists>g. \<forall>i \<in> set (concat (map ((!) parts) indices)). map_get groupOf i = Some g)) \<longleftrightarrow>
    (\<forall>i \<in> ids. map_get groupOf i \<noteq> None) \<and> (\<forall>i \<in> ids. \<forall>j \<in> ids. map_get groupOf i = map_get groupOf j \<longleftrightarrow> con i j)"
    (is "?clean \<longleftrightarrow> ?exact")
proof
  assume clean: ?clean
  have one: "y = x" "\<exists>g. \<forall>i \<in> set (parts ! x). map_get groupOf i = Some g"
    if x: "x < length parts" and y: "y < length parts" "rt y = rt x" for x y
  proof -
    let ?ix = "filter (\<lambda>y. rt y = rt x) [0 ..< length parts]"
    have cluster: "(rt x, ?ix) \<in> set (group_by rt [0 ..< length parts] [])"
      using group_by_filter [of x "[0 ..< length parts]" rt] x by simp
    then have "length ?ix = 1" using clean by blast
    then obtain z where z: "?ix = [z]" by (metis One_nat_def length_0_conv length_Suc_conv)
    have "x \<in> set ?ix" "y \<in> set ?ix" using x y by simp_all
    then show "y = x" unfolding z by simp
    have "?ix = [x]" using z \<open>x \<in> set ?ix\<close> by simp
    then show "\<exists>g. \<forall>i \<in> set (parts ! x). map_get groupOf i = Some g" using cluster clean by fastforce
  qed
  have place: "\<exists>k < length parts. i \<in> set (parts ! k)" if "i \<in> ids" for i
    using that unfolding all [symmetric] by (auto simp: in_set_conv_nth [of _ parts])
  have grouped: "\<exists>g. map_get groupOf i = Some g" if "i \<in> ids" for i using place [OF that] one(2) by blast
  have "map_get groupOf i = map_get groupOf j \<longleftrightarrow> con i j" if i: "i \<in> ids" and j: "j \<in> ids" for i j
  proof -
    obtain k l where k: "k < length parts" "i \<in> set (parts ! k)" and l: "l < length parts" "j \<in> set (parts ! l)"
      using place i j by blast
    have "map_get groupOf i = map_get groupOf j \<longleftrightarrow> k = l"
    proof
      assume same: "map_get groupOf i = map_get groupOf j"
      obtain g where g: "map_get groupOf i = Some g" using grouped i by blast
      then have "(i, g) \<in> set groupOf" "(j, g) \<in> set groupOf" using same map_of_SomeD by fastforce+
      then have "(k, l) \<in> sharing (partIndex parts) (set groupOf)"
        using k l partIndex_spec [OF d] unfolding sharing_def by blast
      then show "k = l" using rt [OF k(1) l(1)] one(1) [OF l(1) k(1)] by blast
    next
      assume "k = l"
      then show "map_get groupOf i = map_get groupOf j" using one(2) [OF k(1) k(1)] k(2) l(2) by auto
    qed
    then show ?thesis using classes k l by blast
  qed
  then show ?exact using grouped by blast
next
  assume exact: ?exact
  have step: "x = y" if shared: "(x, y) \<in> sharing (partIndex parts) (set groupOf)" for x y
  proof -
    obtain i j g where g: "(i, g) \<in> set groupOf" "(j, g) \<in> set groupOf"
      "map_get (partIndex parts) i = Some x" "map_get (partIndex parts) j = Some y"
      using shared unfolding sharing_def by blast
    then have at: "x < length parts" "y < length parts" "i \<in> set (parts ! x)" "j \<in> set (parts ! y)"
      using partIndex_spec [OF d] by blast+
    then have "i \<in> ids" "j \<in> ids" unfolding all [symmetric] by auto
    moreover have "map_get groupOf i = map_get groupOf j" using g(1,2) keys by simp
    ultimately show ?thesis using exact classes [OF at] by blast
  qed
  have "x = y" if "(x, y) \<in> (sharing (partIndex parts) (set groupOf))\<^sup>*" for x y
    using that by (induction rule: rtrancl_induct) (auto dest: step)
  then have apart: "x = y" if "x < length parts" "y < length parts" "rt x = rt y" for x y
    using rt [OF that(1,2)] that(3) by blast
  show ?clean
  proof (clarify)
    fix r indices assume c: "(r, indices) \<in> set (group_by rt [0 ..< length parts] [])"
    note ix = group_by_bucket [OF c]
    obtain x xs where x: "indices = x # xs" using ix(2) by (cases indices) auto
    have "distinct indices" unfolding ix(1) by simp
    moreover have member: "y < length parts \<and> rt y = r" if "y \<in> set indices" for y using that unfolding ix(1) by simp
    have "y = x" if "y \<in> set indices" for y using apart member that x by (metis list.set_intros(1))
    ultimately have "indices = [x]" unfolding x by (cases xs) auto
    have x': "x < length parts" using member x by simp
    then obtain i where i: "i \<in> set (parts ! x)" using nonempty by (metis last_in_set)
    have mem: "j \<in> ids" if "j \<in> set (parts ! x)" for j using that x' unfolding all [symmetric] by auto
    then obtain g where "map_get groupOf i = Some g" using exact i by blast
    then have "\<forall>j \<in> set (parts ! x). map_get groupOf j = Some g" using exact classes [OF x' x' i] i mem by metis
    then show "length indices = 1 \<and> concat (map ((!) parts) indices) \<noteq> [] \<and>
        (\<exists>g. \<forall>i \<in> set (concat (map ((!) parts) indices)). map_get groupOf i = Some g)"
      using \<open>indices = [x]\<close> nonempty [OF x'] by auto
  qed
qed

lemma concat_findings:
  "concat (map f xs) = [] \<and> concat (map g xs) = [] \<longleftrightarrow> (\<forall>x \<in> set xs. f x = [] \<and> g x = [])"
  by auto

text \<open>
  C14. The drift check is exact: it always returns, and it has neither a failure nor a report
  exactly when the stored groups are the components of the links, which means every character and
  every end of a link is in a group, and two of them are in the same group when they are connected.
\<close>

theorem audit_drift_exact:
  assumes "distinct (map fst (gg_groupOf (ga_graph audit)))"
  shows "\<exists>d. auditDrift audit = Some d \<and> (da_failures d = [] \<and> da_reports d = [] \<longleftrightarrow> groupsExact (ga_graph audit))"
proof -
  let ?graph = "ga_graph audit"
  obtain parts where parts: "graphComponents ?graph = Some parts" "distinct (concat parts)" "set (concat parts) = graphIds ?graph"
    "\<forall>k < length parts. parts ! k \<noteq> []"
    "\<forall>k < length parts. \<forall>l < length parts. \<forall>i \<in> set (parts ! k). \<forall>j \<in> set (parts ! l).
        k = l \<longleftrightarrow> connected (graphLinks ?graph) i j"
    using graphComponents_classes [of ?graph] by blast
  obtain rt where rt: "driftClusters parts (gg_groupOf ?graph) = Some (group_by rt [0 ..< length parts] [])"
    "\<forall>x < length parts. \<forall>y < length parts.
        rt x = rt y \<longleftrightarrow> (x, y) \<in> (sharing (partIndex parts) (set (gg_groupOf ?graph)))\<^sup>*"
    using driftClusters_spec [of parts "gg_groupOf ?graph"] partIndex_spec [OF parts(2)] by blast
  let ?judge = "\<lambda>(rt :: nat, indices). judgeCluster audit parts indices"
  let ?clusters = "group_by rt [0 ..< length parts] []"
  have "auditDrift audit = Some \<lparr>da_failures = concat (map (\<lambda>c. da_failures (?judge c)) ?clusters),
      da_reports = concat (map (\<lambda>c. da_reports (?judge c)) ?clusters)\<rparr>"
    by (simp add: auditDrift_def parts(1) rt(1) Let_def comp_def)
  moreover have "concat (map (\<lambda>c. da_failures (?judge c)) ?clusters) = [] \<and> concat (map (\<lambda>c. da_reports (?judge c)) ?clusters) = [] \<longleftrightarrow>
      groupsExact ?graph"
    unfolding concat_findings split_beta judgeCluster_clean groupsExact_def
    by (rule clusters_exact [OF assms parts(2,3) parts(4,5) [rule_format] rt(2) [rule_format], unfolded split_beta])
  ultimately show ?thesis by simp
qed

definition exampleAudit :: groupsAudit where
  \<comment> \<open>two linked characters in one group, an observation behind the link, its run in the ledger\<close>
  "exampleAudit =
     \<lparr>ga_now = 3600000, ga_graph = exampleGraph,
      ga_groups = [(''g'', \<lparr>sg_recomputedAt = 2000, sg_members = [''a'', ''b'']\<rparr>)],
      ga_maintenance = \<lparr>gm_lastCycleStartedAt = Some 1000, gm_lastCycleCompletedAt = Some 2000\<rparr>,
      ga_observations = [\<lparr>ob_lowId = ''a'', ob_highId = ''b'', ob_source = ''fingerprint'', ob_observerId = ''a'',
         ob_runId = ''r'', ob_observedAt = 900\<rparr>],
      ga_ledger = [\<lparr>lr_runId = ''r'', lr_sweepReservationId = Some ''s'', lr_observerId = ''a'', lr_family = ''fingerprint'',
         lr_decision = ''replaced'', lr_reason = ''live_sweep_completion'', lr_runStartedAt = 800, lr_writtenAt = 950\<rparr>],
      ga_publications = [\<lparr>pb_kind = Reservation_publication ''s'' None, pb_runId = ''r'', pb_observerId = ''a'', pb_at = 940\<rparr>],
      ga_latestRawMembership = [(''a'', [''a'', ''b''])], ga_observedEver = [], ga_latestSnapshotIds = [''snapshot''],
      ga_manualChanges = [], ga_manualCreatedAt = [], ga_roots = [ryii], ga_ungroupedSince = []\<rparr>"

lemma exampleAudit_keys: "distinct (map fst (gg_groupOf (ga_graph exampleAudit)))"
  by (simp add: exampleAudit_def exampleGraph_def)

theorem audit_drift_exact_witness:
  "auditDrift exampleAudit = Some \<lparr>da_failures = [], da_reports = []\<rparr> \<and> groupsExact (ga_graph exampleAudit)"
proof -
  have "auditDrift exampleAudit = Some \<lparr>da_failures = [], da_reports = []\<rparr>" by code_simp
  then show ?thesis using audit_drift_exact [OF exampleAudit_keys] by simp
qed

subsection \<open>The ledger\<close>

definition ledgerIdsNulFree :: "groupsAudit \<Rightarrow> bool" where
  \<comment> \<open>a NUL separates the parts of a key, and no part that another follows has one\<close>
  "ledgerIdsNulFree audit \<longleftrightarrow>
     list_all (\<lambda>row. CHR 0x00 \<notin> set (lr_runId row) \<and> CHR 0x00 \<notin> set (lr_observerId row)) (ga_ledger audit) \<and>
     list_all (\<lambda>row. CHR 0x00 \<notin> set (ob_runId row) \<and> CHR 0x00 \<notin> set (ob_observerId row)) (ga_observations audit) \<and>
     list_all (\<lambda>(rootId, members). CHR 0x00 \<notin> set rootId) (ga_latestRawMembership audit)"

definition settled :: "groupsAudit \<Rightarrow> groupsPublication \<Rightarrow> bool" where
  "settled audit p \<longleftrightarrow> windowStart audit < pb_at p \<and> pb_at p \<le> ga_now audit - PENDING_MS"

definition logged :: "groupsAudit \<Rightarrow> groupsPublication \<Rightarrow> bool" where
  "logged audit p \<longleftrightarrow>
     (\<exists>row \<in> set (ga_ledger audit).
        case pb_kind p of
          Run_publication \<Rightarrow> lr_family row = ''raiderio'' \<and> lr_runId row = pb_runId p
        | Reservation_publication reservationId _ \<Rightarrow>
            lr_family row = ''fingerprint'' \<and> lr_sweepReservationId row = Some reservationId)"

definition membershipObserved :: "groupsAudit \<Rightarrow> string \<Rightarrow> string \<Rightarrow> bool" where
  "membershipObserved audit rootId memberId \<longleftrightarrow>
     (\<exists>row \<in> set (ga_observations audit). ob_observerId row = rootId \<and> memberId \<in> {ob_lowId row, ob_highId row})"

definition fromRun :: "groupsAudit \<Rightarrow> groupsObservation \<Rightarrow> bool" where
  "fromRun audit ob \<longleftrightarrow>
     (\<exists>row \<in> set (ga_ledger audit). lr_runId row = ob_runId ob \<and> lr_observerId row = ob_observerId ob \<and>
        lr_family row = familyOfSource (ob_source ob))"

definition leftAfter :: "groupsAudit \<Rightarrow> ledgerRow \<Rightarrow> ledgerRow list \<Rightarrow> bool" where
  \<comment> \<open>what is left from before a replacement comes from its run or a later one that was not blocked\<close>
  "leftAfter audit replaced after \<longleftrightarrow>
     (\<forall>ob \<in> set (ga_observations audit).
        ob_observerId ob = lr_observerId replaced \<and> familyOfSource (ob_source ob) = lr_family replaced \<and>
          ob_observedAt ob < lr_runStartedAt replaced \<longrightarrow>
        (\<exists>row \<in> set (replaced # after). lr_decision row \<noteq> ''blocked'' \<and> lr_runId row = ob_runId ob))"

definition retractedIn :: "groupsAudit \<Rightarrow> ledgerRow list \<Rightarrow> bool" where
  \<comment> \<open>of the rows of an observer and a family: the last replacement was applied\<close>
  "retractedIn audit rows \<longleftrightarrow>
     (\<forall>before replaced after.
        sort_by compareLedgerRows rows = before @ replaced # after \<and> lr_decision replaced = ''replaced'' \<and>
          (\<forall>row \<in> set after. lr_decision row \<noteq> ''replaced'') \<longrightarrow>
        leftAfter audit replaced after)"

definition retracted :: "groupsAudit \<Rightarrow> string \<Rightarrow> string \<Rightarrow> bool" where
  "retracted audit observer family \<longleftrightarrow>
     retractedIn audit (filter (\<lambda>row. lr_observerId row = observer \<and> lr_family row = family) (ga_ledger audit))"

definition ledgerAccounts :: "groupsAudit \<Rightarrow> bool" where
  "ledgerAccounts audit \<longleftrightarrow>
     (\<forall>p \<in> set (ga_publications audit). settled audit p \<longrightarrow> logged audit p) \<and>
     (\<forall>(rootId, members) \<in> set (ga_latestRawMembership audit).
        rootId \<notin> set (youngObservers audit) \<longrightarrow>
        (\<forall>memberId \<in> set members. memberId = rootId \<or> membershipObserved audit rootId memberId)) \<and>
     (\<forall>ob \<in> set (ga_observations audit). fromRun audit ob) \<and>
     (\<forall>observer family. retracted audit observer family)"

lemma compound_eq_iff:
  "CHR 0x00 \<notin> set a \<Longrightarrow> CHR 0x00 \<notin> set b \<Longrightarrow> compound a x = compound b y \<longleftrightarrow> a = b \<and> x = y"
  unfolding compound_def
proof (induction a arbitrary: b)
  case (Cons c a)
  then show ?case by (cases b) auto
qed (metis append_Nil in_set_conv_decomp list.inject append_eq_Cons_conv)

lemma completeness_exact:
  "completenessFailures audit = [] \<longleftrightarrow> (\<forall>p \<in> set (ga_publications audit). settled audit p \<longrightarrow> logged audit p)"
proof -
  have "publicationOwed audit p \<longleftrightarrow> logged audit p" for p
    unfolding publicationOwed_def logged_def by (force simp: set_map_filter_eq split: publicationKind.split)
  then show ?thesis
    by (auto simp: completenessFailures_def settledPublications_def settled_def filter_empty_conv not_le)
qed

lemma presence_exact:
  assumes "ledgerIdsNulFree audit"
  shows "presenceFailures audit = [] \<longleftrightarrow>
    (\<forall>(rootId, members) \<in> set (ga_latestRawMembership audit). rootId \<notin> set (youngObservers audit) \<longrightarrow>
       (\<forall>memberId \<in> set members. memberId = rootId \<or> membershipObserved audit rootId memberId))"
proof -
  have "compound rootId memberId \<in> set (observedBy audit) \<longleftrightarrow> membershipObserved audit rootId memberId"
    if "(rootId, members) \<in> set (ga_latestRawMembership audit)" for rootId members memberId
  proof -
    have "CHR 0x00 \<notin> set rootId" using assms that by (auto simp: ledgerIdsNulFree_def list_all_iff)
    moreover have "CHR 0x00 \<notin> set (ob_observerId row)" if "row \<in> set (ga_observations audit)" for row
      using assms that by (auto simp: ledgerIdsNulFree_def list_all_iff)
    ultimately show ?thesis unfolding observedBy_def membershipObserved_def by (force simp: compound_eq_iff)
  qed
  then show ?thesis by (fastforce simp: presenceFailures_def filter_empty_conv split: if_splits)
qed

lemma provenance_exact:
  assumes "ledgerIdsNulFree audit"
  shows "provenanceFailures audit = [] \<longleftrightarrow> (\<forall>ob \<in> set (ga_observations audit). fromRun audit ob)"
proof -
  have "compound (ob_runId ob) (compound (ob_observerId ob) f) \<in> set (loggedKeys audit) \<longleftrightarrow>
      (\<exists>row \<in> set (ga_ledger audit). lr_runId row = ob_runId ob \<and> lr_observerId row = ob_observerId ob \<and> lr_family row = f)"
    if "ob \<in> set (ga_observations audit)" for ob f
  proof -
    have "CHR 0x00 \<notin> set (ob_runId ob)" "CHR 0x00 \<notin> set (ob_observerId ob)"
      using assms that by (auto simp: ledgerIdsNulFree_def list_all_iff)
    moreover have "CHR 0x00 \<notin> set (lr_runId row)" "CHR 0x00 \<notin> set (lr_observerId row)" if "row \<in> set (ga_ledger audit)" for row
      using assms that by (auto simp: ledgerIdsNulFree_def list_all_iff)
    ultimately show ?thesis unfolding loggedKeys_def by (auto simp: compound_eq_iff image_iff) metis+
  qed
  then show ?thesis unfolding provenanceFailures_def fromRun_def map_is_Nil_conv filter_empty_conv not_not by blast
qed

lemma last_index_spec:
  "last_index P xs = None \<longleftrightarrow> (\<forall>x \<in> set xs. \<not> P x)"
  "xs = before @ x # after \<Longrightarrow> P x \<Longrightarrow> \<forall>y \<in> set after. \<not> P y \<Longrightarrow> last_index P xs = Some (length before)"
proof -
  have "length (takeWhile (\<lambda>x. \<not> P x) ys) < length ys \<longleftrightarrow> (\<exists>x \<in> set ys. P x)" for ys by (induction ys) auto
  from this [of "rev xs"] show "last_index P xs = None \<longleftrightarrow> (\<forall>x \<in> set xs. \<not> P x)" by (auto simp: last_index_def Let_def)
  show "last_index P xs = Some (length before)" if "xs = before @ x # after" "P x" "\<forall>y \<in> set after. \<not> P y"
  proof -
    have "takeWhile (\<lambda>x. \<not> P x) (rev xs) = rev after @ takeWhile (\<lambda>x. \<not> P x) (x # rev before)"
      unfolding that(1) rev_append rev.simps append_assoc append.simps using that(3) by (subst takeWhile_append2) simp_all
    then show ?thesis using that(1,2) by (simp add: last_index_def)
  qed
qed

lemma retraction_exact: "retractionFailures audit rows = [] \<longleftrightarrow> retractedIn audit rows"
proof (cases "\<exists>row \<in> set rows. lr_decision row = ''replaced''")
  case False
  then have "last_index (\<lambda>row. lr_decision row = ''replaced'') (sort_by compareLedgerRows rows) = None"
    by (simp add: last_index_spec(1))
  moreover have "r \<in> set rows" if "sort_by compareLedgerRows rows = b @ r # a" for b r a
    using that set_sort_by by (metis in_set_conv_decomp)
  ultimately show ?thesis using False unfolding retractedIn_def by (auto simp: retractionFailures_def)
next
  case True
  let ?split = "\<lambda>before replaced after. sort_by compareLedgerRows rows = before @ replaced # after \<and>
    lr_decision replaced = ''replaced'' \<and> (\<forall>row \<in> set after. lr_decision row \<noteq> ''replaced'')"
  obtain before replaced after where split: "?split before replaced after"
    using True split_list_last_prop [of "sort_by compareLedgerRows rows" "\<lambda>row. lr_decision row = ''replaced''"] by auto
  have last: "last_index (\<lambda>row. lr_decision row = ''replaced'') (sort_by compareLedgerRows rows) = Some (length b)"
    if "?split b r a" for b r a
    using that by (intro last_index_spec(2)) auto
  have only: "r = replaced \<and> a = after" if "?split b r a" for b r a
  proof -
    have "length b = length before" using last [OF that] last [OF split] by simp
    then show ?thesis using that split by simp
  qed
  have image: "x \<in> f ` S \<longleftrightarrow> (\<exists>y \<in> S. f y = x)" for f :: "ledgerRow \<Rightarrow> string" and x S by blast
  have "retractionFailures audit rows = [] \<longleftrightarrow> leftAfter audit replaced after"
    using split last [OF split] unfolding leftAfter_def by (auto simp: retractionFailures_def filter_empty_conv image)
  then show ?thesis using split only unfolding retractedIn_def by blast
qed

lemma retractions_exact:
  assumes "ledgerIdsNulFree audit"
  shows "concat (map (\<lambda>(key, rows). retractionFailures audit rows)
      (group_by (\<lambda>row. compound (lr_observerId row) (lr_family row)) (ga_ledger audit) [])) = [] \<longleftrightarrow>
    (\<forall>observer family. retracted audit observer family)"
proof -
  let ?key = "\<lambda>row. compound (lr_observerId row) (lr_family row)"
  let ?groups = "group_by ?key (ga_ledger audit) []"
  let ?rows = "\<lambda>observer family. filter (\<lambda>row. lr_observerId row = observer \<and> lr_family row = family) (ga_ledger audit)"
  have same: "retracted audit observer family \<longleftrightarrow> retractionFailures audit (?rows observer family) = []" for observer family
    unfolding retracted_def retraction_exact ..
  have bucket: "filter (\<lambda>r. ?key r = ?key row) (ga_ledger audit) = ?rows (lr_observerId row) (lr_family row)"
    if "row \<in> set (ga_ledger audit)" for row
  proof (rule filter_cong [OF refl])
    fix r assume "r \<in> set (ga_ledger audit)"
    with that assms have "CHR 0x00 \<notin> set (lr_observerId r)" "CHR 0x00 \<notin> set (lr_observerId row)"
      by (auto simp: ledgerIdsNulFree_def list_all_iff)
    then show "?key r = ?key row \<longleftrightarrow> lr_observerId r = lr_observerId row \<and> lr_family r = lr_family row"
      by (simp add: compound_eq_iff)
  qed
  show ?thesis
  proof
    assume clean: "concat (map (\<lambda>(key, rows). retractionFailures audit rows) ?groups) = []"
    show "\<forall>observer family. retracted audit observer family"
    proof (intro allI)
      fix observer family
      show "retracted audit observer family"
      proof (cases "?rows observer family")
        case Nil
        then show ?thesis unfolding retracted_def retractedIn_def by simp
      next
        case (Cons row rows)
        have "row \<in> set (?rows observer family)" unfolding Cons by simp
        then have row: "row \<in> set (ga_ledger audit)" "lr_observerId row = observer" "lr_family row = family" by simp_all
        have "(?key row, ?rows observer family) \<in> set ?groups"
          using group_by_filter [OF row(1), of ?key] bucket [OF row(1)] row(2,3) by simp
        then show ?thesis using clean unfolding same by auto
      qed
    qed
  next
    assume all: "\<forall>observer family. retracted audit observer family"
    have "retractionFailures audit rows = []" if group: "(key, rows) \<in> set ?groups" for key rows
    proof -
      note rows = group_by_bucket [OF group]
      then obtain row where row: "row \<in> set (ga_ledger audit)" "?key row = key" by (auto simp: filter_empty_conv)
      have "rows = ?rows (lr_observerId row) (lr_family row)" using rows(1) bucket [OF row(1)] unfolding row(2) by simp
      then show ?thesis using all same by simp
    qed
    then show "concat (map (\<lambda>(key, rows). retractionFailures audit rows) ?groups) = []" by auto
  qed
qed

text \<open>
  The ledger check is exact, when no id holds the NUL its compound keys are built with: it has
  no failure exactly when every settled publication has its ledger row, every member of a current
  raw membership was observed from its root, unless the root published within the last ten minutes,
  every observation comes from a run the ledger records for its observer and family, and after the
  last replacement of an observer and family no older observation is left of another run.
\<close>

theorem ledger_audit_exact:
  assumes "ledgerIdsNulFree audit"
  shows "la_failures (auditLedger audit) = [] \<longleftrightarrow> ledgerAccounts audit"
  unfolding auditLedger_def ledgerAccounts_def Let_def ledgerAudit.simps append_is_Nil_conv completeness_exact
    presence_exact [OF assms] provenance_exact [OF assms] retractions_exact [OF assms] by blast

theorem ledger_audit_exact_witness: "ledgerAccounts exampleAudit"
proof -
  have "ledgerIdsNulFree exampleAudit" "la_failures (auditLedger exampleAudit) = []" by code_simp+
  then show ?thesis using ledger_audit_exact by simp
qed

end
