(* ===== verification/GroupPagesCorrect.thy ===== *)
theory GroupPagesCorrect
  imports GroupReplayCorrect
begin

section \<open>What a clean comparison of pages shows\<close>

text \<open>
  Comparing today's dossier pages with the pages of the groups: when the comparison reports no
  failure, a compared page has lost no character, no label has become weaker, an excluded row is
  still excluded, and every row the new page hides is hidden by a member's exclusion.
\<close>

subsection \<open>Rows by key\<close>

lemma map_of_foldl_row:
  "map_of (foldl (\<lambda>m c. map_set c row m) m cs) c = (if c \<in> set cs then Some row else map_of m c)"
  by (induction cs arbitrary: m) (auto simp: update_conv')

lemma rowsByKey_snoc:
  "map_get (rowsByKey E (rows @ [row])) c = (if c \<in> set (rowIds E row) then Some row else map_get (rowsByKey E rows) c)"
  by (simp add: rowsByKey_def map_of_foldl_row)

text \<open>The row a key stands for is the last one that shows it.\<close>

definition shownBy :: "js_env \<Rightarrow> pageRow list \<Rightarrow> string \<Rightarrow> pageRow \<Rightarrow> bool" where
  "shownBy E rows c row \<longleftrightarrow>
     (\<exists>before after. rows = before @ row # after \<and> c \<in> set (rowIds E row) \<and> (\<forall>r \<in> set after. c \<notin> set (rowIds E r)))"

lemma rowsByKey_last: "map_get (rowsByKey E rows) c = Some row \<longleftrightarrow> shownBy E rows c row"
proof (induction rows rule: rev_induct)
  case Nil
  then show ?case by (simp add: rowsByKey_def shownBy_def)
next
  case (snoc r rows)
  show ?case
  proof (cases "c \<in> set (rowIds E r)")
    case True
    have "row = r" if split: "rows @ [r] = before @ row # after" and after: "\<forall>r \<in> set after. c \<notin> set (rowIds E r)" for before after
    proof (cases after rule: rev_cases)
      case (snoc after' r')
      then have "r' = r" using split by simp
      then show ?thesis using True after snoc by simp
    qed (use split in simp)
    moreover have "shownBy E (rows @ [r]) c r" using True unfolding shownBy_def by fastforce
    ultimately show ?thesis using True unfolding rowsByKey_snoc shownBy_def by auto
  next
    case False
    have "shownBy E (rows @ [r]) c row \<longleftrightarrow> shownBy E rows c row"
    proof
      assume "shownBy E (rows @ [r]) c row"
      then obtain before after where split: "rows @ [r] = before @ row # after" "c \<in> set (rowIds E row)"
        "\<forall>r \<in> set after. c \<notin> set (rowIds E r)" unfolding shownBy_def by blast
      then show "shownBy E rows c row" using False by (cases after rule: rev_cases) (auto simp: shownBy_def)
    next
      assume "shownBy E rows c row"
      then obtain before after where "rows = before @ row # after" "c \<in> set (rowIds E row)"
        "\<forall>r \<in> set after. c \<notin> set (rowIds E r)" unfolding shownBy_def by blast
      then show "shownBy E (rows @ [r]) c row" using False unfolding shownBy_def
        by (intro exI [of _ before] exI [of _ "after @ [r]"]) simp
    qed
    then show ?thesis using False snoc.IH unfolding rowsByKey_snoc by simp
  qed
qed

lemma rowsByKey_None: "map_get (rowsByKey E rows) c = None \<longleftrightarrow> (\<forall>row \<in> set rows. c \<notin> set (rowIds E row))"
  by (induction rows rule: rev_induct) (auto simp: rowsByKey_snoc, simp add: rowsByKey_def)

subsection \<open>One page\<close>

definition keepsKeys :: "js_env \<Rightarrow> pageRow list \<Rightarrow> pageRow list \<Rightarrow> bool" where
  \<comment> \<open>every key of today's rows is shown by a row of the new page\<close>
  "keepsKeys E todayRows nextRows \<longleftrightarrow>
     (\<forall>row \<in> set todayRows. \<forall>c \<in> set (rowIds E row). \<exists>found \<in> set nextRows. c \<in> set (rowIds E found))"

definition keepsLabels ::
    "js_env \<Rightarrow> groupGraph \<Rightarrow> characterKey \<Rightarrow> (string, linkStrength) jsmap \<Rightarrow> pageRow list \<Rightarrow> pageRow list \<Rightarrow> bool" where
  \<comment> \<open>off the origin's row, the label of a subject is as strong as today's: its own, or its path's in a merged row\<close>
  "keepsLabels E graph key strengths todayRows nextRows \<longleftrightarrow>
     (\<forall>row \<in> set todayRows. \<forall>found before after.
        \<not> holdsOrigin E key row \<and> shownBy E nextRows (canonicalCharacterId E (rs_key (pg_subject row))) found \<and>
          labelOf (rs_source (pg_subject row)) = Some before \<and> labelAfter E graph strengths row found = Some after \<longrightarrow>
        labelRank before \<le> labelRank after)"

definition keepsExclusions :: "js_env \<Rightarrow> characterKey \<Rightarrow> pageRow list \<Rightarrow> pageRow list \<Rightarrow> bool" where
  \<comment> \<open>a row excluded today is excluded by the row its first shown key stands for, or by the origin's\<close>
  "keepsExclusions E key todayRows nextRows \<longleftrightarrow>
     (\<forall>row \<in> set todayRows. \<forall>gone c rest found.
        pg_excluded row \<and> rowIds E row = gone @ c # rest \<and> (\<forall>g \<in> set gone. \<forall>r \<in> set nextRows. g \<notin> set (rowIds E r)) \<and>
          shownBy E nextRows c found \<longrightarrow>
        pg_excluded found \<or> holdsOrigin E key found)"

definition pageKept ::
    "js_env \<Rightarrow> groupGraph \<Rightarrow> (string, linkStrength) jsmap \<Rightarrow> characterKey \<Rightarrow> string \<Rightarrow> resolvedSubjects \<Rightarrow> groupSubjects \<Rightarrow> bool" where
  "pageKept E graph strengths key originId today nxt \<longleftrightarrow>
     (let todayRows = rowsOf (rv_selected today) (rv_skipped today) (rv_excludedOrdered today);
          nextRows = rowsOf (gs_selected nxt) (gs_skipped nxt) (gs_excluded nxt)
      in keepsKeys E todayRows nextRows \<and> keepsLabels E graph key strengths todayRows nextRows \<and>
         keepsExclusions E key todayRows nextRows \<and> gs_skipped nxt = [] \<and>
         (\<forall>row \<in> set nextRows. pg_excluded row \<longrightarrow> exclusionExplained E graph originId row))"

lemma removedFailures_none:
  "removedFailures E graph page todayRows (rowsByKey E nextRows) = [] \<longleftrightarrow> keepsKeys E todayRows nextRows"
proof -
  have "map_has (rowsByKey E nextRows) c \<longleftrightarrow> (\<exists>found \<in> set nextRows. c \<in> set (rowIds E found))" for c
    using rowsByKey_None [of E nextRows c] by (auto simp: map_of_eq_None_iff)
  then show ?thesis by (auto simp: removedFailures_def keepsKeys_def filter_empty_conv rowIds_def)
qed

lemma labelWeakened_none:
  "filter (labelWeakened E graph key strengths (rowsByKey E nextRows)) todayRows = [] \<longleftrightarrow>
   keepsLabels E graph key strengths todayRows nextRows"
proof -
  have "\<not> labelWeakened E graph key strengths (rowsByKey E nextRows) row \<longleftrightarrow>
      (\<forall>found before after.
        \<not> holdsOrigin E key row \<and> shownBy E nextRows (canonicalCharacterId E (rs_key (pg_subject row))) found \<and>
          labelOf (rs_source (pg_subject row)) = Some before \<and> labelAfter E graph strengths row found = Some after \<longrightarrow>
        labelRank before \<le> labelRank after)" for row
    unfolding labelWeakened_def rowsByKey_last [symmetric] by (auto split: option.splits)
  then show ?thesis unfolding keepsLabels_def filter_empty_conv by blast
qed

lemma map_filter_first: "List.map_filter f xs = y # ys \<Longrightarrow>
  \<exists>gone x rest. xs = gone @ x # rest \<and> (\<forall>g \<in> set gone. f g = None) \<and> f x = Some y"
proof (induction xs)
  case (Cons x xs)
  show ?case
  proof (cases "f x")
    case None
    then obtain gone z rest where "xs = gone @ z # rest" "\<forall>g \<in> set gone. f g = None" "f z = Some y"
      using Cons by (auto simp: map_filter_simps)
    then show ?thesis using None by (intro exI [of _ "x # gone"] exI [of _ z] exI [of _ rest]) simp
  next
    case (Some z)
    then show ?thesis using Cons.prems by (intro exI [of _ "[]"]) (simp add: map_filter_simps)
  qed
qed (simp add: map_filter_simps)

lemma map_filter_gone: "\<forall>g \<in> set gone. f g = None \<Longrightarrow> f x = Some y \<Longrightarrow> \<exists>ys. List.map_filter f (gone @ x # rest) = y # ys"
  by (induction gone) (simp_all add: map_filter_simps)

lemma exclusionLost_none:
  "filter (exclusionLost E key (rowsByKey E nextRows)) todayRows = [] \<longleftrightarrow> keepsExclusions E key todayRows nextRows"
proof -
  have "exclusionLost E key (rowsByKey E nextRows) row \<longleftrightarrow>
      (\<exists>gone c rest found. pg_excluded row \<and> rowIds E row = gone @ c # rest \<and>
        (\<forall>g \<in> set gone. \<forall>r \<in> set nextRows. g \<notin> set (rowIds E r)) \<and> shownBy E nextRows c found \<and>
        \<not> pg_excluded found \<and> \<not> holdsOrigin E key found)" (is "?lost \<longleftrightarrow> ?gone") for row
  proof
    assume lost: ?lost
    then obtain found rest where f: "List.map_filter (map_get (rowsByKey E nextRows)) (rowIds E row) = found # rest"
      "pg_excluded row" "\<not> pg_excluded found" "\<not> holdsOrigin E key found"
      by (auto simp: exclusionLost_def split: list.splits)
    show ?gone using map_filter_first [OF f(1)] f(2-4) unfolding rowsByKey_None rowsByKey_last by blast
  next
    assume ?gone
    then obtain gone c rest found where g: "pg_excluded row" "rowIds E row = gone @ c # rest"
      "\<forall>g \<in> set gone. map_get (rowsByKey E nextRows) g = None" "map_get (rowsByKey E nextRows) c = Some found"
      "\<not> pg_excluded found" "\<not> holdsOrigin E key found"
      unfolding rowsByKey_None rowsByKey_last by blast
    then obtain ys where "List.map_filter (map_get (rowsByKey E nextRows)) (rowIds E row) = found # ys"
      using map_filter_gone [OF g(3,4)] by metis
    then show ?lost using g(1,5,6) unfolding exclusionLost_def by simp
  qed
  then show ?thesis unfolding keepsExclusions_def filter_empty_conv by blast
qed

lemma comparePage_failures:
  "\<exists>fs. pc_failures (comparePage E graph strengths key originId today nxt acc) = pc_failures acc @ fs \<and>
     (fs = [] \<longrightarrow> pageKept E graph strengths key originId today nxt)"
proof -
  let ?todayRows = "rowsOf (rv_selected today) (rv_skipped today) (rv_excludedOrdered today)"
  let ?nextRows = "rowsOf (gs_selected nxt) (gs_skipped nxt) (gs_excluded nxt)"
  have "\<exists>fs. pc_failures (comparePage E graph strengths key originId today nxt acc) = pc_failures acc @ fs \<and>
    (fs = [] \<longrightarrow> removedFailures E graph (keyDescriber graph key) ?todayRows (rowsByKey E ?nextRows) = [] \<and>
       filter (labelWeakened E graph key strengths (rowsByKey E ?nextRows)) ?todayRows = [] \<and>
       filter (exclusionLost E key (rowsByKey E ?nextRows)) ?todayRows = [] \<and> gs_skipped nxt = [] \<and>
       filter (\<lambda>row. \<not> exclusionExplained E graph originId row) (filter pg_excluded ?nextRows) = [])"
    unfolding comparePage_def Let_def pageComparison.simps
    by (intro exI conjI, rule refl) (simp split: if_split_asm)
  then show ?thesis
    unfolding removedFailures_none labelWeakened_none exclusionLost_none pageKept_def Let_def
    by (simp add: filter_empty_conv)
qed

subsection \<open>All the roots\<close>

definition compared ::
    "js_env \<Rightarrow> groupsAudit \<Rightarrow> groupGraph \<Rightarrow> (string, resolvedSubjects option) jsmap \<Rightarrow> characterKey \<Rightarrow> resolvedSubjects \<Rightarrow> bool" where
  \<comment> \<open>a root with a page today, none of its characters just published, its snapshot still the latest\<close>
  "compared E audit graph legacy key today \<longleftrightarrow>
     map_get legacy (canonicalCharacterId E key) = Some (Some today) \<and>
     (\<forall>i \<in> set (todayPageIds graph key today). i \<notin> set (youngObservers audit)) \<and>
     ss_id (rv_snapshot today) \<in> set (ga_latestSnapshotIds audit)"

definition rootKept ::
    "js_env \<Rightarrow> groupGraph \<Rightarrow> nat \<Rightarrow> resolver \<Rightarrow> characterKey \<Rightarrow> resolvedSubjects \<Rightarrow> bool" where
  \<comment> \<open>the new page exists and keeps what today's shows\<close>
  "rootKept E graph cap resolve key today \<longleftrightarrow>
     (\<exists>originId nxt strengths.
        gg_idOf graph key = Some originId \<and> resolve key graph cap = Some (Some nxt) \<and>
        pathStrengths originId (pageLinks graph (pageMembers originId graph)) = Some strengths \<and>
        pageKept E graph strengths key originId today nxt)"

lemma compareRoot_failures:
  assumes "compareRoot E audit graph legacy cap resolve acc key = Some acc'"
  shows "\<exists>fs. pc_failures acc' = pc_failures acc @ fs \<and>
    (fs = [] \<longrightarrow> (\<forall>today. compared E audit graph legacy key today \<longrightarrow> rootKept E graph cap resolve key today))"
proof (cases "\<exists>today. compared E audit graph legacy key today")
  case False
  have "\<exists>fs. pc_failures acc' = pc_failures acc @ fs"
    using assms False unfolding compareRoot_def compared_def
    by (auto simp: Let_def list_ex_iff split: option.splits if_splits)
  then show ?thesis using False by blast
next
  case True
  then obtain today where today: "compared E audit graph legacy key today" by blast
  have only: "t = today" if "compared E audit graph legacy key t" for t
    using that today unfolding compared_def by simp
  have young: "\<not> list_ex (\<lambda>i. i \<in> set (youngObservers audit)) (todayPageIds graph key today)"
    using today unfolding compared_def list_ex_iff by blast
  show ?thesis
  proof (cases "\<exists>originId nxt. gg_idOf graph key = Some originId \<and> resolve key graph cap = Some (Some nxt)")
    case True
    then obtain originId nxt where page: "gg_idOf graph key = Some originId" "resolve key graph cap = Some (Some nxt)" by blast
    then obtain strengths where "pathStrengths originId (pageLinks graph (pageMembers originId graph)) = Some strengths"
      "acc' = comparePage E graph strengths key originId today nxt acc"
      using assms today young unfolding compareRoot_def compared_def by (auto simp: Let_def)
    then show ?thesis using comparePage_failures [of E graph strengths key originId today nxt acc] page only
      unfolding rootKept_def by blast
  next
    case False
    then have "\<exists>f fs. pc_failures acc' = pc_failures acc @ f # fs"
      using assms today young unfolding compareRoot_def compared_def
      by (auto simp: Let_def split: option.splits)
    then show ?thesis by blast
  qed
qed

lemma compareRoots_failures:
  assumes "compareRoots E audit graph legacy cap resolve keys acc = Some acc'" and "pc_failures acc' = []"
  shows "pc_failures acc = [] \<and>
    (\<forall>key \<in> set keys. \<forall>today. compared E audit graph legacy key today \<longrightarrow> rootKept E graph cap resolve key today)"
  using assms
proof (induction keys arbitrary: acc)
  case (Cons key keys)
  then obtain acc1 where acc1: "compareRoot E audit graph legacy cap resolve acc key = Some acc1"
    "compareRoots E audit graph legacy cap resolve keys acc1 = Some acc'" by (auto split: option.splits)
  note rest = Cons.IH [OF acc1(2) Cons.prems(2)]
  then have "pc_failures acc1 = []" by blast
  with compareRoot_failures [OF acc1(1)] have "pc_failures acc = []"
    "\<forall>today. compared E audit graph legacy key today \<longrightarrow> rootKept E graph cap resolve key today"
    by auto
  with rest show ?case by simp
qed simp

text \<open>
  When the page comparison has no failure, every root it compares still has a page, and the page
  has lost nothing: each key of today's rows is shown, no row is left out by the cap, off the
  origin's row no label is weaker than today's, an excluded row is still excluded or part of the
  origin's, and every hidden row is hidden by an exclusion of a member or of an undiscovered target.
\<close>

theorem clean_pages_lose_nothing:
  assumes "withRecomputedGroups (ga_graph audit) = Some graph"
    and "comparePages E audit legacy cap resolve = Some pages" and "pc_failures pages = []"
    and "key \<in> set (ga_roots audit)" and "compared E audit graph legacy key today"
  shows "rootKept E graph cap resolve key today"
  using compareRoots_failures [of E audit graph legacy cap resolve "ga_roots audit" _ pages] assms
  unfolding comparePages_def by simp

definition exampleToday :: resolvedSubjects where
  \<comment> \<open>today's page of the same two characters\<close>
  "exampleToday =
     \<lparr>rv_snapshot = \<lparr>ss_id = ''snapshot'', ss_rootKey = ryii, ss_state = Complete_state, ss_limitationCode = None,
        ss_characters = []\<rparr>,
      rv_selected = gs_selected examplePage, rv_skipped = [], rv_excludedOrdered = gs_excluded examplePage,
      rv_provisional = False\<rparr>"

definition exampleLegacy :: "(string, resolvedSubjects option) jsmap" where
  "exampleLegacy = [(canonicalCharacterId ascii_env ryii, Some exampleToday)]"

definition exampleSettled :: groupGraph where
  \<comment> \<open>the example's graph with its recomputed groups\<close>
  "exampleSettled = exampleGraph\<lparr>gg_groupOf := [(''a'', ''a''), (''b'', ''a'')]\<rparr>"

theorem clean_pages_lose_nothing_witness:
  "rootKept ascii_env exampleSettled 2 (resolveGroupSubjects ascii_env) ryii exampleToday"
proof (rule clean_pages_lose_nothing [where audit = exampleAudit and legacy = exampleLegacy])
  show "withRecomputedGroups (ga_graph exampleAudit) = Some exampleSettled"
  proof -
    have "graphComponents exampleGraph = Some [[''a'', ''b'']]" by code_simp
    then show ?thesis by (simp add: withRecomputedGroups_def exampleAudit_def exampleSettled_def)
  qed
  show "comparePages ascii_env exampleAudit exampleLegacy 2 (resolveGroupSubjects ascii_env) =
      Some \<lparr>pc_failures = [], pc_reports = [], pc_counts = [(''pages'', 1), (''pendingPages'', 0), (''movedPages'', 0),
        (''provisional'', 0), (''unchanged'', 1), (''grew'', 0), (''lost'', 0), (''researchStateChanged'', 0),
        (''sharedExclusions'', 0), (''selfExclusions'', 0)]\<rparr>" by code_simp
  show "ryii \<in> set (ga_roots exampleAudit)" by (simp add: exampleAudit_def)
  show "compared ascii_env exampleAudit exampleSettled exampleLegacy ryii exampleToday"
    by (simp add: compared_def exampleLegacy_def exampleAudit_def exampleToday_def youngObservers_def PENDING_MS_def)
qed simp

end
