(* ===== verification/RequestLimiter.thy ===== *)
theory RequestLimiter
  imports Complex_Main Prelude
begin

section \<open>The request limiter\<close>

text \<open>
  \<open>packages/blizzard/src/request-limiter.ts\<close>: requests are admitted in arrival order, at most
  \<open>maxConcurrent\<close> in flight and at most \<open>maxPerSecond\<close> started within any second. A waiter is the
  number of its arrival. The closure's variables are a record; the clock is a function from readings
  to instants, so it may advance between two readings of one pass.

  The operations run to completion, and between them anything may happen: a new request, an abort
  of a waiting one, the release of one in flight, and the timer, at any time after it was set. That
  is a step relation over the limiter with what its callers hold, and a log of the starts.
\<close>

subsection \<open>The limiter\<close>

record requestLimits =
  lim_maxConcurrent :: nat
  lim_maxPerSecond :: nat

record limiter =
  lm_queue :: "nat list"
  lm_recentStarts :: "int list"
  lm_active :: nat
  lm_timer :: "int option"
    \<comment> \<open>\<open>timerPending\<close>, with the instant the timer is set for\<close>

definition WINDOW_MS :: int where "WINDOW_MS = 1000"

definition validLimit :: "rat \<Rightarrow> string \<Rightarrow> string + nat" where
  "validLimit v name =
     (if rat_of_int \<lfloor>v\<rfloor> \<noteq> v \<or> v < 1 then Inl (''blizzard_'' @ name @ ''_invalid'') else Inr (nat \<lfloor>v\<rfloor>))"

definition createRequestLimiter :: "rat \<Rightarrow> rat \<Rightarrow> string + requestLimits \<times> limiter" where
  "createRequestLimiter maxConcurrent maxPerSecond =
     (case validLimit maxConcurrent ''max_concurrent'' of
        Inl e \<Rightarrow> Inl e
      | Inr c \<Rightarrow>
          (case validLimit maxPerSecond ''max_per_second'' of
             Inl e \<Rightarrow> Inl e
           | Inr s \<Rightarrow> Inr (\<lparr>lim_maxConcurrent = c, lim_maxPerSecond = s\<rparr>,
                             \<lparr>lm_queue = [], lm_recentStarts = [], lm_active = 0, lm_timer = None\<rparr>)))"

text \<open>A pass over the queue: the limiter, who was started when, and the readings of the clock.\<close>

function drain ::
    "requestLimits \<Rightarrow> (nat \<Rightarrow> int) \<Rightarrow> nat \<Rightarrow> limiter \<Rightarrow> limiter \<times> (nat \<times> int) list \<times> nat" where
  "drain limits clock k s =
     (case lm_queue s of
        [] \<Rightarrow> (s, [], k)
      | w # queue \<Rightarrow>
          if lm_active s < lim_maxConcurrent limits then
            (let now = clock k;
                 recent = dropWhile (\<lambda>t. t \<le> now - WINDOW_MS) (lm_recentStarts s)
             in if length recent \<ge> lim_maxPerSecond limits then
                  (s\<lparr>lm_recentStarts := recent,
                     lm_timer := (case lm_timer s of Some due \<Rightarrow> Some due | None \<Rightarrow> Some (hd recent + WINDOW_MS))\<rparr>, [], Suc k)
                else
                  (case drain limits clock (Suc k)
                          (s\<lparr>lm_queue := queue, lm_recentStarts := recent @ [now], lm_active := lm_active s + 1\<rparr>) of
                     (s', started, k') \<Rightarrow> (s', (w, now) # started, k')))
          else (s, [], k))"
  by auto
termination by (relation "measure (\<lambda>(limits, clock, k, s). length (lm_queue s))") auto

declare drain.simps [simp del]

definition enqueue :: "nat \<Rightarrow> limiter \<Rightarrow> limiter" where
  "enqueue w s = s\<lparr>lm_queue := lm_queue s @ [w]\<rparr>"

definition abortWaiter :: "nat \<Rightarrow> limiter \<Rightarrow> limiter" where
  \<comment> \<open>\<open>onAbort\<close>; a waiter that is not in the queue is left alone\<close>
  "abortWaiter w s = s\<lparr>lm_queue := remove1 w (lm_queue s)\<rparr>"

subsection \<open>The limiter and its callers\<close>

record limiterSystem =
  sy_limiter :: limiter
  sy_now :: int
  sy_arrivals :: nat
  sy_holding :: "nat list"
    \<comment> \<open>started and not yet released\<close>
  sy_starts :: "(nat \<times> int) list"
    \<comment> \<open>every start, in order\<close>

definition drainSystem :: "requestLimits \<Rightarrow> (nat \<Rightarrow> int) \<Rightarrow> limiterSystem \<Rightarrow> limiterSystem" where
  "drainSystem limits clock sys =
     (case drain limits clock 0 (sy_limiter sys) of
        (s, started, k) \<Rightarrow> sys\<lparr>sy_limiter := s, sy_now := clock k, sy_holding := sy_holding sys @ map fst started,
                               sy_starts := sy_starts sys @ started\<rparr>)"

definition acquire :: "requestLimits \<Rightarrow> (nat \<Rightarrow> int) \<Rightarrow> bool \<Rightarrow> limiterSystem \<Rightarrow> limiterSystem" where
  \<comment> \<open>a signal that is aborted already rejects at once\<close>
  "acquire limits clock aborted sys =
     (if aborted then sys
      else drainSystem limits clock
             (sys\<lparr>sy_limiter := enqueue (sy_arrivals sys) (sy_limiter sys), sy_arrivals := Suc (sy_arrivals sys)\<rparr>))"

definition releaseSlot :: "requestLimits \<Rightarrow> (nat \<Rightarrow> int) \<Rightarrow> nat \<Rightarrow> limiterSystem \<Rightarrow> limiterSystem" where
  \<comment> \<open>a second call of a release does nothing\<close>
  "releaseSlot limits clock w sys =
     (if w \<in> set (sy_holding sys)
      then drainSystem limits clock
             (sys\<lparr>sy_limiter := (sy_limiter sys)\<lparr>lm_active := lm_active (sy_limiter sys) - 1\<rparr>,
                  sy_holding := remove1 w (sy_holding sys)\<rparr>)
      else sys)"

definition fireTimer :: "requestLimits \<Rightarrow> (nat \<Rightarrow> int) \<Rightarrow> limiterSystem \<Rightarrow> limiterSystem" where
  "fireTimer limits clock sys = drainSystem limits clock (sys\<lparr>sy_limiter := (sy_limiter sys)\<lparr>lm_timer := None\<rparr>\<rparr>)"

definition clockFrom :: "int \<Rightarrow> (nat \<Rightarrow> int) \<Rightarrow> bool" where
  \<comment> \<open>the clock does not run backwards\<close>
  "clockFrom now clock \<longleftrightarrow> now \<le> clock 0 \<and> (\<forall>k. clock k \<le> clock (Suc k))"

inductive limiterStep :: "requestLimits \<Rightarrow> limiterSystem \<Rightarrow> limiterSystem \<Rightarrow> bool" for limits where
  step_acquire: "clockFrom (sy_now sys) clock \<Longrightarrow> limiterStep limits sys (acquire limits clock aborted sys)"
| step_abort: "limiterStep limits sys (sys\<lparr>sy_limiter := abortWaiter w (sy_limiter sys)\<rparr>)"
| step_release: "clockFrom (sy_now sys) clock \<Longrightarrow> limiterStep limits sys (releaseSlot limits clock w sys)"
| step_timer: "clockFrom (sy_now sys) clock \<Longrightarrow> lm_timer (sy_limiter sys) \<noteq> None \<Longrightarrow>
    limiterStep limits sys (fireTimer limits clock sys)"

inductive limiterReachable :: "requestLimits \<Rightarrow> limiter \<Rightarrow> limiterSystem \<Rightarrow> bool" for limits initial where
  reach_start: "limiterReachable limits initial \<lparr>sy_limiter = initial, sy_now = now, sy_arrivals = 0, sy_holding = [], sy_starts = []\<rparr>"
| reach_step: "limiterReachable limits initial sys \<Longrightarrow> limiterStep limits sys sys' \<Longrightarrow> limiterReachable limits initial sys'"

subsection \<open>The rate\<close>

definition inWindow :: "int \<Rightarrow> int list \<Rightarrow> nat" where
  \<comment> \<open>how many of some instants lie in the second from an instant on\<close>
  "inWindow a starts = length (filter (\<lambda>t. a \<le> t \<and> t < a + WINDOW_MS) starts)"

text \<open>What the recent starts keep of the log: all but a prefix that is a second old.\<close>

definition paced :: "nat \<Rightarrow> int list \<Rightarrow> int list \<Rightarrow> int \<Rightarrow> bool" where
  "paced m starts recent now \<longleftrightarrow>
     (\<exists>old. starts = old @ recent \<and> (\<forall>t \<in> set old. t \<le> now - WINDOW_MS)) \<and> (\<forall>t \<in> set starts. t \<le> now) \<and>
     (\<forall>a. inWindow a starts \<le> m)"

lemma pacedI:
  "starts = old @ recent \<Longrightarrow> (\<And>t. t \<in> set old \<Longrightarrow> t \<le> now - WINDOW_MS) \<Longrightarrow> (\<And>t. t \<in> set starts \<Longrightarrow> t \<le> now) \<Longrightarrow>
   (\<And>a. inWindow a starts \<le> m) \<Longrightarrow> paced m starts recent now"
  unfolding paced_def by blast

lemma pacedE:
  assumes "paced m starts recent now"
  obtains old where "starts = old @ recent" "\<And>t. t \<in> set old \<Longrightarrow> t \<le> now - WINDOW_MS" "\<And>t. t \<in> set starts \<Longrightarrow> t \<le> now"
    "\<And>a. inWindow a starts \<le> m"
  using assms unfolding paced_def by blast

lemma paced_later: "paced m starts recent now \<Longrightarrow> now \<le> now' \<Longrightarrow> paced m starts recent now'"
  by (erule pacedE, rule pacedI) (assumption | fastforce)+

lemma paced_shift:
  assumes "paced m starts recent now"
  shows "paced m starts (dropWhile (\<lambda>t. t \<le> now - WINDOW_MS) recent) now"
proof -
  obtain old where old: "starts = old @ recent" "\<And>t. t \<in> set old \<Longrightarrow> t \<le> now - WINDOW_MS" "\<And>t. t \<in> set starts \<Longrightarrow> t \<le> now"
    "\<And>a. inWindow a starts \<le> m" using pacedE [OF assms] by metis
  show ?thesis
  proof (rule pacedI)
    show "starts = (old @ takeWhile (\<lambda>t. t \<le> now - WINDOW_MS) recent) @ dropWhile (\<lambda>t. t \<le> now - WINDOW_MS) recent"
      using old(1) by simp
    show "t \<le> now - WINDOW_MS" if "t \<in> set (old @ takeWhile (\<lambda>t. t \<le> now - WINDOW_MS) recent)" for t
      using that old(2) by (auto dest: set_takeWhileD)
  qed (rule old(3,4), assumption?)+
qed

lemma paced_start:
  assumes "paced m starts recent now" and "length recent < m"
  shows "paced m (starts @ [now]) (recent @ [now]) now"
proof -
  obtain old where old: "starts = old @ recent" "\<And>t. t \<in> set old \<Longrightarrow> t \<le> now - WINDOW_MS" "\<And>t. t \<in> set starts \<Longrightarrow> t \<le> now"
    "\<And>a. inWindow a starts \<le> m" using pacedE [OF assms(1)] by metis
  show ?thesis
  proof (rule pacedI)
    show "starts @ [now] = old @ recent @ [now]" using old(1) by simp
    show "t \<le> now" if "t \<in> set (starts @ [now])" for t using that old(3) by auto
    show "inWindow a (starts @ [now]) \<le> m" for a
    proof (cases "a \<le> now \<and> now < a + WINDOW_MS")
      case True
      then have "filter (\<lambda>t. a \<le> t \<and> t < a + WINDOW_MS) old = []"
        using old(2) by (fastforce simp: filter_empty_conv)
      then have "inWindow a starts \<le> length recent" unfolding old(1) inWindow_def by simp
      then show ?thesis using True assms(2) by (simp add: inWindow_def)
    next
      case False
      then show ?thesis using old(4) [of a] by (auto simp: inWindow_def)
    qed
  qed (rule old(2))
qed

subsection \<open>A pass over the queue\<close>

lemma drain_queue: "drain limits clock k s = (s', started, k') \<Longrightarrow> lm_queue s = map fst started @ lm_queue s'"
proof (induction limits clock k s arbitrary: s' started k' rule: drain.induct)
  case (1 limits clock k s)
  then show ?case by (subst (asm) (2) drain.simps) (auto simp: Let_def split: list.splits if_splits prod.splits)
qed

lemma drain_active:
  "drain limits clock k s = (s', started, k') \<Longrightarrow> lm_active s \<le> lim_maxConcurrent limits \<Longrightarrow>
   lm_active s' = lm_active s + length started \<and> lm_active s' \<le> lim_maxConcurrent limits"
proof (induction limits clock k s arbitrary: s' started k' rule: drain.induct)
  case (1 limits clock k s)
  from 1(2,3) show ?case
    by (subst (asm) drain.simps) (auto simp: Let_def split: list.splits if_splits prod.splits dest!: 1(1))
qed

text \<open>After a pass nobody waits for whom a slot and the rate leave room, unless the timer is set.\<close>

lemma drain_settles:
  "drain limits clock k s = (s', started, k') \<Longrightarrow>
   lm_queue s' = [] \<or> lim_maxConcurrent limits \<le> lm_active s' \<or> lm_timer s' \<noteq> None"
proof (induction limits clock k s arbitrary: s' started k' rule: drain.induct)
  case (1 limits clock k s)
  from 1(2) show ?case
    by (subst (asm) drain.simps) (auto simp: Let_def split: list.splits if_splits prod.splits option.splits dest!: 1(1))
qed

lemma drain_paced:
  assumes "drain limits clock k s = (s', started, k')" and "paced (lim_maxPerSecond limits) starts (lm_recentStarts s) now"
    and "now \<le> clock k" and "\<forall>k. clock k \<le> clock (Suc k)"
  shows "paced (lim_maxPerSecond limits) (starts @ map snd started) (lm_recentStarts s') (clock k')"
  using assms
proof (induction limits clock k s arbitrary: s' started k' starts now rule: drain.induct)
  case (1 limits clock k s)
  note mono = 1(5) [rule_format]
  let ?recent = "dropWhile (\<lambda>t. t \<le> clock k - WINDOW_MS) (lm_recentStarts s)"
  have now: "paced (lim_maxPerSecond limits) starts (lm_recentStarts s) (clock k)" by (rule paced_later [OF 1(3,4)])
  note shifted = paced_shift [OF this]
  show ?case
  proof (cases "lm_queue s")
    case Nil
    then show ?thesis using 1(2) now by (subst (asm) drain.simps) simp
  next
    case (Cons w queue)
    consider "\<not> lm_active s < lim_maxConcurrent limits"
      | "lm_active s < lim_maxConcurrent limits" "lim_maxPerSecond limits \<le> length ?recent"
      | "lm_active s < lim_maxConcurrent limits" "\<not> lim_maxPerSecond limits \<le> length ?recent" by blast
    then show ?thesis
    proof cases
      case 1
      then show ?thesis using "1.prems"(1) Cons now by (subst (asm) drain.simps) simp
    next
      case 2
      then show ?thesis using "1.prems"(1) Cons paced_later [OF shifted mono]
        by (subst (asm) drain.simps) (auto simp: Let_def)
    next
      case 3
      let ?s = "s\<lparr>lm_queue := queue, lm_recentStarts := ?recent @ [clock k], lm_active := lm_active s + 1\<rparr>"
      obtain s1 started1 k1 where rest: "drain limits clock (Suc k) ?s = (s1, started1, k1)" by (metis prod_cases3)
      have "drain limits clock k s = (s1, (w, clock k) # started1, k1)"
        by (subst drain.simps) (use 3 rest in \<open>simp add: Let_def Cons\<close>)
      then have out: "s' = s1" "started = (w, clock k) # started1" "k' = k1" using "1.prems"(1) by simp_all
      have "paced (lim_maxPerSecond limits) (starts @ [clock k]) (?recent @ [clock k]) (clock k)"
        using paced_start [OF shifted] 3(2) by simp
      from "1.IH" [OF Cons 3(1) refl refl 3(2) rest, of "starts @ [clock k]" "clock k"] this mono
      show ?thesis unfolding out by simp
    qed
  qed
qed

lemma drain_clock:
  "drain limits clock k s = (s', started, k') \<Longrightarrow> \<forall>k. clock k \<le> clock (Suc k) \<Longrightarrow> clock k \<le> clock k'"
proof (induction limits clock k s arbitrary: s' started k' rule: drain.induct)
  case (1 limits clock k s)
  note later = order_trans [OF 1(3) [rule_format, of k]]
  from 1(2,3) show ?case
    by (subst (asm) drain.simps) (auto simp: Let_def split: list.splits if_splits prod.splits dest!: 1(1) intro: later)
qed

text \<open>A timer that a pass sets is due within a second of it.\<close>

definition dueBy :: "limiter \<Rightarrow> int \<Rightarrow> bool" where
  "dueBy s now \<longleftrightarrow> (\<forall>due. lm_timer s = Some due \<longrightarrow> due \<le> now + WINDOW_MS)"

lemma dueBy_later: "dueBy s now \<Longrightarrow> now \<le> now' \<Longrightarrow> dueBy s now'"
  unfolding dueBy_def by fastforce

lemma drain_dueBy:
  assumes "drain limits clock k s = (s', started, k')" and "dueBy s (clock k)"
    and "\<forall>t \<in> set (lm_recentStarts s). t \<le> clock k" and "\<forall>k. clock k \<le> clock (Suc k)" and "0 < lim_maxPerSecond limits"
  shows "dueBy s' (clock k')"
  using assms
proof (induction limits clock k s arbitrary: s' started k' rule: drain.induct)
  case (1 limits clock k s)
  note mono = 1(5) [rule_format]
  let ?recent = "dropWhile (\<lambda>t. t \<le> clock k - WINDOW_MS) (lm_recentStarts s)"
  have recent: "\<forall>t \<in> set ?recent. t \<le> clock k" using 1(4) by (meson set_dropWhileD)
  show ?case
  proof (cases "lm_queue s")
    case Nil
    then show ?thesis using 1(2,3) by (subst (asm) drain.simps) simp
  next
    case (Cons w queue)
    consider "\<not> lm_active s < lim_maxConcurrent limits"
      | "lm_active s < lim_maxConcurrent limits" "lim_maxPerSecond limits \<le> length ?recent"
      | "lm_active s < lim_maxConcurrent limits" "\<not> lim_maxPerSecond limits \<le> length ?recent" by blast
    then show ?thesis
    proof cases
      case 1
      then show ?thesis using "1.prems"(1,2) Cons by (subst (asm) drain.simps) simp
    next
      case 2
      let ?due = "case lm_timer s of Some due \<Rightarrow> Some due | None \<Rightarrow> Some (hd ?recent + WINDOW_MS)"
      have "drain limits clock k s = (s\<lparr>lm_recentStarts := ?recent, lm_timer := ?due\<rparr>, [], Suc k)"
        by (subst drain.simps) (use 2 in \<open>simp add: Let_def Cons\<close>)
      then have out: "s' = s\<lparr>lm_recentStarts := ?recent, lm_timer := ?due\<rparr>" "k' = Suc k" using "1.prems"(1) by simp_all
      have "hd ?recent \<le> clock k" using recent 2(2) "1.prems"(5) by (cases ?recent) auto
      then have "dueBy s' (clock k)" unfolding out dueBy_def using "1.prems"(2) by (auto simp: dueBy_def split: option.splits)
      then show ?thesis unfolding out(2) using dueBy_later mono by blast
    next
      case 3
      let ?s = "s\<lparr>lm_queue := queue, lm_recentStarts := ?recent @ [clock k], lm_active := lm_active s + 1\<rparr>"
      obtain s1 started1 k1 where rest: "drain limits clock (Suc k) ?s = (s1, started1, k1)" by (metis prod_cases3)
      have "drain limits clock k s = (s1, (w, clock k) # started1, k1)"
        by (subst drain.simps) (use 3 rest in \<open>simp add: Let_def Cons\<close>)
      then have out: "s' = s1" "k' = k1" using "1.prems"(1) by simp_all
      have "dueBy ?s (clock (Suc k))" using dueBy_later [OF "1.prems"(2) mono] by (simp add: dueBy_def)
      moreover have "\<forall>t \<in> set (lm_recentStarts ?s). t \<le> clock (Suc k)" using recent mono [of k] by fastforce
      ultimately show ?thesis
        unfolding out using "1.IH" [OF Cons 3(1) refl refl 3(2) rest] "1.prems"(4,5) by blast
    qed
  qed
qed

subsection \<open>Every reachable state\<close>

text \<open>
  What every operation keeps: the count of slots and their bound, the rate, the order of arrival,
  and that a timer is set whenever somebody waits with a slot free.
\<close>

definition keepsLimits :: "requestLimits \<Rightarrow> limiterSystem \<Rightarrow> bool" where
  "keepsLimits limits sys \<longleftrightarrow>
     lm_active (sy_limiter sys) = length (sy_holding sys) \<and> length (sy_holding sys) \<le> lim_maxConcurrent limits \<and>
     paced (lim_maxPerSecond limits) (map snd (sy_starts sys)) (lm_recentStarts (sy_limiter sys)) (sy_now sys)"

definition inOrder :: "limiterSystem \<Rightarrow> bool" where
  "inOrder sys \<longleftrightarrow>
     sorted_wrt (<) (map fst (sy_starts sys) @ lm_queue (sy_limiter sys)) \<and>
     (\<forall>w \<in> set (map fst (sy_starts sys) @ lm_queue (sy_limiter sys)). w < sy_arrivals sys)"

definition wakes :: "requestLimits \<Rightarrow> limiterSystem \<Rightarrow> bool" where
  "wakes limits sys \<longleftrightarrow>
     (lm_queue (sy_limiter sys) = [] \<or> lim_maxConcurrent limits \<le> lm_active (sy_limiter sys) \<or> lm_timer (sy_limiter sys) \<noteq> None) \<and>
     dueBy (sy_limiter sys) (sy_now sys)"

lemma drainSystem_keeps:
  assumes "keepsLimits limits sys" and clock: "clockFrom (sy_now sys) clock"
  shows "keepsLimits limits (drainSystem limits clock sys)"
proof -
  obtain s started k where d: "drain limits clock 0 (sy_limiter sys) = (s, started, k)" by (metis prod_cases3)
  have mono: "sy_now sys \<le> clock 0" "\<forall>k. clock k \<le> clock (Suc k)" using clock unfolding clockFrom_def by blast+
  show ?thesis
    using assms(1) drain_active [OF d] drain_paced [OF d _ mono] unfolding keepsLimits_def drainSystem_def d by simp
qed

lemma drainSystem_order:
  assumes "inOrder sys"
  shows "inOrder (drainSystem limits clock sys)"
proof -
  obtain s started k where d: "drain limits clock 0 (sy_limiter sys) = (s, started, k)" by (metis prod_cases3)
  show ?thesis using assms drain_queue [OF d] unfolding inOrder_def drainSystem_def d by simp
qed

lemma drainSystem_wakes:
  assumes "keepsLimits limits sys" and "dueBy (sy_limiter sys) (sy_now sys)" and "0 < lim_maxPerSecond limits"
    and clock: "clockFrom (sy_now sys) clock"
  shows "wakes limits (drainSystem limits clock sys)"
proof -
  obtain s started k where d: "drain limits clock 0 (sy_limiter sys) = (s, started, k)" by (metis prod_cases3)
  have mono: "sy_now sys \<le> clock 0" "\<forall>k. clock k \<le> clock (Suc k)" using clock unfolding clockFrom_def by blast+
  have "\<forall>t \<in> set (lm_recentStarts (sy_limiter sys)). t \<le> clock 0"
    using assms(1) mono(1) unfolding keepsLimits_def by (auto elim!: pacedE)
  from drain_dueBy [OF d dueBy_later [OF assms(2) mono(1)] this mono(2) assms(3)] show ?thesis
    using drain_settles [OF d] unfolding wakes_def drainSystem_def d by simp
qed

lemma limiterStep_keeps:
  assumes "limiterStep limits sys sys'" and "keepsLimits limits sys" and "inOrder sys" and "wakes limits sys"
    and "0 < lim_maxPerSecond limits"
  shows "keepsLimits limits sys' \<and> inOrder sys' \<and> wakes limits sys'"
  using assms(1)
proof cases
  case (step_acquire clock aborted)
  let ?sys = "sys\<lparr>sy_limiter := enqueue (sy_arrivals sys) (sy_limiter sys), sy_arrivals := Suc (sy_arrivals sys)\<rparr>"
  have "keepsLimits limits ?sys" "dueBy (sy_limiter ?sys) (sy_now ?sys)" "clockFrom (sy_now ?sys) clock"
    using assms(2,4) step_acquire(2) by (simp_all add: keepsLimits_def wakes_def dueBy_def enqueue_def)
  moreover have "inOrder ?sys"
    using assms(3) unfolding inOrder_def by (auto simp: enqueue_def sorted_wrt_append less_Suc_eq)
  ultimately show ?thesis
    using assms(2-5) drainSystem_keeps drainSystem_order drainSystem_wakes unfolding step_acquire(1) acquire_def by simp
next
  case (step_abort w)
  have "subseq (remove1 w q) q" for q by (induction q) auto
  from list_emb_append_mono [OF subseq_order.refl this]
  have "sorted_wrt (<) (map fst (sy_starts sys) @ remove1 w (lm_queue (sy_limiter sys)))"
    using assms(3) sorted_wrt_subseq unfolding inOrder_def by blast
  then show ?thesis
    using assms(2-4) unfolding step_abort keepsLimits_def inOrder_def wakes_def
    by (auto simp: abortWaiter_def dueBy_def dest: notin_set_remove1 set_remove1_subset [THEN subsetD])
next
  case (step_release clock w)
  let ?sys = "sys\<lparr>sy_limiter := (sy_limiter sys)\<lparr>lm_active := lm_active (sy_limiter sys) - 1\<rparr>, sy_holding := remove1 w (sy_holding sys)\<rparr>"
  show ?thesis
  proof (cases "w \<in> set (sy_holding sys)")
    case True
    have "keepsLimits limits ?sys" "inOrder ?sys" "dueBy (sy_limiter ?sys) (sy_now ?sys)" "clockFrom (sy_now ?sys) clock"
      using assms(2-4) step_release(2) True
      by (auto simp: keepsLimits_def inOrder_def wakes_def dueBy_def length_remove1)
    then show ?thesis
      using True assms(5) drainSystem_keeps drainSystem_order drainSystem_wakes unfolding step_release(1) releaseSlot_def by simp
  qed (use assms step_release(1) in \<open>simp add: releaseSlot_def\<close>)
next
  case (step_timer clock)
  let ?sys = "sys\<lparr>sy_limiter := (sy_limiter sys)\<lparr>lm_timer := None\<rparr>\<rparr>"
  have "keepsLimits limits ?sys" "inOrder ?sys" "dueBy (sy_limiter ?sys) (sy_now ?sys)" "clockFrom (sy_now ?sys) clock"
    using assms(2,3) step_timer(2) by (simp_all add: keepsLimits_def inOrder_def dueBy_def)
  then show ?thesis
    using assms(5) drainSystem_keeps drainSystem_order drainSystem_wakes unfolding step_timer(1) fireTimer_def by simp
qed

lemma reachable_keeps:
  assumes "limiterReachable limits initial sys" and "createRequestLimiter c r = Inr (limits, initial)"
  shows "keepsLimits limits sys \<and> inOrder sys \<and> wakes limits sys"
  using assms(1)
proof (induction rule: limiterReachable.induct)
  case (reach_start now)
  then show ?case using assms(2)
    by (auto simp: createRequestLimiter_def keepsLimits_def inOrder_def wakes_def dueBy_def paced_def inWindow_def split: sum.splits)
next
  case (reach_step sys sys')
  have "0 < lim_maxPerSecond limits"
    using assms(2) by (auto simp: createRequestLimiter_def validLimit_def zero_less_nat_eq split: sum.splits if_splits)
  with reach_step show ?case using limiterStep_keeps by blast
qed

lemma validLimit_value: "validLimit v name = Inr n \<Longrightarrow> rat_of_nat n = v"
  by (auto simp: validLimit_def split: if_splits)

lemma createRequestLimiter_limits:
  assumes "createRequestLimiter c r = Inr (limits, initial)"
  shows "rat_of_nat (lim_maxConcurrent limits) = c" "rat_of_nat (lim_maxPerSecond limits) = r"
  using assms by (auto simp: createRequestLimiter_def dest: validLimit_value split: sum.splits)

text \<open>
  C26. Whatever is requested, aborted and released, and whenever the timer fires, no more requests are
  in flight than the limiter was created for, and no span of a second, wherever it falls, sees more
  starts than it allows.
\<close>

theorem limiter_within_limits:
  assumes "createRequestLimiter c r = Inr (limits, initial)" and "limiterReachable limits initial sys"
  shows "rat_of_nat (length (sy_holding sys)) \<le> c \<and> rat_of_nat (inWindow a (map snd (sy_starts sys))) \<le> r"
proof -
  have "keepsLimits limits sys" using reachable_keeps [OF assms(2,1)] by blast
  then have "length (sy_holding sys) \<le> lim_maxConcurrent limits"
    "inWindow a (map snd (sy_starts sys)) \<le> lim_maxPerSecond limits"
    unfolding keepsLimits_def by (auto elim: pacedE)
  then show ?thesis unfolding createRequestLimiter_limits [OF assms(1), symmetric] of_nat_le_iff by blast
qed

text \<open>
  C27. Requests start in the order they arrived in, those that were aborted left out, and nobody is
  forgotten: while somebody waits, every slot is held or the timer is set, due within a second.
\<close>

theorem limiter_fair_and_awake:
  assumes "createRequestLimiter c r = Inr (limits, initial)" and "limiterReachable limits initial sys"
  shows "sorted_wrt (<) (map fst (sy_starts sys) @ lm_queue (sy_limiter sys)) \<and>
    (lm_queue (sy_limiter sys) = [] \<or> rat_of_nat (length (sy_holding sys)) = c \<or>
     (\<exists>due. lm_timer (sy_limiter sys) = Some due \<and> due \<le> sy_now sys + WINDOW_MS))"
proof -
  have keeps: "keepsLimits limits sys" "inOrder sys" "wakes limits sys" using reachable_keeps [OF assms(2,1)] by blast+
  then show ?thesis
    unfolding createRequestLimiter_limits(1) [OF assms(1), symmetric] of_nat_eq_iff
    by (auto simp: keepsLimits_def inOrder_def wakes_def dueBy_def)
qed

definition exampleLimits :: requestLimits where
  "exampleLimits = \<lparr>lim_maxConcurrent = 2, lim_maxPerSecond = 1\<rparr>"

definition exampleSystem :: "nat \<Rightarrow> limiterSystem" where
  \<comment> \<open>two requests at once: the second waits for the timer, which fires a second later\<close>
  "exampleSystem n =
     [\<lparr>sy_limiter = \<lparr>lm_queue = [], lm_recentStarts = [], lm_active = 0, lm_timer = None\<rparr>, sy_now = 0, sy_arrivals = 0,
       sy_holding = [], sy_starts = []\<rparr>,
      \<lparr>sy_limiter = \<lparr>lm_queue = [], lm_recentStarts = [5], lm_active = 1, lm_timer = None\<rparr>, sy_now = 5, sy_arrivals = 1,
       sy_holding = [0], sy_starts = [(0, 5)]\<rparr>,
      \<lparr>sy_limiter = \<lparr>lm_queue = [1], lm_recentStarts = [5], lm_active = 1, lm_timer = Some 1005\<rparr>, sy_now = 5, sy_arrivals = 2,
       sy_holding = [0], sy_starts = [(0, 5)]\<rparr>,
      \<lparr>sy_limiter = \<lparr>lm_queue = [], lm_recentStarts = [1006], lm_active = 2, lm_timer = None\<rparr>, sy_now = 1006,
       sy_arrivals = 2, sy_holding = [0, 1], sy_starts = [(0, 5), (1, 1006)]\<rparr>] ! n"

lemma exampleLimits_created:
  "createRequestLimiter 2 1 = Inr (exampleLimits, sy_limiter (exampleSystem 0))"
  by (simp add: createRequestLimiter_def validLimit_def exampleLimits_def exampleSystem_def)

lemma exampleSystem_reachable:
  "limiterReachable exampleLimits (sy_limiter (exampleSystem 0)) (exampleSystem 2)"
  "limiterReachable exampleLimits (sy_limiter (exampleSystem 0)) (exampleSystem 3)"
proof -
  note eval = acquire_def fireTimer_def drainSystem_def drain.simps enqueue_def exampleLimits_def exampleSystem_def WINDOW_MS_def
    numeral_2_eq_2 numeral_3_eq_3
  have clock: "clockFrom t (\<lambda>_. u)" if "t \<le> u" for t u using that by (simp add: clockFrom_def)
  have "limiterReachable exampleLimits (sy_limiter (exampleSystem 0)) (exampleSystem 0)"
    unfolding exampleSystem_def using reach_start by simp
  moreover have "limiterStep exampleLimits (exampleSystem 0) (exampleSystem 1)"
    using step_acquire [OF clock [of "sy_now (exampleSystem 0)" 5], of exampleLimits False] by (simp add: eval)
  ultimately have "limiterReachable exampleLimits (sy_limiter (exampleSystem 0)) (exampleSystem 1)" by (rule reach_step)
  moreover have "limiterStep exampleLimits (exampleSystem 1) (exampleSystem 2)"
    using step_acquire [OF clock [of "sy_now (exampleSystem 1)" 5], of exampleLimits False] by (simp add: eval)
  ultimately show "limiterReachable exampleLimits (sy_limiter (exampleSystem 0)) (exampleSystem 2)" by (rule reach_step)
  moreover have "limiterStep exampleLimits (exampleSystem 2) (exampleSystem 3)"
    using step_timer [OF clock [of "sy_now (exampleSystem 2)" 1006], of exampleLimits] by (simp add: eval)
  ultimately show "limiterReachable exampleLimits (sy_limiter (exampleSystem 0)) (exampleSystem 3)" by (rule reach_step)
qed

theorem limiter_within_limits_witness:
  "rat_of_nat (length (sy_holding (exampleSystem 3))) \<le> 2 \<and> rat_of_nat (inWindow 6 (map snd (sy_starts (exampleSystem 3)))) \<le> 1"
  by (rule limiter_within_limits [OF exampleLimits_created exampleSystem_reachable(2)])

theorem limiter_fair_and_awake_witness: "lm_queue (sy_limiter (exampleSystem 2)) = [1] \<and> lm_timer (sy_limiter (exampleSystem 2)) = Some 1005"
  using limiter_fair_and_awake [OF exampleLimits_created exampleSystem_reachable(1)] by (simp add: exampleSystem_def numeral_2_eq_2)

end
