(* ===== verification/EvidenceMerge.thy ===== *)
theory EvidenceMerge
  imports JsRuntime
begin

section \<open>Merging a run's evidence with what is stored\<close>

text \<open>
  \<open>packages/database/src/evidence/merge.ts\<close>: what a publication writes, from what the run found and
  what is stored about the character. A repeated fight keeps the parses already read; a complete
  ordinary run drops what it no longer found, except in raids it does not read any more and the
  kills of the latest explicit searches; a partial or targeted run only adds. Raider.IO's first
  kills are merged by the same rules. Also \<open>parsePerformanceValues\<close> of \<open>mappers.ts\<close> and the freshness
  test of \<open>freshness.ts\<close>. A thrown \<open>RangeError\<close> is the left of a sum.
\<close>

subsection \<open>Parses\<close>

datatype metricState = Available | Not_applicable | Unavailable

record metricValues =
  mv_state :: metricState
  mv_percentile :: "rat option"

record performanceValues =
  pv_spec :: "jsval option"
  pv_damage :: metricValues
  pv_healing :: metricValues
  pv_bossDamage :: metricValues

definition parseMetricValues :: "jsval \<Rightarrow> string + metricValues" where
  "parseMetricValues metric =
     (if \<not> is_object metric then Inl ''character_mythic_kill_parse_invalid''
      else case (get_prop ''state'' metric, get_prop ''percentile'' metric) of
        (JString state, JNumber (Finite p)) \<Rightarrow>
          if state = ''available'' \<and> 0 \<le> p \<and> p \<le> 100 then Inr \<lparr>mv_state = Available, mv_percentile = Some p\<rparr>
          else Inl ''character_mythic_kill_parse_invalid''
      | (JString state, JUndefined) \<Rightarrow>
          if state = ''not_applicable'' then Inr \<lparr>mv_state = Not_applicable, mv_percentile = None\<rparr>
          else if state = ''unavailable'' then Inr \<lparr>mv_state = Unavailable, mv_percentile = None\<rparr>
          else Inl ''character_mythic_kill_parse_invalid''
      | _ \<Rightarrow> Inl ''character_mythic_kill_parse_invalid'')"

definition parsePerformanceValues :: "jsval \<Rightarrow> string + performanceValues" where
  "parsePerformanceValues performance =
     (if \<not> is_object performance then Inl ''character_mythic_kill_performance_invalid''
      else
        (let candidate = get_prop ''spec'' performance;
             spec = (if truthy candidate \<and> is_string (get_prop ''name'' candidate) \<and> is_string (get_prop ''iconUrl'' candidate)
                     then Some candidate else None)
         in case parseMetricValues (get_prop ''damage'' performance) of
              Inl e \<Rightarrow> Inl e
            | Inr damage \<Rightarrow>
                (case parseMetricValues (get_prop ''healing'' performance) of
                   Inl e \<Rightarrow> Inl e
                 | Inr healing \<Rightarrow>
                     (case parseMetricValues (get_prop ''bossDamage'' performance) of
                        Inl e \<Rightarrow> Inl e
                      | Inr bossDamage \<Rightarrow>
                          Inr \<lparr>pv_spec = spec, pv_damage = damage, pv_healing = healing, pv_bossDamage = bossDamage\<rparr>))))"

definition mergeParseMetric :: "metricValues \<Rightarrow> metricValues \<Rightarrow> metricValues" where
  "mergeParseMetric previous incoming =
     (if mv_state incoming = Available \<or> mv_state previous \<noteq> Available then incoming else previous)"

definition mergePerformanceValues :: "performanceValues \<Rightarrow> performanceValues \<Rightarrow> performanceValues" where
  "mergePerformanceValues previous incoming =
     \<lparr>pv_spec = (case pv_spec incoming of Some s \<Rightarrow> Some s | None \<Rightarrow> pv_spec previous),
      pv_damage = mergeParseMetric (pv_damage previous) (pv_damage incoming),
      pv_healing = mergeParseMetric (pv_healing previous) (pv_healing incoming),
      pv_bossDamage = mergeParseMetric (pv_bossDamage previous) (pv_bossDamage incoming)\<rparr>"

subsection \<open>Stored and incoming evidence\<close>

record fightGuild =
  fg_name :: string
  fg_realm :: string
  fg_region :: "string option"

record mythicKill =
  \<comment> \<open>\<open>CharacterMythicKillInput\<close>; the id and \<open>parsesReadAt\<close> of a stored kill are not read here\<close>
  mk_raidId :: string
  mk_raidName :: string
  mk_bossId :: string
  mk_bossName :: string
  mk_journalBossId :: "string option"
  mk_bossOrder :: int
  mk_killedAt :: string
  mk_reportUrl :: string
  mk_fightUrl :: string
  mk_guild :: "fightGuild option"
  mk_uploader :: "string option"
  mk_historicWorldRank :: "int option"
  mk_historicRankCheckedAt :: "string option"
  mk_performance :: jsval

record mythicWipe =
  mw_raidId :: string
  mw_raidName :: string
  mw_bossId :: string
  mw_bossName :: string
  mw_journalBossId :: "string option"
  mw_bossOrder :: int
  mw_attemptedAt :: string
  mw_reportUrl :: string
  mw_fightUrl :: string
  mw_guild :: "fightGuild option"
  mw_uploader :: "string option"

record tierBestParse =
  tb_raidId :: string
  tb_raidName :: string
  tb_bossId :: string
  tb_bossName :: string
  tb_rankingsUrl :: string
  tb_performance :: jsval

record storedTierBest =
  st_tierBest :: tierBestParse
  st_performance :: performanceValues
  st_collectedAt :: int

datatype rankCheck = Check_text string | Check_date int

record historicRank =
  hr_worldRank :: "int option"
  hr_checkedAt :: "int option"

record storedEvidence =
  se_kills :: "mythicKill list"
  se_wipes :: "mythicWipe list"
  se_tierSearchKills :: "mythicKill list"
  se_terminalKillRaidIds :: "string list"
  se_performanceByFightUrl :: "(string, performanceValues) jsmap"
  se_collectedAtByFightUrl :: "(string, int) jsmap"
  se_parsesReadAtByFightUrl :: "(string, int) jsmap"
  se_historicRankByFightUrl :: "(string, historicRank) jsmap"
  se_tierBests :: "(string, storedTierBest) jsmap"

datatype publishState = Publish_complete | Publish_partial

record publishInput =
  in_state :: publishState
  in_completedAt :: int
  in_kills :: "mythicKill list"
  in_wipes :: "mythicWipe list"
  in_tierBests :: "tierBestParse list"
  in_parsedFightUrls :: "string list option"

record mergedKill =
  mg_kill :: mythicKill
  mg_performance :: performanceValues
  mg_historicWorldRank :: "int option"
  mg_historicRankCheckedAt :: "rankCheck option"
  mg_collectedAt :: int
  mg_parsesReadAt :: "int option"

record mergedEvidence =
  me_kills :: "mergedKill list"
  me_wipes :: "mythicWipe list"
  me_tierBests :: "storedTierBest list"

subsection \<open>The merge\<close>

type_synonym parsedKill = "mythicKill \<times> performanceValues"

fun try_map :: "('a \<Rightarrow> 'e + 'b) \<Rightarrow> 'a list \<Rightarrow> 'e + 'b list" where
  \<comment> \<open>\<open>map\<close> with a callback that may throw\<close>
  "try_map f [] = Inr []"
| "try_map f (x # xs) =
     (case f x of
        Inl e \<Rightarrow> Inl e
      | Inr y \<Rightarrow> (case try_map f xs of Inl e \<Rightarrow> Inl e | Inr ys \<Rightarrow> Inr (y # ys)))"

definition parseKill :: "mythicKill \<Rightarrow> string + parsedKill" where
  "parseKill kill = (case parsePerformanceValues (mk_performance kill) of Inl e \<Rightarrow> Inl e | Inr p \<Rightarrow> Inr (kill, p))"

definition carriesAll :: "publishInput \<Rightarrow> bool \<Rightarrow> bool" where
  "carriesAll input targeted \<longleftrightarrow> in_state input = Publish_partial \<or> targeted"

definition previousKills :: "storedEvidence \<Rightarrow> publishInput \<Rightarrow> bool \<Rightarrow> mythicKill list" where
  "previousKills stored input targeted =
     (if carriesAll input targeted then se_kills stored
      else map snd (map_from (map (\<lambda>kill. (mk_fightUrl kill, kill))
             (se_tierSearchKills stored @ filter (\<lambda>kill. mk_raidId kill \<in> set (se_terminalKillRaidIds stored)) (se_kills stored)))))"

definition previousWipes :: "storedEvidence \<Rightarrow> publishInput \<Rightarrow> bool \<Rightarrow> mythicWipe list" where
  "previousWipes stored input targeted =
     (if carriesAll input targeted then se_wipes stored
      else filter (\<lambda>wipe. mw_raidId wipe \<in> set (se_terminalKillRaidIds stored)) (se_wipes stored))"

definition incomingFightUrls :: "publishInput \<Rightarrow> string list" where
  "incomingFightUrls input = map mk_fightUrl (in_kills input)"

definition parsedFightUrls :: "publishInput \<Rightarrow> bool \<Rightarrow> string list" where
  "parsedFightUrls input targeted =
     filter (\<lambda>url. \<not> targeted \<or> url \<in> set (incomingFightUrls input))
       (case in_parsedFightUrls input of None \<Rightarrow> [] | Some urls \<Rightarrow> urls)"

definition mergeKill ::
    "(string, performanceValues) jsmap \<Rightarrow> (string, parsedKill) jsmap \<Rightarrow> parsedKill \<Rightarrow> (string, parsedKill) jsmap" where
  "mergeKill performanceByFightUrl kills = (\<lambda>(kill, performance).
     let url = mk_fightUrl kill;
         storedPerformance =
           (case map_get kills url of Some (_, p) \<Rightarrow> Some p | None \<Rightarrow> map_get performanceByFightUrl url)
     in map_set url
          (kill, case storedPerformance of None \<Rightarrow> performance | Some p \<Rightarrow> mergePerformanceValues p performance) kills)"

definition tierBestKey :: "tierBestParse \<Rightarrow> string" where
  "tierBestKey t = tb_raidId t @ CHR 0x00 # tb_bossId t"

fun mergeTierBests ::
    "int \<Rightarrow> tierBestParse list \<Rightarrow> (string, storedTierBest) jsmap \<Rightarrow> string + (string, storedTierBest) jsmap" where
  "mergeTierBests completedAt [] tierBests = Inr tierBests"
| "mergeTierBests completedAt (t # ts) tierBests =
     (case parsePerformanceValues (tb_performance t) of
        Inl e \<Rightarrow> Inl e
      | Inr performance \<Rightarrow>
          mergeTierBests completedAt ts
            (map_set (tierBestKey t)
               \<lparr>st_tierBest = t,
                st_performance =
                  (case map_get tierBests (tierBestKey t) of
                     None \<Rightarrow> performance | Some s \<Rightarrow> mergePerformanceValues (st_performance s) performance),
                st_collectedAt = completedAt\<rparr> tierBests))"

definition publishKill :: "storedEvidence \<Rightarrow> publishInput \<Rightarrow> bool \<Rightarrow> parsedKill \<Rightarrow> mergedKill" where
  \<comment> \<open>the row of one kill\<close>
  "publishKill stored input targeted = (\<lambda>(kill, performance).
     let url = mk_fightUrl kill;
         historicRank = map_get (se_historicRankByFightUrl stored) url
     in \<lparr>mg_kill = kill, mg_performance = performance,
         mg_historicWorldRank =
           (case mk_historicWorldRank kill of Some r \<Rightarrow> Some r | None \<Rightarrow> Option.bind historicRank hr_worldRank),
         mg_historicRankCheckedAt =
           (case mk_historicRankCheckedAt kill of
              Some t \<Rightarrow> Some (Check_text t)
            | None \<Rightarrow> map_option Check_date (Option.bind historicRank hr_checkedAt)),
         mg_collectedAt =
           (if url \<in> set (incomingFightUrls input) then in_completedAt input
            else case map_get (se_collectedAtByFightUrl stored) url of Some t \<Rightarrow> t | None \<Rightarrow> in_completedAt input),
         mg_parsesReadAt =
           (if url \<in> set (parsedFightUrls input targeted) then Some (in_completedAt input)
            else map_get (se_parsesReadAtByFightUrl stored) url)\<rparr>)"

definition mergePublishedEvidence :: "storedEvidence \<Rightarrow> publishInput \<Rightarrow> bool \<Rightarrow> string + mergedEvidence" where
  "mergePublishedEvidence stored input targeted =
     (case try_map parseKill (in_kills input) of
        Inl e \<Rightarrow> Inl e
      | Inr incomingKills \<Rightarrow>
          (case try_map parseKill (previousKills stored input targeted) of
             Inl e \<Rightarrow> Inl e
           | Inr previous \<Rightarrow>
               (let kills = foldl (mergeKill (se_performanceByFightUrl stored))
                      (map_from (map (\<lambda>kill. (mk_fightUrl (fst kill), kill)) previous)) incomingKills;
                    wipes = map_from (map (\<lambda>wipe. (mw_fightUrl wipe, wipe)) (previousWipes stored input targeted @ in_wipes input))
                in case mergeTierBests (in_completedAt input) (in_tierBests input) (se_tierBests stored) of
                     Inl e \<Rightarrow> Inl e
                   | Inr tierBests \<Rightarrow>
                       Inr \<lparr>me_kills = map (publishKill stored input targeted) (map snd kills),
                            me_wipes = map snd wipes, me_tierBests = map snd tierBests\<rparr>)))"

subsection \<open>Raider.IO first kills\<close>

datatype encounterState = Encounter_read | Encounter_unavailable

record raiderIoFirstKill =
  rf_raidSlug :: string
  rf_bossSlug :: string
  rf_killedAt :: string
  rf_guild :: "fightGuild option"
  rf_loggedEncounterId :: "nat option"
  rf_encounterState :: encounterState
  rf_encounterLimitationCode :: "string option"
  rf_historicWorldRank :: "int option"
  rf_historicRankCheckedAt :: "string option"
  rf_presenceChecked :: "bool option"

record firstKillsPublication =
  fp_kills :: "raiderIoFirstKill list"
  fp_askedRaidSlugs :: "string list"
  fp_limitationCode :: "string option"

definition firstKillKey :: "raiderIoFirstKill \<Rightarrow> string" where
  "firstKillKey kill = rf_raidSlug kill @ CHR 0x00 # rf_bossSlug kill"

definition keepsRead :: "raiderIoFirstKill \<Rightarrow> raiderIoFirstKill \<Rightarrow> bool" where
  \<comment> \<open>\<open>keepRead\<close>\<close>
  "keepsRead previous incoming \<longleftrightarrow>
     rf_encounterState previous = Encounter_read \<and> rf_encounterState incoming \<noteq> Encounter_read \<and>
     (rf_loggedEncounterId incoming = None \<or> rf_loggedEncounterId previous = rf_loggedEncounterId incoming)"

definition mergeFirstKill :: "raiderIoFirstKill \<Rightarrow> raiderIoFirstKill \<Rightarrow> raiderIoFirstKill" where
  "mergeFirstKill previous incoming =
     (let rank = (if rf_historicRankCheckedAt incoming \<noteq> None then incoming else previous);
          kept = (if keepsRead previous incoming
                  then incoming\<lparr>rf_killedAt := rf_killedAt previous, rf_loggedEncounterId := rf_loggedEncounterId previous,
                                rf_encounterState := Encounter_read, rf_encounterLimitationCode := None,
                                rf_presenceChecked := Some (rf_presenceChecked previous = Some True)\<rparr>
                  else incoming)
      in kept\<lparr>rf_historicWorldRank := rf_historicWorldRank rank, rf_historicRankCheckedAt := rf_historicRankCheckedAt rank\<rparr>)"

definition compareFirstKills :: "js_env \<Rightarrow> raiderIoFirstKill \<Rightarrow> raiderIoFirstKill \<Rightarrow> int" where
  "compareFirstKills E a b =
     or_else (localeCompare E (rf_killedAt a) (rf_killedAt b)) (localeCompare E (firstKillKey a) (firstKillKey b))"

definition firstKillCarried :: "firstKillsPublication option \<Rightarrow> publishState \<Rightarrow> bool \<Rightarrow> raiderIoFirstKill \<Rightarrow> bool" where
  "firstKillCarried input state targeted kill \<longleftrightarrow>
     targeted \<or> state = Publish_partial \<or>
     (case input of None \<Rightarrow> True | Some publication \<Rightarrow> rf_raidSlug kill \<notin> set (fp_askedRaidSlugs publication))"

definition mergeRaiderIoFirstKills ::
    "js_env \<Rightarrow> raiderIoFirstKill list \<Rightarrow> firstKillsPublication option \<Rightarrow> publishState \<Rightarrow> bool \<Rightarrow> raiderIoFirstKill list" where
  "mergeRaiderIoFirstKills E stored input state targeted =
     (let carried = foldl (\<lambda>merged kill. map_set (firstKillKey kill) kill merged) []
            (filter (firstKillCarried input state targeted) stored);
          previous = map_from (map (\<lambda>kill. (firstKillKey kill, kill)) stored);
          merged = (case input of
              None \<Rightarrow> carried
            | Some publication \<Rightarrow>
                if targeted then carried
                else foldl (\<lambda>merged kill. map_set (firstKillKey kill)
                       (case map_get previous (firstKillKey kill) of None \<Rightarrow> kill | Some before \<Rightarrow> mergeFirstKill before kill) merged)
                     carried (fp_kills publication))
      in sort_by (compareFirstKills E) (map snd merged))"

subsection \<open>Freshness\<close>

definition isEvidenceFresh :: "int \<Rightarrow> int option \<Rightarrow> int \<Rightarrow> int \<Rightarrow> bool" where
  "isEvidenceFresh completedAt retryAfterAt freshnessCutoff t \<longleftrightarrow>
     completedAt \<ge> freshnessCutoff \<and> (case retryAfterAt of None \<Rightarrow> True | Some retry \<Rightarrow> retry > t)"

subsection \<open>What the readings of a fight settle\<close>

text \<open>
  Said of all the readings of one fight, from the oldest to the newest: a percentile is the latest that
  was available, and where none was, the latest answer; the spec is the latest that was known.
\<close>

definition settledMetric :: "metricValues list \<Rightarrow> metricValues" where
  "settledMetric readings =
     (let read = filter (\<lambda>m. mv_state m = Available) readings in if read = [] then last readings else last read)"

definition settledSpec :: "jsval option list \<Rightarrow> jsval option" where
  "settledSpec readings = (let known = filter (\<lambda>s. s \<noteq> None) readings in if known = [] then None else last known)"

definition settledParses :: "performanceValues list \<Rightarrow> performanceValues \<Rightarrow> bool" where
  "settledParses readings p \<longleftrightarrow> readings \<noteq> [] \<and>
     p = \<lparr>pv_spec = settledSpec (map pv_spec readings), pv_damage = settledMetric (map pv_damage readings),
          pv_healing = settledMetric (map pv_healing readings), pv_bossDamage = settledMetric (map pv_bossDamage readings)\<rparr>"

lemma settledMetric_snoc:
  "readings \<noteq> [] \<Longrightarrow> mergeParseMetric (settledMetric readings) m = settledMetric (readings @ [m])"
proof (cases "filter (\<lambda>m. mv_state m = Available) readings = []")
  case False
  then have "mv_state (last (filter (\<lambda>m. mv_state m = Available) readings)) = Available"
    by (metis (mono_tags, lifting) last_in_set mem_Collect_eq set_filter)
  with False show ?thesis by (simp add: settledMetric_def mergeParseMetric_def Let_def)
next
  case True
  assume "readings \<noteq> []"
  then have "mv_state (last readings) \<noteq> Available" using True by (simp add: filter_empty_conv)
  with True show ?thesis by (simp add: settledMetric_def mergeParseMetric_def Let_def)
qed

lemma settledSpec_snoc:
  "settledSpec (readings @ [s]) = (if s = None then settledSpec readings else s)"
  by (cases s) (simp_all add: settledSpec_def Let_def)

definition mergeReading :: "performanceValues option \<Rightarrow> performanceValues \<Rightarrow> performanceValues option" where
  "mergeReading before p = Some (case before of None \<Rightarrow> p | Some q \<Rightarrow> mergePerformanceValues q p)"

definition readingsSettled :: "performanceValues list \<Rightarrow> performanceValues option \<Rightarrow> bool" where
  "readingsSettled readings p \<longleftrightarrow> (case p of None \<Rightarrow> readings = [] | Some p \<Rightarrow> settledParses readings p)"

lemma settledParses_single: "settledParses [p] p"
  by (simp add: settledParses_def settledMetric_def settledSpec_def Let_def)

lemma readingsSettled_one: "readingsSettled (case p of None \<Rightarrow> [] | Some q \<Rightarrow> [q]) p"
  by (simp add: readingsSettled_def settledParses_single split: option.split)

lemma readingsSettled_snoc:
  assumes "readingsSettled readings p"
  shows "readingsSettled (readings @ [q]) (mergeReading p q)"
proof (cases p)
  case None
  then show ?thesis using assms by (simp add: readingsSettled_def mergeReading_def settledParses_single)
next
  case (Some p1)
  then have "readings \<noteq> []" "pv_spec p1 = settledSpec (map pv_spec readings)" "pv_damage p1 = settledMetric (map pv_damage readings)"
    "pv_healing p1 = settledMetric (map pv_healing readings)" "pv_bossDamage p1 = settledMetric (map pv_bossDamage readings)"
    using assms by (auto simp: readingsSettled_def settledParses_def)
  then show ?thesis
    using Some by (cases "pv_spec q") (simp_all add: readingsSettled_def mergeReading_def settledParses_def mergePerformanceValues_def settledMetric_snoc settledSpec_snoc)
qed

lemma readingsSettled_foldl:
  "readingsSettled readings p \<Longrightarrow> readingsSettled (readings @ qs) (foldl mergeReading p qs)"
proof (induction qs arbitrary: readings p)
  case (Cons q qs)
  from Cons.IH [OF readingsSettled_snoc [OF Cons.prems, of q]] show ?case by simp
qed simp

lemma try_map_list: "try_map f xs = Inr ys \<Longrightarrow> list_all2 (\<lambda>x y. f x = Inr y) xs ys"
  by (induction xs arbitrary: ys) (auto split: sum.splits)

lemma parseKill_Inr: "parseKill kill = Inr r \<longleftrightarrow> (\<exists>p. r = (kill, p) \<and> parsePerformanceValues (mk_performance kill) = Inr p)"
  by (auto simp: parseKill_def split: sum.splits)

lemma try_map_parseKill:
  assumes "try_map parseKill kills = Inr parsed"
  shows "map fst parsed = kills" "(kill, p) \<in> set parsed \<Longrightarrow> parsePerformanceValues (mk_performance kill) = Inr p"
proof -
  note all = try_map_list [OF assms]
  show "map fst parsed = kills" using all by (induction rule: list_all2_induct) (auto simp: parseKill_Inr)
  show "parsePerformanceValues (mk_performance kill) = Inr p" if "(kill, p) \<in> set parsed"
    using all that by (induction rule: list_all2_induct) (auto simp: parseKill_Inr)
qed

subsubsection \<open>The map of kills\<close>

definition keyedKills :: "(string, parsedKill) jsmap \<Rightarrow> bool" where
  "keyedKills m \<longleftrightarrow> distinct (map fst m) \<and> (\<forall>url kill p. map_get m url = Some (kill, p) \<longrightarrow> mk_fightUrl kill = url)"

lemma keyedKills_mergeKill: "keyedKills m \<Longrightarrow> keyedKills (mergeKill parses m r)"
  by (cases r) (auto simp: keyedKills_def mergeKill_def Let_def distinct_update update_conv' split: if_splits)

text \<open>What a fold over the incoming kills leaves under a fight, from what was under it before.\<close>

lemma foldl_mergeKill:
  "(\<exists>r \<in> set incoming. mk_fightUrl (fst r) = url) \<or> map_get m url \<noteq> None \<longleftrightarrow>
     map_get (foldl (mergeKill parses) m incoming) url \<noteq> None"
  "\<forall>r \<in> set incoming. mk_fightUrl (fst r) \<noteq> url \<Longrightarrow> map_get (foldl (mergeKill parses) m incoming) url = map_get m url"
  "map_get (foldl (mergeKill parses) m incoming) url = Some (kill, p) \<Longrightarrow>
     kill \<in> fst ` set incoming \<or> map_get m url = Some (kill, p)"
proof (induction incoming arbitrary: m)
  case (Cons r incoming)
  {
    case 1
    show ?case using Cons.IH(1) [of "mergeKill parses m r"] by (cases r) (auto simp: mergeKill_def Let_def update_conv' split: if_splits)
  next
    case 2
    then show ?case using Cons.IH(2) [of "mergeKill parses m r"] by (cases r) (auto simp: mergeKill_def Let_def update_conv')
  next
    case 3
    then show ?case using Cons.IH(3) [of "mergeKill parses m r"]
      by (cases r) (auto simp: mergeKill_def Let_def update_conv' split: if_splits)
  }
qed auto

lemma found_kill:
  "map_get (foldl (mergeKill parses) m incoming) url = Some (kill, p) \<Longrightarrow>
   \<exists>r \<in> set incoming. mk_fightUrl (fst r) = url \<Longrightarrow> kill \<in> fst ` set incoming"
proof (induction incoming arbitrary: m)
  case (Cons r incoming)
  show ?case
  proof (cases "\<exists>r \<in> set incoming. mk_fightUrl (fst r) = url")
    case True
    then show ?thesis using Cons.IH [of "mergeKill parses m r"] Cons.prems(1) by simp
  next
    case False
    then have "map_get (mergeKill parses m r) url = Some (kill, p)"
      using Cons.prems(1) foldl_mergeKill(2) [of incoming url parses "mergeKill parses m r"] by simp
    moreover have "mk_fightUrl (fst r) = url" using Cons.prems(2) False by simp
    ultimately show ?thesis by (cases r) (simp add: mergeKill_def Let_def update_conv')
  qed
qed simp

definition parsesUnder :: "(string, performanceValues) jsmap \<Rightarrow> (string, parsedKill) jsmap \<Rightarrow> string \<Rightarrow> performanceValues option" where
  "parsesUnder parses m url = (case map_get m url of Some (_, p) \<Rightarrow> Some p | None \<Rightarrow> map_get parses url)"

lemma parsesUnder_mergeKill:
  "parsesUnder parses (mergeKill parses m (k, p)) url =
     (if url = mk_fightUrl k
      then Some (case parsesUnder parses m url of None \<Rightarrow> p | Some o1 \<Rightarrow> mergePerformanceValues o1 p)
      else parsesUnder parses m url)"
  by (simp add: parsesUnder_def mergeKill_def Let_def update_conv')

lemma parsesUnder_foldl:
  "parsesUnder parses (foldl (mergeKill parses) m incoming) url =
     foldl mergeReading (parsesUnder parses m url) (map snd (filter (\<lambda>r. mk_fightUrl (fst r) = url) incoming))"
proof (induction incoming arbitrary: m)
  case (Cons r incoming)
  then show ?case by (cases r) (simp add: parsesUnder_mergeKill mergeReading_def)
qed simp

subsubsection \<open>Tier bests\<close>

definition bestsUnder :: "string \<Rightarrow> tierBestParse list \<Rightarrow> tierBestParse list" where
  "bestsUnder key ts = filter (\<lambda>t. tierBestKey t = key) ts"

definition readParses :: "jsval list \<Rightarrow> performanceValues list" where
  "readParses = List.map_filter (\<lambda>performance. case parsePerformanceValues performance of Inl _ \<Rightarrow> None | Inr p \<Rightarrow> Some p)"

lemma readParses_simps [simp]:
  "readParses [] = []"
  "parsePerformanceValues v = Inr p \<Longrightarrow> readParses (v # vs) = p # readParses vs"
  by (simp_all add: readParses_def map_filter_simps)

lemma mergeTierBests_keys:
  "mergeTierBests completedAt ts m = Inr m' \<Longrightarrow> distinct (map fst m) \<Longrightarrow>
   distinct (map fst m') \<and> fst ` set m' = fst ` set m \<union> tierBestKey ` set ts"
proof (induction completedAt ts m rule: mergeTierBests.induct)
  case (2 completedAt t ts m)
  have "fst ` set (map_set key v m) = insert key (fst ` set m)" for key and v :: storedTierBest by (induction m) auto
  with 2 show ?case by (auto simp: distinct_update split: sum.splits)
qed simp

lemma mergeTierBests_row:
  assumes "mergeTierBests completedAt ts m = Inr m'"
  shows "bestsUnder key ts = [] \<Longrightarrow> map_get m' key = map_get m key"
    and "bestsUnder key ts \<noteq> [] \<Longrightarrow> \<exists>s. map_get m' key = Some s \<and> st_tierBest s = last (bestsUnder key ts) \<and>
      st_collectedAt s = completedAt \<and>
      Some (st_performance s) = foldl mergeReading (map_option st_performance (map_get m key)) (readParses (map tb_performance (bestsUnder key ts)))"
  using assms
proof (induction completedAt ts m rule: mergeTierBests.induct)
  case (2 completedAt t ts m)
  let ?row = "\<lambda>performance. \<lparr>st_tierBest = t, st_performance =
      (case map_get m (tierBestKey t) of None \<Rightarrow> performance | Some s \<Rightarrow> mergePerformanceValues (st_performance s) performance),
      st_collectedAt = completedAt\<rparr>"
  have parsed: "\<exists>performance. parsePerformanceValues (tb_performance t) = Inr performance \<and>
      mergeTierBests completedAt ts (map_set (tierBestKey t) (?row performance) m) = Inr m'"
    if "mergeTierBests completedAt (t # ts) m = Inr m'" using that by (auto split: sum.splits)
  {
    case 1
    then obtain performance where p: "parsePerformanceValues (tb_performance t) = Inr performance"
      "mergeTierBests completedAt ts (map_set (tierBestKey t) (?row performance) m) = Inr m'" using parsed by blast
    have "bestsUnder key ts = []" "tierBestKey t \<noteq> key" using 1(1) by (auto simp: bestsUnder_def split: if_splits)
    then show ?case using 2(1) [OF p(1) _ p(2)] by (simp add: update_conv')
  next
    case 2
    then obtain performance where p: "parsePerformanceValues (tb_performance t) = Inr performance"
      "mergeTierBests completedAt ts (map_set (tierBestKey t) (?row performance) m) = Inr m'" using parsed by blast
    show ?case
    proof (cases "tierBestKey t = key")
      case False
      then have "bestsUnder key (t # ts) = bestsUnder key ts" by (simp add: bestsUnder_def)
      then show ?thesis using 2(1) \<open>tierBestKey t \<noteq> key\<close> "2.IH"(2) [OF p(1) _ p(2)] by (simp add: update_conv')
    next
      case True
      then have u: "bestsUnder key (t # ts) = t # bestsUnder key ts" by (simp add: bestsUnder_def)
      have here: "map_get (map_set (tierBestKey t) (?row performance) m) key = Some (?row performance)"
        using True by (simp add: update_conv')
      have merged: "mergeReading (map_option st_performance (map_get m key)) performance = Some (st_performance (?row performance))"
        using True by (cases "map_get m key") (simp_all add: mergeReading_def)
      show ?thesis
      proof (cases "bestsUnder key ts = []")
        case True
        from "2.IH"(1) [OF p(1) True p(2)] have "map_get m' key = Some (?row performance)" using here by simp
        then show ?thesis using True p(1) merged by (simp add: u)
      next
        case False
        from "2.IH"(2) [OF p(1) False p(2)] show ?thesis unfolding here u using False p(1) merged by simp
      qed
    qed
  }
qed (simp_all add: bestsUnder_def)

subsubsection \<open>The rows of a publication\<close>

definition storedParses :: "storedEvidence \<Rightarrow> publishInput \<Rightarrow> bool \<Rightarrow> string \<Rightarrow> performanceValues option" where
  \<comment> \<open>what was known of a fight: of the kill carried forward, else of any stored kill\<close>
  "storedParses stored input targeted url =
     (case map_get (map_from (map (\<lambda>k. (mk_fightUrl k, mk_performance k)) (previousKills stored input targeted))) url of
        Some performance \<Rightarrow> (case parsePerformanceValues performance of Inl _ \<Rightarrow> None | Inr p \<Rightarrow> Some p)
      | None \<Rightarrow> map_get (se_performanceByFightUrl stored) url)"

lemma map_of_map_images: "map_of (map (\<lambda>x. (f x, g x)) xs) k = map_option g (map_of (map (\<lambda>x. (f x, x)) xs) k)"
  by (induction xs) auto

definition previousMap :: "parsedKill list \<Rightarrow> (string, parsedKill) jsmap" where
  "previousMap previous = map_from (map (\<lambda>kill. (mk_fightUrl (fst kill), kill)) previous)"

lemma previousMap_entry:
  "map_get (previousMap previous) url = Some (kill, p) \<Longrightarrow> (kill, p) \<in> set previous \<and> mk_fightUrl kill = url"
  using map_from_entry [of "map (\<lambda>kill. (mk_fightUrl (fst kill), kill)) previous" url "(kill, p)"]
  unfolding previousMap_def by auto

lemma previousMap_None: "map_get (previousMap previous) url = None \<longleftrightarrow> (\<forall>kill \<in> fst ` set previous. mk_fightUrl kill \<noteq> url)"
  unfolding previousMap_def map_of_map_from by (force simp: map_of_eq_None_iff)

lemma previousMap_keyed: "keyedKills (previousMap previous)"
  using previousMap_entry unfolding keyedKills_def by (auto simp: previousMap_def)

lemma parsesUnder_stored:
  assumes "try_map parseKill (previousKills stored input targeted) = Inr previous"
  shows "parsesUnder (se_performanceByFightUrl stored) (previousMap previous) url = storedParses stored input targeted url"
proof -
  have kills: "previousKills stored input targeted = map fst previous" using try_map_parseKill(1) [OF assms] by simp
  have "map_get (map_from (map (\<lambda>k. (mk_fightUrl k, mk_performance k)) (previousKills stored input targeted))) url =
      map_option (\<lambda>(kill, p). mk_performance kill) (map_get (previousMap previous) url)"
    unfolding kills previousMap_def map_of_map_from rev_map map_map comp_def
    by (subst map_of_map_images) (simp add: case_prod_beta')
  then show ?thesis
    using try_map_parseKill(2) [OF assms] previousMap_entry [of previous url]
    by (fastforce simp: storedParses_def parsesUnder_def split: option.split)
qed

text \<open>A publication that does not throw, taken apart.\<close>

lemma mergePublishedEvidenceE:
  assumes "mergePublishedEvidence stored input targeted = Inr merged"
  obtains incoming previous kills tierBests where
    "try_map parseKill (in_kills input) = Inr incoming" "try_map parseKill (previousKills stored input targeted) = Inr previous"
    "kills = foldl (mergeKill (se_performanceByFightUrl stored)) (previousMap previous) incoming"
    "mergeTierBests (in_completedAt input) (in_tierBests input) (se_tierBests stored) = Inr tierBests"
    "me_kills merged = map (publishKill stored input targeted) (map snd kills)" "me_tierBests merged = map snd tierBests"
    "me_wipes merged = map snd (map_from (map (\<lambda>wipe. (mw_fightUrl wipe, wipe)) (previousWipes stored input targeted @ in_wipes input)))"
  using assms unfolding mergePublishedEvidence_def previousMap_def
  by (auto simp: Let_def split: sum.splits)

lemma keyedKills_foldl: "keyedKills m \<Longrightarrow> keyedKills (foldl (mergeKill parses) m incoming)"
  by (induction incoming arbitrary: m) (simp_all add: keyedKills_mergeKill)

lemma keyedKills_urls: "keyedKills m \<Longrightarrow> (url, kill, p) \<in> set m \<Longrightarrow> mk_fightUrl kill = url \<and> map_get m url = Some (kill, p)"
  unfolding keyedKills_def by (metis map_of_eq_Some_iff)

definition rowUrl :: "mergedKill \<Rightarrow> string" where
  "rowUrl row = mk_fightUrl (mg_kill row)"

lemma publishKill_row:
  "mg_kill (publishKill stored input targeted (kill, p)) = kill"
  "mg_performance (publishKill stored input targeted (kill, p)) = p"
  "rowUrl (publishKill stored input targeted (kill, p)) = mk_fightUrl kill"
  by (simp_all add: publishKill_def Let_def rowUrl_def)

definition foundParses :: "publishInput \<Rightarrow> string \<Rightarrow> performanceValues list" where
  \<comment> \<open>what the run read of a fight, in the order it lists its kills\<close>
  "foundParses input url = readParses (map mk_performance (filter (\<lambda>kill. mk_fightUrl kill = url) (in_kills input)))"

definition rowParsed :: "storedEvidence \<Rightarrow> publishInput \<Rightarrow> bool \<Rightarrow> mergedKill \<Rightarrow> bool" where
  \<comment> \<open>the parses of a row are those its readings settle: what was stored of its fight, then what the run read of it\<close>
  "rowParsed stored input targeted row \<longleftrightarrow>
     settledParses
       ((case storedParses stored input targeted (rowUrl row) of None \<Rightarrow> [] | Some p \<Rightarrow> [p]) @ foundParses input (rowUrl row))
       (mg_performance row)"

definition tierBestWritten :: "storedEvidence \<Rightarrow> publishInput \<Rightarrow> string \<Rightarrow> storedTierBest \<Rightarrow> bool" where
  \<comment> \<open>a tier best not read is the stored one; one that was read is the run's, with the parses its readings settle\<close>
  "tierBestWritten stored input key s \<longleftrightarrow>
     (let found = bestsUnder key (in_tierBests input)
      in if found = [] then map_get (se_tierBests stored) key = Some s
         else st_tierBest s = last found \<and> st_collectedAt s = in_completedAt input \<and>
           settledParses
             ((case map_get (se_tierBests stored) key of None \<Rightarrow> [] | Some before \<Rightarrow> [st_performance before]) @
              readParses (map tb_performance found))
             (st_performance s))"

definition tierBestsWritten :: "storedEvidence \<Rightarrow> publishInput \<Rightarrow> storedTierBest list \<Rightarrow> bool" where
  \<comment> \<open>one row for each tier best stored and each the run read\<close>
  "tierBestsWritten stored input tierBests \<longleftrightarrow>
     (\<exists>keys. distinct keys \<and> set keys = fst ` set (se_tierBests stored) \<union> tierBestKey ` set (in_tierBests input) \<and>
        list_all2 (tierBestWritten stored input) keys tierBests)"

lemma foundParses_incoming:
  assumes "try_map parseKill (in_kills input) = Inr incoming"
  shows "foundParses input url = map snd (filter (\<lambda>r. mk_fightUrl (fst r) = url) incoming)"
proof -
  have "readParses (map mk_performance (filter (\<lambda>kill. mk_fightUrl kill = url) kills)) =
      map snd (filter (\<lambda>r. mk_fightUrl (fst r) = url) parsed)"
    if "list_all2 (\<lambda>x y. parseKill x = Inr y) kills parsed" for kills parsed
    using that by (induction rule: list_all2_induct) (auto simp: parseKill_Inr)
  from this [OF try_map_list [OF assms]] show ?thesis by (simp add: foundParses_def)
qed

text \<open>What a reading takes from the value it was given.\<close>

definition readsMetric :: "jsval \<Rightarrow> metricValues \<Rightarrow> bool" where
  "readsMetric v m \<longleftrightarrow>
     (case mv_state m of
        Available \<Rightarrow> \<exists>p. 0 \<le> p \<and> p \<le> 100 \<and> mv_percentile m = Some p \<and>
          get_prop ''state'' v = JString ''available'' \<and> get_prop ''percentile'' v = JNumber (Finite p)
      | Not_applicable \<Rightarrow> mv_percentile m = None \<and> get_prop ''state'' v = JString ''not_applicable''
      | Unavailable \<Rightarrow> mv_percentile m = None \<and> get_prop ''state'' v = JString ''unavailable'')"

definition readsParses :: "jsval \<Rightarrow> performanceValues \<Rightarrow> bool" where
  "readsParses v p \<longleftrightarrow>
     readsMetric (get_prop ''damage'' v) (pv_damage p) \<and> readsMetric (get_prop ''healing'' v) (pv_healing p) \<and>
     readsMetric (get_prop ''bossDamage'' v) (pv_bossDamage p) \<and>
     pv_spec p \<in> {None, Some (get_prop ''spec'' v)} \<and>
     (pv_spec p = None \<longleftrightarrow> \<not> (truthy (get_prop ''spec'' v) \<and>
        is_string (get_prop ''name'' (get_prop ''spec'' v)) \<and> is_string (get_prop ''iconUrl'' (get_prop ''spec'' v))))"

lemma parseMetricValues_reads: "parseMetricValues v = Inr m \<Longrightarrow> readsMetric v m"
  by (auto simp: parseMetricValues_def readsMetric_def split: if_splits jsval.splits jsnum.splits)

lemma parsePerformanceValues_reads: "parsePerformanceValues v = Inr p \<Longrightarrow> readsParses v p"
  using parseMetricValues_reads by (auto simp: parsePerformanceValues_def readsParses_def Let_def split: if_splits sum.splits)

definition parsedAs :: "jsval \<Rightarrow> bool" where
  \<comment> \<open>the parse of the value succeeds and says what the value says\<close>
  "parsedAs v \<longleftrightarrow> (\<exists>p. parsePerformanceValues v = Inr p \<and> readsParses v p)"

lemma parsed_incoming:
  assumes "try_map parseKill kills = Inr parsed"
  shows "list_all parsedAs (map mk_performance kills)"
  using try_map_list [OF assms]
  by (induction rule: list_all2_induct) (auto simp: parseKill_Inr parsedAs_def parsePerformanceValues_reads)

lemma parsed_tierBests: "mergeTierBests completedAt ts m = Inr m' \<Longrightarrow> list_all parsedAs (map tb_performance ts)"
  by (induction completedAt ts m rule: mergeTierBests.induct)
    (auto simp: parsedAs_def parsePerformanceValues_reads split: sum.splits)

text \<open>
  C28. Publishing never worsens what was read. Every kill written has the latest percentile of each
  metric, and the latest spec, that was read of its fight, stored or by this run, and no other. Every stored
  tier best is still written, unchanged with its own time unless the run read it, and then as the best
  the readings settle; nothing else is written but what the run read. What the run read of a kill or a tier best
  is what the provider's value says.
\<close>

theorem merge_never_worsens:
  assumes "mergePublishedEvidence stored input targeted = Inr merged" and "distinct (map fst (se_tierBests stored))"
  shows "list_all (rowParsed stored input targeted) (me_kills merged) \<and> tierBestsWritten stored input (me_tierBests merged) \<and>
    list_all parsedAs (map mk_performance (in_kills input) @ map tb_performance (in_tierBests input))"
proof -
  obtain incoming previous kills tierBests where m:
    "try_map parseKill (in_kills input) = Inr incoming" "try_map parseKill (previousKills stored input targeted) = Inr previous"
    "kills = foldl (mergeKill (se_performanceByFightUrl stored)) (previousMap previous) incoming"
    "mergeTierBests (in_completedAt input) (in_tierBests input) (se_tierBests stored) = Inr tierBests"
    "me_kills merged = map (publishKill stored input targeted) (map snd kills)" "me_tierBests merged = map snd tierBests"
    by (rule mergePublishedEvidenceE [OF assms(1)]) (rule that)
  have keyed: "keyedKills kills" unfolding m(3) by (rule keyedKills_foldl [OF previousMap_keyed])
  have "rowParsed stored input targeted (publishKill stored input targeted (kill, p))" if "(url, kill, p) \<in> set kills" for url kill p
  proof -
    have u: "mk_fightUrl kill = url" "map_get kills url = Some (kill, p)" using keyedKills_urls [OF keyed that] by blast+
    then have "Some p = foldl mergeReading (storedParses stored input targeted url) (foundParses input url)"
      using parsesUnder_foldl [of "se_performanceByFightUrl stored" "previousMap previous" incoming url]
      unfolding parsesUnder_stored [OF m(2)] foundParses_incoming [OF m(1)] m(3) [symmetric] by (simp add: parsesUnder_def)
    then show ?thesis
      using readingsSettled_foldl [OF readingsSettled_one, of "storedParses stored input targeted url" "foundParses input url"] u(1)
      unfolding rowParsed_def publishKill_row by (metis (no_types, lifting) option.simps(5) readingsSettled_def)
  qed
  then have "list_all (rowParsed stored input targeted) (me_kills merged)" unfolding m(5) by (auto simp: list_all_iff)
  moreover have "tierBestsWritten stored input (me_tierBests merged)"
    unfolding tierBestsWritten_def
  proof (intro exI conjI)
    note keys = mergeTierBests_keys [OF m(4) assms(2)]
    show "distinct (map fst tierBests)" using keys by blast
    show "set (map fst tierBests) = fst ` set (se_tierBests stored) \<union> tierBestKey ` set (in_tierBests input)" using keys by simp
    have "tierBestWritten stored input key s" if "(key, s) \<in> set tierBests" for key s
    proof (cases "bestsUnder key (in_tierBests input) = []")
      case True
      then show ?thesis using mergeTierBests_row(1) [OF m(4) True] that keys by (simp add: tierBestWritten_def Let_def)
    next
      case False
      let ?before = "map_option st_performance (map_get (se_tierBests stored) key)"
      have before: "(case ?before of None \<Rightarrow> [] | Some q \<Rightarrow> [q]) =
          (case map_get (se_tierBests stored) key of None \<Rightarrow> [] | Some before \<Rightarrow> [st_performance before])"
        by (simp split: option.split)
      have "map_get tierBests key = Some s" using that keys by simp
      then have s: "st_tierBest s = last (bestsUnder key (in_tierBests input))" "st_collectedAt s = in_completedAt input"
        "Some (st_performance s) = foldl mergeReading ?before (readParses (map tb_performance (bestsUnder key (in_tierBests input))))"
        using mergeTierBests_row(2) [OF m(4) False] by auto
      from readingsSettled_foldl [OF readingsSettled_one, of ?before "readParses (map tb_performance (bestsUnder key (in_tierBests input)))"]
      show ?thesis using False s(1,2) unfolding before s(3) [symmetric] by (simp add: tierBestWritten_def readingsSettled_def)
    qed
    then show "list_all2 (tierBestWritten stored input) (map fst tierBests) (me_tierBests merged)"
      unfolding m(6) by (auto simp: list_all2_conv_all_nth)
  qed
  moreover have "list_all parsedAs (map mk_performance (in_kills input) @ map tb_performance (in_tierBests input))"
    using parsed_incoming [OF m(1)] parsed_tierBests [OF m(4)] by simp
  ultimately show ?thesis by blast
qed

definition carriedFights :: "storedEvidence \<Rightarrow> publishInput \<Rightarrow> bool \<Rightarrow> string set" where
  \<comment> \<open>a partial or targeted run keeps every stored kill, a complete one those of finished raids and of tier searches\<close>
  "carriedFights stored input targeted =
     mk_fightUrl ` {k \<in> set (se_kills stored). carriesAll input targeted \<or> mk_raidId k \<in> set (se_terminalKillRaidIds stored)} \<union>
     (if carriesAll input targeted then {} else mk_fightUrl ` set (se_tierSearchKills stored))"

definition rowHonest :: "storedEvidence \<Rightarrow> publishInput \<Rightarrow> bool \<Rightarrow> mergedKill \<Rightarrow> bool" where
  \<comment> \<open>whose kill a row is, and the times it claims\<close>
  "rowHonest stored input targeted row \<longleftrightarrow>
     (if rowUrl row \<in> set (incomingFightUrls input)
      then mg_kill row \<in> set (in_kills input) \<and> mg_collectedAt row = in_completedAt input
      else mg_kill row \<in> set (se_kills stored @ se_tierSearchKills stored) \<and>
           mg_collectedAt row =
             (case map_get (se_collectedAtByFightUrl stored) (rowUrl row) of Some t \<Rightarrow> t | None \<Rightarrow> in_completedAt input)) \<and>
     mg_parsesReadAt row =
       (if (\<exists>urls. in_parsedFightUrls input = Some urls \<and> rowUrl row \<in> set urls) \<and>
           (targeted \<longrightarrow> rowUrl row \<in> set (incomingFightUrls input))
        then Some (in_completedAt input)
        else map_get (se_parsesReadAtByFightUrl stored) (rowUrl row))"

lemma parsedFightUrls_iff:
  "url \<in> set (parsedFightUrls input targeted) \<longleftrightarrow>
     (\<exists>urls. in_parsedFightUrls input = Some urls \<and> url \<in> set urls) \<and>
     (targeted \<longrightarrow> url \<in> set (incomingFightUrls input))"
  by (cases "in_parsedFightUrls input") (auto simp: parsedFightUrls_def)

lemma map_from_images: "snd ` set (map_from (map (\<lambda>x. (f x, x)) xs)) \<subseteq> set xs"
  using map_from_entry [of "map (\<lambda>x. (f x, x)) xs"] by (fastforce simp: map_of_eq_Some_iff)

lemma map_from_keys: "fst ` set (map_from entries) = fst ` set entries"
proof -
  have "dom (map_of (map_from entries)) = dom (map_of (rev entries))" by (simp add: map_of_map_from)
  then show ?thesis by (simp add: dom_map_of_conv_image_fst)
qed

lemma map_from_own_keys: "f ` snd ` set (map_from (map (\<lambda>x. (f x, x)) xs)) = f ` set xs"
proof -
  have "f (snd e) = fst e" if "e \<in> set (map_from (map (\<lambda>x. (f x, x)) xs))" for e
    using that map_from_entry [of "map (\<lambda>x. (f x, x)) xs" "fst e" "snd e"] by (auto simp: map_of_eq_Some_iff)
  then have "f ` snd ` set (map_from (map (\<lambda>x. (f x, x)) xs)) = fst ` set (map_from (map (\<lambda>x. (f x, x)) xs))"
    unfolding image_image by (rule image_cong [OF refl])
  then show ?thesis by (simp add: map_from_keys image_image)
qed

lemma previousKills_carried:
  "mk_fightUrl ` set (previousKills stored input targeted) = carriedFights stored input targeted"
  "set (previousKills stored input targeted) \<subseteq> set (se_kills stored @ se_tierSearchKills stored)"
proof -
  let ?xs = "se_tierSearchKills stored @ filter (\<lambda>kill. mk_raidId kill \<in> set (se_terminalKillRaidIds stored)) (se_kills stored)"
  show "mk_fightUrl ` set (previousKills stored input targeted) = carriedFights stored input targeted"
    using map_from_own_keys [of mk_fightUrl ?xs] by (auto simp: previousKills_def carriedFights_def)
  show "set (previousKills stored input targeted) \<subseteq> set (se_kills stored @ se_tierSearchKills stored)"
    using map_from_images [of mk_fightUrl ?xs] by (auto simp: previousKills_def)
qed

text \<open>
  C29. A publication writes one row for each fight the run found and each it carries forward, and no
  other: a partial or targeted run carries every stored kill, a complete one the kills of raids it
  no longer reads and those of tier searches. A row of a fight that was found is the kill found,
  collected now; any other is the stored kill with the time it was collected. Only fights the run
  asked about, in a targeted run only those it publishes, are stamped as read.
\<close>

theorem merge_rows_exact:
  assumes "mergePublishedEvidence stored input targeted = Inr merged"
  shows "distinct (map rowUrl (me_kills merged)) \<and>
    rowUrl ` set (me_kills merged) = set (incomingFightUrls input) \<union> carriedFights stored input targeted \<and>
    list_all (rowHonest stored input targeted) (me_kills merged)"
proof -
  obtain incoming previous kills tierBests where m:
    "try_map parseKill (in_kills input) = Inr incoming" "try_map parseKill (previousKills stored input targeted) = Inr previous"
    "kills = foldl (mergeKill (se_performanceByFightUrl stored)) (previousMap previous) incoming"
    "me_kills merged = map (publishKill stored input targeted) (map snd kills)"
    by (rule mergePublishedEvidenceE [OF assms(1)]) (rule that)
  have keyed: "keyedKills kills" unfolding m(3) by (rule keyedKills_foldl [OF previousMap_keyed])
  have urls: "map rowUrl (me_kills merged) = map fst kills"
    unfolding m(4) using keyedKills_urls [OF keyed] by (auto simp: publishKill_row)
  have found: "url \<in> set (incomingFightUrls input) \<longleftrightarrow> (\<exists>r \<in> set incoming. mk_fightUrl (fst r) = url)" for url
    unfolding incomingFightUrls_def try_map_parseKill(1) [OF m(1), symmetric] by auto
  have carried: "url \<in> carriedFights stored input targeted \<longleftrightarrow> map_get (previousMap previous) url \<noteq> None" for url
    unfolding previousMap_None previousKills_carried(1) [symmetric] try_map_parseKill(1) [OF m(2), symmetric] by auto
  have "url \<in> fst ` set kills \<longleftrightarrow> url \<in> set (incomingFightUrls input) \<union> carriedFights stored input targeted" for url
  proof -
    have "url \<in> fst ` set kills \<longleftrightarrow> map_get kills url \<noteq> None" by (simp add: map_of_eq_None_iff)
    then show ?thesis unfolding m(3) foldl_mergeKill(1) [symmetric] using found carried by blast
  qed
  then have all: "rowUrl ` set (me_kills merged) = set (incomingFightUrls input) \<union> carriedFights stored input targeted"
    using urls by (metis (no_types, lifting) list.set_map set_eqI)
  have "rowHonest stored input targeted (publishKill stored input targeted (kill, p))" if "(url, kill, p) \<in> set kills" for url kill p
  proof -
    have u: "mk_fightUrl kill = url" "map_get kills url = Some (kill, p)" using keyedKills_urls [OF keyed that] by blast+
    have "kill \<in> set (in_kills input)" if f: "url \<in> set (incomingFightUrls input)"
    proof -
      have "kill \<in> fst ` set incoming"
        using found_kill [OF u(2) [unfolded m(3)]] f found by blast
      then show ?thesis using try_map_parseKill(1) [OF m(1)] by (metis list.set_map)
    qed
    moreover have "kill \<in> set (se_kills stored @ se_tierSearchKills stored)" if f: "url \<notin> set (incomingFightUrls input)"
    proof -
      have "map_get (previousMap previous) url = Some (kill, p)"
        using foldl_mergeKill(2) [of incoming url] f found u(2) unfolding m(3) by metis
      then have "kill \<in> fst ` set previous" using previousMap_entry by force
      then have "kill \<in> set (previousKills stored input targeted)" using try_map_parseKill(1) [OF m(2)] by (metis list.set_map)
      then show ?thesis using previousKills_carried(2) by blast
    qed
    ultimately show ?thesis
      using u(1) unfolding rowHonest_def publishKill_row parsedFightUrls_iff [symmetric] by (simp add: publishKill_def Let_def)
  qed
  then have "list_all (rowHonest stored input targeted) (me_kills merged)" unfolding m(4) by (auto simp: list_all_iff)
  then show ?thesis using all keyed unfolding urls keyedKills_def by simp
qed

subsection \<open>First kills\<close>

definition keyedFirstKills :: "(string, raiderIoFirstKill) jsmap \<Rightarrow> bool" where
  "keyedFirstKills m \<longleftrightarrow> distinct (map fst m) \<and> (\<forall>(key, kill) \<in> set m. firstKillKey kill = key)"

lemma mergeFirstKill_key [simp]: "firstKillKey (mergeFirstKill previous incoming) = firstKillKey incoming"
  by (simp add: mergeFirstKill_def firstKillKey_def Let_def)

definition firstKillsUnder :: "string \<Rightarrow> raiderIoFirstKill list \<Rightarrow> raiderIoFirstKill list" where
  "firstKillsUnder key kills = filter (\<lambda>kill. firstKillKey kill = key) kills"

text \<open>Setting each element of a list under its own key, changed by a function that keeps the key.\<close>

lemma foldl_own_keys:
  assumes "\<And>kill. firstKillKey (h kill) = firstKillKey kill" and "keyedFirstKills m"
  shows "keyedFirstKills (foldl (\<lambda>m kill. map_set (firstKillKey kill) (h kill) m) m kills)"
    and "fst ` set (foldl (\<lambda>m kill. map_set (firstKillKey kill) (h kill) m) m kills) = fst ` set m \<union> firstKillKey ` set kills"
    and "map_get (foldl (\<lambda>m kill. map_set (firstKillKey kill) (h kill) m) m kills) key =
      (if firstKillsUnder key kills = [] then map_get m key else Some (h (last (firstKillsUnder key kills))))"
  using assms(2)
proof (induction kills arbitrary: m)
  case (Cons kill kills)
  have set1: "set (map_set (firstKillKey kill) (h kill) m) \<subseteq> insert (firstKillKey kill, h kill) (set m)" for m
    using set_update_distinct by (induction m) auto
  have keyed: "keyedFirstKills (map_set (firstKillKey kill) (h kill) m)" if "keyedFirstKills m" for m
    using that set1 [of m] assms(1) unfolding keyedFirstKills_def by (fastforce simp: distinct_update)
  {
    case (1 m)
    then show ?case using Cons.IH(1) [OF keyed] by simp
  next
    case (2 m)
    have "fst ` set (map_set key v m) = insert key (fst ` set m)" for key and v :: raiderIoFirstKill by (induction m) auto
    then show ?case using Cons.IH(2) [OF keyed [OF 2]] by auto
  next
    case (3 m)
    from Cons.IH(3) [OF keyed [OF 3]] show ?case by (simp add: firstKillsUnder_def update_conv')
  }
qed (auto simp: firstKillsUnder_def)

definition foundFirstKills :: "firstKillsPublication option \<Rightarrow> bool \<Rightarrow> raiderIoFirstKill list" where
  "foundFirstKills input targeted = (case input of None \<Rightarrow> [] | Some publication \<Rightarrow> if targeted then [] else fp_kills publication)"

definition staysStored :: "firstKillsPublication option \<Rightarrow> publishState \<Rightarrow> bool \<Rightarrow> raiderIoFirstKill \<Rightarrow> bool" where
  \<comment> \<open>only a complete ordinary run that asked about the raid drops a stored kill it does not find\<close>
  "staysStored input state targeted kill \<longleftrightarrow>
     targeted \<or> state = Publish_partial \<or>
     (\<forall>publication. input = Some publication \<longrightarrow> rf_raidSlug kill \<notin> set (fp_askedRaidSlugs publication))"

definition carriedFirstKills :: "raiderIoFirstKill list \<Rightarrow> firstKillsPublication option \<Rightarrow> publishState \<Rightarrow> bool \<Rightarrow> string set" where
  "carriedFirstKills stored input state targeted = firstKillKey ` {k \<in> set stored. staysStored input state targeted k}"

definition readingOf :: "raiderIoFirstKill \<Rightarrow> string \<times> nat option \<times> encounterState \<times> string option \<times> bool option" where
  "readingOf kill = (rf_killedAt kill, rf_loggedEncounterId kill, rf_encounterState kill, rf_encounterLimitationCode kill, rf_presenceChecked kill)"

definition rankOf :: "raiderIoFirstKill \<Rightarrow> int option \<times> string option" where
  "rankOf kill = (rf_historicWorldRank kill, rf_historicRankCheckedAt kill)"

definition writtenFrom :: "raiderIoFirstKill option \<Rightarrow> raiderIoFirstKill \<Rightarrow> raiderIoFirstKill \<Rightarrow> bool" where
  \<comment> \<open>the row of a found kill, with what was stored of it: its log is the stored one where that was read and this
    one was not and names no other, and its rank the stored one where this one was not looked up\<close>
  "writtenFrom stored kill row \<longleftrightarrow>
     rf_raidSlug row = rf_raidSlug kill \<and> rf_bossSlug row = rf_bossSlug kill \<and> rf_guild row = rf_guild kill \<and>
     (case stored of
        None \<Rightarrow> readingOf row = readingOf kill \<and> rankOf row = rankOf kill
      | Some before \<Rightarrow>
          rankOf row = rankOf (if rf_historicRankCheckedAt kill = None then before else kill) \<and>
          readingOf row =
            (if rf_encounterState before = Encounter_read \<and> rf_encounterState kill = Encounter_unavailable \<and>
                rf_loggedEncounterId kill \<in> {None, rf_loggedEncounterId before}
             then (rf_killedAt before, rf_loggedEncounterId before, Encounter_read, None, Some (rf_presenceChecked before = Some True))
             else readingOf kill))"

definition firstKillExplained ::
    "raiderIoFirstKill list \<Rightarrow> firstKillsPublication option \<Rightarrow> publishState \<Rightarrow> bool \<Rightarrow> raiderIoFirstKill \<Rightarrow> bool" where
  \<comment> \<open>a row is a carried one as it was, or the found kill of its boss merged with the stored one\<close>
  "firstKillExplained stored input state targeted row \<longleftrightarrow>
     (let found = firstKillsUnder (firstKillKey row) (foundFirstKills input targeted)
      in if found = [] then row \<in> set stored \<and> staysStored input state targeted row
         else writtenFrom (find (\<lambda>before. firstKillKey before = firstKillKey row) stored) (last found) row)"

lemma firstKillCarried_iff: "firstKillCarried input state targeted = staysStored input state targeted"
  by (auto simp: firstKillCarried_def staysStored_def fun_eq_iff split: option.splits)

lemma mergeFirstKill_written: "writtenFrom (Some before) kill (mergeFirstKill before kill)"
  by (cases "rf_encounterState kill") (auto simp: writtenFrom_def mergeFirstKill_def keepsRead_def Let_def readingOf_def rankOf_def)

lemma unmerged_written: "writtenFrom None kill kill"
  by (simp add: writtenFrom_def)

lemma map_from_own_key:
  assumes "distinct (map firstKillKey stored)"
  shows "map_get (map_from (map (\<lambda>kill. (firstKillKey kill, kill)) stored)) key = find (\<lambda>before. firstKillKey before = key) stored"
proof -
  have "distinct (map fst (map (\<lambda>kill. (firstKillKey kill, kill)) stored))" using assms by (simp add: comp_def)
  then have "map_get (map_from (map (\<lambda>kill. (firstKillKey kill, kill)) stored)) key = map_get (map (\<lambda>kill. (firstKillKey kill, kill)) stored) key"
    unfolding map_of_map_from by (subst map_of_inject_set [THEN iffD2]) (simp_all del: map_map add: rev_map [symmetric])
  also have "\<dots> = find (\<lambda>before. firstKillKey before = key) stored" by (induction stored) auto
  finally show ?thesis .
qed

lemma mergeRaiderIoFirstKills_folds:
  "mergeRaiderIoFirstKills E stored input state targeted =
     sort_by (compareFirstKills E) (map snd
       (foldl (\<lambda>m kill. map_set (firstKillKey kill)
            (case map_get (map_from (map (\<lambda>kill. (firstKillKey kill, kill)) stored)) (firstKillKey kill) of
               None \<Rightarrow> kill | Some before \<Rightarrow> mergeFirstKill before kill) m)
          (foldl (\<lambda>m kill. map_set (firstKillKey kill) kill m) [] (filter (firstKillCarried input state targeted) stored))
          (foundFirstKills input targeted)))"
  by (auto simp: mergeRaiderIoFirstKills_def foundFirstKills_def Let_def split: option.split)

text \<open>
  C30. The first kills a publication writes are, once each and in order of their time and key, those
  stored ones that are carried forward and those the run found: everything stored is carried unless a
  complete ordinary run asked about its raid. A kill that was not found is written as it was stored. A
  kill that was found is written as found, but with the time, the encounter and the check of a stored
  reading that this run did not make again and names no other encounter for, and with the stored rank
  where this run looked none up.
\<close>

theorem first_kills_merged:
  assumes "js_runtime E" and "distinct (map firstKillKey stored)"
  shows "distinct (map firstKillKey (mergeRaiderIoFirstKills E stored input state targeted)) \<and>
    firstKillKey ` set (mergeRaiderIoFirstKills E stored input state targeted) =
      carriedFirstKills stored input state targeted \<union> firstKillKey ` set (foundFirstKills input targeted) \<and>
    sorted_wrt (\<lambda>a b. compareFirstKills E a b \<le> 0) (mergeRaiderIoFirstKills E stored input state targeted) \<and>
    list_all (firstKillExplained stored input state targeted) (mergeRaiderIoFirstKills E stored input state targeted)"
proof -
  let ?carried = "foldl (\<lambda>m kill. map_set (firstKillKey kill) kill m) [] (filter (firstKillCarried input state targeted) stored)"
  let ?previous = "map_from (map (\<lambda>kill. (firstKillKey kill, kill)) stored)"
  define h where "h = (\<lambda>kill. case map_get ?previous (firstKillKey kill) of None \<Rightarrow> kill | Some before \<Rightarrow> mergeFirstKill before kill)"
  define m where "m = foldl (\<lambda>m kill. map_set (firstKillKey kill) (h kill) m) ?carried (foundFirstKills input targeted)"
  have h: "firstKillKey (h kill) = firstKillKey kill" for kill by (simp add: h_def split: option.split)
  have empty: "keyedFirstKills []" by (simp add: keyedFirstKills_def)
  note c = foldl_own_keys [where h = "\<lambda>k. k", OF refl empty, of "filter (firstKillCarried input state targeted) stored"]
  note f = foldl_own_keys [of h, OF h c(1), of "foundFirstKills input targeted", folded m_def]
  have out: "mergeRaiderIoFirstKills E stored input state targeted = sort_by (compareFirstKills E) (map snd m)"
    unfolding mergeRaiderIoFirstKills_folds m_def h_def ..
  have keys: "map firstKillKey (map snd m) = map fst m" using f(1) unfolding keyedFirstKills_def by auto
  have once: "distinct (map firstKillKey (mergeRaiderIoFirstKills E stored input state targeted))"
    unfolding out distinct_map_sort_by keys using f(1) by (simp add: keyedFirstKills_def)
  have all: "firstKillKey ` set (mergeRaiderIoFirstKills E stored input state targeted) =
      carriedFirstKills stored input state targeted \<union> firstKillKey ` set (foundFirstKills input targeted)"
  proof -
    have "firstKillKey ` set (map snd m) = fst ` set m" using keys by (metis list.set_map)
    then show ?thesis unfolding out set_sort_by f(2) c(2) carriedFirstKills_def by (simp add: firstKillCarried_iff)
  qed
  note collation = js_runtime.collation [OF assms(1)]
  have "js_comparator (\<lambda>a b. or_else (localeCompare E (rf_killedAt a) (rf_killedAt b))
      (localeCompare E (firstKillKey a) (firstKillKey b)))"
    by (rule js_comparator_or_else [OF js_comparator_pullback [where f = rf_killedAt, OF collation]
          js_comparator_pullback [where f = firstKillKey, OF collation]])
  then have "js_comparator (compareFirstKills E)" by (simp only: compareFirstKills_def [abs_def])
  from js_comparator.sorted_sort_by [OF this]
  have sorted: "sorted_wrt (\<lambda>a b. compareFirstKills E a b \<le> 0) (mergeRaiderIoFirstKills E stored input state targeted)"
    unfolding out .
  have "firstKillExplained stored input state targeted row" if row: "row \<in> set (map snd m)" for row
  proof -
    let ?key = "firstKillKey row"
    obtain key where "(key, row) \<in> set m" using row by auto
    then have get: "map_get m ?key = Some row" using f(1) unfolding keyedFirstKills_def by auto
    note g = get [unfolded f(3)]
    show ?thesis
    proof (cases "firstKillsUnder ?key (foundFirstKills input targeted) = []")
      case True
      then have "map_get ?carried ?key = Some row" using g by simp
      then have "row = last (firstKillsUnder ?key (filter (firstKillCarried input state targeted) stored))"
        "firstKillsUnder ?key (filter (firstKillCarried input state targeted) stored) \<noteq> []"
        unfolding c(3) by (auto split: if_splits)
      then have "row \<in> set (firstKillsUnder ?key (filter (firstKillCarried input state targeted) stored))"
        by (metis last_in_set)
      then show ?thesis using True by (simp add: firstKillExplained_def firstKillsUnder_def firstKillCarried_iff)
    next
      case False
      let ?kill = "last (firstKillsUnder ?key (foundFirstKills input targeted))"
      have "?kill \<in> set (firstKillsUnder ?key (foundFirstKills input targeted))" using False by (rule last_in_set)
      then have key: "firstKillKey ?kill = ?key" by (simp add: firstKillsUnder_def)
      have "row = h ?kill" using g False by simp
      moreover have "writtenFrom (find (\<lambda>before. firstKillKey before = ?key) stored) ?kill (h ?kill)"
        unfolding h_def key map_from_own_key [OF assms(2)]
        by (cases "find (\<lambda>before. firstKillKey before = ?key) stored") (simp_all add: mergeFirstKill_written unmerged_written)
      ultimately show ?thesis using False by (simp add: firstKillExplained_def)
    qed
  qed
  then have "list_all (firstKillExplained stored input state targeted) (mergeRaiderIoFirstKills E stored input state targeted)"
    unfolding out list_all_iff set_sort_by by blast
  with once all sorted show ?thesis by blast
qed

subsection \<open>An example\<close>

definition exampleParse :: "jsval \<Rightarrow> jsval" where
  "exampleParse metric =
     JObject [(''damage'', metric), (''healing'', JObject [(''state'', JString ''not_applicable'')]),
       (''bossDamage'', JObject [(''state'', JString ''unavailable'')])]"

definition parsedMetric :: jsval where
  "parsedMetric = JObject [(''state'', JString ''available''), (''percentile'', JNumber (Finite 95))]"

definition blankMetric :: jsval where
  "blankMetric = JObject [(''state'', JString ''unavailable'')]"

definition exampleKill :: "jsval \<Rightarrow> mythicKill" where
  "exampleKill metric =
     \<lparr>mk_raidId = ''38'', mk_raidName = ''Manaforge Omega'', mk_bossId = ''3129'', mk_bossName = ''Plexus Sentinel'',
      mk_journalBossId = None, mk_bossOrder = 1, mk_killedAt = ''2025-08-20T20:00:00.000Z'', mk_reportUrl = ''r'', mk_fightUrl = ''r1'',
      mk_guild = None, mk_uploader = None, mk_historicWorldRank = None, mk_historicRankCheckedAt = None,
      mk_performance = exampleParse metric\<rparr>"

definition exampleTierBest :: "jsval \<Rightarrow> tierBestParse" where
  "exampleTierBest metric =
     \<lparr>tb_raidId = ''38'', tb_raidName = ''Manaforge Omega'', tb_bossId = ''3129'', tb_bossName = ''Plexus Sentinel'',
      tb_rankingsUrl = ''u'', tb_performance = exampleParse metric\<rparr>"

definition examplePerformance :: performanceValues where
  "examplePerformance =
     \<lparr>pv_spec = None, pv_damage = \<lparr>mv_state = Available, mv_percentile = Some 95\<rparr>,
      pv_healing = \<lparr>mv_state = Not_applicable, mv_percentile = None\<rparr>,
      pv_bossDamage = \<lparr>mv_state = Unavailable, mv_percentile = None\<rparr>\<rparr>"

definition exampleStored :: storedEvidence where
  \<comment> \<open>one kill with its parse and one tier best, read a while ago\<close>
  "exampleStored =
     \<lparr>se_kills = [exampleKill parsedMetric], se_wipes = [], se_tierSearchKills = [], se_terminalKillRaidIds = [],
      se_performanceByFightUrl = [(''r1'', examplePerformance)],
      se_collectedAtByFightUrl = [(''r1'', 10)], se_parsesReadAtByFightUrl = [(''r1'', 10)], se_historicRankByFightUrl = [],
      se_tierBests = [(tierBestKey (exampleTierBest parsedMetric),
        \<lparr>st_tierBest = exampleTierBest parsedMetric, st_performance = examplePerformance, st_collectedAt = 10\<rparr>)]\<rparr>"

definition examplePublish :: publishInput where
  \<comment> \<open>a complete run that finds both again with nothing attached\<close>
  "examplePublish =
     \<lparr>in_state = Publish_complete, in_completedAt = 20, in_kills = [exampleKill blankMetric], in_wipes = [],
      in_tierBests = [exampleTierBest blankMetric],
      in_parsedFightUrls = None\<rparr>"

definition exampleRow :: mergedKill where
  "exampleRow =
     \<lparr>mg_kill = exampleKill blankMetric,
      mg_performance = examplePerformance,
      mg_historicWorldRank = None, mg_historicRankCheckedAt = None, mg_collectedAt = 20, mg_parsesReadAt = Some 10\<rparr>"

definition exampleBestRow :: storedTierBest where
  "exampleBestRow = \<lparr>st_tierBest = exampleTierBest blankMetric, st_performance = examplePerformance, st_collectedAt = 20\<rparr>"

lemma examplePublish_merged:
  "mergePublishedEvidence exampleStored examplePublish False =
     Inr \<lparr>me_kills = [exampleRow], me_wipes = [], me_tierBests = [exampleBestRow]\<rparr>"
  by code_simp

theorem merge_never_worsens_witness:
  "rowParsed exampleStored examplePublish False exampleRow \<and> mv_percentile (pv_damage (mg_performance exampleRow)) = Some 95 \<and>
   tierBestsWritten exampleStored examplePublish [exampleBestRow] \<and> mv_percentile (pv_damage (st_performance exampleBestRow)) = Some 95 \<and>
   parsedAs (exampleParse blankMetric)"
proof -
  have "distinct (map fst (se_tierBests exampleStored))" by (simp add: exampleStored_def)
  from merge_never_worsens [OF examplePublish_merged this] show ?thesis
    by (simp add: exampleRow_def exampleBestRow_def examplePerformance_def examplePublish_def exampleKill_def exampleTierBest_def)
qed

theorem merge_rows_exact_witness:
  "rowHonest exampleStored examplePublish False exampleRow \<and> rowUrl exampleRow \<in> set (incomingFightUrls examplePublish)"
  using merge_rows_exact [OF examplePublish_merged] by (simp add: rowUrl_def exampleRow_def examplePublish_def incomingFightUrls_def exampleKill_def)

definition exampleFirstKill :: "string \<Rightarrow> encounterState \<Rightarrow> raiderIoFirstKill" where
  "exampleFirstKill bossSlug state =
     \<lparr>rf_raidSlug = ''manaforge-omega'', rf_bossSlug = bossSlug,
      rf_killedAt = (if state = Encounter_read then ''2025-08-20T20:05:00.000Z'' else ''2025-08-20T20:00:00.000Z''), rf_guild = None,
      rf_loggedEncounterId = (if state = Encounter_read then Some 7 else None), rf_encounterState = state,
      rf_encounterLimitationCode = None, rf_historicWorldRank = None, rf_historicRankCheckedAt = None,
      rf_presenceChecked = Some (state = Encounter_read)\<rparr>"

definition exampleFound :: firstKillsPublication where
  \<comment> \<open>a run that finds a kill again without its log, and another one\<close>
  "exampleFound =
     \<lparr>fp_kills = [exampleFirstKill ''plexus-sentinel'' Encounter_unavailable, exampleFirstKill ''loomithar'' Encounter_unavailable],
      fp_askedRaidSlugs = [''manaforge-omega''], fp_limitationCode = None\<rparr>"

lemma exampleFirstKills:
  "mergeRaiderIoFirstKills ascii_env [exampleFirstKill ''plexus-sentinel'' Encounter_read] (Some exampleFound) Publish_complete False =
     [exampleFirstKill ''loomithar'' Encounter_unavailable, exampleFirstKill ''plexus-sentinel'' Encounter_read]"
  by code_simp

theorem first_kills_merged_witness:
  "mergeRaiderIoFirstKills ascii_env [exampleFirstKill ''plexus-sentinel'' Encounter_read] (Some exampleFound) Publish_complete False =
     [exampleFirstKill ''loomithar'' Encounter_unavailable, exampleFirstKill ''plexus-sentinel'' Encounter_read] \<and>
   firstKillExplained [exampleFirstKill ''plexus-sentinel'' Encounter_read] (Some exampleFound) Publish_complete False
     (exampleFirstKill ''plexus-sentinel'' Encounter_read) \<and>
   firstKillExplained [exampleFirstKill ''plexus-sentinel'' Encounter_read] (Some exampleFound) Publish_complete False
     (exampleFirstKill ''loomithar'' Encounter_unavailable)"
  using first_kills_merged [OF ascii.js_runtime_axioms, of "[exampleFirstKill ''plexus-sentinel'' Encounter_read]"
      "Some exampleFound" Publish_complete False]
  unfolding exampleFirstKills by simp

end
