(* ===== verification/JsNumber.thy ===== *)
theory JsNumber
  imports JsRuntime Doubles
begin

section \<open>Reading a number from a string\<close>

text \<open>
  \<^verbatim>\<open>Number(s)\<close> of a string, as the language standard defines it: the trimmed text is empty
  (zero), a binary, octal or hexadecimal literal, or a signed decimal literal with an optional
  fraction and exponent, whose exact value is rounded to a double; anything else is \<^const>\<open>NaN\<close>.
  \<^verbatim>\<open>Number.isSafeInteger\<close>, and the indices of \<^verbatim>\<open>Array.prototype.slice\<close>.
\<close>

definition toDouble :: "rat \<Rightarrow> jsnum" where
  \<comment> \<open>a magnitude rounded to a double, subnormals and overflow included\<close>
  "toDouble q =
     (let r = (if q * 2 ^ 1022 < 1 then of_int (round_half_even (q * 2 ^ 1074)) / 2 ^ 1074 else roundDouble q)
      in if r < 2 ^ 1024 then Finite r else PosInfinity)"

fun negate :: "jsnum \<Rightarrow> jsnum" where
  "negate (Finite q) = Finite (- q)"
| "negate NaN = NaN"
| "negate PosInfinity = NegInfinity"
| "negate NegInfinity = PosInfinity"

definition signed :: "string \<Rightarrow> bool \<times> string" where
  \<comment> \<open>whether the text starts with a minus sign, and what follows a sign\<close>
  "signed s =
     (case s of
        [] \<Rightarrow> (False, [])
      | c # rest \<Rightarrow> if c = CHR ''-'' then (True, rest) else if c = CHR ''+'' then (False, rest) else (False, s))"

definition exponentPart :: "string \<Rightarrow> int option" where
  "exponentPart s =
     (case s of
        [] \<Rightarrow> Some 0
      | c # rest \<Rightarrow>
          if c = CHR ''e'' \<or> c = CHR ''E'' then
            (case signed rest of
               (negative, ds) \<Rightarrow>
                 if ds \<noteq> [] \<and> list_all ascii_digit ds
                 then Some (if negative then - int (digits_value ds) else int (digits_value ds)) else None)
          else None)"

definition fractionPart :: "string \<Rightarrow> string \<times> string" where
  "fractionPart s =
     (case s of
        [] \<Rightarrow> ([], [])
      | c # rest \<Rightarrow> if c = CHR ''.'' then (takeWhile ascii_digit rest, dropWhile ascii_digit rest) else ([], s))"

definition unsignedDecimal :: "string \<Rightarrow> jsnum" where
  "unsignedDecimal s =
     (if s = ''Infinity'' then PosInfinity
      else (let whole = takeWhile ascii_digit s; (fraction, rest) = fractionPart (dropWhile ascii_digit s)
            in if whole @ fraction = [] then NaN
               else case exponentPart rest of
                      None \<Rightarrow> NaN
                    | Some e \<Rightarrow> toDouble (of_nat (digits_value (whole @ fraction)) * 10 powi (e - int (length fraction)))))"

definition radixDigit :: "char \<Rightarrow> nat" where
  \<comment> \<open>36 for a character that is no digit\<close>
  "radixDigit c =
     (if ascii_digit c then of_char c - 48
      else if ascii_letter c then of_char (ascii_lower_char c) - 87 else 36)"

definition radixNumber :: "nat \<Rightarrow> string \<Rightarrow> jsnum" where
  "radixNumber radix s =
     (if s \<noteq> [] \<and> list_all (\<lambda>c. radixDigit c < radix) s
      then toDouble (of_nat (foldl (\<lambda>n c. radix * n + radixDigit c) 0 s)) else NaN)"

definition stringToNumber :: "js_env \<Rightarrow> string \<Rightarrow> jsnum" where
  \<comment> \<open>\<open>Number(s)\<close>\<close>
  "stringToNumber E s =
     (let t = js_trim E s; prefix2 = map ascii_lower_char (take 2 t)
      in if t = [] then Finite 0
         else if prefix2 = ''0x'' then radixNumber 16 (drop 2 t)
         else if prefix2 = ''0o'' then radixNumber 8 (drop 2 t)
         else if prefix2 = ''0b'' then radixNumber 2 (drop 2 t)
         else (case signed t of (negative, u) \<Rightarrow> if negative then negate (unsignedDecimal u) else unsignedDecimal u))"

definition safeInteger :: "jsnum \<Rightarrow> int option" where
  \<comment> \<open>the integer of a number that passes \<open>Number.isSafeInteger\<close>\<close>
  "safeInteger n =
     (case n of
        Finite q \<Rightarrow> (case quotient_of q of (m, d) \<Rightarrow> if d = 1 \<and> \<bar>m\<bar> \<le> 2 ^ 53 - 1 then Some m else None)
      | _ \<Rightarrow> None)"

definition slice_index :: "int \<Rightarrow> 'a list \<Rightarrow> nat" where
  \<comment> \<open>where \<open>slice(0, i)\<close> ends and \<open>slice(i)\<close> starts: a negative index counts from the end\<close>
  "slice_index i xs = (if i < 0 then nat (int (length xs) + i) else min (nat i) (length xs))"

lemma slice_parts [simp]: "take (slice_index i xs) xs @ drop (slice_index i xs) xs = xs"
  by simp

subsection \<open>Integers are read exactly\<close>

lemma round_half_even_int [simp]: "round_half_even (of_int n) = n"
  by (simp add: round_half_even_def)

lemma roundDouble_int:
  assumes "0 < n" and "n < 2 ^ 53"
  shows "roundDouble (of_int n) = of_int n"
proof -
  define k where "k = double_scale (of_int n)"
  have len: "bitlen n \<le> 53"
  proof -
    have "bitlen n - 1 < 53"
    proof (rule ccontr)
      assume "\<not> bitlen n - 1 < 53"
      then have "2 ^ 53 \<le> (2 :: int) ^ nat (bitlen n - 1)" by (intro power_increasing) auto
      also have "\<dots> \<le> n" using bitlen_bounds [OF assms(1)] by simp
      finally show False using assms(2) by simp
    qed
    then show ?thesis by simp
  qed
  have one: "bitlen 1 = 1" by (simp add: bitlen_def floorlog_def)
  have "quotient_of (of_int n) = (n, 1)" by (simp add: quotient_of_int)
  then have "0 \<le> k" using len by (auto simp: k_def double_scale_def Let_def one)
  then obtain m where k: "k = int m" by (metis nonneg_int_cases)
  have "(of_int n :: rat) * 2 powi k = of_int (n * 2 ^ m)" by (simp add: k)
  then have "round_half_even (of_int n * 2 powi k) = n * 2 ^ m" by (simp only: round_half_even_int)
  then have "roundDouble (of_int n) = of_int (n * 2 ^ m) * 2 powi (- k)"
    using assms(1) by (simp add: roundDouble_def Let_def k_def [symmetric])
  also have "\<dots> = of_int n" by (simp add: k power_int_minus field_simps)
  finally show ?thesis .
qed

lemma toDouble_int:
  assumes "n < 2 ^ 53"
  shows "toDouble (of_nat n) = Finite (of_nat n)"
proof (cases "n = 0")
  case False
  have "(2 :: rat) ^ 53 \<le> 2 ^ 1024" by (rule power_increasing) simp_all
  moreover have "of_nat n < (2 :: rat) ^ 53" using assms by (metis of_nat_less_iff of_nat_numeral of_nat_power)
  ultimately have small: "of_nat n < (2 :: rat) ^ 1024" by linarith
  have "1 \<le> (of_nat n :: rat) * 2 ^ 1022"
    using mult_mono [of 1 "of_nat n :: rat" 1 "2 ^ 1022"] False one_le_power [of "2 :: rat" 1022] by simp
  moreover have "roundDouble (of_nat n) = of_nat n"
    using roundDouble_int [of "int n"] False assms by simp
  ultimately show ?thesis using small unfolding toDouble_def Let_def by (simp only: not_less [symmetric] if_True if_False)
next
  case True
  have "(0 :: rat) < 2 ^ 1024" by (rule zero_less_power) simp
  then show ?thesis using True round_half_even_int [of 0] by (simp only: toDouble_def of_nat_0 mult_zero_left Let_def zero_less_one if_True of_int_0 div_0 of_int_0 round_half_even_int)
qed

lemma stringToNumber_decimal:
  assumes "s \<noteq> []" and "list_all ascii_digit s" and "js_trim E s = s" and "digits_value s < 2 ^ 53"
  shows "stringToNumber E s = Finite (of_nat (digits_value s))"
proof -
  obtain c rest where s: "s = c # rest" using assms(1) by (cases s) auto
  have digit: "ascii_digit d \<Longrightarrow> ascii_lower_char d \<noteq> CHR ''x'' \<and> ascii_lower_char d \<noteq> CHR ''o'' \<and> ascii_lower_char d \<noteq> CHR ''b''
      \<and> d \<noteq> CHR ''-'' \<and> d \<noteq> CHR ''+'' \<and> d \<noteq> CHR ''I''" for d
    by (auto simp: ascii_digit_def ascii_lower_char_def less_eq_char_def)
  have prefix2: "map ascii_lower_char (take 2 s) \<noteq> ''0x''" "map ascii_lower_char (take 2 s) \<noteq> ''0o''" "map ascii_lower_char (take 2 s) \<noteq> ''0b''"
    using digit assms(2) unfolding s by (cases rest; auto)+
  have signs: "signed s = (False, s)" using digit [of c] assms(2) by (simp add: s signed_def)
  have inf: "s \<noteq> ''Infinity''" using digit [of c] assms(2) by (auto simp: s)
  have all: "takeWhile ascii_digit s = s" "dropWhile ascii_digit s = []"
    using assms(2) by (auto simp: list_all_iff takeWhile_eq_all_conv)
  have "unsignedDecimal s = toDouble (of_nat (digits_value s))"
    using inf assms(1) by (simp add: unsignedDecimal_def all fractionPart_def exponentPart_def)
  then show ?thesis
    unfolding stringToNumber_def Let_def assms(3) using assms(1) prefix2 signs toDouble_int [OF assms(4)] by simp
qed

lemma safeInteger_of_nat [simp]: "safeInteger (Finite (of_nat n)) = (if n < 2 ^ 53 then Some (int n) else None)"
  using quotient_of_int [of "int n"] by (auto simp: safeInteger_def)

lemma safeInteger_NaN [simp]: "safeInteger NaN = None"
  by (simp add: safeInteger_def)

end
