(* ===== verification/CollectionPlan.thy ===== *)
theory CollectionPlan
  imports RaidCatalogue JsNumber
begin

section \<open>What a collection run asks for\<close>

text \<open>
  \<open>packages/application/src\<close>: which tiers' best parses and which reports' rankings a run spends
  its budget on (\<open>warcraftlogs-collection-plan.ts\<close>), and which Raider.IO tiers it asks and what it
  searches logs for (\<open>verified-kills.ts\<close>, with the tier table of \<open>packages/raiderio/src/client.ts\<close>).
  Times of evidence are compared as the sources compare them, as strings. The Raider.IO gateway is
  a parameter.
\<close>

subsection \<open>Maps built kill by kill\<close>

definition upsert :: "'k \<Rightarrow> 'v \<Rightarrow> ('v \<Rightarrow> 'v) \<Rightarrow> ('k, 'v) jsmap \<Rightarrow> ('k, 'v) jsmap" where
  \<comment> \<open>\<open>m.set(k, seen ? update(seen) : first)\<close>\<close>
  "upsert k first update m = map_set k (case map_get m k of None \<Rightarrow> first | Some seen \<Rightarrow> update seen) m"

definition collected :: "('a \<Rightarrow> 'v) \<Rightarrow> ('a \<Rightarrow> 'v \<Rightarrow> 'v) \<Rightarrow> 'a list \<Rightarrow> 'v option" where
  \<comment> \<open>what a list leaves under one key\<close>
  "collected first update xs = (case xs of [] \<Rightarrow> None | x # ys \<Rightarrow> Some (foldl (\<lambda>v y. update y v) (first x) ys))"

lemma collected_snoc:
  "collected first update (xs @ [x]) =
     Some (case collected first update xs of None \<Rightarrow> first x | Some v \<Rightarrow> update x v)"
  by (cases xs) (simp_all add: collected_def)

lemma collected_None [simp]: "collected first update xs = None \<longleftrightarrow> xs = []"
  by (cases xs) (simp_all add: collected_def)

text \<open>A map filled by \<^const>\<open>upsert\<close> holds, under each key, what the elements with the key leave.\<close>

lemma upserts:
  defines "step key first update \<equiv> (\<lambda>m x. upsert (key x) (first x) (update x) m)"
  shows upserts_get: "map_get (foldl (step key first update) [] xs) k = collected first update (filter (\<lambda>x. key x = k) xs)"
    and upserts_distinct: "distinct (map fst (foldl (step key first update) [] xs))"
  by (induction xs rule: rev_induct)
    (auto simp: step_def upsert_def update_conv' collected_snoc distinct_update, simp add: collected_def)

text \<open>An invariant that the first element establishes and each later one keeps.\<close>

lemma collected_invariant:
  assumes "collected first update xs = Some v"
    and "\<And>x. P [x] (first x)" and "\<And>ys y v. ys \<noteq> [] \<Longrightarrow> P ys v \<Longrightarrow> P (ys @ [y]) (update y v)"
  shows "P xs v"
  using assms(1)
proof (induction xs arbitrary: v rule: rev_induct)
  case (snoc y ys)
  then show ?case using assms(2,3) collected_None [of first update ys]
    by (cases "collected first update ys") (auto simp: collected_snoc simp del: collected_None)
qed (simp add: collected_def)

subsection \<open>Kills and plans\<close>

record firstKillEvidence =
  \<comment> \<open>the fields a plan reads\<close>
  fe_raidId :: string
  fe_raidName :: string
  fe_bossId :: string
  fe_bossName :: string
  fe_journalBossId :: "string option"
  fe_killedAt :: string
  fe_reportCode :: string
  fe_fightId :: int
  fe_difficulty :: int
  fe_fightUrl :: string

definition identityOf :: "firstKillEvidence \<Rightarrow> raidEvidenceIdentity" where
  \<comment> \<open>a kill as the catalogue's lookups take it\<close>
  "identityOf kill = \<lparr>ev_raidName = fe_raidName kill, ev_bossName = fe_bossName kill, ev_journalBossId = fe_journalBossId kill\<rparr>"

record tierZone =
  tz_zoneId :: int
  tz_raidName :: string
  tz_latestKilledAt :: string

record parseGroup =
  pg_reportCode :: string
  pg_fights :: "(int, jsnum \<times> int) jsmap" \<comment> \<open>encounter id and difficulty by fight id\<close>
  pg_earliestKilledAt :: string
  pg_latestKilledAt :: string
  pg_hasFirstKill :: bool

record parseGroupPlan =
  pp_groups :: "parseGroup list"
  pp_raidIds :: "(string, string list) jsmap"
  pp_fightUrls :: "(string, string list) jsmap"

record terminalRaidIds =
  tr_parses :: "string list"
  tr_tierBests :: "string list"

record planOptions =
  po_hydratedFightUrls :: "string list option"
  po_collectedTierZones :: "(string, string) jsmap option"
  po_terminalRaidIds :: "terminalRaidIds option"
  po_parseJournalRaidId :: "string option"

subsection \<open>Tier zones\<close>

definition zoneIdOf :: "js_env \<Rightarrow> catalogueData \<Rightarrow> firstKillEvidence \<Rightarrow> int option" where
  \<comment> \<open>the zone a kill makes worth a request, if any\<close>
  "zoneIdOf E K kill =
     (if currentContentEligibility E K (fe_killedAt kill) (fe_raidName kill) = Some False then None
      else if \<not> raidOffersMythicRankings E K (identityOf kill) then None
      else case safeInteger (stringToNumber E (fe_raidId kill)) of
             None \<Rightarrow> None | Some zoneId \<Rightarrow> if zoneId \<le> 0 then None else Some zoneId)"

definition addZone :: "js_env \<Rightarrow> catalogueData \<Rightarrow> (string, tierZone) jsmap \<Rightarrow> firstKillEvidence \<Rightarrow> (string, tierZone) jsmap" where
  "addZone E K zones kill =
     (case zoneIdOf E K kill of
        None \<Rightarrow> zones
      | Some zoneId \<Rightarrow>
          upsert (fe_raidId kill)
            \<lparr>tz_zoneId = zoneId, tz_raidName = fe_raidName kill, tz_latestKilledAt = fe_killedAt kill\<rparr>
            (\<lambda>seen. seen\<lparr>tz_latestKilledAt :=
                (if fe_killedAt kill > tz_latestKilledAt seen then fe_killedAt kill else tz_latestKilledAt seen)\<rparr>)
            zones)"

definition compareZones :: "js_env \<Rightarrow> tierZone \<Rightarrow> tierZone \<Rightarrow> int" where
  "compareZones E a b =
     or_else (localeCompare E (tz_latestKilledAt b) (tz_latestKilledAt a)) (tz_zoneId a - tz_zoneId b)"

definition zonePending :: "planOptions \<Rightarrow> tierZone \<Rightarrow> bool" where
  "zonePending options zone =
     (let raidId = decimal (nat (tz_zoneId zone))
      in if (case po_terminalRaidIds options of None \<Rightarrow> False | Some terminal \<Rightarrow> raidId \<in> set (tr_tierBests terminal))
         then False
         else (case po_collectedTierZones options of
                 None \<Rightarrow> True
               | Some zones \<Rightarrow>
                   (case map_get zones raidId of
                      None \<Rightarrow> True | Some collectedAt \<Rightarrow> collectedAt \<le> tz_latestKilledAt zone)))"

definition tierZonePlan ::
    "js_env \<Rightarrow> catalogueData \<Rightarrow> firstKillEvidence list \<Rightarrow> planOptions \<Rightarrow> int \<Rightarrow> tierZone list \<times> tierZone list" where
  \<comment> \<open>the zones to request and those the budget does not reach\<close>
  "tierZonePlan E K kills options parseRequestCap =
     (let zones = foldl (addZone E K) [] kills;
          zoneRequestCap = (parseRequestCap - 1) div 2;
          orderedZones = sort_by (compareZones E) (map snd zones);
          pendingZones = filter (zonePending options) orderedZones;
          reached = slice_index zoneRequestCap pendingZones
      in (take reached pendingZones, drop reached pendingZones))"

subsection \<open>Parse groups\<close>

definition bossKeyOf :: "firstKillEvidence \<Rightarrow> string" where
  "bossKeyOf kill =
     fe_raidId kill @ CHR 0x00 # fe_bossId kill @ CHR 0x00 #
     (if fe_difficulty kill < 0 then ''-'' else []) @ decimal (nat \<bar>fe_difficulty kill\<bar>)"

definition noteEarliest :: "(string, string \<times> string) jsmap \<Rightarrow> firstKillEvidence \<Rightarrow> (string, string \<times> string) jsmap" where
  "noteEarliest earliestByBoss kill =
     (let entry = (fe_killedAt kill, fe_fightUrl kill)
      in case map_get earliestByBoss (bossKeyOf kill) of
           None \<Rightarrow> map_set (bossKeyOf kill) entry earliestByBoss
         | Some (killedAt, _) \<Rightarrow>
             if fe_killedAt kill < killedAt then map_set (bossKeyOf kill) entry earliestByBoss else earliestByBoss)"

definition firstKillFightUrls :: "firstKillEvidence list \<Rightarrow> string list" where
  "firstKillFightUrls candidates = map (\<lambda>(_, _, fightUrl). fightUrl) (foldl noteEarliest [] candidates)"

definition hydratable :: "js_env \<Rightarrow> catalogueData \<Rightarrow> planOptions \<Rightarrow> firstKillEvidence \<Rightarrow> bool" where
  \<comment> \<open>the guards of the second loop\<close>
  "hydratable E K options kill =
     (if currentContentEligibility E K (fe_killedAt kill) (fe_raidName kill) = Some False then False
      else if (case po_terminalRaidIds options of None \<Rightarrow> False | Some terminal \<Rightarrow> fe_raidId kill \<in> set (tr_parses terminal)) then False
      else if (case po_hydratedFightUrls options of None \<Rightarrow> False | Some urls \<Rightarrow> fe_fightUrl kill \<in> set urls) then False
      else (case po_parseJournalRaidId options of
              None \<Rightarrow> True
            | Some raidId \<Rightarrow> map_option rr_raidId (lookupRaidForEvidence E K (identityOf kill)) = Some raidId))"

definition fightOf :: "js_env \<Rightarrow> firstKillEvidence \<Rightarrow> jsnum \<times> int" where
  "fightOf E kill = (stringToNumber E (fe_bossId kill), fe_difficulty kill)"

definition startGroup :: "js_env \<Rightarrow> string list \<Rightarrow> firstKillEvidence \<Rightarrow> parseGroup" where
  "startGroup E firstKills kill =
     \<lparr>pg_reportCode = fe_reportCode kill, pg_fights = [(fe_fightId kill, fightOf E kill)],
      pg_earliestKilledAt = fe_killedAt kill, pg_latestKilledAt = fe_killedAt kill,
      pg_hasFirstKill = (fe_fightUrl kill \<in> set firstKills)\<rparr>"

definition extendGroup :: "js_env \<Rightarrow> string list \<Rightarrow> firstKillEvidence \<Rightarrow> parseGroup \<Rightarrow> parseGroup" where
  "extendGroup E firstKills kill existing =
     existing\<lparr>pg_fights := map_set (fe_fightId kill) (fightOf E kill) (pg_fights existing),
       pg_earliestKilledAt :=
         (if fe_killedAt kill < pg_earliestKilledAt existing then fe_killedAt kill else pg_earliestKilledAt existing),
       pg_latestKilledAt :=
         (if fe_killedAt kill > pg_latestKilledAt existing then fe_killedAt kill else pg_latestKilledAt existing),
       pg_hasFirstKill := (pg_hasFirstKill existing \<or> fe_fightUrl kill \<in> set firstKills)\<rparr>"

definition comparePlanGroups :: "js_env \<Rightarrow> parseGroup \<Rightarrow> parseGroup \<Rightarrow> int" where
  "comparePlanGroups E a b =
     or_else (of_bool (pg_hasFirstKill b) - of_bool (pg_hasFirstKill a))
       (or_else (localeCompare E (pg_latestKilledAt b) (pg_latestKilledAt a))
          (localeCompare E (pg_reportCode a) (pg_reportCode b)))"

fun groupKills ::
    "js_env \<Rightarrow> catalogueData \<Rightarrow> planOptions \<Rightarrow> string list \<Rightarrow> firstKillEvidence list \<Rightarrow>
     (string, parseGroup) jsmap \<times> (string, string list) jsmap \<times> (string, string list) jsmap \<Rightarrow>
     (string, parseGroup) jsmap \<times> (string, string list) jsmap \<times> (string, string list) jsmap" where
  \<comment> \<open>the second loop: the groups, and the raids and fights each report's kills belong to\<close>
  "groupKills E K options firstKills [] maps = maps"
| "groupKills E K options firstKills (kill # kills) (groups, raidIds, fightUrls) =
     (if \<not> hydratable E K options kill then groupKills E K options firstKills kills (groups, raidIds, fightUrls)
      else groupKills E K options firstKills kills
             (upsert (fe_reportCode kill) (startGroup E firstKills kill) (extendGroup E firstKills kill) groups,
              upsert (fe_reportCode kill) [fe_raidId kill] (set_add (fe_raidId kill)) raidIds,
              upsert (fe_reportCode kill) [fe_fightUrl kill] (set_add (fe_fightUrl kill)) fightUrls))"

definition parseGroupPlan_of ::
    "js_env \<Rightarrow> catalogueData \<Rightarrow> firstKillEvidence list \<Rightarrow> planOptions \<Rightarrow> parseGroupPlan" where
  "parseGroupPlan_of E K candidates options =
     (case groupKills E K options (firstKillFightUrls candidates) candidates ([], [], []) of
        (groups, raidIds, fightUrls) \<Rightarrow>
          \<lparr>pp_groups = sort_by (comparePlanGroups E) (map snd groups), pp_raidIds = raidIds, pp_fightUrls = fightUrls\<rparr>)"

definition createWarcraftLogsCollectionPlan ::
    "js_env \<Rightarrow> catalogueData \<Rightarrow> planOptions \<Rightarrow>
     (firstKillEvidence list \<Rightarrow> int \<Rightarrow> tierZone list \<times> tierZone list) \<times> (firstKillEvidence list \<Rightarrow> parseGroupPlan)" where
  \<comment> \<open>\<open>tierZones\<close> and \<open>parseGroups\<close>\<close>
  "createWarcraftLogsCollectionPlan E K options =
     (\<lambda>kills parseRequestCap. tierZonePlan E K kills options parseRequestCap,
      \<lambda>kills. parseGroupPlan_of E K kills options)"

subsection \<open>Raider.IO tiers worth asking\<close>

record pinnedTier =
  pt_ordinal :: int
  pt_raidSlugs :: "string list"

definition raiderIoHistoricTiers :: "pinnedTier list" where
  "raiderIoHistoricTiers =
     map (\<lambda>(ordinal, raidSlugs). \<lparr>pt_ordinal = ordinal, pt_raidSlugs = raidSlugs\<rparr>)
      [(19, [''the-emerald-nightmare'', ''the-nighthold'', ''trial-of-valor'']),
       (20, [''tomb-of-sargeras'']),
       (21, [''antorus-the-burning-throne'']),
       (22, [''uldir'']),
       (23, [''battle-of-dazaralor'', ''crucible-of-storms'']),
       (24, [''the-eternal-palace'']),
       (25, [''nyalotha-the-waking-city'']),
       (26, [''castle-nathria'']),
       (27, [''sanctum-of-domination'']),
       (28, [''sepulcher-of-the-first-ones'']),
       (29, [''vault-of-the-incarnates'']),
       (30, [''aberrus-the-shadowed-crucible'']),
       (31, [''amirdrassil-the-dreams-hope'']),
       (32, [''nerubar-palace'']),
       (33, [''liberation-of-undermine'']),
       (34, [''manaforge-omega'']),
       (35, [''tier-mn-1''])]"

record historicKillGuild =
  hg_name :: string
  hg_realm :: string
  hg_region :: string

record historicMythicKill =
  hk_raidSlug :: string
  hk_bossSlug :: string
  hk_firstDefeated :: string
  hk_guild :: "historicKillGuild option"
  hk_loggedEncounterId :: "nat option"

record verifiedKill =
  vk_at :: string
  vk_guild :: historicKillGuild

definition settledTierOrdinals ::
    "js_env \<Rightarrow> (string \<Rightarrow> string option) \<Rightarrow> pinnedTier list \<Rightarrow> string option \<Rightarrow> int list" where
  "settledTierOrdinals E contentWindowEnd tiers killScanFloor =
     (case Option.bind killScanFloor (dateParse E) of
        None \<Rightarrow> []
      | Some cutoff \<Rightarrow>
          (let closedBelowFloor = (\<lambda>slug. case contentWindowEnd slug of
                 None \<Rightarrow> False
               | Some endsAt \<Rightarrow> (case dateParse E endsAt of None \<Rightarrow> False | Some t \<Rightarrow> t < cutoff))
           in map (\<lambda>(index, tier). pt_ordinal tier)
                (filter (\<lambda>(index, tier). index \<noteq> length tiers - 1 \<and> list_all closedBelowFloor (pt_raidSlugs tier))
                   (enumerate 0 tiers))))"

definition historicTierOrdinalsFrom ::
    "js_env \<Rightarrow> (string \<Rightarrow> string option) \<Rightarrow> pinnedTier list \<Rightarrow> string option \<Rightarrow> int list \<Rightarrow> int list" where
  "historicTierOrdinalsFrom E contentWindowEnd tiers killScanFloor marked =
     (let settled = settledTierOrdinals E contentWindowEnd tiers killScanFloor
      in map pt_ordinal (filter (\<lambda>tier. pt_ordinal tier \<notin> set settled \<or> pt_ordinal tier \<notin> set marked) tiers))"

definition raiderIoGuilds :: "historicMythicKill list \<Rightarrow> historicKillGuild list" where
  "raiderIoGuilds kills =
     map snd (foldl (\<lambda>guilds kill.
        case hk_guild kill of
          None \<Rightarrow> guilds
        | Some guild \<Rightarrow>
            if hg_region guild \<notin> set supportedRegions then guilds
            else map_set (hg_region guild @ ''/'' @ hg_realm guild @ ''/'' @ hg_name guild) guild guilds) [] kills)"

definition searchableKill :: "js_env \<Rightarrow> int list \<Rightarrow> int option \<Rightarrow> historicMythicKill \<Rightarrow> verifiedKill list" where
  \<comment> \<open>the callback of \<open>flatMap\<close>; \<open>cutoff\<close> is \<^term>\<open>None\<close> without a readable floor\<close>
  "searchableKill E stored cutoff kill =
     (case (hk_guild kill, dateParse E (hk_firstDefeated kill)) of
        (Some guild, Some t) \<Rightarrow>
          if hg_region guild \<notin> set supportedRegions then []
          else if (case cutoff of None \<Rightarrow> False | Some f \<Rightarrow> t < f) then []
          else if list_ex (\<lambda>held. \<bar>held - t\<bar> \<le> STORED_KILL_MATCH_MS) stored then []
          else [\<lparr>vk_at = toISOString t, vk_guild = guild\<rparr>]
      | _ \<Rightarrow> [])"

definition searchableKills ::
    "js_env \<Rightarrow> string list \<Rightarrow> string option \<Rightarrow> historicMythicKill list \<Rightarrow> verifiedKill list" where
  "searchableKills E storedKills killScanFloor kills =
     (let stored = List.map_filter (dateParse E) storedKills;
          cutoff = Option.bind killScanFloor (dateParse E)
      in concat (map (searchableKill E stored cutoff) kills))"

datatype historicAnswer = Historic_kills "historicMythicKill list" | Historic_limitation string

record verifiedKillsResult =
  vr_kills :: "verifiedKill list"
  vr_guilds :: "historicKillGuild list option"
  vr_limitation :: "string option"
  vr_firstKills :: "historicMythicKill list option"
  vr_askedRaidSlugs :: "string list option"
  vr_backCatalogueTierOrdinals :: "int list option"
  vr_settledRaidSlugs :: "string list option"

definition slugsOfTiers :: "(int \<Rightarrow> bool) \<Rightarrow> string list" where
  \<comment> \<open>\<open>raiderIoHistoricTiers.filter(...).flatMap((tier) => tier.raidSlugs)\<close>\<close>
  "slugsOfTiers wanted = concat (map pt_raidSlugs (filter (\<lambda>tier. wanted (pt_ordinal tier)) raiderIoHistoricTiers))"

definition unanswered :: "string \<Rightarrow> verifiedKillsResult" where
  "unanswered code =
     \<lparr>vr_kills = [], vr_guilds = None, vr_limitation = Some code, vr_firstKills = None, vr_askedRaidSlugs = None,
      vr_backCatalogueTierOrdinals = None, vr_settledRaidSlugs = None\<rparr>"

definition raiderIoVerifiedKills ::
    "js_env \<Rightarrow> catalogueData \<Rightarrow> (int list \<Rightarrow> 'e + historicAnswer) \<Rightarrow> bool \<Rightarrow>
     string list \<Rightarrow> string option \<Rightarrow> int list \<Rightarrow> 'e + verifiedKillsResult" where
  \<comment> \<open>\<open>getHistoricMythicKills\<close> is the gateway, which throws or answers; \<open>aborted\<close> is read after it threw\<close>
  "raiderIoVerifiedKills E K getHistoricMythicKills aborted storedKills killScanFloor marked =
     (let windowEnd = raiderIoRaidContentWindowEnd E K;
          settled = settledTierOrdinals E windowEnd raiderIoHistoricTiers killScanFloor;
          tierOrdinals = historicTierOrdinalsFrom E windowEnd raiderIoHistoricTiers killScanFloor marked
      in case getHistoricMythicKills tierOrdinals of
           Inl e \<Rightarrow> if aborted then Inl e else Inr (unanswered ''unavailable'')
         | Inr (Historic_limitation code) \<Rightarrow> Inr (unanswered code)
         | Inr (Historic_kills kills) \<Rightarrow>
             (let backCatalogue = filter (\<lambda>ordinal. ordinal \<in> set settled) tierOrdinals;
                  backCatalogueRaids = slugsOfTiers (\<lambda>ordinal. ordinal \<in> set backCatalogue);
                  searchable = filter (\<lambda>kill. hk_raidSlug kill \<notin> set backCatalogueRaids) kills
              in Inr \<lparr>vr_kills = searchableKills E storedKills killScanFloor searchable,
                      vr_guilds = Some (raiderIoGuilds searchable), vr_limitation = None, vr_firstKills = Some kills,
                      vr_askedRaidSlugs = Some (sort_by order_cmp
                        (keep_first (\<lambda>s. s) (slugsOfTiers (\<lambda>ordinal. ordinal \<in> set tierOrdinals) @ map hk_raidSlug kills) [])),
                      vr_backCatalogueTierOrdinals = Some backCatalogue,
                      vr_settledRaidSlugs = Some (sort_by order_cmp (slugsOfTiers (\<lambda>ordinal. ordinal \<in> set settled)))\<rparr>))"

subsection \<open>Reports read again\<close>

fun reportCodeIn :: "string \<Rightarrow> string option" where
  \<comment> \<open>\<open>match(/\/reports\/([A-Za-z0-9]+)(?:[/?#]|$)/)?.[1]\<close>: the first position that matches\<close>
  "reportCodeIn [] = None"
| "reportCodeIn (c # cs) =
     (let s = c # cs; after = drop 9 s; code = takeWhile (\<lambda>c. ascii_letter c \<or> ascii_digit c) after; rest = drop (length code) after
      in if take 9 s = ''/reports/'' \<and> code \<noteq> [] \<and> (rest = [] \<or> hd rest \<in> set ''/?#'') then Some code
         else reportCodeIn cs)"

record storedReport =
  sr_raidId :: string
  sr_reportUrl :: "string option"

definition storedKillReportCodes :: "storedReport list \<Rightarrow> string list \<Rightarrow> string list" where
  "storedKillReportCodes storedKills terminalKillRaidIds =
     foldl (\<lambda>codes kill.
        if sr_raidId kill \<in> set terminalKillRaidIds then codes
        else (case Option.bind (sr_reportUrl kill) reportCodeIn of
                None \<Rightarrow> codes | Some code \<Rightarrow> set_add code codes)) [] storedKills"

definition EMPTY_SEARCH_RECHECK_MS :: int where "EMPTY_SEARCH_RECHECK_MS = 7 * 24 * 60 * 60 * 1000"

definition emptySearchKey :: "js_env \<Rightarrow> verifiedKill \<Rightarrow> string" where
  "emptySearchKey E search =
     join [CHR 0x00]
       [hg_region (vk_guild search), hg_realm (vk_guild search), hg_name (vk_guild search),
        (case dateParse E (vk_at search) of
           None \<Rightarrow> ''NaN'' | Some t \<Rightarrow> (if t < 0 then ''-'' else []) @ decimal (nat \<bar>t\<bar>))]"

end
