(* ===== verification/CollectionPlanCorrect.thy ===== *)
theory CollectionPlanCorrect
  imports CollectionPlan RaidCatalogueCorrect
begin

section \<open>Correctness of the collection plan\<close>

text \<open>
  The zones a run asks for and leaves out are exactly the displayed raids that need a request,
  newest first and within half the budget; the report groups cover exactly the fights still to
  read, reports with a boss's first kill first; and leaving settled Raider.IO tiers out loses no
  search hint.
\<close>

subsection \<open>Tier zones\<close>

definition displayedIn :: "js_env \<Rightarrow> catalogueData \<Rightarrow> firstKillEvidence list \<Rightarrow> string \<Rightarrow> firstKillEvidence list" where
  \<comment> \<open>the kills of a Warcraft Logs zone that a dossier can show and rankings can answer for\<close>
  "displayedIn E K kills raidId = filter (\<lambda>kill. fe_raidId kill = raidId \<and> zoneIdOf E K kill \<noteq> None) kills"

definition zoneOf :: "js_env \<Rightarrow> catalogueData \<Rightarrow> firstKillEvidence list \<Rightarrow> string \<Rightarrow> tierZone option" where
  \<comment> \<open>the zone with its newest such kill\<close>
  "zoneOf E K kills raidId =
     (case displayedIn E K kills raidId of
        [] \<Rightarrow> None
      | kill # rest \<Rightarrow>
          Some \<lparr>tz_zoneId = the (zoneIdOf E K kill), tz_raidName = fe_raidName kill,
                tz_latestKilledAt = Max (fe_killedAt ` set (kill # rest))\<rparr>)"

definition needsRequest :: "planOptions \<Rightarrow> tierZone \<Rightarrow> bool" where
  \<comment> \<open>not finished with, and not collected since its newest kill\<close>
  "needsRequest options zone \<longleftrightarrow>
     (\<forall>terminal. po_terminalRaidIds options = Some terminal \<longrightarrow> decimal (nat (tz_zoneId zone)) \<notin> set (tr_tierBests terminal)) \<and>
     (\<forall>zones collectedAt. po_collectedTierZones options = Some zones \<longrightarrow>
        map_get zones (decimal (nat (tz_zoneId zone))) = Some collectedAt \<longrightarrow> collectedAt \<le> tz_latestKilledAt zone)"

lemma zonePending_needs: "zonePending options = needsRequest options"
  by (auto simp: fun_eq_iff zonePending_def needsRequest_def Let_def split: option.splits)

lemma max_as_if: "max a b = (if a > b then a else (b :: 'a :: linorder))"
  and min_as_if: "min a b = (if a < b then a else (b :: 'a :: linorder))"
  by (auto simp: max_def min_def)

lemma extremes_snoc:
  fixes f :: "'a \<Rightarrow> 'b :: linorder"
  assumes "ys \<noteq> []"
  shows Max_image_snoc: "Max (f ` set (ys @ [y])) = (if f y > Max (f ` set ys) then f y else Max (f ` set ys))"
    and Min_image_snoc: "Min (f ` set (ys @ [y])) = (if f y < Min (f ` set ys) then f y else Min (f ` set ys))"
proof -
  have image: "f ` set (ys @ [y]) = insert (f y) (f ` set ys)" by auto
  have "finite (f ` set ys)" "f ` set ys \<noteq> {}" using assms by auto
  note inserts = Max_insert [OF this] Min_insert [OF this]
  show "Max (f ` set (ys @ [y])) = (if f y > Max (f ` set ys) then f y else Max (f ` set ys))"
    unfolding image inserts(1) by (rule max_as_if)
  show "Min (f ` set (ys @ [y])) = (if f y < Min (f ` set ys) then f y else Min (f ` set ys))"
    unfolding image inserts(2) by (rule min_as_if)
qed

lemma zones_get: "map_get (foldl (addZone E K) [] kills) raidId = zoneOf E K kills raidId"
  and zones_distinct: "distinct (map fst (foldl (addZone E K) [] kills))"
proof -
  define first where "first = (\<lambda>kill :: firstKillEvidence. \<lparr>tz_zoneId = the (zoneIdOf E K kill), tz_raidName = fe_raidName kill, tz_latestKilledAt = fe_killedAt kill\<rparr>)"
  define update where "update = (\<lambda>(kill :: firstKillEvidence) (seen :: tierZone). seen\<lparr>tz_latestKilledAt :=
      (if fe_killedAt kill > tz_latestKilledAt seen then fe_killedAt kill else tz_latestKilledAt seen)\<rparr>)"
  let ?fold = "\<lambda>m kills. foldl (\<lambda>m kill. upsert (fe_raidId kill) (first kill) (update kill) m) m (filter (\<lambda>kill. zoneIdOf E K kill \<noteq> None) kills)"
  have eq: "foldl (addZone E K) m kills = ?fold m kills" for m
    by (induction kills arbitrary: m) (auto simp: addZone_def first_def update_def)
  show "distinct (map fst (foldl (addZone E K) [] kills))" unfolding eq by (rule upserts_distinct)
  have "map_get (foldl (addZone E K) [] kills) raidId = collected first update (displayedIn E K kills raidId)"
    unfolding eq upserts_get filter_filter displayedIn_def by (simp add: conj_commute)
  also have "\<dots> = zoneOf E K kills raidId"
  proof (cases "collected first update (displayedIn E K kills raidId)")
    case (Some zone)
    let ?P = "\<lambda>kills zone. zone = (first (hd kills))\<lparr>tz_latestKilledAt := Max (fe_killedAt ` set kills)\<rparr>"
    have "?P (displayedIn E K kills raidId) zone"
      by (rule collected_invariant [OF Some, of ?P])
        (auto simp: first_def update_def Max_image_snoc simp del: set_append)
    then show ?thesis using Some by (cases "displayedIn E K kills raidId") (auto simp: zoneOf_def first_def collected_def)
  qed (simp add: zoneOf_def)
  finally show "map_get (foldl (addZone E K) [] kills) raidId = zoneOf E K kills raidId" .
qed

lemma mset_map_permuted: "mset (map f xs) = mset ys \<Longrightarrow> \<exists>xs'. mset xs' = mset xs \<and> map f xs' = ys"
proof (induction ys arbitrary: xs)
  case (Cons y ys)
  then have "y \<in> set (map f xs)" by (metis list.set_intros(1) set_mset_mset)
  then obtain x before after where xs: "xs = before @ x # after" "f x = y" by (auto dest: split_list)
  then have "mset (map f (before @ after)) = mset ys" using Cons.prems by simp
  then obtain xs' where "mset xs' = mset (before @ after)" "map f xs' = ys" using Cons.IH by blast
  then show ?case using xs by (intro exI [of _ "x # xs'"]) simp
qed simp

lemma js_comparator_zones: "js_runtime E \<Longrightarrow> js_comparator (compareZones E)"
  unfolding compareZones_def [abs_def]
  by (rule js_comparator_or_else
      [OF js_comparator_pullback [where f = tz_latestKilledAt, OF js_comparator_flipped [OF js_runtime.collation]]
        js_comparator_pullback [where f = tz_zoneId, OF js_comparator_minus]])

definition oncePer :: "('k \<Rightarrow> 'v option) \<Rightarrow> ('v \<Rightarrow> bool) \<Rightarrow> 'v list \<Rightarrow> bool" where
  \<comment> \<open>the list has one entry for each key whose entry is wanted\<close>
  "oncePer entry wanted vs \<longleftrightarrow>
     (\<exists>ks. distinct ks \<and> map Some vs = map entry ks \<and> (\<forall>k. k \<in> set ks \<longleftrightarrow> (\<exists>v. entry k = Some v \<and> wanted v)))"

lemma oncePer_sorted:
  assumes "distinct (map fst m)" and "\<And>k. map_get m k = entry k"
  shows "oncePer entry wanted (filter wanted (sort_by cmp (map snd m)))"
proof -
  obtain m' where m': "mset m' = mset m" "map snd m' = sort_by cmp (map snd m)"
    using mset_map_permuted [of snd m] mset_sort_by by metis
  have same: "set m' = set m" using m'(1) by (metis set_mset_mset)
  have "distinct (map fst m')" using assms(1) m'(1) by (metis mset_eq_imp_distinct_iff mset_map)
  let ?ks = "map fst (filter (wanted \<circ> snd) m')"
  have entries: "(k, v) \<in> set m' \<longleftrightarrow> entry k = Some v" for k v
    using assms(1) by (simp add: same assms(2) [symmetric])
  have "filter wanted (sort_by cmp (map snd m)) = map snd (filter (wanted \<circ> snd) m')"
    unfolding m'(2) [symmetric] by (simp add: filter_map)
  moreover have "map Some (map snd (filter (wanted \<circ> snd) m')) = map entry ?ks"
    using entries by (auto simp: comp_def)
  moreover have "k \<in> set ?ks \<longleftrightarrow> (\<exists>v. entry k = Some v \<and> wanted v)" for k
    using entries by force
  moreover have "distinct ?ks" using \<open>distinct (map fst m')\<close> by (simp add: distinct_map_filter)
  ultimately show ?thesis unfolding oncePer_def by metis
qed

text \<open>
  C31. A run requests the best parses of the displayed raids that still need it, newest kill first, within
  half of what the identity request leaves of the budget; what it does not reach is left over, and
  only when that half is used up.
\<close>

theorem tier_zones_exact:
  assumes "js_runtime E" and "tierZonePlan E K kills options cap = (zones, unreached)"
  shows "oncePer (zoneOf E K kills) (needsRequest options) (zones @ unreached) \<and>
    sorted_wrt (\<lambda>a b. localeCompare E (tz_latestKilledAt b) (tz_latestKilledAt a) \<le> 0) (zones @ unreached) \<and>
    (1 \<le> cap \<longrightarrow> 2 * int (length zones) + 1 \<le> cap \<and> (unreached = [] \<or> cap \<le> 2 * int (length zones) + 2))"
proof -
  define pending where "pending = filter (needsRequest options) (sort_by (compareZones E) (map snd (foldl (addZone E K) [] kills)))"
  have split: "zones = take (slice_index ((cap - 1) div 2) pending) pending" "unreached = drop (slice_index ((cap - 1) div 2) pending) pending"
    using assms(2) by (auto simp: tierZonePlan_def Let_def pending_def zonePending_needs)
  then have all: "zones @ unreached = pending" by simp
  have "oncePer (zoneOf E K kills) (needsRequest options) (zones @ unreached)"
    unfolding all pending_def by (rule oncePer_sorted [OF zones_distinct zones_get])
  moreover have "sorted_wrt (\<lambda>a b. compareZones E a b \<le> 0) pending"
    unfolding pending_def by (rule sorted_wrt_filter) (rule js_comparator.sorted_sort_by [OF js_comparator_zones [OF assms(1)]])
  then have "sorted_wrt (\<lambda>a b. localeCompare E (tz_latestKilledAt b) (tz_latestKilledAt a) \<le> 0) (zones @ unreached)"
    unfolding all by (rule sorted_wrt_mono_rel [rotated]) (auto simp: compareZones_def or_else_def split: if_splits)
  moreover have "2 * int (length zones) + 1 \<le> cap \<and> (unreached = [] \<or> cap \<le> 2 * int (length zones) + 2)" if "1 \<le> cap"
    using that unfolding split slice_index_def by (auto simp: min_def)
  ultimately show ?thesis by blast
qed

subsection \<open>Parse groups\<close>

definition firstKill :: "firstKillEvidence list \<Rightarrow> firstKillEvidence \<Rightarrow> bool" where
  \<comment> \<open>no kill of the same boss and difficulty is earlier, and none at the same time comes before it\<close>
  "firstKill kills kill \<longleftrightarrow>
     (\<exists>before after. kills = before @ kill # after \<and>
        (\<forall>k \<in> set before. bossKeyOf k = bossKeyOf kill \<longrightarrow> fe_killedAt kill < fe_killedAt k) \<and>
        (\<forall>k \<in> set after. bossKeyOf k = bossKeyOf kill \<longrightarrow> fe_killedAt kill \<le> fe_killedAt k))"

lemma firstKill_snoc:
  "firstKill (kills @ [x]) kill \<longleftrightarrow>
     firstKill kills kill \<and> (bossKeyOf x = bossKeyOf kill \<longrightarrow> fe_killedAt kill \<le> fe_killedAt x) \<or>
     kill = x \<and> (\<forall>k \<in> set kills. bossKeyOf k = bossKeyOf x \<longrightarrow> fe_killedAt x < fe_killedAt k)"
proof
  assume "firstKill (kills @ [x]) kill"
  then obtain before after where k: "kills @ [x] = before @ kill # after"
    "\<forall>k \<in> set before. bossKeyOf k = bossKeyOf kill \<longrightarrow> fe_killedAt kill < fe_killedAt k"
    "\<forall>k \<in> set after. bossKeyOf k = bossKeyOf kill \<longrightarrow> fe_killedAt kill \<le> fe_killedAt k"
    unfolding firstKill_def by blast
  show "firstKill kills kill \<and> (bossKeyOf x = bossKeyOf kill \<longrightarrow> fe_killedAt kill \<le> fe_killedAt x) \<or>
     kill = x \<and> (\<forall>k \<in> set kills. bossKeyOf k = bossKeyOf x \<longrightarrow> fe_killedAt x < fe_killedAt k)"
  proof (cases after rule: rev_cases)
    case Nil
    then show ?thesis using k by simp
  next
    case (snoc rest y)
    then have "kills = before @ kill # rest" "y = x" using k(1) by simp_all
    then show ?thesis using k(2,3) snoc unfolding firstKill_def by (intro disjI1 conjI exI [of _ before] exI [of _ rest]) auto
  qed
next
  assume "firstKill kills kill \<and> (bossKeyOf x = bossKeyOf kill \<longrightarrow> fe_killedAt kill \<le> fe_killedAt x) \<or>
     kill = x \<and> (\<forall>k \<in> set kills. bossKeyOf k = bossKeyOf x \<longrightarrow> fe_killedAt x < fe_killedAt k)"
  then show "firstKill (kills @ [x]) kill"
  proof (elim disjE conjE)
    assume "firstKill kills kill" and x: "bossKeyOf x = bossKeyOf kill \<longrightarrow> fe_killedAt kill \<le> fe_killedAt x"
    then obtain before after where "kills = before @ kill # after"
      "\<forall>k \<in> set before. bossKeyOf k = bossKeyOf kill \<longrightarrow> fe_killedAt kill < fe_killedAt k"
      "\<forall>k \<in> set after. bossKeyOf k = bossKeyOf kill \<longrightarrow> fe_killedAt kill \<le> fe_killedAt k"
      unfolding firstKill_def by blast
    with x show ?thesis unfolding firstKill_def by (intro exI [of _ before] exI [of _ "after @ [x]"]) auto
  qed (unfold firstKill_def, intro exI [of _ kills] exI [of _ "[]"], simp)
qed

lemma firstKill_least:
  assumes "firstKill kills kill" and "k \<in> set kills" and "bossKeyOf k = bossKeyOf kill"
  shows "fe_killedAt kill \<le> fe_killedAt k"
proof -
  obtain before after where "kills = before @ kill # after"
    "\<forall>k \<in> set before. bossKeyOf k = bossKeyOf kill \<longrightarrow> fe_killedAt kill < fe_killedAt k"
    "\<forall>k \<in> set after. bossKeyOf k = bossKeyOf kill \<longrightarrow> fe_killedAt kill \<le> fe_killedAt k"
    using assms(1) unfolding firstKill_def by blast
  then show ?thesis using assms(2,3) order.strict_implies_order by (cases "k = kill"; cases "k \<in> set before") auto
qed

lemma noteEarliest_get:
  "map_get (noteEarliest m x) key =
     (if bossKeyOf x = key
      then Some (case map_get m key of
             None \<Rightarrow> (fe_killedAt x, fe_fightUrl x)
           | Some (t, u) \<Rightarrow> if fe_killedAt x < t then (fe_killedAt x, fe_fightUrl x) else (t, u))
      else map_get m key)"
  by (auto simp: noteEarliest_def Let_def update_conv' split: option.split)

lemma earliest_get:
  "map_get (foldl noteEarliest [] kills) key = None \<longleftrightarrow> (\<forall>k \<in> set kills. bossKeyOf k \<noteq> key)"
  "map_get (foldl noteEarliest [] kills) key = Some entry \<longleftrightarrow>
     (\<exists>kill. firstKill kills kill \<and> bossKeyOf kill = key \<and> entry = (fe_killedAt kill, fe_fightUrl kill))"
proof (induction kills arbitrary: entry rule: rev_induct)
  case Nil
  {
    case 1
    show ?case by simp
  next
    case 2
    show ?case by (simp add: firstKill_def)
  }
next
  case (snoc x kills)
  let ?m = "foldl noteEarliest [] kills"
  {
    case 1
    show ?case using snoc(1) by (auto simp: noteEarliest_get)
  next
    case (2 entry)
    have at_key: "map_get ?m key = Some (fe_killedAt k, fe_fightUrl k)" if "firstKill kills k" "bossKeyOf k = key" for k
      using snoc(2) [of "(fe_killedAt k, fe_fightUrl k)"] that by blast
    have here: "firstKill kills k \<Longrightarrow> k \<in> set kills" for k by (auto simp: firstKill_def)
    show ?case
    proof (cases "bossKeyOf x = key")
      case False
      then show ?thesis using snoc(2) [of entry] by (simp add: noteEarliest_get firstKill_snoc) blast
    next
      case True
      show ?thesis
      proof (cases "map_get ?m key")
        case None
        then have "\<forall>k \<in> set kills. bossKeyOf k \<noteq> key" using snoc(1) by blast
        then show ?thesis using None True here by (simp add: noteEarliest_get firstKill_snoc) blast
      next
        case (Some seen)
        then obtain k0 where k0: "firstKill kills k0" "bossKeyOf k0 = key" "seen = (fe_killedAt k0, fe_fightUrl k0)"
          using snoc(2) [of seen] by blast
        have same: "(fe_killedAt k, fe_fightUrl k) = seen" if "firstKill kills k" "bossKeyOf k = key" for k
          using at_key [OF that] Some by simp
        show ?thesis
        proof (cases "fe_killedAt x < fe_killedAt k0")
          case True
          then have "\<forall>k \<in> set kills. bossKeyOf k = key \<longrightarrow> fe_killedAt x < fe_killedAt k"
            using firstKill_least [OF k0(1)] k0(2) by (metis order.strict_trans2)
          moreover have "\<not> (firstKill kills k \<and> bossKeyOf k = key \<and> fe_killedAt k \<le> fe_killedAt x)" for k
            using same [of k] True k0(3) by auto
          ultimately show ?thesis using Some True \<open>bossKeyOf x = key\<close> k0(3) by (simp add: noteEarliest_get firstKill_snoc) blast
        next
          case False
          have "\<not> (\<forall>k \<in> set kills. bossKeyOf k = key \<longrightarrow> fe_killedAt x < fe_killedAt k)"
            using False here [OF k0(1)] k0(2) by blast
          moreover have "(\<exists>k. firstKill kills k \<and> bossKeyOf k = key \<and> fe_killedAt k \<le> fe_killedAt x \<and> entry = (fe_killedAt k, fe_fightUrl k))
              \<longleftrightarrow> entry = seen"
            using same k0 False by (metis not_less)
          ultimately have "(\<exists>k. firstKill (kills @ [x]) k \<and> bossKeyOf k = key \<and> entry = (fe_killedAt k, fe_fightUrl k))
              \<longleftrightarrow> entry = seen"
            unfolding firstKill_snoc using \<open>bossKeyOf x = key\<close> by metis
          then show ?thesis using Some False \<open>bossKeyOf x = key\<close> k0(3) by (auto simp: noteEarliest_get)
        qed
      qed
    qed
  }
qed

definition firstKillFight :: "firstKillEvidence list \<Rightarrow> string \<Rightarrow> bool" where
  "firstKillFight kills url \<longleftrightarrow> (\<exists>kill. firstKill kills kill \<and> fe_fightUrl kill = url)"

lemma distinct_noteEarliest: "distinct (map fst (foldl noteEarliest [] kills))"
  by (induction kills rule: rev_induct) (auto simp: noteEarliest_def Let_def distinct_update split: option.split)

lemma firstKillFightUrls_exact: "url \<in> set (firstKillFightUrls kills) \<longleftrightarrow> firstKillFight kills url"
proof -
  have "url \<in> set (firstKillFightUrls kills) \<longleftrightarrow> (\<exists>key t. map_get (foldl noteEarliest [] kills) key = Some (t, url))"
    using distinct_noteEarliest [of kills] unfolding firstKillFightUrls_def by force
  then show ?thesis unfolding earliest_get(2) firstKillFight_def by auto
qed

definition toRead :: "js_env \<Rightarrow> catalogueData \<Rightarrow> planOptions \<Rightarrow> firstKillEvidence list \<Rightarrow> string \<Rightarrow> firstKillEvidence list" where
  \<comment> \<open>the kills of a report whose parses are still to read\<close>
  "toRead E K options kills code = filter (\<lambda>kill. fe_reportCode kill = code) (filter (hydratable E K options) kills)"

definition groupExact :: "js_env \<Rightarrow> firstKillEvidence list \<Rightarrow> firstKillEvidence list \<Rightarrow> parseGroup \<Rightarrow> bool" where
  \<comment> \<open>the group of the kills \<open>ks\<close> of one report: the last kill of a fight names it\<close>
  "groupExact E kills ks g \<longleftrightarrow>
     (\<forall>fight. map_get (pg_fights g) fight = map_option (fightOf E) (find (\<lambda>k. fe_fightId k = fight) (rev ks))) \<and>
     pg_earliestKilledAt g = Min (fe_killedAt ` set ks) \<and> pg_latestKilledAt g = Max (fe_killedAt ` set ks) \<and>
     (pg_hasFirstKill g \<longleftrightarrow> (\<exists>k \<in> set ks. firstKillFight kills (fe_fightUrl k)))"

definition groupBefore :: "js_env \<Rightarrow> parseGroup \<Rightarrow> parseGroup \<Rightarrow> bool" where
  \<comment> \<open>a report with a first kill before one without, then the newer before the older\<close>
  "groupBefore E a b \<longleftrightarrow>
     (pg_hasFirstKill b \<longrightarrow> pg_hasFirstKill a) \<and>
     (pg_hasFirstKill a = pg_hasFirstKill b \<longrightarrow> localeCompare E (pg_latestKilledAt b) (pg_latestKilledAt a) \<le> 0)"

definition namesExactly :: "(string, string list) jsmap \<Rightarrow> (string \<Rightarrow> string list) \<Rightarrow> bool" where
  \<comment> \<open>the map holds, under each key with any, the names of the key once each\<close>
  "namesExactly m names \<longleftrightarrow>
     (\<forall>code. case map_get m code of
        None \<Rightarrow> names code = [] | Some held \<Rightarrow> names code \<noteq> [] \<and> distinct held \<and> set held = set (names code))"

lemma groupKills_folds:
  "groupKills E K options firstKills kills (groups, raidIds, fightUrls) =
     (let ks = filter (hydratable E K options) kills in
      (foldl (\<lambda>m k. upsert (fe_reportCode k) (startGroup E firstKills k) (extendGroup E firstKills k) m) groups ks,
       foldl (\<lambda>m k. upsert (fe_reportCode k) [fe_raidId k] (set_add (fe_raidId k)) m) raidIds ks,
       foldl (\<lambda>m k. upsert (fe_reportCode k) [fe_fightUrl k] (set_add (fe_fightUrl k)) m) fightUrls ks))"
  by (induction kills arbitrary: groups raidIds fightUrls) (simp_all add: Let_def)

lemma names_collected:
  "namesExactly (foldl (\<lambda>m k. upsert (fe_reportCode k) [name k] (set_add (name k)) m) [] ks)
     (\<lambda>code. map name (filter (\<lambda>k. fe_reportCode k = code) ks))"
  unfolding namesExactly_def
proof
  fix code
  let ?ks = "filter (\<lambda>k. fe_reportCode k = code) ks"
  have "distinct held \<and> set held = name ` set ?ks" if "collected (\<lambda>k. [name k]) (\<lambda>k. set_add (name k)) ?ks = Some held" for held
    by (rule collected_invariant [OF that, of "\<lambda>ks held. distinct held \<and> set held = name ` set ks"]) auto
  then show "case map_get (foldl (\<lambda>m k. upsert (fe_reportCode k) [name k] (set_add (name k)) m) [] ks) code of
      None \<Rightarrow> map name ?ks = [] | Some held \<Rightarrow> map name ?ks \<noteq> [] \<and> distinct held \<and> set held = set (map name ?ks)"
    unfolding upserts_get using collected_None [of "\<lambda>k. [name k]" "\<lambda>k. set_add (name k)" ?ks]
    by (auto split: option.split simp del: collected_None)
qed

lemma group_collected:
  assumes "collected (startGroup E fk) (extendGroup E fk) ks = Some g" and "\<And>url. url \<in> set fk \<longleftrightarrow> firstKillFight kills url"
    and "list_all (\<lambda>k. fe_reportCode k = code) ks"
  shows "pg_reportCode g = code \<and> groupExact E kills ks g"
proof -
  let ?P = "\<lambda>ks g. ks \<noteq> [] \<and> pg_reportCode g = fe_reportCode (hd ks) \<and> groupExact E kills ks g"
  have start: "?P [x] (startGroup E fk x)" for x
    by (auto simp: groupExact_def startGroup_def assms(2))
  have extend: "?P (ys @ [y]) (extendGroup E fk y g)" if ys: "ys \<noteq> []" and g: "?P ys g" for ys y g
  proof -
    from g have g: "\<And>fight. map_get (pg_fights g) fight = map_option (fightOf E) (find (\<lambda>k. fe_fightId k = fight) (rev ys))"
      "pg_earliestKilledAt g = Min (fe_killedAt ` set ys)" "pg_latestKilledAt g = Max (fe_killedAt ` set ys)"
      "pg_hasFirstKill g \<longleftrightarrow> (\<exists>k \<in> set ys. firstKillFight kills (fe_fightUrl k))" "pg_reportCode g = fe_reportCode (hd ys)"
      by (simp_all add: groupExact_def)
    have "map_get (pg_fights (extendGroup E fk y g)) fight = map_option (fightOf E) (find (\<lambda>k. fe_fightId k = fight) (rev (ys @ [y])))" for fight
      using g(1) [of fight] by (simp add: extendGroup_def update_conv')
    moreover have "pg_earliestKilledAt (extendGroup E fk y g) = Min (fe_killedAt ` set (ys @ [y]))"
      unfolding Min_image_snoc [OF ys] by (simp add: extendGroup_def g(2))
    moreover have "pg_latestKilledAt (extendGroup E fk y g) = Max (fe_killedAt ` set (ys @ [y]))"
      unfolding Max_image_snoc [OF ys] by (simp add: extendGroup_def g(3))
    moreover have "pg_hasFirstKill (extendGroup E fk y g) \<longleftrightarrow> (\<exists>k \<in> set (ys @ [y]). firstKillFight kills (fe_fightUrl k))"
      by (simp add: extendGroup_def g(4) assms(2)) blast
    ultimately show ?thesis using ys g(5) by (simp add: groupExact_def extendGroup_def)
  qed
  have "?P ks g" by (rule collected_invariant [OF assms(1), of ?P], rule start, rule extend)
  then show ?thesis using assms(3) by (cases ks) auto
qed

lemma js_comparator_groups: "js_runtime E \<Longrightarrow> js_comparator (comparePlanGroups E)"
  unfolding comparePlanGroups_def [abs_def]
  by (rule js_comparator_or_else
      [OF js_comparator_pullback [where f = "\<lambda>g. of_bool (pg_hasFirstKill g)", OF js_comparator_flipped [OF js_comparator_minus]]
        js_comparator_or_else
        [OF js_comparator_pullback [where f = pg_latestKilledAt, OF js_comparator_flipped [OF js_runtime.collation]]
          js_comparator_pullback [where f = pg_reportCode, OF js_runtime.collation]]])

lemma comparePlanGroups_before: "comparePlanGroups E a b \<le> 0 \<Longrightarrow> groupBefore E a b"
  by (auto simp: comparePlanGroups_def groupBefore_def or_else_def of_bool_def split: if_splits)

text \<open>
  C32. The reports a run reads rankings of are exactly those with a fight still to read that the dossier
  can show, each once and with all such fights; a report that has a boss's first kill comes before
  any without, and the newer before the older; the raids and fights noted under a report are those
  of its kills.
\<close>

theorem parse_groups_exact:
  assumes "js_runtime E" and "parseGroupPlan_of E K kills options = plan"
  shows "distinct (map pg_reportCode (pp_groups plan)) \<and>
    pg_reportCode ` set (pp_groups plan) = {code. toRead E K options kills code \<noteq> []} \<and>
    list_all (\<lambda>g. groupExact E kills (toRead E K options kills (pg_reportCode g)) g) (pp_groups plan) \<and>
    sorted_wrt (groupBefore E) (pp_groups plan) \<and>
    namesExactly (pp_raidIds plan) (\<lambda>code. map fe_raidId (toRead E K options kills code)) \<and>
    namesExactly (pp_fightUrls plan) (\<lambda>code. map fe_fightUrl (toRead E K options kills code))"
proof -
  let ?fk = "firstKillFightUrls kills"
  let ?ks = "filter (hydratable E K options) kills"
  define m where "m = foldl (\<lambda>m k. upsert (fe_reportCode k) (startGroup E ?fk k) (extendGroup E ?fk k) m) [] ?ks"
  have plan: "pp_groups plan = sort_by (comparePlanGroups E) (map snd m)"
    "pp_raidIds plan = foldl (\<lambda>m k. upsert (fe_reportCode k) [fe_raidId k] (set_add (fe_raidId k)) m) [] ?ks"
    "pp_fightUrls plan = foldl (\<lambda>m k. upsert (fe_reportCode k) [fe_fightUrl k] (set_add (fe_fightUrl k)) m) [] ?ks"
    using assms(2) by (auto simp: parseGroupPlan_of_def groupKills_folds Let_def m_def)
  have keys: "distinct (map fst m)" unfolding m_def by (rule upserts_distinct)
  have entry: "map_get m code = collected (startGroup E ?fk) (extendGroup E ?fk) (toRead E K options kills code)" for code
    unfolding m_def toRead_def by (rule upserts_get)
  have exact: "pg_reportCode g = code \<and> groupExact E kills (toRead E K options kills code) g" if "(code, g) \<in> set m" for code g
  proof (rule group_collected)
    show "collected (startGroup E ?fk) (extendGroup E ?fk) (toRead E K options kills code) = Some g"
      using that keys entry [of code] by simp
  qed (auto simp: firstKillFightUrls_exact toRead_def list_all_iff)
  then have codes: "map pg_reportCode (map snd m) = map fst m" by auto
  have once: "distinct (map pg_reportCode (pp_groups plan))"
    unfolding plan(1) distinct_map_sort_by codes by (rule keys)
  have "pg_reportCode ` set (pp_groups plan) = set (map pg_reportCode (map snd m))"
    unfolding plan(1) by (simp only: set_sort_by set_map)
  also have "\<dots> = {code. map_get m code \<noteq> None}" unfolding codes by (auto simp: map_of_eq_None_iff)
  also have "\<dots> = {code. toRead E K options kills code \<noteq> []}" unfolding entry by simp
  finally have all: "pg_reportCode ` set (pp_groups plan) = {code. toRead E K options kills code \<noteq> []}" .
  have groups: "list_all (\<lambda>g. groupExact E kills (toRead E K options kills (pg_reportCode g)) g) (pp_groups plan)"
    unfolding plan(1) list_all_iff using exact by fastforce
  have "sorted_wrt (\<lambda>a b. comparePlanGroups E a b \<le> 0) (pp_groups plan)"
    unfolding plan(1) by (rule js_comparator.sorted_sort_by [OF js_comparator_groups [OF assms(1)]])
  then have sorted: "sorted_wrt (groupBefore E) (pp_groups plan)"
    by (rule sorted_wrt_mono_rel [rotated]) (rule comparePlanGroups_before)
  show ?thesis using once all groups sorted names_collected unfolding plan(2,3) toRead_def by blast
qed

subsection \<open>Search hints\<close>

definition settledRaids :: "js_env \<Rightarrow> catalogueData \<Rightarrow> string option \<Rightarrow> string set" where
  \<comment> \<open>raids whose last content window is known to have ended before the scan floor\<close>
  "settledRaids E K killScanFloor =
     {slug. \<exists>endsAt t cutoff. raiderIoRaidContentWindowEnd E K slug = Some endsAt \<and> dateParse E endsAt = Some t \<and>
        Option.bind killScanFloor (dateParse E) = Some cutoff \<and> t < cutoff}"

definition whileCurrent :: "js_env \<Rightarrow> catalogueData \<Rightarrow> historicMythicKill \<Rightarrow> bool" where
  \<comment> \<open>the kill was not made after its raid's last window ended\<close>
  "whileCurrent E K kill \<longleftrightarrow>
     (\<forall>endsAt t killed. raiderIoRaidContentWindowEnd E K (hk_raidSlug kill) = Some endsAt \<longrightarrow> dateParse E endsAt = Some t \<longrightarrow>
        dateParse E (hk_firstDefeated kill) = Some killed \<longrightarrow> killed \<le> t)"

lemma settled_tier_exact:
  "ordinal \<in> set (settledTierOrdinals E (raiderIoRaidContentWindowEnd E K) tiers killScanFloor) \<longleftrightarrow>
     (\<exists>i < length tiers - 1. pt_ordinal (tiers ! i) = ordinal \<and> set (pt_raidSlugs (tiers ! i)) \<subseteq> settledRaids E K killScanFloor \<and>
        Option.bind killScanFloor (dateParse E) \<noteq> None)"
proof (cases "Option.bind killScanFloor (dateParse E)")
  case (Some cutoff)
  have "(case raiderIoRaidContentWindowEnd E K slug of None \<Rightarrow> False
      | Some endsAt \<Rightarrow> (case dateParse E endsAt of None \<Rightarrow> False | Some t \<Rightarrow> t < cutoff)) \<longleftrightarrow>
    slug \<in> settledRaids E K killScanFloor" for slug
    using Some by (auto simp: settledRaids_def split: option.split)
  moreover have "i < length tiers - 1 \<longleftrightarrow> i < length tiers \<and> i \<noteq> length tiers - 1" for i by auto
  ultimately show ?thesis
    using Some unfolding settledTierOrdinals_def Let_def
    by (auto simp: in_set_enumerate_eq image_iff list_all_iff subset_iff simp del: One_nat_def)
qed (simp add: settledTierOrdinals_def)

definition tierSettled :: "js_env \<Rightarrow> catalogueData \<Rightarrow> string option \<Rightarrow> pinnedTier \<Rightarrow> bool" where
  \<comment> \<open>not the newest tier, and every raid of it closed before the floor\<close>
  "tierSettled E K killScanFloor tier \<longleftrightarrow>
     tier \<noteq> last raiderIoHistoricTiers \<and> Option.bind killScanFloor (dateParse E) \<noteq> None \<and>
     set (pt_raidSlugs tier) \<subseteq> settledRaids E K killScanFloor"

definition askedTiers :: "js_env \<Rightarrow> catalogueData \<Rightarrow> string option \<Rightarrow> int list \<Rightarrow> int list" where
  "askedTiers E K = historicTierOrdinalsFrom E (raiderIoRaidContentWindowEnd E K) raiderIoHistoricTiers"

lemma pinned_ordinals: "distinct (map pt_ordinal raiderIoHistoricTiers)" "raiderIoHistoricTiers \<noteq> []"
  by (simp_all add: raiderIoHistoricTiers_def)

lemma pinned_settled:
  assumes "tier \<in> set raiderIoHistoricTiers"
  shows "pt_ordinal tier \<in> set (settledTierOrdinals E (raiderIoRaidContentWindowEnd E K) raiderIoHistoricTiers killScanFloor) \<longleftrightarrow>
    tierSettled E K killScanFloor tier"
proof -
  let ?n = "length raiderIoHistoricTiers"
  obtain i where i: "i < ?n" "tier = raiderIoHistoricTiers ! i" using assms by (auto simp: in_set_conv_nth)
  have same: "pt_ordinal (raiderIoHistoricTiers ! j) = pt_ordinal tier \<longleftrightarrow> j = i" if "j < ?n" for j
    using nth_eq_iff_index_eq [OF pinned_ordinals(1), of j i] i that by simp
  have newest: "last raiderIoHistoricTiers = raiderIoHistoricTiers ! (?n - 1)" by (rule last_conv_nth [OF pinned_ordinals(2)])
  have "tier = last raiderIoHistoricTiers \<longleftrightarrow> i = ?n - 1"
    unfolding newest using same [of "?n - 1"] i(1) by (metis diff_less i(2) length_greater_0_conv pinned_ordinals(2) zero_less_one)
  then have "i < ?n - 1 \<longleftrightarrow> tier \<noteq> last raiderIoHistoricTiers" using i(1) by linarith
  then show ?thesis
    unfolding settled_tier_exact tierSettled_def using same i by (metis (no_types, lifting) diff_le_self order.strict_trans2)
qed

lemma asked_iff:
  assumes "tier \<in> set raiderIoHistoricTiers"
  shows "pt_ordinal tier \<in> set (askedTiers E K killScanFloor marked) \<longleftrightarrow>
    \<not> (pt_ordinal tier \<in> set marked \<and> tierSettled E K killScanFloor tier)"
proof -
  have "pt_ordinal tier \<in> set (askedTiers E K killScanFloor marked) \<longleftrightarrow>
      pt_ordinal tier \<notin> set (settledTierOrdinals E (raiderIoRaidContentWindowEnd E K) raiderIoHistoricTiers killScanFloor) \<or>
      pt_ordinal tier \<notin> set marked"
    using assms by (auto simp: askedTiers_def historicTierOrdinalsFrom_def Let_def)
  then show ?thesis using pinned_settled [OF assms] by blast
qed

lemma settled_kill_no_hint:
  assumes "hk_raidSlug kill \<in> settledRaids E K killScanFloor" and "whileCurrent E K kill"
  shows "searchableKill E stored (Option.bind killScanFloor (dateParse E)) kill = []"
proof -
  obtain endsAt t cutoff where "raiderIoRaidContentWindowEnd E K (hk_raidSlug kill) = Some endsAt" "dateParse E endsAt = Some t"
    "Option.bind killScanFloor (dateParse E) = Some cutoff" "t < cutoff"
    using assms(1) unfolding settledRaids_def by blast
  then show ?thesis
    using assms(2) unfolding whileCurrent_def by (auto simp: searchableKill_def split: option.split)
qed

lemma concat_map_filter_Nil: "(\<And>x. x \<in> set xs \<Longrightarrow> \<not> P x \<Longrightarrow> f x = []) \<Longrightarrow> concat (map f (filter P xs)) = concat (map f xs)"
  by (induction xs) auto

lemma back_catalogue_settled:
  "set (slugsOfTiers (\<lambda>ordinal. ordinal \<in> set (filter (\<lambda>ordinal. ordinal \<in> set (settledTierOrdinals E (raiderIoRaidContentWindowEnd E K)
      raiderIoHistoricTiers killScanFloor)) asked))) \<subseteq> settledRaids E K killScanFloor"
  using pinned_settled [of _ E K killScanFloor] by (auto simp: slugsOfTiers_def tierSettled_def)

text \<open>
  C33. Leaving tiers out loses no search hint. A Raider.IO tier is left out exactly when it is marked as
  read and settled, which the newest never is; no kill made in a raid of such a tier while it was
  current would be a hint; and the hints of a run are those of every kill Raider.IO answered with,
  when the kills of settled raids were made while those were current.
\<close>

theorem hints_lose_nothing:
  assumes "getHistoricMythicKills (askedTiers E K killScanFloor marked) = Inr (Historic_kills kills)"
    and "\<And>kill. kill \<in> set kills \<Longrightarrow> hk_raidSlug kill \<in> settledRaids E K killScanFloor \<Longrightarrow> whileCurrent E K kill"
  shows "(\<exists>r. raiderIoVerifiedKills E K getHistoricMythicKills aborted stored killScanFloor marked = Inr r \<and>
       vr_firstKills r = Some kills \<and> vr_kills r = searchableKills E stored killScanFloor kills) \<and>
    (\<forall>tier \<in> set raiderIoHistoricTiers.
       (pt_ordinal tier \<notin> set (askedTiers E K killScanFloor marked) \<longleftrightarrow>
          pt_ordinal tier \<in> set marked \<and> tierSettled E K killScanFloor tier) \<and>
       (tierSettled E K killScanFloor tier \<longrightarrow>
          (\<forall>kill. hk_raidSlug kill \<in> set (pt_raidSlugs tier) \<and> whileCurrent E K kill \<longrightarrow>
             searchableKills E stored killScanFloor [kill] = [])))"
proof (intro conjI ballI)
  let ?hint = "searchableKill E (List.map_filter (dateParse E) stored) (Option.bind killScanFloor (dateParse E))"
  let ?excluded = "set (slugsOfTiers (\<lambda>ordinal. ordinal \<in> set (filter (\<lambda>ordinal. ordinal \<in>
      set (settledTierOrdinals E (raiderIoRaidContentWindowEnd E K) raiderIoHistoricTiers killScanFloor))
      (askedTiers E K killScanFloor marked))))"
  have "concat (map ?hint (filter (\<lambda>kill. hk_raidSlug kill \<notin> ?excluded) kills)) = concat (map ?hint kills)"
  proof (rule concat_map_filter_Nil)
    fix kill assume "kill \<in> set kills" and "\<not> hk_raidSlug kill \<notin> ?excluded"
    then have "hk_raidSlug kill \<in> settledRaids E K killScanFloor" using back_catalogue_settled by blast
    with assms(2) \<open>kill \<in> set kills\<close> show "?hint kill = []" by (blast intro: settled_kill_no_hint)
  qed
  then show "\<exists>r. raiderIoVerifiedKills E K getHistoricMythicKills aborted stored killScanFloor marked = Inr r \<and>
       vr_firstKills r = Some kills \<and> vr_kills r = searchableKills E stored killScanFloor kills"
    using assms(1) by (simp add: raiderIoVerifiedKills_def Let_def searchableKills_def askedTiers_def)
next
  fix tier assume tier: "tier \<in> set raiderIoHistoricTiers"
  show "pt_ordinal tier \<notin> set (askedTiers E K killScanFloor marked) \<longleftrightarrow>
      pt_ordinal tier \<in> set marked \<and> tierSettled E K killScanFloor tier"
    using asked_iff [OF tier] by blast
  show "tierSettled E K killScanFloor tier \<longrightarrow>
      (\<forall>kill. hk_raidSlug kill \<in> set (pt_raidSlugs tier) \<and> whileCurrent E K kill \<longrightarrow>
         searchableKills E stored killScanFloor [kill] = [])"
    by (auto simp: searchableKills_def tierSettled_def intro: settled_kill_no_hint)
qed

subsection \<open>A small run\<close>

definition exampleEvidence :: "string \<Rightarrow> string \<times> string \<Rightarrow> string \<Rightarrow> string \<Rightarrow> firstKillEvidence" where
  "exampleEvidence raidId = (\<lambda>(raidName, bossName) killedAt code.
     \<lparr>fe_raidId = raidId, fe_raidName = raidName, fe_bossId = ''1'', fe_bossName = bossName, fe_journalBossId = None,
      fe_killedAt = killedAt, fe_reportCode = code, fe_fightId = 1, fe_difficulty = 5, fe_fightUrl = code @ ''#fight=1''\<rparr>)"

definition exampleHistory :: "firstKillEvidence list" where
  \<comment> \<open>a kill of each raid of the small catalogue, and a repeat of the second\<close>
  "exampleHistory =
     [exampleEvidence ''101'' (''Nerub-ar Palace'', ''Queen Ansurek'') ''2024-10-01T00:00:00.000Z'' ''older'',
      exampleEvidence ''102'' (''Liberation of Undermine'', ''The One-Armed Bandit'') ''2025-04-08T00:00:00.000Z'' ''repeat'',
      exampleEvidence ''102'' (''Liberation of Undermine'', ''The One-Armed Bandit'') ''2025-04-01T00:00:00.000Z'' ''first'']"

definition noOptions :: planOptions where
  "noOptions = \<lparr>po_hydratedFightUrls = None, po_collectedTierZones = None, po_terminalRaidIds = None, po_parseJournalRaidId = None\<rparr>"

lemma example_numbers:
  "stringToNumber ascii_env ''101'' = Finite (of_nat 101)" "stringToNumber ascii_env ''102'' = Finite (of_nat 102)"
  "stringToNumber ascii_env ''1'' = Finite (of_nat 1)"
  using stringToNumber_decimal [of "''101''" ascii_env] stringToNumber_decimal [of "''102''" ascii_env]
    stringToNumber_decimal [of "''1''" ascii_env]
  by (simp_all add: js_trim_def ascii_env_def ascii_digit_def digits_value_def less_eq_char_def)

lemma example_current:
  "map (\<lambda>kill. currentContentEligibility ascii_env sample_catalogue (fe_killedAt kill) (fe_raidName kill)) exampleHistory =
     [Some True, Some True, Some True]"
  by code_simp

lemma offers_rankings:
  assumes "map_option re_raidName (lookupRaidBossByName E K raidName bossName) = Some raidName"
    and "map_option rr_raidId (lookupRaidByName E K raidName) = Some raidId"
    and "map_option (mythicDifficultyExistedDuring E) (lookupRaidCurrentContentWindow E K raidId) = Some True"
  shows "raidOffersMythicRankings E K \<lparr>ev_raidName = raidName, ev_bossName = bossName, ev_journalBossId = journal\<rparr>"
  using assms
  by (auto simp: raidOffersMythicRankings_def lookupRaidForEvidence_def lookupRaidEncounterForEvidence_def option_else_def)

lemma example_rankings:
  "raidOffersMythicRankings ascii_env sample_catalogue
     \<lparr>ev_raidName = ''Nerub-ar Palace'', ev_bossName = ''Queen Ansurek'', ev_journalBossId = None\<rparr>"
  "raidOffersMythicRankings ascii_env sample_catalogue
     \<lparr>ev_raidName = ''Liberation of Undermine'', ev_bossName = ''The One-Armed Bandit'', ev_journalBossId = None\<rparr>"
  by (rule offers_rankings [of _ _ _ _ "''1273''"]; code_simp) (rule offers_rankings [of _ _ _ _ "''1296''"]; code_simp)

lemma example_zone_ids: "map (zoneIdOf ascii_env sample_catalogue) exampleHistory = [Some 101, Some 102, Some 102]"
  using example_current example_rankings safeInteger_of_nat [of 101] safeInteger_of_nat [of 102] example_numbers
  by (simp add: exampleHistory_def zoneIdOf_def exampleEvidence_def identityOf_def)

definition examplePlan :: "tierZone list \<times> tierZone list" where
  "examplePlan = tierZonePlan ascii_env sample_catalogue exampleHistory noOptions 3"

lemma example_zone: "zoneOf ascii_env sample_catalogue exampleHistory ''101'' =
    Some \<lparr>tz_zoneId = 101, tz_raidName = ''Nerub-ar Palace'', tz_latestKilledAt = ''2024-10-01T00:00:00.000Z''\<rparr>"
  using example_zone_ids by (simp add: zoneOf_def displayedIn_def exampleHistory_def exampleEvidence_def)

theorem tier_zones_exact_witness:
  "\<lparr>tz_zoneId = 101, tz_raidName = ''Nerub-ar Palace'', tz_latestKilledAt = ''2024-10-01T00:00:00.000Z''\<rparr>
     \<in> set (fst examplePlan @ snd examplePlan) \<and> length (fst examplePlan) \<le> 1"
proof -
  have plan: "tierZonePlan ascii_env sample_catalogue exampleHistory noOptions 3 = (fst examplePlan, snd examplePlan)"
    by (simp add: examplePlan_def)
  note exact = tier_zones_exact [OF ascii.js_runtime_axioms plan]
  have "\<exists>z. z \<in> set (fst examplePlan @ snd examplePlan) \<and> zoneOf ascii_env sample_catalogue exampleHistory ''101'' = Some z"
  proof -
    obtain ks where ks: "map Some (fst examplePlan @ snd examplePlan) = map (zoneOf ascii_env sample_catalogue exampleHistory) ks"
      "\<forall>k. k \<in> set ks \<longleftrightarrow> (\<exists>v. zoneOf ascii_env sample_catalogue exampleHistory k = Some v \<and> needsRequest noOptions v)"
      using exact unfolding oncePer_def by blast
    have "''101'' \<in> set ks" using ks(2) example_zone by (simp add: needsRequest_def noOptions_def)
    then have "zoneOf ascii_env sample_catalogue exampleHistory ''101'' \<in> set (map Some (fst examplePlan @ snd examplePlan))"
      unfolding ks(1) by simp
    then show ?thesis by auto
  qed
  moreover have "length (fst examplePlan) \<le> 1" using exact by simp
  ultimately show ?thesis using example_zone by auto
qed

lemma example_to_read:
  "toRead ascii_env sample_catalogue noOptions exampleHistory ''older'' =
     [exampleEvidence ''101'' (''Nerub-ar Palace'', ''Queen Ansurek'') ''2024-10-01T00:00:00.000Z'' ''older'']"
  using example_current
  by (simp add: toRead_def hydratable_def noOptions_def exampleHistory_def) (simp add: exampleEvidence_def)

theorem parse_groups_exact_witness:
  "\<exists>g \<in> set (pp_groups (parseGroupPlan_of ascii_env sample_catalogue exampleHistory noOptions)).
     pg_reportCode g = ''older'' \<and> map_get (pg_fights g) 1 = Some (Finite 1, 5)"
proof -
  define plan where "plan = parseGroupPlan_of ascii_env sample_catalogue exampleHistory noOptions"
  note exact = parse_groups_exact [OF ascii.js_runtime_axioms plan_def [symmetric]]
  have "''older'' \<in> {code. toRead ascii_env sample_catalogue noOptions exampleHistory code \<noteq> []}"
    using example_to_read by simp
  then obtain g where g: "g \<in> set (pp_groups plan)" "pg_reportCode g = ''older''" using exact by force
  then have "groupExact ascii_env exampleHistory (toRead ascii_env sample_catalogue noOptions exampleHistory ''older'') g"
    using exact by (metis (no_types, lifting) list_all_iff)
  then have "map_get (pg_fights g) 1 = Some (Finite 1, 5)"
    using example_numbers(3) unfolding groupExact_def example_to_read by (simp add: exampleEvidence_def fightOf_def)
  then show ?thesis using g unfolding plan_def by blast
qed

definition exampleFloor :: "string option" where
  "exampleFloor = Some ''2025-06-01T00:00:00.000Z''"

definition exampleAnswer :: "int list \<Rightarrow> unit + historicAnswer" where
  \<comment> \<open>one kill of the current tier\<close>
  "exampleAnswer = (\<lambda>_. Inr (Historic_kills
     [\<lparr>hk_raidSlug = ''manaforge-omega'', hk_bossSlug = ''plexus-sentinel'', hk_firstDefeated = ''2025-08-20T20:00:00.000Z'',
       hk_guild = Some \<lparr>hg_name = ''Guild'', hg_realm = ''tarren-mill'', hg_region = ''eu''\<rparr>, hk_loggedEncounterId = None\<rparr>]))"

lemma example_windows:
  "raiderIoRaidContentWindowEnd ascii_env sample_catalogue ''nerubar-palace'' = Some ''2025-03-04T00:00:00.000Z''"
  "raiderIoRaidContentWindowEnd ascii_env sample_catalogue ''manaforge-omega'' = Some ''2026-03-17T00:00:00.000Z''"
  "map (dateParse ascii_env) [''2025-03-04T00:00:00.000Z'', ''2025-06-01T00:00:00.000Z'', ''2026-03-17T00:00:00.000Z'',
       ''2025-08-20T20:00:00.000Z''] =
     [Some 1741046400000, Some 1748736000000, Some 1773705600000, Some 1755720000000]"
  by code_simp+

lemma example_settled:
  "tierSettled ascii_env sample_catalogue exampleFloor \<lparr>pt_ordinal = 32, pt_raidSlugs = [''nerubar-palace'']\<rparr>"
  using example_windows by (simp add: tierSettled_def settledRaids_def exampleFloor_def raiderIoHistoricTiers_def)

theorem hints_lose_nothing_witness:
  "32 \<notin> set (askedTiers ascii_env sample_catalogue exampleFloor [32]) \<and>
   (\<exists>r. raiderIoVerifiedKills ascii_env sample_catalogue exampleAnswer False [] exampleFloor [32] = Inr r \<and>
      map hg_name (map vk_guild (vr_kills r)) = [''Guild''])"
proof -
  obtain kills where kills: "exampleAnswer = (\<lambda>_. Inr (Historic_kills kills))" "map hk_raidSlug kills = [''manaforge-omega'']"
    "map (\<lambda>k. map hg_name (map vk_guild (searchableKills ascii_env [] exampleFloor [k]))) kills = [[''Guild'']]"
  proof
    show "map (\<lambda>k. map hg_name (map vk_guild (searchableKills ascii_env [] exampleFloor [k])))
      [\<lparr>hk_raidSlug = ''manaforge-omega'', hk_bossSlug = ''plexus-sentinel'', hk_firstDefeated = ''2025-08-20T20:00:00.000Z'',
       hk_guild = Some \<lparr>hg_name = ''Guild'', hg_realm = ''tarren-mill'', hg_region = ''eu''\<rparr>, hk_loggedEncounterId = None\<rparr>] = [[''Guild'']]"
      using example_windows(3)
      by (simp add: searchableKills_def searchableKill_def exampleFloor_def supportedRegions_def map_filter_def)
  qed (simp_all add: exampleAnswer_def)
  obtain kill where kill: "kills = [kill]" using kills(2) by (cases kills) auto
  have "''manaforge-omega'' \<notin> settledRaids ascii_env sample_catalogue exampleFloor"
    using example_windows by (simp add: settledRaids_def exampleFloor_def)
  then have while: "k \<in> set kills \<Longrightarrow> hk_raidSlug k \<in> settledRaids ascii_env sample_catalogue exampleFloor \<Longrightarrow>
      whileCurrent ascii_env sample_catalogue k" for k
    using kills(2) kill by simp
  have answer: "exampleAnswer (askedTiers ascii_env sample_catalogue exampleFloor [32]) = Inr (Historic_kills kills)"
    by (simp add: kills(1))
  note exact = hints_lose_nothing [where getHistoricMythicKills = exampleAnswer and kills = kills and aborted = False and stored = "[]",
      OF answer while]
  have "\<lparr>pt_ordinal = 32, pt_raidSlugs = [''nerubar-palace'']\<rparr> \<in> set raiderIoHistoricTiers"
    by (simp add: raiderIoHistoricTiers_def)
  then have "32 \<notin> set (askedTiers ascii_env sample_catalogue exampleFloor [32])"
    using exact example_settled by force
  moreover obtain r where "raiderIoVerifiedKills ascii_env sample_catalogue exampleAnswer False [] exampleFloor [32] = Inr r"
    "vr_kills r = searchableKills ascii_env [] exampleFloor kills"
    using exact by blast
  ultimately show ?thesis using kills(3) unfolding kill by auto
qed

end
