(* ===== verification/ConcurrencyLimiter.thy ===== *)
theory ConcurrencyLimiter
  imports Complex_Main Prelude
begin

section \<open>The concurrency limiter\<close>

text \<open>
  \<open>packages/application/src/concurrency.ts\<close>: works are admitted in the order they were asked for, at
  most \<open>limit\<close> at once. An admitted work starts in a later microtask, may wait for a reply, and frees
  its slot in a microtask after it has settled; so its life is a sequence of steps between which the
  others go on. The works of one run share a state; \<open>Promise.all\<close> over them rejects with the first
  rejection and is fulfilled once all have settled. The reports of \<open>onWait\<close> are not modelled.
\<close>

subsection \<open>The limiter\<close>

definition createConcurrencyLimiter :: "rat \<Rightarrow> string + nat" where
  "createConcurrencyLimiter limit =
     (if rat_of_int \<lfloor>limit\<rfloor> \<noteq> limit \<or> limit < 1 then Inl ''concurrency_limit_invalid'' else Inr (nat \<lfloor>limit\<rfloor>))"

record ('j, 's, 'e) limiterRun =
  cl_pending :: "'j list"
  cl_active :: nat
  cl_admitted :: "'j list" \<comment> \<open>admitted, its microtask not yet run\<close>
  cl_working :: "'j list" \<comment> \<open>waiting for a reply\<close>
  cl_settled :: "'j list" \<comment> \<open>settled, its slot not yet freed\<close>
  cl_admissions :: "'j list" \<comment> \<open>every admission, in order\<close>
  cl_shared :: 's
  cl_rejected :: "'e option" \<comment> \<open>the first rejection\<close>
  cl_aborted :: bool

fun drainPending :: "nat \<Rightarrow> 'j list \<Rightarrow> ('j, 's, 'e) limiterRun \<Rightarrow> ('j, 's, 'e) limiterRun" where
  "drainPending limit [] s = s"
| "drainPending limit (item # pending) s =
     (if cl_active s < limit
      then drainPending limit pending
             (s\<lparr>cl_pending := pending, cl_active := cl_active s + 1, cl_admitted := cl_admitted s @ [item],
                cl_admissions := cl_admissions s @ [item]\<rparr>)
      else s)"

definition drainWorks :: "nat \<Rightarrow> ('j, 's, 'e) limiterRun \<Rightarrow> ('j, 's, 'e) limiterRun" where
  "drainWorks limit s = drainPending limit (cl_pending s) s"

definition runWork :: "nat \<Rightarrow> 'j \<Rightarrow> ('j, 's, 'e) limiterRun \<Rightarrow> ('j, 's, 'e) limiterRun" where
  "runWork limit j s = drainWorks limit (s\<lparr>cl_pending := cl_pending s @ [j]\<rparr>)"

definition runWorks :: "nat \<Rightarrow> 'j list \<Rightarrow> 's \<Rightarrow> ('j, 's, 'e) limiterRun" where
  \<comment> \<open>\<open>jobs.map(job => limiter.run(job))\<close> on a new limiter\<close>
  "runWorks limit jobs shared =
     foldl (\<lambda>s j. runWork limit j s)
       \<lparr>cl_pending = [], cl_active = 0, cl_admitted = [], cl_working = [], cl_settled = [], cl_admissions = [],
        cl_shared = shared, cl_rejected = None, cl_aborted = False\<rparr> jobs"

subsection \<open>The works\<close>

record ('j, 's, 'e) limitedWork =
  lw_start :: "'j \<Rightarrow> 's \<Rightarrow> 's \<times> bool"
    \<comment> \<open>from its start to its first \<open>await\<close>, or to its end; whether it awaits\<close>
  lw_finish :: "'j \<Rightarrow> bool \<Rightarrow> 's \<Rightarrow> 'e + 's"
    \<comment> \<open>from the reply on, with whether the signal is aborted by then\<close>

definition startWork :: "('j, 's, 'e) limitedWork \<Rightarrow> 'j \<Rightarrow> ('j, 's, 'e) limiterRun \<Rightarrow> ('j, 's, 'e) limiterRun" where
  "startWork W j s =
     (case lw_start W j (cl_shared s) of
        (shared, True) \<Rightarrow> s\<lparr>cl_admitted := remove1 j (cl_admitted s), cl_shared := shared, cl_working := cl_working s @ [j]\<rparr>
      | (shared, False) \<Rightarrow> s\<lparr>cl_admitted := remove1 j (cl_admitted s), cl_shared := shared, cl_settled := cl_settled s @ [j]\<rparr>)"

definition settleWork :: "('j, 's, 'e) limitedWork \<Rightarrow> 'j \<Rightarrow> ('j, 's, 'e) limiterRun \<Rightarrow> ('j, 's, 'e) limiterRun" where
  "settleWork W j s =
     (let s' = s\<lparr>cl_working := remove1 j (cl_working s), cl_settled := cl_settled s @ [j]\<rparr>
      in case lw_finish W j (cl_aborted s) (cl_shared s) of
           Inr shared \<Rightarrow> s'\<lparr>cl_shared := shared\<rparr>
         | Inl e \<Rightarrow> s'\<lparr>cl_rejected := (case cl_rejected s of None \<Rightarrow> Some e | Some first \<Rightarrow> Some first)\<rparr>)"

definition freeSlot :: "nat \<Rightarrow> 'j \<Rightarrow> ('j, 's, 'e) limiterRun \<Rightarrow> ('j, 's, 'e) limiterRun" where
  "freeSlot limit j s = drainWorks limit (s\<lparr>cl_settled := remove1 j (cl_settled s), cl_active := cl_active s - 1\<rparr>)"

inductive worksStep :: "nat \<Rightarrow> ('j, 's, 'e) limitedWork \<Rightarrow> ('j, 's, 'e) limiterRun \<Rightarrow> ('j, 's, 'e) limiterRun \<Rightarrow> bool"
  for limit W where
  work_starts: "j \<in> set (cl_admitted s) \<Longrightarrow> worksStep limit W s (startWork W j s)"
| work_settles: "j \<in> set (cl_working s) \<Longrightarrow> worksStep limit W s (settleWork W j s)"
| slot_freed: "j \<in> set (cl_settled s) \<Longrightarrow> worksStep limit W s (freeSlot limit j s)"
| works_aborted: "\<not> cl_aborted s \<Longrightarrow> worksStep limit W s (s\<lparr>cl_aborted := True\<rparr>)"

definition worksReach :: "nat \<Rightarrow> ('j, 's, 'e) limitedWork \<Rightarrow> 'j list \<Rightarrow> 's \<Rightarrow> ('j, 's, 'e) limiterRun \<Rightarrow> bool" where
  "worksReach limit W jobs shared s \<longleftrightarrow> (worksStep limit W)\<^sup>*\<^sup>* (runWorks limit jobs shared) s"

definition promiseAll :: "('j, 's, 'e) limiterRun \<Rightarrow> ('e + 's) option" where
  \<comment> \<open>\<^term>\<open>None\<close> while it is pending\<close>
  "promiseAll s =
     (case cl_rejected s of
        Some e \<Rightarrow> Some (Inl e)
      | None \<Rightarrow> if cl_pending s = [] \<and> cl_admitted s = [] \<and> cl_working s = [] then Some (Inr (cl_shared s)) else None)"

subsection \<open>Admission\<close>

lemma drainPending_eq:
  "cl_pending s = pending \<Longrightarrow>
   drainPending limit pending s =
     (let k = limit - cl_active s
      in s\<lparr>cl_pending := drop k pending, cl_active := cl_active s + min k (length pending),
           cl_admitted := cl_admitted s @ take k pending, cl_admissions := cl_admissions s @ take k pending\<rparr>)"
proof (induction limit pending s rule: drainPending.induct)
  case (2 limit item pending s)
  show ?case
  proof (cases "cl_active s < limit")
    case True
    then obtain k where "limit - cl_active s = Suc k" "limit - Suc (cl_active s) = k" by (metis Suc_diff_Suc)
    then show ?thesis using 2 True by (simp add: Let_def)
  next
    case False
    then show ?thesis using 2 by (simp add: Let_def)
  qed
qed (simp add: Let_def)

lemmas drainWorks_eq = drainWorks_def [unfolded drainPending_eq [OF refl] Let_def]

subsection \<open>What every run keeps\<close>

definition slotsKept :: "nat \<Rightarrow> 'j list \<Rightarrow> ('j, 's, 'e) limiterRun \<Rightarrow> bool" where
  \<comment> \<open>works are admitted in order, hold the slots and leave no slot free that one waits for\<close>
  "slotsKept limit jobs s \<longleftrightarrow>
     cl_active s = length (cl_admitted s) + length (cl_working s) + length (cl_settled s) \<and> cl_active s \<le> limit \<and>
     cl_admissions s @ cl_pending s = jobs \<and> (cl_pending s \<noteq> [] \<longrightarrow> cl_active s = limit)"

definition worksWeight :: "('j, 's, 'e) limiterRun \<Rightarrow> nat" where
  "worksWeight s =
     4 * length (cl_pending s) + 3 * length (cl_admitted s) + 2 * length (cl_working s) + length (cl_settled s) +
     (if cl_aborted s then 0 else 1)"

lemma slotsKept_drain:
  assumes "cl_active s = length (cl_admitted s) + length (cl_working s) + length (cl_settled s)" and "cl_active s \<le> limit"
    and "cl_admissions s @ cl_pending s = jobs"
  shows "slotsKept limit jobs (drainWorks limit s)"
  using assms by (auto simp: slotsKept_def drainWorks_eq)

lemma slotsKept_run: "slotsKept limit jobs s \<Longrightarrow> slotsKept limit (jobs @ [j]) (runWork limit j s)"
  unfolding runWork_def by (rule slotsKept_drain) (auto simp: slotsKept_def)

lemma slotsKept_runWorks: "slotsKept limit jobs (runWorks limit jobs shared)"
proof (induction jobs rule: rev_induct)
  case Nil
  show ?case by (simp add: slotsKept_def runWorks_def)
next
  case (snoc j jobs)
  then show ?case using slotsKept_run by (simp add: runWorks_def)
qed

lemma slotsKept_step: "worksStep limit W s s' \<Longrightarrow> slotsKept limit jobs s \<Longrightarrow> slotsKept limit jobs s'"
proof (induction rule: worksStep.induct)
  case (work_starts j s)
  then have "0 < length (cl_admitted s)" by auto
  then show ?case using work_starts
    by (auto simp: slotsKept_def startWork_def length_remove1 split: prod.split bool.split)
next
  case (work_settles j s)
  then have "0 < length (cl_working s)" by auto
  then show ?case using work_settles
    by (auto simp: slotsKept_def settleWork_def length_remove1 Let_def split: sum.split)
next
  case (slot_freed j s)
  then obtain n where "length (cl_settled s) = Suc n" by (cases "cl_settled s") auto
  then show ?case using slot_freed unfolding freeSlot_def
    by (intro slotsKept_drain) (auto simp: slotsKept_def length_remove1)
qed (auto simp: slotsKept_def)

lemma slotsKept_reached: "worksReach limit W jobs shared s \<Longrightarrow> slotsKept limit jobs s"
  unfolding worksReach_def
  by (induction rule: rtranclp_induct) (auto intro: slotsKept_runWorks slotsKept_step)

lemma worksWeight_drain: "worksWeight (drainWorks limit s) \<le> worksWeight s"
  by (auto simp: worksWeight_def drainWorks_eq min_def)

lemma worksWeight_step: "worksStep limit W s s' \<Longrightarrow> worksWeight s' < worksWeight s"
proof (induction rule: worksStep.induct)
  case (work_starts j s)
  then obtain n where "length (cl_admitted s) = Suc n" by (cases "cl_admitted s") auto
  then show ?case using work_starts
    by (auto simp: worksWeight_def startWork_def length_remove1 split: prod.split bool.split)
next
  case (work_settles j s)
  then obtain n where "length (cl_working s) = Suc n" by (cases "cl_working s") auto
  then show ?case using work_settles
    by (auto simp: worksWeight_def settleWork_def length_remove1 Let_def split: sum.split)
next
  case (slot_freed j s)
  then obtain n where "length (cl_settled s) = Suc n" by (cases "cl_settled s") auto
  then have "worksWeight (s\<lparr>cl_settled := remove1 j (cl_settled s), cl_active := cl_active s - 1\<rparr>) < worksWeight s"
    using slot_freed by (simp add: worksWeight_def length_remove1)
  then show ?case unfolding freeSlot_def by (rule le_less_trans [OF worksWeight_drain])
qed (simp add: worksWeight_def)

lemma works_progress:
  assumes "slotsKept limit jobs s" and "0 < limit" and "promiseAll s = None"
  shows "\<exists>s'. worksStep limit W s s' \<and> s' \<noteq> s"
proof -
  have "cl_admitted s \<noteq> [] \<or> cl_working s \<noteq> [] \<or> cl_settled s \<noteq> []"
    using assms by (auto simp: slotsKept_def promiseAll_def split: option.splits if_splits)
  then obtain s' where "worksStep limit W s s'"
    by (meson list.set_sel(1) work_starts work_settles slot_freed)
  then show ?thesis using worksWeight_step [of limit W s s'] by blast
qed

text \<open>
  C36. Whatever the works do and however they interleave, no more than \<open>limit\<close> of them run at once, they
  are admitted once each in the order they were asked for, none waits while a slot is free, and the
  whole always comes to an end: every step brings it nearer, and until it has settled there is one.
\<close>

theorem works_limited:
  assumes "worksReach limit W jobs shared s"
  shows "length (cl_admitted s) + length (cl_working s) + length (cl_settled s) \<le> limit \<and>
    cl_admissions s @ cl_pending s = jobs \<and>
    (cl_pending s \<noteq> [] \<longrightarrow> length (cl_admitted s) + length (cl_working s) + length (cl_settled s) = limit) \<and>
    (\<forall>s'. worksStep limit W s s' \<longrightarrow> worksWeight s' < worksWeight s) \<and>
    (0 < limit \<longrightarrow> promiseAll s = None \<longrightarrow> (\<exists>s'. worksStep limit W s s'))"
proof -
  note kept = slotsKept_reached [OF assms]
  then show ?thesis
    using worksWeight_step [of limit W s] works_progress [OF kept, of W] unfolding slotsKept_def by auto
qed

subsection \<open>A schedule\<close>

datatype 'j workEvent = Starts 'j | Settles 'j | Frees 'j

fun runEvents ::
    "nat \<Rightarrow> ('j, 's, 'e) limitedWork \<Rightarrow> 'j workEvent list \<Rightarrow> ('j, 's, 'e) limiterRun \<Rightarrow> ('j, 's, 'e) limiterRun option" where
  \<comment> \<open>the named steps one after the other\<close>
  "runEvents limit W [] s = Some s"
| "runEvents limit W (Starts j # events) s =
     (if j \<in> set (cl_admitted s) then runEvents limit W events (startWork W j s) else None)"
| "runEvents limit W (Settles j # events) s =
     (if j \<in> set (cl_working s) then runEvents limit W events (settleWork W j s) else None)"
| "runEvents limit W (Frees j # events) s =
     (if j \<in> set (cl_settled s) then runEvents limit W events (freeSlot limit j s) else None)"

lemma runEvents_reaches: "runEvents limit W events s = Some s' \<Longrightarrow> (worksStep limit W)\<^sup>*\<^sup>* s s'"
  by (induction limit W events s rule: runEvents.induct)
    (auto split: if_splits intro: converse_rtranclp_into_rtranclp worksStep.intros)

definition exampleWork :: "(nat, nat list, unit) limitedWork" where
  \<comment> \<open>works that wait once and leave their number\<close>
  "exampleWork = \<lparr>lw_start = (\<lambda>j s. (s, True)), lw_finish = (\<lambda>j aborted s. Inr (s @ [j]))\<rparr>"

theorem works_limited_witness:
  "\<exists>s. worksReach 2 exampleWork [1, 2, 3] [] s \<and> cl_working s = [3] \<and> cl_shared s = [2, 1] \<and>
     length (cl_admitted s) + length (cl_working s) + length (cl_settled s) \<le> 2"
proof -
  let ?run = "runEvents 2 exampleWork [Starts 2, Starts 1, Settles 2, Frees 2, Starts 3, Settles 1] (runWorks 2 [1, 2, 3] [])"
  have "case ?run of None \<Rightarrow> False | Some s \<Rightarrow> cl_working s = [3] \<and> cl_shared s = [2, 1]" by code_simp
  then obtain s where s: "?run = Some s" "cl_working s = [3]" "cl_shared s = [2, 1]" by (auto split: option.splits)
  have reached: "worksReach 2 exampleWork [1, 2, 3] [] s" unfolding worksReach_def by (rule runEvents_reaches [OF s(1)])
  then show ?thesis using works_limited [OF reached] s by blast
qed

subsection \<open>Invariants of the shared state\<close>

text \<open>
  What the works promise each other: a relation between the jobs not yet started, those waiting for a
  reply and the shared state, kept by every start and every reply that does not reject.
\<close>

definition worksHold :: "('j set \<Rightarrow> 'j set \<Rightarrow> 's \<Rightarrow> bool) \<Rightarrow> ('j, 's, 'e) limiterRun \<Rightarrow> bool" where
  "worksHold Inv s \<longleftrightarrow> cl_rejected s = None \<longrightarrow>
     distinct (cl_admitted s @ cl_working s @ cl_pending s) \<and>
     Inv (set (cl_pending s) \<union> set (cl_admitted s)) (set (cl_working s)) (cl_shared s)"

locale shared_works =
  fixes W :: "('j, 's, 'e) limitedWork"
    and Inv :: "'j set \<Rightarrow> 'j set \<Rightarrow> 's \<Rightarrow> bool"
  assumes start_waits: "Inv todo working shared \<Longrightarrow> j \<in> todo \<Longrightarrow> lw_start W j shared = (shared', True) \<Longrightarrow>
      Inv (todo - {j}) (insert j working) shared'"
    and start_ends: "Inv todo working shared \<Longrightarrow> j \<in> todo \<Longrightarrow> lw_start W j shared = (shared', False) \<Longrightarrow>
      Inv (todo - {j}) working shared'"
    and finish: "Inv todo working shared \<Longrightarrow> j \<in> working \<Longrightarrow> lw_finish W j aborted shared = Inr shared' \<Longrightarrow>
      Inv todo (working - {j}) shared'"
begin

lemma holds_drain:
  assumes "worksHold Inv s"
  shows "worksHold Inv (drainWorks limit s)"
proof -
  define front where "front = take (limit - cl_active s) (cl_pending s)"
  define rear where "rear = drop (limit - cl_active s) (cl_pending s)"
  have "cl_pending s = front @ rear" by (simp add: front_def rear_def)
  then show ?thesis
    using assms unfolding worksHold_def drainWorks_eq front_def [symmetric] rear_def [symmetric] by (auto simp: Un_ac)
qed

lemma holds_step: "worksStep limit W s s' \<Longrightarrow> worksHold Inv s \<Longrightarrow> worksHold Inv s'"
proof (induction rule: worksStep.induct)
  case (work_starts j s)
  obtain shared waits where start: "lw_start W j (cl_shared s) = (shared, waits)" by fastforce
  show ?case
  proof (cases "cl_rejected s = None")
    case True
    then have d: "distinct (cl_admitted s @ cl_working s @ cl_pending s)"
      and inv: "Inv (set (cl_pending s) \<union> set (cl_admitted s)) (set (cl_working s)) (cl_shared s)"
      using work_starts.prems by (simp_all add: worksHold_def)
    have todo: "set (cl_pending s) \<union> set (cl_admitted s) - {j} = set (cl_pending s) \<union> (set (cl_admitted s) - {j})"
      and mem: "j \<in> set (cl_pending s) \<union> set (cl_admitted s)"
      using d work_starts.hyps by auto
    show ?thesis
      using start_waits [OF inv mem, unfolded todo, of shared] start_ends [OF inv mem, unfolded todo, of shared] d work_starts.hyps start True
      by (cases waits) (simp_all add: worksHold_def startWork_def, auto)
  next
    case False
    then show ?thesis using start by (cases waits) (auto simp: worksHold_def startWork_def)
  qed
next
  case (work_settles j s)
  show ?case
  proof (cases "lw_finish W j (cl_aborted s) (cl_shared s)")
    case (Inl e)
    then show ?thesis by (simp add: worksHold_def settleWork_def Let_def split: option.split)
  next
    case (Inr shared)
    show ?thesis
    proof (cases "cl_rejected s = None")
      case True
      then have d: "distinct (cl_admitted s @ cl_working s @ cl_pending s)"
        and inv: "Inv (set (cl_pending s) \<union> set (cl_admitted s)) (set (cl_working s)) (cl_shared s)"
        using work_settles.prems by (simp_all add: worksHold_def)
      have "set (cl_working s) - {j} = set (remove1 j (cl_working s))" using d by simp
      then show ?thesis
        using finish [OF inv work_settles.hyps Inr] d True Inr by (auto simp: worksHold_def settleWork_def)
    next
      case False
      then show ?thesis using Inr by (auto simp: worksHold_def settleWork_def)
    qed
  qed
next
  case (slot_freed j s)
  have "worksHold Inv (s\<lparr>cl_settled := remove1 j (cl_settled s), cl_active := cl_active s - 1\<rparr>)"
    using slot_freed.prems by (simp add: worksHold_def)
  then show ?case unfolding freeSlot_def by (rule holds_drain)
qed (simp add: worksHold_def)

lemma holds_runWorks:
  assumes "Inv (set jobs) {} shared" and "distinct jobs"
  shows "worksHold Inv (runWorks limit jobs shared :: ('j, 's, 'e) limiterRun)"
proof -
  define s :: "('j, 's, 'e) limiterRun" where "s = runWorks limit jobs shared"
  have fresh: "cl_shared s = shared \<and> cl_working s = [] \<and> cl_admitted s = cl_admissions s"
    unfolding s_def by (induction jobs rule: rev_induct) (simp_all add: runWorks_def runWork_def drainWorks_eq)
  have jobs: "cl_admissions s @ cl_pending s = jobs"
    using slotsKept_runWorks [of limit jobs shared] unfolding s_def slotsKept_def by blast
  then have "distinct (cl_admissions s @ cl_pending s)" "set (cl_pending s) \<union> set (cl_admissions s) = set jobs"
    using assms(2) by (simp, metis set_append Un_commute)
  then show ?thesis using assms(1) fresh unfolding worksHold_def s_def [symmetric] by simp
qed

lemma holds_reached:
  assumes "worksReach limit W jobs shared s" and "Inv (set jobs) {} shared" and "distinct jobs"
  shows "worksHold Inv s"
  using assms(1) unfolding worksReach_def
  by (induction rule: rtranclp_induct) (auto intro: holds_runWorks [OF assms(2,3)] holds_step)

lemma fulfilled:
  assumes "worksReach limit W jobs shared s" and "Inv (set jobs) {} shared" and "distinct jobs"
    and "promiseAll s = Some (Inr shared')"
  shows "Inv {} {} shared'"
  using holds_reached [OF assms(1-3)] assms(4) by (auto simp: worksHold_def promiseAll_def split: option.splits if_splits)

end

end
