(* ===== verification/RosterPresence.thy ===== *)
theory RosterPresence
  imports CharacterKey JsNumber
begin

section \<open>Whether a character is on a roster\<close>

text \<open>
  \<open>packages/application/src/roster-profile-presence.ts\<close>, with the logged encounters of
  \<open>packages/database/src/repositories.ts\<close> and \<open>isValidRosterProfileLocator\<close> of
  \<open>packages/raiderio/src/client.ts\<close>. A raider whose profile was renamed or deleted stays on old rosters
  under a name with its id as a suffix; such a name is only a place to ask. Four workers ask
  Raider.IO for what a stored answer does not settle; each \<open>await\<close> of a worker is a point where the
  others may go on, so a run is a sequence of steps of a pool. The repository and Raider.IO are
  parameters.
\<close>

subsection \<open>Logged encounters\<close>

record loggedMember =
  lm_raiderIoCharacterId :: int
  lm_name :: string
  lm_realm :: string
  lm_region :: string
  lm_className :: string
  lm_specName :: string
  lm_role :: string
  lm_itemLevel :: "rat option"

record encounterGuild =
  eg_name :: string
  eg_realm :: string
  eg_region :: string

datatype rosterState = Roster_available | Roster_private

record loggedEncounter =
  le_loggedEncounterId :: nat
  le_raidSlug :: string
  le_bossSlug :: string
  le_pulledAt :: string
  le_defeatedAt :: string
  le_durationMs :: int
  le_guild :: "encounterGuild option"
  le_itemLevel :: "rat \<times> rat \<times> rat" \<comment> \<open>average, minimum and maximum\<close>
  le_deathCount :: int
  le_vantusCount :: "int option"
  le_shareRaidUntil :: "string option"
  le_rosterState :: rosterState
  le_members :: "loggedMember list"

subsection \<open>Locators\<close>

record rosterProfileLocator =
  rl_region :: string
  rl_realm :: string
  rl_name :: string
  rl_historicId :: int

definition int_text :: "int \<Rightarrow> string" where
  \<comment> \<open>\<open>String(n)\<close> of an integer\<close>
  "int_text n = (if n < 0 then ''-'' else []) @ decimal (nat \<bar>n\<bar>)"

definition locatorKey :: "rosterProfileLocator \<Rightarrow> string" where
  "locatorKey locator =
     rl_region locator @ CHR 0x00 # rl_realm locator @ CHR 0x00 # rl_name locator @ CHR 0x00 # int_text (rl_historicId locator)"

definition isValidRosterProfileLocator :: "js_env \<Rightarrow> rosterProfileLocator \<Rightarrow> bool" where
  "isValidRosterProfileLocator E locator =
     (let suffix = ''-'' @ int_text (rl_historicId locator); name = rl_name locator
      in if \<bar>rl_historicId locator\<bar> > 2 ^ 53 - 1 \<or> rl_historicId locator \<le> 0 then False
         else if drop (length name - length suffix) name \<noteq> suffix then False
         else rl_region locator \<in> set supportedRegions \<and>
              isValidCharacterKey E \<lparr>region = rl_region locator, realm = rl_realm locator,
                cname = take (length name - length suffix) name\<rparr>)"

definition endsWithId :: "string \<Rightarrow> bool" where
  \<comment> \<open>\<open>/-\d+$/\<close>\<close>
  "endsWithId name =
     (let digits = takeWhile ascii_digit (rev name); rest = dropWhile ascii_digit (rev name)
      in digits \<noteq> [] \<and> rest \<noteq> [] \<and> hd rest = CHR ''-'')"

definition locatorOf :: "js_env \<Rightarrow> loggedMember \<Rightarrow> rosterProfileLocator" where
  "locatorOf E member =
     \<lparr>rl_region = lm_region member, rl_realm = lm_realm member, rl_name = toLower E (lm_name member),
      rl_historicId = lm_raiderIoCharacterId member\<rparr>"

subsection \<open>What the rosters say\<close>

datatype rosterPresence = Is_present | Is_absent | Is_unknown

record presenceScan =
  ps_presence :: "(nat, rosterPresence) jsmap"
  ps_targets :: "(nat, string list) jsmap"
  ps_locators :: "(string, rosterProfileLocator) jsmap"
  ps_invalid :: "nat list"

definition tombstone :: "string \<Rightarrow> loggedMember \<Rightarrow> bool" where
  \<comment> \<open>of the subject's class, under a name that ends in an id\<close>
  "tombstone subjectClass member \<longleftrightarrow> lm_className member = subjectClass \<and> endsWithId (lm_name member)"

fun scanMembers ::
    "js_env \<Rightarrow> string \<Rightarrow> nat \<Rightarrow> loggedMember list \<Rightarrow> string list \<Rightarrow> presenceScan \<Rightarrow> presenceScan" where
  \<comment> \<open>the loop over the members, then \<open>targets.set\<close>\<close>
  "scanMembers E subjectClass i [] keys s = s\<lparr>ps_targets := map_set i keys (ps_targets s)\<rparr>"
| "scanMembers E subjectClass i (member # members) keys s =
     (if \<not> tombstone subjectClass member then scanMembers E subjectClass i members keys s
      else (let locator = locatorOf E member in
        if \<not> isValidRosterProfileLocator E locator
        then scanMembers E subjectClass i members keys (s\<lparr>ps_invalid := set_add i (ps_invalid s)\<rparr>)
        else scanMembers E subjectClass i members (keys @ [locatorKey locator])
               (s\<lparr>ps_locators := map_set (locatorKey locator) locator (ps_locators s)\<rparr>)))"

definition listsSubject :: "int \<Rightarrow> loggedEncounter \<Rightarrow> bool" where
  "listsSubject subjectId encounter \<longleftrightarrow> list_ex (\<lambda>member. lm_raiderIoCharacterId member = subjectId) (le_members encounter)"

definition scanEncounter :: "js_env \<Rightarrow> int \<Rightarrow> string \<Rightarrow> presenceScan \<Rightarrow> loggedEncounter \<Rightarrow> presenceScan" where
  "scanEncounter E subjectId subjectClass s encounter =
     (if listsSubject subjectId encounter
      then s\<lparr>ps_presence := map_set (le_loggedEncounterId encounter) Is_present (ps_presence s)\<rparr>
      else scanMembers E subjectClass (le_loggedEncounterId encounter) (le_members encounter) [] s)"

definition scanEncounters :: "js_env \<Rightarrow> int \<Rightarrow> string \<Rightarrow> loggedEncounter list \<Rightarrow> presenceScan" where
  "scanEncounters E subjectId subjectClass encounters =
     foldl (scanEncounter E subjectId subjectClass) \<lparr>ps_presence = [], ps_targets = [], ps_locators = [], ps_invalid = []\<rparr> encounters"

subsection \<open>Stored answers\<close>

record storedResolution =
  sv_locator :: rosterProfileLocator
  sv_resolvedId :: "int option"
  sv_limitationCode :: "string option"
  sv_answeredAt :: "int option"
  sv_lastAttemptAt :: "int option"
  sv_retryNotBefore :: "int option"

type_synonym presenceAnswer = "rosterPresence \<times> string option"

definition answerTtlMs :: int where "answerTtlMs = 30 * 24 * 60 * 60 * 1000"
definition MAX_ROSTER_PROFILE_RESOLUTIONS :: nat where "MAX_ROSTER_PROFILE_RESOLUTIONS = 50"
definition ROSTER_PROFILE_RESOLUTION_CONCURRENCY :: nat where "ROSTER_PROFILE_RESOLUTION_CONCURRENCY = 4"

definition presenceFor :: "int \<Rightarrow> int \<Rightarrow> rosterPresence" where
  "presenceFor subjectId resolvedId = (if resolvedId = subjectId then Is_present else Is_absent)"

definition answerFresh :: "int \<Rightarrow> storedResolution \<Rightarrow> bool" where
  "answerFresh now row \<longleftrightarrow> (case sv_answeredAt row of None \<Rightarrow> False | Some answeredAt \<Rightarrow> now - answeredAt < answerTtlMs)"

definition heldAnswer :: "int \<Rightarrow> int \<Rightarrow> storedResolution option \<Rightarrow> presenceAnswer option" where
  "heldAnswer subjectId now stored =
     (case stored of
        None \<Rightarrow> None
      | Some row \<Rightarrow>
          if answerFresh now row then
            Some (case sv_resolvedId row of
                    Some resolvedId \<Rightarrow> (presenceFor subjectId resolvedId, None)
                  | None \<Rightarrow> (Is_unknown, Some (case sv_limitationCode row of None \<Rightarrow> ''unavailable'' | Some code \<Rightarrow> code)))
          else if (case sv_retryNotBefore row of None \<Rightarrow> False | Some retryNotBefore \<Rightarrow> retryNotBefore > now)
            then Some (Is_unknown, Some ''rate_limited'')
          else None)"

definition compareAttempts :: "js_env \<Rightarrow> (string, storedResolution) jsmap \<Rightarrow> rosterProfileLocator \<Rightarrow> rosterProfileLocator \<Rightarrow> int" where
  \<comment> \<open>never attempted first, as \<open>-Infinity\<close>; two of them differ by \<open>NaN\<close>, which is falsy\<close>
  "compareAttempts E held a b =
     (let attempt = (\<lambda>l. Option.bind (map_get held (locatorKey l)) sv_lastAttemptAt)
      in or_else (optional_cmp (\<lambda>x y. x - y) (attempt a) (attempt b)) (localeCompare E (locatorKey a) (locatorKey b)))"

subsection \<open>Asking Raider.IO\<close>

datatype 'e resolveReply =
    Profile_resolved jsnum
  | Profile_limited string "int option"
  | Profile_threw 'e

record resolution =
  rn_resolvedId :: "int option"
  rn_limitationCode :: "string option"
  rn_retryNotBefore :: "int option"

record 'e resolutionWorld =
  \<comment> \<open>\<open>repository\<close>, \<open>resolve\<close> and the clock at the time of an answer\<close>
  qw_load :: "rosterProfileLocator list \<Rightarrow> 'e + storedResolution list"
  qw_reserve :: "rosterProfileLocator \<Rightarrow> 'e + nat option"
  qw_resolve :: "rosterProfileLocator \<Rightarrow> 'e resolveReply"
  qw_answer :: "rosterProfileLocator \<Rightarrow> nat \<Rightarrow> resolution \<Rightarrow> 'e + bool"
  qw_answeredAt :: "rosterProfileLocator \<Rightarrow> int"
  qw_abortError :: 'e \<comment> \<open>what \<open>throwIfAborted\<close> throws\<close>

text \<open>Where a worker waits.\<close>

datatype 'e workerPhase =
    At_loop
  | Waits_reserve rosterProfileLocator
  | Waits_resolve rosterProfileLocator nat
  | Waits_answer rosterProfileLocator resolution "'e + bool"
  | Worker_done
  | Worker_rejected 'e

record 'e presencePool =
  pq_queue :: "rosterProfileLocator list"
  pq_slots :: nat
  pq_stopped :: bool
  pq_aborted :: bool
  pq_answers :: "(string, presenceAnswer) jsmap"
  pq_workers :: "'e workerPhase list"
  pq_reads :: "rosterProfileLocator list" \<comment> \<open>the requests sent to Raider.IO, in order\<close>

definition setWorker :: "nat \<Rightarrow> 'e workerPhase \<Rightarrow> 'e presencePool \<Rightarrow> 'e presencePool" where
  "setWorker w phase s = s\<lparr>pq_workers := (pq_workers s)[w := phase]\<rparr>"

definition setAnswer :: "rosterProfileLocator \<Rightarrow> presenceAnswer \<Rightarrow> 'e presencePool \<Rightarrow> 'e presencePool" where
  "setAnswer locator answer s = s\<lparr>pq_answers := map_set (locatorKey locator) answer (pq_answers s)\<rparr>"

definition loopHead :: "nat \<Rightarrow> 'e presencePool \<Rightarrow> 'e presencePool" where
  "loopHead w s =
     (if pq_stopped s \<or> pq_slots s \<ge> MAX_ROSTER_PROFILE_RESOLUTIONS then setWorker w Worker_done s
      else (case pq_queue s of
              [] \<Rightarrow> setWorker w Worker_done s
            | locator # queue \<Rightarrow>
                setWorker w (Waits_reserve locator) (s\<lparr>pq_queue := queue, pq_slots := Suc (pq_slots s)\<rparr>)))"

definition settleReserve :: "'e resolutionWorld \<Rightarrow> nat \<Rightarrow> rosterProfileLocator \<Rightarrow> 'e presencePool \<Rightarrow> 'e presencePool" where
  "settleReserve W w locator s =
     (case qw_reserve W locator of
        Inl e \<Rightarrow> setWorker w (Worker_rejected e) s
      | Inr None \<Rightarrow>
          setWorker w At_loop (setAnswer locator (Is_unknown, Some ''unavailable'') (s\<lparr>pq_slots := pq_slots s - 1\<rparr>))
      | Inr (Some token) \<Rightarrow>
          if pq_stopped s then setWorker w At_loop (setAnswer locator (Is_unknown, Some ''unavailable'') s)
          else if pq_aborted s then setWorker w (Worker_rejected (qw_abortError W)) s
          else setWorker w (Waits_resolve locator token) (s\<lparr>pq_reads := pq_reads s @ [locator]\<rparr>))"

definition settleResolve :: "'e resolutionWorld \<Rightarrow> nat \<Rightarrow> rosterProfileLocator \<Rightarrow> nat \<Rightarrow> 'e presencePool \<Rightarrow> 'e presencePool" where
  "settleResolve W w locator token s =
     (case (qw_resolve W locator, pq_aborted s) of
        (Profile_threw e, True) \<Rightarrow> setWorker w (Worker_rejected e) s
      | (reply, _) \<Rightarrow>
          (let resolved = (case reply of
                 Profile_resolved n \<Rightarrow> (case safeInteger n of None \<Rightarrow> None | Some i \<Rightarrow> if i > 0 then Some i else None)
               | _ \<Rightarrow> None);
               code = (case reply of Profile_limited c _ \<Rightarrow> c | Profile_threw _ \<Rightarrow> ''unavailable'' | Profile_resolved _ \<Rightarrow> ''schema_drift'');
               retryAfterMs = (case reply of Profile_limited _ ms \<Rightarrow> ms | _ \<Rightarrow> None);
               answer = \<lparr>rn_resolvedId = resolved, rn_limitationCode = (if resolved \<noteq> None then None else Some code),
                         rn_retryNotBefore = map_option (\<lambda>ms. qw_answeredAt W locator + max 0 ms) retryAfterMs\<rparr>
           in setWorker w (Waits_answer locator answer (qw_answer W locator token answer))
                (if resolved = None \<and> code \<in> {''rate_limited'', ''unavailable''} then s\<lparr>pq_stopped := True\<rparr> else s)))"

definition settleAnswer :: "int \<Rightarrow> nat \<Rightarrow> rosterProfileLocator \<Rightarrow> resolution \<Rightarrow> 'e + bool \<Rightarrow> 'e presencePool \<Rightarrow> 'e presencePool" where
  "settleAnswer subjectId w locator answer saved s =
     (case saved of
        Inl e \<Rightarrow> setWorker w (Worker_rejected e) s
      | Inr saved \<Rightarrow>
          setWorker w At_loop (setAnswer locator
            (case rn_resolvedId answer of
               Some resolvedId \<Rightarrow> if saved then (presenceFor subjectId resolvedId, None) else (Is_unknown, Some ''unavailable'')
             | None \<Rightarrow> (Is_unknown, if saved then rn_limitationCode answer else Some ''unavailable'')) s))"

fun runnable :: "'e workerPhase \<Rightarrow> bool" where
  "runnable Worker_done = False"
| "runnable (Worker_rejected e) = False"
| "runnable phase = True"

definition workerStep :: "'e resolutionWorld \<Rightarrow> int \<Rightarrow> nat \<Rightarrow> 'e presencePool \<Rightarrow> 'e presencePool" where
  \<comment> \<open>a worker goes on from where it waits to its next \<open>await\<close> or to the head of its loop\<close>
  "workerStep W subjectId w s =
     (case pq_workers s ! w of
        At_loop \<Rightarrow> loopHead w s
      | Waits_reserve locator \<Rightarrow> settleReserve W w locator s
      | Waits_resolve locator token \<Rightarrow> settleResolve W w locator token s
      | Waits_answer locator answer saved \<Rightarrow> settleAnswer subjectId w locator answer saved s
      | _ \<Rightarrow> s)"

inductive presenceStep :: "'e resolutionWorld \<Rightarrow> int \<Rightarrow> 'e presencePool \<Rightarrow> 'e presencePool \<Rightarrow> bool" for W subjectId where
  presence_worker: "w < length (pq_workers s) \<Longrightarrow> runnable (pq_workers s ! w) \<Longrightarrow> presenceStep W subjectId s (workerStep W subjectId w s)"
| presence_abort: "\<not> pq_aborted s \<Longrightarrow> presenceStep W subjectId s (s\<lparr>pq_aborted := True\<rparr>)"

definition poolFinished :: "'e presencePool \<Rightarrow> bool" where
  "poolFinished s \<longleftrightarrow> list_all (\<lambda>phase. \<not> runnable phase) (pq_workers s)"

fun rejection :: "'e workerPhase list \<Rightarrow> 'e option" where
  \<comment> \<open>the first rejected outcome\<close>
  "rejection [] = None"
| "rejection (Worker_rejected e # phases) = Some e"
| "rejection (phase # phases) = rejection phases"

subsection \<open>The resolution\<close>

fun divideLocators ::
    "int \<Rightarrow> int \<Rightarrow> (string, storedResolution) jsmap \<Rightarrow> (string \<times> rosterProfileLocator) list \<Rightarrow>
     (string, presenceAnswer) jsmap \<Rightarrow> rosterProfileLocator list \<Rightarrow> (string, presenceAnswer) jsmap \<times> rosterProfileLocator list" where
  \<comment> \<open>the answers stored, and the locators to ask about\<close>
  "divideLocators subjectId now held [] answers queue = (answers, queue)"
| "divideLocators subjectId now held ((key, locator) # locators) answers queue =
     (case heldAnswer subjectId now (map_get held key) of
        Some answer \<Rightarrow> divideLocators subjectId now held locators (map_set key answer answers) queue
      | None \<Rightarrow> divideLocators subjectId now held locators answers (queue @ [locator]))"

definition initialPool :: "js_env \<Rightarrow> int \<Rightarrow> int \<Rightarrow> storedResolution list \<Rightarrow> (string, rosterProfileLocator) jsmap \<Rightarrow> 'e presencePool" where
  "initialPool E subjectId now stored locators =
     (let held = map_from (map (\<lambda>row. (locatorKey (sv_locator row), row)) stored);
          (answers, queue) = divideLocators subjectId now held locators [] []
      in \<lparr>pq_queue = sort_by (compareAttempts E held) queue, pq_slots = 0, pq_stopped = False, pq_aborted = False,
          pq_answers = answers, pq_workers = replicate ROSTER_PROFILE_RESOLUTION_CONCURRENCY At_loop, pq_reads = []\<rparr>)"

definition unavailableAnswers :: "(string, rosterProfileLocator) jsmap \<Rightarrow> (string, presenceAnswer) jsmap \<Rightarrow> (string, presenceAnswer) jsmap" where
  "unavailableAnswers locators answers = foldl (\<lambda>m (key, _). map_set key (Is_unknown, Some ''unavailable'') m) answers locators"

definition targetPresence :: "presenceScan \<Rightarrow> (string, presenceAnswer) jsmap \<Rightarrow> nat \<Rightarrow> string list \<Rightarrow> rosterPresence" where
  "targetPresence scan answers i keys =
     (if list_ex (\<lambda>key. map_option fst (map_get answers key) = Some Is_present) keys then Is_present
      else if i \<in> set (ps_invalid scan) \<or> list_ex (\<lambda>key. map_option fst (map_get answers key) \<noteq> Some Is_absent) keys then Is_unknown
      else Is_absent)"

definition targetCode :: "presenceScan \<Rightarrow> (string, presenceAnswer) jsmap \<Rightarrow> nat \<Rightarrow> string list \<Rightarrow> string" where
  \<comment> \<open>why an encounter is unknown\<close>
  "targetCode scan answers i keys =
     (if i \<in> set (ps_invalid scan) then ''schema_drift''
      else case List.map_filter (\<lambda>key. Option.bind (map_get answers key) snd) keys of
             [] \<Rightarrow> ''request_cap'' | code # _ \<Rightarrow> code)"

fun concludePresence ::
    "presenceScan \<Rightarrow> (string, presenceAnswer) jsmap \<Rightarrow> (nat \<times> string list) list \<Rightarrow>
     (nat, rosterPresence) jsmap \<times> string option \<Rightarrow> (nat, rosterPresence) jsmap \<times> string option" where
  "concludePresence scan answers [] result = result"
| "concludePresence scan answers ((i, keys) # targets) (presence, limitation) =
     (let p = targetPresence scan answers i keys
      in concludePresence scan answers targets
           (map_set i p presence,
            if p = Is_unknown then (case limitation of None \<Rightarrow> Some (targetCode scan answers i keys) | Some l \<Rightarrow> Some l) else limitation))"

definition conclusion :: "presenceScan \<Rightarrow> (string, presenceAnswer) jsmap \<Rightarrow> (nat, rosterPresence) jsmap \<times> string option" where
  "conclusion scan answers = concludePresence scan answers (ps_targets scan) (ps_presence scan, None)"

text \<open>
  What \<open>resolveRosterPresence\<close> may settle with, over all interleavings. \<open>world\<close> is \<^term>\<open>None\<close> without a
  repository or a resolver.
\<close>

inductive resolvesPresence ::
    "js_env \<Rightarrow> 'e resolutionWorld option \<Rightarrow> int \<Rightarrow> loggedEncounter list \<Rightarrow> int \<Rightarrow> string \<Rightarrow>
     'e + (nat, rosterPresence) jsmap \<times> string option \<Rightarrow> bool"
  for E world now encounters subjectId subjectClass where
  without_resolver: "world = None \<Longrightarrow> scan = scanEncounters E subjectId subjectClass encounters \<Longrightarrow>
    resolvesPresence E world now encounters subjectId subjectClass (Inr (conclusion scan (unavailableAnswers (ps_locators scan) [])))"
| nothing_to_ask: "world = Some W \<Longrightarrow> scan = scanEncounters E subjectId subjectClass encounters \<Longrightarrow> ps_locators scan = [] \<Longrightarrow>
    resolvesPresence E world now encounters subjectId subjectClass (Inr (conclusion scan []))"
| load_failed: "world = Some W \<Longrightarrow> scan = scanEncounters E subjectId subjectClass encounters \<Longrightarrow> ps_locators scan \<noteq> [] \<Longrightarrow>
    qw_load W (map snd (ps_locators scan)) = Inl e \<Longrightarrow>
    resolvesPresence E world now encounters subjectId subjectClass
      (if aborted then Inl e else Inr (conclusion scan (unavailableAnswers (ps_locators scan) [])))"
| pool_settled: "world = Some W \<Longrightarrow> scan = scanEncounters E subjectId subjectClass encounters \<Longrightarrow> ps_locators scan \<noteq> [] \<Longrightarrow>
    qw_load W (map snd (ps_locators scan)) = Inr stored \<Longrightarrow>
    (presenceStep W subjectId)\<^sup>*\<^sup>* (initialPool E subjectId now stored (ps_locators scan)) s \<Longrightarrow> poolFinished s \<Longrightarrow>
    resolvesPresence E world now encounters subjectId subjectClass
      (case rejection (pq_workers s) of
         None \<Rightarrow> Inr (conclusion scan (pq_answers s))
       | Some e \<Rightarrow> if pq_aborted s then Inl e
                   else Inr (conclusion scan (unavailableAnswers (ps_locators scan) (pq_answers s))))"

end
