(* ===== verification/FirstKills.thy ===== *)
theory FirstKills
  imports ConcurrencyLimiter CollectionPlan EvidenceMerge RosterPresence
begin

section \<open>Reading the first kills Raider.IO logged\<close>

text \<open>
  \<open>collectRaiderIoFirstKills\<close> of \<open>packages/application/src/raiderio-first-kills.ts\<close>. A run plans which
  logged encounters to read from what is stored, reads them four at a time until Raider.IO says to
  stop, saves the answers, and checks on the rosters which kills are the character's. The repository
  and Raider.IO are a record of functions; an error they throw is of any type.
\<close>

subsection \<open>Bounds\<close>

definition MAX_RAIDER_IO_LOGGED_ENCOUNTER_READS_PER_RUN :: nat where "MAX_RAIDER_IO_LOGGED_ENCOUNTER_READS_PER_RUN = 50"
definition RAIDER_IO_LOGGED_ENCOUNTER_CONCURRENCY :: nat where "RAIDER_IO_LOGGED_ENCOUNTER_CONCURRENCY = 4"
definition dayMs :: int where "dayMs = 24 * 60 * 60 * 1000"
definition RAIDER_IO_PRIVATE_ROSTER_REREAD_MS :: int where "RAIDER_IO_PRIVATE_ROSTER_REREAD_MS = 7 * dayMs"
definition RAIDER_IO_VISIBLE_ROSTER_REREAD_MS :: int where "RAIDER_IO_VISIBLE_ROSTER_REREAD_MS = 30 * dayMs"
definition RAIDER_IO_UNAVAILABLE_ENCOUNTER_REREAD_MS :: int where "RAIDER_IO_UNAVAILABLE_ENCOUNTER_REREAD_MS = 30 * dayMs"

subsection \<open>What is stored and what Raider.IO answers\<close>

record firstKillLimitation =
  fl_code :: string
  fl_retryAfterMs :: "int option"

record loggedEncounterAnswer =
  \<comment> \<open>\<open>LoggedEncounter\<close> of \<open>packages/raiderio/src/types.ts\<close>; a roster is \<^term>\<open>None\<close> where it is private\<close>
  la_raidSlug :: string
  la_bossSlug :: string
  la_pulledAt :: string
  la_defeatedAt :: string
  la_durationMs :: int
  la_itemLevel :: "rat \<times> rat \<times> rat"
  la_guild :: "encounterGuild option"
  la_deathCount :: int
  la_vantusCount :: "int option"
  la_shareRaidUntil :: "string option"
  la_roster :: "loggedMember list option"

datatype 'e encounterReply =
    Encounter_answered loggedEncounterAnswer
  | Encounter_limited string "int option"
  | Encounter_threw 'e

record storedEncounter =
  se_encounter :: loggedEncounter
  se_readAt :: string

record storedRefusal =
  sr_loggedEncounterId :: nat
  sr_code :: string
  sr_readAt :: string

record storedAnswers =
  sa_encounters :: "storedEncounter list"
  sa_unavailable :: "storedRefusal list"

definition isPermanent :: "string \<Rightarrow> bool" where
  "isPermanent code \<longleftrightarrow> code = ''not_found'' \<or> code = ''private'' \<or> code = ''schema_drift''"

definition encounterInput :: "nat \<Rightarrow> loggedEncounterAnswer \<Rightarrow> loggedEncounter" where
  "encounterInput i encounter =
     \<lparr>le_loggedEncounterId = i, le_raidSlug = la_raidSlug encounter, le_bossSlug = la_bossSlug encounter,
      le_pulledAt = la_pulledAt encounter, le_defeatedAt = la_defeatedAt encounter, le_durationMs = la_durationMs encounter,
      le_guild = la_guild encounter, le_itemLevel = la_itemLevel encounter, le_deathCount = la_deathCount encounter,
      le_vantusCount = la_vantusCount encounter, le_shareRaidUntil = la_shareRaidUntil encounter,
      le_rosterState = (if la_roster encounter \<noteq> None then Roster_available else Roster_private),
      le_members = (case la_roster encounter of Some members \<Rightarrow> members | None \<Rightarrow> [])\<rparr>"

definition refreshed :: "loggedEncounter \<Rightarrow> loggedEncounter \<Rightarrow> loggedEncounter" where
  "refreshed kept read =
     kept\<lparr>le_shareRaidUntil := le_shareRaidUntil read, le_rosterState := le_rosterState read, le_members := le_members read\<rparr>"

text \<open>A comparison with \<open>NaN\<close>, a date that does not parse, is false.\<close>

definition olderThan :: "int \<Rightarrow> int option \<Rightarrow> int \<Rightarrow> bool" where
  "olderThan now readAt ms \<longleftrightarrow> (case readAt of None \<Rightarrow> False | Some t \<Rightarrow> now - t > ms)"

definition visibleRosterDue :: "js_env \<Rightarrow> storedEncounter \<Rightarrow> int \<Rightarrow> bool" where
  "visibleRosterDue E encounter now =
     (let readAt = dateParse E (se_readAt encounter);
          ordinary = olderThan now readAt RAIDER_IO_VISIBLE_ROSTER_REREAD_MS
      in case le_shareRaidUntil (se_encounter encounter) of
           None \<Rightarrow> ordinary
         | Some shareRaidUntil \<Rightarrow>
             (case dateParse E shareRaidUntil of
                None \<Rightarrow> ordinary
              | Some until \<Rightarrow>
                  if now \<le> until then False
                  else if (case readAt of None \<Rightarrow> False | Some t \<Rightarrow> t \<le> until) then True
                  else ordinary))"

definition encounterDue :: "js_env \<Rightarrow> int \<Rightarrow> storedEncounter \<Rightarrow> bool" where
  "encounterDue E now encounter =
     (if le_rosterState (se_encounter encounter) = Roster_private
      then olderThan now (dateParse E (se_readAt encounter)) RAIDER_IO_PRIVATE_ROSTER_REREAD_MS
      else visibleRosterDue E encounter now)"

definition refusalDue :: "js_env \<Rightarrow> int \<Rightarrow> storedRefusal \<Rightarrow> bool" where
  "refusalDue E now answer = olderThan now (dateParse E (sr_readAt answer)) RAIDER_IO_UNAVAILABLE_ENCOUNTER_REREAD_MS"

subsection \<open>The plan of the reads\<close>

record firstKillReads =
  \<comment> \<open>the variables of the function before its reads\<close>
  fr_killById :: "(nat, historicMythicKill) jsmap"
  fr_storedRead :: "(nat, loggedEncounter) jsmap"
  fr_storedUnavailable :: "(nat, string) jsmap"
  fr_unread :: "nat list"
  fr_toRead :: "nat list"

definition killsById :: "historicMythicKill list \<Rightarrow> (nat, historicMythicKill) jsmap" where
  "killsById kills =
     map_from (List.map_filter (\<lambda>kill. map_option (\<lambda>i. (i, kill)) (hk_loggedEncounterId kill)) kills)"

definition heldAnswers :: "(nat, loggedEncounter) jsmap \<Rightarrow> (nat, string) jsmap \<Rightarrow> nat \<Rightarrow> bool" where
  "heldAnswers known storedUnavailable i \<longleftrightarrow> map_has known i \<or> map_has storedUnavailable i"

definition priorityOf :: "string list option \<Rightarrow> (nat, historicMythicKill) jsmap \<Rightarrow> nat \<Rightarrow> int" where
  "priorityOf settledRaidSlugs killById i =
     (case (settledRaidSlugs, map_get killById i) of
        (Some settled, Some kill) \<Rightarrow> if hk_raidSlug kill \<in> set settled then 1 else 0
      | _ \<Rightarrow> 0)"

definition compareDue :: "(nat \<Rightarrow> int) \<Rightarrow> (nat \<Rightarrow> int option) \<Rightarrow> nat \<Rightarrow> nat \<Rightarrow> int" where
  "compareDue priority readAt a b =
     or_else (priority a - priority b)
       (or_else (case (readAt a, readAt b) of (Some x, Some y) \<Rightarrow> x - y | _ \<Rightarrow> 0) (int a - int b))"

definition storedReads :: "storedAnswers \<Rightarrow> (nat, loggedEncounter) jsmap" where
  "storedReads stored = map_from (map (\<lambda>e. (le_loggedEncounterId (se_encounter e), se_encounter e)) (sa_encounters stored))"

definition storedRefusals :: "storedAnswers \<Rightarrow> (nat, string) jsmap" where
  "storedRefusals stored = map_from (map (\<lambda>r. (sr_loggedEncounterId r, sr_code r)) (sa_unavailable stored))"

definition dueSet :: "js_env \<Rightarrow> int \<Rightarrow> storedAnswers \<Rightarrow> nat list" where
  "dueSet E now stored =
     map (\<lambda>e. le_loggedEncounterId (se_encounter e)) (filter (encounterDue E now) (sa_encounters stored)) @
     map sr_loggedEncounterId (filter (refusalDue E now) (sa_unavailable stored))"

definition readAtById :: "js_env \<Rightarrow> storedAnswers \<Rightarrow> nat \<Rightarrow> int option" where
  "readAtById E stored i =
     Option.bind
       (map_get (map_from
         (map (\<lambda>e. (le_loggedEncounterId (se_encounter e), dateParse E (se_readAt e))) (sa_encounters stored) @
          map (\<lambda>r. (sr_loggedEncounterId r, dateParse E (sr_readAt r))) (sa_unavailable stored))) i)
       (\<lambda>t. t)"

definition planReads ::
    "js_env \<Rightarrow> historicMythicKill list \<Rightarrow> string list option \<Rightarrow> storedAnswers \<Rightarrow> int \<Rightarrow> firstKillReads" where
  "planReads E kills settledRaidSlugs stored now =
     (let killById = killsById kills;
          ids = map fst killById;
          storedRead = storedReads stored;
          storedUnavailable = storedRefusals stored;
          unread = filter (\<lambda>i. \<not> heldAnswers storedRead storedUnavailable i) ids;
          dueIds = sort_by (compareDue (priorityOf settledRaidSlugs killById) (readAtById E stored))
                     (filter (\<lambda>i. i \<in> set (dueSet E now stored)) ids)
      in \<lparr>fr_killById = killById, fr_storedRead = storedRead, fr_storedUnavailable = storedUnavailable, fr_unread = unread,
          fr_toRead = take MAX_RAIDER_IO_LOGGED_ENCOUNTER_READS_PER_RUN (unread @ dueIds)\<rparr>)"

subsection \<open>The reads\<close>

record readState =
  rs_abandoned :: "string option"
  rs_answered :: "(nat, string) jsmap"
  rs_limitation :: "firstKillLimitation option"
  rs_readNow :: "loggedEncounter list"
  rs_unavailableNow :: "(nat \<times> string) list"

definition initialReads :: "firstKillReads \<Rightarrow> readState" where
  "initialReads plan =
     \<lparr>rs_abandoned = None,
      rs_answered = map_from (map (\<lambda>i. (i, ''request_cap'')) (drop MAX_RAIDER_IO_LOGGED_ENCOUNTER_READS_PER_RUN (fr_unread plan))),
      rs_limitation = (if length (fr_unread plan) > MAX_RAIDER_IO_LOGGED_ENCOUNTER_READS_PER_RUN
                       then Some \<lparr>fl_code = ''request_cap'', fl_retryAfterMs = None\<rparr> else None),
      rs_readNow = [], rs_unavailableNow = []\<rparr>"

definition fallShort :: "string \<Rightarrow> int option \<Rightarrow> readState \<Rightarrow> readState" where
  "fallShort code retryAfterMs s =
     s\<lparr>rs_limitation := (case rs_limitation s of Some l \<Rightarrow> Some l | None \<Rightarrow> Some \<lparr>fl_code = code, fl_retryAfterMs = retryAfterMs\<rparr>)\<rparr>"

definition missRead :: "firstKillReads \<Rightarrow> nat \<Rightarrow> string \<Rightarrow> readState \<Rightarrow> readState" where
  "missRead plan i code s =
     (if heldAnswers (fr_storedRead plan) (fr_storedUnavailable plan) i then s
      else s\<lparr>rs_answered := map_set i code (rs_answered s)\<rparr>)"

definition refuseRead :: "firstKillReads \<Rightarrow> nat \<Rightarrow> string \<Rightarrow> readState \<Rightarrow> readState" where
  "refuseRead plan i code s =
     (case map_get (fr_storedRead plan) i of
        Some kept \<Rightarrow>
          s\<lparr>rs_readNow := rs_readNow s @
              [if code = ''private'' then kept\<lparr>le_shareRaidUntil := None, le_rosterState := Roster_private, le_members := []\<rparr> else kept]\<rparr>
      | None \<Rightarrow> s\<lparr>rs_answered := map_set i code (rs_answered s), rs_unavailableNow := rs_unavailableNow s @ [(i, code)]\<rparr>)"

definition abandonReads :: "string \<Rightarrow> readState \<Rightarrow> readState" where
  "abandonReads code s = s\<lparr>rs_abandoned := (case rs_abandoned s of Some c \<Rightarrow> Some c | None \<Rightarrow> Some code)\<rparr>"

definition startEncounterRead :: "firstKillReads \<Rightarrow> nat \<Rightarrow> readState \<Rightarrow> readState \<times> bool" where
  "startEncounterRead plan i s =
     (case rs_abandoned s of Some code \<Rightarrow> (missRead plan i code s, False) | None \<Rightarrow> (s, True))"

definition slugsOfKill :: "firstKillReads \<Rightarrow> nat \<Rightarrow> string \<times> string" where
  \<comment> \<open>\<open>killById.get(id)!\<close>; every id that is read has a kill\<close>
  "slugsOfKill plan i = (case map_get (fr_killById plan) i of Some kill \<Rightarrow> (hk_raidSlug kill, hk_bossSlug kill) | None \<Rightarrow> ([], []))"

definition finishEncounterRead ::
    "firstKillReads \<Rightarrow> (string \<Rightarrow> nat \<Rightarrow> 'e encounterReply) \<Rightarrow> nat \<Rightarrow> bool \<Rightarrow> readState \<Rightarrow> 'e + readState" where
  "finishEncounterRead plan getLoggedEncounter i aborted s =
     (case slugsOfKill plan i of (raidSlug, bossSlug) \<Rightarrow>
      (case getLoggedEncounter raidSlug i of
         Encounter_threw e \<Rightarrow>
           if aborted then Inl e
           else Inr (fallShort ''unavailable'' None (missRead plan i ''unavailable'' (abandonReads ''unavailable'' s)))
       | Encounter_limited code retryAfterMs \<Rightarrow>
           if isPermanent code then Inr (refuseRead plan i code s)
           else Inr (fallShort code retryAfterMs
                  (missRead plan i code (if code = ''rate_limited'' then abandonReads ''rate_limited'' s else s)))
       | Encounter_answered result \<Rightarrow>
           if la_raidSlug result \<noteq> raidSlug \<or> la_bossSlug result \<noteq> bossSlug then Inr (refuseRead plan i ''schema_drift'' s)
           else (let read = encounterInput i result
                 in Inr (s\<lparr>rs_readNow := rs_readNow s @
                      [case map_get (fr_storedRead plan) i of Some kept \<Rightarrow> refreshed kept read | None \<Rightarrow> read]\<rparr>))))"

definition readWork :: "firstKillReads \<Rightarrow> (string \<Rightarrow> nat \<Rightarrow> 'e encounterReply) \<Rightarrow> (nat, readState, 'e) limitedWork" where
  "readWork plan getLoggedEncounter = \<lparr>lw_start = startEncounterRead plan, lw_finish = finishEncounterRead plan getLoggedEncounter\<rparr>"

subsection \<open>The world of a run\<close>

record 'e firstKillWorld =
  fw_storedEncounters :: "nat list \<Rightarrow> 'e + storedAnswers"
  fw_getLoggedEncounter :: "string \<Rightarrow> nat \<Rightarrow> 'e encounterReply"
  fw_saveAnswers :: "loggedEncounter list \<Rightarrow> (nat \<times> string) list \<Rightarrow> 'e + unit"
  fw_getCharacter :: "('e + int option \<times> string) option"
    \<comment> \<open>the id and the class; \<^term>\<open>None\<close> without the operation\<close>
  fw_resolution :: "'e resolutionWorld option"

definition storedFor :: "'e firstKillWorld \<Rightarrow> historicMythicKill list \<Rightarrow> 'e + storedAnswers" where
  "storedFor world kills =
     (let ids = map fst (killsById kills)
      in if ids = [] then Inr \<lparr>sa_encounters = [], sa_unavailable = []\<rparr> else fw_storedEncounters world ids)"

definition saveReads ::
    "'e firstKillWorld \<Rightarrow> firstKillReads \<Rightarrow> readState \<Rightarrow> (nat, loggedEncounter) jsmap \<times> readState" where
  \<comment> \<open>\<open>encounters\<close> after the save, and the shortfall of one that failed\<close>
  "saveReads world plan s =
     (if rs_readNow s = [] \<and> rs_unavailableNow s = [] then (fr_storedRead plan, s)
      else (case fw_saveAnswers world (rs_readNow s) (rs_unavailableNow s) of
              Inr _ \<Rightarrow> (foldl (\<lambda>m e. map_set (le_loggedEncounterId e) e m) (fr_storedRead plan) (rs_readNow s), s)
            | Inl _ \<Rightarrow> (fr_storedRead plan,
                fallShort ''unavailable'' None
                  (foldl (\<lambda>s e. missRead plan (le_loggedEncounterId e) ''unavailable'' s) s (rs_readNow s)))))"

subsection \<open>Whose kills they are\<close>

datatype characterAnswer = Character_id int string | Character_none | Character_failed

definition raiderIoCharacterId :: "('e + int option \<times> string) option \<Rightarrow> bool \<Rightarrow> 'e + characterAnswer" where
  "raiderIoCharacterId getCharacter aborted =
     (case getCharacter of
        None \<Rightarrow> Inr Character_failed
      | Some (Inr (Some i, className)) \<Rightarrow> Inr (Character_id i className)
      | Some (Inr (None, className)) \<Rightarrow> Inr Character_none
      | Some (Inl e) \<Rightarrow> if aborted then Inl e else Inr Character_failed)"

definition establishedIds :: "raiderIoFirstKill list \<Rightarrow> nat list" where
  "establishedIds published =
     List.map_filter (\<lambda>kill.
       if rf_encounterState kill = Encounter_read \<and> rf_presenceChecked kill = Some True then rf_loggedEncounterId kill else None)
       published"

definition toCheck :: "nat list \<Rightarrow> (nat, loggedEncounter) jsmap \<Rightarrow> loggedEncounter list" where
  "toCheck established known =
     filter (\<lambda>e. le_rosterState e = Roster_available \<and> le_loggedEncounterId e \<notin> set established) (map snd known)"

definition guildRow :: "historicKillGuild \<Rightarrow> fightGuild" where
  "guildRow guild = \<lparr>fg_name = hg_name guild, fg_realm = hg_realm guild, fg_region = Some (hg_region guild)\<rparr>"

definition baseRow :: "historicMythicKill \<Rightarrow> raiderIoFirstKill" where
  \<comment> \<open>\<open>base\<close>, with the fields of a kill without a readable encounter\<close>
  "baseRow kill =
     \<lparr>rf_raidSlug = hk_raidSlug kill, rf_bossSlug = hk_bossSlug kill, rf_killedAt = hk_firstDefeated kill,
      rf_guild = map_option guildRow (hk_guild kill), rf_loggedEncounterId = None, rf_encounterState = Encounter_unavailable,
      rf_encounterLimitationCode = None, rf_historicWorldRank = None, rf_historicRankCheckedAt = None,
      rf_presenceChecked = Some False\<rparr>"

definition unreadCode :: "firstKillReads \<Rightarrow> readState \<Rightarrow> nat \<Rightarrow> string" where
  "unreadCode plan s i =
     (case map_get (rs_answered s) i of
        Some code \<Rightarrow> code
      | None \<Rightarrow> (case map_get (fr_storedUnavailable plan) i of Some code \<Rightarrow> code | None \<Rightarrow> ''unavailable''))"

definition presenceOfKill ::
    "nat list \<Rightarrow> characterAnswer option \<Rightarrow> (nat, rosterPresence) jsmap option \<Rightarrow> loggedEncounter \<Rightarrow> nat \<Rightarrow> bool option" where
  \<comment> \<open>\<open>presenceChecked\<close> of a read kill, or \<^term>\<open>None\<close> where it is left out\<close>
  "presenceOfKill established character presence encounter i =
     (if le_rosterState encounter = Roster_available then
        (if i \<in> set established then Some True
         else (case character of
                 Some (Character_id _ _) \<Rightarrow>
                   if Option.bind presence (\<lambda>p. map_get p i) = Some Is_present then Some True else None
               | Some Character_none \<Rightarrow> Some False
               | _ \<Rightarrow> None))
      else Some (i \<in> set established))"

definition killRow ::
    "firstKillReads \<Rightarrow> readState \<Rightarrow> (nat, loggedEncounter) jsmap \<Rightarrow> nat list \<Rightarrow> characterAnswer option \<Rightarrow>
     (nat, rosterPresence) jsmap option \<Rightarrow> historicMythicKill \<Rightarrow> raiderIoFirstKill option" where
  "killRow plan s known established character presence kill =
     (case hk_loggedEncounterId kill of
        None \<Rightarrow> Some (baseRow kill)
      | Some i \<Rightarrow>
          (case map_get known i of
             None \<Rightarrow> Some ((baseRow kill)\<lparr>rf_loggedEncounterId := Some i, rf_encounterLimitationCode := Some (unreadCode plan s i)\<rparr>)
           | Some encounter \<Rightarrow>
               map_option (\<lambda>checked. (baseRow kill)\<lparr>rf_killedAt := le_defeatedAt encounter, rf_loggedEncounterId := Some i,
                   rf_encounterState := Encounter_read, rf_presenceChecked := Some checked\<rparr>)
                 (presenceOfKill established character presence encounter i)))"

subsection \<open>A run\<close>

record firstKillCollection =
  fc_kills :: "raiderIoFirstKill list"
  fc_encounters :: "(nat, loggedEncounter) jsmap"
  fc_limitation :: "firstKillLimitation option"

definition settleKills ::
    "firstKillReads \<Rightarrow> historicMythicKill list \<Rightarrow> raiderIoFirstKill list \<Rightarrow> readState \<Rightarrow> (nat, loggedEncounter) jsmap \<Rightarrow>
     characterAnswer option \<Rightarrow> ((nat, rosterPresence) jsmap \<times> string option) option \<Rightarrow> firstKillCollection" where
  \<comment> \<open>from the answer about the character on\<close>
  "settleKills plan kills published s known character historicPresence =
     (let s1 = (if character = Some Character_failed then fallShort ''unavailable'' None s else s);
          s2 = (case Option.bind historicPresence snd of None \<Rightarrow> s1 | Some code \<Rightarrow> fallShort code None s1)
      in \<lparr>fc_kills = List.map_filter (killRow plan s2 known (establishedIds published) character (map_option fst historicPresence)) kills,
          fc_encounters = known, fc_limitation = rs_limitation s2\<rparr>)"

text \<open>How the reads may end, over all interleavings: with the plan, and whether the signal is aborted by then.\<close>

inductive readsSettle ::
    "js_env \<Rightarrow> 'e firstKillWorld \<Rightarrow> historicMythicKill list \<Rightarrow> string list option \<Rightarrow> int \<Rightarrow>
     firstKillReads \<Rightarrow> bool \<Rightarrow> 'e + readState \<Rightarrow> bool"
  for E world kills settledRaidSlugs now where
  reads_settle: "storedFor world kills = Inr stored \<Longrightarrow> plan = planReads E kills settledRaidSlugs stored now \<Longrightarrow>
    worksReach RAIDER_IO_LOGGED_ENCOUNTER_CONCURRENCY (readWork plan (fw_getLoggedEncounter world)) (fr_toRead plan) (initialReads plan) run \<Longrightarrow>
    promiseAll run = Some outcome \<Longrightarrow>
    readsSettle E world kills settledRaidSlugs now plan (cl_aborted run) outcome"

text \<open>What \<open>collectRaiderIoFirstKills\<close> may settle with; \<open>later\<close> is the clock of the presence check.\<close>

inductive collectsFirstKills ::
    "js_env \<Rightarrow> 'e firstKillWorld \<Rightarrow> historicMythicKill list \<Rightarrow> raiderIoFirstKill list \<Rightarrow> string list option \<Rightarrow> int \<Rightarrow> int \<Rightarrow>
     'e + firstKillCollection \<Rightarrow> bool"
  for E world kills published settledRaidSlugs now later where
  stored_failed: "storedFor world kills = Inl e \<Longrightarrow>
    collectsFirstKills E world kills published settledRaidSlugs now later (Inl e)"
| reads_rejected: "readsSettle E world kills settledRaidSlugs now plan aborted (Inl e) \<Longrightarrow>
    collectsFirstKills E world kills published settledRaidSlugs now later (Inl e)"
| nothing_to_check: "readsSettle E world kills settledRaidSlugs now plan aborted (Inr s) \<Longrightarrow> saveReads world plan s = (known, s') \<Longrightarrow>
    toCheck (establishedIds published) known = [] \<Longrightarrow>
    collectsFirstKills E world kills published settledRaidSlugs now later
      (Inr (settleKills plan kills published s' known None None))"
| character_threw: "readsSettle E world kills settledRaidSlugs now plan aborted (Inr s) \<Longrightarrow> saveReads world plan s = (known, s') \<Longrightarrow>
    toCheck (establishedIds published) known \<noteq> [] \<Longrightarrow> (aborted \<longrightarrow> aborted') \<Longrightarrow>
    raiderIoCharacterId (fw_getCharacter world) aborted' = Inl e \<Longrightarrow>
    collectsFirstKills E world kills published settledRaidSlugs now later (Inl e)"
| character_unknown: "readsSettle E world kills settledRaidSlugs now plan aborted (Inr s) \<Longrightarrow> saveReads world plan s = (known, s') \<Longrightarrow>
    toCheck (establishedIds published) known \<noteq> [] \<Longrightarrow> (aborted \<longrightarrow> aborted') \<Longrightarrow>
    raiderIoCharacterId (fw_getCharacter world) aborted' = Inr character \<Longrightarrow> character = Character_none \<or> character = Character_failed \<Longrightarrow>
    collectsFirstKills E world kills published settledRaidSlugs now later
      (Inr (settleKills plan kills published s' known (Some character) None))"
| presence_threw: "readsSettle E world kills settledRaidSlugs now plan aborted (Inr s) \<Longrightarrow> saveReads world plan s = (known, s') \<Longrightarrow>
    toCheck (establishedIds published) known \<noteq> [] \<Longrightarrow> (aborted \<longrightarrow> aborted') \<Longrightarrow>
    raiderIoCharacterId (fw_getCharacter world) aborted' = Inr (Character_id i className) \<Longrightarrow>
    resolvesPresence E (fw_resolution world) later (toCheck (establishedIds published) known) i className (Inl e) \<Longrightarrow>
    collectsFirstKills E world kills published settledRaidSlugs now later (Inl e)"
| presence_checked: "readsSettle E world kills settledRaidSlugs now plan aborted (Inr s) \<Longrightarrow> saveReads world plan s = (known, s') \<Longrightarrow>
    toCheck (establishedIds published) known \<noteq> [] \<Longrightarrow> (aborted \<longrightarrow> aborted') \<Longrightarrow>
    raiderIoCharacterId (fw_getCharacter world) aborted' = Inr (Character_id i className) \<Longrightarrow>
    resolvesPresence E (fw_resolution world) later (toCheck (establishedIds published) known) i className (Inr (presence, limitation)) \<Longrightarrow>
    collectsFirstKills E world kills published settledRaidSlugs now later
      (Inr (settleKills plan kills published s' known (Some (Character_id i className)) (Some (presence, limitation))))"

definition rebuildSettledFirstKills :: "raiderIoFirstKill list \<Rightarrow> string list \<Rightarrow> historicMythicKill list" where
  "rebuildSettledFirstKills published askedRaidSlugs =
     map (\<lambda>kill. \<lparr>hk_raidSlug = rf_raidSlug kill, hk_bossSlug = rf_bossSlug kill, hk_firstDefeated = rf_killedAt kill,
           hk_guild = map_option (\<lambda>g. \<lparr>hg_name = fg_name g, hg_realm = fg_realm g,
                                        hg_region = (case fg_region g of Some r \<Rightarrow> r | None \<Rightarrow> [])\<rparr>) (rf_guild kill),
           hk_loggedEncounterId = rf_loggedEncounterId kill\<rparr>)
       (filter (\<lambda>kill. rf_raidSlug kill \<notin> set askedRaidSlugs) published)"

end
