(* ===== verification/RosterPresenceCorrect.thy ===== *)
theory RosterPresenceCorrect
  imports RosterPresence
begin

section \<open>Presence on a roster is proved\<close>

text \<open>
  Whatever the interleaving of the workers, a character is found on a roster only if the roster has
  its id or a name on it was resolved, by Raider.IO and in a saved answer, to that id; it is found
  absent only if every such name was resolved to another id; and what is left unknown is reported.
  A run asks Raider.IO at most fifty times, four at once, about no name twice, and not again once
  it is told to stop.
\<close>

subsection \<open>What an answer rests on\<close>

definition identifies :: "'e resolutionWorld option \<Rightarrow> int \<Rightarrow> string \<Rightarrow> int \<Rightarrow> bool" where
  \<comment> \<open>a fresh stored answer, or one Raider.IO gave this run that was saved, resolves a locator to an id\<close>
  "identifies world now key i \<longleftrightarrow>
     (\<exists>W. world = Some W \<and>
       ((\<exists>locators stored row. qw_load W locators = Inr stored \<and> row \<in> set stored \<and> locatorKey (sv_locator row) = key \<and>
           answerFresh now row \<and> sv_resolvedId row = Some i) \<or>
        (\<exists>locator token n. locatorKey locator = key \<and> qw_resolve W locator = Profile_resolved n \<and> safeInteger n = Some i \<and>
           0 < i \<and> qw_answer W locator token \<lparr>rn_resolvedId = Some i, rn_limitationCode = None, rn_retryNotBefore = None\<rparr> = Inr True)))"

definition proved :: "'e resolutionWorld option \<Rightarrow> int \<Rightarrow> int \<Rightarrow> (string, presenceAnswer) jsmap \<Rightarrow> bool" where
  "proved world now subjectId answers \<longleftrightarrow>
     (\<forall>key answer. map_get answers key = Some answer \<longrightarrow>
        (fst answer = Is_present \<longrightarrow> identifies world now key subjectId) \<and>
        (fst answer = Is_absent \<longrightarrow> (\<exists>i. i \<noteq> subjectId \<and> identifies world now key i)))"

lemma proved_Nil [simp]: "proved world now subjectId []"
  by (simp add: proved_def)

lemma proved_unknown: "proved world now subjectId answers \<Longrightarrow> proved world now subjectId (map_set key (Is_unknown, code) answers)"
  by (simp add: proved_def update_conv')

lemma proved_presenceFor:
  "proved world now subjectId answers \<Longrightarrow> identifies world now key i \<Longrightarrow>
   proved world now subjectId (map_set key (presenceFor subjectId i, code) answers)"
  by (auto simp: proved_def update_conv' presenceFor_def)

lemma proved_unavailable:
  "proved world now subjectId answers \<Longrightarrow> proved world now subjectId (unavailableAnswers locators answers)"
  unfolding unavailableAnswers_def
  by (induction locators arbitrary: answers) (auto simp: proved_unknown split: prod.split)

lemma proved_heldAnswer:
  assumes "proved (Some W) now subjectId answers" and "heldAnswer subjectId now (map_get held key) = Some answer"
    and "qw_load W locators = Inr stored" and "held = map_from (map (\<lambda>row. (locatorKey (sv_locator row), row)) stored)"
  shows "proved (Some W) now subjectId (map_set key answer answers)"
proof -
  obtain row where row: "map_get held key = Some row" using assms(2) by (cases "map_get held key") (auto simp: heldAnswer_def)
  then have "(key, row) \<in> set (map (\<lambda>row. (locatorKey (sv_locator row), row)) stored)"
    unfolding assms(4) by (rule map_from_entry)
  then have "row \<in> set stored" "locatorKey (sv_locator row) = key" by auto
  then have "identifies (Some W) now key i" if "answerFresh now row" "sv_resolvedId row = Some i" for i
    using that assms(3) unfolding identifies_def by blast
  then show ?thesis
    using assms(1,2) row by (auto simp: heldAnswer_def proved_presenceFor proved_unknown split: if_splits option.splits)
qed

lemma proved_divide:
  assumes "qw_load W ls = Inr stored" and "held = map_from (map (\<lambda>row. (locatorKey (sv_locator row), row)) stored)"
  shows "proved (Some W) now subjectId answers \<Longrightarrow> proved (Some W) now subjectId (fst (divideLocators subjectId now held locators answers queue))"
proof (induction locators arbitrary: answers queue)
  case (Cons entry locators)
  obtain key locator where entry: "entry = (key, locator)" by fastforce
  show ?case
    using Cons.prems Cons.IH proved_heldAnswer [OF Cons.prems _ assms, of key] by (simp add: entry split: option.split)
qed simp

subsection \<open>Every step keeps answers proved\<close>

definition awaitsSaved :: "'e resolutionWorld \<Rightarrow> 'e workerPhase \<Rightarrow> bool" where
  \<comment> \<open>a worker that waits for a save waits for the save of what Raider.IO answered\<close>
  "awaitsSaved W phase \<longleftrightarrow>
     (\<forall>locator answer saved. phase = Waits_answer locator answer saved \<longrightarrow>
        (\<exists>token. saved = qw_answer W locator token answer) \<and>
        (\<forall>i. rn_resolvedId answer = Some i \<longrightarrow>
           answer = \<lparr>rn_resolvedId = Some i, rn_limitationCode = None, rn_retryNotBefore = None\<rparr> \<and> 0 < i \<and>
           (\<exists>n. qw_resolve W locator = Profile_resolved n \<and> safeInteger n = Some i)))"

definition poolProved :: "'e resolutionWorld \<Rightarrow> int \<Rightarrow> int \<Rightarrow> 'e presencePool \<Rightarrow> bool" where
  "poolProved W now subjectId s \<longleftrightarrow> proved (Some W) now subjectId (pq_answers s) \<and> list_all (awaitsSaved W) (pq_workers s)"

lemma list_all_update: "list_all P xs \<Longrightarrow> P x \<Longrightarrow> list_all P (xs[i := x])"
  using set_update_subset_insert [of xs i x] by (auto simp: list_all_iff)

lemma poolProved_setWorker: "poolProved W now subjectId s \<Longrightarrow> awaitsSaved W phase \<Longrightarrow> poolProved W now subjectId (setWorker w phase s)"
  by (simp add: poolProved_def setWorker_def list_all_update)

lemma awaitsSaved_simps [simp]:
  "awaitsSaved W At_loop" "awaitsSaved W (Waits_reserve locator)" "awaitsSaved W (Waits_resolve locator token)"
  "awaitsSaved W Worker_done" "awaitsSaved W (Worker_rejected e)"
  by (simp_all add: awaitsSaved_def)

lemma poolProved_frame:
  "poolProved W now subjectId s \<Longrightarrow> pq_answers s' = pq_answers s \<Longrightarrow> pq_workers s' = pq_workers s \<Longrightarrow> poolProved W now subjectId s'"
  by (simp add: poolProved_def)

lemma poolProved_unknown: "poolProved W now subjectId s \<Longrightarrow> poolProved W now subjectId (setAnswer locator (Is_unknown, code) s)"
  by (simp add: poolProved_def setAnswer_def proved_unknown)

lemma poolProved_loopHead: "poolProved W now subjectId s \<Longrightarrow> poolProved W now subjectId (loopHead w s)"
  unfolding loopHead_def
  by (auto intro!: poolProved_setWorker split: list.split elim: poolProved_frame)

lemma poolProved_settleReserve: "poolProved W now subjectId s \<Longrightarrow> poolProved W now subjectId (settleReserve W w locator s)"
  unfolding settleReserve_def
  by (auto intro!: poolProved_setWorker poolProved_unknown split: sum.split option.split elim: poolProved_frame)

lemma poolProved_settleResolve: "poolProved W now subjectId s \<Longrightarrow> poolProved W now subjectId (settleResolve W w locator token s)"
  unfolding settleResolve_def Let_def
  by (auto intro!: poolProved_setWorker simp: awaitsSaved_def split: resolveReply.split option.splits if_splits bool.split
      elim: poolProved_frame)

lemma poolProved_settleAnswer:
  assumes "poolProved W now subjectId s" and "awaitsSaved W (Waits_answer locator answer saved)"
  shows "poolProved W now subjectId (settleAnswer subjectId w locator answer saved s)"
proof (cases "\<exists>i. saved = Inr True \<and> rn_resolvedId answer = Some i")
  case True
  then obtain i where i: "saved = Inr True" "rn_resolvedId answer = Some i" by blast
  then have "identifies (Some W) now (locatorKey locator) i"
    using assms(2) unfolding awaitsSaved_def identifies_def by metis
  then have "poolProved W now subjectId (setAnswer locator (presenceFor subjectId i, None) s)"
    using assms(1) by (simp add: poolProved_def setAnswer_def proved_presenceFor)
  then show ?thesis using i by (simp add: settleAnswer_def poolProved_setWorker)
next
  case False
  then show ?thesis
    using assms(1) unfolding settleAnswer_def
    by (auto intro!: poolProved_setWorker poolProved_unknown split: sum.split option.split)
qed

lemma poolProved_step: "presenceStep W subjectId s s' \<Longrightarrow> poolProved W now subjectId s \<Longrightarrow> poolProved W now subjectId s'"
proof (induction rule: presenceStep.induct)
  case (presence_worker w s)
  then have "awaitsSaved W (pq_workers s ! w)" by (simp add: poolProved_def list_all_length)
  with presence_worker show ?case
    by (auto simp: workerStep_def poolProved_loopHead poolProved_settleReserve poolProved_settleResolve poolProved_settleAnswer
        split: workerPhase.split)
next
  case (presence_abort s)
  then show ?case by (auto elim: poolProved_frame)
qed

lemma poolProved_initial:
  assumes "qw_load W ls = Inr stored"
  shows "poolProved W now subjectId (initialPool E subjectId now stored locators)"
  using proved_divide [OF assms refl, of now subjectId "[]" locators "[]"]
  by (cases "divideLocators subjectId now (map_from (map (\<lambda>row. (locatorKey (sv_locator row), row)) stored)) locators [] []")
    (simp add: initialPool_def Let_def poolProved_def list_all_iff)

lemma poolProved_reached:
  "(presenceStep W subjectId)\<^sup>*\<^sup>* s s' \<Longrightarrow> poolProved W now subjectId s \<Longrightarrow> poolProved W now subjectId s'"
  by (induction rule: rtranclp_induct) (auto intro: poolProved_step)

subsection \<open>What the scan of the rosters finds\<close>

definition usable :: "js_env \<Rightarrow> string \<Rightarrow> loggedMember \<Rightarrow> bool" where
  "usable E subjectClass member \<longleftrightarrow> tombstone subjectClass member \<and> isValidRosterProfileLocator E (locatorOf E member)"

definition unusable :: "js_env \<Rightarrow> string \<Rightarrow> loggedMember \<Rightarrow> bool" where
  "unusable E subjectClass member \<longleftrightarrow> tombstone subjectClass member \<and> \<not> isValidRosterProfileLocator E (locatorOf E member)"

definition locatorKeys :: "js_env \<Rightarrow> string \<Rightarrow> loggedEncounter \<Rightarrow> string list" where
  "locatorKeys E subjectClass encounter =
     map (\<lambda>member. locatorKey (locatorOf E member)) (filter (usable E subjectClass) (le_members encounter))"

lemma scanMembers_parts:
  "ps_presence (scanMembers E c i members keys s) = ps_presence s"
  "ps_targets (scanMembers E c i members keys s) =
     map_set i (keys @ map (\<lambda>member. locatorKey (locatorOf E member)) (filter (usable E c) members)) (ps_targets s)"
  "set (ps_invalid (scanMembers E c i members keys s)) =
     set (ps_invalid s) \<union> (if list_ex (unusable E c) members then {i} else {})"
  by (induction E c i members keys s rule: scanMembers.induct) (auto simp: Let_def usable_def unusable_def)

lemma scanEncounters_snoc:
  "scanEncounters E subjectId c (encounters @ [encounter]) =
     scanEncounter E subjectId c (scanEncounters E subjectId c encounters) encounter"
  by (simp add: scanEncounters_def)

definition scanned :: "js_env \<Rightarrow> int \<Rightarrow> string \<Rightarrow> loggedEncounter list \<Rightarrow> presenceScan \<Rightarrow> bool" where
  "scanned E subjectId c encounters s \<longleftrightarrow>
     distinct (map fst (ps_targets s)) \<and>
     set (map fst (ps_presence s)) \<subseteq> le_loggedEncounterId ` set encounters \<and>
     set (map fst (ps_targets s)) \<subseteq> le_loggedEncounterId ` set encounters \<and>
     set (ps_invalid s) \<subseteq> le_loggedEncounterId ` set encounters \<and>
     (\<forall>encounter \<in> set encounters. let i = le_loggedEncounterId encounter in
        if listsSubject subjectId encounter
        then map_get (ps_presence s) i = Some Is_present \<and> map_get (ps_targets s) i = None
        else map_get (ps_targets s) i = Some (locatorKeys E c encounter) \<and>
             (i \<in> set (ps_invalid s) \<longleftrightarrow> list_ex (unusable E c) (le_members encounter)))"

lemma scanned_scanEncounters:
  "distinct (map le_loggedEncounterId encounters) \<Longrightarrow> scanned E subjectId c encounters (scanEncounters E subjectId c encounters)"
proof (induction encounters rule: rev_induct)
  case Nil
  show ?case by (simp add: scanned_def scanEncounters_def)
next
  case (snoc encounter encounters)
  let ?s = "scanEncounters E subjectId c encounters"
  have IH: "scanned E subjectId c encounters ?s" using snoc by simp
  have new: "le_loggedEncounterId encounter \<notin> le_loggedEncounterId ` set encounters" using snoc.prems by auto
  then have fresh: "map_get (ps_targets ?s) (le_loggedEncounterId encounter) = None"
    "le_loggedEncounterId encounter \<notin> set (ps_invalid ?s)"
    using IH unfolding scanned_def by (auto simp: map_of_eq_None_iff)
  have other: "le_loggedEncounterId e \<noteq> le_loggedEncounterId encounter" if "e \<in> set encounters" for e
    using new that by (metis imageI)
  show ?case
  proof (cases "listsSubject subjectId encounter")
    case True
    then show ?thesis
      using IH fresh other unfolding scanned_def scanEncounters_snoc
      by (auto simp: scanEncounter_def Let_def update_conv' dom_update distinct_update)
  next
    case False
    then show ?thesis
      using IH fresh other unfolding scanned_def scanEncounters_snoc
      by (auto simp: scanEncounter_def scanMembers_parts locatorKeys_def Let_def update_conv' dom_update distinct_update)
  qed
qed

lemma concludePresence_get:
  assumes "concludePresence scan answers targets (presence, limitation) = (presence', limitation')" and "distinct (map fst targets)"
  shows "map_get presence' i =
      (case map_get targets i of Some keys \<Rightarrow> Some (targetPresence scan answers i keys) | None \<Rightarrow> map_get presence i)"
    and "limitation' = None \<longleftrightarrow> limitation = None \<and> (\<forall>(i, keys) \<in> set targets. targetPresence scan answers i keys \<noteq> Is_unknown)"
  using assms
proof (induction scan answers targets "(presence, limitation)" arbitrary: presence limitation rule: concludePresence.induct)
  case (2 scan answers j keys targets presence limitation)
  note IH = 2
  {
    case 1
    then have "map_get targets j = None" by (auto simp: map_of_eq_None_iff)
    then show ?case using 1 IH(1) [OF refl] by (cases "i = j") (simp_all add: Let_def update_conv' split: option.split)
  next
    case 2
    then show ?case using IH(2) [OF refl] by (auto simp: Let_def split: if_splits option.splits)
  }
qed simp_all

subsection \<open>Presence\<close>

definition rosterProof :: "js_env \<Rightarrow> 'e resolutionWorld option \<Rightarrow> int \<Rightarrow> int \<Rightarrow> string \<Rightarrow> loggedEncounter \<Rightarrow> bool" where
  \<comment> \<open>the roster has the id, or a name on it was resolved to it\<close>
  "rosterProof E world now subjectId subjectClass encounter \<longleftrightarrow>
     listsSubject subjectId encounter \<or>
     (\<exists>key \<in> set (locatorKeys E subjectClass encounter). identifies world now key subjectId)"

definition rosterDisproof :: "js_env \<Rightarrow> 'e resolutionWorld option \<Rightarrow> int \<Rightarrow> int \<Rightarrow> string \<Rightarrow> loggedEncounter \<Rightarrow> bool" where
  \<comment> \<open>the roster does not have the id, and every name that could stand for it was resolved to another\<close>
  "rosterDisproof E world now subjectId subjectClass encounter \<longleftrightarrow>
     \<not> listsSubject subjectId encounter \<and> \<not> list_ex (unusable E subjectClass) (le_members encounter) \<and>
     (\<forall>key \<in> set (locatorKeys E subjectClass encounter). \<exists>i. i \<noteq> subjectId \<and> identifies world now key i)"

lemma proved_conclusion:
  "proved world now subjectId answers \<Longrightarrow>
   \<exists>a. proved world now subjectId a \<and> conclusion scan answers = conclusion scan a"
  by blast

lemma resolves_conclusion:
  assumes "resolvesPresence E world now encounters subjectId subjectClass (Inr result)"
  shows "\<exists>answers. proved world now subjectId answers \<and>
    result = conclusion (scanEncounters E subjectId subjectClass encounters) answers"
  using assms
proof (cases rule: resolvesPresence.cases)
  case (pool_settled W scan stored s)
  then have "poolProved W now subjectId s" using poolProved_reached poolProved_initial by blast
  then have "proved world now subjectId (pq_answers s)" using pool_settled by (simp add: poolProved_def)
  then have "proved world now subjectId (unavailableAnswers (ps_locators scan) (pq_answers s))"
    "proved world now subjectId (pq_answers s)" by (simp_all add: proved_unavailable)
  then show ?thesis using pool_settled(1,3) by (cases "rejection (pq_workers s)"; cases "pq_aborted s") auto
qed (auto intro!: proved_conclusion proved_unavailable split: if_splits)

lemma presence_conclusion:
  assumes "resolvesPresence E world now encounters subjectId subjectClass (Inr (presence, limitation))"
    and "distinct (map le_loggedEncounterId encounters)"
  obtains scan answers where "proved world now subjectId answers" "scanned E subjectId subjectClass encounters scan"
    "\<And>i. map_get presence i =
      (case map_get (ps_targets scan) i of Some keys \<Rightarrow> Some (targetPresence scan answers i keys) | None \<Rightarrow> map_get (ps_presence scan) i)"
    "limitation = None \<longleftrightarrow> (\<forall>(i, keys) \<in> set (ps_targets scan). targetPresence scan answers i keys \<noteq> Is_unknown)"
proof -
  define scan where "scan = scanEncounters E subjectId subjectClass encounters"
  obtain answers where answers: "proved world now subjectId answers" "(presence, limitation) = conclusion scan answers"
    using resolves_conclusion [OF assms(1)] unfolding scan_def by blast
  have scan: "scanned E subjectId subjectClass encounters scan" unfolding scan_def by (rule scanned_scanEncounters [OF assms(2)])
  have run: "concludePresence scan answers (ps_targets scan) (ps_presence scan, None) = (presence, limitation)"
    using answers(2) by (simp add: conclusion_def)
  have targets: "distinct (map fst (ps_targets scan))" using scan by (simp add: scanned_def)
  show thesis
    using that [OF answers(1) scan concludePresence_get(1) [OF run targets]] concludePresence_get(2) [OF run targets] by simp
qed

lemma presence_classified:
  assumes "resolvesPresence E world now encounters subjectId subjectClass (Inr (presence, limitation))"
    and "distinct (map le_loggedEncounterId encounters)" and e: "encounter \<in> set encounters"
  shows "case map_get presence (le_loggedEncounterId encounter) of
        Some Is_present \<Rightarrow> rosterProof E world now subjectId subjectClass encounter
      | Some Is_absent \<Rightarrow> rosterDisproof E world now subjectId subjectClass encounter
      | Some Is_unknown \<Rightarrow> limitation \<noteq> None
      | None \<Rightarrow> False"
proof -
  obtain scan answers where answers: "proved world now subjectId answers" and scan: "scanned E subjectId subjectClass encounters scan"
    and get: "\<And>i. map_get presence i =
      (case map_get (ps_targets scan) i of Some keys \<Rightarrow> Some (targetPresence scan answers i keys) | None \<Rightarrow> map_get (ps_presence scan) i)"
    and limited: "limitation = None \<longleftrightarrow> (\<forall>(i, keys) \<in> set (ps_targets scan). targetPresence scan answers i keys \<noteq> Is_unknown)"
    by (rule presence_conclusion [OF assms(1,2)]) (rule that, assumption+)
  show ?thesis
  proof (cases "listsSubject subjectId encounter")
    case True
    then show ?thesis using scan e get [of "le_loggedEncounterId encounter"] by (simp add: scanned_def Let_def rosterProof_def)
  next
    case False
    let ?i = "le_loggedEncounterId encounter" and ?keys = "locatorKeys E subjectClass encounter"
    have target: "map_get (ps_targets scan) ?i = Some ?keys"
      and invalid: "?i \<in> set (ps_invalid scan) \<longleftrightarrow> list_ex (unusable E subjectClass) (le_members encounter)"
      using scan e False by (simp_all add: scanned_def Let_def)
    have found: "map_get presence ?i = Some (targetPresence scan answers ?i ?keys)" using get [of ?i] target by simp
    show ?thesis
    proof (cases "targetPresence scan answers ?i ?keys")
      case Is_present
      then obtain key answer where "key \<in> set ?keys" "map_get answers key = Some answer" "fst answer = Is_present"
        by (auto simp: targetPresence_def list_ex_iff split: if_splits)
      then have "rosterProof E world now subjectId subjectClass encounter"
        using answers unfolding proved_def rosterProof_def by blast
      then show ?thesis using found Is_present by simp
    next
      case Is_absent
      then have "\<forall>key \<in> set ?keys. \<exists>answer. map_get answers key = Some answer \<and> fst answer = Is_absent"
        and "?i \<notin> set (ps_invalid scan)"
        by (auto simp: targetPresence_def list_ex_iff split: if_splits)
      then have "rosterDisproof E world now subjectId subjectClass encounter"
        using answers False invalid unfolding rosterDisproof_def proved_def by metis
      then show ?thesis using found Is_absent by simp
    next
      case Is_unknown
      then have "limitation \<noteq> None" using limited map_of_SomeD [OF target] by fastforce
      then show ?thesis using found Is_unknown by simp
    qed
  qed
qed

text \<open>
  C34. A character is taken to be on a roster only if the roster has its id, or a name that carries an id
  was resolved to it by a saved answer; it is taken to be absent only if every such name was resolved
  to somebody else; and a limitation is raised exactly when some roster is left unknown.
\<close>

theorem presence_proved:
  assumes "resolvesPresence E world now encounters subjectId subjectClass (Inr (presence, limitation))"
    and "distinct (map le_loggedEncounterId encounters)"
  shows "(\<forall>encounter \<in> set encounters.
      case map_get presence (le_loggedEncounterId encounter) of
        Some Is_present \<Rightarrow> rosterProof E world now subjectId subjectClass encounter
      | Some Is_absent \<Rightarrow> rosterDisproof E world now subjectId subjectClass encounter
      | Some Is_unknown \<Rightarrow> limitation \<noteq> None
      | None \<Rightarrow> False) \<and>
    (limitation \<noteq> None \<longrightarrow> (\<exists>encounter \<in> set encounters. map_get presence (le_loggedEncounterId encounter) = Some Is_unknown))"
proof (intro conjI ballI impI)
  fix encounter
  assume "encounter \<in> set encounters"
  then show "case map_get presence (le_loggedEncounterId encounter) of
        Some Is_present \<Rightarrow> rosterProof E world now subjectId subjectClass encounter
      | Some Is_absent \<Rightarrow> rosterDisproof E world now subjectId subjectClass encounter
      | Some Is_unknown \<Rightarrow> limitation \<noteq> None
      | None \<Rightarrow> False"
    by (rule presence_classified [OF assms])
next
  assume "limitation \<noteq> None"
  obtain scan answers where "proved world now subjectId answers" and scan: "scanned E subjectId subjectClass encounters scan"
    and get: "\<And>i. map_get presence i =
      (case map_get (ps_targets scan) i of Some keys \<Rightarrow> Some (targetPresence scan answers i keys) | None \<Rightarrow> map_get (ps_presence scan) i)"
    and limited: "limitation = None \<longleftrightarrow> (\<forall>(i, keys) \<in> set (ps_targets scan). targetPresence scan answers i keys \<noteq> Is_unknown)"
    by (rule presence_conclusion [OF assms]) (rule that, assumption+)
  obtain i keys where i: "(i, keys) \<in> set (ps_targets scan)" "targetPresence scan answers i keys = Is_unknown"
    using limited \<open>limitation \<noteq> None\<close> by auto
  then have "map_get presence i = Some Is_unknown" using get [of i] scan by (simp add: scanned_def)
  moreover have "i \<in> le_loggedEncounterId ` set encounters" using scan i(1) unfolding scanned_def by force
  ultimately show "\<exists>encounter \<in> set encounters. map_get presence (le_loggedEncounterId encounter) = Some Is_unknown" by blast
qed

subsection \<open>The requests of a run\<close>

fun reserving :: "'e workerPhase \<Rightarrow> rosterProfileLocator list" where
  "reserving (Waits_reserve locator) = [locator]"
| "reserving phase = []"

definition reserved :: "'e workerPhase list \<Rightarrow> rosterProfileLocator multiset" where
  "reserved phases = mset (concat (map reserving phases))"

fun phaseWeight :: "'e workerPhase \<Rightarrow> nat" where
  "phaseWeight At_loop = 1"
| "phaseWeight (Waits_reserve locator) = 4"
| "phaseWeight (Waits_resolve locator token) = 3"
| "phaseWeight (Waits_answer locator answer saved) = 2"
| "phaseWeight phase = 0"

definition poolWeight :: "'e presencePool \<Rightarrow> nat" where
  \<comment> \<open>what every step makes smaller\<close>
  "poolWeight s = 4 * length (pq_queue s) + sum_list (map phaseWeight (pq_workers s)) + (if pq_aborted s then 0 else 1)"

definition withinSlots :: "rosterProfileLocator list \<Rightarrow> 'e presencePool \<Rightarrow> bool" where
  \<comment> \<open>what was asked, what is reserved and what waits are among the locators given, and slots cover the former two\<close>
  "withinSlots asked s \<longleftrightarrow>
     length (pq_workers s) = ROSTER_PROFILE_RESOLUTION_CONCURRENCY \<and> pq_slots s \<le> MAX_ROSTER_PROFILE_RESOLUTIONS \<and>
     length (pq_reads s) + size (reserved (pq_workers s)) \<le> pq_slots s \<and>
     mset (pq_reads s) + reserved (pq_workers s) + mset (pq_queue s) \<subseteq># mset asked"

lemma setWorker_parts [simp]:
  "pq_queue (setWorker w phase s) = pq_queue s" "pq_slots (setWorker w phase s) = pq_slots s"
  "pq_reads (setWorker w phase s) = pq_reads s" "pq_aborted (setWorker w phase s) = pq_aborted s"
  "pq_stopped (setWorker w phase s) = pq_stopped s"
  "pq_workers (setWorker w phase s) = (pq_workers s)[w := phase]"
  by (simp_all add: setWorker_def)

lemma setAnswer_parts [simp]:
  "pq_queue (setAnswer l a s) = pq_queue s" "pq_slots (setAnswer l a s) = pq_slots s"
  "pq_reads (setAnswer l a s) = pq_reads s" "pq_aborted (setAnswer l a s) = pq_aborted s"
  "pq_stopped (setAnswer l a s) = pq_stopped s" "pq_workers (setAnswer l a s) = pq_workers s"
  by (simp_all add: setAnswer_def)

text \<open>What the other workers hold does not change when one goes on.\<close>

lemma split_workers:
  assumes "w < length ws"
  obtains held weight where
    "reserved ws = held + mset (reserving (ws ! w))" "\<And>phase. reserved (ws[w := phase]) = held + mset (reserving phase)"
    "sum_list (map phaseWeight ws) = weight + phaseWeight (ws ! w)"
    "\<And>phase. sum_list (map phaseWeight (ws[w := phase])) = weight + phaseWeight phase"
proof
  let ?held = "reserved (take w ws @ drop (Suc w) ws)" and ?weight = "sum_list (map phaseWeight (take w ws @ drop (Suc w) ws))"
  have ws: "ws = take w ws @ ws ! w # drop (Suc w) ws" by (rule id_take_nth_drop [OF assms])
  show updated: "reserved (ws[w := phase]) = ?held + mset (reserving phase)" for phase
    unfolding upd_conv_take_nth_drop [OF assms] reserved_def by simp
  show weighed: "sum_list (map phaseWeight (ws[w := phase])) = ?weight + phaseWeight phase" for phase
    unfolding upd_conv_take_nth_drop [OF assms] by simp
  show "reserved ws = ?held + mset (reserving (ws ! w))" using updated [of "ws ! w"] by simp
  show "sum_list (map phaseWeight ws) = ?weight + phaseWeight (ws ! w)" using weighed [of "ws ! w"] by simp
qed

lemma worker_withinSlots:
  assumes "withinSlots asked s" and "w < length (pq_workers s)" and "runnable (pq_workers s ! w)"
  shows "withinSlots asked (workerStep W subjectId w s) \<and> poolWeight (workerStep W subjectId w s) < poolWeight s \<and>
    (pq_stopped s \<longrightarrow> pq_reads (workerStep W subjectId w s) = pq_reads s)"
proof -
  obtain held weight where ws: "reserved (pq_workers s) = held + mset (reserving (pq_workers s ! w))"
    "\<And>phase. reserved ((pq_workers s)[w := phase]) = held + mset (reserving phase)"
    "sum_list (map phaseWeight (pq_workers s)) = weight + phaseWeight (pq_workers s ! w)"
    "\<And>phase. sum_list (map phaseWeight ((pq_workers s)[w := phase])) = weight + phaseWeight phase"
    using split_workers [OF assms(2)] by metis
  note parts = withinSlots_def poolWeight_def ws
  show ?thesis
  proof (cases "pq_workers s ! w")
    case At_loop
    then show ?thesis
      using assms(1) by (cases "pq_queue s") (auto simp: workerStep_def loopHead_def parts)
  next
    case (Waits_reserve locator)
    then have sub: "add_mset locator (mset (pq_reads s) + held + mset (pq_queue s)) \<subseteq># mset asked"
      and slots: "length (pq_reads s) + Suc (size held) \<le> pq_slots s"
      using assms(1) by (simp_all add: parts)
    then have "mset (pq_reads s) + held + mset (pq_queue s) \<subseteq># mset asked" by (meson mset_subset_eq_insertD subset_mset.less_imp_le)
    then show ?thesis
      using assms(1) Waits_reserve sub slots
      by (auto simp: workerStep_def settleReserve_def parts split: sum.split option.split)
  next
    case (Waits_resolve locator token)
    then show ?thesis
      using assms(1)
      by (auto simp: workerStep_def settleResolve_def Let_def parts split: resolveReply.split bool.split)
  next
    case (Waits_answer locator answer saved)
    then show ?thesis
      using assms(1)
      by (auto simp: workerStep_def settleAnswer_def parts split: sum.split option.split)
  qed (use assms(3) in simp_all)
qed

definition keyedLocators :: "(string, rosterProfileLocator) jsmap \<Rightarrow> bool" where
  "keyedLocators m \<longleftrightarrow> distinct (map fst m) \<and> (\<forall>key locator. map_get m key = Some locator \<longrightarrow> key = locatorKey locator)"

lemma keyedLocators_set: "keyedLocators m \<Longrightarrow> keyedLocators (map_set (locatorKey l) l m)"
  by (auto simp: keyedLocators_def distinct_update update_conv')

lemma keyedLocators_entry: "keyedLocators m \<Longrightarrow> (key, locator) \<in> set m \<Longrightarrow> key = locatorKey locator"
  by (simp add: keyedLocators_def)

lemma distinct_submset:
  assumes "mset xs \<subseteq># mset ys" and "distinct ys"
  shows "distinct xs"
  unfolding distinct_count_atmost_1
proof
  fix a
  have "count (mset xs) a \<le> 1"
    using mset_subset_eq_count [OF assms(1), of a] assms(2) unfolding distinct_count_atmost_1 by (metis le_trans linorder_le_cases zero_le_one)
  then show "count (mset xs) a = (if a \<in> set xs then 1 else 0)"
    by (metis count_greater_eq_one_iff count_mset_0_iff le_antisym set_mset_mset)
qed

lemma scanMembers_keyed:
  "keyedLocators (ps_locators s) \<Longrightarrow> keyedLocators (ps_locators (scanMembers E c i members keys s))"
  by (induction E c i members keys s rule: scanMembers.induct) (auto simp: Let_def keyedLocators_set)

lemma scanEncounters_keyed: "keyedLocators (ps_locators (scanEncounters E subjectId c encounters))"
proof (induction encounters rule: rev_induct)
  case (snoc encounter encounters)
  then show ?case by (simp add: scanEncounters_snoc scanEncounter_def scanMembers_keyed)
qed (simp add: scanEncounters_def keyedLocators_def)

lemma divide_queue:
  "snd (divideLocators subjectId now held locators answers queue) =
     queue @ map snd (filter (\<lambda>(key, _). heldAnswer subjectId now (map_get held key) = None) locators)"
proof (induction locators arbitrary: answers queue)
  case (Cons entry locators)
  then show ?case by (cases entry) (simp split: option.split)
qed simp

definition lastStored :: "storedResolution list \<Rightarrow> rosterProfileLocator \<Rightarrow> storedResolution option" where
  "lastStored stored locator = find (\<lambda>row. locatorKey (sv_locator row) = locatorKey locator) (rev stored)"

lemma map_from_find: "map_get (map_from (map (\<lambda>x. (f x, x)) xs)) k = find (\<lambda>x. f x = k) (rev xs)"
proof -
  have "map_of (map (\<lambda>x. (f x, x)) ys) k = find (\<lambda>x. f x = k) ys" for ys by (induction ys) auto
  then show ?thesis by (simp add: map_of_map_from rev_map)
qed

lemma initialPool_queue:
  assumes "keyedLocators locators"
  shows "withinSlots (pq_queue (initialPool E subjectId now stored locators)) (initialPool E subjectId now stored locators)"
    and "distinct (map locatorKey (pq_queue (initialPool E subjectId now stored locators)))"
    and "locator \<in> set (pq_queue (initialPool E subjectId now stored locators)) \<Longrightarrow>
      heldAnswer subjectId now (lastStored stored locator) = None"
proof -
  let ?held = "map_from (map (\<lambda>row. (locatorKey (sv_locator row), row)) stored)"
  let ?wanted = "filter (\<lambda>(key, _). heldAnswer subjectId now (map_get ?held key) = None) locators"
  have queue: "pq_queue (initialPool E subjectId now stored locators) = sort_by (compareAttempts E ?held) (map snd ?wanted)"
    using divide_queue [of subjectId now ?held locators "[]" "[]"]
    by (cases "divideLocators subjectId now ?held locators [] []") (simp add: initialPool_def Let_def)
  have keys: "map locatorKey (map snd ?wanted) = map fst ?wanted" using keyedLocators_entry [OF assms] by auto
  have "distinct (map fst ?wanted)" using assms unfolding keyedLocators_def by (blast intro: distinct_map_filter)
  then show "distinct (map locatorKey (pq_queue (initialPool E subjectId now stored locators)))"
    unfolding queue distinct_map_sort_by keys .
  show "heldAnswer subjectId now (lastStored stored locator) = None"
    if "locator \<in> set (pq_queue (initialPool E subjectId now stored locators))"
    using that keyedLocators_entry [OF assms] unfolding queue by (auto simp: lastStored_def map_from_find)
  show "withinSlots (pq_queue (initialPool E subjectId now stored locators)) (initialPool E subjectId now stored locators)"
    by (simp add: withinSlots_def initialPool_def Let_def reserved_def ROSTER_PROFILE_RESOLUTION_CONCURRENCY_def split: prod.split)
qed

lemma withinSlots_reached:
  "(presenceStep W subjectId)\<^sup>*\<^sup>* s s' \<Longrightarrow> withinSlots asked s \<Longrightarrow> withinSlots asked s'"
proof (induction rule: rtranclp_induct)
  case (step s' s'')
  from step(2) show ?case
  proof cases
    case (presence_worker w)
    then show ?thesis using worker_withinSlots step by blast
  next
    case presence_abort
    then show ?thesis using step by (simp add: withinSlots_def)
  qed
qed

text \<open>
  C35. However the workers interleave, a run asks Raider.IO about at most fifty names, four at once, about
  none twice and about none a stored answer settles; once it is told to stop nobody asks again;
  and every step brings the run nearer to its end.
\<close>

theorem resolution_bounded:
  assumes "(presenceStep W subjectId)\<^sup>*\<^sup>*
    (initialPool E subjectId now stored (ps_locators (scanEncounters E subjectId subjectClass encounters))) s"
  shows "length (pq_reads s) \<le> MAX_ROSTER_PROFILE_RESOLUTIONS \<and> distinct (map locatorKey (pq_reads s)) \<and>
    length (pq_workers s) = ROSTER_PROFILE_RESOLUTION_CONCURRENCY \<and>
    (\<forall>locator \<in> set (pq_reads s). heldAnswer subjectId now (lastStored stored locator) = None) \<and>
    (\<forall>s'. presenceStep W subjectId s s' \<longrightarrow>
       poolWeight s' < poolWeight s \<and> (pq_stopped s \<longrightarrow> pq_reads s' = pq_reads s))"
proof -
  define start where "start = (initialPool E subjectId now stored (ps_locators (scanEncounters E subjectId subjectClass encounters)) :: 'a presencePool)"
  note queue = initialPool_queue [OF scanEncounters_keyed, where E = E and now = now and stored = stored, folded start_def]
  have within: "withinSlots (pq_queue start) s"
    using withinSlots_reached [OF assms [folded start_def]] queue(1) [of subjectId] unfolding start_def by blast
  then have asked: "mset (pq_reads s) \<subseteq># mset (pq_queue start)"
    unfolding withinSlots_def by (meson mset_subset_eq_add_left subset_mset.trans)
  have "distinct (map locatorKey (pq_queue start))" unfolding start_def by (rule initialPool_queue(2) [OF scanEncounters_keyed])
  moreover have "mset (map locatorKey (pq_reads s)) \<subseteq># mset (map locatorKey (pq_queue start))"
    using asked by (simp add: image_mset_subseteq_mono)
  ultimately have "distinct (map locatorKey (pq_reads s))" by (blast intro: distinct_submset)
  moreover have "heldAnswer subjectId now (lastStored stored locator) = None" if "locator \<in> set (pq_reads s)" for locator
  proof -
    have "locator \<in> set (pq_queue start)" using asked that by (metis mset_subset_eqD set_mset_mset)
    then show ?thesis unfolding start_def by (rule initialPool_queue(3) [OF scanEncounters_keyed])
  qed
  moreover have "poolWeight s' < poolWeight s \<and> (pq_stopped s \<longrightarrow> pq_reads s' = pq_reads s)" if "presenceStep W subjectId s s'" for s'
    using that
  proof cases
    case (presence_worker w)
    then show ?thesis using worker_withinSlots [OF within] by blast
  next
    case presence_abort
    then show ?thesis by (simp add: poolWeight_def)
  qed
  ultimately show ?thesis using within unfolding withinSlots_def by auto
qed

subsection \<open>A small run\<close>

fun runWorkers :: "'e resolutionWorld \<Rightarrow> int \<Rightarrow> nat list \<Rightarrow> 'e presencePool \<Rightarrow> 'e presencePool option" where
  \<comment> \<open>the named workers go on one after the other\<close>
  "runWorkers W subjectId [] s = Some s"
| "runWorkers W subjectId (w # ws) s =
     (if w < length (pq_workers s) \<and> runnable (pq_workers s ! w) then runWorkers W subjectId ws (workerStep W subjectId w s) else None)"

lemma runWorkers_reaches: "runWorkers W subjectId ws s = Some s' \<Longrightarrow> (presenceStep W subjectId)\<^sup>*\<^sup>* s s'"
  by (induction ws arbitrary: s) (auto split: if_splits intro: converse_rtranclp_into_rtranclp presence_worker)

definition exampleRoster42 :: loggedEncounter where
  \<comment> \<open>a roster with a renamed raider\<close>
  "exampleRoster42 =
     \<lparr>le_loggedEncounterId = 7, le_raidSlug = ''manaforge-omega'', le_bossSlug = ''plexus-sentinel'',
      le_pulledAt = [], le_defeatedAt = [], le_durationMs = 0, le_guild = None, le_itemLevel = (0, 0, 0), le_deathCount = 0,
      le_vantusCount = None, le_shareRaidUntil = None, le_rosterState = Roster_available,
      le_members = [\<lparr>lm_raiderIoCharacterId = 42, lm_name = ''Ryii-42'', lm_realm = ''tarren-mill'', lm_region = ''eu'',
        lm_className = ''Mage'', lm_specName = ''Fire'', lm_role = ''dps'', lm_itemLevel = None\<rparr>]\<rparr>"

definition exampleResolver :: "unit resolutionWorld" where
  \<comment> \<open>Raider.IO resolves every name to the id 99\<close>
  "exampleResolver =
     \<lparr>qw_load = (\<lambda>_. Inr []), qw_reserve = (\<lambda>_. Inr (Some 1)), qw_resolve = (\<lambda>_. Profile_resolved (Finite (of_nat 99))),
      qw_answer = (\<lambda>_ _ _. Inr True), qw_answeredAt = (\<lambda>_. 0), qw_abortError = ()\<rparr>"

definition exampleLocator :: rosterProfileLocator where
  "exampleLocator = \<lparr>rl_region = ''eu'', rl_realm = ''tarren-mill'', rl_name = ''ryii-42'', rl_historicId = 42\<rparr>"

definition exampleScan :: presenceScan where
  "exampleScan = scanEncounters ascii_env 99 ''Mage'' [exampleRoster42]"

lemma exampleScan_eq:
  "exampleScan = \<lparr>ps_presence = [], ps_targets = [(7, [locatorKey exampleLocator])],
     ps_locators = [(locatorKey exampleLocator, exampleLocator)], ps_invalid = []\<rparr>"
  by code_simp

lemma exampleRun42_eq:
  "runWorkers exampleResolver 99 [0, 0, 0, 0, 0, 1, 2, 3] (initialPool ascii_env 99 0 [] (ps_locators exampleScan)) =
     Some \<lparr>pq_queue = [], pq_slots = 1, pq_stopped = False, pq_aborted = False,
       pq_answers = [(locatorKey exampleLocator, (Is_present, None))], pq_workers = replicate 4 Worker_done, pq_reads = [exampleLocator]\<rparr>"
  by (simp add: exampleScan_eq initialPool_def heldAnswer_def map_from_def ROSTER_PROFILE_RESOLUTION_CONCURRENCY_def
      numeral_eq_Suc workerStep_def loopHead_def settleReserve_def settleResolve_def settleAnswer_def exampleResolver_def
      MAX_ROSTER_PROFILE_RESOLUTIONS_def setWorker_def setAnswer_def presenceFor_def safeInteger_def)

theorem presence_proved_witness:
  "resolvesPresence ascii_env (Some exampleResolver) 0 [exampleRoster42] 99 ''Mage'' (Inr ([(7, Is_present)], None)) \<and>
   rosterProof ascii_env (Some exampleResolver) 0 99 ''Mage'' exampleRoster42"
proof -
  have "resolvesPresence ascii_env (Some exampleResolver) 0 [exampleRoster42] 99 ''Mage''
      (Inr (conclusion exampleScan [(locatorKey exampleLocator, (Is_present, None))]))"
    using resolvesPresence.pool_settled [OF refl exampleScan_def _ _ runWorkers_reaches [OF exampleRun42_eq]]
    by (simp add: exampleScan_eq exampleResolver_def poolFinished_def numeral_eq_Suc)
  moreover have "conclusion exampleScan [(locatorKey exampleLocator, (Is_present, None))] = ([(7, Is_present)], None)"
    by (simp add: conclusion_def exampleScan_eq targetPresence_def)
  ultimately have run: "resolvesPresence ascii_env (Some exampleResolver) 0 [exampleRoster42] 99 ''Mage'' (Inr ([(7, Is_present)], None))"
    by simp
  moreover have "rosterProof ascii_env (Some exampleResolver) 0 99 ''Mage'' exampleRoster42"
    using presence_proved [OF run] by (simp add: exampleRoster42_def)
  ultimately show ?thesis by blast
qed

theorem resolution_bounded_witness:
  "\<exists>s. (presenceStep exampleResolver 99)\<^sup>*\<^sup>* (initialPool ascii_env 99 0 [] (ps_locators exampleScan)) s \<and>
     pq_reads s = [exampleLocator] \<and> length (pq_reads s) \<le> MAX_ROSTER_PROFILE_RESOLUTIONS \<and>
     length (pq_workers s) = ROSTER_PROFILE_RESOLUTION_CONCURRENCY"
proof -
  note run = runWorkers_reaches [OF exampleRun42_eq]
  note bound = resolution_bounded [where E = ascii_env and subjectId = 99 and subjectClass = "''Mage''" and encounters = "[exampleRoster42]",
    folded exampleScan_def, OF run]
  show ?thesis
    by (intro exI conjI, rule run, simp) (use bound in blast)+
qed

end
