(* ===== verification/FirstKillsCorrect.thy ===== *)
theory FirstKillsCorrect
  imports FirstKills RosterPresenceCorrect
begin

section \<open>First kills are read, kept and earned\<close>

text \<open>
  The reads of a run are first those nothing stored answers, then the stored answers that are due,
  fifty in all. What was read once stays read, and stays the kill it was; a kill is the character's
  only by a roster that has it or by Raider.IO's word where there is none to check; and a run that
  reports no shortfall has settled every kill.
\<close>

subsection \<open>The plan\<close>

lemma keys_map_from [simp]: "fst ` set (map_from entries) = fst ` set entries"
  by (simp add: map_of_map_from flip: dom_map_of_conv_image_fst) (simp add: dom_map_of_conv_image_fst)

definition namedBy :: "historicMythicKill list \<Rightarrow> nat \<Rightarrow> bool" where
  "namedBy kills i \<longleftrightarrow> (\<exists>kill \<in> set kills. hk_loggedEncounterId kill = Some i)"

definition answeredBefore :: "storedAnswers \<Rightarrow> nat \<Rightarrow> bool" where
  "answeredBefore stored i \<longleftrightarrow>
     (\<exists>e \<in> set (sa_encounters stored). le_loggedEncounterId (se_encounter e) = i) \<or>
     (\<exists>r \<in> set (sa_unavailable stored). sr_loggedEncounterId r = i)"

definition dueAgain :: "js_env \<Rightarrow> int \<Rightarrow> storedAnswers \<Rightarrow> nat \<Rightarrow> bool" where
  "dueAgain E now stored i \<longleftrightarrow>
     (\<exists>e \<in> set (sa_encounters stored). le_loggedEncounterId (se_encounter e) = i \<and> encounterDue E now e) \<or>
     (\<exists>r \<in> set (sa_unavailable stored). sr_loggedEncounterId r = i \<and> refusalDue E now r)"

lemma killsById_get:
  "map_get (killsById kills) i = Some kill \<Longrightarrow> kill \<in> set kills \<and> hk_loggedEncounterId kill = Some i"
  unfolding killsById_def by (drule map_from_entry) (auto simp: set_map_filter_eq)

lemma killsById_keys: "i \<in> fst ` set (killsById kills) \<longleftrightarrow> namedBy kills i"
  by (force simp: killsById_def namedBy_def set_map_filter_eq image_iff)

lemma killsById_named: "namedBy kills i \<Longrightarrow> \<exists>kill \<in> set kills. map_get (killsById kills) i = Some kill \<and> hk_loggedEncounterId kill = Some i"
  using killsById_get by (metis killsById_keys map_of_eq_None_iff not_None_eq)

lemma held_iff: "heldAnswers (storedReads stored) (storedRefusals stored) i \<longleftrightarrow> answeredBefore stored i"
  by (auto simp: heldAnswers_def storedReads_def storedRefusals_def answeredBefore_def image_iff)

lemma dueSet_iff: "i \<in> set (dueSet E now stored) \<longleftrightarrow> dueAgain E now stored i"
  by (auto simp: dueSet_def dueAgain_def image_iff)

lemma dueAgain_answered: "dueAgain E now stored i \<Longrightarrow> answeredBefore stored i"
  by (auto simp: dueAgain_def answeredBefore_def)

lemma storedReads_get:
  "map_get (storedReads stored) i = Some kept \<Longrightarrow> le_loggedEncounterId kept = i \<and> (\<exists>e \<in> set (sa_encounters stored). se_encounter e = kept)"
  unfolding storedReads_def by (drule map_from_entry) auto

lemma storedRefusals_get:
  "map_get (storedRefusals stored) i = Some code \<Longrightarrow> \<exists>r \<in> set (sa_unavailable stored). sr_loggedEncounterId r = i \<and> sr_code r = code"
  unfolding storedRefusals_def by (drule map_from_entry) auto

lemma planReads_simps [simp]:
  "fr_killById (planReads E kills settled stored now) = killsById kills"
  "fr_storedRead (planReads E kills settled stored now) = storedReads stored"
  "fr_storedUnavailable (planReads E kills settled stored now) = storedRefusals stored"
  "fr_unread (planReads E kills settled stored now) = filter (\<lambda>i. \<not> answeredBefore stored i) (map fst (killsById kills))"
  by (simp_all add: planReads_def Let_def held_iff)

definition dueReads :: "js_env \<Rightarrow> historicMythicKill list \<Rightarrow> string list option \<Rightarrow> storedAnswers \<Rightarrow> int \<Rightarrow> nat list" where
  "dueReads E kills settled stored now =
     sort_by (compareDue (priorityOf settled (killsById kills)) (readAtById E stored))
       (filter (dueAgain E now stored) (map fst (killsById kills)))"

lemma planReads_toRead:
  "fr_toRead (planReads E kills settled stored now) =
     take MAX_RAIDER_IO_LOGGED_ENCOUNTER_READS_PER_RUN (fr_unread (planReads E kills settled stored now) @ dueReads E kills settled stored now)"
  by (simp add: planReads_def Let_def held_iff dueReads_def dueSet_iff)

lemma killsById_distinct [simp]: "distinct (map fst (killsById kills))"
  by (simp add: killsById_def)

lemma dueReads_set: "set (dueReads E kills settled stored now) = {i. namedBy kills i \<and> dueAgain E now stored i}"
  by (auto simp: dueReads_def killsById_keys)

lemma unread_set: "set (fr_unread (planReads E kills settled stored now)) = {i. namedBy kills i \<and> \<not> answeredBefore stored i}"
  by (auto simp: killsById_keys)

lemma toRead_distinct: "distinct (fr_unread (planReads E kills settled stored now) @ dueReads E kills settled stored now)"
proof -
  have "distinct (dueReads E kills settled stored now)" by (simp add: dueReads_def)
  then show ?thesis
    using unread_set [of E kills settled stored now] dueReads_set [of E kills settled stored now] dueAgain_answered
    by (simp only: distinct_append) (auto simp del: planReads_simps(4) simp: planReads_simps(4) intro: distinct_filter)
qed

lemma readAtById_parsed:
  assumes "\<forall>e \<in> set (sa_encounters stored). dateParse E (se_readAt e) \<noteq> None"
    and "\<forall>r \<in> set (sa_unavailable stored). dateParse E (sr_readAt r) \<noteq> None" and "answeredBefore stored i"
  shows "readAtById E stored i \<noteq> None"
proof -
  define entries where "entries =
    map (\<lambda>e. (le_loggedEncounterId (se_encounter e), dateParse E (se_readAt e))) (sa_encounters stored) @
    map (\<lambda>r. (sr_loggedEncounterId r, dateParse E (sr_readAt r))) (sa_unavailable stored)"
  have "i \<in> fst ` set entries" using assms(3) by (auto simp: entries_def answeredBefore_def image_Un image_image)
  then obtain t where t: "map_get (map_from entries) i = Some t"
    by (cases "map_get (map_from entries) i") (simp_all add: map_of_eq_None_iff)
  then have "(i, t) \<in> set entries" by (rule map_from_entry)
  then have "t \<noteq> None" using assms(1,2) unfolding entries_def by auto
  then show ?thesis using t unfolding readAtById_def entries_def [symmetric] by auto
qed

lemma js_comparator_compareDue:
  "js_comparator (compareDue priority (\<lambda>i. Some (readAt i)))"
proof -
  have "js_comparator (\<lambda>a b. or_else (priority a - priority b) (or_else (readAt a - readAt b) (int a - int b)))"
    by (intro js_comparator_or_else js_comparator_pullback [where f = priority, OF js_comparator_minus]
        js_comparator_pullback [where f = readAt, OF js_comparator_minus] js_comparator_pullback [where f = int, OF js_comparator_minus])
  then show ?thesis unfolding compareDue_def by simp
qed

definition readsBefore :: "(nat \<Rightarrow> int) \<Rightarrow> (nat \<Rightarrow> int option) \<Rightarrow> nat \<Rightarrow> nat \<Rightarrow> bool" where
  \<comment> \<open>current content first, then the oldest answer\<close>
  "readsBefore priority readAt a b \<longleftrightarrow>
     priority a < priority b \<or> priority a = priority b \<and> the (readAt a) \<le> the (readAt b)"

lemma dueReads_sorted:
  assumes "\<forall>e \<in> set (sa_encounters stored). dateParse E (se_readAt e) \<noteq> None"
    and "\<forall>r \<in> set (sa_unavailable stored). dateParse E (sr_readAt r) \<noteq> None"
  shows "sorted_wrt (readsBefore (priorityOf settled (killsById kills)) (readAtById E stored)) (dueReads E kills settled stored now)"
proof -
  let ?xs = "filter (dueAgain E now stored) (map fst (killsById kills))"
  let ?priority = "priorityOf settled (killsById kills)"
  define readAt where "readAt i = the (readAtById E stored i)" for i
  have parsed: "readAtById E stored i = Some (readAt i)" if "i \<in> set ?xs" for i
    using readAtById_parsed [OF assms] dueAgain_answered that by (auto simp: readAt_def)
  have "dueReads E kills settled stored now = sort_by (compareDue ?priority (\<lambda>i. Some (readAt i))) ?xs"
    unfolding dueReads_def by (rule sort_by_cong) (simp, simp only: compareDue_def parsed)
  then have "sorted_wrt (\<lambda>a b. compareDue ?priority (\<lambda>i. Some (readAt i)) a b \<le> 0) (dueReads E kills settled stored now)"
    using js_comparator.sorted_sort_by [OF js_comparator_compareDue, of ?priority readAt ?xs] by simp
  then show ?thesis
    by (rule sorted_wrt_mono_rel [rotated])
      (auto simp: compareDue_def readsBefore_def or_else_def readAt_def [symmetric] split: if_splits)
qed

text \<open>
  C40. A run reads at most fifty logged encounters, each once and each named by a kill of its list: those no
  stored answer settles, and of the stored answers only those that are due, once nothing else is
  left to read, current content before settled tiers and then the oldest answer first. It leaves
  such an encounter out only when the fifty are used.
\<close>

theorem reads_planned:
  assumes "\<forall>e \<in> set (sa_encounters stored). dateParse E (se_readAt e) \<noteq> None"
    and "\<forall>r \<in> set (sa_unavailable stored). dateParse E (sr_readAt r) \<noteq> None"
    and "toRead = fr_toRead (planReads E kills settled stored now)"
  shows "distinct toRead \<and> length toRead \<le> MAX_RAIDER_IO_LOGGED_ENCOUNTER_READS_PER_RUN \<and>
    (\<forall>i \<in> set toRead. namedBy kills i \<and> (answeredBefore stored i \<longrightarrow> dueAgain E now stored i)) \<and>
    (\<forall>i. namedBy kills i \<longrightarrow> (answeredBefore stored i \<longrightarrow> dueAgain E now stored i) \<longrightarrow> i \<notin> set toRead \<longrightarrow>
       length toRead = MAX_RAIDER_IO_LOGGED_ENCOUNTER_READS_PER_RUN \<and>
       (\<not> answeredBefore stored i \<longrightarrow> (\<forall>j \<in> set toRead. \<not> answeredBefore stored j))) \<and>
    sorted_wrt (\<lambda>a b. answeredBefore stored a \<longrightarrow> answeredBefore stored b \<and>
      readsBefore (priorityOf settled (killsById kills)) (readAtById E stored) a b) toRead"
proof -
  let ?plan = "planReads E kills settled stored now" and ?cap = MAX_RAIDER_IO_LOGGED_ENCOUNTER_READS_PER_RUN
  define unread where "unread = fr_unread ?plan"
  define due where "due = dueReads E kills settled stored now"
  have toRead: "toRead = take ?cap (unread @ due)" unfolding assms(3) unread_def due_def by (rule planReads_toRead)
  have unread: "set unread = {i. namedBy kills i \<and> \<not> answeredBefore stored i}" unfolding unread_def by (rule unread_set)
  have due: "set due = {i. namedBy kills i \<and> dueAgain E now stored i}" unfolding due_def by (rule dueReads_set)
  have all: "distinct (unread @ due)" unfolding unread_def due_def by (rule toRead_distinct)
  have "sorted_wrt (readsBefore (priorityOf settled (killsById kills)) (readAtById E stored)) due"
    unfolding due_def by (rule dueReads_sorted [OF assms(1,2)])
  then have "sorted_wrt (\<lambda>a b. answeredBefore stored a \<longrightarrow> answeredBefore stored b \<and>
      readsBefore (priorityOf settled (killsById kills)) (readAtById E stored) a b) due"
    by (rule sorted_wrt_mono_rel [rotated]) (use due dueAgain_answered in auto)
  moreover have "sorted_wrt (\<lambda>a b. answeredBefore stored a \<longrightarrow> answeredBefore stored b \<and>
      readsBefore (priorityOf settled (killsById kills)) (readAtById E stored) a b) unread"
    by (rule sorted_wrt_mono_rel [OF _ sorted_wrt_true]) (use unread in auto)
  ultimately have "sorted_wrt (\<lambda>a b. answeredBefore stored a \<longrightarrow> answeredBefore stored b \<and>
      readsBefore (priorityOf settled (killsById kills)) (readAtById E stored) a b) (unread @ due)"
    using unread by (simp add: sorted_wrt_append)
  then have sorted: "sorted_wrt (\<lambda>a b. answeredBefore stored a \<longrightarrow> answeredBefore stored b \<and>
      readsBefore (priorityOf settled (killsById kills)) (readAtById E stored) a b) toRead"
    unfolding toRead by (rule sorted_wrt_take)
  have "namedBy kills i \<and> (answeredBefore stored i \<longrightarrow> dueAgain E now stored i)" if "i \<in> set toRead" for i
    using in_set_takeD [OF that [unfolded toRead]] unread due by auto
  moreover have "length toRead = ?cap \<and> (\<not> answeredBefore stored i \<longrightarrow> (\<forall>j \<in> set toRead. \<not> answeredBefore stored j))"
    if "namedBy kills i" "answeredBefore stored i \<longrightarrow> dueAgain E now stored i" "i \<notin> set toRead" for i
  proof (intro conjI impI ballI)
    have "i \<in> set (unread @ due)" using that unread due by auto
    then have "?cap < length (unread @ due)" using that(3) unfolding toRead by (metis not_le take_all)
    then show "length toRead = ?cap" unfolding toRead by simp
    fix j
    assume "\<not> answeredBefore stored i" and j: "j \<in> set toRead"
    then have "i \<in> set unread" using that unread by simp
    then have "\<not> length unread \<le> ?cap" using that(3) unfolding toRead by auto
    then show "\<not> answeredBefore stored j" using j unread unfolding toRead by (auto dest: in_set_takeD)
  qed
  moreover have "distinct toRead \<and> length toRead \<le> ?cap" unfolding toRead by (simp add: distinct_take [OF all] del: take_append)
  ultimately show ?thesis using sorted by blast
qed

subsection \<open>What the reads keep\<close>

definition hiddenRoster :: "loggedEncounter \<Rightarrow> loggedEncounter" where
  "hiddenRoster kept = kept\<lparr>le_shareRaidUntil := None, le_rosterState := Roster_private, le_members := []\<rparr>"

definition answersRead ::
    "(string \<Rightarrow> nat \<Rightarrow> 'e encounterReply) \<Rightarrow> (nat, loggedEncounter) jsmap \<Rightarrow> string \<Rightarrow> string \<Rightarrow> nat \<Rightarrow> loggedEncounter \<Rightarrow> bool" where
  \<comment> \<open>what Raider.IO said of a kill makes the encounter: its log, or a refusal of a log read before\<close>
  "answersRead getLoggedEncounter held raidSlug bossSlug i e \<longleftrightarrow>
     (\<exists>r. getLoggedEncounter raidSlug i = Encounter_answered r \<and> la_raidSlug r = raidSlug \<and> la_bossSlug r = bossSlug \<and>
        e = (case map_get held i of Some kept \<Rightarrow> refreshed kept (encounterInput i r) | None \<Rightarrow> encounterInput i r)) \<or>
     (\<exists>kept. map_get held i = Some kept \<and>
        (e = kept \<or> e = hiddenRoster kept \<and> (\<exists>ms. getLoggedEncounter raidSlug i = Encounter_limited ''private'' ms)))"

definition rightRead :: "firstKillReads \<Rightarrow> (string \<Rightarrow> nat \<Rightarrow> 'e encounterReply) \<Rightarrow> loggedEncounter \<Rightarrow> bool" where
  "rightRead plan getLoggedEncounter e \<longleftrightarrow>
     le_loggedEncounterId e \<in> set (fr_toRead plan) \<and>
     (case slugsOfKill plan (le_loggedEncounterId e) of (raidSlug, bossSlug) \<Rightarrow>
        answersRead getLoggedEncounter (fr_storedRead plan) raidSlug bossSlug (le_loggedEncounterId e) e)"

definition settledRead :: "readState \<Rightarrow> nat \<Rightarrow> bool" where
  "settledRead s i \<longleftrightarrow> (\<exists>e \<in> set (rs_readNow s). le_loggedEncounterId e = i) \<or> map_get (rs_answered s) i \<noteq> None"

definition answersPermanent :: "readState \<Rightarrow> bool" where
  "answersPermanent s \<longleftrightarrow> (\<forall>i code. map_get (rs_answered s) i = Some code \<longrightarrow> isPermanent code)"

definition keyedPlan :: "firstKillReads \<Rightarrow> bool" where
  "keyedPlan plan \<longleftrightarrow> (\<forall>i kept. map_get (fr_storedRead plan) i = Some kept \<longrightarrow> le_loggedEncounterId kept = i)"

definition readsKept :: "firstKillReads \<Rightarrow> (string \<Rightarrow> nat \<Rightarrow> 'e encounterReply) \<Rightarrow> nat set \<Rightarrow> readState \<Rightarrow> bool" where
  \<comment> \<open>without a shortfall, every read that is over is settled for good\<close>
  "readsKept plan getLoggedEncounter unfinished s \<longleftrightarrow>
     keyedPlan plan \<and> unfinished \<subseteq> set (fr_toRead plan) \<and>
     (rs_abandoned s \<noteq> None \<longrightarrow> rs_limitation s \<noteq> None) \<and>
     (rs_limitation s = None \<longrightarrow> length (fr_unread plan) \<le> MAX_RAIDER_IO_LOGGED_ENCOUNTER_READS_PER_RUN \<and>
        answersPermanent s \<and> (\<forall>i \<in> set (fr_toRead plan) - unfinished. settledRead s i)) \<and>
     (\<forall>e \<in> set (rs_readNow s). rightRead plan getLoggedEncounter e)"

lemma readsKept_frame:
  assumes "readsKept plan getLoggedEncounter unfinished s" and "unfinished' \<subseteq> unfinished" and "unfinished \<subseteq> insert i unfinished'"
    and "rs_limitation s' = None \<longrightarrow> rs_limitation s = None \<and> answersPermanent s' \<and> settledRead s' i \<and>
      (\<forall>j. settledRead s j \<longrightarrow> settledRead s' j)"
    and "rs_abandoned s' \<noteq> None \<longrightarrow> rs_limitation s' \<noteq> None"
    and "\<forall>e \<in> set (rs_readNow s'). e \<in> set (rs_readNow s) \<or> rightRead plan getLoggedEncounter e"
  shows "readsKept plan getLoggedEncounter unfinished' s'"
  using assms unfolding readsKept_def by (elim conjE, intro conjI impI) blast+

lemma fallShort_simps [simp]:
  "rs_limitation (fallShort code ms s) \<noteq> None" "\<exists>l. rs_limitation (fallShort code ms s) = Some l" "rs_readNow (fallShort code ms s) = rs_readNow s"
  "rs_answered (fallShort code ms s) = rs_answered s"
  by (auto simp: fallShort_def split: option.split)

lemma missRead_simps [simp]:
  "rs_limitation (missRead plan i code s) = rs_limitation s" "rs_readNow (missRead plan i code s) = rs_readNow s"
  "rs_abandoned (missRead plan i code s) = rs_abandoned s"
  by (simp_all add: missRead_def)

lemma abandonReads_simps [simp]: "rs_readNow (abandonReads code s) = rs_readNow s"
  by (simp add: abandonReads_def)

lemma readsKept_refuse:
  assumes "readsKept plan getLoggedEncounter unfinished s" and "i \<in> unfinished" and "isPermanent code"
    and "slugsOfKill plan i = (raidSlug, bossSlug)"
    and "code = ''private'' \<Longrightarrow> \<exists>ms. getLoggedEncounter raidSlug i = Encounter_limited ''private'' ms"
    and "unfinished' \<subseteq> unfinished" and "unfinished \<subseteq> insert i unfinished'"
  shows "readsKept plan getLoggedEncounter unfinished' (refuseRead plan i code s)"
proof (rule readsKept_frame [OF assms(1,6,7)])
  have i: "i \<in> set (fr_toRead plan)" using assms(1,2) by (auto simp: readsKept_def)
  show "rs_limitation (refuseRead plan i code s) = None \<longrightarrow> rs_limitation s = None \<and> answersPermanent (refuseRead plan i code s) \<and>
      settledRead (refuseRead plan i code s) i \<and> (\<forall>j. settledRead s j \<longrightarrow> settledRead (refuseRead plan i code s) j)"
    using assms(1,3)
    by (auto simp: refuseRead_def readsKept_def keyedPlan_def answersPermanent_def settledRead_def update_conv' split: option.split)
  show "rs_abandoned (refuseRead plan i code s) \<noteq> None \<longrightarrow> rs_limitation (refuseRead plan i code s) \<noteq> None"
    using assms(1) by (auto simp: refuseRead_def readsKept_def split: option.split)
  have "rightRead plan getLoggedEncounter (if code = ''private'' then hiddenRoster kept else kept)"
    if "map_get (fr_storedRead plan) i = Some kept" for kept
    using that i assms(1,4,5) by (auto simp: rightRead_def answersRead_def readsKept_def keyedPlan_def hiddenRoster_def)
  then show "\<forall>e \<in> set (rs_readNow (refuseRead plan i code s)). e \<in> set (rs_readNow s) \<or> rightRead plan getLoggedEncounter e"
    by (auto simp: refuseRead_def hiddenRoster_def split: option.split)
qed

lemma readsKept_start:
  assumes "readsKept plan getLoggedEncounter unfinished s" and "startEncounterRead plan i s = (s', False)"
    and "unfinished' \<subseteq> unfinished" and "unfinished \<subseteq> insert i unfinished'"
  shows "readsKept plan getLoggedEncounter unfinished' s'"
proof (rule readsKept_frame [OF assms(1,3,4)])
  have "rs_abandoned s \<noteq> None" using assms(2) by (auto simp: startEncounterRead_def split: option.splits)
  then have "rs_limitation s \<noteq> None" using assms(1) by (simp add: readsKept_def)
  moreover have "rs_limitation s' = rs_limitation s" "rs_readNow s' = rs_readNow s"
    using assms(2) by (auto simp: startEncounterRead_def split: option.splits)
  ultimately show "rs_limitation s' = None \<longrightarrow> rs_limitation s = None \<and> answersPermanent s' \<and> settledRead s' i \<and>
      (\<forall>j. settledRead s j \<longrightarrow> settledRead s' j)"
    "rs_abandoned s' \<noteq> None \<longrightarrow> rs_limitation s' \<noteq> None"
    "\<forall>e \<in> set (rs_readNow s'). e \<in> set (rs_readNow s) \<or> rightRead plan getLoggedEncounter e" by auto
qed

lemma readsKept_short:
  assumes "readsKept plan getLoggedEncounter unfinished s" and "rs_limitation s' \<noteq> None" and "rs_readNow s' = rs_readNow s"
    and "unfinished' \<subseteq> unfinished" and "unfinished \<subseteq> insert i unfinished'"
  shows "readsKept plan getLoggedEncounter unfinished' s'"
  by (rule readsKept_frame [OF assms(1,4,5)]) (use assms(2,3) in auto)

lemma readsKept_read:
  assumes "readsKept plan getLoggedEncounter unfinished s" and "i \<in> unfinished" and "slugsOfKill plan i = (raidSlug, bossSlug)"
    and "getLoggedEncounter raidSlug i = Encounter_answered r" "la_raidSlug r = raidSlug" "la_bossSlug r = bossSlug"
    and "unfinished' \<subseteq> unfinished" and "unfinished \<subseteq> insert i unfinished'"
  shows "readsKept plan getLoggedEncounter unfinished' (s\<lparr>rs_readNow := rs_readNow s @
    [case map_get (fr_storedRead plan) i of Some kept \<Rightarrow> refreshed kept (encounterInput i r) | None \<Rightarrow> encounterInput i r]\<rparr>)"
proof (rule readsKept_frame [OF assms(1,7,8)])
  let ?e = "case map_get (fr_storedRead plan) i of Some kept \<Rightarrow> refreshed kept (encounterInput i r) | None \<Rightarrow> encounterInput i r"
  have id: "le_loggedEncounterId ?e = i"
    using assms(1) by (auto simp: readsKept_def keyedPlan_def refreshed_def encounterInput_def split: option.split)
  show "rs_limitation (s\<lparr>rs_readNow := rs_readNow s @ [?e]\<rparr>) = None \<longrightarrow> rs_limitation s = None \<and>
      answersPermanent (s\<lparr>rs_readNow := rs_readNow s @ [?e]\<rparr>) \<and> settledRead (s\<lparr>rs_readNow := rs_readNow s @ [?e]\<rparr>) i \<and>
      (\<forall>j. settledRead s j \<longrightarrow> settledRead (s\<lparr>rs_readNow := rs_readNow s @ [?e]\<rparr>) j)"
    using assms(1) id by (auto simp: readsKept_def answersPermanent_def settledRead_def)
  show "rs_abandoned (s\<lparr>rs_readNow := rs_readNow s @ [?e]\<rparr>) \<noteq> None \<longrightarrow> rs_limitation (s\<lparr>rs_readNow := rs_readNow s @ [?e]\<rparr>) \<noteq> None"
    using assms(1) by (simp add: readsKept_def)
  have "i \<in> set (fr_toRead plan)" using assms(1,2) by (auto simp: readsKept_def)
  then have "rightRead plan getLoggedEncounter ?e"
    unfolding rightRead_def id using assms(3-6) by (simp add: answersRead_def)
  then show "\<forall>e \<in> set (rs_readNow (s\<lparr>rs_readNow := rs_readNow s @ [?e]\<rparr>)). e \<in> set (rs_readNow s) \<or> rightRead plan getLoggedEncounter e"
    by simp
qed

lemma readsKept_finish:
  assumes "readsKept plan getLoggedEncounter unfinished s" and "i \<in> unfinished" and "finishEncounterRead plan getLoggedEncounter i aborted s = Inr s'"
    and "unfinished' \<subseteq> unfinished" and "unfinished \<subseteq> insert i unfinished'"
  shows "readsKept plan getLoggedEncounter unfinished' s'"
proof -
  obtain raidSlug bossSlug where slugs: "slugsOfKill plan i = (raidSlug, bossSlug)" by fastforce
  show ?thesis
  proof (cases "getLoggedEncounter raidSlug i")
    case (Encounter_answered r)
    show ?thesis
    proof (cases "la_raidSlug r \<noteq> raidSlug \<or> la_bossSlug r \<noteq> bossSlug")
      case True
      then have "s' = refuseRead plan i ''schema_drift'' s" using assms(3) slugs Encounter_answered by (simp add: finishEncounterRead_def)
      then show ?thesis using readsKept_refuse [OF assms(1,2) _ slugs _ assms(4,5), of "''schema_drift''"] by (simp add: isPermanent_def)
    next
      case False
      then show ?thesis
        using readsKept_read [OF assms(1,2) slugs Encounter_answered _ _ assms(4,5)] assms(3) slugs Encounter_answered
        by (simp add: finishEncounterRead_def Let_def)
    qed
  next
    case (Encounter_limited code ms)
    show ?thesis
    proof (cases "isPermanent code")
      case True
      then have "s' = refuseRead plan i code s" using assms(3) slugs Encounter_limited by (simp add: finishEncounterRead_def)
      then show ?thesis using readsKept_refuse [OF assms(1,2) True slugs _ assms(4,5)] Encounter_limited by simp
    next
      case False
      then show ?thesis
        using assms(3) slugs Encounter_limited by (intro readsKept_short [OF assms(1) _ _ assms(4,5)]) (auto simp: finishEncounterRead_def)
    qed
  next
    case (Encounter_threw e)
    then show ?thesis
      using assms(3) slugs by (intro readsKept_short [OF assms(1) _ _ assms(4,5)]) (auto simp: finishEncounterRead_def split: if_splits)
  qed
qed

interpretation reads: shared_works "readWork plan getLoggedEncounter" "\<lambda>todo working. readsKept plan getLoggedEncounter (todo \<union> working)"
  for plan getLoggedEncounter
proof (unfold_locales, goal_cases)
  case (1 todo working s i s')
  then have "s' = s" "todo - {i} \<union> insert i working = todo \<union> working"
    by (auto simp: readWork_def startEncounterRead_def split: option.splits)
  then show ?case using 1 by simp
next
  case (2 todo working s i s')
  then show ?case by (intro readsKept_start [of plan getLoggedEncounter "todo \<union> working" s i s']) (auto simp: readWork_def)
next
  case (3 todo working s i aborted s')
  then show ?case by (intro readsKept_finish [of plan getLoggedEncounter "todo \<union> working" s i aborted s']) (auto simp: readWork_def)
qed

lemma readsKept_initial:
  assumes "keyedPlan plan"
  shows "readsKept plan getLoggedEncounter (set (fr_toRead plan)) (initialReads plan)"
  using assms by (auto simp: readsKept_def initialReads_def answersPermanent_def map_of_map_from)

lemma readsSettle_kept:
  assumes "readsSettle E world kills settledRaidSlugs now plan aborted (Inr s)" and "storedFor world kills = Inr stored"
  shows "plan = planReads E kills settledRaidSlugs stored now \<and> readsKept plan (fw_getLoggedEncounter world) {} s"
  using assms(1)
proof cases
  case (reads_settle stored' run)
  then have plan: "plan = planReads E kills settledRaidSlugs stored now" using assms(2) by simp
  have "keyedPlan plan" unfolding plan keyedPlan_def by (simp add: storedReads_get)
  then have "readsKept plan (fw_getLoggedEncounter world) (set (fr_toRead plan)) (initialReads plan)" by (rule readsKept_initial)
  moreover have "distinct (fr_toRead plan)" unfolding plan planReads_toRead by (rule distinct_take [OF toRead_distinct])
  ultimately show ?thesis
    using reads.fulfilled [OF reads_settle(4) _ _ reads_settle(5)] plan by simp
qed

subsection \<open>What is saved\<close>

lemma foldl_keyed: "foldl (\<lambda>m e. map_set (f e) e m) m es = foldl (\<lambda>m (k, v). map_set k v m) m (map (\<lambda>e. (f e, e)) es)"
  by (induction es arbitrary: m) simp_all

lemma foldl_set_get:
  "map_get (foldl (\<lambda>m e. map_set (f e) e m) m es) i = Some e \<Longrightarrow>
   e \<in> set es \<and> f e = i \<or> map_get m i = Some e \<and> (\<forall>e \<in> set es. f e \<noteq> i)"
  by (induction es rule: rev_induct) (auto simp: update_conv' split: if_splits)

lemma foldl_set_has:
  "map_get (foldl (\<lambda>m e. map_set (f e) e m) m es) i = None \<longleftrightarrow> map_get m i = None \<and> (\<forall>e \<in> set es. f e \<noteq> i)"
  unfolding foldl_keyed map_of_foldl_set by (auto simp: map_of_eq_None_iff image_iff)

lemma foldl_set_distinct: "distinct (map fst m) \<Longrightarrow> distinct (map fst (foldl (\<lambda>m e. map_set (f e) e m) m es))"
  by (induction es arbitrary: m) (simp_all add: distinct_update)

abbreviation savedReads :: "firstKillReads \<Rightarrow> readState \<Rightarrow> (nat, loggedEncounter) jsmap" where
  "savedReads plan s \<equiv> foldl (\<lambda>m e. map_set (le_loggedEncounterId e) e m) (fr_storedRead plan) (rs_readNow s)"

lemma saveReads_known:
  "saveReads world plan s = (known, s') \<Longrightarrow>
   known = fr_storedRead plan \<or> known = savedReads plan s \<and> fw_saveAnswers world (rs_readNow s) (rs_unavailableNow s) = Inr ()"
  by (auto simp: saveReads_def split: if_splits sum.splits)

lemma saveReads_complete:
  "saveReads world plan s = (known, s') \<Longrightarrow> rs_limitation s' = None \<Longrightarrow> s' = s \<and> known = savedReads plan s"
  by (auto simp: saveReads_def split: if_splits sum.splits)

text \<open>The encounters known after the save.\<close>

definition knownFrom :: "'e firstKillWorld \<Rightarrow> storedAnswers \<Rightarrow> historicMythicKill list \<Rightarrow> (nat, loggedEncounter) jsmap \<Rightarrow> bool" where
  \<comment> \<open>every one was stored, or was read and saved; and none that was stored is lost\<close>
  "knownFrom world stored kills known \<longleftrightarrow>
     (\<forall>i. map_get (storedReads stored) i \<noteq> None \<longrightarrow> map_get known i \<noteq> None) \<and>
     (\<forall>i e. map_get known i = Some e \<longrightarrow> le_loggedEncounterId e = i \<and>
        (map_get (storedReads stored) i = Some e \<or>
         (\<exists>kill \<in> set kills. hk_loggedEncounterId kill = Some i \<and>
            answersRead (fw_getLoggedEncounter world) (storedReads stored) (hk_raidSlug kill) (hk_bossSlug kill) i e) \<and>
         (\<exists>reads refusals. e \<in> set reads \<and> fw_saveAnswers world reads refusals = Inr ())))"

lemma rightRead_named:
  assumes "rightRead (planReads E kills settled stored now) getLoggedEncounter e" and "le_loggedEncounterId e = i"
  shows "\<exists>kill \<in> set kills. hk_loggedEncounterId kill = Some i \<and>
    answersRead getLoggedEncounter (storedReads stored) (hk_raidSlug kill) (hk_bossSlug kill) i e"
proof -
  have "i \<in> set (fr_toRead (planReads E kills settled stored now))" using assms by (simp add: rightRead_def)
  then have "namedBy kills i"
    unfolding planReads_toRead using unread_set dueReads_set by (auto dest!: in_set_takeD)
  then obtain kill where "kill \<in> set kills" "map_get (killsById kills) i = Some kill" "hk_loggedEncounterId kill = Some i"
    using killsById_named by blast
  then show ?thesis using assms by (auto simp: rightRead_def slugsOfKill_def)
qed

lemma knownFrom_saved:
  assumes "readsSettle E world kills settled now plan aborted (Inr s)" and "storedFor world kills = Inr stored"
    and "saveReads world plan s = (known, s')"
  shows "knownFrom world stored kills known \<and> distinct (map fst known)"
proof -
  have plan: "plan = planReads E kills settled stored now" and kept: "readsKept plan (fw_getLoggedEncounter world) {} s"
    using readsSettle_kept [OF assms(1,2)] by auto
  have known: "known = storedReads stored \<or>
      known = savedReads plan s \<and> fw_saveAnswers world (rs_readNow s) (rs_unavailableNow s) = Inr ()"
    using saveReads_known [OF assms(3)] plan by auto
  have "distinct (map fst (storedReads stored))" by (simp add: storedReads_def)
  then have "distinct (map fst known)"
    using known foldl_set_distinct plan by fastforce
  moreover have "map_get known i \<noteq> None" if "map_get (storedReads stored) i \<noteq> None" for i
    using known that plan foldl_set_has [of le_loggedEncounterId "storedReads stored" "rs_readNow s" i] by auto
  moreover have "le_loggedEncounterId e = i \<and> (map_get (storedReads stored) i = Some e \<or>
         (\<exists>kill \<in> set kills. hk_loggedEncounterId kill = Some i \<and>
            answersRead (fw_getLoggedEncounter world) (storedReads stored) (hk_raidSlug kill) (hk_bossSlug kill) i e) \<and>
         (\<exists>reads refusals. e \<in> set reads \<and> fw_saveAnswers world reads refusals = Inr ()))"
    if "map_get known i = Some e" for i e
  proof (cases "map_get (storedReads stored) i = Some e")
    case True
    then show ?thesis by (simp add: storedReads_get)
  next
    case False
    then have e: "e \<in> set (rs_readNow s)" "le_loggedEncounterId e = i" "fw_saveAnswers world (rs_readNow s) (rs_unavailableNow s) = Inr ()"
      using known that foldl_set_get plan by fastforce+
    then have "rightRead plan (fw_getLoggedEncounter world) e" using kept by (simp add: readsKept_def)
    then show ?thesis using rightRead_named e unfolding plan by blast
  qed
  ultimately show ?thesis unfolding knownFrom_def by blast
qed

subsection \<open>The runs that return\<close>

definition checkedBy ::
    "js_env \<Rightarrow> 'e firstKillWorld \<Rightarrow> int \<Rightarrow> loggedEncounter list \<Rightarrow> characterAnswer option \<Rightarrow>
     ((nat, rosterPresence) jsmap \<times> string option) option \<Rightarrow> bool" where
  \<comment> \<open>what a run learns of the character, with the encounters to check\<close>
  "checkedBy E world later asked character presence \<longleftrightarrow>
     (case character of
        None \<Rightarrow> asked = [] \<and> presence = None
      | Some Character_none \<Rightarrow> presence = None \<and> (\<exists>className. fw_getCharacter world = Some (Inr (None, className)))
      | Some Character_failed \<Rightarrow> presence = None
      | Some (Character_id i className) \<Rightarrow> fw_getCharacter world = Some (Inr (Some i, className)) \<and>
          (\<exists>found. presence = Some found \<and> resolvesPresence E (fw_resolution world) later asked i className (Inr found)))"

lemma collects_cases:
  assumes "collectsFirstKills E world kills published settled now later (Inr c)"
  obtains plan aborted s known s' character presence where
    "readsSettle E world kills settled now plan aborted (Inr s)" "saveReads world plan s = (known, s')"
    "checkedBy E world later (toCheck (establishedIds published) known) character presence"
    "c = settleKills plan kills published s' known character presence"
  using assms
proof cases
  case (nothing_to_check plan aborted s known s')
  then show thesis using that [of plan aborted s known s' None None] by (simp add: checkedBy_def)
next
  case (character_unknown plan aborted s known s' aborted' character)
  then show thesis using that [of plan aborted s known s' "Some character" None]
    by (auto simp: checkedBy_def raiderIoCharacterId_def split: option.splits sum.splits if_splits)
next
  case (presence_checked plan aborted s known s' aborted' i className presence limitation)
  then show thesis using that [of plan aborted s known s' "Some (Character_id i className)" "Some (presence, limitation)"]
    by (auto simp: checkedBy_def raiderIoCharacterId_def split: option.splits sum.splits if_splits)
qed

lemma collects_stored:
  "collectsFirstKills E world kills published settled now later (Inr c) \<Longrightarrow> \<exists>stored. storedFor world kills = Inr stored"
  by (erule collects_cases) (auto elim: readsSettle.cases)

definition sameKill :: "loggedEncounter \<Rightarrow> loggedEncounter \<Rightarrow> bool" where
  \<comment> \<open>all but what the guild can change since\<close>
  "sameKill kept e \<longleftrightarrow>
     e = kept\<lparr>le_shareRaidUntil := le_shareRaidUntil e, le_rosterState := le_rosterState e, le_members := le_members e\<rparr>"

lemma answersRead_sameKill: "answersRead getLoggedEncounter held raidSlug bossSlug i e \<Longrightarrow> map_get held i = Some kept \<Longrightarrow> sameKill kept e"
  by (auto simp: answersRead_def sameKill_def refreshed_def hiddenRoster_def)

text \<open>
  C39. A read is never unread: every encounter stored as read is among those a run returns, as the same
  kill, with at most its roster and how long it is shared renewed. Any other change, and any new
  encounter, is what Raider.IO answered this run for a kill of the list that names it, saved; a
  roster is hidden only on its word.
\<close>

theorem stored_reads_stand:
  assumes "collectsFirstKills E world kills published settled now later (Inr c)" and "storedFor world kills = Inr stored"
  shows "(\<forall>i kept. map_get (storedReads stored) i = Some kept \<longrightarrow> (\<exists>e. map_get (fc_encounters c) i = Some e \<and> sameKill kept e)) \<and>
    (\<forall>i e. map_get (fc_encounters c) i = Some e \<longrightarrow> le_loggedEncounterId e = i \<and>
       (map_get (storedReads stored) i = Some e \<or>
        (\<exists>kill \<in> set kills. hk_loggedEncounterId kill = Some i \<and>
           answersRead (fw_getLoggedEncounter world) (storedReads stored) (hk_raidSlug kill) (hk_bossSlug kill) i e) \<and>
        (\<exists>reads refusals. e \<in> set reads \<and> fw_saveAnswers world reads refusals = Inr ())))"
proof -
  obtain plan aborted s known s' character presence where
    parts: "readsSettle E world kills settled now plan aborted (Inr s)" "saveReads world plan s = (known, s')"
    and c: "c = settleKills plan kills published s' known character presence"
    using collects_cases [OF assms(1)] by metis
  have "fc_encounters c = known" by (simp add: c settleKills_def Let_def)
  moreover have known: "knownFrom world stored kills known" using knownFrom_saved [OF parts(1) assms(2) parts(2)] by blast
  moreover have "\<exists>e. map_get known i = Some e \<and> sameKill kept e" if kept: "map_get (storedReads stored) i = Some kept" for i kept
  proof -
    obtain e where e: "map_get known i = Some e" using known kept unfolding knownFrom_def by force
    then have "e = kept \<or> (\<exists>raidSlug bossSlug. answersRead (fw_getLoggedEncounter world) (storedReads stored) raidSlug bossSlug i e)"
      using known kept unfolding knownFrom_def by fastforce
    then have "sameKill kept e" using answersRead_sameKill kept by (auto simp: sameKill_def)
    then show ?thesis using e by blast
  qed
  ultimately show ?thesis unfolding knownFrom_def by blast
qed

subsection \<open>Whose kills a run returns\<close>

lemma settleKills_simps:
  "fc_encounters (settleKills plan kills published s known character presence) = known"
  "fc_limitation (settleKills plan kills published s known character presence) = None \<longleftrightarrow>
     rs_limitation s = None \<and> character \<noteq> Some Character_failed \<and> Option.bind presence snd = None"
  "\<exists>s'. fc_kills (settleKills plan kills published s known character presence) =
     List.map_filter (killRow plan s' known (establishedIds published) character (map_option fst presence)) kills \<and>
     rs_answered s' = rs_answered s"
  by (auto simp: settleKills_def Let_def split: option.splits intro: exI [of _ s])

definition establishedIn :: "raiderIoFirstKill list \<Rightarrow> nat \<Rightarrow> bool" where
  "establishedIn published i \<longleftrightarrow>
     (\<exists>p \<in> set published. rf_encounterState p = Encounter_read \<and> rf_presenceChecked p = Some True \<and> rf_loggedEncounterId p = Some i)"

lemma establishedIds_iff: "i \<in> set (establishedIds published) \<longleftrightarrow> establishedIn published i"
  by (auto simp: establishedIds_def establishedIn_def set_map_filter_eq split: if_splits)

lemma toCheck_iff:
  "distinct (map fst known) \<Longrightarrow> e \<in> set (toCheck established known) \<longleftrightarrow>
     (\<exists>i. map_get known i = Some e) \<and> le_rosterState e = Roster_available \<and> le_loggedEncounterId e \<notin> set established"
  by (force simp: toCheck_def)

lemma toCheck_distinct:
  assumes "knownFrom world stored kills known" and "distinct (map fst known)"
  shows "distinct (map le_loggedEncounterId (toCheck established known))"
proof -
  have "map_get known i = Some e \<Longrightarrow> le_loggedEncounterId e = i" for i e using assms(1) by (simp add: knownFrom_def)
  then have "map (le_loggedEncounterId \<circ> snd) known = map fst known" using assms(2) by (auto intro!: map_cong)
  then have "distinct (map le_loggedEncounterId (map snd known))" using assms(2) by (metis map_map)
  then show ?thesis unfolding toCheck_def by (rule distinct_map_filter)
qed

text \<open>Presence as \<open>checkedBy\<close> settles it.\<close>

lemma presence_settled:
  assumes "knownFrom world stored kills known" and "distinct (map fst known)" and "map_get known i = Some e"
    and "le_rosterState e = Roster_available" and "\<not> establishedIn published i"
    and "checkedBy E world later (toCheck (establishedIds published) known) character presence"
  shows "case character of
      Some (Character_id subjectId className) \<Rightarrow> fw_getCharacter world = Some (Inr (Some subjectId, className)) \<and>
        (case Option.bind (map_option fst presence) (\<lambda>p. map_get p i) of
           Some Is_present \<Rightarrow> rosterProof E (fw_resolution world) later subjectId className e
         | Some Is_absent \<Rightarrow> rosterDisproof E (fw_resolution world) later subjectId className e
         | Some Is_unknown \<Rightarrow> Option.bind presence snd \<noteq> None
         | None \<Rightarrow> False)
    | Some Character_none \<Rightarrow> \<exists>className. fw_getCharacter world = Some (Inr (None, className))
    | Some Character_failed \<Rightarrow> True
    | None \<Rightarrow> False"
proof -
  have id: "le_loggedEncounterId e = i" using assms(1,3) by (simp add: knownFrom_def)
  have asked: "e \<in> set (toCheck (establishedIds published) known)"
    unfolding toCheck_iff [OF assms(2)] using assms(3-5) id by (auto simp: establishedIds_iff)
  show ?thesis
  proof (cases character)
    case None
    then show ?thesis using assms(6) asked by (auto simp: checkedBy_def)
  next
    case (Some answer)
    show ?thesis
    proof (cases answer)
      case (Character_id subjectId className)
      then obtain p l where found: "presence = Some (p, l)" "fw_getCharacter world = Some (Inr (Some subjectId, className))"
        "resolvesPresence E (fw_resolution world) later (toCheck (establishedIds published) known) subjectId className (Inr (p, l))"
        using assms(6) Some by (auto simp: checkedBy_def)
      then show ?thesis
        using presence_classified [OF found(3) toCheck_distinct [OF assms(1,2)] asked] id Some Character_id
        by (auto split: option.splits rosterPresence.splits)
    qed (use assms(6) Some in \<open>auto simp: checkedBy_def\<close>)
  qed
qed

text \<open>
  C37. Every first kill a run returns is a kill of its list. One shown as read carries the defeat of the
  encounter it names, and its presence is marked checked only where a roster was proved to hold the
  character, now or on an earlier run; one shown unread carries Raider.IO's word and says why. What is read but not checked has a
  hidden roster, or a character without an id.
\<close>

theorem first_kills_earned:
  assumes "collectsFirstKills E world kills published settled now later (Inr c)" and "row \<in> set (fc_kills c)"
  shows "\<exists>kill \<in> set kills. rf_raidSlug row = hk_raidSlug kill \<and> rf_bossSlug row = hk_bossSlug kill \<and>
    rf_loggedEncounterId row = hk_loggedEncounterId kill \<and>
    (case rf_encounterState row of
       Encounter_unavailable \<Rightarrow> rf_killedAt row = hk_firstDefeated kill \<and> rf_presenceChecked row = Some False \<and>
         (\<forall>i. hk_loggedEncounterId kill = Some i \<longrightarrow> map_get (fc_encounters c) i = None \<and> rf_encounterLimitationCode row \<noteq> None)
     | Encounter_read \<Rightarrow>
         (\<exists>i e. hk_loggedEncounterId kill = Some i \<and> map_get (fc_encounters c) i = Some e \<and> rf_killedAt row = le_defeatedAt e \<and>
            (if rf_presenceChecked row = Some True then establishedIn published i \<or>
               (\<exists>subjectId className. fw_getCharacter world = Some (Inr (Some subjectId, className)) \<and>
                  rosterProof E (fw_resolution world) later subjectId className e)
             else le_rosterState e = Roster_private \<or> (\<exists>className. fw_getCharacter world = Some (Inr (None, className))))))"
proof -
  obtain plan aborted s known s' character presence where
    parts: "readsSettle E world kills settled now plan aborted (Inr s)" "saveReads world plan s = (known, s')"
    and checked: "checkedBy E world later (toCheck (establishedIds published) known) character presence"
    and c: "c = settleKills plan kills published s' known character presence"
    by (rule collects_cases [OF assms(1)])
  obtain stored where "storedFor world kills = Inr stored" using collects_stored [OF assms(1)] by blast
  then have known: "knownFrom world stored kills known" "distinct (map fst known)" using knownFrom_saved parts by blast+
  obtain s2 kill where kill: "kill \<in> set kills"
    and row: "killRow plan s2 known (establishedIds published) character (map_option fst presence) kill = Some row"
    using settleKills_simps(3) [of plan kills published s' known character presence] assms(2) unfolding c
    by (auto simp: set_map_filter_eq)
  have enc: "fc_encounters c = known" by (simp add: c settleKills_simps)
  show ?thesis
  proof (cases "Option.bind (hk_loggedEncounterId kill) (map_get known)")
    case None
    then show ?thesis using row kill enc by (intro bexI [of _ kill]) (auto simp: killRow_def baseRow_def split: option.splits)
  next
    case (Some e)
    then obtain i where i: "hk_loggedEncounterId kill = Some i" "map_get known i = Some e"
      by (cases "hk_loggedEncounterId kill") auto
    then obtain b where b: "presenceOfKill (establishedIds published) character (map_option fst presence) e i = Some b"
      "row = (baseRow kill)\<lparr>rf_killedAt := le_defeatedAt e, rf_loggedEncounterId := Some i, rf_encounterState := Encounter_read,
        rf_presenceChecked := Some b\<rparr>"
      using row by (auto simp: killRow_def)
    have "if b then establishedIn published i \<or>
        (\<exists>subjectId className. fw_getCharacter world = Some (Inr (Some subjectId, className)) \<and>
           rosterProof E (fw_resolution world) later subjectId className e)
      else le_rosterState e = Roster_private \<or> (\<exists>className. fw_getCharacter world = Some (Inr (None, className)))"
    proof (cases "le_rosterState e = Roster_available \<and> \<not> establishedIn published i")
      case True
      then show ?thesis
        using presence_settled [OF known i(2) _ _ checked] b(1)
        by (auto simp: presenceOfKill_def establishedIds_iff split: option.splits characterAnswer.splits if_splits)
    next
      case False
      then show ?thesis using b(1) by (cases "le_rosterState e") (auto simp: presenceOfKill_def establishedIds_iff split: if_splits)
    qed
    then show ?thesis using b(2) i kill enc by (intro bexI [of _ kill]) (auto simp: baseRow_def)
  qed
qed

subsection \<open>A run without a shortfall\<close>

lemma unread_settled:
  assumes "readsSettle E world kills settled now plan aborted (Inr s)" and "storedFor world kills = Inr stored"
    and "saveReads world plan s = (known, s')" and "rs_limitation s' = None"
    and "namedBy kills i" and "map_get known i = None"
  shows "isPermanent (unreadCode plan s' i) \<or> (\<exists>r \<in> set (sa_unavailable stored). sr_loggedEncounterId r = i \<and> sr_code r = unreadCode plan s' i)"
proof -
  have plan: "plan = planReads E kills settled stored now" and kept: "readsKept plan (fw_getLoggedEncounter world) {} s"
    using readsSettle_kept [OF assms(1,2)] by auto
  have s': "s' = s" and known: "known = savedReads plan s" using saveReads_complete [OF assms(3,4)] by auto
  have whole: "length (fr_unread plan) \<le> MAX_RAIDER_IO_LOGGED_ENCOUNTER_READS_PER_RUN" "answersPermanent s"
    "\<And>i. i \<in> set (fr_toRead plan) \<Longrightarrow> settledRead s i"
    using kept assms(4) s' by (auto simp: readsKept_def)
  have gone: "map_get (storedReads stored) i = None" "\<forall>e \<in> set (rs_readNow s). le_loggedEncounterId e \<noteq> i"
    using assms(6) unfolding known foldl_set_has plan by simp_all
  show ?thesis
  proof (cases "map_get (rs_answered s) i")
    case (Some code)
    then show ?thesis using whole(2) unfolding s' by (auto simp: unreadCode_def answersPermanent_def)
  next
    case None
    then have "\<not> settledRead s i" using gone(2) by (simp add: settledRead_def)
    then have "i \<notin> set (fr_toRead plan)" using whole(3) by blast
    then have "i \<notin> set (fr_unread plan)" using whole(1) unfolding plan planReads_toRead by auto
    then have "answeredBefore stored i" using assms(5) unread_set unfolding plan by auto
    then have "heldAnswers (storedReads stored) (storedRefusals stored) i" by (simp add: held_iff)
    then obtain code where code: "map_get (storedRefusals stored) i = Some code"
      using gone(1) by (cases "map_get (storedRefusals stored) i") (auto simp: heldAnswers_def map_of_eq_None_iff image_iff)
    then show ?thesis using storedRefusals_get [OF code] None plan unfolding s' by (auto simp: unreadCode_def)
  qed
qed

lemma logged_kill_settled:
  assumes "collectsFirstKills E world kills published settled now later (Inr c)" and "storedFor world kills = Inr stored"
    and "fc_limitation c = None" and "kill \<in> set kills" and "hk_loggedEncounterId kill = Some i"
  shows "(\<exists>row \<in> set (fc_kills c). rf_loggedEncounterId row = Some i \<and> rf_raidSlug row = hk_raidSlug kill \<and> rf_bossSlug row = hk_bossSlug kill \<and>
      rf_guild row = map_option guildRow (hk_guild kill) \<and>
      (rf_encounterState row = Encounter_read \<or>
       (\<exists>code. rf_encounterLimitationCode row = Some code \<and>
          (isPermanent code \<or> (\<exists>r \<in> set (sa_unavailable stored). sr_loggedEncounterId r = i \<and> sr_code r = code))))) \<or>
    (\<exists>e subjectId className. map_get (fc_encounters c) i = Some e \<and> fw_getCharacter world = Some (Inr (Some subjectId, className)) \<and>
       rosterDisproof E (fw_resolution world) later subjectId className e)"
proof -
  obtain plan aborted s known s' character presence where
    parts: "readsSettle E world kills settled now plan aborted (Inr s)" "saveReads world plan s = (known, s')"
    and checked: "checkedBy E world later (toCheck (establishedIds published) known) character presence"
    and c: "c = settleKills plan kills published s' known character presence"
    by (rule collects_cases [OF assms(1)])
  have known: "knownFrom world stored kills known" "distinct (map fst known)" using knownFrom_saved [OF parts(1) assms(2) parts(2)] by blast+
  have whole: "rs_limitation s' = None" "character \<noteq> Some Character_failed" "Option.bind presence snd = None"
    using assms(3) unfolding c settleKills_simps by auto
  obtain s2 where rows: "fc_kills c = List.map_filter (killRow plan s2 known (establishedIds published) character (map_option fst presence)) kills"
    and s2: "rs_answered s2 = rs_answered s'"
    using settleKills_simps(3) unfolding c by blast
  have returned: "row \<in> set (fc_kills c)"
    if "killRow plan s2 known (establishedIds published) character (map_option fst presence) kill = Some row" for row
    using that assms(4) unfolding rows set_map_filter_eq by blast
  show ?thesis
  proof (cases "map_get known i")
    case None
    have "namedBy kills i" using assms(4,5) by (auto simp: namedBy_def)
    then have "isPermanent (unreadCode plan s2 i) \<or> (\<exists>r \<in> set (sa_unavailable stored). sr_loggedEncounterId r = i \<and> sr_code r = unreadCode plan s2 i)"
      using unread_settled [OF parts(1) assms(2) parts(2) whole(1) _ None] by (simp add: unreadCode_def s2)
    moreover have "(baseRow kill)\<lparr>rf_loggedEncounterId := Some i, rf_encounterLimitationCode := Some (unreadCode plan s2 i)\<rparr> \<in> set (fc_kills c)"
      using None assms(5) by (intro returned) (simp add: killRow_def)
    ultimately show ?thesis by (intro disjI1 bexI) (auto simp: baseRow_def)
  next
    case (Some e)
    show ?thesis
    proof (cases "presenceOfKill (establishedIds published) character (map_option fst presence) e i")
      case (Some b)
      then have "(baseRow kill)\<lparr>rf_killedAt := le_defeatedAt e, rf_loggedEncounterId := Some i, rf_encounterState := Encounter_read,
          rf_presenceChecked := Some b\<rparr> \<in> set (fc_kills c)"
        using \<open>map_get known i = Some e\<close> assms(5) by (intro returned) (simp add: killRow_def)
      then show ?thesis by (intro disjI1 bexI) (auto simp: baseRow_def)
    next
      case None
      then have "le_rosterState e = Roster_available" "\<not> establishedIn published i"
        by (auto simp: presenceOfKill_def establishedIds_iff split: if_splits)
      then show ?thesis
        using presence_settled [OF known Some _ _ checked] None whole
        by (auto simp: presenceOfKill_def establishedIds_iff c settleKills_simps(1) Some
            split: option.splits characterAnswer.splits if_splits rosterPresence.splits)
    qed
  qed
qed

lemma unlogged_kill_returned:
  assumes "collectsFirstKills E world kills published settled now later (Inr c)" and "kill \<in> set kills"
    and "hk_loggedEncounterId kill = None"
  shows "baseRow kill \<in> set (fc_kills c)"
proof -
  obtain plan aborted s known s' character presence where
    c: "c = settleKills plan kills published s' known character presence"
    by (rule collects_cases [OF assms(1)])
  obtain s2 where rows: "fc_kills c = List.map_filter (killRow plan s2 known (establishedIds published) character (map_option fst presence)) kills"
    using settleKills_simps(3) unfolding c by blast
  have "killRow plan s2 known (establishedIds published) character (map_option fst presence) kill = Some (baseRow kill)"
    using assms(3) by (simp add: killRow_def)
  then show ?thesis using assms(2) unfolding rows set_map_filter_eq by blast
qed

text \<open>
  C38. A run that reports no shortfall has settled every kill of its list. A kill without a logged
  encounter is returned with Raider.IO's own date and guild, unread and unchecked; one with a logged
  encounter is returned with its guild, read or with an answer that does not change, or the roster of the
  encounter was proved not to hold the character.
\<close>

theorem collection_complete:
  assumes "collectsFirstKills E world kills published settled now later (Inr c)" and "storedFor world kills = Inr stored"
    and "fc_limitation c = None" and "kill \<in> set kills"
  shows "case hk_loggedEncounterId kill of
      None \<Rightarrow> (\<exists>row \<in> set (fc_kills c).
        rf_loggedEncounterId row = None \<and> rf_raidSlug row = hk_raidSlug kill \<and> rf_bossSlug row = hk_bossSlug kill \<and>
        rf_killedAt row = hk_firstDefeated kill \<and> rf_guild row = map_option guildRow (hk_guild kill) \<and>
        rf_encounterState row = Encounter_unavailable \<and> rf_encounterLimitationCode row = None \<and> rf_presenceChecked row = Some False)
    | Some i \<Rightarrow>
        (\<exists>row \<in> set (fc_kills c). rf_loggedEncounterId row = Some i \<and> rf_raidSlug row = hk_raidSlug kill \<and> rf_bossSlug row = hk_bossSlug kill \<and>
          rf_guild row = map_option guildRow (hk_guild kill) \<and>
          (rf_encounterState row = Encounter_read \<or>
           (\<exists>code. rf_encounterLimitationCode row = Some code \<and>
              (isPermanent code \<or> (\<exists>r \<in> set (sa_unavailable stored). sr_loggedEncounterId r = i \<and> sr_code r = code))))) \<or>
        (\<exists>e subjectId className. map_get (fc_encounters c) i = Some e \<and> fw_getCharacter world = Some (Inr (Some subjectId, className)) \<and>
           rosterDisproof E (fw_resolution world) later subjectId className e)"
proof (cases "hk_loggedEncounterId kill")
  case None
  then have "baseRow kill \<in> set (fc_kills c)" by (rule unlogged_kill_returned [OF assms(1,4)])
  with None show ?thesis by (simp add: bexI [of _ "baseRow kill"] baseRow_def)
next
  case (Some i)
  show ?thesis using logged_kill_settled [OF assms Some] by (simp only: Some option.case)
qed

subsection \<open>A small run\<close>

definition sampleSubject :: loggedMember where
  "sampleSubject =
     \<lparr>lm_raiderIoCharacterId = 99, lm_name = ''Ryii'', lm_realm = ''tarren-mill'', lm_region = ''eu'',
      lm_className = ''Mage'', lm_specName = ''Fire'', lm_role = ''dps'', lm_itemLevel = None\<rparr>"

definition sampleAnswer :: loggedEncounterAnswer where
  "sampleAnswer =
     \<lparr>la_raidSlug = ''manaforge-omega'', la_bossSlug = ''plexus-sentinel'', la_pulledAt = [], la_defeatedAt = ''1970-01-01T00:00:00.000Z'',
      la_durationMs = 0, la_itemLevel = (0, 0, 0), la_guild = None, la_deathCount = 0, la_vantusCount = None,
      la_shareRaidUntil = None, la_roster = Some [sampleSubject]\<rparr>"

definition sampleKills :: "historicMythicKill list" where
  "sampleKills =
     map (\<lambda>i. \<lparr>hk_raidSlug = ''manaforge-omega'', hk_bossSlug = ''plexus-sentinel'', hk_firstDefeated = ''1970-01-01T00:00:00.000Z'',
                hk_guild = None, hk_loggedEncounterId = i\<rparr>) [Some 8, None, Some 7]"

definition sampleStored :: storedAnswers where
  \<comment> \<open>encounter 8 was read with a hidden roster\<close>
  "sampleStored =
     \<lparr>sa_encounters = [\<lparr>se_encounter = encounterInput 8 (sampleAnswer\<lparr>la_roster := None\<rparr>), se_readAt = ''1970-01-01T00:00:00.000Z''\<rparr>],
      sa_unavailable = []\<rparr>"

definition sampleKillWorld :: "unit firstKillWorld" where
  "sampleKillWorld =
     \<lparr>fw_storedEncounters = (\<lambda>_. Inr sampleStored), fw_getLoggedEncounter = (\<lambda>_ _. Encounter_answered sampleAnswer),
      fw_saveAnswers = (\<lambda>_ _. Inr ()), fw_getCharacter = Some (Inr (Some 99, ''Mage'')), fw_resolution = None\<rparr>"

definition samplePlan :: firstKillReads where
  "samplePlan = planReads ascii_env sampleKills None sampleStored (8 * dayMs)"

definition sampleReads :: readState where
  "sampleReads = (initialReads samplePlan)\<lparr>rs_readNow := [encounterInput 7 sampleAnswer, encounterInput 8 sampleAnswer]\<rparr>"

lemma samplePlan_toRead: "fr_toRead samplePlan = [7, 8]"
  by code_simp

lemma sampleReads_settle: "readsSettle ascii_env sampleKillWorld sampleKills None (8 * dayMs) samplePlan False (Inr sampleReads)"
proof -
  let ?W = "readWork samplePlan (fw_getLoggedEncounter sampleKillWorld)"
  let ?run = "runEvents RAIDER_IO_LOGGED_ENCOUNTER_CONCURRENCY ?W [Starts 7, Starts 8, Settles 7, Settles 8]
    (runWorks RAIDER_IO_LOGGED_ENCOUNTER_CONCURRENCY (fr_toRead samplePlan) (initialReads samplePlan))"
  have "case ?run of None \<Rightarrow> False | Some run \<Rightarrow> promiseAll run = Some (Inr sampleReads) \<and> \<not> cl_aborted run"
    unfolding samplePlan_toRead by code_simp
  then obtain run where run: "?run = Some run" "promiseAll run = Some (Inr sampleReads)" "\<not> cl_aborted run"
    by (auto split: option.splits)
  have "storedFor sampleKillWorld sampleKills = Inr sampleStored" by code_simp
  then show ?thesis
    using reads_settle [of sampleKillWorld sampleKills sampleStored samplePlan ascii_env None "8 * dayMs" run] run
      runEvents_reaches [OF run(1)]
    by (simp add: worksReach_def samplePlan_def)
qed

definition sampleCollection :: firstKillCollection where
  "sampleCollection =
     settleKills samplePlan sampleKills [] sampleReads (savedReads samplePlan sampleReads) (Some (Character_id 99 ''Mage''))
       (Some ([(8, Is_present), (7, Is_present)], None))"

lemma sampleCollection_collected:
  "collectsFirstKills ascii_env sampleKillWorld sampleKills [] None (8 * dayMs) 0 (Inr sampleCollection)"
proof -
  let ?known = "savedReads samplePlan sampleReads"
  let ?asked = "toCheck (establishedIds []) ?known"
  have saved: "saveReads sampleKillWorld samplePlan sampleReads = (?known, sampleReads)" by code_simp
  have asked: "?asked \<noteq> []" by code_simp
  have character: "raiderIoCharacterId (fw_getCharacter sampleKillWorld) False = Inr (Character_id 99 ''Mage'')" by code_simp
  have "conclusion (scanEncounters ascii_env 99 ''Mage'' ?asked) (unavailableAnswers (ps_locators (scanEncounters ascii_env 99 ''Mage'' ?asked)) []) =
      ([(8, Is_present), (7, Is_present)], None)" by code_simp
  moreover have "fw_resolution sampleKillWorld = None" by (simp add: sampleKillWorld_def)
  ultimately have found: "resolvesPresence ascii_env (fw_resolution sampleKillWorld) 0 ?asked 99 ''Mage''
      (Inr ([(8, Is_present), (7, Is_present)], None))"
    using without_resolver [of "fw_resolution sampleKillWorld" _ ascii_env 99 "''Mage''" ?asked 0, OF _ refl] by simp
  show ?thesis
    unfolding sampleCollection_def by (rule presence_checked [OF sampleReads_settle saved asked _ character found]) simp
qed

lemma sampleStored_for: "storedFor sampleKillWorld sampleKills = Inr sampleStored"
  by code_simp

theorem reads_planned_witness:
  "fr_toRead (planReads ascii_env sampleKills None sampleStored (8 * dayMs)) = [7, 8] \<and>
   namedBy sampleKills 7 \<and> dueAgain ascii_env (8 * dayMs) sampleStored 8"
proof -
  have "\<forall>e \<in> set (sa_encounters sampleStored). dateParse ascii_env (se_readAt e) \<noteq> None" by code_simp
  moreover have "\<forall>r \<in> set (sa_unavailable sampleStored). dateParse ascii_env (sr_readAt r) \<noteq> None" by code_simp
  moreover have "answeredBefore sampleStored 8" by (simp add: answeredBefore_def sampleStored_def encounterInput_def)
  ultimately show ?thesis
    using reads_planned [OF _ _ refl, of sampleStored ascii_env sampleKills None "8 * dayMs"] samplePlan_toRead
    unfolding samplePlan_def by simp
qed

theorem stored_reads_stand_witness:
  "\<exists>e. map_get (fc_encounters sampleCollection) 8 = Some e \<and>
     sameKill (encounterInput 8 (sampleAnswer\<lparr>la_roster := None\<rparr>)) e \<and> le_rosterState e = Roster_available"
proof -
  have "map_get (storedReads sampleStored) 8 = Some (encounterInput 8 (sampleAnswer\<lparr>la_roster := None\<rparr>))" by code_simp
  then obtain e where "map_get (fc_encounters sampleCollection) 8 = Some e"
    "sameKill (encounterInput 8 (sampleAnswer\<lparr>la_roster := None\<rparr>)) e"
    using stored_reads_stand [OF sampleCollection_collected sampleStored_for] by blast
  moreover have "map_option le_rosterState (map_get (fc_encounters sampleCollection) 8) = Some Roster_available" by code_simp
  ultimately show ?thesis by auto
qed

theorem first_kills_earned_witness:
  "map (\<lambda>row. (rf_loggedEncounterId row, rf_presenceChecked row)) (fc_kills sampleCollection) =
     [(Some 8, Some True), (None, Some False), (Some 7, Some True)] \<and>
   (\<exists>e. map_get (fc_encounters sampleCollection) 7 = Some e \<and>
      rosterProof ascii_env (fw_resolution sampleKillWorld) 0 99 ''Mage'' e)"
proof -
  have rows: "map (\<lambda>row. (rf_loggedEncounterId row, rf_presenceChecked row, rf_encounterState row)) (fc_kills sampleCollection) =
      [(Some 8, Some True, Encounter_read), (None, Some False, Encounter_unavailable), (Some 7, Some True, Encounter_read)]" by code_simp
  then obtain row where row: "row \<in> set (fc_kills sampleCollection)" "rf_loggedEncounterId row = Some 7"
    "rf_presenceChecked row = Some True" "rf_encounterState row = Encounter_read"
    by (fastforce simp: map_eq_Cons_conv)
  have "\<exists>e. map_get (fc_encounters sampleCollection) 7 = Some e \<and>
      rosterProof ascii_env (fw_resolution sampleKillWorld) 0 99 ''Mage'' e"
    using first_kills_earned [OF sampleCollection_collected row(1)] row(2-4)
    by (auto simp: establishedIn_def sampleKillWorld_def)
  moreover have "map (\<lambda>row. (rf_loggedEncounterId row, rf_presenceChecked row)) (fc_kills sampleCollection) =
      [(Some 8, Some True), (None, Some False), (Some 7, Some True)]"
    using rows by (auto simp: map_eq_Cons_conv)
  ultimately show ?thesis by blast
qed

theorem collection_complete_witness:
  "fc_limitation sampleCollection = None \<and> (\<exists>row \<in> set (fc_kills sampleCollection). rf_loggedEncounterId row = Some 7) \<and>
   (\<exists>row \<in> set (fc_kills sampleCollection). rf_loggedEncounterId row = None \<and> rf_killedAt row = ''1970-01-01T00:00:00.000Z'')"
proof -
  let ?kill = "\<lambda>i. \<lparr>hk_raidSlug = ''manaforge-omega'', hk_bossSlug = ''plexus-sentinel'', hk_firstDefeated = ''1970-01-01T00:00:00.000Z'',
                hk_guild = None, hk_loggedEncounterId = i\<rparr>"
  have none: "fc_limitation sampleCollection = None" by code_simp
  note complete = collection_complete [OF sampleCollection_collected sampleStored_for none]
  have kills: "?kill (Some 7) \<in> set sampleKills" "?kill None \<in> set sampleKills" by (simp_all add: sampleKills_def)
  have "map_option (\<lambda>e. \<not> listsSubject 99 e) (map_get (fc_encounters sampleCollection) 7) = Some False" by code_simp
  then have "\<exists>row \<in> set (fc_kills sampleCollection). rf_loggedEncounterId row = Some 7"
    using complete [OF kills(1)] by (auto simp: rosterDisproof_def sampleKillWorld_def)
  moreover have "\<exists>row \<in> set (fc_kills sampleCollection). rf_loggedEncounterId row = None \<and> rf_killedAt row = ''1970-01-01T00:00:00.000Z''"
    using complete [OF kills(2)] by auto
  ultimately show ?thesis using none by blast
qed

end
