(* ===== verification/Spec2Isabelle.thy ===== *)
theory Spec2Isabelle
  imports DiscoveryCorrect FingerprintCorrect ConnectionsCorrect RaidCatalogueCorrect GuildHistoryCorrect DossierCorrect
    BoundedCache PhaseLedger EvidencePolicyCorrect LinkStrengthCorrect GroupSubjectsCorrect GroupPagesCorrect RequestLimiter EvidenceMerge CollectionPlanCorrect FirstKillsCorrect
begin

text \<open>
  SlashWho answers one question about a World of Warcraft applicant: which characters are the same
  player's, and what did they kill while it was current. A search by character starts a
  \<^bold>\<open>discovery\<close> (Raider.IO profiles and guilds, then an achievement-fingerprint sweep of guild
  rosters); what it finds becomes \<^bold>\<open>links\<close> whose connected components are the groups the product
  shows; a \<^bold>\<open>collection run\<close> per character reads Warcraft Logs, Raider.IO and Blizzard under a
  points budget and publishes stored evidence; a \<^bold>\<open>dossier\<close> is assembled from that evidence and the
  \<^bold>\<open>raid catalogue\<close>. The decisions are pure TypeScript under \<open>packages/domain/src\<close> and
  \<open>packages/application/src\<close>; this library models those and proves what they promise.

  \<^bold>\<open>Theories, in the order of the code.\<close>

  \<^item> \<open>Prelude\<close>: JavaScript comparators (locale \<open>js_comparator\<close>) and stable sorting, insertion-ordered
    maps as association lists without repeated keys, \<open>keep_first\<close> and grouping. \<open>JsRuntime\<close>: dynamically
    typed payloads, \<open>JSON.stringify\<close>, dates, and what is taken from the platform, as the record
    \<open>js_env\<close> with its laws in the locale \<open>js_runtime\<close> (and \<open>js_urls\<close> for the URL parser), interpreted on
    the concrete \<open>ascii_env\<close> the witnesses run on. \<open>Doubles\<close>: rounding of exact rationals to doubles.
  \<^item> \<open>CharacterKey\<close> (\<open>character-key.ts\<close>, \<open>deduplicate.ts\<close>, \<open>display-name.ts\<close>): keys, their validation,
    URLs and canonical ids. Injective ids, the URL round trip, de-duplication keeps the first.
  \<^item> \<open>Discovery\<close>, \<open>DiscoveryCorrect\<close> (\<open>discovery.ts\<close>, \<open>upstream-http/src/failure.ts\<close>): the relationship
    sweep as a state record with the gateway and the suppression check as parameters, and the pool of
    concurrent guild reads under an arbitrary scheduler. One invariant rule in the locale
    \<open>sweep_invariant\<close> gives the request budget and, through \<open>suppression_contract\<close>, that no suppressed
    character is published; then the shape of a snapshot, honest request caps and retries of failures.
  \<^item> \<open>Fingerprint\<close>, \<open>FingerprintCorrect\<close> (\<open>fingerprint-discovery.ts\<close>): the roster sweep as a pool whose
    moves interleave arbitrarily; budget, completeness over the root's roster and those
    of its former guilds, the cursor, thresholds in double arithmetic.
  \<^item> \<open>Connections\<close>, \<open>ConnectionsCorrect\<close> (\<open>character-connections.ts\<close>): retraction decisions, union-find
    components proved to be the connected components, and the inheritance of group ids.
  \<^item> \<open>LinkStrength\<close> (the rest of \<open>character-connections.ts\<close>): how strongly the origin is linked to each
    character, by Tarjan's edge-stack search for biconnected components and a walk of the block-cut
    tree. \<open>SimplePaths\<close> has the graph theory: in a graph no single vertex disconnects, two vertices are
    joined by a simple path through any given link, and a tree of such blocks adds up. \<open>LinkBlocks\<close>
    proves the search, in the locale \<open>link_graph\<close> interpreted on the adjacency map the code builds;
    \<open>LinkStrengthCorrect\<close> proves the walk and that \<open>pathStrengths\<close> is the rule its comment states.
  \<^item> \<open>GroupSubjects\<close>, \<open>GroupSubjectsCorrect\<close> (\<open>dossier-subjects.ts\<close>, \<open>group-subjects.ts\<close>,
    \<open>shared-warcraft-logs-identity.ts\<close>): who is on a dossier page, in the older resolution from a
    snapshot and in the newer one over the group graph. A page shows the characters reached, labelled
    by \<open>pathStrengths\<close>, each of them once, and hides what its members excluded.
  \<^item> \<open>GroupReplay\<close> (\<open>character-groups-replay.ts\<close>): the checks of stored groups, ledger and pages
    against each other. \<open>GroupReplayCorrect\<close> shows that the drift check (a union-find over positions
    in the list of components) is clean exactly when the stored groups are the components, and that the
    ledger check is clean exactly when the ledger accounts for what was written; \<open>GroupPagesCorrect\<close>
    that a clean comparison of pages means the new pages have lost nothing.
  \<^item> \<open>RaidCatalogue\<close>, \<open>RaidCatalogueCorrect\<close> (\<open>raid-catalogue.ts\<close>, \<open>dungeon-catalogue.ts\<close>,
    \<open>kill-matching.ts\<close>, \<open>cutting-edge-catalogue.ts\<close>): content windows, name and slug indexes, tiers,
    attribution of evidence. The generated JSON catalogues are the parameter \<open>catalogueData\<close>.
  \<^item> \<open>GuildHistory\<close>, \<open>GuildHistoryCorrect\<close> (\<open>guild-history.ts\<close>): the raid nights of each guild as a set of
    triples, and the timeline spans that draw each of them once.
  \<^item> \<open>Dossier\<close>, \<open>DossierCorrect\<close> (\<open>applicant-dossier.ts\<close>): the whole assembly, from sorting kills and
    lending Raider.IO first kills to the raids shown; nothing supplied goes missing, only current
    content is shown, and a dossier is returned.
  \<^item> \<open>BoundedCache\<close> (\<open>bounded-cache.ts\<close>): the cache of provider reads as a step relation over calls and
    settling loads. \<open>PhaseLedger\<close> (\<open>evidence-phase-ledger.ts\<close>): the phases of a collection run, on
    a fresh ledger or one restored from its rows: every operation is a sequence of legal transitions in the
    order of the plan, and what is persisted gives the ledger back.
  \<^item> \<open>EvidencePolicy\<close>, \<open>EvidencePolicyCorrect\<close> (\<open>terminal-tiers.ts\<close>, \<open>settled-collection.ts\<close>,
    \<open>evidence-retry-policy.ts\<close>, \<open>limitation-retry-policy.ts\<close>, \<open>evidence-run-budget.ts\<close>, \<open>rate-limit.ts\<close>):
    which tiers a run may stop asking about, where its scan may stop, what is retried and when. The
    catalogue enters through the locale \<open>conclusion_contract\<close>.
  \<^item> \<open>JsNumber\<close>: the conversion of strings to numbers. \<open>CollectionPlan\<close>, \<open>CollectionPlanCorrect\<close>
    (\<open>warcraftlogs-collection-plan.ts\<close>, \<open>verified-kills.ts\<close>, the tier table of
    \<open>packages/raiderio/src/client.ts\<close>): what a run spends its Warcraft Logs budget on and which Raider.IO
    tiers it asks; exactly what needs reading is planned, and no search hint is lost.
  \<^item> \<open>ConcurrencyLimiter\<close> (\<open>concurrency.ts\<close>): works under a limit as a step relation over a shared state.
    The limit, the order and the end of every run are proved for any works; the locale \<open>shared_works\<close>
    carries an invariant of the shared state through every interleaving.
  \<^item> \<open>RosterPresence\<close>, \<open>RosterPresenceCorrect\<close> (\<open>roster-profile-presence.ts\<close>): whether a character is on a
    roster, with the pool of four workers that ask Raider.IO about renamed profiles. Presence and
    absence are said only with proof, and the requests are bounded.
  \<^item> \<open>FirstKills\<close>, \<open>FirstKillsCorrect\<close> (\<open>collectRaiderIoFirstKills\<close> of \<open>raiderio-first-kills.ts\<close>): the plan of
    the logged encounters to read, the reads under the limiter (an interpretation of \<open>shared_works\<close>), the
    save, the presence check above and the kills returned. What was read stands, what is returned is
    earned, and a run without a shortfall has settled every kill.
  \<^item> \<open>EvidenceMerge\<close> (\<open>merge.ts\<close>, \<open>freshness.ts\<close> and the parse of performance values of
    \<open>packages/database/src/evidence\<close>): how a publication is merged with the stored evidence; each row
    has the latest of what was ever read, field by field. \<open>RequestLimiter\<close> (\<open>packages/blizzard/src/request-limiter.ts\<close>): the rate limiter
    as a step relation with a clock; its bounds, its order and that it does not stall.

  \<^bold>\<open>Conventions.\<close> A class or object literal is a record with prefixed fields, a union a datatype, an
  absent field \<^term>\<open>None\<close>; a thrown error is the left of a sum. Strings are character lists compared
  as JavaScript does. Times are integers of milliseconds; an unreadable date is \<^term>\<open>None\<close>, and its
  comparisons are false as those of \<open>NaN\<close> are. Integers that JavaScript keeps exactly are \<^typ>\<open>int\<close> or
  \<^typ>\<open>nat\<close>; where a fraction is computed, the exact rational is rounded to a double.

  \<^bold>\<open>Asynchronous code.\<close> An awaited call is a call of a parameter; where several are outstanding at
  once, the order in which they settle is an argument (\<open>pick\<close>) or a nondeterministic step, so the
  theorems hold for every interleaving. The limiters, the pool of presence workers and the cache are
  step relations whose steps run from one \<open>await\<close> to the following one; an abort may come between any two.

  \<^bold>\<open>Fuel and termination.\<close> Loops over data are structural. The pools of reads terminate by a measure.
  The walks of union-find return an option whose presence is part of \<open>components_connected\<close> and of
  \<open>audit_drift_exact\<close>; the
  search for blocks runs on as many steps as the adjacency map has keys, and one, and that it returns is
  part of \<open>path_strengths_exact\<close>. The walk of the block-cut tree terminates by a measure.
  \<open>lookupRaiderIoBoss\<close> calls itself once through a renamed boss: fuel 2 is enough and more changes
  nothing (\<open>raiderIoBoss_terminates\<close>).

  \<^bold>\<open>Not modelled.\<close> In \<open>packages/application\<close> the job handlers and the dossier service, which sequence
  repository and gateway calls around the policies above, the world ranks of first kills
  (\<open>rankRaiderIoFirstKills\<close>), the tier search and the attribution of throttling; in \<open>packages/domain\<close> the
  layout of the guild timeline; in \<open>packages/database\<close> the SQL (the repositories are parameters, and the
  audit of the replay is a record of what it loads); \<open>packages/contracts\<close> (schemas); the clients of
  \<open>packages/warcraftlogs\<close>, \<open>packages/raiderio\<close> and \<open>packages/blizzard\<close> beyond the parts named above, with the
  normalisation of their payloads, and the transport \<open>packages/upstream-http\<close>; \<open>apps/web\<close> and
  \<open>apps/worker\<close>. The memoisation of canonical ids by object identity in the dossier cannot be observed
  and is left out, and so are the reports of waits of the concurrency limiter.
\<close>

end
